(* ===== verification/Smpl_Prelude.thy ===== *)
theory Smpl_Prelude
  imports Main "HOL-Library.Word"
begin

text \<open>
  Vocabulary shared by every theory of the development: the C integer types of the
  i386 target as words, the ways in which a piece of kernel code can fail to deliver a
  result, bounded array access, and the generic lemmas on words and lists that the
  component proofs rest on.
\<close>

unbundle bit_operations_syntax

type_synonym u8 = "8 word"
type_synonym u16 = "16 word"
type_synonym u32 = "32 word"
type_synonym u64 = "64 word"

text \<open>
  A C value of type \<open>int\<close> is also kept as a \<open>u32\<close>; signed comparisons read it through
  \<^const>\<open>sint\<close>. \<open>Panic\<close> is a call of \<open>kpanic\<close>, which disables interrupts and halts;
  \<open>DivZero\<close> is a division fault; \<open>Wild\<close> is an access outside the object the code
  means to touch (undefined behaviour in C, never given a made-up meaning here).
\<close>

datatype fault = Panic string | DivZero | Wild

type_synonym 'a res = "fault + 'a"

definition sbind :: "'a res \<Rightarrow> ('a \<Rightarrow> 'b res) \<Rightarrow> 'b res" where
  "sbind m f = (case m of Inl e \<Rightarrow> Inl e | Inr x \<Rightarrow> f x)"

lemma sbind_simps [simp]:
  "sbind (Inl e) f = Inl e"
  "sbind (Inr x) f = f x"
  by (simp_all add: sbind_def)

lemma sbind_eq_Inr_iff: "sbind m f = Inr y \<longleftrightarrow> (\<exists>x. m = Inr x \<and> f x = Inr y)"
  by (cases m) simp_all

text \<open>The same where a computation may also run out of fuel or not end, which is \<open>None\<close>.\<close>

definition res_bind :: "'a res option \<Rightarrow> ('a \<Rightarrow> 'b res option) \<Rightarrow> 'b res option" where
  "res_bind m f = (case m of None \<Rightarrow> None | Some (Inl e) \<Rightarrow> Some (Inl e) | Some (Inr x) \<Rightarrow> f x)"

lemma res_bind_simps [simp]:
  "res_bind None f = None" "res_bind (Some (Inl e)) f = Some (Inl e)" "res_bind (Some (Inr x)) f = f x"
  by (simp_all add: res_bind_def)

text \<open>Array accesses with the bounds of the C object.\<close>

definition load_at :: "'a list \<Rightarrow> nat \<Rightarrow> 'a res" where
  "load_at xs i = (if i < length xs then Inr (xs ! i) else Inl Wild)"

definition store_at :: "'a list \<Rightarrow> nat \<Rightarrow> 'a \<Rightarrow> 'a list res" where
  "store_at xs i v = (if i < length xs then Inr (xs[i := v]) else Inl Wild)"

lemma load_at_in [simp]: "i < length xs \<Longrightarrow> load_at xs i = Inr (xs ! i)"
  by (simp add: load_at_def)

lemma store_at_in [simp]: "i < length xs \<Longrightarrow> store_at xs i v = Inr (xs[i := v])"
  by (simp add: store_at_def)

lemma load_at_out: "\<not> i < length xs \<Longrightarrow> load_at xs i = Inl Wild"
  by (simp add: load_at_def)

lemma store_at_out: "\<not> i < length xs \<Longrightarrow> store_at xs i v = Inl Wild"
  by (simp add: store_at_def)

text \<open>Byte-addressed memory, and the little-endian fields in it.\<close>

type_synonym bytes = "u32 \<Rightarrow> u8"

definition rd16 :: "bytes \<Rightarrow> u32 \<Rightarrow> u16" where
  "rd16 m a = ucast (m a) OR push_bit 8 (ucast (m (a + 1)))"

definition rd32 :: "bytes \<Rightarrow> u32 \<Rightarrow> u32" where
  "rd32 m a = ucast (m a) OR push_bit 8 (ucast (m (a + 1))) OR push_bit 16 (ucast (m (a + 2)))
     OR push_bit 24 (ucast (m (a + 3)))"

definition wr16 :: "u32 \<Rightarrow> u16 \<Rightarrow> bytes \<Rightarrow> bytes" where
  "wr16 a w m = m(a := ucast w, a + 1 := ucast (drop_bit 8 w))"

definition wr32 :: "u32 \<Rightarrow> u32 \<Rightarrow> bytes \<Rightarrow> bytes" where
  "wr32 a w m = m(a := ucast w, a + 1 := ucast (drop_bit 8 w), a + 2 := ucast (drop_bit 16 w),
     a + 3 := ucast (drop_bit 24 w))"

lemma rd32_wr32 [simp]: "rd32 (wr32 a w m) a = w"
proof -
  have "bit (rd32 (wr32 a w m) a) n = bit w n" for n
    by (cases "n < 8"; cases "n < 16"; cases "n < 24"; cases "n < 32")
      (auto simp: rd32_def wr32_def bit_simps dest: bit_imp_le_length)
  then show ?thesis by (intro bit_eqI) simp
qed

lemma wr32_other: "b \<noteq> a \<Longrightarrow> b \<noteq> a + 1 \<Longrightarrow> b \<noteq> a + 2 \<Longrightarrow> b \<noteq> a + 3 \<Longrightarrow> wr32 a w m b = m b"
  by (simp add: wr32_def)

lemma rd16_wr16 [simp]: "rd16 (wr16 a w m) a = w"
proof -
  have "bit (rd16 (wr16 a w m) a) n = bit w n" for n
    by (cases "n < 16") (auto simp: rd16_def wr16_def bit_simps dest: bit_imp_le_length)
  then show ?thesis by (intro bit_eqI) simp
qed

text \<open>Collections that the component theories fill and their proofs use.\<close>

named_theorems kdefs "unfolding rules of small operations"
named_theorems kinvs "preservation of invariants"

subsection \<open>Words\<close>

lemma unat_u32_less [simp]: "unat (w :: u32) < 4294967296"
  using unsigned_less [of w, where ?'a = nat] by simp

lemma unat_u8_less [simp]: "unat (w :: u8) < 256"
  using unsigned_less [of w, where ?'a = nat] by simp

lemma unat_u16_less [simp]: "unat (w :: u16) < 65536"
  using unsigned_less [of w, where ?'a = nat] by simp

lemma unat_plus1_u32: "unat w + 1 < 4294967296 \<Longrightarrow> unat ((w :: u32) + 1) = unat w + 1"
  by (simp add: unat_word_ariths)

lemma unat_plus_u32:
  "unat v + unat w < 4294967296 \<Longrightarrow> unat ((v :: u32) + w) = unat v + unat w"
  by (simp add: unat_word_ariths)

lemma unat_minus1_u32: "w \<noteq> 0 \<Longrightarrow> unat ((w :: u32) - 1) = unat w - 1"
  by (metis unat_minus_one)

lemma unat_eq_0_u32: "unat (w :: u32) = 0 \<longleftrightarrow> w = 0"
  by (rule unat_eq_zero)

lemma u32_eq_iff: "(v :: u32) = w \<longleftrightarrow> unat v = unat w"
  by (simp add: word_unat_eq_iff)

lemma unat_minus_one_u32 [simp]: "unat (- 1 :: u32) = 4294967295"
  by (simp add: unsigned_minus_1_eq_mask mask_eq_exp_minus_1)

lemma unat_of_nat_u32: "n < 4294967296 \<Longrightarrow> unat (of_nat n :: u32) = n"
  by (simp add: unat_of_nat take_bit_eq_mod)

text \<open>The signed reading of a C \<open>int\<close>.\<close>

lemma sint_u32_eq:
  "sint (w :: u32) = (if unat w < 2147483648 then int (unat w) else int (unat w) - 4294967296)"
proof -
  have "sint w = (uint w + 2147483648) mod 4294967296 - 2147483648"
    by (simp add: sint_uint signed_take_bit_eq_take_bit_shift take_bit_eq_mod)
  moreover have "(uint w + 2147483648) mod 4294967296
      = (if uint w < 2147483648 then uint w + 2147483648 else uint w - 2147483648)"
  proof (cases "uint w < 2147483648")
    case True
    then show ?thesis by (simp add: mod_pos_pos_trivial)
  next
    case False
    have "(uint w - 2147483648 + 4294967296) mod 4294967296 = uint w - 2147483648"
      using False unsigned_less [of w, where ?'a = int]
      by (subst mod_add_self2) (simp add: mod_pos_pos_trivial)
    with False show ?thesis by (simp add: algebra_simps)
  qed
  moreover have "int (unat w) = uint w" by simp
  ultimately show ?thesis by (simp only: split: if_split, intro conjI impI; linarith)
qed

lemma sint_small: "unat (w :: u32) < 2147483648 \<Longrightarrow> sint w = int (unat w)"
  by (simp only: sint_u32_eq if_True)

lemma sint_nonneg_iff: "0 \<le> sint (w :: u32) \<longleftrightarrow> unat w < 2147483648"
  using unat_u32_less [of w] by (simp only: sint_u32_eq split: if_splits) linarith

text \<open>Widening and truncating back.\<close>

lemma ucast_down_up [simp]:
  "(ucast (ucast (a :: u8) :: u32) :: u8) = a"
  "(ucast (ucast (b :: u16) :: u32) :: u16) = b"
  "(ucast (ucast (a :: u8) :: u16) :: u8) = a"
  "(ucast (ucast (c :: u32) :: u64) :: u32) = c"
  by (rule bit_word_eqI, simp add: bit_simps)+

lemma unat_ucast_up [simp]:
  "unat (ucast (a :: u8) :: u32) = unat a"
  "unat (ucast (b :: u16) :: u32) = unat b"
  "unat (ucast (c :: u32) :: u64) = unat c"
proof -
  have "unat a < 256" "unat b < 65536" "unat c < 4294967296" by simp_all
  then show "unat (ucast a :: u32) = unat a" "unat (ucast b :: u32) = unat b"
    "unat (ucast c :: u64) = unat c"
    by (simp_all add: unsigned_ucast_eq take_bit_eq_mod
        del: unat_u8_less unat_u16_less unat_u32_less)
qed

lemma unat_and_mask: "unat ((w :: 'a :: len word) AND mask n) = unat w mod 2 ^ n"
  unfolding take_bit_eq_mask [symmetric] unsigned_take_bit_eq by (rule take_bit_eq_mod)

lemma unat_and_masks:
  "unat ((w :: u32) AND 0xF) = unat w mod 16"
  "unat ((w :: u32) AND 0xFF) = unat w mod 256"
  "unat ((w :: u32) AND 0x3FF) = unat w mod 1024"
  "unat ((w :: u32) AND 0xFFF) = unat w mod 4096"
  using unat_and_mask [of w 4] unat_and_mask [of w 8] unat_and_mask [of w 10] unat_and_mask [of w 12]
  by (simp_all add: mask_eq_exp_minus_1)

text \<open>Cutting a word into fields and joining them again.\<close>

lemma ucast_u16_take: "(ucast (ucast (b :: u32) :: u16) :: u32) = take_bit 16 b"
  by (rule bit_word_eqI) (auto simp: bit_simps)

lemma ucast_u8_take: "(ucast (ucast (b :: u32) :: u8) :: u32) = take_bit 8 b"
  by (rule bit_word_eqI) (auto simp: bit_simps)

lemma take_or_push_drop: "take_bit k (b :: u32) OR push_bit k (drop_bit k b) = b"
  apply (rule bit_word_eqI)
  subgoal for n by (cases "n < k") (auto simp: bit_simps)
  done

lemma bit_u32_less: "bit (b :: u32) n \<Longrightarrow> n < 32"
  using bit_imp_le_length [of b n] by simp

lemma take_drop_top: "k + m = 32 \<Longrightarrow> take_bit m (drop_bit k (b :: u32)) = drop_bit k b"
  by (rule bit_word_eqI) (auto simp: bit_simps dest: bit_u32_less)

lemma split_join_bytes:
  "take_bit 16 b OR push_bit 16 (take_bit 8 (drop_bit 16 b)) OR push_bit 24 (drop_bit 24 b) = (b :: u32)"
  apply (rule bit_word_eqI)
  subgoal for n
    apply (cases "n < 16"; cases "n < 24")
       apply (auto simp: bit_simps dest: bit_u32_less)
    done
  done

lemma and_masks_u32:
  "(w :: u32) AND 0xFFFF = take_bit 16 w"
  "(w :: u32) AND 0xFFF = take_bit 12 w"
  "(w :: u32) AND 0x3FF = take_bit 10 w"
  "(w :: u32) AND 0xFF = take_bit 8 w"
  "(w :: u32) AND 0xF = take_bit 4 w"
  by (simp_all add: take_bit_eq_mask mask_eq_exp_minus_1)

lemma unat_and_not_mask: "unat ((w :: u32) AND NOT (mask k)) = unat w - unat w mod 2 ^ k"
proof -
  have "(w AND mask k) + (w AND NOT (mask k)) = (w AND mask k) OR (w AND NOT (mask k))"
    by (rule disjunctive_add) (auto simp: bit_simps)
  also have "\<dots> = w" by (rule bit_word_eqI) (auto simp: bit_simps)
  finally have "w = (w AND mask k) + (w AND NOT (mask k))" by (rule sym)
  then have "w AND NOT (mask k) = w - (w AND mask k)" by (simp add: algebra_simps)
  moreover have "w AND mask k \<le> w" by (rule word_and_le2)
  ultimately show ?thesis by (simp add: unat_sub unat_and_mask)
qed

text \<open>Lengths and indices are naturals here: keep \<^const>\<open>unat\<close> as it is under \<^const>\<open>int\<close>.\<close>

declare of_nat_unat [simp del]

lemma of_nat_unat_word [simp]:
  "(of_nat (unat (w :: u32)) :: u32) = w"
  "(of_nat (unat (b :: u8)) :: u8) = b"
  "(of_nat (unat (h :: u16)) :: u16) = h"
  by (simp_all add: of_nat_unat)

subsection \<open>Lists\<close>

lemma nth_map_upt0: "i < n \<Longrightarrow> map f [0..<n] ! i = f i"
  by simp

lemma map_upt_cong: "(\<And>i. i < n \<Longrightarrow> f i = g i) \<Longrightarrow> map f [0..<n] = map g [0..<n]"
  by simp

lemma map_upt_Suc_tl: "tl (map f [0..<Suc n]) = map (\<lambda>i. f (Suc i)) [0..<n]"
  by (rule nth_equalityI) (simp_all add: nth_tl del: upt_Suc)

lemma mod_add_one_inj:
  fixes a b n :: nat
  assumes "a < n" "b < n" "(f + a) mod n = (f + b) mod n"
  shows "a = b"
proof -
  obtain q r where "f + a + n * q = f + b + n * r"
    using assms(3) by (auto simp: nat_mod_eq_iff)
  then have "a mod n = b mod n"
    by (metis add.assoc add_left_cancel mod_mult_self2)
  with assms(1,2) show ?thesis by simp
qed

end
