(* ===== verification/Fifo.thy ===== *)
theory Fifo
  imports Smpl_Prelude
begin

text \<open>
  The interface of a first-in first-out buffer, as its clients in the kernel use it:
  elements are put one at a time until the buffer reports that it is full and are taken
  out in order. Providers are the circular queue of \<open>misc/types/queue.c\<close> and the byte
  ring of \<open>fs/pipe.c\<close>; \<open>bounded_fifo\<close> is the stronger contract of a buffer whose
  fullness test is exact.
\<close>

locale fifo =
  fixes inv :: "'s \<Rightarrow> bool"
    and contents :: "'s \<Rightarrow> 'a list"
    and is_full :: "'s \<Rightarrow> bool"
    and put :: "'s \<Rightarrow> 'a \<Rightarrow> 's"
    and get :: "'s \<Rightarrow> 'a \<times> 's"
  assumes put_inv: "inv s \<Longrightarrow> \<not> is_full s \<Longrightarrow> inv (put s a)"
    and put_contents: "inv s \<Longrightarrow> \<not> is_full s \<Longrightarrow> contents (put s a) = contents s @ [a]"
    and get_inv: "inv s \<Longrightarrow> contents s \<noteq> [] \<Longrightarrow> inv (snd (get s))"
    and get_value: "inv s \<Longrightarrow> contents s \<noteq> [] \<Longrightarrow> fst (get s) = hd (contents s)"
    and get_contents: "inv s \<Longrightarrow> contents s \<noteq> [] \<Longrightarrow> contents (snd (get s)) = tl (contents s)"
begin

text \<open>The client loops: put a list until full, take up to \<open>n\<close> elements.\<close>

primrec puts :: "'s \<Rightarrow> 'a list \<Rightarrow> nat \<times> 's" where
  "puts s [] = (0, s)"
| "puts s (x # xs) =
     (if is_full s then (0, s) else (let r = puts (put s x) xs in (Suc (fst r), snd r)))"

primrec gets :: "nat \<Rightarrow> 's \<Rightarrow> 'a list \<times> 's" where
  "gets 0 s = ([], s)"
| "gets (Suc n) s =
     (if contents s = [] then ([], s)
      else (let r = gets n (snd (get s)) in (fst (get s) # fst r, snd r)))"

lemma puts_inv: "inv s \<Longrightarrow> inv (snd (puts s xs))"
  by (induction xs arbitrary: s) (auto simp: put_inv Let_def)

lemma puts_contents:
  "inv s \<Longrightarrow> contents (snd (puts s xs)) = contents s @ take (fst (puts s xs)) xs"
  by (induction xs arbitrary: s) (auto simp: put_inv put_contents Let_def)

lemma puts_count: "fst (puts s xs) \<le> length xs"
  by (induction xs arbitrary: s) (auto simp: Let_def)

lemma gets_inv: "inv s \<Longrightarrow> inv (snd (gets n s))"
  by (induction n arbitrary: s) (auto simp: get_inv Let_def)

lemma gets_result: "inv s \<Longrightarrow> fst (gets n s) = take n (contents s)"
proof (induction n arbitrary: s)
  case (Suc n)
  then show ?case
    by (cases "contents s") (auto simp: get_inv get_value get_contents Let_def)
qed simp

lemma gets_contents: "inv s \<Longrightarrow> contents (snd (gets n s)) = drop n (contents s)"
proof (induction n arbitrary: s)
  case (Suc n)
  then show ?case
    by (cases "contents s") (auto simp: get_inv get_contents Let_def)
qed simp

lemma puts_gets_roundtrip:
  assumes "inv s" "contents s = []" "fst (puts s xs) = length xs"
  shows "fst (gets (length xs) (snd (puts s xs))) = xs"
  using assms by (simp add: gets_result puts_inv puts_contents)

end

locale bounded_fifo = fifo inv contents is_full put get
  for inv :: "'s \<Rightarrow> bool" and contents :: "'s \<Rightarrow> 'a list" and is_full put get +
  fixes capacity :: "'s \<Rightarrow> nat"
  assumes full_iff: "inv s \<Longrightarrow> is_full s \<longleftrightarrow> length (contents s) = capacity s"
    and contents_le: "inv s \<Longrightarrow> length (contents s) \<le> capacity s"
    and put_capacity: "capacity (put s a) = capacity s"
begin

lemma puts_capacity: "capacity (snd (puts s xs)) = capacity s"
  by (induction xs arbitrary: s) (auto simp: put_capacity Let_def)

lemma puts_count_exact:
  "inv s \<Longrightarrow> fst (puts s xs) = min (length xs) (capacity s - length (contents s))"
proof (induction xs arbitrary: s)
  case (Cons x xs)
  show ?case
  proof (cases "is_full s")
    case True
    with Cons.prems show ?thesis by (simp add: full_iff)
  next
    case False
    with Cons.prems have "length (contents s) < capacity s"
      using full_iff contents_le by (metis le_neq_implies_less)
    with False Cons show ?thesis
      by (simp add: put_inv put_contents put_capacity Let_def)
  qed
qed simp

end

subsection \<open>Rings\<close>

text \<open>
  Both providers keep their elements in an array that wraps around: \<open>c\<close> elements from
  index \<open>f\<close> on, modulo the size.
\<close>

definition ring :: "'a list \<Rightarrow> nat \<Rightarrow> nat \<Rightarrow> 'a list" where
  "ring arr f c = map (\<lambda>k. arr ! ((f + k) mod length arr)) [0..<c]"

lemma length_ring [simp]: "length (ring arr f c) = c"
  by (simp add: ring_def)

lemma ring_0 [simp]: "ring arr f 0 = []"
  by (simp add: ring_def)

lemma ring_Suc: "ring arr f (Suc c) = arr ! (f mod length arr) # ring arr (Suc f) c"
  by (rule nth_equalityI) (auto simp: ring_def nth_Cons' simp del: upt_Suc)

lemma ring_mod: "ring arr (f mod length arr) c = ring arr f c"
  by (simp add: ring_def mod_add_left_eq)

lemma ring_snoc:
  assumes "c < length arr"
  shows "ring (arr[(f + c) mod length arr := v]) f (Suc c) = ring arr f c @ [v]"
proof -
  have n: "(f + c) mod length arr < length arr"
    using assms by (intro mod_less_divisor) linarith
  have "(f + c) mod length arr \<noteq> (f + k) mod length arr" if "k < c" for k
    using mod_add_one_inj [of k "length arr" c f] that assms by auto
  with n show ?thesis by (auto simp: ring_def nth_list_update_neq)
qed

lemma ring_update_front:
  assumes "c < length arr"
  shows "ring (arr[f mod length arr := v]) (Suc f) c = ring arr (Suc f) c"
proof -
  have "f mod length arr \<noteq> (Suc f + k) mod length arr" if "k < c" for k
    using mod_add_one_inj [of "Suc k" "length arr" 0 f] that assms by fastforce
  then show ?thesis by (auto simp: ring_def nth_list_update_neq)
qed

lemma mod_wrap_step:
  fixes i n :: nat
  assumes "i < n"
  shows "Suc i mod n = (if i = n - 1 then 0 else Suc i)"
  using assms by auto

lemma ring_distance:
  fixes f r n :: nat
  assumes "f < n" "r < n"
  shows "(f + (r + n - f) mod n) mod n = r"
  using assms by (cases "f \<le> r") (auto simp: mod_if)

end
