(* ===== verification/Kqueue.thy ===== *)
theory Kqueue
  imports Fifo
begin

text \<open>
  The circular queue of \<open>os/kernel/misc/types/queue.c\<close>. \<open>front\<close> and \<open>rear\<close> are C
  \<open>int\<close>s, \<open>size\<close> is a \<open>uint32_t\<close>, so mixed expressions are computed unsigned: they are
  all words here. The array is a list whose length is what was allocated.
\<close>

record kqueue =
  front :: u32
  rear :: u32
  qsize :: u32
  qarray :: "u32 list"

text \<open>
  \<open>cells\<close> is the block that \<open>kmalloc\<close> returned, whose contents are whatever was there.
  The C function has no \<open>return\<close> statement; the record is what it builds in memory.
\<close>

definition queue_create :: "u32 \<Rightarrow> u32 list \<Rightarrow> kqueue" where
  "queue_create cap cells = \<lparr>front = - 1, rear = - 1, qsize = cap, qarray = cells\<rparr>"

definition queue_isfull :: "kqueue \<Rightarrow> bool res" where
  "queue_isfull q =
     (if front q = 0 \<and> rear q = qsize q - 1 then Inr True
      else if qsize q - 1 = 0 then Inl DivZero
      else Inr (rear q = (front q - 1) mod (qsize q - 1)))"

definition queue_isempty :: "kqueue \<Rightarrow> bool" where
  "queue_isempty q \<longleftrightarrow> front q = - 1"

definition queue_enque :: "kqueue \<Rightarrow> u32 \<Rightarrow> kqueue res" where
  "queue_enque q val =
     sbind (queue_isfull q) (\<lambda>full.
       if full then Inr q
       else if front q = - 1 then
         sbind (store_at (qarray q) 0 val) (\<lambda>a.
           Inr (q\<lparr>front := 0, rear := 0, qarray := a\<rparr>))
       else if rear q = qsize q - 1 \<and> front q \<noteq> 0 then
         sbind (store_at (qarray q) 0 val) (\<lambda>a. Inr (q\<lparr>rear := 0, qarray := a\<rparr>))
       else
         sbind (store_at (qarray q) (unat (rear q + 1)) val) (\<lambda>a.
           Inr (q\<lparr>rear := rear q + 1, qarray := a\<rparr>)))"

definition queue_deque :: "kqueue \<Rightarrow> (u32 \<times> kqueue) res" where
  "queue_deque q =
     (if queue_isempty q then Inr (0, q)
      else sbind (load_at (qarray q) (unat (front q))) (\<lambda>data.
           sbind (store_at (qarray q) (unat (front q)) (- 1)) (\<lambda>a.
             (let q' = q\<lparr>qarray := a\<rparr> in
              Inr (data,
                if front q' = rear q' then q'\<lparr>front := - 1, rear := - 1\<rparr>
                else if front q' = qsize q' - 1 then q'\<lparr>front := 0\<rparr>
                else q'\<lparr>front := front q' + 1\<rparr>)))))"

subsection \<open>The queue as a list\<close>

definition q_len :: "kqueue \<Rightarrow> nat" where
  "q_len q = (if front q = - 1 then 0
     else (unat (rear q) + unat (qsize q) - unat (front q)) mod unat (qsize q) + 1)"

definition q_list :: "kqueue \<Rightarrow> u32 list" where
  "q_list q = ring (qarray q) (unat (front q)) (q_len q)"

definition q_inv :: "kqueue \<Rightarrow> bool" where
  "q_inv q \<longleftrightarrow> length (qarray q) = unat (qsize q) \<and> 2 \<le> unat (qsize q)
     \<and> unat (qsize q) < 2147483648
     \<and> (front q = - 1 \<and> rear q = - 1
        \<or> unat (front q) < unat (qsize q) \<and> unat (rear q) < unat (qsize q))"

lemma q_inv_create:
  "length cells = unat cap \<Longrightarrow> 2 \<le> unat cap \<Longrightarrow> unat cap < 2147483648 \<Longrightarrow>
   q_inv (queue_create cap cells) \<and> q_list (queue_create cap cells) = []"
  by (simp add: q_inv_def q_list_def q_len_def queue_create_def)

lemma size_minus1: "q_inv q \<Longrightarrow> unat (qsize q - 1) = unat (qsize q) - 1 \<and> qsize q - 1 \<noteq> 0"
proof -
  assume q: "q_inv q"
  then have "qsize q \<noteq> 0" by (auto simp: q_inv_def)
  then have "unat (qsize q - 1) = unat (qsize q) - 1" by (rule unat_minus1_u32)
  moreover with q have "unat (qsize q - 1) \<noteq> 0" by (simp add: q_inv_def)
  ultimately show ?thesis by force
qed

lemma front_nonempty:
  "q_inv q \<Longrightarrow> front q \<noteq> - 1 \<Longrightarrow>
   unat (front q) < unat (qsize q) \<and> unat (rear q) < unat (qsize q)"
  by (auto simp: q_inv_def)

lemma in_range_not_minus1: "q_inv q \<Longrightarrow> unat (w :: u32) < unat (qsize q) \<Longrightarrow> w \<noteq> - 1"
  by (auto simp: q_inv_def)

lemma queue_isfull_total: "q_inv q \<Longrightarrow> \<exists>b. queue_isfull q = Inr b"
  using size_minus1 by (auto simp: queue_isfull_def)

lemma q_len_le: "q_inv q \<Longrightarrow> q_len q \<le> unat (qsize q)"
proof -
  assume "q_inv q"
  then have "0 < unat (qsize q)" by (simp add: q_inv_def)
  then have "x mod unat (qsize q) < unat (qsize q)" for x by simp
  then show ?thesis by (simp add: q_len_def Suc_leI)
qed

lemma isfull_when_full:
  assumes q: "q_inv q" and full: "q_len q = unat (qsize q)"
  shows "queue_isfull q = Inr True"
proof -
  let ?n = "unat (qsize q)" and ?f = "unat (front q)" and ?r = "unat (rear q)"
  from full q have ne: "front q \<noteq> - 1" by (auto simp: q_len_def q_inv_def)
  note fr = front_nonempty [OF q ne] and sz = size_minus1 [OF q]
  from full ne have d: "(?r + ?n - ?f) mod ?n = ?n - 1" by (simp add: q_len_def)
  show ?thesis
  proof (cases "front q = 0")
    case True
    with d fr have "?r = ?n - 1" by simp
    with sz have "rear q = qsize q - 1" by (simp add: u32_eq_iff)
    with True show ?thesis by (simp add: queue_isfull_def)
  next
    case False
    then have f0: "?f \<noteq> 0" by (simp add: unat_eq_0_u32)
    have "?r = (?f + (?n - 1)) mod ?n" using ring_distance [of ?f ?n ?r] fr d by simp
    with fr f0 have r: "?r = ?f - 1" by (auto simp: mod_if)
    have "unat ((front q - 1) mod (qsize q - 1)) = (?f - 1) mod (?n - 1)"
      using False sz by (simp add: unat_mod_distrib unat_minus1_u32)
    also have "\<dots> = ?f - 1" using fr f0 by (intro mod_less) linarith
    finally have "rear q = (front q - 1) mod (qsize q - 1)" by (simp add: u32_eq_iff r)
    then show ?thesis using sz by (simp add: queue_isfull_def)
  qed
qed

lemma unat_rear_step:
  assumes "q_inv q" "front q \<noteq> - 1"
  shows "unat (if rear q = qsize q - 1 then 0 else rear q + 1) = Suc (unat (rear q)) mod unat (qsize q)"
proof -
  note fr = front_nonempty [OF assms] and sz = size_minus1 [OF assms(1)]
  have "rear q = qsize q - 1 \<longleftrightarrow> unat (rear q) = unat (qsize q) - 1" using sz by (simp add: u32_eq_iff)
  moreover have "unat (rear q + 1) = unat (rear q) + 1"
    using fr assms(1) by (intro unat_plus1_u32) (simp add: q_inv_def)
  ultimately show ?thesis using fr mod_wrap_step [of "unat (rear q)" "unat (qsize q)"] by auto
qed

lemma enque_nonempty_eq:
  assumes q: "q_inv q" and nf: "queue_isfull q = Inr False" and ne: "front q \<noteq> - 1"
  defines "r \<equiv> if rear q = qsize q - 1 then 0 else rear q + 1"
  shows "queue_enque q v = Inr (q\<lparr>rear := r, qarray := (qarray q)[unat r := v]\<rparr>)"
proof -
  note fr = front_nonempty [OF q ne]
  have "unat r < unat (qsize q)" using unat_rear_step [OF q ne] fr by (simp add: r_def)
  then have "unat r < length (qarray q)" using q by (simp add: q_inv_def)
  moreover have "rear q = qsize q - 1 \<Longrightarrow> front q \<noteq> 0" using nf by (auto simp: queue_isfull_def)
  ultimately show ?thesis using nf ne by (auto simp: queue_enque_def r_def)
qed

lemma q_len_enque:
  fixes f r n :: nat
  assumes "f < n" "r < n" "(r + n - f) mod n + 1 < n"
  shows "(Suc r mod n + n - f) mod n = (r + n - f) mod n + 1"
  using assms by (cases "f \<le> r"; cases "Suc r = n") (auto simp: mod_if)

lemma queue_enque_ok:
  assumes q: "q_inv q" and nf: "queue_isfull q = Inr False"
  obtains q' where "queue_enque q v = Inr q'" "q_inv q'" "q_list q' = q_list q @ [v]"
proof (cases "front q = - 1")
  case True
  let ?q = "q\<lparr>front := 0, rear := 0, qarray := (qarray q)[0 := v]\<rparr>"
  have "0 < length (qarray q)" using q by (simp add: q_inv_def)
  then have "queue_enque q v = Inr ?q" "q_inv ?q" "q_list ?q = q_list q @ [v]"
    using q nf True by (auto simp: queue_enque_def q_inv_def q_list_def q_len_def ring_Suc)
  then show ?thesis by (rule that)
next
  case False
  define r where "r = (if rear q = qsize q - 1 then 0 else rear q + 1)"
  let ?q = "q\<lparr>rear := r, qarray := (qarray q)[unat r := v]\<rparr>"
  let ?n = "unat (qsize q)" and ?f = "unat (front q)" and ?r = "unat (rear q)"
  note fr = front_nonempty [OF q False]
  have ur: "unat r = Suc ?r mod ?n" using unat_rear_step [OF q False] by (simp add: r_def)
  have len: "length (qarray q) = ?n" using q by (simp add: q_inv_def)
  have lt: "q_len q < ?n"
    using q_len_le [OF q] isfull_when_full [OF q] nf by (fastforce simp: order_less_le)
  then have d: "(Suc ?r mod ?n + ?n - ?f) mod ?n = (?r + ?n - ?f) mod ?n + 1"
    using q_len_enque [of ?f ?n ?r] fr False by (simp add: q_len_def)
  have pos: "(?f + q_len q) mod ?n = unat r"
  proof -
    have "(?f + q_len q) mod ?n = Suc ((?f + (?r + ?n - ?f) mod ?n) mod ?n) mod ?n"
      using False by (simp add: q_len_def mod_Suc_eq)
    then show ?thesis using ring_distance [of ?f ?n ?r] fr ur by simp
  qed
  have l': "q_len ?q = Suc (q_len q)" using False ur d by (simp add: q_len_def)
  have "q_list ?q = ring ((qarray q)[(?f + q_len q) mod length (qarray q) := v]) ?f (Suc (q_len q))"
    unfolding q_list_def l' by (simp add: len pos)
  also have "\<dots> = q_list q @ [v]" using ring_snoc [of "q_len q" "qarray q"] lt len by (simp add: q_list_def)
  finally have "q_list ?q = q_list q @ [v]" .
  moreover have "q_inv ?q" using q fr ur by (simp add: q_inv_def)
  moreover have "queue_enque q v = Inr ?q" using enque_nonempty_eq [OF q nf False] by (simp add: r_def)
  ultimately show ?thesis using that by blast
qed

lemma queue_deque_ok:
  assumes q: "q_inv q" and ne: "q_list q \<noteq> []"
  obtains q' where "queue_deque q = Inr (hd (q_list q), q')" "q_inv q'" "q_list q' = tl (q_list q)"
proof -
  let ?n = "unat (qsize q)" and ?f = "unat (front q)" and ?r = "unat (rear q)"
  let ?a = "(qarray q)[?f := - 1]"
  have ne': "front q \<noteq> - 1" using ne by (auto simp: q_list_def q_len_def)
  note fr = front_nonempty [OF q ne'] and sz = size_minus1 [OF q]
  have len: "length (qarray q) = ?n" using q by (simp add: q_inv_def)
  define c where "c = (?r + ?n - ?f) mod ?n"
  have l: "q_len q = Suc c" using ne' by (simp add: q_len_def c_def)
  have c: "c < ?n" using fr by (simp add: c_def)
  have ql: "q_list q = qarray q ! ?f # ring (qarray q) (Suc ?f) c"
    using fr len by (simp add: q_list_def l ring_Suc)
  have upd: "ring ?a (Suc ?f) c = ring (qarray q) (Suc ?f) c"
    using ring_update_front [of c "qarray q" ?f "- 1"] c len fr by simp
  show ?thesis
  proof (cases "front q = rear q")
    case True
    then have "c = 0" using fr by (simp add: c_def)
    moreover have "queue_deque q = Inr (qarray q ! ?f, q\<lparr>front := - 1, rear := - 1, qarray := ?a\<rparr>)"
      using True ne' fr len by (simp add: queue_deque_def queue_isempty_def Let_def)
    ultimately show ?thesis using q ql that by (simp add: q_inv_def q_list_def q_len_def)
  next
    case False
    define g where "g = (if front q = qsize q - 1 then 0 else front q + 1)"
    let ?q = "q\<lparr>front := g, qarray := ?a\<rparr>"
    have "front q = qsize q - 1 \<longleftrightarrow> ?f = ?n - 1" using sz by (simp add: u32_eq_iff)
    moreover have "unat (front q + 1) = ?f + 1"
      using fr q by (intro unat_plus1_u32) (simp add: q_inv_def)
    ultimately have ug: "unat g = Suc ?f mod ?n" using fr mod_wrap_step [of ?f ?n] by (auto simp: g_def)
    have gr: "unat g < ?n" using fr by (simp add: ug)
    then have g: "g \<noteq> - 1" by (rule in_range_not_minus1 [OF q])
    have "?f \<noteq> ?r" using False by (simp add: u32_eq_iff)
    then have "(?r + ?n - Suc ?f mod ?n) mod ?n + 1 = c"
      using fr unfolding c_def by (cases "?f \<le> ?r"; cases "Suc ?f = ?n") (auto simp: mod_if)
    then have l': "q_len ?q = c" using g by (simp add: q_len_def ug)
    have "q_list ?q = ring ?a (Suc ?f) c"
      unfolding q_list_def l' using ring_mod [of ?a "Suc ?f" c] by (simp add: ug len)
    moreover have "q_inv ?q" using q fr gr by (simp add: q_inv_def)
    moreover have "queue_deque q = Inr (qarray q ! ?f, ?q)"
      using False ne' fr len by (simp add: queue_deque_def queue_isempty_def g_def Let_def)
    ultimately show ?thesis using that ql upd by simp
  qed
qed

lemma queue_isfull_not: "q_inv q \<Longrightarrow> queue_isfull q \<noteq> Inr True \<Longrightarrow> queue_isfull q = Inr False"
  using queue_isfull_total [of q] by (metis (full_types))

interpretation kq: fifo q_inv q_list "\<lambda>q. queue_isfull q = Inr True"
  "\<lambda>q v. projr (queue_enque q v)" "\<lambda>q. projr (queue_deque q)"
proof unfold_locales
  fix q :: kqueue and v :: u32
  assume q: "q_inv q"
  {
    assume "queue_isfull q \<noteq> Inr True"
    with q have nf: "queue_isfull q = Inr False" by (rule queue_isfull_not)
    obtain q' where "queue_enque q v = Inr q'" "q_inv q'" "q_list q' = q_list q @ [v]"
      by (rule queue_enque_ok [OF q nf])
    then show "q_inv (projr (queue_enque q v))"
      and "q_list (projr (queue_enque q v)) = q_list q @ [v]" by simp_all
  next
    assume ne: "q_list q \<noteq> []"
    obtain q' where "queue_deque q = Inr (hd (q_list q), q')" "q_inv q'" "q_list q' = tl (q_list q)"
      by (rule queue_deque_ok [OF q ne])
    then show "q_inv (snd (projr (queue_deque q)))"
      and "fst (projr (queue_deque q)) = hd (q_list q)"
      and "q_list (snd (projr (queue_deque q))) = tl (q_list q)" by simp_all
  }
qed

subsection \<open>Properties\<close>

text \<open>On a well-formed circular queue \<open>queue_enque\<close> never faults and keeps the queue
  well-formed; it appends the value when \<open>queue_isfull\<close> says no and leaves the queue
  alone otherwise; and a queue whose array is completely used is always reported full, so
  no element is overwritten.\<close>

theorem queue_enque_refines:
  assumes q: "q_inv q"
  shows "\<exists>b q'. queue_isfull q = Inr b \<and> queue_enque q v = Inr q' \<and> q_inv q'
           \<and> q_list q' = (if b then q_list q else q_list q @ [v])
           \<and> (length (q_list q) = unat (qsize q) \<longrightarrow> b)"
proof (cases "queue_isfull q = Inr True")
  case True
  then have "queue_isfull q = Inr True \<and> queue_enque q v = Inr q" by (simp add: queue_enque_def)
  then show ?thesis using q by auto
next
  case False
  with q have nf: "queue_isfull q = Inr False" by (rule queue_isfull_not)
  then have "length (q_list q) \<noteq> unat (qsize q)"
    using isfull_when_full [OF q] by (auto simp: q_list_def)
  then show ?thesis using queue_enque_ok [OF q nf, of v] nf by auto
qed

theorem queue_enque_refines_witness:
  "\<exists>b q'. queue_isfull (queue_create 3 [7, 7, 7]) = Inr b
      \<and> queue_enque (queue_create 3 [7, 7, 7]) 5 = Inr q' \<and> q_inv q'
      \<and> q_list q' = (if b then q_list (queue_create 3 [7, 7, 7]) else q_list (queue_create 3 [7, 7, 7]) @ [5])
      \<and> (length (q_list (queue_create 3 [7, 7, 7])) = unat (qsize (queue_create 3 [7, 7, 7])) \<longrightarrow> b)"
  by (rule queue_enque_refines) (simp add: queue_create_def q_inv_def)

text \<open>\<open>queue_deque\<close> on a well-formed circular queue removes and returns the oldest
  element; on an empty one it returns 0 and changes nothing.\<close>

theorem queue_deque_fifo:
  assumes q: "q_inv q"
  shows "\<exists>q'. queue_deque q = Inr (if q_list q = [] then 0 else hd (q_list q), q')
           \<and> q_inv q' \<and> q_list q' = tl (q_list q)"
proof (cases "q_list q = []")
  case True
  then have "front q = - 1" by (auto simp: q_list_def q_len_def ring_Suc split: if_splits)
  then show ?thesis using q True by (simp add: queue_deque_def queue_isempty_def)
next
  case False
  obtain q' where "queue_deque q = Inr (hd (q_list q), q')" "q_inv q'" "q_list q' = tl (q_list q)"
    by (rule queue_deque_ok [OF q False])
  with False show ?thesis by simp
qed

theorem queue_deque_fifo_witness:
  "\<exists>q'. queue_deque \<lparr>front = 2, rear = 0, qsize = 3, qarray = [8, 0, 9]\<rparr>
      = Inr (if q_list \<lparr>front = 2, rear = 0, qsize = 3, qarray = [8, 0, 9]\<rparr> = [] then 0
             else hd (q_list \<lparr>front = 2, rear = 0, qsize = 3, qarray = [8, 0, 9]\<rparr>), q')
      \<and> q_inv q' \<and> q_list q' = tl (q_list \<lparr>front = 2, rear = 0, qsize = 3, qarray = [8, 0, 9]\<rparr>)"
  by (rule queue_deque_fifo) (simp add: q_inv_def)

text \<open>The fullness test is computed unsigned, so it is not exact: a queue of capacity
  4 that holds one element at index 0 reports full and drops the next value, and a queue of
  capacity 1 divides by zero on its first \<open>queue_enque\<close>.\<close>

theorem queue_isfull_inexact:
  "queue_isfull \<lparr>front = 0, rear = 0, qsize = 4, qarray = [x, a, b, c]\<rparr> = Inr True
   \<and> q_list \<lparr>front = 0, rear = 0, qsize = 4, qarray = [x, a, b, c]\<rparr> = [x]
   \<and> queue_enque \<lparr>front = 0, rear = 0, qsize = 4, qarray = [x, a, b, c]\<rparr> v
       = Inr \<lparr>front = 0, rear = 0, qsize = 4, qarray = [x, a, b, c]\<rparr>
   \<and> queue_enque (queue_create 1 [a]) v = Inl DivZero"
  by (simp add: queue_isfull_def queue_enque_def queue_create_def q_list_def q_len_def ring_Suc)

end
