(* ===== verification/Dyn_Array.thy ===== *)
theory Dyn_Array
  imports Smpl_Prelude
begin

text \<open>
  The growable-looking but fixed array of \<open>os/kernel/misc/types/dyn_array.c\<close>: a block of
  \<open>capacity\<close> words of which the first \<open>total\<close> are in use. \<open>capacity\<close>, \<open>total\<close> and the
  indices are C \<open>int\<close>s, compared signed. \<open>array_free\<close> only hands both blocks to
  \<open>kfree\<close>, which is a no-op (theory Kheap).
\<close>

record karray =
  items :: "u32 list"
  capacity :: u32
  total :: u32

definition array_create :: "u32 \<Rightarrow> u32 list \<Rightarrow> karray" where
  "array_create cap cells = \<lparr>items = cells, capacity = cap, total = 0\<rparr>"

text \<open>
  When there is no room the C function returns without a value although it has a result
  type: \<open>None\<close>.
\<close>

definition array_add :: "karray \<Rightarrow> u32 \<Rightarrow> (u32 option \<times> karray) res" where
  "array_add v item =
     (if sint (total v) \<ge> sint (capacity v - 1) then Inr (None, v)
      else sbind (store_at (items v) (unat (total v)) item) (\<lambda>xs.
        Inr (Some (total v + 1), v\<lparr>items := xs, total := total v + 1\<rparr>)))"

definition array_set :: "karray \<Rightarrow> u32 \<Rightarrow> u32 \<Rightarrow> karray res" where
  "array_set v index item =
     (if sint index \<ge> 0 \<and> sint index < sint (total v) then
        sbind (store_at (items v) (unat index) item) (\<lambda>xs. Inr (v\<lparr>items := xs\<rparr>))
      else Inr v)"

definition array_get :: "karray \<Rightarrow> u32 \<Rightarrow> u32 res" where
  "array_get v index =
     (if sint index \<ge> 0 \<and> sint index < sint (total v) then load_at (items v) (unat index)
      else Inr 0)"

text \<open>The shifting loop of \<open>array_delete\<close>, from index \<open>i\<close> to \<open>total - 2\<close>.\<close>

function array_shift :: "u32 list \<Rightarrow> nat \<Rightarrow> nat \<Rightarrow> u32 list res" where
  "array_shift xs i m =
     (if i < m then
        sbind (load_at xs (i + 1)) (\<lambda>x.
        sbind (store_at xs i x) (\<lambda>ys.
        sbind (store_at ys (i + 1) 0) (\<lambda>zs. array_shift zs (i + 1) m)))
      else Inr xs)"
  by pat_completeness auto
termination by (relation "measure (\<lambda>(xs, i, m). m - i)") auto

declare array_shift.simps [simp del]

definition array_delete :: "karray \<Rightarrow> u32 \<Rightarrow> karray res" where
  "array_delete v index =
     (if sint index < 0 \<or> sint index \<ge> sint (total v) then Inr v
      else sbind (store_at (items v) (unat index) 0) (\<lambda>xs.
           sbind (array_shift xs (unat index) (nat (sint (total v - 1)))) (\<lambda>ys.
             Inr (v\<lparr>items := ys, total := total v - 1\<rparr>))))"

subsection \<open>The array as a list\<close>

definition a_list :: "karray \<Rightarrow> u32 list" where
  "a_list v = take (unat (total v)) (items v)"

definition a_inv :: "karray \<Rightarrow> bool" where
  "a_inv v \<longleftrightarrow> length (items v) = unat (capacity v) \<and> unat (capacity v) < 2147483648
     \<and> 1 \<le> unat (capacity v) \<and> unat (total v) < unat (capacity v)"

lemma a_inv_total: "a_inv v \<Longrightarrow> sint (total v) = int (unat (total v))"
  by (rule sint_small) (simp add: a_inv_def)

lemma a_inv_capacity: "a_inv v \<Longrightarrow> sint (capacity v - 1) = int (unat (capacity v) - 1)"
proof -
  assume a: "a_inv v"
  then have "capacity v \<noteq> 0" by (auto simp: a_inv_def)
  then have c: "unat (capacity v - 1) = unat (capacity v) - 1" by (rule unat_minus1_u32)
  with a have "unat (capacity v - 1) < 2147483648" unfolding a_inv_def by linarith
  then show ?thesis unfolding c [symmetric] by (rule sint_small)
qed

text \<open>Shifting moves the elements between \<open>i\<close> and \<open>m\<close> down by one and clears the last.\<close>

lemma array_shift_step:
  "i < m \<Longrightarrow> m < length xs \<Longrightarrow>
   array_shift xs i m = array_shift ((xs[i := xs ! Suc i])[Suc i := 0]) (Suc i) m"
  by (subst array_shift.simps) simp

lemma array_shift_split:
  "array_shift (as @ 0 # bs @ cs) (length as) (length as + length bs) = Inr (as @ bs @ 0 # cs)"
proof (induction bs arbitrary: as)
  case Nil
  show ?case by (subst array_shift.simps) simp
next
  case (Cons b bs)
  have "array_shift (as @ 0 # (b # bs) @ cs) (length as) (length as + length (b # bs))
      = array_shift ((as @ [b]) @ 0 # bs @ cs) (length (as @ [b])) (length (as @ [b]) + length bs)"
    by (subst array_shift_step) (simp_all add: nth_append list_update_append)
  also have "\<dots> = Inr ((as @ [b]) @ bs @ 0 # cs)" by (rule Cons.IH)
  finally show ?case by simp
qed

lemma array_delete_ok:
  assumes a: "a_inv v" and i: "sint index \<ge> 0" "sint index < sint (total v)"
  obtains v' where "array_delete v index = Inr v'" "a_inv v'"
    "a_list v' = take (unat index) (a_list v) @ drop (Suc (unat index)) (a_list v)"
    "unat (total v') = unat (total v) - 1"
proof -
  define k t where "k = unat index" and "t = unat (total v)"
  have kt: "k < t" "t < length (items v)" "t < 2147483648"
  proof -
    have "unat index < 2147483648" using i(1) by (simp only: sint_nonneg_iff)
    then have "sint index = int k" unfolding k_def by (rule sint_small)
    with i(2) a_inv_total [OF a] show "k < t" unfolding t_def by linarith
    show "t < length (items v)" "t < 2147483648" using a by (auto simp: a_inv_def t_def)
  qed
  define as x bs cs where "as = take k (items v)" and "x = items v ! k"
    and "bs = take (t - 1 - k) (drop (Suc k) (items v))" and "cs = drop t (items v)"
  have "items v = take k (items v) @ x # drop (Suc k) (items v)"
    using kt by (simp add: x_def id_take_nth_drop)
  moreover have "drop (Suc k) (items v) = bs @ cs"
    using kt by (simp add: bs_def cs_def) (metis Suc_diff_Suc add.commute append_take_drop_id
        drop_drop diff_Suc_Suc diff_diff_left le_add_diff_inverse Suc_leI plus_1_eq_Suc)
  ultimately have it: "items v = as @ x # bs @ cs" by (simp add: as_def)
  have la: "length as = k" and lb: "length as + length bs = t - 1" using kt by (auto simp: as_def bs_def)
  have t1: "unat (total v - 1) = t - 1"
    using kt unat_minus1_u32 [of "total v"] by (fastforce simp: t_def)
  then have "nat (sint (total v - 1)) = t - 1" using kt sint_small [of "total v - 1"] by simp
  moreover have "array_shift (as @ 0 # bs @ cs) k (t - 1) = Inr (as @ bs @ 0 # cs)"
    using array_shift_split [of as bs cs] la lb by simp
  moreover have "(items v)[k := 0] = as @ 0 # bs @ cs" by (simp add: it la [symmetric])
  ultimately have "array_delete v index = Inr (v\<lparr>items := as @ bs @ 0 # cs, total := total v - 1\<rparr>)"
    using i kt by (simp add: array_delete_def k_def)
  moreover have "a_inv (v\<lparr>items := as @ bs @ 0 # cs, total := total v - 1\<rparr>)"
    using a t1 kt it by (auto simp: a_inv_def t_def)
  moreover have "a_list (v\<lparr>items := as @ bs @ 0 # cs, total := total v - 1\<rparr>)
      = take k (a_list v) @ drop (Suc k) (a_list v)"
  proof -
    have "t = length as + Suc (length bs)" using kt lb by linarith
    then have "a_list v = as @ x # bs" by (simp add: a_list_def it t_def [symmetric])
    moreover have "take (t - 1) (as @ bs @ 0 # cs) = as @ bs" using lb by simp
    ultimately show ?thesis by (simp add: a_list_def t1 la [symmetric])
  qed
  ultimately show ?thesis using that t1 by (simp add: k_def t_def)
qed

lemma array_add_ok:
  assumes a: "a_inv v"
  shows "array_add v x = (if unat (total v) + 1 < unat (capacity v)
      then Inr (Some (total v + 1), v\<lparr>items := (items v)[unat (total v) := x], total := total v + 1\<rparr>)
      else Inr (None, v))"
proof -
  have "sint (total v) \<ge> sint (capacity v - 1) \<longleftrightarrow> \<not> unat (total v) + 1 < unat (capacity v)"
    unfolding a_inv_total [OF a] a_inv_capacity [OF a] of_nat_le_iff using a by (auto simp: a_inv_def)
  moreover have "unat (total v) < length (items v)" using a by (simp add: a_inv_def)
  ultimately show ?thesis by (simp add: array_add_def)
qed

subsection \<open>Properties\<close>

text \<open>On a well-formed array \<open>array_add\<close> appends and returns the new count as long as
  at least two cells are free; it never faults, keeps the array well-formed, and with one
  free cell left it refuses (so an array of capacity n holds at most n - 1 elements).\<close>

theorem array_add_appends:
  assumes a: "a_inv v"
  shows "\<exists>r v'. array_add v x = Inr (r, v') \<and> a_inv v'
     \<and> (if unat (total v) + 1 < unat (capacity v)
        then a_list v' = a_list v @ [x] \<and> r = Some (total v + 1) \<and> unat (total v') = unat (total v) + 1
        else v' = v \<and> r = None)"
proof (cases "unat (total v) + 1 < unat (capacity v)")
  case True
  then have t: "unat (total v + 1) = unat (total v) + 1"
    using a by (intro unat_plus1_u32) (simp add: a_inv_def)
  have "unat (total v) < length (items v)" using a by (simp add: a_inv_def)
  with True t show ?thesis using a
    by (simp add: array_add_ok a_inv_def a_list_def take_Suc_conv_app_nth)
qed (simp add: array_add_ok a)

theorem array_add_appends_witness:
  "\<exists>r v'. array_add (array_create 3 [0, 0, 0]) 9 = Inr (r, v') \<and> a_inv v'
     \<and> (if unat (total (array_create 3 [0, 0, 0])) + 1 < unat (capacity (array_create 3 [0, 0, 0]))
        then a_list v' = a_list (array_create 3 [0, 0, 0]) @ [9]
             \<and> r = Some (total (array_create 3 [0, 0, 0]) + 1)
             \<and> unat (total v') = unat (total (array_create 3 [0, 0, 0])) + 1
        else v' = array_create 3 [0, 0, 0] \<and> r = None)"
  by (rule array_add_appends) (simp add: a_inv_def array_create_def)

text \<open>\<open>array_delete\<close> of a valid index removes exactly that element, keeping the order
  of the others and the well-formedness of the array; any other index changes nothing.\<close>

theorem array_delete_removes:
  assumes a: "a_inv v"
  shows "\<exists>v'. array_delete v index = Inr v' \<and> a_inv v'
     \<and> a_list v' = (if 0 \<le> sint index \<and> sint index < sint (total v)
                    then take (unat index) (a_list v) @ drop (Suc (unat index)) (a_list v)
                    else a_list v)"
proof (cases "0 \<le> sint index \<and> sint index < sint (total v)")
  case True
  then obtain v' where "array_delete v index = Inr v'" "a_inv v'"
    "a_list v' = take (unat index) (a_list v) @ drop (Suc (unat index)) (a_list v)"
    using array_delete_ok [OF a] by metis
  with True show ?thesis by simp
next
  case False
  then have "array_delete v index = Inr v" by (auto simp: array_delete_def)
  with a False show ?thesis by auto
qed

theorem array_delete_removes_witness:
  "\<exists>v'. array_delete \<lparr>items = [4, 5, 6, 0], capacity = 4, total = 3\<rparr> 1 = Inr v' \<and> a_inv v'
     \<and> a_list v' = (if 0 \<le> sint (1 :: u32) \<and> sint (1 :: u32) < sint (total \<lparr>items = [4, 5, 6, 0], capacity = 4, total = 3\<rparr>)
                    then take (unat (1 :: u32)) (a_list \<lparr>items = [4, 5, 6, 0], capacity = 4, total = 3\<rparr>)
                         @ drop (Suc (unat (1 :: u32))) (a_list \<lparr>items = [4, 5, 6, 0], capacity = 4, total = 3\<rparr>)
                    else a_list \<lparr>items = [4, 5, 6, 0], capacity = 4, total = 3\<rparr>)"
  by (rule array_delete_removes) (simp add: a_inv_def)

end
