(* ===== verification/Port_IO.thy ===== *)
theory Port_IO
  imports Smpl_Prelude
begin

text \<open>
  Port input and output (\<open>os/kernel/io/io.c\<close>) and the small drivers that are nothing but
  port programs: CMOS, RTC, serial line, the interrupt controllers. The hardware is not
  part of the repository: it is the parameter \<open>dev\<close>, which answers a read of a port from
  the whole history of accesses before it. The history is the state of a port program.
\<close>

datatype io_event =
    Out8 u16 u8 | Out16 u16 u16 | Out32 u16 u32
  | In8 u16 | In16 u16 | In32 u16
  | Cli | Sti | Halt

type_synonym io = "io_event list"
type_synonym device = "io \<Rightarrow> u16 \<Rightarrow> u32"

subsection \<open>io.c\<close>

definition outb :: "u16 \<Rightarrow> u8 \<Rightarrow> io \<Rightarrow> io" where
  "outb port value h = h @ [Out8 port value]"

definition outw :: "u16 \<Rightarrow> u16 \<Rightarrow> io \<Rightarrow> io" where
  "outw port value h = h @ [Out16 port value]"

definition outl :: "u16 \<Rightarrow> u32 \<Rightarrow> io \<Rightarrow> io" where
  "outl port value h = h @ [Out32 port value]"

definition inb :: "device \<Rightarrow> u16 \<Rightarrow> io \<Rightarrow> u8 \<times> io" where
  "inb dev port h = (ucast (dev h port), h @ [In8 port])"

definition inw :: "device \<Rightarrow> u16 \<Rightarrow> io \<Rightarrow> u16 \<times> io" where
  "inw dev port h = (ucast (dev h port), h @ [In16 port])"

definition inl :: "device \<Rightarrow> u16 \<Rightarrow> io \<Rightarrow> u32 \<times> io" where
  "inl dev port h = (dev h port, h @ [In32 port])"

lemmas io_defs = outb_def outw_def outl_def inb_def inw_def inl_def

text \<open>The bit macro of the drivers.\<close>

definition GET_BIT :: "u8 \<Rightarrow> nat \<Rightarrow> u8" where
  "GET_BIT n k = drop_bit k n AND 1"

subsection \<open>cmos.c\<close>

definition cmos_read_value :: "device \<Rightarrow> u8 \<Rightarrow> io \<Rightarrow> u8 \<times> io" where
  "cmos_read_value dev reg h =
     (let h = outb 0x70 (reg OR 0x80) (h @ [Cli]);
          (val, h) = inb dev 0x71 h
      in (val, h @ [Sti]))"

definition cmos_write_value :: "u8 \<Rightarrow> u8 \<Rightarrow> io \<Rightarrow> io" where
  "cmos_write_value reg value h =
     outb 0x71 value (outb 0x70 (reg OR 0x80) (h @ [Cli])) @ [Sti]"

subsection \<open>rtc.c\<close>

definition rtc_get_update_flag :: "device \<Rightarrow> io \<Rightarrow> u8 \<times> io" where
  "rtc_get_update_flag dev h = (let (data, h) = cmos_read_value dev 0x0A h in (data AND 0x80, h))"

definition init_rtc :: "device \<Rightarrow> io \<Rightarrow> io" where
  "init_rtc dev h =
     (let (data, h) = cmos_read_value dev 0x0B h
      in cmos_write_value 0x0B (data OR 0x02 OR 0x04) h)"

text \<open>
  \<open>from_bcd(val)\<close> is a macro that mentions its argument twice, so the register is read
  twice: once for the tens and once for the ones. The arithmetic is that of C \<open>int\<close>; the
  operands are evaluated from left to right, which C leaves to the compiler.
\<close>

definition from_bcd :: "u8 \<Rightarrow> u8 \<Rightarrow> u32" where
  "from_bcd v1 v2 = (ucast v1 div 16) * 10 + (ucast v2 AND 0xf)"

definition rtc_bcd :: "device \<Rightarrow> u8 \<Rightarrow> io \<Rightarrow> u32 \<times> io" where
  "rtc_bcd dev reg h =
     (let (v1, h) = cmos_read_value dev reg h;
          (v2, h) = cmos_read_value dev reg h
      in (from_bcd v1 v2, h))"

text \<open>The busy wait of \<open>rtc_current_time\<close>: \<open>None\<close> if the flag never clears.\<close>

partial_function (option) rtc_wait :: "device \<Rightarrow> io \<Rightarrow> io option" where
  "rtc_wait dev h =
     (let (flag, h') = rtc_get_update_flag dev h
      in if flag \<noteq> 0 then rtc_wait dev h' else Some h')"

definition rtc_current_time :: "device \<Rightarrow> io \<Rightarrow> (u32 \<times> io) option" where
  "rtc_current_time dev h =
     (case rtc_wait dev h of
        None \<Rightarrow> None
      | Some h \<Rightarrow>
          (let (cent, h) = rtc_bcd dev 0x32 h;
               (year, h) = rtc_bcd dev 0x9 h;
               years_elapsed = (cent * 100 + year) - 1970;
               (month, h) = rtc_bcd dev 0x8 h;
               month_elapsed = month - 1;
               (mday, h) = rtc_bcd dev 0x7 h;
               (hrs, h) = rtc_bcd dev 0x4 h;
               (mins, h) = rtc_bcd dev 0x2 h;
               (secs, h) = rtc_bcd dev 0x0 h;
               secs_elapsed = mday * 24 * 3600 + hrs * 3600 + mins * 60 + secs
           in Some ((years_elapsed * 31556952) + (month_elapsed * 2629746) + secs_elapsed, h)))"

subsection \<open>serial.c\<close>

definition serial_available :: "device \<Rightarrow> u16 \<Rightarrow> io \<Rightarrow> u8 \<times> io" where
  "serial_available dev port h = (let (v, h) = inb dev (port + 5) h in (v AND 1, h))"

partial_function (option) serial_read :: "device \<Rightarrow> u16 \<Rightarrow> io \<Rightarrow> (u8 \<times> io) option" where
  "serial_read dev port h =
     (let (a, h') = serial_available dev port h
      in if a = 0 then serial_read dev port h' else Some (inb dev port h'))"

definition serial_can_transmit :: "device \<Rightarrow> u16 \<Rightarrow> io \<Rightarrow> u8 \<times> io" where
  "serial_can_transmit dev port h = (let (v, h) = inb dev (port + 5) h in (v AND 0x20, h))"

partial_function (option) serial_write :: "device \<Rightarrow> u16 \<Rightarrow> u8 \<Rightarrow> io \<Rightarrow> io option" where
  "serial_write dev port data h =
     (let (t, h') = serial_can_transmit dev port h
      in if t = 0 then serial_write dev port data h' else Some (outb port data h'))"

subsection \<open>pic.c\<close>

definition PIC1_mask_irq :: "device \<Rightarrow> u32 \<Rightarrow> io \<Rightarrow> io" where
  "PIC1_mask_irq dev irq_mask h =
     (let (m, h) = inb dev 0x21 h in outb 0x21 (ucast (ucast m OR irq_mask)) h)"

definition PIC2_mask_irq :: "device \<Rightarrow> u32 \<Rightarrow> io \<Rightarrow> io" where
  "PIC2_mask_irq dev irq_mask h =
     (let (m, h) = inb dev 0xA1 h in outb 0xA1 (ucast (ucast m OR irq_mask)) h)"

definition remap_PIC :: "device \<Rightarrow> u8 \<Rightarrow> u8 \<Rightarrow> io \<Rightarrow> io" where
  "remap_PIC dev offset offset1 h =
     (let (mask, h) = inb dev 0x21 h;
          (mask1, h) = inb dev 0xA1 h;
          h = outb 0x20 0x11 h;
          h = outb 0xA0 0x11 h;
          h = outb 0x21 offset h;
          h = outb 0xA1 offset1 h;
          h = outb 0x21 4 h;
          h = outb 0xA1 2 h;
          h = outb 0x21 0x01 h;
          h = outb 0xA1 0x01 h;
          h = outb 0x21 mask h;
          h = outb 0xA1 mask1 h;
          h = PIC1_mask_irq dev 0xF8 h
      in PIC2_mask_irq dev 0x6F h)"

subsection \<open>What the port programs do\<close>

text \<open>The last byte a program wrote to a port.\<close>

fun last_out8 :: "u16 \<Rightarrow> io \<Rightarrow> u8 option" where
  "last_out8 p [] = None"
| "last_out8 p (e # h) =
     (case last_out8 p h of
        Some v \<Rightarrow> Some v
      | None \<Rightarrow> (case e of Out8 q v \<Rightarrow> if q = p then Some v else None | _ \<Rightarrow> None))"

lemma last_out8_append:
  "last_out8 p (h1 @ h2) = (case last_out8 p h2 of Some v \<Rightarrow> Some v | None \<Rightarrow> last_out8 p h1)"
  by (induction h1) (auto split: option.splits)

text \<open>
  A CMOS chip with a fixed content: a read of port 0x71 answers the register that the last
  write to port 0x70 selected (bit 7 is the NMI mask, not part of the address).
\<close>

definition cmos_chip :: "(u8 \<Rightarrow> u8) \<Rightarrow> device" where
  "cmos_chip regs h p =
     (if p = 0x71 then
        (case last_out8 0x70 h of Some v \<Rightarrow> ucast (regs (v AND 0x7F)) | None \<Rightarrow> 0xFF)
      else 0xFF)"

lemma cmos_read_chip:
  "fst (cmos_read_value (cmos_chip regs) reg h) = regs (reg AND 0x7F)"
proof -
  have "(reg OR 0x80) AND 0x7F = reg AND (0x7F :: u8)" by (simp add: bit.conj_disj_distrib2)
  then show ?thesis
    by (simp add: cmos_read_value_def io_defs cmos_chip_def last_out8_append)
qed

lemma rtc_bcd_chip: "fst (rtc_bcd (cmos_chip regs) reg h) = from_bcd (regs (reg AND 0x7F)) (regs (reg AND 0x7F))"
  by (simp add: rtc_bcd_def split_def cmos_read_chip)

lemma rtc_wait_chip:
  assumes "regs 0x0A AND 0x80 = 0"
  shows "rtc_wait (cmos_chip regs) h = Some (snd (rtc_get_update_flag (cmos_chip regs) h))"
  using assms by (subst rtc_wait.simps) (simp add: rtc_get_update_flag_def split_def cmos_read_chip)

lemma from_bcd_digits:
  assumes "t < 10" "d < 10"
  shows "from_bcd (of_nat (16 * t + d)) (of_nat (16 * t + d)) = of_nat (10 * t + d)"
proof -
  have n: "16 * t + d < 256" using assms by simp
  have u: "unat (of_nat (16 * t + d) :: u8) = 16 * t + d"
    using n by (simp add: unat_of_nat take_bit_nat_eq_self del: of_nat_add of_nat_mult)
  have tens: "ucast (of_nat (16 * t + d) :: u8) div 16 = (of_nat t :: u32)"
    using assms by (simp add: u32_eq_iff unat_div_distrib u unat_of_nat_u32 del: of_nat_add of_nat_mult)
  have "unat (ucast (of_nat (16 * t + d) :: u8) AND 0xf :: u32) = (16 * t + d) mod 16"
    using u by (simp add: unat_and_masks del: of_nat_add of_nat_mult)
  then have ones: "ucast (of_nat (16 * t + d) :: u8) AND 0xf = (of_nat d :: u32)"
    using assms by (simp add: u32_eq_iff unat_of_nat_u32 del: of_nat_add of_nat_mult)
  show ?thesis by (simp add: from_bcd_def tens ones del: of_nat_add of_nat_mult) simp
qed

subsection \<open>Properties\<close>

text \<open>When no update is in progress and the clock registers hold BCD digits, the busy
  wait ends at once and \<open>rtc_current_time\<close> computes the documented sum of mean years, mean
  months, days, hours, minutes and seconds (modulo 2^32) from the decoded registers.\<close>

theorem rtc_current_time_bcd:
  assumes idle: "regs 0x0A AND 0x80 = 0"
    and digits: "\<And>r. r \<in> {0x32, 0x09, 0x08, 0x07, 0x04, 0x02, 0x00} \<Longrightarrow>
       hi r < 10 \<and> lo r < 10 \<and> regs r = of_nat (16 * hi r + lo r)"
  defines "val r \<equiv> (of_nat (10 * hi r + lo r) :: u32)"
  shows "\<exists>h'. rtc_current_time (cmos_chip regs) h =
    Some (((val 0x32 * 100 + val 0x09) - 1970) * 31556952 + (val 0x08 - 1) * 2629746
       + (val 0x07 * 24 * 3600 + val 0x04 * 3600 + val 0x02 * 60 + val 0x00), h')"
proof -
  have "from_bcd (regs r) (regs r) = val r" if "r \<in> {0x32, 0x09, 0x08, 0x07, 0x04, 0x02, 0x00}" for r
    using digits [OF that] by (simp add: val_def from_bcd_digits del: of_nat_add of_nat_mult)
  then show ?thesis
    by (simp add: rtc_current_time_def rtc_wait_chip idle split_def rtc_bcd_chip)
qed

theorem rtc_current_time_bcd_witness:
  "\<exists>h'. rtc_current_time (cmos_chip (\<lambda>r. if r = 0x32 then 0x20 else if r = 0x09 then 0x21
       else if r = 0x0A then 0x26 else 0x01)) [] =
    Some (((of_nat (10 * 2 + 0) * 100 + of_nat (10 * 2 + 1)) - 1970) * 31556952
       + (of_nat (10 * 0 + 1) - 1) * 2629746 + (of_nat (10 * 0 + 1) * 24 * 3600
       + of_nat (10 * 0 + 1) * 3600 + of_nat (10 * 0 + 1) * 60 + of_nat (10 * 0 + 1)), h')"
proof -
  let ?regs = "\<lambda>r :: u8. (if r = 0x32 then 0x20 else if r = 0x09 then 0x21
       else if r = 0x0A then 0x26 else 0x01) :: u8"
  let ?hi = "\<lambda>r :: u8. (if r = 0x32 \<or> r = 0x09 then 2 else 0) :: nat"
  let ?lo = "\<lambda>r :: u8. (if r = 0x32 then 0 else 1) :: nat"
  have idle: "?regs 0x0A AND 0x80 = 0" by simp
  have digits: "?hi r < 10 \<and> ?lo r < 10 \<and> ?regs r = of_nat (16 * ?hi r + ?lo r)"
    if "r \<in> {0x32, 0x09, 0x08, 0x07, 0x04, 0x02, 0x00}" for r
    using that by auto
  show ?thesis using rtc_current_time_bcd [of ?regs ?hi ?lo "[]", OF idle digits] by simp
qed

text \<open>Remapping the interrupt controllers programs both with the four initialisation
  words in order (cascade mode, the given vector offsets, the wiring of the slave to line
  2, 8086 mode) and ends with the saved masks widened by 0xF8 and 0x6F.\<close>

theorem remap_PIC_sequence:
  "\<exists>mask mask1 m m1. remap_PIC dev off off1 h =
     h @ [In8 0x21, In8 0xA1, Out8 0x20 0x11, Out8 0xA0 0x11, Out8 0x21 off, Out8 0xA1 off1,
          Out8 0x21 4, Out8 0xA1 2, Out8 0x21 1, Out8 0xA1 1, Out8 0x21 mask, Out8 0xA1 mask1,
          In8 0x21, Out8 0x21 (m OR 0xF8), In8 0xA1, Out8 0xA1 (m1 OR 0x6F)]
     \<and> mask = ucast (dev h 0x21) \<and> mask1 = ucast (dev (h @ [In8 0x21]) 0xA1)"
proof -
  have "(ucast (ucast x OR (k :: u32)) :: u8) = x OR ucast k" for x :: u8 and k
    by (rule bit_word_eqI) (auto simp: bit_simps)
  then show ?thesis
    by (simp add: remap_PIC_def PIC1_mask_irq_def PIC2_mask_irq_def io_defs Let_def) (intro conjI exI, rule refl, rule refl)
qed

end
