(* ===== verification/Interrupts.thy ===== *)
theory Interrupts
  imports Port_IO
begin

text \<open>
  Descriptor tables and interrupt dispatch: \<open>arch/i386/mem/gdt.c\<close> and
  \<open>arch/i386/interrupts/{idt,irq,isr}.c\<close>. Addresses of assembly stubs and of global
  objects are parameters; the tables are lists of the C arrays' lengths.
\<close>

subsection \<open>gdt.c\<close>

record gdt_entry =
  limit :: u16
  base_low :: u16
  base_middle :: u8
  access :: u8
  granularity :: u8
  base_high :: u8

record tss_entry =
  prev_tss :: u32
  esp0 :: u32
  ss0 :: u32
  esp1 :: u32
  ss1 :: u32
  esp2 :: u32
  ss2 :: u32
  cr3 :: u32
  eip :: u32
  eflags :: u32
  eax :: u32
  ecx :: u32
  edx :: u32
  ebx :: u32
  esp :: u32
  ebp :: u32
  esi :: u32
  edi :: u32
  es :: u32
  cs :: u32
  ss :: u32
  ds :: u32
  fs :: u32
  gs :: u32
  ldt :: u32
  trap :: u16
  iomap_base :: u16

definition tss_zero :: tss_entry where
  "tss_zero = \<lparr>prev_tss = 0, esp0 = 0, ss0 = 0, esp1 = 0, ss1 = 0, esp2 = 0, ss2 = 0, cr3 = 0,
     eip = 0, eflags = 0, eax = 0, ecx = 0, edx = 0, ebx = 0, esp = 0, ebp = 0, esi = 0, edi = 0,
     es = 0, cs = 0, ss = 0, ds = 0, fs = 0, gs = 0, ldt = 0, trap = 0, iomap_base = 0\<rparr>"

text \<open>\<open>sizeof(tss_entry_t)\<close>: 25 words and two half words.\<close>

abbreviation tss_size :: u32 where "tss_size \<equiv> 104"

record gdt_state =
  gdt :: "gdt_entry list"
  gp_limit :: u16
  gp_base :: u32
  tss :: tss_entry

definition add_gdt_entry :: "nat \<Rightarrow> u32 \<Rightarrow> u32 \<Rightarrow> u32 \<Rightarrow> u32 \<Rightarrow> gdt_state \<Rightarrow> gdt_state res" where
  "add_gdt_entry num base lim acc gran s =
     sbind (store_at (gdt s) num
       \<lparr>limit = ucast lim, base_low = ucast base, base_middle = ucast (drop_bit 16 base),
        access = ucast acc, granularity = ucast gran, base_high = ucast (drop_bit 24 base)\<rparr>)
       (\<lambda>g. Inr (s\<lparr>gdt := g\<rparr>))"

definition write_tss :: "u32 \<Rightarrow> nat \<Rightarrow> u16 \<Rightarrow> u32 \<Rightarrow> gdt_state \<Rightarrow> gdt_state res" where
  "write_tss tss_addr num s0 e0 s =
     sbind (add_gdt_entry num tss_addr (tss_addr + tss_size) 0xE9 0x00 s) (\<lambda>s.
       Inr (s\<lparr>tss := tss_zero\<lparr>ss0 := ucast s0, esp0 := e0, cs := 0x0b, ss := 0x13, ds := 0x13,
                       es := 0x13, fs := 0x13, gs := 0x13, iomap_base := ucast tss_size\<rparr>\<rparr>))"

definition gdt_install :: "u32 \<Rightarrow> u32 \<Rightarrow> gdt_state \<Rightarrow> gdt_state res" where
  "gdt_install gdt_addr tss_addr s =
     (let s = s\<lparr>gp_limit := 8 * 6 - 1, gp_base := gdt_addr\<rparr> in
      sbind (add_gdt_entry 0 0 0 0 0 s) (\<lambda>s.
      sbind (add_gdt_entry 1 0 0xFFFFFFFF 0x9A 0xCF s) (\<lambda>s.
      sbind (add_gdt_entry 2 0 0xFFFFFFFF 0x92 0xCF s) (\<lambda>s.
      sbind (add_gdt_entry 3 0 0xFFFFFFFF 0xFA 0xCF s) (\<lambda>s.
      sbind (add_gdt_entry 4 0 0xFFFFFFFF 0xF2 0xCF s) (\<lambda>s.
      write_tss tss_addr 5 0x10 0x0 s))))))"

definition tss_set_kernel_stack :: "u32 \<Rightarrow> gdt_state \<Rightarrow> gdt_state" where
  "tss_set_kernel_stack stack s = s\<lparr>tss := (tss s)\<lparr>esp0 := stack\<rparr>\<rparr>"

text \<open>How the processor reads a descriptor.\<close>

definition gdt_base :: "gdt_entry \<Rightarrow> u32" where
  "gdt_base e = ucast (base_low e) OR push_bit 16 (ucast (base_middle e)) OR push_bit 24 (ucast (base_high e))"

definition gdt_limit :: "gdt_entry \<Rightarrow> u32" where
  "gdt_limit e = ucast (limit e) OR push_bit 16 (ucast (granularity e) AND 0xF)"

subsection \<open>idt.c\<close>

record idt_entry =
  i_base_low :: u16
  i_sel :: u16
  i_zero :: u8
  i_flags :: u8
  i_base_high :: u16

definition idt_set_gate :: "u8 \<Rightarrow> u32 \<Rightarrow> u16 \<Rightarrow> u8 \<Rightarrow> idt_entry list \<Rightarrow> idt_entry list" where
  "idt_set_gate num base sel flags idt =
     idt[unat num := \<lparr>i_base_low = ucast (base AND 0xFFFF), i_sel = sel, i_zero = 0,
           i_flags = flags OR 0x60, i_base_high = ucast (drop_bit 16 base AND 0xFFFF)\<rparr>]"

text \<open>
  The gates in the order \<open>idt_install\<close> sets them: the 32 exceptions, the system call
  vector 127 and the 16 interrupt lines. \<open>isr\<close> and \<open>irq\<close> give the addresses of the stubs.
\<close>

definition idt_gates :: "(nat \<Rightarrow> u32) \<Rightarrow> (nat \<Rightarrow> u32) \<Rightarrow> (nat \<times> u32) list" where
  "idt_gates isr irq = map (\<lambda>n. (n, isr n)) [0..<32] @ [(127, isr 127)]
     @ map (\<lambda>n. (32 + n, irq n)) [0..<16]"

definition idt_install :: "(nat \<Rightarrow> u32) \<Rightarrow> (nat \<Rightarrow> u32) \<Rightarrow> idt_entry list \<Rightarrow> idt_entry list" where
  "idt_install isr irq idt =
     fold (\<lambda>(n, base). idt_set_gate (of_nat n) base 0x08 0x8E) (idt_gates isr irq) idt"

definition idt_offset :: "idt_entry \<Rightarrow> u32" where
  "idt_offset e = ucast (i_base_low e) OR push_bit 16 (ucast (i_base_high e))"

subsection \<open>irq.c and isr.c\<close>

text \<open>
  Handlers are function addresses, 0 for none; \<open>run\<close> is the effect of calling one.
  \<open>cur\<close> is the pid of the running process, if any, and \<open>exit_current\<close> its \<open>proc_exit\<close>.
\<close>

record kintr =
  irq_handlers :: "u32 list"
  isr_handlers :: "u32 list"
  interrupt_locker :: u32
  iolog :: io

definition irq_set_handler :: "u8 \<Rightarrow> u32 \<Rightarrow> kintr \<Rightarrow> kintr res" where
  "irq_set_handler irq handler s =
     sbind (store_at (irq_handlers s) (unat irq) handler) (\<lambda>t. Inr (s\<lparr>irq_handlers := t\<rparr>))"

definition irq_unset_handler :: "u8 \<Rightarrow> kintr \<Rightarrow> kintr res" where
  "irq_unset_handler irq s =
     sbind (store_at (irq_handlers s) (unat irq) 0) (\<lambda>t. Inr (s\<lparr>irq_handlers := t\<rparr>))"

definition irq_end :: "u8 \<Rightarrow> io \<Rightarrow> io" where
  "irq_end int_no h = outb 0x20 0x20 (if int_no \<ge> 8 then outb 0xA0 0x20 h else h)"

definition lock_interrupts :: "kintr \<Rightarrow> kintr" where
  "lock_interrupts s = s\<lparr>interrupt_locker := 1\<rparr>"

definition unlock_interrupts :: "kintr \<Rightarrow> kintr" where
  "unlock_interrupts s = s\<lparr>interrupt_locker := 0\<rparr>"

definition disable_interrupts :: "kintr \<Rightarrow> kintr" where
  "disable_interrupts s = (if interrupt_locker s = 0 then s\<lparr>iolog := iolog s @ [Cli]\<rparr> else s)"

definition enable_interrupts :: "kintr \<Rightarrow> kintr" where
  "enable_interrupts s = (if interrupt_locker s = 0 then s\<lparr>iolog := iolog s @ [Sti]\<rparr> else s)"

definition irq_handler :: "(u32 \<Rightarrow> kintr \<Rightarrow> kintr) \<Rightarrow> u32 \<Rightarrow> kintr \<Rightarrow> kintr res" where
  "irq_handler run int_no s =
     (let s = lock_interrupts s in
      sbind (if int_no > 47 \<or> int_no < 32 then Inr 0
             else load_at (irq_handlers s) (unat (int_no - 32))) (\<lambda>handler.
        Inr (unlock_interrupts
          (if handler \<noteq> 0 then run handler s
           else s\<lparr>iolog := irq_end (ucast (int_no - 32)) (iolog s)\<rparr>))))"

definition isr_set_handler :: "u16 \<Rightarrow> u32 \<Rightarrow> kintr \<Rightarrow> kintr res" where
  "isr_set_handler isr handler s =
     sbind (store_at (isr_handlers s) (unat isr) handler) (\<lambda>t. Inr (s\<lparr>isr_handlers := t\<rparr>))"

definition isr_unset_handler :: "u16 \<Rightarrow> kintr \<Rightarrow> kintr res" where
  "isr_unset_handler isr s =
     sbind (store_at (isr_handlers s) (unat isr) 0) (\<lambda>t. Inr (s\<lparr>isr_handlers := t\<rparr>))"

definition exc_m :: "string list" where
  "exc_m = [''Division by zero'', ''Debug'', ''Non-maskable interrupt'', ''Breakpoint'',
     ''Detected overflow'', ''Out-of-bounds'', ''Invalid opcode'', ''No coprocessor'',
     ''Double fault'', ''Coprocessor segment overrun'', ''Bad TSS'', ''Segment not present'',
     ''Stack fault'', ''General protection fault'', ''Page fault'', ''Unknown interrupt'',
     ''Coprocessor fault'', ''Alignment check'', ''Machine check''] @ replicate 13 ''Reserved''"

definition fault_handler ::
    "(u32 \<Rightarrow> kintr \<Rightarrow> kintr) \<Rightarrow> u32 option \<Rightarrow> (kintr \<Rightarrow> kintr) \<Rightarrow> u32 \<Rightarrow> kintr \<Rightarrow> kintr res" where
  "fault_handler run cur exit_current int_no s =
     (let s = lock_interrupts s in
      sbind (load_at (isr_handlers s) (unat int_no)) (\<lambda>handler.
        if handler \<noteq> 0 then Inr (unlock_interrupts (run handler s))
        else
          (case cur of
             Some pid \<Rightarrow>
               if pid \<noteq> 1 then
                 sbind (load_at exc_m (unat int_no)) (\<lambda>_. Inr (unlock_interrupts (exit_current s)))
               else sbind (load_at exc_m (unat int_no)) (\<lambda>m. Inl (Panic m))
           | None \<Rightarrow> sbind (load_at exc_m (unat int_no)) (\<lambda>m. Inl (Panic m)))))"

subsection \<open>Lemmas\<close>

lemma split_join_u32:
  "ucast (ucast (b :: u32) :: u16) OR push_bit 16 (ucast (ucast (drop_bit 16 b) :: u8))
     OR push_bit 24 (ucast (ucast (drop_bit 24 b) :: u8)) = b"
  unfolding ucast_u16_take ucast_u8_take by (simp add: take_drop_top split_join_bytes)

lemma split_join_halves:
  "ucast (ucast ((b :: u32) AND 0xFFFF) :: u16) OR push_bit 16 (ucast (ucast (drop_bit 16 b AND 0xFFFF) :: u16)) = b"
  unfolding and_masks_u32 ucast_u16_take by (simp add: take_or_push_drop take_drop_top)

lemma idt_set_gate_length [simp]: "length (idt_set_gate n b sel f idt) = length idt"
  by (simp add: idt_set_gate_def)

lemma fold_idt_length:
  "length (fold (\<lambda>(n, b). idt_set_gate (of_nat n) b sel f) gl idt) = length idt"
  by (induction gl arbitrary: idt) auto

lemma fold_idt_other:
  "k \<notin> fst ` set gl \<Longrightarrow> \<forall>(n, b) \<in> set gl. n < 256 \<Longrightarrow>
   fold (\<lambda>(n, b). idt_set_gate (of_nat n) b sel f) gl idt ! k = idt ! k"
  by (induction gl arbitrary: idt)
    (auto simp: idt_set_gate_def unat_of_nat take_bit_nat_eq_self nth_list_update_neq)

lemma idt_set_gate_at:
  assumes "n < 256" "length idt = 256"
  shows "idt_offset (idt_set_gate (of_nat n) b sel f idt ! n) = b"
    "i_sel (idt_set_gate (of_nat n) b sel f idt ! n) = sel"
    "i_flags (idt_set_gate (of_nat n) b sel f idt ! n) = f OR 0x60"
  using assms split_join_halves [of b]
  by (simp_all add: idt_set_gate_def idt_offset_def unat_of_nat take_bit_nat_eq_self)

lemma fold_idt_gate:
  assumes "distinct (map fst gl)" "\<forall>(n, b) \<in> set gl. n < 256" "length idt = 256" "(k, b) \<in> set gl"
  shows "idt_offset (fold (\<lambda>(n, b). idt_set_gate (of_nat n) b sel f) gl idt ! k) = b
    \<and> i_sel (fold (\<lambda>(n, b). idt_set_gate (of_nat n) b sel f) gl idt ! k) = sel
    \<and> i_flags (fold (\<lambda>(n, b). idt_set_gate (of_nat n) b sel f) gl idt ! k) = f OR 0x60"
  using assms
proof (induction gl arbitrary: idt)
  case (Cons g gl)
  obtain n c where g: "g = (n, c)" by (cases g)
  show ?case
  proof (cases "(k, b) \<in> set gl")
    case True
    then show ?thesis using Cons g by auto
  next
    case False
    then have kb: "k = n" "b = c" using Cons.prems g by auto
    moreover have "k \<notin> fst ` set gl" using Cons.prems(1) g kb by auto
    moreover have "k < 256" using Cons.prems g kb by auto
    ultimately show ?thesis
      using Cons.prems fold_idt_other [of k gl sel f] idt_set_gate_at [of k idt b sel f] by (simp add: g)
  qed
qed simp

subsection \<open>Properties\<close>

text \<open>A descriptor written by \<open>add_gdt_entry\<close> is read back by the processor with
  the base address it was given, whatever the 32-bit address, and with the access byte; the
  other descriptors are untouched. The limit keeps its low 16 bits and takes bits 16 to 19
  from the granularity byte.\<close>

theorem add_gdt_entry_roundtrip:
  assumes "num < length (gdt s)"
  shows "\<exists>s'. add_gdt_entry num base lim acc gran s = Inr s'
     \<and> gdt_base (gdt s' ! num) = base \<and> access (gdt s' ! num) = ucast acc
     \<and> gdt_limit (gdt s' ! num) = (lim AND 0xFFFF) OR push_bit 16 (gran AND 0xF)
     \<and> (\<forall>k. k \<noteq> num \<longrightarrow> gdt s' ! k = gdt s ! k)"
proof -
  have "ucast (ucast lim :: u16) = lim AND (0xFFFF :: u32)"
    "ucast (ucast gran :: u8) AND (0xF :: u32) = gran AND 0xF"
    unfolding mask_eq_exp_minus_1 [of 16, where 'a = "32 word", simplified, symmetric]
      mask_eq_exp_minus_1 [of 4, where 'a = "32 word", simplified, symmetric]
    by (rule bit_word_eqI, auto simp: bit_simps)+
  from this(1) arg_cong [OF this(2), of "push_bit 16"] assms show ?thesis
    by (simp add: add_gdt_entry_def gdt_base_def gdt_limit_def split_join_u32)
qed

theorem add_gdt_entry_roundtrip_witness:
  "\<exists>s'. add_gdt_entry 0 0x12345678 0xFFFFF 0x9A 0xCF
        \<lparr>gdt = [\<lparr>limit = 0, base_low = 0, base_middle = 0, access = 0, granularity = 0, base_high = 0\<rparr>],
         gp_limit = 0, gp_base = 0, tss = tss_zero\<rparr> = Inr s'
     \<and> gdt_base (gdt s' ! 0) = 0x12345678 \<and> access (gdt s' ! 0) = ucast (0x9A :: u32)
     \<and> gdt_limit (gdt s' ! 0) = (0xFFFFF AND 0xFFFF) OR push_bit 16 (0xCF AND 0xF)
     \<and> (\<forall>k. k \<noteq> 0 \<longrightarrow> gdt s' ! k = gdt \<lparr>gdt = [\<lparr>limit = 0, base_low = 0, base_middle = 0, access = 0, granularity = 0, base_high = 0\<rparr>],
         gp_limit = 0, gp_base = 0, tss = tss_zero\<rparr> ! k)"
  by (rule add_gdt_entry_roundtrip) simp

text \<open>After \<open>idt_install\<close> on a table of 256 gates, every exception vector, the system
  call vector 127 and every interrupt line vector holds the address of its own stub, in the
  kernel code segment, with flags 0xEE (present, ring 3, 32-bit interrupt gate); every other
  vector is unchanged.\<close>

theorem idt_install_gates:
  assumes "length idt = 256"
  shows "(n < 32 \<or> n = 127 \<longrightarrow> idt_offset (idt_install isr irq idt ! n) = isr n)
    \<and> (n < 16 \<longrightarrow> idt_offset (idt_install isr irq idt ! (32 + n)) = irq n)
    \<and> (n < 48 \<or> n = 127 \<longrightarrow> i_sel (idt_install isr irq idt ! n) = 0x08
         \<and> i_flags (idt_install isr irq idt ! n) = 0xEE)
    \<and> (48 \<le> n \<and> n \<noteq> 127 \<longrightarrow> idt_install isr irq idt ! n = idt ! n)"
proof -
  let ?gl = "idt_gates isr irq"
  have d: "distinct (map fst ?gl)" by (auto simp: idt_gates_def distinct_map comp_def inj_on_def)
  have b: "\<forall>(k, b) \<in> set ?gl. k < 256" by (auto simp: idt_gates_def)
  note gate = fold_idt_gate [OF d b assms, where sel = "0x08" and f = "0x8E", folded idt_install_def, simplified]
  have "(n, isr n) \<in> set ?gl" if "n < 32 \<or> n = 127" using that by (auto simp: idt_gates_def)
  moreover have i: "(32 + k, irq k) \<in> set ?gl" if "k < 16" for k using that by (auto simp: idt_gates_def)
  moreover have "(n, irq (n - 32)) \<in> set ?gl" if "\<not> n < 32" "n < 48" using i [of "n - 32"] that by simp
  moreover have "n \<notin> fst ` set ?gl" if "48 \<le> n" "n \<noteq> 127" using that by (auto simp: idt_gates_def)
  then have "idt_install isr irq idt ! n = idt ! n" if "48 \<le> n" "n \<noteq> 127"
    using fold_idt_other [OF _ b] that by (simp add: idt_install_def)
  ultimately show ?thesis using gate by fastforce
qed

theorem idt_install_gates_witness:
  "let idt = replicate 256 \<lparr>i_base_low = 1, i_sel = 2, i_zero = 3, i_flags = 4, i_base_high = 5\<rparr>;
       idt' = idt_install (\<lambda>n. 1000 + of_nat n) (\<lambda>n. 2000 + of_nat n) idt in
    idt_offset (idt' ! 14) = 1014 \<and> idt_offset (idt' ! 127) = 1127 \<and> idt_offset (idt' ! 33) = 2001
    \<and> i_sel (idt' ! 127) = 8 \<and> i_flags (idt' ! 127) = 0xEE
    \<and> idt' ! 200 = \<lparr>i_base_low = 1, i_sel = 2, i_zero = 3, i_flags = 4, i_base_high = 5\<rparr>"
proof -
  let ?idt = "replicate 256 \<lparr>i_base_low = 1, i_sel = 2, i_zero = 3, i_flags = 4, i_base_high = 5\<rparr>"
  have l: "length ?idt = 256" by simp
  note g = idt_install_gates [OF l, of _ "\<lambda>n. 1000 + of_nat n" "\<lambda>n. 2000 + of_nat n"]
  show ?thesis unfolding Let_def using g [of 14] g [of 127] g [of 1] g [of 200] by simp
qed

text \<open>Interrupt dispatch: for a line with a registered handler exactly that handler
  runs; an unhandled line is acknowledged at the master controller, and also at the slave
  (first) when the line is 8 or above. The interrupt lock is released afterwards in either
  case.\<close>

theorem irq_handler_dispatch:
  assumes "length (irq_handlers s) = 16" "n < 16"
  shows "irq_handler run (of_nat (32 + n)) s = Inr (unlock_interrupts
     (if irq_handlers s ! n \<noteq> 0 then run (irq_handlers s ! n) (lock_interrupts s)
      else s\<lparr>interrupt_locker := 1,
             iolog := iolog s @ (if n \<ge> 8 then [Out8 0xA0 0x20] else []) @ [Out8 0x20 0x20]\<rparr>))"
proof -
  have u: "unat (of_nat (32 + n) :: u32) = 32 + n"
    using assms(2) by (intro unat_of_nat_u32) simp
  have r: "\<not> ((of_nat (32 + n) :: u32) > 47 \<or> (of_nat (32 + n) :: u32) < 32)"
    using u assms(2) by (simp add: word_less_nat_alt del: of_nat_add)
  have d: "(of_nat (32 + n) :: u32) - 32 = of_nat n" by simp
  have n: "unat (of_nat n :: u32) = n" using assms(2) by (intro unat_of_nat_u32) simp
  have "unat (ucast (of_nat n :: u32) :: u8) = n"
    using assms(2) n by (simp add: unsigned_ucast_eq take_bit_nat_eq_self)
  then have "(ucast (of_nat n :: u32) :: u8) \<ge> 8 \<longleftrightarrow> n \<ge> 8" by (simp add: word_le_nat_alt)
  then show ?thesis
    using assms r by (simp add: irq_handler_def d n lock_interrupts_def irq_end_def io_defs
        Let_def del: of_nat_add)
qed

theorem irq_handler_dispatch_witness:
  "let s = \<lparr>irq_handlers = replicate 16 0, isr_handlers = [], interrupt_locker = 0, iolog = []\<rparr> in
   irq_handler (\<lambda>_ t. t) (of_nat (32 + 9)) s = Inr (unlock_interrupts
     (if irq_handlers s ! 9 \<noteq> 0 then lock_interrupts s
      else s\<lparr>interrupt_locker := 1,
             iolog := iolog s @ (if (9 :: nat) \<ge> 8 then [Out8 0xA0 0x20] else []) @ [Out8 0x20 0x20]\<rparr>))"
  unfolding Let_def by (rule irq_handler_dispatch) simp_all

end
