(* ===== verification/Freelist.thy ===== *)
theory Freelist
  imports Smpl_Prelude
begin

text \<open>
  The free list of the two allocators. \<open>os/kernel/mem\<close>'s \<open>kheap.c\<close> and the user-space
  \<open>libc/stdlib/alloc.c\<close> carry the same code: blocks start with a packed 13-byte header
  \<open>mem_t\<close> (memory.h) and the free blocks form a doubly linked list ordered by address,
  with every link tested by a validity check before it is followed. The check is a parameter
  here and is what distinguishes the two copies.

  Memory is seen through its headers only: \<open>hdrs\<close> gives the header read at an address. A
  header never overlaps another one (invariant of theories Kheap and Ualloc), and the bytes
  between headers belong to the clients.
\<close>

record mem_hdr =
  guard :: u8
  hsize :: u32
  hprev :: u32
  hnext :: u32

record heap =
  free_list :: u32
  hdrs :: "u32 \<Rightarrow> mem_hdr"

definition upd_hdr :: "u32 \<Rightarrow> (mem_hdr \<Rightarrow> mem_hdr) \<Rightarrow> 'a heap_scheme \<Rightarrow> 'a heap_scheme" where
  "upd_hdr p f s = s\<lparr>hdrs := (hdrs s)(p := f (hdrs s p))\<rparr>"

definition set_prev :: "u32 \<Rightarrow> u32 \<Rightarrow> 'a heap_scheme \<Rightarrow> 'a heap_scheme" where
  "set_prev p q = upd_hdr p (\<lambda>h. h\<lparr>hprev := q\<rparr>)"

definition set_next :: "u32 \<Rightarrow> u32 \<Rightarrow> 'a heap_scheme \<Rightarrow> 'a heap_scheme" where
  "set_next p q = upd_hdr p (\<lambda>h. h\<lparr>hnext := q\<rparr>)"

abbreviation sizeof_mem_t :: u32 where "sizeof_mem_t \<equiv> 13"
abbreviation KHEAP_GUARD_VALUE :: u8 where "KHEAP_GUARD_VALUE \<equiv> 0xED"

text \<open>\<open>split\<close>: cut a block in two, when there is room for another header.\<close>

definition split_block :: "u32 \<Rightarrow> u32 \<Rightarrow> 'a heap_scheme \<Rightarrow> u32 \<times> 'a heap_scheme" where
  "split_block orig sz s =
     (if hsize (hdrs s orig) \<le> sz + sizeof_mem_t then (0, s)
      else if sz = 0 then (0, s)
      else let newb = orig + sizeof_mem_t + sz;
               s = upd_hdr newb (\<lambda>h. h\<lparr>hsize := hsize (hdrs s orig) - sz - sizeof_mem_t\<rparr>) s;
               s = upd_hdr newb (\<lambda>h. h\<lparr>guard := KHEAP_GUARD_VALUE\<rparr>) s
           in (newb, upd_hdr orig (\<lambda>h. h\<lparr>hsize := sz\<rparr>) s))"

text \<open>The search of \<open>free_insert\<close> for the last block below \<open>b\<close>; on a cyclic list it may run forever.\<close>

partial_function (option) insert_walk ::
  "(u32 \<Rightarrow> bool) \<Rightarrow> (u32 \<Rightarrow> mem_hdr) \<Rightarrow> u32 \<Rightarrow> u32 \<Rightarrow> u32 option" where
  "insert_walk V h b cur =
     (if V (hnext (h cur)) \<and> hnext (h cur) < b then insert_walk V h b (hnext (h cur))
      else Some cur)"

definition free_insert :: "(u32 \<Rightarrow> bool) \<Rightarrow> u32 \<Rightarrow> 'a heap_scheme \<Rightarrow> 'a heap_scheme option" where
  "free_insert V b s =
     (let s = set_next b 0 (set_prev b 0 s) in
      if \<not> V (free_list s) \<or> free_list s > b then
        let s = (if V (free_list s) then set_next b (free_list s) (set_prev (free_list s) b s) else s)
        in Some (s\<lparr>free_list := b\<rparr>)
      else
        (case insert_walk V (hdrs s) b (free_list s) of
           None \<Rightarrow> None
         | Some cur \<Rightarrow>
             let n = hnext (hdrs s cur);
                 s = (if V n then set_prev n b (set_next b n s) else s)
             in Some (set_next cur b (set_prev b cur s))))"

definition free_remove :: "(u32 \<Rightarrow> bool) \<Rightarrow> u32 \<Rightarrow> 'a heap_scheme \<Rightarrow> 'a heap_scheme" where
  "free_remove V b s =
     (let p = hprev (hdrs s b); n = hnext (hdrs s b) in
      if \<not> V p then (if V n then set_prev n 0 (s\<lparr>free_list := n\<rparr>) else s\<lparr>free_list := 0\<rparr>)
      else if V n then (let s = set_next p n s in set_prev (hnext (hdrs s b)) (hprev (hdrs s b)) s)
      else set_next p 0 s)"

partial_function (option) free_scan ::
  "(u32 \<Rightarrow> bool) \<Rightarrow> u32 \<Rightarrow> u32 \<Rightarrow> 'a heap_scheme \<Rightarrow> (u32 \<times> 'a heap_scheme) option" where
  "free_scan V sz freeb s =
     (if V freeb then
        if hsize (hdrs s freeb) = sz then Some (freeb, free_remove V freeb s)
        else if hsize (hdrs s freeb) > sz + sizeof_mem_t then
          let (newb, s) = split_block freeb sz (free_remove V freeb s) in
          if V newb then map_option (\<lambda>s. (freeb, s)) (free_insert V newb s)
          else Some (freeb, s)
        else free_scan V sz (hnext (hdrs s freeb)) s
      else Some (0, s))"

definition free_block :: "(u32 \<Rightarrow> bool) \<Rightarrow> u32 \<Rightarrow> 'a heap_scheme \<Rightarrow> (u32 \<times> 'a heap_scheme) option" where
  "free_block V sz s =
     (if sz = 0 then Some (0, s)
      else if \<not> V (free_list s) then Some (0, s)
      else free_scan V sz (free_list s) s)"

subsection \<open>The list the links spell\<close>

text \<open>\<open>dseg V h prv p xs l q\<close>: from the pointer \<open>p\<close>, the links lead through exactly the
  valid blocks \<open>xs\<close> to the pointer \<open>q\<close>; \<open>prv\<close> is the back link of the first and \<open>l\<close> the
  last block passed.\<close>

fun dseg :: "(u32 \<Rightarrow> bool) \<Rightarrow> (u32 \<Rightarrow> mem_hdr) \<Rightarrow> u32 \<Rightarrow> u32 \<Rightarrow> u32 list \<Rightarrow> u32 \<Rightarrow> u32 \<Rightarrow> bool" where
  "dseg V h prv p [] l q \<longleftrightarrow> p = q \<and> prv = l"
| "dseg V h prv p (x # xs) l q \<longleftrightarrow>
     p = x \<and> V x \<and> hprev (h x) = prv \<and> dseg V h x (hnext (h x)) xs l q"

definition fl_ok :: "(u32 \<Rightarrow> bool) \<Rightarrow> 'a heap_scheme \<Rightarrow> u32 list \<Rightarrow> bool" where
  "fl_ok V s xs \<longleftrightarrow> \<not> V 0 \<and> sorted_wrt (<) xs \<and> (\<exists>l. dseg V (hdrs s) 0 (free_list s) xs l 0)"

lemma dseg_append:
  "dseg V h prv p (xs @ ys) l q \<longleftrightarrow> (\<exists>l' q'. dseg V h prv p xs l' q' \<and> dseg V h l' q' ys l q)"
  by (induction xs arbitrary: prv p) auto

lemma dseg_frame:
  "(\<And>x. x \<in> set xs \<Longrightarrow> hprev (h x) = hprev (k x) \<and> hnext (h x) = hnext (k x)) \<Longrightarrow>
   dseg V h prv p xs l q = dseg V k prv p xs l q"
  by (induction xs arbitrary: prv p) auto

lemma dseg_upd_other: "b \<notin> set xs \<Longrightarrow> dseg V (h(b := r)) prv p xs l q = dseg V h prv p xs l q"
  by (rule dseg_frame) auto

lemma dseg_valid: "dseg V h prv p xs l q \<Longrightarrow> x \<in> set xs \<Longrightarrow> V x"
  by (induction xs arbitrary: prv p) auto

text \<open>Every non-empty segment ends in a block whose forward link is the end pointer; changing it
  redirects the segment.\<close>

lemma dseg_snoc:
  "dseg V h prv p (xs @ [c]) l q \<longleftrightarrow>
     (\<exists>l'. dseg V h prv p xs l' c \<and> V c \<and> hprev (h c) = l' \<and> hnext (h c) = q \<and> l = c)"
  by (auto simp: dseg_append)

lemma dseg_relink:
  "dseg V h prv p (xs @ [c]) l q \<Longrightarrow> c \<notin> set xs \<Longrightarrow>
   dseg V (h(c := (h c)\<lparr>hnext := q'\<rparr>)) prv p (xs @ [c]) c q'"
  by (auto simp: dseg_snoc dseg_upd_other)

lemma dseg_rehead:
  "dseg V h prv p (x # xs) l q \<Longrightarrow> x \<notin> set xs \<Longrightarrow>
   dseg V (h(x := (h x)\<lparr>hprev := prv'\<rparr>)) prv' x (x # xs) l q"
  by (auto simp: dseg_upd_other)

lemma sorted_less_distinct: "sorted_wrt (<) (xs :: 'a :: linorder list) \<Longrightarrow> distinct xs"
  by (induction xs) auto

text \<open>The walk stops at the last block below \<open>b\<close>.\<close>

lemma insert_walk_segment:
  assumes "dseg V h prv c (c # cs) l q" "\<forall>x \<in> set cs. x < b" "\<not> (V q \<and> q < b)"
  shows "insert_walk V h b c = Some l"
  using assms
proof (induction cs arbitrary: c prv)
  case Nil
  then show ?case by (subst insert_walk.simps) auto
next
  case (Cons d ds)
  then have "hnext (h c) = d" "V d" "d < b" by auto
  moreover have "insert_walk V h b d = Some l"
    using Cons.IH [of c d] Cons.prems by (auto simp: Cons)
  ultimately show ?case by (subst insert_walk.simps) simp
qed


subsection \<open>Insertion and removal\<close>

lemma hdrs_set_prev: "hdrs (set_prev p q s) = (hdrs s)(p := (hdrs s p)\<lparr>hprev := q\<rparr>)"
  and hdrs_set_next: "hdrs (set_next p q s) = (hdrs s)(p := (hdrs s p)\<lparr>hnext := q\<rparr>)"
  and free_list_set_prev: "free_list (set_prev p q s) = free_list s"
  and free_list_set_next: "free_list (set_next p q s) = free_list s"
  and more_set_prev: "heap.more (set_prev p q s) = heap.more s"
  and more_set_next: "heap.more (set_next p q s) = heap.more s"
  by (simp_all add: set_prev_def set_next_def upd_hdr_def)

lemmas link_simps [simp] =
  hdrs_set_prev hdrs_set_next free_list_set_prev free_list_set_next more_set_prev more_set_next

text \<open>What the list operations leave alone: sizes, guards and the headers of all blocks not on
  the list.\<close>

definition same_blocks :: "u32 set \<Rightarrow> 'a heap_scheme \<Rightarrow> 'a heap_scheme \<Rightarrow> bool" where
  "same_blocks A s s' \<longleftrightarrow> heap.more s' = heap.more s
     \<and> (\<forall>p. hsize (hdrs s' p) = hsize (hdrs s p) \<and> guard (hdrs s' p) = guard (hdrs s p))
     \<and> (\<forall>p. p \<notin> A \<longrightarrow> hdrs s' p = hdrs s p)"

lemma insort_between:
  assumes "\<forall>x \<in> set as. x < b" "\<forall>x \<in> set bs. b < x"
  shows "insort b (as @ bs) = as @ b # bs"
proof (use assms in \<open>induction as\<close>)
  case Nil
  then show ?case by (cases bs) auto
qed auto

lemma split_sorted:
  assumes "sorted_wrt (<) xs" "(b :: 'a :: linorder) \<notin> set xs"
  obtains as bs where "xs = as @ bs" "\<forall>x \<in> set as. x < b" "\<forall>x \<in> set bs. b < x"
proof
  show "xs = takeWhile (\<lambda>x. x < b) xs @ dropWhile (\<lambda>x. x < b) xs" by simp
  show "\<forall>x \<in> set (takeWhile (\<lambda>x. x < b) xs). x < b" by (auto dest: set_takeWhileD)
  show "\<forall>x \<in> set (dropWhile (\<lambda>x. x < b) xs). b < x"
  proof (cases "dropWhile (\<lambda>x. x < b) xs")
    case (Cons d ds)
    then have "\<not> d < b" using hd_dropWhile [of "\<lambda>x. x < b" xs] by simp
    moreover have "d \<noteq> b" using assms(2) set_dropWhileD [of d "\<lambda>x. x < b" xs] Cons by auto
    moreover have "\<forall>x \<in> set ds. d < x"
      using assms(1) Cons by (metis sorted_wrt.simps(2) sorted_wrt_append takeWhile_dropWhile_id)
    ultimately show ?thesis by (auto simp: Cons)
  next
    case Nil
    show ?thesis unfolding Nil by simp
  qed
qed

lemma sorted_insort_strict:
  "sorted_wrt (<) xs \<Longrightarrow> (b :: 'a :: linorder) \<notin> set xs \<Longrightarrow> sorted_wrt (<) (insort b xs)"
  by (metis distinct_insort sorted_insort strict_sorted_iff)

lemma fl_ok_headD:
  "fl_ok V s [] \<Longrightarrow> free_list s = 0"
  "fl_ok V s (x # xs) \<Longrightarrow> free_list s = x \<and> V x"
  by (auto simp: fl_ok_def)

lemma free_insert_front:
  assumes ok: "fl_ok V s xs" and V: "V b" and b: "\<forall>x \<in> set xs. b < x"
  shows "\<exists>s'. free_insert V b s = Some s' \<and> fl_ok V s' (b # xs) \<and> same_blocks (insert b (set xs)) s s'"
proof (cases xs)
  case Nil
  with ok V show ?thesis
    by (auto simp: fl_ok_def free_insert_def Let_def same_blocks_def)
next
  case (Cons x ys)
  with ok have x: "free_list s = x" "V x" by (auto dest: fl_ok_headD)
  obtain l where "sorted_wrt (<) (x # ys)" "dseg V (hdrs s) 0 x (x # ys) l 0" "\<not> V 0"
    using ok Cons by (auto simp: fl_ok_def)
  moreover have "b \<notin> set ys" "x \<notin> set ys" "b \<noteq> x" "b < x" using b Cons calculation(1) by auto
  ultimately show ?thesis using V x b unfolding Cons
    by (auto simp: fl_ok_def free_insert_def Let_def same_blocks_def dseg_upd_other)
qed

lemma free_insert_after:
  assumes ok: "fl_ok V s (as @ c # bs)" and V: "V b"
    and a: "\<forall>x \<in> set (as @ [c]). x < b" and b: "\<forall>x \<in> set bs. b < x"
  shows "\<exists>s'. free_insert V b s = Some s' \<and> fl_ok V s' (as @ c # b # bs)
     \<and> same_blocks (insert b (set (as @ c # bs))) s s'"
proof -
  let ?s1 = "set_next b 0 (set_prev b 0 s)"
  obtain l m q where seg: "dseg V (hdrs s) 0 (free_list s) (as @ [c]) m q"
    and rest: "dseg V (hdrs s) m q bs l 0" and nz: "\<not> V 0" and sorted: "sorted_wrt (<) (as @ c # bs)"
    using ok by (auto simp: fl_ok_def dseg_append)
  have fresh: "b \<notin> set (as @ [c])" "b \<notin> set bs" "c \<notin> set as" "c \<notin> set bs" "c \<noteq> b"
    using a b sorted by (auto simp: sorted_wrt_append)
  have seg1: "dseg V (hdrs ?s1) 0 (free_list s) (as @ [c]) m q"
    and rest1: "dseg V (hdrs ?s1) m q bs l 0"
    using seg rest fresh by (simp_all add: dseg_upd_other)
  obtain x xs where x: "as @ [c] = x # xs" by (cases as) auto
  have head: "free_list s = x" "V x" "x < b" using seg a unfolding x by auto
  have m: "m = c" "hnext (hdrs s c) = q" "V c" using seg by (auto simp: dseg_snoc)
  have "\<not> (V q \<and> q < b)" using rest b nz by (cases bs) auto
  then have walk: "insert_walk V (hdrs ?s1) b (free_list s) = Some c"
    using insert_walk_segment [of V "hdrs ?s1" 0 x xs m q b] seg1 a head m unfolding x
    by (metis list.set_intros(2))
  have guard: "V (free_list s)" "\<not> b < free_list s" using head by auto
  show ?thesis
  proof (cases bs)
    case Nil
    then have q0: "q = 0" using rest by simp
    let ?s2 = "set_next c b (set_prev b c ?s1)"
    have r: "free_insert V b s = Some ?s2"
      using guard walk m q0 nz fresh by (simp add: free_insert_def Let_def)
    have "dseg V (hdrs ?s2) 0 (free_list s) (as @ [c]) c b"
      using seg m fresh V by (auto simp: dseg_snoc dseg_upd_other)
    then have "dseg V (hdrs ?s2) 0 (free_list ?s2) (as @ c # [b]) b 0"
      using V fresh dseg_append [of V "hdrs ?s2" 0 "free_list s" "as @ [c]" "[b]" b 0] by auto
    moreover have "sorted_wrt (<) (as @ c # [b])" using a sorted by (auto simp: sorted_wrt_append)
    ultimately show ?thesis using r nz fresh Nil
      by (intro exI [of _ ?s2]) (auto simp: fl_ok_def same_blocks_def)
  next
    case (Cons d ds)
    then have qd: "q = d" "V d" using rest by auto
    have d: "d \<notin> set as" "d \<noteq> c" "d \<noteq> b" "d \<notin> set ds" using sorted fresh Cons by (auto simp: sorted_wrt_append)
    let ?s2 = "set_next c b (set_prev b c (set_prev d b (set_next b d ?s1)))"
    have r: "free_insert V b s = Some ?s2"
      using guard walk m qd fresh by (simp add: free_insert_def Let_def)
    have "dseg V (hdrs ?s2) 0 (free_list s) (as @ [c]) c b"
      using seg m fresh V d by (auto simp: dseg_snoc dseg_upd_other)
    moreover have "dseg V (hdrs ?s2) c b (b # bs) l 0"
      using V fresh d rest m qd Cons by (auto simp: dseg_upd_other)
    ultimately have "dseg V (hdrs ?s2) 0 (free_list ?s2) (as @ c # b # bs) l 0"
      using dseg_append [of V "hdrs ?s2" 0 "free_list s" "as @ [c]" "b # bs" l 0] by auto
    moreover have "sorted_wrt (<) (as @ c # b # bs)"
      using a b sorted by (auto simp: sorted_wrt_append)
    ultimately show ?thesis using r nz fresh Cons
      by (intro exI [of _ ?s2]) (auto simp: fl_ok_def same_blocks_def)
  qed
qed

lemma free_insert_ok:
  assumes ok: "fl_ok V s xs" and V: "V b" and b: "b \<notin> set xs"
  shows "\<exists>s'. free_insert V b s = Some s' \<and> fl_ok V s' (insort b xs)
     \<and> same_blocks (insert b (set xs)) s s'"
proof -
  obtain as bs where ab: "xs = as @ bs" "\<forall>x \<in> set as. x < b" "\<forall>x \<in> set bs. b < x"
    using split_sorted [of xs b] ok b by (auto simp: fl_ok_def)
  then have ins: "insort b xs = as @ b # bs" using insort_between by blast
  show ?thesis
  proof (cases as rule: rev_cases)
    case Nil
    with free_insert_front [OF ok V] ab ins show ?thesis by simp
  next
    case (snoc cs c)
    with free_insert_after [of V s cs c bs b] ok V ab ins show ?thesis by simp
  qed
qed

lemma hdrs_free_list_update [simp]: "hdrs (s\<lparr>free_list := p\<rparr>) = hdrs s"
  by simp

lemma free_remove_first:
  assumes ok: "fl_ok V s (b # bs)"
  shows "fl_ok V (free_remove V b s) bs \<and> same_blocks (set (b # bs)) s (free_remove V b s)"
proof -
  obtain l where seg: "hprev (hdrs s b) = 0" "dseg V (hdrs s) b (hnext (hdrs s b)) bs l 0"
    and nz: "\<not> V 0" and sorted: "sorted_wrt (<) (b # bs)"
    using ok by (auto simp: fl_ok_def)
  show ?thesis
  proof (cases bs)
    case Nil
    with seg nz show ?thesis by (auto simp: free_remove_def fl_ok_def same_blocks_def)
  next
    case (Cons d ds)
    moreover have "d \<notin> set ds" using sorted Cons by auto
    ultimately show ?thesis using seg nz sorted
      by (auto simp: free_remove_def fl_ok_def same_blocks_def dseg_upd_other intro!: exI [of _ l])
  qed
qed

lemma free_remove_later:
  assumes ok: "fl_ok V s (as @ c # b # bs)"
  shows "fl_ok V (free_remove V b s) (as @ c # bs)
    \<and> same_blocks (set (as @ c # b # bs)) s (free_remove V b s)"
proof -
  obtain l m q where segs: "dseg V (hdrs s) 0 (free_list s) (as @ [c]) m q"
    "dseg V (hdrs s) m q (b # bs) l 0" and nz: "\<not> V 0"
    and sorted: "sorted_wrt (<) (as @ c # b # bs)"
    using ok dseg_append [of V "hdrs s" 0 "free_list s" "as @ [c]" "b # bs"] by (auto simp: fl_ok_def)
  then have m: "m = c" "hnext (hdrs s c) = q" "V c" "q = b" "V b" "hprev (hdrs s b) = c"
    by (auto simp: dseg_snoc)
  have new: "c \<notin> set as" "c \<notin> set bs" "b \<notin> set as" "b \<notin> set bs" "b \<noteq> c"
    using sorted by (auto simp: sorted_wrt_append)
  have sorted': "sorted_wrt (<) (as @ c # bs)" using sorted by (auto simp: sorted_wrt_append)
  let ?s' = "free_remove V b s"
  show ?thesis
  proof (cases bs)
    case Nil
    then have r: "?s' = set_next c 0 s" using m segs(2) nz by (auto simp: free_remove_def Let_def)
    have "dseg V (hdrs ?s') 0 (free_list ?s') (as @ [c]) c 0"
      unfolding r using segs(1) m new by (auto simp: dseg_snoc dseg_upd_other)
    with Nil sorted' nz show ?thesis by (auto simp: r fl_ok_def same_blocks_def)
  next
    case (Cons d ds)
    then have n: "hnext (hdrs s b) = d" "V d" "hprev (hdrs s d) = b"
      "dseg V (hdrs s) d (hnext (hdrs s d)) ds l 0" using segs by auto
    then have r: "?s' = set_prev d c (set_next c d s)"
      using m new by (simp add: free_remove_def Let_def)
    have d: "d \<notin> set as" "d \<noteq> c" "d \<notin> set ds" using sorted Cons by (auto simp: sorted_wrt_append)
    have "dseg V (hdrs ?s') 0 (free_list s) (as @ [c]) c d"
      unfolding r using segs(1) m new d by (auto simp: dseg_snoc dseg_upd_other)
    moreover have "dseg V (hdrs ?s') c d bs l 0"
      unfolding r Cons using n d new Cons by (auto simp: dseg_upd_other)
    ultimately have "dseg V (hdrs ?s') 0 (free_list s) ((as @ [c]) @ bs) l 0"
      unfolding dseg_append by blast
    with sorted' nz have "fl_ok V ?s' (as @ c # bs)" by (auto simp: r fl_ok_def)
    then show ?thesis by (auto simp: r same_blocks_def Cons)
  qed
qed

lemma free_remove_ok:
  assumes ok: "fl_ok V s xs" and b: "b \<in> set xs"
  shows "fl_ok V (free_remove V b s) (remove1 b xs) \<and> same_blocks (set xs) s (free_remove V b s)"
proof -
  obtain as bs where ab: "xs = as @ b # bs" "b \<notin> set as" using b by (meson split_list_first)
  then have "remove1 b xs = as @ bs" by (simp add: remove1_append)
  then show ?thesis
    using free_remove_first [of V s b bs] free_remove_later [of V s _ _ b bs] ok ab
    by (cases as rule: rev_cases) auto
qed

subsection \<open>First fit\<close>

definition fits :: "u32 \<Rightarrow> 'a heap_scheme \<Rightarrow> u32 \<Rightarrow> bool" where
  "fits sz s x \<longleftrightarrow> hsize (hdrs s x) = sz \<or> hsize (hdrs s x) > sz + sizeof_mem_t"

text \<open>What taking the block \<open>x\<close> for a request does.\<close>

definition take_block :: "(u32 \<Rightarrow> bool) \<Rightarrow> u32 \<Rightarrow> u32 \<Rightarrow> 'a heap_scheme \<Rightarrow> (u32 \<times> 'a heap_scheme) option" where
  "take_block V sz x s =
     (if hsize (hdrs s x) = sz then Some (x, free_remove V x s)
      else let (newb, s) = split_block x sz (free_remove V x s) in
           if V newb then map_option (\<lambda>s. (x, s)) (free_insert V newb s) else Some (x, s))"

lemma free_scan_segment:
  "dseg V (hdrs s) prv p xs l 0 \<Longrightarrow> \<not> V 0 \<Longrightarrow>
   free_scan V sz p s = (case find (fits sz s) xs of None \<Rightarrow> Some (0, s) | Some x \<Rightarrow> take_block V sz x s)"
proof (induction xs arbitrary: prv p)
  case Nil
  then show ?case by (subst free_scan.simps) simp
next
  case (Cons x xs)
  then have IH: "free_scan V sz (hnext (hdrs s x)) s =
      (case find (fits sz s) xs of None \<Rightarrow> Some (0, s) | Some x \<Rightarrow> take_block V sz x s)" by auto
  show ?case using Cons.prems IH by (subst free_scan.simps) (auto simp: fits_def take_block_def)
qed

lemma free_block_first_fit:
  assumes ok: "fl_ok V s xs" and sz: "sz \<noteq> 0"
  shows "free_block V sz s =
    (case find (fits sz s) xs of None \<Rightarrow> Some (0, s) | Some x \<Rightarrow> take_block V sz x s)"
proof -
  obtain l where l: "dseg V (hdrs s) 0 (free_list s) xs l 0" "\<not> V 0" using ok by (auto simp: fl_ok_def)
  show ?thesis
  proof (cases xs)
    case Nil
    with l sz show ?thesis by (simp add: free_block_def)
  next
    case (Cons x ys)
    with l sz have "free_block V sz s = free_scan V sz (free_list s) s" by (auto simp: free_block_def)
    with free_scan_segment [OF l, of sz] show ?thesis by simp
  qed
qed

lemma same_blocks_refl [simp]: "same_blocks A s s"
  by (simp add: same_blocks_def)

lemma same_blocksD:
  assumes "same_blocks A s s'"
  shows "heap.more s' = heap.more s" "hsize (hdrs s' p) = hsize (hdrs s p)"
    "guard (hdrs s' p) = guard (hdrs s p)" "p \<notin> A \<Longrightarrow> hdrs s' p = hdrs s p"
  using assms by (simp_all add: same_blocks_def)

text \<open>An exact block leaves the list; a larger one leaves it and its tail, behind a new header,
  takes its place.\<close>

lemma take_block_exact:
  assumes ok: "fl_ok V s xs" and x: "x \<in> set xs" and eq: "hsize (hdrs s x) = sz"
  shows "\<exists>s'. take_block V sz x s = Some (x, s') \<and> fl_ok V s' (remove1 x xs) \<and> same_blocks (set xs) s s'"
  using free_remove_ok [OF ok x] eq by (simp add: take_block_def)

lemma take_block_split:
  fixes s :: "'a heap_scheme"
  assumes ok: "fl_ok V s xs" and x: "x \<in> set xs" and sz: "sz \<noteq> 0"
    and gt: "hsize (hdrs s x) > sz + 13" and ne: "hsize (hdrs s x) \<noteq> sz"
    and nb: "newb = x + 13 + sz" "V newb" "newb \<notin> set xs"
  shows "\<exists>s'. take_block V sz x s = Some (x, s') \<and> fl_ok V s' (insort newb (remove1 x xs))
     \<and> heap.more s' = heap.more s
     \<and> hsize (hdrs s' x) = sz \<and> guard (hdrs s' x) = guard (hdrs s x)
     \<and> hsize (hdrs s' newb) = hsize (hdrs s x) - sz - 13 \<and> guard (hdrs s' newb) = KHEAP_GUARD_VALUE
     \<and> (\<forall>p. p \<noteq> x \<longrightarrow> p \<noteq> newb \<longrightarrow>
          hsize (hdrs s' p) = hsize (hdrs s p) \<and> guard (hdrs s' p) = guard (hdrs s p))
     \<and> (\<forall>p. p \<notin> set xs \<longrightarrow> p \<noteq> newb \<longrightarrow> hdrs s' p = hdrs s p)"
proof -
  let ?r = "free_remove V x s"
  have r: "fl_ok V ?r (remove1 x xs)" "same_blocks (set xs) s ?r" using free_remove_ok [OF ok x] by auto
  have xnb: "x \<noteq> newb" using x nb(3) by auto
  have rs: "hsize (hdrs ?r x) = hsize (hdrs s x)" "heap.more ?r = heap.more s"
    using same_blocksD [OF r(2)] by auto
  define t where "t = snd (split_block x sz ?r)"
  have t: "split_block x sz ?r = (newb, t)" "free_list t = free_list ?r" "heap.more t = heap.more s"
    and th: "hdrs t = (hdrs ?r)(newb := (hdrs ?r newb)\<lparr>hsize := hsize (hdrs s x) - sz - 13,
       guard := KHEAP_GUARD_VALUE\<rparr>, x := (hdrs ?r x)\<lparr>hsize := sz\<rparr>)"
    using sz xnb gt [unfolded not_le [symmetric]]
    by (simp_all add: t_def split_block_def Let_def upd_hdr_def rs nb(1) [symmetric])
  have "newb \<notin> set (remove1 x xs)" using nb(3) by (meson set_remove1_subset subset_iff)
  have "distinct xs" using ok by (simp add: fl_ok_def sorted_less_distinct)
  then have xr: "x \<notin> set (remove1 x xs)" by simp
  have "fl_ok V t (remove1 x xs)"
    using r(1) t(2) xr \<open>newb \<notin> set (remove1 x xs)\<close> by (simp add: fl_ok_def th dseg_upd_other)
  then obtain s' where s': "free_insert V newb t = Some s'" "fl_ok V s' (insort newb (remove1 x xs))"
    and sb: "same_blocks (insert newb (set (remove1 x xs))) t s'"
    using free_insert_ok nb(2) \<open>newb \<notin> set (remove1 x xs)\<close> by blast
  have "take_block V sz x s = Some (x, s')"
    using ne t(1) s'(1) nb(2) by (simp add: take_block_def)
  moreover have "hdrs s' p = hdrs s p" if "p \<notin> set xs" "p \<noteq> newb" for p
  proof -
    have "p \<notin> set (remove1 x xs)" "p \<noteq> x" using that x set_remove1_subset [of x xs] by auto
    then show ?thesis using same_blocksD(4) [OF sb, of p] same_blocksD(4) [OF r(2), of p] that
      by (simp add: th)
  qed
  moreover have "hsize (hdrs s' p) = hsize (hdrs t p)" "guard (hdrs s' p) = guard (hdrs t p)" for p
    using same_blocksD [OF sb] by auto
  ultimately show ?thesis using s'(2) t(3) same_blocksD(1) [OF sb] same_blocksD(2,3) [OF r(2)] xnb
    by (intro exI [of _ s']) (simp add: th)
qed

end
