(* ===== verification/Allocator.thy ===== *)
theory Allocator
  imports Freelist
begin

text \<open>
  What the two allocators promise and the block layout behind it. The abstract state of an
  allocator is the finite-looking map from the payload address of every live allocation to
  its size. \<open>tiled\<close> says that the heap is cut without gaps into header/payload blocks;
  \<open>heap_rel\<close> ties a concrete heap to the map of live allocations. The locales state the
  interface the rest of the kernel and the C library rely on; theories Kheap and Ualloc
  interpret them.
\<close>

subsection \<open>The interface\<close>

definition separate :: "(u32 \<rightharpoonup> u32) \<Rightarrow> bool" where
  "separate L \<longleftrightarrow> (\<forall>p q m n. L p = Some m \<longrightarrow> L q = Some n \<longrightarrow> p \<noteq> q \<longrightarrow>
     unat p + unat m \<le> unat q \<or> unat q + unat n \<le> unat p)"

locale allocator =
  fixes rel :: "'s \<Rightarrow> (u32 \<rightharpoonup> u32) \<Rightarrow> bool"
    and room :: "u32 \<Rightarrow> 's \<Rightarrow> bool"
    and alloc :: "u32 \<Rightarrow> 's \<Rightarrow> (u32 \<times> 's) res option"
  assumes rel_separate: "rel s L \<Longrightarrow> separate L"
    and alloc_rel: "rel s L \<Longrightarrow> room sz s \<Longrightarrow>
      \<exists>p s'. alloc sz s = Some (Inr (p, s')) \<and> L p = None \<and> rel s' (L(p \<mapsto> sz))"

locale deallocator = allocator rel room alloc
  for rel :: "'s \<Rightarrow> (u32 \<rightharpoonup> u32) \<Rightarrow> bool" and room alloc +
  fixes dealloc :: "u32 \<Rightarrow> 's \<Rightarrow> 's option"
  assumes dealloc_rel: "rel s L \<Longrightarrow> L p = Some m \<Longrightarrow>
      \<exists>s'. dealloc p s = Some s' \<and> rel s' (L(p := None))"

context allocator
begin

text \<open>A fresh allocation overlaps no live one, and every live one stays where it is.\<close>

lemma alloc_disjoint:
  assumes r: "rel s L" and "room sz s"
  shows "\<exists>p s'. alloc sz s = Some (Inr (p, s')) \<and> rel s' (L(p \<mapsto> sz))
     \<and> (\<forall>q n. L q = Some n \<longrightarrow> (L(p \<mapsto> sz)) q = Some n
          \<and> (unat p + unat sz \<le> unat q \<or> unat q + unat n \<le> unat p))"
proof -
  obtain p s' where a: "alloc sz s = Some (Inr (p, s'))" "L p = None" "rel s' (L(p \<mapsto> sz))"
    using alloc_rel [OF assms] by blast
  have "(L(p \<mapsto> sz)) q = Some n \<and> (unat p + unat sz \<le> unat q \<or> unat q + unat n \<le> unat p)"
    if "L q = Some n" for q n
  proof -
    have "q \<noteq> p" using that a(2) by auto
    then show ?thesis using rel_separate [OF a(3)] that
      unfolding separate_def by (metis fun_upd_apply)
  qed
  with a show ?thesis by blast
qed

end

context deallocator
begin

text \<open>Releasing what was just obtained restores the map of live allocations.\<close>

lemma alloc_dealloc:
  assumes "rel s L" "room sz s"
  shows "\<exists>p s' s''. alloc sz s = Some (Inr (p, s')) \<and> dealloc p s' = Some s'' \<and> rel s'' L"
proof -
  obtain p s' where a: "alloc sz s = Some (Inr (p, s'))" "L p = None" "rel s' (L(p \<mapsto> sz))"
    using alloc_rel [OF assms] by blast
  from dealloc_rel [OF this(3), of p sz] obtain s'' where
    "dealloc p s' = Some s''" "rel s'' ((L(p \<mapsto> sz))(p := None))" by auto
  moreover have "(L(p \<mapsto> sz))(p := None) = L" using a(2) by auto
  ultimately show ?thesis using a(1) by auto
qed

end

subsection \<open>Blocks side by side\<close>

definition next_block :: "(u32 \<Rightarrow> mem_hdr) \<Rightarrow> u32 \<Rightarrow> u32" where
  "next_block h b = b + 13 + hsize (h b)"

fun tiled :: "(u32 \<Rightarrow> mem_hdr) \<Rightarrow> u32 \<Rightarrow> u32 list \<Rightarrow> u32 \<Rightarrow> bool" where
  "tiled h a [] e \<longleftrightarrow> a = e"
| "tiled h a (b # bs) e \<longleftrightarrow> a = b \<and> guard (h b) = KHEAP_GUARD_VALUE \<and> hsize (h b) \<noteq> 0
     \<and> unat b + 13 + unat (hsize (h b)) < 4294967296 \<and> tiled h (next_block h b) bs e"

lemma tiled_append: "tiled h a (xs @ ys) e \<longleftrightarrow> (\<exists>m. tiled h a xs m \<and> tiled h m ys e)"
  by (induction xs arbitrary: a) auto

lemma tiled_frame:
  "(\<And>b. b \<in> set bs \<Longrightarrow> hsize (k b) = hsize (h b) \<and> guard (k b) = guard (h b)) \<Longrightarrow>
   tiled k a bs e = tiled h a bs e"
  by (induction bs arbitrary: a) (auto simp: next_block_def)

lemma unat_next_block:
  "unat b + 13 + unat (hsize (h b)) < 4294967296 \<Longrightarrow>
   unat (next_block h b) = unat b + 13 + unat (hsize (h b))"
  by (simp add: next_block_def unat_plus_u32)

lemma tiled_bounds:
  "tiled h a bs e \<Longrightarrow> unat a \<le> unat e
     \<and> (\<forall>b \<in> set bs. unat a \<le> unat b \<and> unat b + 13 + unat (hsize (h b)) \<le> unat e)"
proof (induction bs arbitrary: a)
  case (Cons b bs)
  then have "unat (next_block h b) = unat b + 13 + unat (hsize (h b))" by (simp add: unat_next_block)
  moreover have "tiled h (next_block h b) bs e" using Cons.prems by simp
  note Cons.IH [OF this]
  ultimately show ?case using Cons.prems by (auto intro: order_trans)
qed simp

lemma tiled_order:
  "tiled h a bs e \<Longrightarrow> sorted_wrt (\<lambda>x y. unat x + 13 + unat (hsize (h x)) \<le> unat y) bs"
proof (induction bs arbitrary: a)
  case (Cons b bs)
  then have "unat (next_block h b) = unat b + 13 + unat (hsize (h b))" by (simp add: unat_next_block)
  moreover have t: "tiled h (next_block h b) bs e" using Cons.prems by simp
  ultimately show ?case using Cons.IH [OF t] tiled_bounds [OF t] by auto
qed simp

lemma sorted_wrt_pair:
  "sorted_wrt P xs \<Longrightarrow> x \<in> set xs \<Longrightarrow> y \<in> set xs \<Longrightarrow> x \<noteq> y \<Longrightarrow> P x y \<or> P y x"
  by (induction xs) auto

lemma tiled_distinct: "tiled h a bs e \<Longrightarrow> distinct bs"
proof (induction bs arbitrary: a)
  case (Cons b bs)
  then have n: "unat (next_block h b) = unat b + 13 + unat (hsize (h b))" by (simp add: unat_next_block)
  have t: "tiled h (next_block h b) bs e" using Cons.prems by simp
  from tiled_bounds [OF t] n have "b \<notin> set bs" by fastforce
  with Cons.IH [OF t] show ?case by simp
qed simp

text \<open>Cutting one block of the tiling in two.\<close>

lemma tiled_split:
  assumes t: "tiled h a bs e" and x: "x \<in> set bs"
    and gt: "unat (hsize (h x)) > unat sz + 13" and sz: "sz \<noteq> 0"
    and nb: "nb = x + 13 + sz"
    and k: "hsize (k x) = sz" "guard (k x) = guard (h x)" "hsize (k nb) = hsize (h x) - sz - 13"
      "guard (k nb) = KHEAP_GUARD_VALUE"
    and oth: "\<And>p. p \<noteq> x \<Longrightarrow> p \<noteq> nb \<Longrightarrow> hsize (k p) = hsize (h p) \<and> guard (k p) = guard (h p)"
  shows "\<exists>as cs. bs = as @ x # cs \<and> tiled k a (as @ x # nb # cs) e
     \<and> nb \<notin> set bs \<and> unat a \<le> unat nb \<and> unat nb \<le> unat e"
proof -
  obtain as cs where bs: "bs = as @ x # cs" using x by (meson split_list)
  obtain m where m: "tiled h a as m" "tiled h m (x # cs) e" using t unfolding bs tiled_append by blast
  have xb: "m = x" "unat x + 13 + unat (hsize (h x)) < 4294967296" "tiled h (next_block h x) cs e"
    "guard (h x) = KHEAP_GUARD_VALUE" using m(2) by auto
  have un: "unat nb = unat x + 13 + unat sz"
    using xb(2) gt by (simp add: nb unat_plus_u32)
  have us: "unat (hsize (h x) - sz - 13) = unat (hsize (h x)) - unat sz - 13"
  proof -
    have "unat (hsize (h x) - sz) = unat (hsize (h x)) - unat sz"
      by (rule unat_sub) (use gt in \<open>simp add: word_le_nat_alt\<close>)
    moreover have "unat (hsize (h x) - sz - 13) = unat (hsize (h x) - sz) - unat (13 :: u32)"
      by (rule unat_sub) (use gt calculation in \<open>simp add: word_le_nat_alt\<close>)
    ultimately show ?thesis by simp
  qed
  have ord: "\<forall>y \<in> set as. unat y + 13 + unat (hsize (h y)) \<le> unat x"
    "\<forall>y \<in> set cs. unat x + 13 + unat (hsize (h x)) \<le> unat y"
    using tiled_order [OF t] unfolding bs by (auto simp: sorted_wrt_append)
  have sep: "nb \<notin> set as" "nb \<notin> set cs" "x \<notin> set as" "x \<notin> set cs" "nb \<noteq> x"
  proof -
    show "nb \<notin> set as" using ord(1) un by fastforce
    show "nb \<notin> set cs"
    proof
      assume "nb \<in> set cs"
      then have "unat x + 13 + unat (hsize (h x)) \<le> unat nb" using ord(2) by blast
      then show False using un gt by linarith
    qed
    show "x \<notin> set as" "x \<notin> set cs" using ord by fastforce+
    show "nb \<noteq> x" using un by auto
  qed
  have same: "hsize (k b) = hsize (h b) \<and> guard (k b) = guard (h b)" if "b \<in> set as \<union> set cs" for b
    using that sep oth [of b] by blast
  have as: "tiled k a as x" using m(1) xb(1) same by (simp add: tiled_frame [of as k h])
  have cs: "tiled k (next_block h x) cs e" using xb(3) same by (simp add: tiled_frame [of cs k h])
  have nx: "next_block k x = nb" by (simp add: next_block_def k nb)
  have "next_block k nb = next_block h x"
    unfolding next_block_def k(3) by (simp add: nb)
  moreover have "0 < unat (hsize (h x) - sz - 13)" using us gt by linarith
  then have "hsize (h x) - sz - 13 \<noteq> 0" by auto
  moreover have "unat nb + 13 + unat (hsize (h x) - sz - 13) < 4294967296" using us un gt xb(2) by linarith
  ultimately have "tiled k a (as @ x # nb # cs) e"
    using as cs sz k xb un gt unfolding tiled_append by (intro exI [of _ x]) (simp add: nx)
  moreover have "unat a \<le> unat x \<and> unat x + 13 + unat (hsize (h x)) \<le> unat e"
    using tiled_bounds [OF t] x by blast
  ultimately show ?thesis using bs sep un gt by (intro exI [of _ as] exI [of _ cs]) auto
qed


subsection \<open>Heaps and the allocations they hold\<close>

abbreviation POISON :: u32 where "POISON \<equiv> 0xAABBCCDD"

text \<open>An allocated block carries a fixed pattern in its link fields.\<close>

definition mark_used :: "u32 \<Rightarrow> 'a heap_scheme \<Rightarrow> 'a heap_scheme" where
  "mark_used b s = set_prev b POISON (set_next b POISON s)"

definition layout :: "(u32 \<Rightarrow> bool) \<Rightarrow> u32 \<Rightarrow> u32 \<Rightarrow> 'a heap_scheme \<Rightarrow> u32 list \<Rightarrow> u32 list \<Rightarrow> bool" where
  "layout V base brk s bs xs \<longleftrightarrow> tiled (hdrs s) base bs brk \<and> fl_ok V s xs \<and> set xs \<subseteq> set bs
     \<and> (\<forall>p. unat base \<le> unat p \<and> unat p \<le> unat brk \<longrightarrow> V p)
     \<and> (\<forall>b \<in> set bs - set xs. hnext (hdrs s b) = POISON \<and> hprev (hdrs s b) = POISON)"

definition live_map :: "'a heap_scheme \<Rightarrow> u32 list \<Rightarrow> u32 list \<Rightarrow> u32 \<Rightarrow> u32 option" where
  "live_map s bs xs p = (if p - 13 \<in> set bs - set xs then Some (hsize (hdrs s (p - 13))) else None)"

definition heap_rel :: "(u32 \<Rightarrow> bool) \<Rightarrow> u32 \<Rightarrow> u32 \<Rightarrow> 'a heap_scheme \<Rightarrow> (u32 \<rightharpoonup> u32) \<Rightarrow> bool" where
  "heap_rel V base brk s L \<longleftrightarrow> (\<exists>bs xs. layout V base brk s bs xs \<and> L = live_map s bs xs)"

lemma unat_payload:
  assumes "tiled h a bs e" "b \<in> set bs"
  shows "unat (b + 13) = unat b + 13"
proof -
  have "unat b + 13 + unat (hsize (h b)) \<le> unat e" using tiled_bounds [OF assms(1)] assms(2) by blast
  then have "unat b + 13 < 4294967296" using unat_u32_less [of e] by linarith
  then show ?thesis by (simp add: unat_plus_u32)
qed

lemma heap_rel_separate:
  assumes "heap_rel V base brk s L"
  shows "separate L"
proof -
  obtain bs xs where l: "layout V base brk s bs xs" and L: "L = live_map s bs xs"
    using assms by (auto simp: heap_rel_def)
  then have t: "tiled (hdrs s) base bs brk" by (simp add: layout_def)
  show ?thesis unfolding separate_def L
  proof (intro allI impI)
    fix p q m n
    assume p: "live_map s bs xs p = Some m" and q: "live_map s bs xs q = Some n" and "p \<noteq> q"
    then have b: "p - 13 \<in> set bs" "q - 13 \<in> set bs" "p - 13 \<noteq> q - 13"
      and m: "m = hsize (hdrs s (p - 13))" "n = hsize (hdrs s (q - 13))"
      by (auto simp: live_map_def split: if_splits)
    have "unat p = unat (p - 13) + 13" "unat q = unat (q - 13) + 13"
      using unat_payload [OF t b(1)] unat_payload [OF t b(2)] by simp_all
    then show "unat p + unat m \<le> unat q \<or> unat q + unat n \<le> unat p"
      using sorted_wrt_pair [OF tiled_order [OF t] b] unfolding m by linarith
  qed
qed

lemma live_map_insert:
  assumes "set bs' - set xs' = insert x (set bs - set xs)" "x \<notin> set bs - set xs"
    and "\<And>b. b \<in> set bs - set xs \<Longrightarrow> hsize (hdrs s' b) = hsize (hdrs s b)" "hsize (hdrs s' x) = sz"
  shows "live_map s' bs' xs' = (live_map s bs xs)(x + 13 \<mapsto> sz)" "live_map s bs xs (x + 13) = None"
proof -
  show "live_map s bs xs (x + 13) = None" using assms(2) by (simp add: live_map_def)
  have "p - 13 = x \<longleftrightarrow> p = x + 13" for p :: u32 by (simp add: diff_eq_eq)
  then show "live_map s' bs' xs' = (live_map s bs xs)(x + 13 \<mapsto> sz)"
    using assms by (auto simp: live_map_def fun_eq_iff)
qed

lemma mark_used_simps [simp]:
  "hsize (hdrs (mark_used b s) p) = hsize (hdrs s p)"
  "guard (hdrs (mark_used b s) p) = guard (hdrs s p)"
  "heap.more (mark_used b s) = heap.more s" "free_list (mark_used b s) = free_list s"
  by (simp_all add: mark_used_def)

lemma mark_used_links:
  "hdrs (mark_used b s) p = (if p = b then (hdrs s b)\<lparr>hnext := POISON, hprev := POISON\<rparr> else hdrs s p)"
  by (simp add: mark_used_def)

lemma fl_ok_frame:
  "fl_ok V s xs \<Longrightarrow> free_list s' = free_list s \<Longrightarrow>
   (\<And>x. x \<in> set xs \<Longrightarrow> hprev (hdrs s' x) = hprev (hdrs s x) \<and> hnext (hdrs s' x) = hnext (hdrs s x)) \<Longrightarrow>
   fl_ok V s' xs"
  unfolding fl_ok_def by (metis dseg_frame)

lemma fl_ok_distinct: "fl_ok V s xs \<Longrightarrow> distinct xs"
  by (simp add: fl_ok_def sorted_less_distinct)

text \<open>Serving a request from the free list.\<close>

lemma layout_take_exact:
  assumes l: "layout V base brk s bs xs" and x: "x \<in> set xs" and eq: "hsize (hdrs s x) = sz"
  shows "\<exists>s1. take_block V sz x s = Some (x, s1) \<and> heap.more s1 = heap.more s
     \<and> hsize (hdrs s1 x) = sz \<and> guard (hdrs s1 x) = KHEAP_GUARD_VALUE
     \<and> live_map s bs xs (x + 13) = None
     \<and> heap_rel V base brk (mark_used x s1) ((live_map s bs xs)(x + 13 \<mapsto> sz))"
proof -
  have fl: "fl_ok V s xs" and t: "tiled (hdrs s) base bs brk" and sub: "set xs \<subseteq> set bs"
    using l by (auto simp: layout_def)
  obtain s1 where s1: "take_block V sz x s = Some (x, s1)" "fl_ok V s1 (remove1 x xs)"
    "same_blocks (set xs) s s1" using take_block_exact [OF fl x eq] by blast
  note sb = same_blocksD [OF s1(3)]
  let ?m = "mark_used x s1"
  have set: "set (remove1 x xs) = set xs - {x}" using fl_ok_distinct [OF fl] by simp
  have "tiled (hdrs ?m) base bs brk" using t sb by (simp add: tiled_frame [of bs "hdrs ?m" "hdrs s"])
  moreover have "fl_ok V ?m (remove1 x xs)"
    using s1(2) by (rule fl_ok_frame) (auto simp: mark_used_links set)
  moreover have "\<forall>b \<in> set bs - set (remove1 x xs). hnext (hdrs ?m b) = POISON \<and> hprev (hdrs ?m b) = POISON"
    using l sb by (auto simp: layout_def mark_used_links set)
  ultimately have "layout V base brk ?m bs (remove1 x xs)" using l sub by (auto simp: layout_def set)
  moreover have "live_map ?m bs (remove1 x xs) = (live_map s bs xs)(x + 13 \<mapsto> sz)"
    "live_map s bs xs (x + 13) = None"
    using live_map_insert [of bs "remove1 x xs" x bs xs ?m s sz] x sub sb eq by (auto simp: set)
  moreover have "guard (hdrs s1 x) = KHEAP_GUARD_VALUE"
  proof -
    obtain as cs where "bs = as @ x # cs" using x sub by (metis split_list subsetD)
    then show ?thesis using t sb by (auto simp: tiled_append)
  qed
  ultimately show ?thesis using s1(1) sb eq unfolding heap_rel_def by (metis)
qed

lemma layout_take_split:
  assumes l: "layout V base brk s bs xs" and x: "x \<in> set xs" and sz: "sz \<noteq> 0"
    and gt: "unat (hsize (hdrs s x)) > unat sz + 13"
  shows "\<exists>s1. take_block V sz x s = Some (x, s1) \<and> heap.more s1 = heap.more s
     \<and> hsize (hdrs s1 x) = sz \<and> guard (hdrs s1 x) = KHEAP_GUARD_VALUE
     \<and> live_map s bs xs (x + 13) = None
     \<and> heap_rel V base brk (mark_used x s1) ((live_map s bs xs)(x + 13 \<mapsto> sz))"
proof -
  have fl: "fl_ok V s xs" and t: "tiled (hdrs s) base bs brk" and sub: "set xs \<subseteq> set bs"
    using l by (auto simp: layout_def)
  define nb where "nb = x + 13 + sz"
  have u13: "unat (sz + 13) = unat sz + 13" using gt unat_u32_less [of "hsize (hdrs s x)"]
    by (intro trans [OF unat_plus_u32]) (simp_all del: unat_u32_less)
  have gtw: "hsize (hdrs s x) > sz + 13" using gt u13 by (simp add: word_less_nat_alt)
  have ne: "hsize (hdrs s x) \<noteq> sz" using gt by auto
  have xb: "x \<in> set bs" using x sub by blast
  have nbb: "unat nb = unat x + 13 + unat sz"
  proof -
    have "unat x + 13 + unat (hsize (hdrs s x)) \<le> unat brk" using tiled_bounds [OF t] xb by blast
    then have "unat x + 13 + unat sz < 4294967296" using gt unat_u32_less [of brk] by linarith
    then show ?thesis by (simp add: nb_def unat_plus_u32)
  qed
  have bnd: "unat base \<le> unat x" "unat x + 13 + unat (hsize (hdrs s x)) \<le> unat brk"
    using tiled_bounds [OF t] xb by auto
  have Vnb: "V nb"
  proof -
    have "unat base \<le> unat nb" "unat nb \<le> unat brk" using nbb bnd gt by linarith+
    then show ?thesis using l unfolding layout_def by blast
  qed
  have nbs: "nb \<notin> set bs"
  proof
    assume n: "nb \<in> set bs"
    have "x \<noteq> nb" using nbb by auto
    then show False using sorted_wrt_pair [OF tiled_order [OF t] xb n] nbb gt by linarith
  qed
  then have nxs: "nb \<notin> set xs" using sub by blast
  obtain s1 where s1: "take_block V sz x s = Some (x, s1)" "fl_ok V s1 (insort nb (remove1 x xs))"
      "heap.more s1 = heap.more s"
    and hx: "hsize (hdrs s1 x) = sz" "guard (hdrs s1 x) = guard (hdrs s x)"
    and hn: "hsize (hdrs s1 nb) = hsize (hdrs s x) - sz - 13" "guard (hdrs s1 nb) = KHEAP_GUARD_VALUE"
    and oth: "\<And>p. p \<noteq> x \<Longrightarrow> p \<noteq> nb \<Longrightarrow>
        hsize (hdrs s1 p) = hsize (hdrs s p) \<and> guard (hdrs s1 p) = guard (hdrs s p)"
    and frame: "\<And>p. p \<notin> set xs \<Longrightarrow> p \<noteq> nb \<Longrightarrow> hdrs s1 p = hdrs s p"
    using take_block_split [OF fl x sz gtw ne nb_def Vnb nxs] by blast
  let ?m = "mark_used x s1"
  obtain as cs where bs: "bs = as @ x # cs" and t': "tiled (hdrs ?m) base (as @ x # nb # cs) brk"
    using tiled_split [OF t xb gt sz nb_def, of "hdrs ?m"] hx hn oth by auto
  let ?bs = "as @ x # nb # cs" and ?xs = "insort nb (remove1 x xs)"
  have sets: "set ?xs = insert nb (set xs - {x})" "set ?bs = insert nb (set bs)"
    using fl_ok_distinct [OF fl] by (auto simp: set_insort_key bs)
  have "fl_ok V ?m ?xs"
    using s1(2) by (rule fl_ok_frame) (use nbb in \<open>auto simp: mark_used_links sets\<close>)
  moreover have "\<forall>b \<in> set ?bs - set ?xs. hnext (hdrs ?m b) = POISON \<and> hprev (hdrs ?m b) = POISON"
    using l frame unfolding sets by (auto simp: layout_def mark_used_links)
  ultimately have "layout V base brk ?m ?bs ?xs"
    using l t' sub unfolding layout_def sets by blast
  moreover have d: "set ?bs - set ?xs = insert x (set bs - set xs)"
    unfolding sets using xb nbs x by auto
  have "hsize (hdrs ?m b) = hsize (hdrs s b)" if "b \<in> set bs - set xs" for b
    using that oth [of b] x nbs by auto
  note lm = live_map_insert [OF d _ this, of sz]
  have "live_map ?m ?bs ?xs = (live_map s bs xs)(x + 13 \<mapsto> sz)" "live_map s bs xs (x + 13) = None"
    by (rule lm; simp add: x hx)+
  moreover have "guard (hdrs s x) = KHEAP_GUARD_VALUE" using t unfolding bs by (auto simp: tiled_append)
  ultimately show ?thesis using s1 hx unfolding heap_rel_def by metis
qed


text \<open>The two cases together: a request that the free list can serve.\<close>

lemma heap_rel_take:
  assumes h: "heap_rel V base brk s L" and sz: "sz \<noteq> 0" "unat sz + 13 < 4294967296"
  shows "free_block V sz s = Some (0, s)
    \<or> (\<exists>x s1. x \<noteq> 0 \<and> V x \<and> free_block V sz s = Some (x, s1) \<and> heap.more s1 = heap.more s
         \<and> hsize (hdrs s1 x) = sz \<and> guard (hdrs s1 x) = KHEAP_GUARD_VALUE
         \<and> L (x + 13) = None \<and> heap_rel V base brk (mark_used x s1) (L(x + 13 \<mapsto> sz)))"
proof -
  obtain bs xs where l: "layout V base brk s bs xs" and L: "L = live_map s bs xs"
    using h by (auto simp: heap_rel_def)
  have fl: "fl_ok V s xs" using l by (simp add: layout_def)
  have u: "unat (sz + 13) = unat sz + 13" using sz(2) by (simp add: unat_plus_u32)
  show ?thesis
  proof (cases "find (fits sz s) xs")
    case None
    then show ?thesis using free_block_first_fit [OF fl sz(1)] by simp
  next
    case (Some x)
    then have x: "x \<in> set xs" "fits sz s x" by (auto simp: find_Some_iff)
    have V: "V x" "x \<noteq> 0"
      using fl x(1) dseg_valid [of V "hdrs s"] unfolding fl_ok_def by blast+
    have "\<exists>s1. take_block V sz x s = Some (x, s1) \<and> heap.more s1 = heap.more s
       \<and> hsize (hdrs s1 x) = sz \<and> guard (hdrs s1 x) = KHEAP_GUARD_VALUE
       \<and> live_map s bs xs (x + 13) = None
       \<and> heap_rel V base brk (mark_used x s1) ((live_map s bs xs)(x + 13 \<mapsto> sz))"
    proof (cases "hsize (hdrs s x) = sz")
      case True
      then show ?thesis using layout_take_exact [OF l x(1)] by blast
    next
      case False
      then have "unat sz + 13 < unat (hsize (hdrs s x))"
        using x(2) u by (simp add: fits_def word_less_nat_alt)
      then show ?thesis using layout_take_split [OF l x(1) sz(1)] by blast
    qed
    then show ?thesis using free_block_first_fit [OF fl sz(1)] Some V unfolding L by auto
  qed
qed

text \<open>Extending the heap with a new block at its end; the validity check may get wider.\<close>

lemma heap_rel_extend:
  assumes h: "heap_rel V base brk s L" and sz: "sz \<noteq> 0" "unat brk + 13 + unat sz < 4294967296"
    and W: "\<not> W 0" "\<And>p. V p \<Longrightarrow> W p" "\<And>p. unat base \<le> unat p \<Longrightarrow> unat p \<le> unat brk + 13 + unat sz \<Longrightarrow> W p"
    and hd: "hdrs s' = (hdrs s)(brk := \<lparr>guard = KHEAP_GUARD_VALUE, hsize = sz, hprev = POISON, hnext = POISON\<rparr>)"
    and fr: "free_list s' = free_list s"
  shows "L (brk + 13) = None \<and> heap_rel W base (brk + 13 + sz) s' (L(brk + 13 \<mapsto> sz))"
proof -
  obtain bs xs where l: "layout V base brk s bs xs" and L: "L = live_map s bs xs"
    using h by (auto simp: heap_rel_def)
  have fl: "fl_ok V s xs" and t: "tiled (hdrs s) base bs brk" and sub: "set xs \<subseteq> set bs"
    using l by (auto simp: layout_def)
  have "brk \<notin> set bs" using tiled_bounds [OF t] by fastforce
  then have nx: "brk \<notin> set xs" and nb: "brk \<notin> set bs" using sub by auto
  have ub: "unat (brk + 13 + sz) = unat brk + 13 + unat sz" using sz(2) by (simp add: unat_plus_u32)
  have frame: "hdrs s' b = hdrs s b" if "b \<in> set bs" for b using that nb by (auto simp: hd)
  have "tiled (hdrs s') base bs brk" using t frame by (simp add: tiled_frame [of bs "hdrs s'" "hdrs s"])
  then have "tiled (hdrs s') base (bs @ [brk]) (brk + 13 + sz)"
    using sz by (simp add: tiled_append next_block_def hd)
  moreover have "fl_ok W s' xs"
  proof -
    have "dseg W (hdrs s') prv p xs m q" if "dseg V (hdrs s) prv p xs m q" for prv p m q
      using that nx W(2) unfolding hd by (induction xs arbitrary: prv p) auto
    then show ?thesis using fl W(1) fr unfolding fl_ok_def by metis
  qed
  ultimately have "layout W base (brk + 13 + sz) s' (bs @ [brk]) xs"
    using l W(3) sub frame unfolding layout_def ub by (auto simp: hd)
  moreover have d: "set (bs @ [brk]) - set xs = insert brk (set bs - set xs)" using nx by auto
  have "live_map s' (bs @ [brk]) xs = (live_map s bs xs)(brk + 13 \<mapsto> sz)"
    "live_map s bs xs (brk + 13) = None"
    by (rule live_map_insert [OF d]; use nb in \<open>auto simp: hd\<close>)+
  ultimately show ?thesis unfolding L heap_rel_def by metis
qed

text \<open>Releasing an allocation.\<close>

lemma heap_rel_header:
  assumes h: "heap_rel V base brk s L" and p: "L p = Some m"
  shows "guard (hdrs s (p - 13)) = KHEAP_GUARD_VALUE" "hsize (hdrs s (p - 13)) = m"
    "hnext (hdrs s (p - 13)) = POISON" "hprev (hdrs s (p - 13)) = POISON"
    "V (p - 13)" "V p" "p - 13 \<noteq> 0"
    "unat base \<le> unat (p - 13)" "unat p = unat (p - 13) + 13" "unat p + unat m \<le> unat brk"
proof -
  obtain bs xs where l: "layout V base brk s bs xs" and L: "L = live_map s bs xs"
    using h by (auto simp: heap_rel_def)
  then have t: "tiled (hdrs s) base bs brk" and b: "p - 13 \<in> set bs - set xs"
    and m: "hsize (hdrs s (p - 13)) = m" and nz: "\<not> V 0"
    using p by (auto simp: layout_def live_map_def fl_ok_def split: if_splits)
  show "hsize (hdrs s (p - 13)) = m" by (rule m)
  show "hnext (hdrs s (p - 13)) = POISON" "hprev (hdrs s (p - 13)) = POISON"
    using l b unfolding layout_def by blast+
  have "p - 13 \<in> set bs" using b by blast
  then obtain as cs where "bs = as @ (p - 13) # cs" by (meson split_list)
  then show "guard (hdrs s (p - 13)) = KHEAP_GUARD_VALUE" using t by (auto simp: tiled_append)
  have bnd: "unat base \<le> unat (p - 13)" "unat (p - 13) + 13 + unat m \<le> unat brk"
    using tiled_bounds [OF t] b m by auto
  show up: "unat p = unat (p - 13) + 13" using unat_payload [OF t \<open>p - 13 \<in> set bs\<close>] by simp
  show "unat base \<le> unat (p - 13)" "unat p + unat m \<le> unat brk" using bnd up by auto
  have rng: "\<And>q. unat base \<le> unat q \<Longrightarrow> unat q \<le> unat brk \<Longrightarrow> V q" using l unfolding layout_def by blast
  show "V (p - 13)" "V p" by (rule rng; use bnd up in linarith)+
  then show "p - 13 \<noteq> 0" using nz by auto
qed

lemma heap_rel_free:
  assumes h: "heap_rel V base brk s L" and p: "L p = Some m"
  shows "\<exists>s'. free_insert V (p - 13) s = Some s' \<and> heap.more s' = heap.more s
     \<and> heap_rel V base brk s' (L(p := None))"
proof -
  obtain bs xs where l: "layout V base brk s bs xs" and L: "L = live_map s bs xs"
    using h by (auto simp: heap_rel_def)
  have fl: "fl_ok V s xs" and t: "tiled (hdrs s) base bs brk" and sub: "set xs \<subseteq> set bs"
    and b: "p - 13 \<in> set bs" "p - 13 \<notin> set xs"
    using l p by (auto simp: layout_def L live_map_def split: if_splits)
  have "V (p - 13)" using heap_rel_header(5) [OF h p] .
  then obtain s' where s': "free_insert V (p - 13) s = Some s'" "fl_ok V s' (insort (p - 13) xs)"
    "same_blocks (insert (p - 13) (set xs)) s s'" using free_insert_ok [OF fl _ b(2)] by blast
  note sb = same_blocksD [OF s'(3)]
  have "tiled (hdrs s') base bs brk" using t sb by (simp add: tiled_frame [of bs "hdrs s'" "hdrs s"])
  then have "layout V base brk s' bs (insort (p - 13) xs)"
    using l s'(2) sb b sub by (auto simp: layout_def set_insort_key)
  moreover have "live_map s' bs (insort (p - 13) xs) = (live_map s bs xs)(p := None)"
    using sb by (auto simp: live_map_def fun_eq_iff set_insort_key)
  ultimately show ?thesis using s'(1) sb unfolding L heap_rel_def by metis
qed


text \<open>The relation only looks at the list head and the headers, and survives a wider check.\<close>

lemma heap_rel_cong:
  fixes s :: "'a heap_scheme" and s' :: "'b heap_scheme"
  assumes "hdrs s' = hdrs s" "free_list s' = free_list s"
  shows "heap_rel V base brk s' L = heap_rel V base brk s L"
proof -
  have "live_map s' = live_map s" using assms by (simp add: live_map_def fun_eq_iff)
  then show ?thesis unfolding heap_rel_def layout_def fl_ok_def assms by simp
qed

lemma heap_rel_mark_cong:
  fixes s :: "'a heap_scheme" and s' :: "'b heap_scheme"
  assumes "hdrs s' = hdrs s" "free_list s' = free_list s"
  shows "heap_rel V base brk (mark_used b s') L = heap_rel V base brk (mark_used b s) L"
  using assms by (intro heap_rel_cong) (simp_all add: mark_used_def)

lemma dseg_widen: "dseg V h prv p xs l q \<Longrightarrow> (\<And>x. V x \<Longrightarrow> W x) \<Longrightarrow> dseg W h prv p xs l q"
  by (induction xs arbitrary: prv p) auto

lemma heap_rel_widen:
  assumes h: "heap_rel V base brk s L" and w: "\<And>x. V x \<Longrightarrow> W x" "\<not> W 0"
  shows "heap_rel W base brk s L"
proof -
  have "fl_ok W s xs" if "fl_ok V s xs" for xs
    using that dseg_widen [of V "hdrs s" _ _ xs] w unfolding fl_ok_def by metis
  then show ?thesis using h w(1) unfolding heap_rel_def layout_def by blast
qed

lemma heap_rel_base: "heap_rel V base brk s L \<Longrightarrow> unat base \<le> unat brk"
  by (auto simp: heap_rel_def layout_def dest: tiled_bounds)

lemma heap_rel_brk: "heap_rel V base brk s L \<Longrightarrow> V brk"
  by (frule heap_rel_base) (auto simp: heap_rel_def layout_def)

end
