(* ===== verification/Kstat.thy ===== *)
theory Kstat
  imports Smpl_Prelude
begin

text \<open>
  The kernel's statistics counters, \<open>os/kernel/misc/stat.c\<close>: a table of 128 pointers to
  named counters and the number of slots in use. A counter is found by its name or by its
  slot. Names are the bytes of the C string without the terminator. The scans go through
  all 128 slots whatever \<open>last_stat\<close> is, so they read, and \<open>reset_stat\<close>/\<open>update_stat\<close>
  may write, through the null pointers of the unused slots; \<open>null_stat\<close> is the object a
  null pointer shows (low memory is mapped in this kernel). \<open>create_stat\<close> allocates and is
  in theory Kheap.
\<close>

record kstat =
  st_name :: "u8 list"
  st_value :: u32

record kstats =
  slots :: "kstat option list"
  last_stat :: u32
  null_stat :: kstat

definition slot_stat :: "kstats \<Rightarrow> nat \<Rightarrow> kstat" where
  "slot_stat s i = (case slots s ! i of None \<Rightarrow> null_stat s | Some k \<Rightarrow> k)"

definition slot_update :: "nat \<Rightarrow> (u32 \<Rightarrow> u32) \<Rightarrow> kstats \<Rightarrow> kstats" where
  "slot_update i f s =
     (case slots s ! i of
        None \<Rightarrow> s\<lparr>null_stat := (null_stat s)\<lparr>st_value := f (st_value (null_stat s))\<rparr>\<rparr>
      | Some k \<Rightarrow> s\<lparr>slots := (slots s)[i := Some (k\<lparr>st_value := f (st_value k)\<rparr>)]\<rparr>)"

definition i_reset_stat :: "u32 \<Rightarrow> u32 \<Rightarrow> kstats \<Rightarrow> kstats" where
  "i_reset_stat idx val s = (if idx < last_stat s then slot_update (unat idx) (\<lambda>_. val) s else s)"

definition reset_stat :: "u8 list \<Rightarrow> u32 \<Rightarrow> kstats \<Rightarrow> kstats" where
  "reset_stat name val s =
     fold (\<lambda>i s. if name = st_name (slot_stat s i) then slot_update i (\<lambda>_. val) s else s) [0..<128] s"

text \<open>The common scan of \<open>get_stat\<close>, \<open>update_stat\<close> and \<open>has_stat\<close>: the first slot that shows the name.\<close>

definition stat_find :: "u8 list \<Rightarrow> kstats \<Rightarrow> nat option" where
  "stat_find name s = find (\<lambda>i. name = st_name (slot_stat s i)) [0..<128]"

definition get_stat :: "u8 list \<Rightarrow> kstats \<Rightarrow> u32" where
  "get_stat name s = (case stat_find name s of Some i \<Rightarrow> st_value (slot_stat s i) | None \<Rightarrow> 0)"

definition i_get_stat :: "u32 \<Rightarrow> kstats \<Rightarrow> u32" where
  "i_get_stat idx s = (if idx < last_stat s then st_value (slot_stat s (unat idx)) else 0)"

definition update_stat :: "u8 list \<Rightarrow> u32 \<Rightarrow> kstats \<Rightarrow> kstats" where
  "update_stat name upd s =
     (case stat_find name s of Some i \<Rightarrow> slot_update i (\<lambda>v. v + upd) s | None \<Rightarrow> s)"

definition i_update_stat :: "u32 \<Rightarrow> u32 \<Rightarrow> kstats \<Rightarrow> kstats" where
  "i_update_stat idx upd s = (if idx < last_stat s then slot_update (unat idx) (\<lambda>v. v + upd) s else s)"

definition has_stat :: "u8 list \<Rightarrow> kstats \<Rightarrow> bool" where
  "has_stat name s = (stat_find name s \<noteq> None)"

subsection \<open>Invariant\<close>

text \<open>128 slots, those below \<open>last_stat\<close> set with pairwise different names, the others null.\<close>

definition stats_inv :: "kstats \<Rightarrow> bool" where
  "stats_inv s \<longleftrightarrow> length (slots s) = 128 \<and> unat (last_stat s) \<le> 128
     \<and> (\<forall>i < 128. slots s ! i \<noteq> None \<longleftrightarrow> i < unat (last_stat s))
     \<and> (\<forall>i < unat (last_stat s). \<forall>j < i. st_name (slot_stat s j) \<noteq> st_name (slot_stat s i))
     \<and> (\<forall>i < unat (last_stat s). st_name (slot_stat s i) \<noteq> st_name (null_stat s))"

lemma slot_update_frame [simp]:
  "last_stat (slot_update i f s) = last_stat s"
  "length (slots (slot_update i f s)) = length (slots s)"
  "st_name (null_stat (slot_update i f s)) = st_name (null_stat s)"
  by (simp_all add: slot_update_def split: option.split)

lemma slot_update_none_iff [simp]: "slots (slot_update i f s) ! j = None \<longleftrightarrow> slots s ! j = None"
  by (cases "i < length (slots s)")
    (auto simp: slot_update_def nth_list_update list_update_beyond split: option.splits)

lemma slot_update_name [simp]: "st_name (slot_stat (slot_update i f s) j) = st_name (slot_stat s j)"
  by (cases "i < length (slots s)")
    (auto simp: slot_update_def slot_stat_def nth_list_update list_update_beyond split: option.split)

lemma slot_update_value:
  "slots s ! i \<noteq> None \<Longrightarrow> slots s ! j \<noteq> None \<Longrightarrow> i < length (slots s) \<Longrightarrow>
   st_value (slot_stat (slot_update i f s) j) =
     (if i = j then f (st_value (slot_stat s i)) else st_value (slot_stat s j))"
  by (auto simp: slot_update_def slot_stat_def nth_list_update split: option.splits)

lemma slot_update_inv [kinvs]: "stats_inv s \<Longrightarrow> stats_inv (slot_update i f s)"
  by (simp add: stats_inv_def)

lemma i_update_stat_inv [kinvs]: "stats_inv s \<Longrightarrow> stats_inv (i_update_stat idx u s)"
  by (simp add: i_update_stat_def kinvs)

lemma i_update_stat_last [simp]: "last_stat (i_update_stat idx u s) = last_stat s"
  by (simp add: i_update_stat_def)

lemma i_update_stat_find [simp]: "stat_find name (i_update_stat idx u s) = stat_find name s"
  by (simp add: i_update_stat_def stat_find_def)

lemma i_update_stat_null [simp]: "st_name (null_stat (i_update_stat idx u s)) = st_name (null_stat s)"
  by (simp add: i_update_stat_def)

lemma find_upt_unique:
  "i < n \<Longrightarrow> P i \<Longrightarrow> (\<And>j. j < i \<Longrightarrow> \<not> P j) \<Longrightarrow> find P [0..<n] = Some i"
  by (auto simp: find_Some_iff intro!: exI [of _ i])

text \<open>The scan by name finds exactly the slot that was given the name.\<close>

lemma stat_find_slot:
  assumes "stats_inv s" "i < unat (last_stat s)" "st_name (slot_stat s i) = name"
  shows "stat_find name s = Some i"
proof -
  have "i < 128" "\<And>j. j < i \<Longrightarrow> name \<noteq> st_name (slot_stat s j)"
    using assms by (simp add: stats_inv_def) (metis assms stats_inv_def)
  then show ?thesis unfolding stat_find_def using assms(3) by (intro find_upt_unique) auto
qed

text \<open>Filling the first free slot under a new name.\<close>

lemma stats_add:
  fixes init :: u32
  assumes inv: "stats_inv k" and l: "unat (last_stat k) < 128" and new: "stat_find name k = None"
    and name: "name \<noteq> st_name (null_stat k)"
  defines "k' \<equiv> k\<lparr>slots := (slots k)[unat (last_stat k) := Some \<lparr>st_name = name, st_value = init\<rparr>],
      last_stat := last_stat k + 1\<rparr>"
  shows "stats_inv k' \<and> get_stat name k' = init \<and> i_get_stat (last_stat k) k' = init"
proof -
  let ?l = "unat (last_stat k)"
  have l1: "unat (last_stat k + 1) = ?l + 1" using l by (simp add: unat_plus1_u32)
  have at: "slot_stat k' i = (if i = ?l then \<lparr>st_name = name, st_value = init\<rparr> else slot_stat k i)"
    if "i < 128" for i
    using that inv l by (auto simp: k'_def slot_stat_def stats_inv_def nth_list_update)
  have fresh: "st_name (slot_stat k i) \<noteq> name" if "i < 128" for i
    using new that by (auto simp: stat_find_def find_None_iff)
  have null: "st_name (null_stat k') = st_name (null_stat k)" by (simp add: k'_def)
  have old: "\<And>i j. i < ?l \<Longrightarrow> j < i \<Longrightarrow> st_name (slot_stat k j) \<noteq> st_name (slot_stat k i)"
    "\<And>i. i < ?l \<Longrightarrow> st_name (slot_stat k i) \<noteq> st_name (null_stat k)"
    using inv unfolding stats_inv_def by blast+
  have "stats_inv k'"
    unfolding stats_inv_def
  proof (intro conjI allI impI)
    show "length (slots k') = 128" "unat (last_stat k') \<le> 128"
      using inv l l1 by (simp_all add: k'_def stats_inv_def)
    fix i :: nat
    show "slots k' ! i \<noteq> None \<longleftrightarrow> i < unat (last_stat k')" if "i < 128"
      using inv l l1 that by (auto simp: k'_def stats_inv_def nth_list_update)
    assume i: "i < unat (last_stat k')"
    then have i': "i = ?l \<or> i < ?l" "i < 128" using l l1 by (auto simp: k'_def)
    then show "st_name (slot_stat k' i) \<noteq> st_name (null_stat k')"
      using name at [of i] old(2) [of i] by (simp add: null split: if_splits)
    fix j assume j: "j < i"
    then show "st_name (slot_stat k' j) \<noteq> st_name (slot_stat k' i)"
      using i' at [of i] at [of j] fresh [of j] old(1) [of i j] by (simp split: if_splits)
  qed
  moreover have "st_name (slot_stat k' ?l) = name" "st_value (slot_stat k' ?l) = init"
    using at [of ?l] l by simp_all
  moreover have less: "?l < unat (last_stat k')" using l1 by (simp add: k'_def)
  ultimately have "stat_find name k' = Some ?l" using stat_find_slot by blast
  moreover have "last_stat k < last_stat k'" using less by (simp add: word_less_nat_alt)
  ultimately show ?thesis
    using \<open>stats_inv k'\<close> \<open>st_value (slot_stat k' ?l) = init\<close> by (simp add: get_stat_def i_get_stat_def)
qed

subsection \<open>Properties\<close>

text \<open>A counter's name and its slot number reach the same counter: in a table whose
  counters have different names, updating through either gives the same table, adds the
  amount (modulo 2 to the 32), is seen by both ways of reading, and leaves every other
  counter as it was.\<close>

theorem update_stat_by_name_or_slot:
  assumes "stats_inv s" "unat idx < unat (last_stat s)" "st_name (slot_stat s (unat idx)) = name"
  shows "update_stat name u s = i_update_stat idx u s
     \<and> stats_inv (i_update_stat idx u s)
     \<and> get_stat name (i_update_stat idx u s) = get_stat name s + u
     \<and> i_get_stat idx (i_update_stat idx u s) = get_stat name s + u
     \<and> (\<forall>j < unat (last_stat s). j \<noteq> unat idx \<longrightarrow>
          slot_stat (i_update_stat idx u s) j = slot_stat s j)"
proof -
  have less: "idx < last_stat s" using assms(2) by (simp add: word_less_nat_alt)
  have len: "unat idx < length (slots s)" "slots s ! unat idx \<noteq> None"
    using assms(1,2) by (auto simp: stats_inv_def)
  let ?s = "i_update_stat idx u s"
  have s': "?s = slot_update (unat idx) (\<lambda>v. v + u) s" by (simp add: i_update_stat_def less)
  note inv = i_update_stat_inv [OF assms(1), of idx u]
  have "stat_find name ?s = Some (unat idx)"
    using stat_find_slot [OF inv, of "unat idx" name] assms(2,3) by (simp add: s')
  moreover have "stat_find name s = Some (unat idx)" using stat_find_slot assms by blast
  moreover have "slot_stat ?s j = slot_stat s j" if "j \<noteq> unat idx" "j < unat (last_stat s)" for j
    using that len assms(1) by (auto simp: s' slot_update_def slot_stat_def stats_inv_def split: option.split)
  ultimately show ?thesis using inv len less
    by (simp add: update_stat_def get_stat_def i_get_stat_def s' slot_update_value)
qed

theorem update_stat_by_name_or_slot_witness:
  "let s = \<lparr>slots = Some \<lparr>st_name = [97], st_value = 5\<rparr> # Some \<lparr>st_name = [98], st_value = 7\<rparr>
              # replicate 126 None, last_stat = 2, null_stat = \<lparr>st_name = [], st_value = 0\<rparr>\<rparr> in
   update_stat [98] 3 s = i_update_stat 1 3 s
     \<and> stats_inv (i_update_stat 1 3 s)
     \<and> get_stat [98] (i_update_stat 1 3 s) = get_stat [98] s + 3
     \<and> i_get_stat 1 (i_update_stat 1 3 s) = get_stat [98] s + 3
     \<and> (\<forall>j < unat (last_stat s). j \<noteq> unat (1 :: u32) \<longrightarrow>
          slot_stat (i_update_stat 1 3 s) j = slot_stat s j)"
proof -
  have "i < 2 \<longleftrightarrow> i = 0 \<or> i = 1" for i :: nat by auto
  then show ?thesis unfolding Let_def
    by (intro update_stat_by_name_or_slot)
      (auto simp: stats_inv_def slot_stat_def nth_Cons' )
qed

end
