(* ===== verification/Kheap.thy ===== *)
theory Kheap
  imports Allocator Kstat
begin

text \<open>
  The kernel heap, \<open>os/kernel/arch/i386/mem/kheap.c\<close>: \<open>kmalloc\<close> takes a block from the
  free list or extends the used part of the heap region; \<open>kvalloc\<close> over-allocates to align;
  \<open>krealloc\<close> copies into a new block; \<open>kfree\<close> returns at once (its body is dead code after
  an unconditional \<open>return\<close>). \<open>create_stat\<close> of \<open>os/kernel/misc/stat.c\<close> is here because it
  allocates while \<open>kmalloc\<close> counts.

  The parameter \<open>v\<close> is \<open>validate\<close> of theory Paging: is the address mapped. \<open>payload\<close> holds
  the bytes the clients own. Console output is left out; \<open>mem_check\<close> is in theory Memcheck.
\<close>

record kheap = heap +
  heap_start :: u32
  heap_start_static :: u32
  max_allocation :: u32
  kst :: kstats
  stat_alloc :: u32
  stat_free :: u32
  stat_merges :: u32
  stat_alloc_total :: u32
  stat_freed_total :: u32
  stat_max_load :: u32
  payload :: "u32 \<Rightarrow> u8"

abbreviation KHEAP_START :: u32 where "KHEAP_START \<equiv> 0x02000000"
abbreviation KHEAP_END :: u32 where "KHEAP_END \<equiv> 0x20000000"
abbreviation KHEAP_SIZE :: u32 where "KHEAP_SIZE \<equiv> 0x1E000000"

definition VALIDATE :: "(u32 \<Rightarrow> bool) \<Rightarrow> u32 \<Rightarrow> bool" where
  "VALIDATE v x \<longleftrightarrow> v x \<and> x \<le> KHEAP_END \<and> x \<ge> KHEAP_START"

definition count_stat :: "u32 \<Rightarrow> u32 \<Rightarrow> kheap \<Rightarrow> kheap" where
  "count_stat idx n s = s\<lparr>kst := i_update_stat idx n (kst s)\<rparr>"

text \<open>The three bookkeeping steps of \<open>kmalloc\<close>: noting the request, counting what is served, and
  placing a block at the end of the used region.\<close>

definition kmalloc_note :: "u32 \<Rightarrow> kheap \<Rightarrow> kheap" where
  "kmalloc_note sz s =
     (let s = (if sz > max_allocation s then s\<lparr>max_allocation := sz\<rparr> else s)
      in count_stat (stat_alloc s) 1 s)"

definition kmalloc_count :: "u32 \<Rightarrow> kheap \<Rightarrow> kheap" where
  "kmalloc_count sz s = (let s = count_stat (stat_alloc_total s) sz s in count_stat (stat_max_load s) sz s)"

definition kmalloc_extend :: "u32 \<Rightarrow> kheap \<Rightarrow> u32 \<times> kheap" where
  "kmalloc_extend sz s =
     (let nblock = heap_start s;
          s = upd_hdr nblock (\<lambda>h. h\<lparr>guard := KHEAP_GUARD_VALUE\<rparr>) s;
          s = s\<lparr>heap_start := heap_start s + sizeof_mem_t + sz\<rparr>;
          s = upd_hdr nblock (\<lambda>h. h\<lparr>hsize := sz, hprev := POISON, hnext := POISON\<rparr>) s
      in (nblock + sizeof_mem_t, s))"

definition kmalloc :: "(u32 \<Rightarrow> bool) \<Rightarrow> u32 \<Rightarrow> kheap \<Rightarrow> (u32 \<times> kheap) res option" where
  "kmalloc v sz s =
     (if sz = 0 \<or> sz \<ge> KHEAP_SIZE then Some (Inl (Panic ''KHEAP: Invalid allocation''))
      else case free_block (VALIDATE v) sz (kmalloc_note sz s) of
             None \<Rightarrow> None
           | Some (block, s) \<Rightarrow>
               if VALIDATE v block then
                 Some (Inr (block + sizeof_mem_t, mark_used block (kmalloc_count sz s)))
               else if heap_start s + sizeof_mem_t + sz \<ge> heap_start_static s + KHEAP_SIZE
               then Some (Inl (Panic ''KHEAP: Out of memory''))
               else Some (Inr (kmalloc_extend sz (kmalloc_count sz s))))"

definition kfree :: "u32 \<Rightarrow> kheap \<Rightarrow> kheap" where
  "kfree addr s = s"

text \<open>Little-endian words in the clients' bytes.\<close>

definition put32 :: "u32 \<Rightarrow> u32 \<Rightarrow> (u32 \<Rightarrow> u8) \<Rightarrow> u32 \<Rightarrow> u8" where
  "put32 a w m = m(a := ucast w, a + 1 := ucast (drop_bit 8 w),
     a + 2 := ucast (drop_bit 16 w), a + 3 := ucast (drop_bit 24 w))"

definition kvalloc :: "(u32 \<Rightarrow> bool) \<Rightarrow> u32 \<Rightarrow> u32 \<Rightarrow> kheap \<Rightarrow> (u32 \<times> kheap) res option" where
  "kvalloc v sz alignment s =
     (let offset = alignment - 1 + 4 in
      case kmalloc v (sz + offset) s of
        None \<Rightarrow> None
      | Some (Inl e) \<Rightarrow> Some (Inl e)
      | Some (Inr (p1, s)) \<Rightarrow>
          if p1 = 0 then Some (Inr (0, s))
          else let p2 = (p1 + offset) AND NOT (alignment - 1)
               in Some (Inr (p2, s\<lparr>payload := put32 (p2 - 4) p1 (payload s)\<rparr>)))"

text \<open>\<open>kvfree\<close> reads one signed byte below the pointer as the distance to the allocation.\<close>

definition kvfree :: "u32 \<Rightarrow> kheap \<Rightarrow> kheap" where
  "kvfree aligned_ptr s =
     (let offset = scast (payload s (aligned_ptr - 1)) in kfree (aligned_ptr - offset) s)"

definition move_bytes :: "u32 \<Rightarrow> u32 \<Rightarrow> u32 \<Rightarrow> (u32 \<Rightarrow> u8) \<Rightarrow> u32 \<Rightarrow> u8" where
  "move_bytes dest src n m = (\<lambda>a. if a - dest < n then m (src + (a - dest)) else m a)"

definition krealloc :: "(u32 \<Rightarrow> bool) \<Rightarrow> u32 \<Rightarrow> u32 \<Rightarrow> kheap \<Rightarrow> (u32 \<times> kheap) res option" where
  "krealloc v ptr newsize s =
     (if \<not> VALIDATE v ptr then kmalloc v newsize s
      else case kmalloc v newsize s of
        None \<Rightarrow> None
      | Some (Inl e) \<Rightarrow> Some (Inl e)
      | Some (Inr (new_alloc, s)) \<Rightarrow>
          let osize = hsize (hdrs s (ptr - sizeof_mem_t));
              s = s\<lparr>payload := move_bytes new_alloc ptr (if osize \<ge> newsize then newsize else osize) (payload s)\<rparr>
          in Some (Inr (new_alloc, kfree ptr s)))"

text \<open>A new counter is an object of 36 bytes; a name of 32 bytes or more runs over its field.\<close>

definition create_stat :: "(u32 \<Rightarrow> bool) \<Rightarrow> u8 list \<Rightarrow> u32 \<Rightarrow> kheap \<Rightarrow> (u32 \<times> kheap) res option" where
  "create_stat v name init s =
     (if \<not> has_stat name (kst s) \<and> last_stat (kst s) < 128 then
        (case kmalloc v 36 s of
           None \<Rightarrow> None
         | Some (Inl e) \<Rightarrow> Some (Inl e)
         | Some (Inr (p, s)) \<Rightarrow>
             if length name \<ge> 32 then Some (Inl Wild)
             else let k = kst s; i = last_stat k
                  in Some (Inr (i, s\<lparr>kst := k\<lparr>slots := (slots k)[unat i :=
                       Some \<lparr>st_name = name, st_value = init\<rparr>], last_stat := i + 1\<rparr>\<rparr>)))
      else Some (Inr (0, s)))"

subsection \<open>The heap as an allocator\<close>

definition kheap_rel :: "(u32 \<Rightarrow> bool) \<Rightarrow> kheap \<Rightarrow> (u32 \<rightharpoonup> u32) \<Rightarrow> bool" where
  "kheap_rel v s L \<longleftrightarrow> heap_rel (VALIDATE v) KHEAP_START (heap_start s) s L
     \<and> heap_start_static s = KHEAP_START \<and> unat (heap_start s) < unat KHEAP_END
     \<and> (\<forall>p. KHEAP_START \<le> p \<and> p < KHEAP_END \<longrightarrow> v p)"

definition kheap_room :: "u32 \<Rightarrow> kheap \<Rightarrow> bool" where
  "kheap_room sz s \<longleftrightarrow> sz \<noteq> 0 \<and> unat (heap_start s) + 13 + unat sz < unat KHEAP_END"


lemma kheap_more_eq:
  "heap.more s1 = heap.more (s :: kheap) \<Longrightarrow> heap_start s1 = heap_start s
     \<and> heap_start_static s1 = heap_start_static s \<and> max_allocation s1 = max_allocation s
     \<and> kst s1 = kst s \<and> stat_alloc_total s1 = stat_alloc_total s \<and> stat_max_load s1 = stat_max_load s
     \<and> payload s1 = payload s"
  by (cases s, cases s1) simp

lemma count_stat_simps [simp]:
  "hdrs (count_stat i n s) = hdrs s" "free_list (count_stat i n s) = free_list s"
  "heap_start (count_stat i n s) = heap_start s" "heap_start_static (count_stat i n s) = heap_start_static s"
  "payload (count_stat i n s) = payload s" "max_allocation (count_stat i n s) = max_allocation s"
  "kst (count_stat i n s) = i_update_stat i n (kst s)"
  by (simp_all add: count_stat_def)

lemma kmalloc_note_simps [simp]:
  "hdrs (kmalloc_note n s) = hdrs s" "free_list (kmalloc_note n s) = free_list s"
  "heap_start (kmalloc_note n s) = heap_start s" "heap_start_static (kmalloc_note n s) = heap_start_static s"
  "payload (kmalloc_note n s) = payload s" "last_stat (kst (kmalloc_note n s)) = last_stat (kst s)"
  "stats_inv (kst s) \<Longrightarrow> stats_inv (kst (kmalloc_note n s))"
  "st_name (null_stat (kst (kmalloc_note n s))) = st_name (null_stat (kst s))"
  "stat_find name (kst (kmalloc_note n s)) = stat_find name (kst s)"
  by (simp_all add: kmalloc_note_def Let_def i_update_stat_inv)

lemma kmalloc_count_simps [simp]:
  "hdrs (kmalloc_count n s) = hdrs s" "free_list (kmalloc_count n s) = free_list s"
  "heap_start (kmalloc_count n s) = heap_start s" "heap_start_static (kmalloc_count n s) = heap_start_static s"
  "payload (kmalloc_count n s) = payload s" "last_stat (kst (kmalloc_count n s)) = last_stat (kst s)"
  "stats_inv (kst s) \<Longrightarrow> stats_inv (kst (kmalloc_count n s))"
  "st_name (null_stat (kst (kmalloc_count n s))) = st_name (null_stat (kst s))"
  "stat_find name (kst (kmalloc_count n s)) = stat_find name (kst s)"
  by (simp_all add: kmalloc_count_def Let_def i_update_stat_inv)

lemma mark_used_kheap [simp]:
  "heap_start (mark_used b s) = heap_start s" "heap_start_static (mark_used b s) = heap_start_static s"
  "payload (mark_used b s) = payload s" "max_allocation (mark_used b s) = max_allocation s"
  "kst (mark_used b s) = kst s"
  by (simp_all add: mark_used_def set_prev_def set_next_def upd_hdr_def)

text \<open>The two ways in which \<open>kmalloc\<close> serves a request.\<close>

lemma kmalloc_serves:
  assumes r: "kheap_rel v s L" and m: "kheap_room sz s"
  shows "\<exists>p s'. kmalloc v sz s = Some (Inr (p, s')) \<and> L p = None \<and> kheap_rel v s' (L(p \<mapsto> sz))
     \<and> payload s' = payload s \<and> p \<noteq> 0 \<and> heap_start_static s' = heap_start_static s
     \<and> last_stat (kst s') = last_stat (kst s) \<and> (stats_inv (kst s) \<longrightarrow> stats_inv (kst s'))"
proof -
  have sz: "sz \<noteq> 0" "unat (heap_start s) + 13 + unat sz < 0x20000000" using m by (auto simp: kheap_room_def)
  have hr: "heap_rel (VALIDATE v) KHEAP_START (heap_start s) s L" and st: "heap_start_static s = KHEAP_START"
    and mapped: "\<And>p. KHEAP_START \<le> p \<Longrightarrow> p < KHEAP_END \<Longrightarrow> v p" using r by (auto simp: kheap_rel_def)
  have base: "0x2000000 \<le> unat (heap_start s)" using heap_rel_base [OF hr] by simp
  then have valid: "\<not> (sz = 0 \<or> sz \<ge> KHEAP_SIZE)" using sz by (simp add: word_le_nat_alt)
  let ?s0 = "kmalloc_note sz s"
  have hr0: "heap_rel (VALIDATE v) KHEAP_START (heap_start s) ?s0 L"
    using hr by (simp add: heap_rel_cong [of ?s0 s])
  have nz: "\<not> VALIDATE v 0" by (simp add: VALIDATE_def)
  have szl: "unat sz + 13 < 4294967296" using sz by linarith
  show ?thesis
    using heap_rel_take [OF hr0 sz(1) szl]
  proof (elim disjE exE conjE)
    fix x s1
    assume x: "x \<noteq> 0" "VALIDATE v x" "free_block (VALIDATE v) sz ?s0 = Some (x, s1)"
      and more: "heap.more s1 = heap.more ?s0" and L: "L (x + 13) = None"
      and hr1: "heap_rel (VALIDATE v) KHEAP_START (heap_start s) (mark_used x s1) (L(x + 13 \<mapsto> sz))"
    let ?s' = "mark_used x (kmalloc_count sz s1)"
    have "kmalloc v sz s = Some (Inr (x + 13, ?s'))" using x valid by (simp add: kmalloc_def)
    moreover have "heap_rel (VALIDATE v) KHEAP_START (heap_start s) ?s' (L(x + 13 \<mapsto> sz))"
      using hr1 by (simp add: heap_rel_mark_cong [of "kmalloc_count sz s1" s1])
    moreover have "x + 13 \<noteq> 0"
    proof -
      have "unat x \<le> 0x20000000" using x(2) by (simp add: VALIDATE_def word_le_nat_alt)
      then have "unat (x + 13) = unat x + 13" by (simp add: unat_plus_u32)
      then show ?thesis by auto
    qed
    ultimately show ?thesis using L r kheap_more_eq [OF more]
      by (intro exI [of _ "x + 13"] exI [of _ ?s']) (auto simp: kheap_rel_def)
  next
    assume fb: "free_block (VALIDATE v) sz ?s0 = Some (0, ?s0)"
    let ?t = "heap_start s"
    have ub: "unat (?t + 13 + sz) = unat ?t + 13 + unat sz" using sz by (simp add: unat_plus_u32)
    have fits: "\<not> ?t + 13 + sz \<ge> KHEAP_START + KHEAP_SIZE" using sz ub by (simp add: word_le_nat_alt)
    define s' where "s' = snd (kmalloc_extend sz (kmalloc_count sz ?s0))"
    have k: "kmalloc v sz s = Some (Inr (?t + 13, s'))"
      using fits nz st valid by (simp add: kmalloc_def fb s'_def kmalloc_extend_def Let_def)
    have s': "payload s' = payload s" "heap_start s' = ?t + 13 + sz" "kst s' = kst (kmalloc_count sz ?s0)"
      "heap_start_static s' = heap_start_static s"
      by (simp_all add: s'_def kmalloc_extend_def Let_def upd_hdr_def)
    have hd: "hdrs s' = (hdrs ?s0)(?t := \<lparr>guard = KHEAP_GUARD_VALUE, hsize = sz, hprev = POISON, hnext = POISON\<rparr>)"
      and fr: "free_list s' = free_list ?s0"
      by (cases "hdrs s ?t"; simp add: s'_def kmalloc_extend_def Let_def upd_hdr_def)+
    have W: "VALIDATE v p" if "unat KHEAP_START \<le> unat p" "unat p \<le> unat ?t + 13 + unat sz" for p
      using that sz mapped [of p] by (simp add: VALIDATE_def word_le_nat_alt word_less_nat_alt)
    have "L (?t + 13) = None \<and> heap_rel (VALIDATE v) KHEAP_START (?t + 13 + sz) s' (L(?t + 13 \<mapsto> sz))"
      by (rule heap_rel_extend [OF hr0 sz(1), where W = "VALIDATE v"]) (use sz nz W hd fr in auto)
    moreover have "unat (?t + 13) = unat ?t + 13" using sz by (simp add: unat_plus_u32)
    then have "?t + 13 \<noteq> 0" by auto
    ultimately show ?thesis using k r s' sz ub
      by (intro exI [of _ "?t + 13"] exI [of _ s']) (auto simp: kheap_rel_def)
  qed
qed

text \<open>\<open>kmalloc\<close> touches the counters only by adding to them.\<close>

lemma kmalloc_stats:
  assumes "kmalloc v sz s = Some (Inr (p, s'))" "kheap_rel v s L"
  shows "stat_find name (kst s') = stat_find name (kst s)"
    "st_name (null_stat (kst s')) = st_name (null_stat (kst s))"
proof -
  have hr: "heap_rel (VALIDATE v) KHEAP_START (heap_start s) (kmalloc_note sz s) L"
    using assms(2) heap_rel_cong [of "kmalloc_note sz s" s] by (simp add: kheap_rel_def)
  have sz: "sz \<noteq> 0" "unat sz + 13 < 4294967296"
    using assms(1) by (auto simp: kmalloc_def word_le_nat_alt split: if_splits)
  obtain x s1 where fb: "free_block (VALIDATE v) sz (kmalloc_note sz s) = Some (x, s1)"
    and "heap.more s1 = heap.more (kmalloc_note sz s)"
    using heap_rel_take [OF hr sz] by auto
  then have k: "kst s1 = kst (kmalloc_note sz s)" using kheap_more_eq by blast
  have "kst s' = kst (kmalloc_count sz s1)"
    using assms(1) fb sz by (auto simp: kmalloc_def kmalloc_extend_def Let_def upd_hdr_def split: if_splits)
  then show "stat_find name (kst s') = stat_find name (kst s)"
    "st_name (null_stat (kst s')) = st_name (null_stat (kst s))" by (simp_all add: k)
qed

interpretation kh: allocator "kheap_rel v" kheap_room "kmalloc v" for v
proof
  show "separate L" if "kheap_rel v s L" for s L
    using that heap_rel_separate by (auto simp: kheap_rel_def)
  show "\<exists>p s'. kmalloc v sz s = Some (Inr (p, s')) \<and> L p = None \<and> kheap_rel v s' (L(p \<mapsto> sz))"
    if "kheap_rel v s L" "kheap_room sz s" for s L sz
    using kmalloc_serves [OF that] by blast
qed


lemma unat_pow2_u32: "k < 32 \<Longrightarrow> unat (2 ^ k :: u32) = 2 ^ k"
proof -
  assume "k < 32"
  then have "(2 :: nat) ^ k < 2 ^ 32" by (rule power_strict_increasing) simp
  then show ?thesis using unat_of_nat_u32 [of "2 ^ k"] by simp
qed

lemma mask_u32: "(2 ^ k :: u32) - 1 = mask k"
  by (simp add: mask_eq_exp_minus_1)

text \<open>Rounding a pointer down to a power of two after adding \<open>2 ^ k + 3\<close>.\<close>

lemma align_up:
  assumes k: "k < 32" and o: "unat p + 2 ^ k + 3 < 4294967296"
  defines "q \<equiv> (p + ((2 ^ k :: u32) - 1 + 4)) AND NOT ((2 ^ k :: u32) - 1)"
  shows "unat q mod 2 ^ k = 0" "unat p + 4 \<le> unat q" "unat q \<le> unat p + 2 ^ k + 3"
proof -
  have pos: "0 < (2 :: nat) ^ k" by simp
  have "(2 ^ k :: u32) \<noteq> 0" using unat_pow2_u32 [OF k] by (metis unat_0 zero_neq_numeral power_eq_0_iff)
  then have "unat ((2 ^ k :: u32) - 1) = 2 ^ k - 1" by (simp add: unat_minus1_u32 unat_pow2_u32 k)
  then have "unat ((2 ^ k :: u32) - 1 + 4) = 2 ^ k - 1 + 4" using o
    by (intro trans [OF unat_plus_u32]) auto
  then have w: "unat (p + ((2 ^ k :: u32) - 1 + 4)) = unat p + 2 ^ k + 3" using o pos
    by (intro trans [OF unat_plus_u32]) auto
  let ?w = "unat p + 2 ^ k + 3"
  have q: "unat q = ?w - ?w mod 2 ^ k"
    unfolding q_def mask_u32 unat_and_not_mask using w by (simp add: mask_u32)
  then show "unat q mod 2 ^ k = 0" by (simp add: minus_mod_eq_mult_div)
  show "unat q \<le> ?w" unfolding q by simp
  have "?w mod 2 ^ k < 2 ^ k" by simp
  then show "unat p + 4 \<le> unat q" unfolding q by linarith
qed

definition get32 :: "u32 \<Rightarrow> (u32 \<Rightarrow> u8) \<Rightarrow> u32" where
  "get32 a m = ucast (m a) OR push_bit 8 (ucast (m (a + 1)))
     OR push_bit 16 (ucast (m (a + 2))) OR push_bit 24 (ucast (m (a + 3)))"

subsection \<open>Properties\<close>

text \<open>C2: \<open>kmalloc\<close> is an allocator: with room in the heap region it returns a fresh
  address whose block of the requested size overlaps no live allocation, every live
  allocation keeps its place and size, no client byte changes, and the layout invariant (headers
  and payloads tile the used part of the region, the free list is linked and ordered) is kept.\<close>

theorem kmalloc_fresh_disjoint:
  assumes "kheap_rel v s L" "kheap_room sz s"
  shows "\<exists>p s'. kmalloc v sz s = Some (Inr (p, s')) \<and> kheap_rel v s' (L(p \<mapsto> sz))
     \<and> payload s' = payload s
     \<and> (\<forall>q n. L q = Some n \<longrightarrow> (L(p \<mapsto> sz)) q = Some n
          \<and> (unat p + unat sz \<le> unat q \<or> unat q + unat n \<le> unat p))"
  using kh.alloc_disjoint [OF assms] kmalloc_serves [OF assms] by force

definition kheap_fresh :: kheap where
  "kheap_fresh = \<lparr>free_list = 0, hdrs = (\<lambda>_. \<lparr>guard = 0, hsize = 0, hprev = 0, hnext = 0\<rparr>),
     heap_start = KHEAP_START, heap_start_static = KHEAP_START, max_allocation = 0,
     kst = \<lparr>slots = replicate 128 None, last_stat = 0, null_stat = \<lparr>st_name = [], st_value = 0\<rparr>\<rparr>,
     stat_alloc = 0, stat_free = 1, stat_merges = 2, stat_alloc_total = 3, stat_freed_total = 4,
     stat_max_load = 5, payload = (\<lambda>_. 0)\<rparr>"

lemma kheap_fresh_rel: "kheap_rel (\<lambda>_. True) kheap_fresh Map.empty"
proof -
  have "layout (VALIDATE (\<lambda>_. True)) KHEAP_START KHEAP_START kheap_fresh [] []"
    by (auto simp: layout_def fl_ok_def kheap_fresh_def VALIDATE_def word_le_nat_alt)
  moreover have "live_map kheap_fresh [] [] = Map.empty" by (simp add: live_map_def fun_eq_iff)
  ultimately have "heap_rel (VALIDATE (\<lambda>_. True)) KHEAP_START KHEAP_START kheap_fresh Map.empty"
    unfolding heap_rel_def by metis
  then show ?thesis by (simp add: kheap_rel_def) (simp add: kheap_fresh_def)
qed

lemma kheap_fresh_room: "unat sz + 13 < 0x1E000000 \<Longrightarrow> sz \<noteq> 0 \<Longrightarrow> kheap_room sz kheap_fresh"
  by (simp add: kheap_room_def kheap_fresh_def)

theorem kmalloc_fresh_disjoint_witness:
  "\<exists>p s'. kmalloc (\<lambda>_. True) 64 kheap_fresh = Some (Inr (p, s'))
     \<and> kheap_rel (\<lambda>_. True) s' (Map.empty(p \<mapsto> 64)) \<and> payload s' = payload kheap_fresh
     \<and> (\<forall>q n. Map.empty q = Some n \<longrightarrow> (Map.empty(p \<mapsto> 64)) q = Some n
          \<and> (unat p + unat (64 :: u32) \<le> unat q \<or> unat q + unat n \<le> unat p))"
  using kmalloc_fresh_disjoint [OF kheap_fresh_rel, of 64] by (simp add: kheap_fresh_room)

text \<open>\<open>kvalloc\<close> with an alignment of 2 to the k returns an aligned address inside a
  fresh allocation, with the requested size behind it still inside that allocation and four
  bytes before it that hold the address of the allocation.\<close>

theorem kvalloc_aligned:
  assumes r: "kheap_rel v s L" and m: "kheap_room (sz + (2 ^ k + 3)) s" and k: "k < 29"
    and o: "unat sz + 2 ^ k + 3 < 4294967296"
  shows "\<exists>p q s'. kvalloc v sz (2 ^ k) s = Some (Inr (q, s'))
     \<and> L p = None \<and> kheap_rel v s' (L(p \<mapsto> sz + (2 ^ k + 3)))
     \<and> unat q mod 2 ^ k = 0 \<and> unat p + 4 \<le> unat q
     \<and> unat q + unat sz \<le> unat p + unat (sz + (2 ^ k + 3))
     \<and> payload s' = put32 (q - 4) p (payload s)"
proof -
  have off: "(2 ^ k :: u32) - 1 + 4 = 2 ^ k + 3" by simp
  obtain p s1 where a: "kmalloc v (sz + (2 ^ k + 3)) s = Some (Inr (p, s1))" "L p = None"
      "kheap_rel v s1 (L(p \<mapsto> sz + (2 ^ k + 3)))" "payload s1 = payload s" "p \<noteq> 0"
    using kmalloc_serves [OF r m] by blast
  have up: "unat (2 ^ k + 3 :: u32) = 2 ^ k + 3"
    using o k by (intro trans [OF unat_plus_u32]) (simp_all add: unat_pow2_u32)
  have us: "unat (sz + (2 ^ k + 3)) = unat sz + (2 ^ k + 3)"
    using o up by (intro trans [OF unat_plus_u32]) simp_all
  have top: "unat p + unat (sz + (2 ^ k + 3)) \<le> unat (heap_start s1)"
    using heap_rel_header(10) [of "VALIDATE v" KHEAP_START "heap_start s1" s1 _ p] a(3)
    by (auto simp: kheap_rel_def)
  then have pb: "unat p + 2 ^ k + 3 < 4294967296"
    using us unat_u32_less [of "heap_start s1"] by linarith
  define q where "q = (p + ((2 ^ k :: u32) - 1 + 4)) AND NOT ((2 ^ k :: u32) - 1)"
  have q: "unat q mod 2 ^ k = 0" "unat p + 4 \<le> unat q" "unat q \<le> unat p + 2 ^ k + 3"
    using align_up [of k p] k pb unfolding q_def by auto
  let ?s' = "s1\<lparr>payload := put32 (q - 4) p (payload s1)\<rparr>"
  have "kvalloc v sz (2 ^ k) s = Some (Inr (q, ?s'))"
    unfolding kvalloc_def Let_def q_def off by (simp add: a(1,5))
  moreover have "kheap_rel v ?s' (L(p \<mapsto> sz + (2 ^ k + 3)))"
    using a(3) heap_rel_cong [of ?s' s1] by (simp add: kheap_rel_def)
  ultimately show ?thesis using a(2,4) q us by (intro exI [of _ p] exI [of _ q] exI [of _ ?s']) simp
qed

theorem kvalloc_aligned_witness:
  "\<exists>p q s'. kvalloc (\<lambda>_. True) 4096 (2 ^ 12) kheap_fresh = Some (Inr (q, s'))
     \<and> Map.empty p = (None :: u32 option) \<and> kheap_rel (\<lambda>_. True) s' (Map.empty(p \<mapsto> 4096 + (2 ^ 12 + 3)))
     \<and> unat q mod 2 ^ 12 = 0 \<and> unat p + 4 \<le> unat q
     \<and> unat q + unat (4096 :: u32) \<le> unat p + unat (4096 + (2 ^ 12 + 3) :: u32)
     \<and> payload s' = put32 (q - 4) p (payload kheap_fresh)"
  by (rule kvalloc_aligned [OF kheap_fresh_rel]) (simp_all add: kheap_fresh_room)


text \<open>While nothing was ever put on the free list (\<open>kfree\<close> never does) the kernel heap
  only grows: \<open>kmalloc\<close> panics on a size of zero or of the whole region and beyond, panics when
  header and block do not fit below the end of the region, and otherwise returns the address
  right behind a header at the old end, which moves up by the size plus 13; the free list
  stays empty.\<close>

theorem kmalloc_bump:
  assumes "free_list s = 0" "heap_start_static s = KHEAP_START" "unat (heap_start s) \<le> 0x20000000"
  shows "\<exists>s'. kmalloc v sz s =
      Some (if sz = 0 \<or> 0x1E000000 \<le> unat sz then Inl (Panic ''KHEAP: Invalid allocation'')
            else if 0x20000000 \<le> unat (heap_start s) + 13 + unat sz then Inl (Panic ''KHEAP: Out of memory'')
            else Inr (heap_start s + 13, s'))
     \<and> heap_start s' = heap_start s + 13 + sz \<and> free_list s' = 0
     \<and> hdrs s' (heap_start s) = \<lparr>guard = 0xED, hsize = sz, hprev = POISON, hnext = POISON\<rparr>"
proof -
  let ?s2 = "kmalloc_count sz (kmalloc_note sz s)"
  let ?s' = "snd (kmalloc_extend sz ?s2)"
  have nz: "\<not> VALIDATE v 0" by (simp add: VALIDATE_def)
  have fb: "free_block (VALIDATE v) sz (kmalloc_note sz s) = Some (0, kmalloc_note sz s)"
    by (simp add: free_block_def assms(1) nz)
  have inv: "sz \<ge> KHEAP_SIZE \<longleftrightarrow> 0x1E000000 \<le> unat sz" by (simp add: word_le_nat_alt)
  have full: "heap_start s + 13 + sz \<ge> KHEAP_START + KHEAP_SIZE
      \<longleftrightarrow> 0x20000000 \<le> unat (heap_start s) + 13 + unat sz" if "unat sz < 0x1E000000"
    using that assms(3) by (simp add: word_le_nat_alt unat_plus_u32)
  have "kmalloc v sz s =
      Some (if sz = 0 \<or> 0x1E000000 \<le> unat sz then Inl (Panic ''KHEAP: Invalid allocation'')
            else if 0x20000000 \<le> unat (heap_start s) + 13 + unat sz then Inl (Panic ''KHEAP: Out of memory'')
            else Inr (heap_start s + 13, ?s'))"
  proof (cases "sz = 0 \<or> 0x1E000000 \<le> unat sz")
    case True
    then show ?thesis unfolding kmalloc_def inv by simp
  next
    case False
    then have "unat sz < 0x1E000000" by simp
    with False full [OF this] show ?thesis
      by (simp add: kmalloc_def inv fb nz assms(2) kmalloc_extend_def Let_def)
  qed
  moreover have "hdrs ?s' (heap_start s) = \<lparr>guard = 0xED, hsize = sz, hprev = POISON, hnext = POISON\<rparr>"
    by (cases "hdrs s (heap_start s)") (simp add: kmalloc_extend_def Let_def upd_hdr_def)
  ultimately show ?thesis using assms(1)
    by (intro exI [of _ ?s']) (simp add: kmalloc_extend_def Let_def upd_hdr_def)
qed

theorem kmalloc_bump_witness:
  "\<exists>s'. kmalloc (\<lambda>_. True) 0x1DFFFFFF kheap_fresh =
      Some (if (0x1DFFFFFF :: u32) = 0 \<or> 0x1E000000 \<le> unat (0x1DFFFFFF :: u32)
            then Inl (Panic ''KHEAP: Invalid allocation'')
            else if 0x20000000 \<le> unat (heap_start kheap_fresh) + 13 + unat (0x1DFFFFFF :: u32)
            then Inl (Panic ''KHEAP: Out of memory'')
            else Inr (heap_start kheap_fresh + 13, s'))
     \<and> heap_start s' = heap_start kheap_fresh + 13 + 0x1DFFFFFF \<and> free_list s' = 0
     \<and> hdrs s' (heap_start kheap_fresh) = \<lparr>guard = 0xED, hsize = 0x1DFFFFFF, hprev = POISON, hnext = POISON\<rparr>"
  by (rule kmalloc_bump) (simp_all add: kheap_fresh_def)

text \<open>\<open>krealloc\<close> of a live allocation returns a fresh one whose first bytes, up to the
  smaller of the two sizes, are those of the old allocation; all other client bytes are unchanged
  and the old allocation stays live, since \<open>kfree\<close> does nothing.\<close>

theorem krealloc_copies:
  assumes r: "kheap_rel v s L" and m: "kheap_room newsize s" and l: "L ptr = Some osize"
  shows "\<exists>p s'. krealloc v ptr newsize s = Some (Inr (p, s'))
     \<and> L p = None \<and> kheap_rel v s' (L(p \<mapsto> newsize))
     \<and> (\<forall>i < min osize newsize. payload s' (p + i) = payload s (ptr + i))
     \<and> (\<forall>a. \<not> a - p < min osize newsize \<longrightarrow> payload s' a = payload s a)"
proof -
  obtain p s1 where a: "kmalloc v newsize s = Some (Inr (p, s1))" "L p = None"
      "kheap_rel v s1 (L(p \<mapsto> newsize))" "payload s1 = payload s"
    using kmalloc_serves [OF r m] by blast
  have "VALIDATE v ptr" using heap_rel_header(6) [of "VALIDATE v" KHEAP_START "heap_start s" s L ptr] r l
    by (auto simp: kheap_rel_def)
  moreover have "hsize (hdrs s1 (ptr - 13)) = osize"
  proof -
    have "(L(p \<mapsto> newsize)) ptr = Some osize" using l a(2) by auto
    then show ?thesis using a(3) heap_rel_header(2) unfolding kheap_rel_def by blast
  qed
  ultimately have "krealloc v ptr newsize s = Some (Inr (p,
      s1\<lparr>payload := move_bytes p ptr (min osize newsize) (payload s1)\<rparr>))"
    using a(1) by (simp add: krealloc_def kfree_def Let_def min_def)
  moreover have "kheap_rel v (s1\<lparr>payload := m\<rparr>) M = kheap_rel v s1 M" for m M
    using heap_rel_cong [of "s1\<lparr>payload := m\<rparr>" s1] by (simp add: kheap_rel_def)
  ultimately show ?thesis using a(2-4) by (simp add: move_bytes_def)
qed

theorem krealloc_copies_witness:
  "\<exists>q t. kmalloc (\<lambda>_. True) 8 kheap_fresh = Some (Inr (q, t)) \<and>
    (\<exists>p s'. krealloc (\<lambda>_. True) q 16 t = Some (Inr (p, s'))
     \<and> [q \<mapsto> (8 :: u32)] p = None \<and> kheap_rel (\<lambda>_. True) s' ([q \<mapsto> 8](p \<mapsto> 16))
     \<and> (\<forall>i < min 8 16. payload s' (p + i) = payload t (q + i))
     \<and> (\<forall>a. \<not> a - p < min 8 16 \<longrightarrow> payload s' a = payload t a))"
proof -
  obtain q t where t: "kmalloc (\<lambda>_. True) 8 kheap_fresh = Some (Inr (q, t))"
    "kheap_rel (\<lambda>_. True) t [q \<mapsto> 8]"
    using kmalloc_serves [OF kheap_fresh_rel kheap_fresh_room, of 8] by auto
  have "kmalloc (\<lambda>_. True) 8 kheap_fresh = Some (Inr (KHEAP_START + 13, t)) \<and> heap_start t = KHEAP_START + 21"
  proof -
    obtain s' where "kmalloc (\<lambda>_. True) 8 kheap_fresh = Some (Inr (KHEAP_START + 13, s'))"
      "heap_start s' = KHEAP_START + 21"
      unfolding kmalloc_def
      by (simp add: kheap_fresh_def free_block_def VALIDATE_def kmalloc_extend_def upd_hdr_def Let_def)
    with t show ?thesis by simp
  qed
  then have "kheap_room 16 t" by (simp add: kheap_room_def)
  from krealloc_copies [OF t(2) this, of q 8, OF fun_upd_same] t(1) show ?thesis by blast
qed

text \<open>A counter created under a new name is found under that name and under the returned slot
  with its initial value, and the table keeps its form; when the name exists or the table is
  full, \<open>create_stat\<close> returns 0, which is also the slot of the first counter.\<close>

theorem create_stat_registers:
  assumes r: "kheap_rel v s L" and m: "kheap_room 36 s" and inv: "stats_inv (kst s)"
    and name: "length name < 32" "name \<noteq> st_name (null_stat (kst s))"
  shows "\<exists>i s'. create_stat v name init s = Some (Inr (i, s')) \<and> stats_inv (kst s')
     \<and> (if has_stat name (kst s) \<or> unat (last_stat (kst s)) = 128 then i = 0 \<and> s' = s
        else i = last_stat (kst s) \<and> get_stat name (kst s') = init \<and> i_get_stat i (kst s') = init)"
proof (cases "has_stat name (kst s) \<or> unat (last_stat (kst s)) = 128")
  case True
  then show ?thesis using inv by (auto simp: create_stat_def word_less_nat_alt)
next
  case False
  have "unat (last_stat (kst s)) \<le> 128" using inv by (simp add: stats_inv_def)
  with False have new: "\<not> has_stat name (kst s)" "unat (last_stat (kst s)) < 128" by auto
  obtain p s1 where k: "kmalloc v 36 s = Some (Inr (p, s1))" "last_stat (kst s1) = last_stat (kst s)"
      "stats_inv (kst s1)"
    using kmalloc_serves [OF r m] inv by blast
  note f = kmalloc_stats [OF k(1) r]
  let ?k = "kst s1" and ?i = "unat (last_stat (kst s))"
  let ?k' = "?k\<lparr>slots := (slots ?k)[?i := Some \<lparr>st_name = name, st_value = init\<rparr>],
      last_stat := last_stat (kst s) + 1\<rparr>"
  have "create_stat v name init s = Some (Inr (last_stat (kst s), s1\<lparr>kst := ?k'\<rparr>))"
    using new k name by (simp add: create_stat_def word_less_nat_alt Let_def)
  moreover have "stats_inv ?k' \<and> get_stat name ?k' = init \<and> i_get_stat (last_stat (kst s)) ?k' = init"
    using stats_add [of ?k name init] k new f name by (simp add: has_stat_def)
  ultimately show ?thesis using False by auto
qed

theorem create_stat_registers_witness:
  "\<exists>i s'. create_stat (\<lambda>_. True) [112, 109] 7 kheap_fresh = Some (Inr (i, s')) \<and> stats_inv (kst s')
     \<and> (if has_stat [112, 109] (kst kheap_fresh) \<or> unat (last_stat (kst kheap_fresh)) = 128
        then i = 0 \<and> s' = kheap_fresh
        else i = last_stat (kst kheap_fresh) \<and> get_stat [112, 109] (kst s') = 7 \<and> i_get_stat i (kst s') = 7)"
  by (rule create_stat_registers [OF kheap_fresh_rel])
    (simp_all add: kheap_fresh_room, simp_all add: kheap_fresh_def stats_inv_def)

text \<open>\<open>kernel_main\<close> runs \<open>init_pmm\<close>, which creates counters, before \<open>init_kheap\<close>: the heap
  pointers are still null then, and the counter objects land from address 13 on.\<close>

lemma kmalloc_before_init:
  "\<exists>s'. kmalloc v 36 (kheap_fresh\<lparr>heap_start := 0, heap_start_static := 0\<rparr>) = Some (Inr (13, s'))"
  by (simp add: kmalloc_def kheap_fresh_def free_block_def VALIDATE_def kmalloc_extend_def Let_def)

end
