(* ===== verification/Pmm.thy ===== *)
theory Pmm
  imports Kheap
begin

text \<open>
  The physical memory manager, \<open>os/kernel/arch/i386/mem/pmm.c\<close>: a stack of free page frames
  that grows behind the kernel image, up to 32 protected regions whose frames are never
  pushed, and a stack of 16 DMA blocks. The counters live in the kernel heap's table, so the
  state holds that heap too. The memory map of the boot loader is read through \<open>entry\<close>, the
  record found at an address.
\<close>

record memory_region =
  r_size :: u32
  r_start :: u32

record mmap_entry =
  m_size :: u32
  m_addr :: u64
  m_len :: u64
  m_type :: u32

record kmem =
  kh :: kheap
  k_frame_stack :: "u32 \<Rightarrow> u32"
  k_frame_stack_esp :: u32
  k_frame_stack_size :: u32
  pstat :: u16
  pstat1 :: u16
  pstat2 :: u16
  dma_stack :: "u32 list"
  dma_esp :: u32
  protected_regions :: "memory_region list"
  prot_regions_counter :: u32

abbreviation DMA_STACK_SIZE :: u32 where "DMA_STACK_SIZE \<equiv> 16"
abbreviation MAX_PROTECTED_REGIONS :: u32 where "MAX_PROTECTED_REGIONS \<equiv> 32"

definition k_frame_stack_pop :: "kmem \<Rightarrow> (u32 \<times> kmem) res" where
  "k_frame_stack_pop s =
     (if k_frame_stack_esp s \<ge> k_frame_stack_size s then Inl (Panic ''PMM: Out of memory'')
      else Inr (k_frame_stack s (k_frame_stack_esp s), s\<lparr>k_frame_stack_esp := k_frame_stack_esp s + 1\<rparr>))"

text \<open>Frames are pushed below the stack pointer; the guard looks at the size only.\<close>

definition k_frame_stack_push :: "u32 \<Rightarrow> kmem \<Rightarrow> kmem" where
  "k_frame_stack_push frame s =
     (if k_frame_stack_size s = 0 then s
      else let s = s\<lparr>k_frame_stack_esp := k_frame_stack_esp s - 1\<rparr>
           in s\<lparr>k_frame_stack := (k_frame_stack s)(k_frame_stack_esp s := frame)\<rparr>)"

function check_regions :: "memory_region list \<Rightarrow> nat \<Rightarrow> nat \<Rightarrow> u32 \<Rightarrow> bool res" where
  "check_regions rs n i frame =
     (if i < n then
        sbind (load_at rs i) (\<lambda>r.
          if frame \<ge> r_start r \<and> frame \<le> r_start r + r_size r then Inr False
          else check_regions rs n (i + 1) frame)
      else Inr True)"
  by pat_completeness auto
termination by (relation "measure (\<lambda>(rs, n, i, f). n - i)") auto

declare check_regions.simps [simp del]

definition pmm_check_frame :: "u32 \<Rightarrow> kmem \<Rightarrow> bool res" where
  "pmm_check_frame frame s =
     check_regions (protected_regions s) (unat (prot_regions_counter s)) 0 frame"

definition add_frame :: "u32 \<Rightarrow> kmem \<Rightarrow> kmem" where
  "add_frame frame s =
     s\<lparr>k_frame_stack := (k_frame_stack s)(k_frame_stack_size s := frame),
       k_frame_stack_size := k_frame_stack_size s + 1\<rparr>"

text \<open>The loop over one region of the map; its \<open>int\<close> counter overflows at two gigabytes.\<close>

function add_frames :: "u64 \<Rightarrow> u64 \<Rightarrow> nat \<Rightarrow> kmem \<Rightarrow> kmem res" where
  "add_frames addr len i s =
     (if i < unat len then
        if i \<ge> 2 ^ 31 then Inl Wild
        else sbind (pmm_check_frame (ucast (addr + of_nat i)) s) (\<lambda>ok.
               add_frames addr len (i + 4096) (if ok then add_frame (ucast (addr + of_nat i)) s else s))
      else Inr s)"
  by pat_completeness auto
termination by (relation "measure (\<lambda>(addr, len, i, s). unat len - i)") auto

declare add_frames.simps [simp del]

partial_function (option) mmap_walk ::
  "(u32 \<Rightarrow> mmap_entry) \<Rightarrow> u32 \<Rightarrow> u32 \<Rightarrow> kmem \<Rightarrow> kmem res option" where
  "mmap_walk entry limit mmap s =
     (if mmap < limit then
        (case (if m_type (entry mmap) = 1 then add_frames (m_addr (entry mmap)) (m_len (entry mmap)) 0 s
               else Inr s) of
           Inl e \<Rightarrow> Some (Inl e)
         | Inr s \<Rightarrow> mmap_walk entry limit (mmap + m_size (entry mmap) + 4) s)
      else Some (Inr s))"

text \<open>Creating a counter in the kernel heap and keeping its slot in 16 bits.\<close>

definition pmm_stat :: "(u32 \<Rightarrow> bool) \<Rightarrow> u8 list \<Rightarrow> kmem \<Rightarrow> (u16 \<times> kmem) res option" where
  "pmm_stat v name s = (case create_stat v name 0 (kh s) of
       None \<Rightarrow> None
     | Some (Inl e) \<Rightarrow> Some (Inl e)
     | Some (Inr (i, h)) \<Rightarrow> Some (Inr (ucast i, s\<lparr>kh := h\<rparr>)))"

definition name_pushed :: "u8 list" where
  "name_pushed = map (\<lambda>c. of_nat (of_char c)) ''pmm_stack_pushed''"

definition name_popped :: "u8 list" where
  "name_popped = map (\<lambda>c. of_nat (of_char c)) ''pmm_stack_popped''"

definition name_peak :: "u8 list" where
  "name_peak = map (\<lambda>c. of_nat (of_char c)) ''pmm_peak''"

definition init_pmm :: "(u32 \<Rightarrow> bool) \<Rightarrow> (u32 \<Rightarrow> mmap_entry) \<Rightarrow> u32 \<Rightarrow> u32 \<Rightarrow> kmem \<Rightarrow> kmem res option" where
  "init_pmm v entry mmap_addr mmap_length s =
     (case pmm_stat v name_pushed s of None \<Rightarrow> None | Some (Inl e) \<Rightarrow> Some (Inl e) | Some (Inr (i, s)) \<Rightarrow>
      case pmm_stat v name_popped (s\<lparr>pstat := i\<rparr>) of None \<Rightarrow> None | Some (Inl e) \<Rightarrow> Some (Inl e) | Some (Inr (i, s)) \<Rightarrow>
      case pmm_stat v name_peak (s\<lparr>pstat1 := i\<rparr>) of None \<Rightarrow> None | Some (Inl e) \<Rightarrow> Some (Inl e) | Some (Inr (i, s)) \<Rightarrow>
      mmap_walk entry (mmap_addr + mmap_length) mmap_addr (s\<lparr>pstat2 := i\<rparr>))"

definition pmm_count :: "u16 \<Rightarrow> u32 \<Rightarrow> kmem \<Rightarrow> kmem" where
  "pmm_count idx n s = s\<lparr>kh := count_stat (ucast idx) n (kh s)\<rparr>"

definition kfalloc :: "kmem \<Rightarrow> (u32 \<times> kmem) res" where
  "kfalloc s = k_frame_stack_pop (pmm_count (pstat2 s) 1 (pmm_count (pstat1 s) 1 s))"

definition kffree :: "u32 \<Rightarrow> kmem \<Rightarrow> kmem" where
  "kffree addr s = k_frame_stack_push addr (pmm_count (pstat2 s) (- 1) (pmm_count (pstat s) 1 s))"

definition pmm_protect_region :: "u32 \<Rightarrow> u32 \<Rightarrow> kmem \<Rightarrow> kmem res" where
  "pmm_protect_region region_start sz s =
     sbind (store_at (protected_regions s) (unat (prot_regions_counter s))
              \<lparr>r_size = sz, r_start = region_start\<rparr>) (\<lambda>rs.
       Inr (s\<lparr>protected_regions := rs, prot_regions_counter := prot_regions_counter s + 1\<rparr>))"

definition pmm_allocate_dma :: "kmem \<Rightarrow> (u32 \<times> kmem) res" where
  "pmm_allocate_dma s =
     (if dma_esp s = 0 then Inl (Panic ''PMM: DMA Out of memory'')
      else let s = s\<lparr>dma_esp := dma_esp s - 1\<rparr>
           in sbind (load_at (dma_stack s) (unat (dma_esp s))) (\<lambda>f. Inr (f, s)))"

text \<open>A full DMA stack is reported and then written past its end.\<close>

definition pmm_free_dma :: "u32 \<Rightarrow> kmem \<Rightarrow> kmem res" where
  "pmm_free_dma frame s =
     sbind (store_at (dma_stack s) (unat (dma_esp s)) frame) (\<lambda>st.
       Inr (s\<lparr>dma_stack := st, dma_esp := dma_esp s + 1\<rparr>))"

subsection \<open>A source of frames\<close>

locale frame_source =
  fixes finv :: "'s \<Rightarrow> bool"
    and frames :: "'s \<Rightarrow> u32 list"
    and fcapacity :: "'s \<Rightarrow> nat"
    and falloc :: "'s \<Rightarrow> (u32 \<times> 's) res"
    and ffree :: "u32 \<Rightarrow> 's \<Rightarrow> 's"
  assumes alloc_frame: "finv s \<Longrightarrow> frames s = f # fs \<Longrightarrow>
      \<exists>s'. falloc s = Inr (f, s') \<and> finv s' \<and> frames s' = fs \<and> fcapacity s' = fcapacity s"
    and alloc_empty: "finv s \<Longrightarrow> frames s = [] \<Longrightarrow> falloc s = Inl (Panic ''PMM: Out of memory'')"
    and free_frame: "finv s \<Longrightarrow> length (frames s) < fcapacity s \<Longrightarrow>
      finv (ffree f s) \<and> frames (ffree f s) = f # frames s \<and> fcapacity (ffree f s) = fcapacity s"
begin

fun falloc_n :: "nat \<Rightarrow> 's \<Rightarrow> (u32 list \<times> 's) res" where
  "falloc_n 0 s = Inr ([], s)"
| "falloc_n (Suc n) s =
     sbind (falloc s) (\<lambda>(f, s). sbind (falloc_n n s) (\<lambda>(fs, s). Inr (f # fs, s)))"

text \<open>Taking \<open>n\<close> frames takes the first \<open>n\<close> of the stack, and no others.\<close>

lemma falloc_n_take:
  "finv s \<Longrightarrow> n \<le> length (frames s) \<Longrightarrow>
   \<exists>s'. falloc_n n s = Inr (take n (frames s), s') \<and> finv s' \<and> frames s' = drop n (frames s)"
proof (induction n arbitrary: s)
  case (Suc n)
  then obtain f fs where ff: "frames s = f # fs" by (cases "frames s") auto
  with alloc_frame Suc.prems(1) obtain s1 where s1: "falloc s = Inr (f, s1)" "finv s1" "frames s1 = fs"
    by blast
  with Suc.IH [of s1] Suc.prems ff show ?case by auto
qed simp

lemma falloc_n_distinct:
  assumes "finv s" "n \<le> length (frames s)" "distinct (frames s)"
  shows "\<exists>fs s'. falloc_n n s = Inr (fs, s') \<and> length fs = n \<and> distinct fs
     \<and> set fs \<inter> set (frames s') = {}"
proof -
  obtain s' where "falloc_n n s = Inr (take n (frames s), s')" "frames s' = drop n (frames s)"
    using falloc_n_take [OF assms(1,2)] by blast
  moreover have "distinct (take n (frames s) @ drop n (frames s))" using assms(3) by simp
  then have "set (take n (frames s)) \<inter> set (drop n (frames s)) = {}"
    "distinct (take n (frames s))" unfolding distinct_append by blast+
  ultimately show ?thesis using assms(2) by auto
qed

lemma free_alloc:
  assumes "finv s" "length (frames s) < fcapacity s"
  shows "\<exists>s'. falloc (ffree f s) = Inr (f, s') \<and> finv s' \<and> frames s' = frames s"
  using free_frame [OF assms, of f] alloc_frame [of "ffree f s" f "frames s"] by blast

end

text \<open>The frames between the stack pointer and the size.\<close>

definition free_frames :: "kmem \<Rightarrow> u32 list" where
  "free_frames s = map (\<lambda>i. k_frame_stack s (of_nat i)) [unat (k_frame_stack_esp s)..<unat (k_frame_stack_size s)]"

definition pmm_inv :: "kmem \<Rightarrow> bool" where
  "pmm_inv s \<longleftrightarrow> unat (k_frame_stack_esp s) \<le> unat (k_frame_stack_size s)"

definition pmm_capacity :: "kmem \<Rightarrow> nat" where
  "pmm_capacity s = unat (k_frame_stack_size s)"

lemma pmm_count_simps [simp]:
  "k_frame_stack (pmm_count i n s) = k_frame_stack s"
  "k_frame_stack_esp (pmm_count i n s) = k_frame_stack_esp s"
  "k_frame_stack_size (pmm_count i n s) = k_frame_stack_size s"
  by (simp_all add: pmm_count_def)

lemma kfalloc_pops:
  assumes "pmm_inv s" "free_frames s = f # fs"
  shows "\<exists>s'. kfalloc s = Inr (f, s') \<and> pmm_inv s' \<and> free_frames s' = fs \<and> pmm_capacity s' = pmm_capacity s"
proof -
  let ?e = "unat (k_frame_stack_esp s)" and ?z = "unat (k_frame_stack_size s)"
  have lt: "?e < ?z"
  proof (rule ccontr)
    assume "\<not> ?e < ?z"
    then have "free_frames s = []" by (simp add: free_frames_def)
    with assms(2) show False by simp
  qed
  then have "?e + 1 < 4294967296" using unat_u32_less [of "k_frame_stack_size s"] by linarith
  then have e1: "unat (k_frame_stack_esp s + 1) = ?e + 1" by (rule unat_plus1_u32)
  have "[?e..<?z] = ?e # [?e + 1..<?z]" using lt by (simp add: upt_conv_Cons)
  then have "f = k_frame_stack s (k_frame_stack_esp s)"
    "fs = map (\<lambda>i. k_frame_stack s (of_nat i)) [?e + 1..<?z]"
    using assms(2) by (simp_all add: free_frames_def)
  then show ?thesis using lt e1
    by (simp add: kfalloc_def k_frame_stack_pop_def word_le_nat_alt pmm_inv_def free_frames_def pmm_capacity_def)
qed

lemma kffree_pushes:
  assumes "pmm_inv s" "length (free_frames s) < pmm_capacity s"
  shows "pmm_inv (kffree f s) \<and> free_frames (kffree f s) = f # free_frames s
     \<and> pmm_capacity (kffree f s) = pmm_capacity s"
proof -
  let ?e = "unat (k_frame_stack_esp s)" and ?z = "unat (k_frame_stack_size s)"
  have ez: "0 < ?e" "?e \<le> ?z" using assms by (auto simp: pmm_inv_def free_frames_def pmm_capacity_def)
  then have nz: "k_frame_stack_esp s \<noteq> 0" "k_frame_stack_size s \<noteq> 0" by auto
  have e1: "unat (k_frame_stack_esp s - 1) = ?e - 1" by (rule unat_minus1_u32 [OF nz(1)])
  have "[?e - 1..<?z] = (?e - 1) # [?e..<?z]" using ez by (simp add: upt_conv_Cons)
  moreover have "of_nat (?e - 1) = k_frame_stack_esp s - 1" using ez by (simp add: of_nat_diff)
  moreover have "of_nat i \<noteq> k_frame_stack_esp s - 1" if "i \<in> set [?e..<?z]" for i
  proof -
    have "i < 4294967296" using that unat_u32_less [of "k_frame_stack_size s"] by (auto simp del: unat_u32_less)
    then have "unat (of_nat i :: u32) = i" by (rule unat_of_nat_u32)
    then show ?thesis using that e1 ez by fastforce
  qed
  ultimately show ?thesis using nz e1 ez
    by (simp add: kffree_def k_frame_stack_push_def Let_def pmm_inv_def free_frames_def pmm_capacity_def)
qed

interpretation pmm: frame_source pmm_inv free_frames pmm_capacity kfalloc kffree
proof
  show "kfalloc s = Inl (Panic ''PMM: Out of memory'')" if "pmm_inv s" "free_frames s = []" for s
    using that by (auto simp: kfalloc_def k_frame_stack_pop_def free_frames_def pmm_inv_def word_le_nat_alt)
qed (use kfalloc_pops kffree_pushes in blast)+


subsection \<open>Loading a region of the memory map\<close>

definition protected_by :: "u32 \<Rightarrow> memory_region \<Rightarrow> bool" where
  "protected_by frame r \<longleftrightarrow> r_start r \<le> frame \<and> frame \<le> r_start r + r_size r"

lemma check_regions_all:
  "n \<le> length rs \<Longrightarrow> check_regions rs n i f = Inr (\<forall>r \<in> set (drop i (take n rs)). \<not> protected_by f r)"
proof (induction "n - i" arbitrary: i)
  case 0
  then show ?case by (subst check_regions.simps) simp
next
  case (Suc k)
  then have i: "i < n" "i < length rs" "k = n - (i + 1)" by auto
  then have "drop i (take n rs) = rs ! i # drop (i + 1) (take n rs)"
    using Cons_nth_drop_Suc [of i "take n rs"] by simp
  moreover have "check_regions rs n (i + 1) f = Inr (\<forall>r \<in> set (drop (i + 1) (take n rs)). \<not> protected_by f r)"
    using Suc.hyps(1) [OF i(3) Suc.prems] .
  ultimately show ?case using i by (subst check_regions.simps) (auto simp: protected_by_def)
qed

definition regions_ok :: "kmem \<Rightarrow> bool" where
  "regions_ok s \<longleftrightarrow> unat (prot_regions_counter s) \<le> length (protected_regions s)"

definition unprotected :: "kmem \<Rightarrow> u32 \<Rightarrow> bool" where
  "unprotected s f \<longleftrightarrow> (\<forall>r \<in> set (take (unat (prot_regions_counter s)) (protected_regions s)). \<not> protected_by f r)"

lemma pmm_check_frame_ok: "regions_ok s \<Longrightarrow> pmm_check_frame f s = Inr (unprotected s f)"
  by (simp add: pmm_check_frame_def check_regions_all regions_ok_def unprotected_def)

text \<open>The page frames of a region from page \<open>k\<close> on.\<close>

definition region_frames :: "u64 \<Rightarrow> u64 \<Rightarrow> nat \<Rightarrow> u32 list" where
  "region_frames addr len k = map (\<lambda>j. ucast (addr + of_nat (4096 * j))) [k..<(unat len + 4095) div 4096]"

lemma region_frames_step:
  "4096 * k < unat len \<Longrightarrow>
   region_frames addr len k = ucast (addr + of_nat (4096 * k)) # region_frames addr len (k + 1)"
  unfolding region_frames_def by (subst upt_conv_Cons) auto

lemma add_frame_appends:
  assumes "pmm_inv s" "unat (k_frame_stack_size s) + 1 < 4294967296"
  shows "free_frames (add_frame f s) = free_frames s @ [f]" "pmm_inv (add_frame f s)"
    "unat (k_frame_stack_size (add_frame f s)) = unat (k_frame_stack_size s) + 1"
proof -
  let ?z = "unat (k_frame_stack_size s)"
  have z1: "unat (k_frame_stack_size s + 1) = ?z + 1" by (rule unat_plus1_u32 [OF assms(2)])
  then show "unat (k_frame_stack_size (add_frame f s)) = ?z + 1" "pmm_inv (add_frame f s)"
    using assms(1) by (simp_all add: add_frame_def pmm_inv_def)
  have "of_nat i \<noteq> k_frame_stack_size s" if "i < ?z" for i
  proof -
    have "unat (of_nat i :: u32) = i" using that assms(2) by (intro unat_of_nat_u32) simp
    then show ?thesis using that by fastforce
  qed
  then show "free_frames (add_frame f s) = free_frames s @ [f]"
    using assms(1) z1 by (simp add: free_frames_def add_frame_def pmm_inv_def)
qed

lemma add_frame_regions [simp]:
  "regions_ok (add_frame f s) = regions_ok s" "unprotected (add_frame f s) = unprotected s"
  by (simp_all add: add_frame_def regions_ok_def unprotected_def fun_eq_iff)

lemma add_frames_from:
  assumes "pmm_inv s" "regions_ok s" "unat len \<le> 2 ^ 31"
    and "unat (k_frame_stack_size s) + length (region_frames addr len k) < 4294967296"
  shows "\<exists>s'. add_frames addr len (4096 * k) s = Inr s' \<and> pmm_inv s'
     \<and> free_frames s' = free_frames s @ filter (unprotected s) (region_frames addr len k)"
  using assms
proof (induction "unat len - 4096 * k" arbitrary: k s rule: less_induct)
  case less
  show ?case
  proof (cases "4096 * k < unat len")
    case False
    then have "(unat len + 4095) div 4096 \<le> k" by linarith
    then show ?thesis using False less.prems(1)
      by (subst add_frames.simps) (simp add: region_frames_def)
  next
    case True
    let ?f = "ucast (addr + of_nat (4096 * k)) :: u32"
    let ?s = "if unprotected s ?f then add_frame ?f s else s"
    note step = region_frames_step [OF True, of addr]
    have run: "add_frames addr len (4096 * k) s = add_frames addr len (4096 * (k + 1)) ?s"
      using True less.prems by (subst add_frames.simps) (simp add: pmm_check_frame_ok algebra_simps)
    have sz: "unat (k_frame_stack_size s) + 1 < 4294967296" using less.prems(4) step by simp
    note af = add_frame_appends [OF less.prems(1) sz, of ?f]
    have "pmm_inv ?s" "regions_ok ?s" "unprotected ?s = unprotected s"
      "unat (k_frame_stack_size ?s) + length (region_frames addr len (k + 1)) < 4294967296"
      using af less.prems step by auto
    moreover have "unat len - 4096 * (k + 1) < unat len - 4096 * k" using True by simp
    ultimately obtain s' where "add_frames addr len (4096 * (k + 1)) ?s = Inr s'" "pmm_inv s'"
      "free_frames s' = free_frames ?s @ filter (unprotected s) (region_frames addr len (k + 1))"
      using less.hyps [of "k + 1" ?s] less.prems(3) by auto
    then show ?thesis using run step af(1) by (auto split: if_splits)
  qed
qed

subsection \<open>Properties\<close>

text \<open>C5: The frame allocator is a stack: \<open>kfalloc\<close> pops the first free frame and panics when
  there is none; as long as fewer frames are free than the memory map supplied, \<open>kffree\<close> pushes
  the frame and the next \<open>kfalloc\<close> returns that very frame and restores the rest.\<close>

theorem kfalloc_kffree_stack:
  assumes "pmm_inv s"
  shows "(free_frames s = [] \<longrightarrow> kfalloc s = Inl (Panic ''PMM: Out of memory''))
     \<and> (\<forall>f fs. free_frames s = f # fs \<longrightarrow>
          (\<exists>s'. kfalloc s = Inr (f, s') \<and> pmm_inv s' \<and> free_frames s' = fs))
     \<and> (length (free_frames s) < unat (k_frame_stack_size s) \<longrightarrow>
          pmm_inv (kffree g s) \<and> free_frames (kffree g s) = g # free_frames s
          \<and> (\<exists>s'. kfalloc (kffree g s) = Inr (g, s') \<and> pmm_inv s' \<and> free_frames s' = free_frames s))"
  using pmm.alloc_empty [OF assms] pmm.alloc_frame [OF assms]
    pmm.free_frame [OF assms, of g] pmm.free_alloc [OF assms, of g]
  unfolding pmm_capacity_def by blast

definition kmem_example :: kmem where
  "kmem_example = \<lparr>kh = kheap_fresh, k_frame_stack = (\<lambda>i. 0x400000 + 4096 * i), k_frame_stack_esp = 1,
     k_frame_stack_size = 3, pstat = 0, pstat1 = 1, pstat2 = 2, dma_stack = replicate 16 0, dma_esp = 0,
     protected_regions = \<lparr>r_size = 0x400000, r_start = 0\<rparr> # replicate 31 \<lparr>r_size = 0, r_start = 0\<rparr>,
     prot_regions_counter = 1\<rparr>"

theorem kfalloc_kffree_stack_witness:
  "(\<exists>s'. kfalloc kmem_example = Inr (0x401000, s') \<and> pmm_inv s' \<and> free_frames s' = [0x402000])
     \<and> free_frames (kffree 0x400000 kmem_example) = [0x400000, 0x401000, 0x402000]
     \<and> (\<exists>s'. kfalloc (kffree 0x400000 kmem_example) = Inr (0x400000, s') \<and> pmm_inv s'
          \<and> free_frames s' = [0x401000, 0x402000])"
proof -
  have "[Suc 0..<3] = [1, 2]" by (simp add: upt_rec)
  then have "free_frames kmem_example = [0x401000, 0x402000]" "unat (k_frame_stack_size kmem_example) = 3"
    "pmm_inv kmem_example"
    by (simp_all add: free_frames_def kmem_example_def pmm_inv_def)
  with kfalloc_kffree_stack [of kmem_example "0x400000"] show ?thesis by simp
qed

text \<open>Loading a region of the memory map of at most two gigabytes pushes exactly the page
  frames of the region, in ascending order and one for every 4096 bytes begun, that lie in no
  protected region; frames already on the stack stay in front.\<close>

theorem add_frames_pushes:
  assumes "pmm_inv s" "regions_ok s" "unat len \<le> 2 ^ 31"
    and "unat (k_frame_stack_size s) + (unat len + 4095) div 4096 < 4294967296"
  shows "\<exists>s'. add_frames addr len 0 s = Inr s' \<and> pmm_inv s' \<and> free_frames s' = free_frames s @
      filter (unprotected s) (map (\<lambda>j. ucast (addr + of_nat (4096 * j))) [0..<(unat len + 4095) div 4096])"
  using add_frames_from [of s len addr 0] assms by (simp add: region_frames_def)

theorem add_frames_pushes_witness:
  "\<exists>s'. add_frames 0x3FF000 0x3001 0 kmem_example = Inr s' \<and> pmm_inv s'
     \<and> free_frames s' = free_frames kmem_example @ filter (unprotected kmem_example)
         (map (\<lambda>j. ucast ((0x3FF000 :: u64) + of_nat (4096 * j))) [0..<(unat (0x3001 :: u64) + 4095) div 4096])"
  by (rule add_frames_pushes) (simp_all add: pmm_inv_def regions_ok_def kmem_example_def)

text \<open>The guard of \<open>k_frame_stack_push\<close> does not see a full stack: freeing one frame too many
  moves the stack pointer below zero, and from then on \<open>kfalloc\<close> panics although every frame is
  free.\<close>

theorem kffree_on_full_stack:
  assumes "k_frame_stack_esp s = 0" "k_frame_stack_size s \<noteq> 0"
  shows "kfalloc (kffree f s) = Inl (Panic ''PMM: Out of memory'')
     \<and> length (free_frames s) = unat (k_frame_stack_size s)"
  using assms
  by (simp add: kffree_def kfalloc_def k_frame_stack_push_def k_frame_stack_pop_def free_frames_def
      Let_def word_le_nat_alt less_Suc_eq_le [symmetric])

theorem kffree_on_full_stack_witness:
  "kfalloc (kffree 0x1000 (kmem_example\<lparr>k_frame_stack_esp := 0\<rparr>)) = Inl (Panic ''PMM: Out of memory'')
     \<and> length (free_frames (kmem_example\<lparr>k_frame_stack_esp := 0\<rparr>))
         = unat (k_frame_stack_size (kmem_example\<lparr>k_frame_stack_esp := 0\<rparr>))"
  by (rule kffree_on_full_stack) (simp_all add: kmem_example_def)

text \<open>The DMA blocks are a stack of at most 16; one more push leaves the array.\<close>

lemma dma_free_alloc:
  assumes "length (dma_stack s) = 16" "unat (dma_esp s) < 16"
  shows "\<exists>s' s''. pmm_free_dma b s = Inr s' \<and> pmm_allocate_dma s' = Inr (b, s'') \<and> dma_esp s'' = dma_esp s"
proof -
  have "unat (dma_esp s + 1) = unat (dma_esp s) + 1" using assms(2) by (simp add: unat_plus1_u32)
  then have "dma_esp s + 1 \<noteq> 0" by auto
  then show ?thesis using assms by (simp add: pmm_free_dma_def pmm_allocate_dma_def Let_def)
qed

lemma dma_free_full:
  "length (dma_stack s) = 16 \<Longrightarrow> unat (dma_esp s) \<ge> 16 \<Longrightarrow> pmm_free_dma b s = Inl Wild"
  by (simp add: pmm_free_dma_def store_at_out)

end
