(* ===== verification/Paging.thy ===== *)
theory Paging
  imports Pmm
begin

text \<open>
  Paging, \<open>os/kernel/arch/i386/mem/paging.c\<close>, over a model of the i386 MMU. Physical memory is
  read and written as page frames of 1024 words: \<open>pmem f i\<close> is word \<open>i\<close> of the frame at
  address \<open>f\<close>. \<open>translate\<close> is the two-level walk of the processor from \<open>cr3\<close>; the code's own
  accesses go through it as soon as paging is on, so \<open>current_page_directory[i]\<close> or
  \<open>k_pt[i]\<close> may fault. The pointers the code indexes (directories, tables, pages) are page
  aligned. The \<open>invlpg\<close> of \<open>flush_tlb\<close> follows every store, and no stale translation is
  modelled. \<open>paging_flag\<close> stands for both the variable and the processor's paging bit, which
  \<open>init_paging\<close> sets together.
\<close>

record vmem =
  km :: kmem
  pmem :: "u32 \<Rightarrow> u32 \<Rightarrow> u32"
  cr3 :: u32
  current_page_directory :: u32
  kernel_page_directory :: u32
  table_mappings :: u32
  paging_flag :: bool

abbreviation KERNEL_PT_MAP :: u32 where "KERNEL_PT_MAP \<equiv> 0xFFC00000"

definition pd_entry :: "u32 \<Rightarrow> u8 \<Rightarrow> u32" where
  "pd_entry pte_paddr fl = (pte_paddr OR ucast fl)"

definition entry_flags :: "u32 \<Rightarrow> u8" where
  "entry_flags entry = ucast (entry AND 0xFF)"

definition address :: "u32 \<Rightarrow> u32" where
  "address entry = entry AND 0xFFFFFF00"

definition v_addr_to_pde :: "u32 \<Rightarrow> u32" where
  "v_addr_to_pde a = drop_bit 22 a"

definition v_addr_to_pte :: "u32 \<Rightarrow> u32" where
  "v_addr_to_pte a = drop_bit 12 a AND 0x03FF"

definition pt_entry :: "u32 \<Rightarrow> u8 \<Rightarrow> u32" where
  "pt_entry p_addr fl = (p_addr OR ucast fl)"

definition present :: "u32 \<Rightarrow> bool" where
  "present e \<longleftrightarrow> entry_flags e AND 1 \<noteq> 0"

text \<open>The processor's walk: present bit 0, frame address in bits 12 to 31.\<close>

definition page_of :: "u32 \<Rightarrow> u32" where
  "page_of a = a AND 0xFFFFF000"

definition translate :: "vmem \<Rightarrow> u32 \<Rightarrow> u32 option" where
  "translate s a =
     (let d = pmem s (cr3 s) (drop_bit 22 a) in
      if \<not> bit d 0 then None
      else let t = pmem s (page_of d) (drop_bit 12 a AND 0x3FF) in
           if \<not> bit t 0 then None else Some (page_of t))"

definition vframe :: "vmem \<Rightarrow> u32 \<Rightarrow> u32 res" where
  "vframe s base =
     (if paging_flag s then (case translate s base of None \<Rightarrow> Inl (Panic ''Page Fault'') | Some f \<Rightarrow> Inr f)
      else Inr base)"

definition vload :: "vmem \<Rightarrow> u32 \<Rightarrow> u32 \<Rightarrow> u32 res" where
  "vload s base i = sbind (vframe s base) (\<lambda>f. Inr (pmem s f i))"

definition pput :: "u32 \<Rightarrow> u32 \<Rightarrow> u32 \<Rightarrow> vmem \<Rightarrow> vmem" where
  "pput f i w s = s\<lparr>pmem := (pmem s)(f := (pmem s f)(i := w))\<rparr>"

definition vstore :: "u32 \<Rightarrow> u32 \<Rightarrow> u32 \<Rightarrow> vmem \<Rightarrow> vmem res" where
  "vstore base i w s = sbind (vframe s base) (\<lambda>f. Inr (pput f i w s))"

definition v_kfalloc :: "vmem \<Rightarrow> (u32 \<times> vmem) res" where
  "v_kfalloc s = sbind (kfalloc (km s)) (\<lambda>(f, k). Inr (f, s\<lparr>km := k\<rparr>))"

definition v_kffree :: "u32 \<Rightarrow> vmem \<Rightarrow> vmem" where
  "v_kffree f s = s\<lparr>km := kffree f (km s)\<rparr>"

text \<open>Where the code finds the page table of a directory entry.\<close>

definition k_pt :: "vmem \<Rightarrow> u32 \<Rightarrow> u32 \<Rightarrow> u32" where
  "k_pt s pde i_pd_entry = (if paging_flag s then KERNEL_PT_MAP + pde * 4096 else address i_pd_entry)"

definition map_page :: "u32 \<Rightarrow> u32 \<Rightarrow> u8 \<Rightarrow> vmem \<Rightarrow> vmem res" where
  "map_page p_addr v_addr fl s =
     (let pde = v_addr_to_pde v_addr; pte = v_addr_to_pte v_addr in
      if pde = 1023 then Inl (Panic ''Tried to map address to kernel mappings page table'')
      else sbind (vload s (current_page_directory s) pde) (\<lambda>e.
           sbind (if \<not> present e then
                    sbind (v_kfalloc s) (\<lambda>(f, s).
                    sbind (vstore (table_mappings s) pde (pt_entry f fl) s) (\<lambda>s.
                      vstore (current_page_directory s) pde (pd_entry f fl) s))
                  else Inr s) (\<lambda>s.
           sbind (vload s (current_page_directory s) pde) (\<lambda>e.
           sbind (vload s (k_pt s pde e) pte) (\<lambda>_.
             vstore (k_pt s pde e) pte (pt_entry p_addr fl) s)))))"

definition virtual2physical :: "vmem \<Rightarrow> u32 \<Rightarrow> u32 res" where
  "virtual2physical s v_addr =
     (let v_addr = v_addr AND 0xFFFFF000; pde = v_addr_to_pde v_addr; pte = v_addr_to_pte v_addr in
      sbind (vload s (current_page_directory s) pde) (\<lambda>e.
        if \<not> present e then Inr 0
        else sbind (vload s (k_pt s pde e) pte) (\<lambda>t.
             if present t then Inr (address t) else Inr 0)))"

definition kmpalloc :: "u32 \<Rightarrow> u32 \<Rightarrow> u8 \<Rightarrow> vmem \<Rightarrow> vmem res" where
  "kmpalloc addr frame fl s = map_page (if frame \<noteq> 0 then frame else addr) addr (if fl \<noteq> 0 then fl else 0x7) s"

definition knpalloc :: "u32 \<Rightarrow> vmem \<Rightarrow> (u32 \<times> vmem) res" where
  "knpalloc vaddr s =
     sbind (v_kfalloc s) (\<lambda>(frame, s). sbind (kmpalloc vaddr frame 0 s) (\<lambda>s. Inr (vaddr, s)))"

text \<open>Page-wise loops from one page-aligned address up to another.\<close>

definition pages :: "u32 \<Rightarrow> u32 \<Rightarrow> u32 list" where
  "pages a b = map (\<lambda>k. a + 4096 * of_nat k) [0..<(unat b - unat a + 4095) div 4096]"

fun res_fold :: "('a \<Rightarrow> 's \<Rightarrow> 's res) \<Rightarrow> 'a list \<Rightarrow> 's \<Rightarrow> 's res" where
  "res_fold f [] s = Inr s"
| "res_fold f (x # xs) s = sbind (f x s) (res_fold f xs)"

definition kralloc :: "u32 \<Rightarrow> u32 \<Rightarrow> vmem \<Rightarrow> vmem res" where
  "kralloc region_start region_end s =
     res_fold (\<lambda>i s. sbind (knpalloc i s) (\<lambda>(_, s). Inr s))
       (pages (region_start AND 0xFFFFF000) (region_end AND 0xFFFFF000)) s"

text \<open>Is a page table empty: the loops over its 1024 entries. \<open>kpfree\<close> stops at the first used one.\<close>

fun table_empty :: "vmem \<Rightarrow> u32 \<Rightarrow> nat \<Rightarrow> bool res" where
  "table_empty s base 0 = Inr True"
| "table_empty s base (Suc n) =
     sbind (vload s base (1023 - of_nat n)) (\<lambda>e. if e \<noteq> 0 then Inr False else table_empty s base n)"

text \<open>The common body of \<open>kpfree\<close> and \<open>kpfree_virtual\<close>: \<open>again\<close> is the call of \<open>kpfree\<close> on the
  page table itself, \<open>fin\<close> what happens to the frame.\<close>

definition unmap_with :: "(u32 \<Rightarrow> vmem \<Rightarrow> vmem res) \<Rightarrow> (u32 \<Rightarrow> vmem \<Rightarrow> vmem) \<Rightarrow> u32 \<Rightarrow> vmem \<Rightarrow> vmem res" where
  "unmap_with again fin v_addr s =
     (let pde = v_addr_to_pde v_addr; pte = v_addr_to_pte v_addr in
      sbind (vload s (current_page_directory s) pde) (\<lambda>e.
        if \<not> present e then Inr s
        else let kp = k_pt s pde e in
          sbind (vload s kp pte) (\<lambda>t.
            if present t then
              sbind (vstore kp pte 0 s) (\<lambda>s.
              sbind (if pde \<noteq> 1023 then
                       sbind (table_empty s kp 1024) (\<lambda>empty.
                         if empty then sbind (vstore (current_page_directory s) pde 0 s)
                                         (again (KERNEL_PT_MAP + pde * 4096))
                         else Inr s)
                     else Inr s) (\<lambda>s. Inr (fin (address t) s)))
            else Inr s)))"

text \<open>The recursive call is on an address of the last directory entry, where it does not recurse
  again.\<close>

definition kpfree :: "u32 \<Rightarrow> vmem \<Rightarrow> vmem res" where
  "kpfree = unmap_with (unmap_with (\<lambda>_ s. Inr s) v_kffree) v_kffree"

definition kpfree_virtual :: "u32 \<Rightarrow> vmem \<Rightarrow> vmem res" where
  "kpfree_virtual = unmap_with kpfree (\<lambda>_ s. s)"

definition set_page_directory :: "u32 \<Rightarrow> bool \<Rightarrow> vmem \<Rightarrow> vmem res" where
  "set_page_directory pdir phys s =
     (if pdir = 0 then Inr s
      else let s = s\<lparr>current_page_directory := pdir\<rparr> in
           sbind (if phys then Inr pdir else virtual2physical s pdir) (\<lambda>p. Inr (s\<lparr>cr3 := p\<rparr>)))"

definition validate :: "vmem \<Rightarrow> u32 \<Rightarrow> bool res" where
  "validate s p = (if p = 0 then Inr False else sbind (virtual2physical s p) (\<lambda>r. Inr (r \<noteq> 0)))"

definition init_paging :: "vmem \<Rightarrow> vmem res" where
  "init_paging s =
     sbind (v_kfalloc s) (\<lambda>(kpd, s).
     sbind (v_kfalloc (s\<lparr>kernel_page_directory := kpd\<rparr>)) (\<lambda>(tm, s).
     let s = s\<lparr>table_mappings := tm, current_page_directory := kpd\<rparr> in
     sbind (vstore kpd 1023 (pd_entry tm 0x3) s) (\<lambda>s.
     sbind (vstore tm 1023 (pt_entry tm 0x3) s) (\<lambda>s.
     sbind (kmpalloc kpd 0 0 s) (\<lambda>s.
     sbind (res_fold (\<lambda>i s. kmpalloc i 0 0 s) (pages 0 0x400000) s) (\<lambda>s.
     sbind (set_page_directory kpd True s) (\<lambda>s.
       Inr (s\<lparr>table_mappings := 0xFFFFF000, paging_flag := True\<rparr>))))))))"

definition copy_region :: "u32 \<Rightarrow> u32 \<Rightarrow> u32 \<Rightarrow> u32 \<Rightarrow> u32 \<Rightarrow> vmem \<Rightarrow> vmem res" where
  "copy_region pd1 pd2 region_start sz fin_start s =
     (let aligned_start = region_start AND 0xFFFFF000;
          aligned_end = ((region_start + sz) AND 0xFFFFF000) + 4096;
          cpd = current_page_directory s
      in sbind (res_fold (\<lambda>i s.
             sbind (set_page_directory pd1 False s) (\<lambda>s.
             sbind (virtual2physical s i) (\<lambda>frame.
             sbind (vload s i 0) (\<lambda>_.
             sbind (set_page_directory pd2 False s) (\<lambda>s.
               kmpalloc (fin_start + i - aligned_start) frame 0 s)))))
           (pages aligned_start aligned_end) s)
         (\<lambda>s. set_page_directory cpd False s))"


text \<open>Copying a page, \<open>memcpy(dst, src, 4096)\<close>, and a new address space. The heap's validity check is
  \<open>validate\<close> in the state at the time of the call.\<close>

definition copy_page :: "u32 \<Rightarrow> u32 \<Rightarrow> vmem \<Rightarrow> vmem res" where
  "copy_page dst src =
     res_fold (\<lambda>i s. sbind (vload s src (of_nat i)) (\<lambda>w. vstore dst (of_nat i) w s)) [0..<1024]"

definition v_kvalloc :: "u32 \<Rightarrow> u32 \<Rightarrow> vmem \<Rightarrow> (u32 \<times> vmem) res option" where
  "v_kvalloc sz alignment s =
     (case kvalloc (\<lambda>p. validate s p = Inr True) sz alignment (kh (km s)) of
        None \<Rightarrow> None
      | Some (Inl e) \<Rightarrow> Some (Inl e)
      | Some (Inr (p, h)) \<Rightarrow> Some (Inr (p, s\<lparr>km := (km s)\<lparr>kh := h\<rparr>\<rparr>)))"

definition user_pages :: "u32 list" where
  "user_pages = filter (\<lambda>a. \<not> (a < 0x80000000 \<or> a > 0xF0000000))
     (concat (map (\<lambda>i. map (\<lambda>j. push_bit 22 (of_nat i) OR push_bit 12 (of_nat j)) [0..<1024]) [0..<1023]))"

definition copy_page_directory :: "u32 \<Rightarrow> vmem \<Rightarrow> (u32 \<times> vmem) res option" where
  "copy_page_directory src s =
     (case v_kvalloc 4096 4096 s of
        None \<Rightarrow> None
      | Some (Inl e) \<Rightarrow> Some (Inl e)
      | Some (Inr (new_pdir, s)) \<Rightarrow>
     (case copy_page new_pdir (kernel_page_directory s) s of Inl e \<Rightarrow> Some (Inl e) | Inr s \<Rightarrow>
     (case v_kvalloc 4096 4096 s of
        None \<Rightarrow> None
      | Some (Inl e) \<Rightarrow> Some (Inl e)
      | Some (Inr (pt_map, s)) \<Rightarrow> Some (
          sbind (virtual2physical s pt_map) (\<lambda>pp.
          sbind (vstore new_pdir 1023 (pd_entry pp 0x3) s) (\<lambda>s.
          sbind (set_page_directory (kernel_page_directory s) False s) (\<lambda>s.
          sbind (copy_page pt_map 0xFFFFF000 s) (\<lambda>s.
          sbind (virtual2physical s pt_map) (\<lambda>pp.
          sbind (vstore pt_map 1023 (pt_entry pp 0x3) s) (\<lambda>s.
          sbind (set_page_directory src False s) (\<lambda>s.
          sbind (res_fold (\<lambda>addr s.
                   sbind (virtual2physical s addr) (\<lambda>real.
                     if real \<noteq> 0 then
                       sbind (set_page_directory new_pdir False s) (\<lambda>s.
                       sbind (kmpalloc addr real 0 s) (\<lambda>s.
                         set_page_directory src False s))
                     else Inr s)) user_pages s) (\<lambda>s.
            Inr (new_pdir, s)))))))))))))"

text \<open>\<open>init_kheap\<close> of \<open>kheap.c\<close>: map the heap region, set the heap pointers, create the counters.\<close>

fun create_stats :: "(u32 \<Rightarrow> bool) \<Rightarrow> (string \<times> (u32 \<Rightarrow> kheap \<Rightarrow> kheap)) list \<Rightarrow> kheap \<Rightarrow> kheap res option" where
  "create_stats v [] h = Some (Inr h)"
| "create_stats v ((name, setid) # rest) h =
     (case create_stat v (map (\<lambda>c. of_nat (of_char c)) name) 0 h of
        None \<Rightarrow> None
      | Some (Inl e) \<Rightarrow> Some (Inl e)
      | Some (Inr (i, h)) \<Rightarrow> create_stats v rest (setid i h))"

definition init_kheap :: "vmem \<Rightarrow> vmem res option" where
  "init_kheap s =
     (case kralloc KHEAP_START KHEAP_END s of
        Inl e \<Rightarrow> Some (Inl e)
      | Inr s \<Rightarrow>
          (case create_stats (\<lambda>p. validate s p = Inr True)
              [(''kheap_alloc_times'', \<lambda>i h. h\<lparr>stat_alloc := i\<rparr>),
               (''kheap_free_times'', \<lambda>i h. h\<lparr>stat_free := i\<rparr>),
               (''kheap_merges'', \<lambda>i h. h\<lparr>stat_merges := i\<rparr>),
               (''kheap_alloc_total'', \<lambda>i h. h\<lparr>stat_alloc_total := i\<rparr>),
               (''kheap_freed_total'', \<lambda>i h. h\<lparr>stat_freed_total := i\<rparr>),
               (''kheap_max_load'', \<lambda>i h. h\<lparr>stat_max_load := i\<rparr>)]
              ((kh (km s))\<lparr>heap_start := KHEAP_START, heap_start_static := KHEAP_START\<rparr>) of
             None \<Rightarrow> None
           | Some (Inl e) \<Rightarrow> Some (Inl e)
           | Some (Inr h) \<Rightarrow> Some (Inr (s\<lparr>km := (km s)\<lparr>kh := h\<lparr>max_allocation := 0\<rparr>\<rparr>\<rparr>))))"

subsection \<open>Page numbers\<close>

lemma entry_masks:
  "page_of w = w AND NOT (mask 12)" "address w = w AND NOT (mask 8)"
  "w AND 0xFFFFF000 = w AND NOT (mask 12)"
proof -
  have "(0xFFFFF000 :: u32) = NOT (mask 12)" "(0xFFFFFF00 :: u32) = NOT (mask 8)"
    by (simp_all add: mask_eq_exp_minus_1)
  then show "page_of w = w AND NOT (mask 12)" "address w = w AND NOT (mask 8)"
    "w AND 0xFFFFF000 = w AND NOT (mask 12)" by (simp_all add: page_of_def address_def)
qed

lemma present_bit: "present e \<longleftrightarrow> bit e 0"
proof -
  have "entry_flags e = ucast (take_bit 8 e)" by (simp add: entry_flags_def and_masks_u32)
  then have "bit (entry_flags e) 0 \<longleftrightarrow> bit e 0" by (simp add: bit_simps)
  moreover have "entry_flags e AND 1 \<noteq> 0 \<longleftrightarrow> bit (entry_flags e) 0"
    by (simp add: and_one_eq odd_iff_mod_2_eq_one bit_0)
  ultimately show ?thesis by (simp add: present_def)
qed

text \<open>Putting flag bits into a page-aligned address and taking them out again.\<close>

lemma page_or_flags:
  assumes "page_of p = p"
  shows "page_of (p OR ucast (fl :: u8)) = p" "bit (p OR ucast fl) 0 \<longleftrightarrow> bit fl 0"
    "address (p OR ucast fl) = p"
proof -
  have p: "\<not> bit p n" if "n < 12" for n
    using arg_cong [OF assms, of "\<lambda>w. bit w n"] that by (simp add: entry_masks bit_simps)
  have f: "\<not> bit fl n" if "\<not> n < 8" for n
    using that bit_imp_le_length [of fl n] by auto
  show "page_of (p OR ucast fl) = p" unfolding entry_masks
    by (rule bit_word_eqI) (use p f in \<open>auto simp: bit_simps\<close>)
  show "address (p OR ucast fl) = p" unfolding entry_masks
    by (rule bit_word_eqI) (use p f in \<open>auto simp: bit_simps\<close>)
  show "bit (p OR ucast fl) 0 \<longleftrightarrow> bit fl 0" using p [of 0] by (simp add: bit_simps)
qed

lemma page_of_idem [simp]: "page_of (page_of w) = page_of w"
  unfolding entry_masks by (rule bit_word_eqI) (auto simp: bit_simps)

lemma page_of_pde [simp]: "v_addr_to_pde (page_of a) = v_addr_to_pde a"
  unfolding entry_masks v_addr_to_pde_def
  by (rule bit_word_eqI) (auto simp: bit_simps dest: bit_u32_less)

lemma page_of_pte [simp]: "v_addr_to_pte (page_of a) = v_addr_to_pte a"
  unfolding entry_masks v_addr_to_pte_def and_masks_u32 by (rule bit_word_eqI) (auto simp: bit_simps)

lemma unat_pde: "unat (v_addr_to_pde a) = unat a div 4194304"
  by (simp only: v_addr_to_pde_def unat_drop_bit_eq) (simp add: drop_bit_eq_div)

lemma unat_pte: "unat (v_addr_to_pte a) = unat a div 4096 mod 1024"
  by (simp only: v_addr_to_pte_def unat_and_masks unat_drop_bit_eq) (simp add: drop_bit_eq_div)

lemma pde_less: "unat (v_addr_to_pde a) < 1024"
  unfolding unat_pde using unat_u32_less [of a] by (simp add: less_mult_imp_div_less del: unat_u32_less)

lemma pte_less: "unat (v_addr_to_pte a) < 1024"
  unfolding unat_pte by simp

text \<open>Directory and table index name a page.\<close>

lemma page_eq_iff:
  "page_of a = page_of b \<longleftrightarrow> v_addr_to_pde a = v_addr_to_pde b \<and> v_addr_to_pte a = v_addr_to_pte b"
proof -
  have "page_of a = page_of b \<longleftrightarrow> unat a div 4096 = unat b div 4096"
    unfolding entry_masks u32_eq_iff unat_and_not_mask by (simp add: minus_mod_eq_mult_div)
  moreover have "unat a div 4194304 = unat a div 4096 div 1024" for a :: u32
    by (simp add: div_mult2_eq [symmetric])
  ultimately show ?thesis unfolding u32_eq_iff unat_pde unat_pte
    by (metis div_mult_mod_eq)
qed

lemma pt_map_index:
  assumes "unat i < 1024"
  shows "v_addr_to_pde (KERNEL_PT_MAP + i * 4096) = 1023" "v_addr_to_pte (KERNEL_PT_MAP + i * 4096) = i"
proof -
  have "unat (i * 4096) = unat i * 4096" using assms by (simp add: unat_word_ariths)
  moreover have "unat (KERNEL_PT_MAP + i * 4096) = unat KERNEL_PT_MAP + unat (i * 4096)"
    by (rule unat_plus_u32) (use assms calculation in simp)
  ultimately have u: "unat (KERNEL_PT_MAP + i * 4096) = 4290772992 + unat i * 4096" by simp
  show "v_addr_to_pde (KERNEL_PT_MAP + i * 4096) = 1023"
    unfolding u32_eq_iff unat_pde u using assms by simp
  show "v_addr_to_pte (KERNEL_PT_MAP + i * 4096) = i"
  proof -
    have "(1047552 + n) mod 1024 = (1047552 mod 1024 + n) mod 1024" for n :: nat
      by (rule mod_add_left_eq [symmetric])
    then have "(1047552 + unat i) mod 1024 = unat i" using assms by simp
    then show ?thesis unfolding u32_eq_iff unat_pte u by simp
  qed
qed

lemma translate_alt:
  "translate s a =
     (let d = pmem s (cr3 s) (v_addr_to_pde a); t = pmem s (page_of d) (v_addr_to_pte a) in
      if present d \<and> present t then Some (page_of t) else None)"
  by (simp add: translate_def present_bit v_addr_to_pde_def v_addr_to_pte_def Let_def)


subsection \<open>The recursive view of the page tables\<close>

definition dirw :: "vmem \<Rightarrow> u32 \<Rightarrow> u32" where
  "dirw s i = pmem s (cr3 s) i"

definition tabs :: "vmem \<Rightarrow> u32" where
  "tabs s = page_of (dirw s 1023)"

text \<open>The active directory is reached through its own pointer; entry 1023 holds the table of tables,
  which mirrors every present directory entry; no two entries share a table and the directory is
  none of them.\<close>

definition paging_inv :: "vmem \<Rightarrow> bool" where
  "paging_inv s \<longleftrightarrow> paging_flag s \<and> table_mappings s = 0xFFFFF000
     \<and> translate s (current_page_directory s) = Some (cr3 s)
     \<and> v_addr_to_pde (current_page_directory s) \<noteq> 1023 \<and> present (dirw s 1023)
     \<and> (\<forall>i. unat i < 1024 \<longrightarrow> present (dirw s i) \<longrightarrow>
          present (pmem s (tabs s) i) \<and> page_of (pmem s (tabs s) i) = page_of (dirw s i)
          \<and> page_of (dirw s i) \<noteq> cr3 s)
     \<and> (\<forall>i j. unat i < 1024 \<longrightarrow> unat j < 1024 \<longrightarrow> present (dirw s i) \<longrightarrow> present (dirw s j) \<longrightarrow>
          page_of (dirw s i) = page_of (dirw s j) \<longrightarrow> i = j)"

lemma paging_invD:
  assumes "paging_inv s"
  shows "paging_flag s" "table_mappings s = 0xFFFFF000"
    "translate s (current_page_directory s) = Some (cr3 s)" "present (dirw s 1023)"
    "unat i < 1024 \<Longrightarrow> present (dirw s i) \<Longrightarrow> present (pmem s (tabs s) i)"
    "unat i < 1024 \<Longrightarrow> present (dirw s i) \<Longrightarrow> page_of (pmem s (tabs s) i) = page_of (dirw s i)"
    "unat i < 1024 \<Longrightarrow> present (dirw s i) \<Longrightarrow> page_of (dirw s i) \<noteq> cr3 s"
    "unat i < 1024 \<Longrightarrow> unat j < 1024 \<Longrightarrow> present (dirw s i) \<Longrightarrow> present (dirw s j) \<Longrightarrow>
       page_of (dirw s i) = page_of (dirw s j) \<Longrightarrow> i = j"
    "v_addr_to_pde (current_page_directory s) \<noteq> 1023"
  using assms unfolding paging_inv_def by blast+

lemma translate_dirw:
  "translate s a =
     (let d = dirw s (v_addr_to_pde a); t = pmem s (page_of d) (v_addr_to_pte a) in
      if present d \<and> present t then Some (page_of t) else None)"
  by (simp add: translate_alt dirw_def)

lemma cpd_access:
  assumes "paging_inv s"
  shows "vload s (current_page_directory s) i = Inr (dirw s i)"
    "vstore (current_page_directory s) i w s = Inr (pput (cr3 s) i w s)"
  using paging_invD(1,3) [OF assms] by (simp_all add: vload_def vstore_def vframe_def dirw_def)

lemma k_pt_translate:
  assumes "paging_inv s" "unat i < 1024" "present (dirw s i)"
  shows "translate s (KERNEL_PT_MAP + i * 4096) = Some (page_of (dirw s i))"
  using paging_invD [OF assms(1)] assms(2,3)
  by (simp add: translate_dirw pt_map_index Let_def tabs_def)

lemma k_pt_access:
  assumes "paging_inv s" "unat i < 1024" "present (dirw s i)"
  shows "vload s (k_pt s i e) j = Inr (pmem s (page_of (dirw s i)) j)"
    "vstore (k_pt s i e) j w s = Inr (pput (page_of (dirw s i)) j w s)"
  using paging_invD(1) [OF assms(1)] k_pt_translate [OF assms]
  by (simp_all add: vload_def vstore_def vframe_def k_pt_def)

lemma tabs_access:
  assumes "paging_inv s"
  shows "vload s (table_mappings s) j = Inr (pmem s (tabs s) j)"
    "vstore (table_mappings s) j w s = Inr (pput (tabs s) j w s)"
  using paging_invD [OF assms] k_pt_translate [OF assms, of 1023]
  by (simp_all add: vload_def vstore_def vframe_def tabs_def)

lemma pput_simps [simp]:
  "cr3 (pput f i w s) = cr3 s" "paging_flag (pput f i w s) = paging_flag s" "km (pput f i w s) = km s"
  "table_mappings (pput f i w s) = table_mappings s"
  "current_page_directory (pput f i w s) = current_page_directory s"
  "pmem (pput f i w s) g j = (if g = f \<and> j = i then w else pmem s g j)"
  by (simp_all add: pput_def)

definition entry_frame :: "u32 \<Rightarrow> u32 option" where
  "entry_frame t = (if present t then Some (page_of t) else None)"

text \<open>Writing an entry of the table of directory entry \<open>i\<close> changes one page's translation.\<close>

lemma table_put_translate:
  assumes inv: "paging_inv s" and i: "unat i < 1024" "present (dirw s i)"
  shows "translate (pput (page_of (dirw s i)) j w s) a =
      (if v_addr_to_pde a = i \<and> v_addr_to_pte a = j then entry_frame w else translate s a)"
proof -
  let ?P = "page_of (dirw s i)"
  have "?P \<noteq> cr3 s" using paging_invD(7) [OF inv i] .
  then have d: "dirw (pput ?P j w s) k = dirw s k" for k by (simp add: dirw_def)
  have "page_of (dirw s (v_addr_to_pde a)) = ?P \<longleftrightarrow> v_addr_to_pde a = i"
    if "present (dirw s (v_addr_to_pde a))"
    using paging_invD(8) [OF inv pde_less i(1) that i(2)] by auto
  then show ?thesis using i(2) by (auto simp: translate_dirw d Let_def entry_frame_def)
qed

lemma table_put_inv:
  assumes inv: "paging_inv s" and i: "unat i < 1024" "present (dirw s i)" "i \<noteq> 1023"
    and cpd: "\<not> (v_addr_to_pde (current_page_directory s) = i \<and> v_addr_to_pte (current_page_directory s) = j)"
  shows "paging_inv (pput (page_of (dirw s i)) j w s)"
proof -
  let ?P = "page_of (dirw s i)" and ?s = "pput (page_of (dirw s i)) j w s"
  have P: "?P \<noteq> cr3 s" "?P \<noteq> tabs s"
    using paging_invD(7) [OF inv i(1,2)] paging_invD(8) [OF inv i(1) _ i(2) paging_invD(4) [OF inv]] i(3)
    by (auto simp: tabs_def)
  have d: "dirw ?s k = dirw s k" "tabs ?s = tabs s" for k using P by (simp_all add: dirw_def tabs_def)
  have "translate ?s (current_page_directory s) = Some (cr3 s)"
    using table_put_translate [OF inv i(1,2), of j w "current_page_directory s"] cpd paging_invD(3) [OF inv]
    by auto
  then show ?thesis using inv P unfolding paging_inv_def d by simp
qed

text \<open>A frame that the page structures do not use.\<close>

definition fresh_frame :: "vmem \<Rightarrow> u32 \<Rightarrow> bool" where
  "fresh_frame s f \<longleftrightarrow> page_of f = f \<and> f \<noteq> cr3 s
     \<and> (\<forall>i. unat i < 1024 \<longrightarrow> present (dirw s i) \<longrightarrow> page_of (dirw s i) \<noteq> f)"

text \<open>Entering a new table.\<close>

definition enter_table :: "u32 \<Rightarrow> u32 \<Rightarrow> u8 \<Rightarrow> kmem \<Rightarrow> vmem \<Rightarrow> vmem" where
  "enter_table i f fl k s = pput (cr3 s) i (f OR ucast fl) (pput (tabs s) i (f OR ucast fl) (s\<lparr>km := k\<rparr>))"

lemma enter_table_facts:
  assumes inv: "paging_inv s" and i: "unat i < 1023" "\<not> present (dirw s i)"
    and f: "fresh_frame s f" and fl: "bit fl 0"
  shows "paging_inv (enter_table i f fl k s)" (is ?inv)
    and "present (dirw (enter_table i f fl k s) i)" "page_of (dirw (enter_table i f fl k s) i) = f"
    and "translate (enter_table i f fl k s) a =
      (if v_addr_to_pde a = i then entry_frame (pmem s f (v_addr_to_pte a))
       else if v_addr_to_pde a = 1023 \<and> v_addr_to_pte a = i then Some f
       else translate s a)"
proof -
  let ?s = "enter_table i f fl k s" and ?e = "f OR ucast fl :: u32"
  have e: "present ?e" "page_of ?e = f"
    using page_or_flags [of f fl] f fl by (auto simp: fresh_frame_def present_bit)
  have i': "unat i < 1024" "i \<noteq> 1023" using i(1) by auto
  have "unat (1023 :: u32) < 1024" by simp
  with paging_invD(4) [OF inv] f have "f \<noteq> tabs s" unfolding fresh_frame_def tabs_def by blast
  then have T: "tabs s \<noteq> cr3 s" "f \<noteq> tabs s" "f \<noteq> cr3 s"
    using paging_invD(4) [OF inv] paging_invD(7) [OF inv, of 1023] f by (simp_all add: tabs_def fresh_frame_def)
  have d: "dirw ?s j = (if j = i then ?e else dirw s j)" for j
    using T by (simp add: enter_table_def dirw_def)
  have t: "tabs ?s = tabs s" using i' by (simp add: tabs_def d)
  have m1: "pmem ?s (tabs s) j = (if j = i then ?e else pmem s (tabs s) j)" for j
    using T by (simp add: enter_table_def)
  have m2: "pmem ?s g j = pmem s g j" if "g \<noteq> tabs s" "g \<noteq> cr3 s" for g j
    using that by (simp add: enter_table_def)
  show p: "present (dirw ?s i)" "page_of (dirw ?s i) = f" using e by (simp_all add: d)
  have tr: "translate ?s a =
      (if v_addr_to_pde a = i then entry_frame (pmem s f (v_addr_to_pte a))
       else if v_addr_to_pde a = 1023 \<and> v_addr_to_pte a = i then Some f
       else translate s a)" for a
  proof (cases "v_addr_to_pde a = i \<or> \<not> present (dirw s (v_addr_to_pde a))")
    case True
    then show ?thesis using e T i' m2 [of f] paging_invD(4) [OF inv]
      by (auto simp: translate_dirw d Let_def entry_frame_def)
  next
    case False
    let ?P = "page_of (dirw s (v_addr_to_pde a))"
    have "?P \<noteq> cr3 s" using paging_invD(7) [OF inv pde_less] False by blast
    moreover have "?P = tabs s \<longleftrightarrow> v_addr_to_pde a = 1023"
      using paging_invD(8) [OF inv pde_less _ _ paging_invD(4) [OF inv]] False by (auto simp: tabs_def)
    ultimately show ?thesis using False e m1 m2
      by (cases "?P = tabs s") (simp_all add: translate_dirw d Let_def)
  qed
  then show "translate ?s a =
      (if v_addr_to_pde a = i then entry_frame (pmem s f (v_addr_to_pte a))
       else if v_addr_to_pde a = 1023 \<and> v_addr_to_pte a = i then Some f
       else translate s a)" .
  let ?c = "current_page_directory s"
  have "v_addr_to_pde ?c \<noteq> i"
    using paging_invD(3) [OF inv] i(2) by (auto simp: translate_dirw Let_def split: if_splits)
  then have "translate ?s ?c = Some (cr3 s)"
    using tr [of ?c] paging_invD(3,9) [OF inv] by simp
  moreover have "paging_flag ?s" "table_mappings ?s = 0xFFFFF000" "current_page_directory ?s = ?c" "cr3 ?s = cr3 s"
    using paging_invD(1,2) [OF inv] by (simp_all add: enter_table_def)
  ultimately show ?inv
    using paging_invD(4-9) [OF inv] e i' f T
    unfolding paging_inv_def t by (auto simp: d m1 fresh_frame_def)
qed


lemma enter_table_simps [simp]:
  "current_page_directory (enter_table i f fl k s) = current_page_directory s"
  "cr3 (enter_table i f fl k s) = cr3 s" "km (enter_table i f fl k s) = k"
  by (simp_all add: enter_table_def)

text \<open>The two stores of \<open>map\<close> that enter a new table.\<close>

lemma enter_table_run:
  assumes inv: "paging_inv s" and a: "kfalloc (km s) = Inr (f, k)"
  shows "sbind (v_kfalloc s) (\<lambda>(f, s).
           sbind (vstore (table_mappings s) i (pt_entry f fl) s) (\<lambda>s.
             vstore (current_page_directory s) i (pd_entry f fl) s)) = Inr (enter_table i f fl k s)"
proof -
  let ?s = "s\<lparr>km := k\<rparr>" and ?t = "pput (tabs s) i (pt_entry f fl) (s\<lparr>km := k\<rparr>)"
  have tr: "translate ?s = translate s" "dirw ?s = dirw s" "tabs ?s = tabs s"
    by (simp_all add: translate_def dirw_def tabs_def fun_eq_iff Let_def)
  then have inv': "paging_inv ?s" using inv by (simp add: paging_inv_def)
  have T: "tabs s \<noteq> cr3 s" using paging_invD(4) [OF inv] paging_invD(7) [OF inv, of 1023] by (simp add: tabs_def)
  have "v_addr_to_pde (current_page_directory s) \<noteq> 1023" using paging_invD(9) [OF inv] .
  then have "page_of (dirw s (v_addr_to_pde (current_page_directory s))) \<noteq> tabs s"
    if "present (dirw s (v_addr_to_pde (current_page_directory s)))"
    using paging_invD(8) [OF inv pde_less _ that paging_invD(4) [OF inv]] by (auto simp: tabs_def)
  then have "translate ?t (current_page_directory s) = translate s (current_page_directory s)"
    using T by (auto simp: translate_dirw dirw_def Let_def)
  then have "translate ?t (current_page_directory s) = Some (cr3 s)" using paging_invD(3) [OF inv] by simp
  then have "vstore (current_page_directory ?t) i w ?t = Inr (pput (cr3 s) i w ?t)" for w
    using paging_invD(1) [OF inv] by (simp add: vstore_def vframe_def)
  then show ?thesis using a tabs_access(2) [OF inv'] tr
    by (simp add: v_kfalloc_def enter_table_def pt_entry_def pd_entry_def)
qed

text \<open>\<open>map\<close> when the table is there, and when it has to be created.\<close>

lemma map_page_present:
  assumes inv: "paging_inv s" and v: "v_addr_to_pde v \<noteq> 1023" and pr: "present (dirw s (v_addr_to_pde v))"
  shows "map_page p v fl s =
    Inr (pput (page_of (dirw s (v_addr_to_pde v))) (v_addr_to_pte v) (p OR ucast fl) s)"
  using v pr by (simp add: map_page_def Let_def cpd_access [OF inv] k_pt_access [OF inv pde_less pr] pt_entry_def)

lemma map_page_absent:
  assumes inv: "paging_inv s" and v: "v_addr_to_pde v \<noteq> 1023" and pr: "\<not> present (dirw s (v_addr_to_pde v))"
    and a: "kfalloc (km s) = Inr (f, k)" and f: "fresh_frame s f" and fl: "bit fl 0"
  shows "map_page p v fl s =
    Inr (pput f (v_addr_to_pte v) (p OR ucast fl) (enter_table (v_addr_to_pde v) f fl k s))"
proof -
  let ?i = "v_addr_to_pde v" and ?s = "enter_table (v_addr_to_pde v) f fl k s"
  have i: "unat ?i < 1023"
  proof -
    have "unat ?i \<noteq> 1023" using v unfolding u32_eq_iff by simp
    then show ?thesis using pde_less [of v] by linarith
  qed
  note e = enter_table_facts [OF inv i pr f fl, of k]
  have "vload ?s (current_page_directory ?s) ?i = Inr (dirw ?s ?i)" by (rule cpd_access(1) [OF e(1)])
  then show ?thesis using v pr k_pt_access [OF e(1) pde_less e(2)] enter_table_run [OF inv a, of ?i fl] e(3)
    by (simp add: map_page_def Let_def cpd_access(1) [OF inv] pt_entry_def)
qed

subsection \<open>Properties\<close>

text \<open>\<open>map\<close> when the page table is there: one page changes, no other.\<close>

lemma map_page_existing:
  assumes inv: "paging_inv s" and v: "v_addr_to_pde v \<noteq> 1023" "page_of v \<noteq> page_of (current_page_directory s)"
    and p: "page_of p = p" and fl: "bit fl 0" and pr: "present (dirw s (v_addr_to_pde v))"
  shows "\<exists>s'. map_page p v fl s = Inr s' \<and> paging_inv s' \<and> km s' = km s
     \<and> (\<forall>a. translate s' a = (if page_of a = page_of v then Some p else translate s a))"
proof -
  note e = page_or_flags [OF p, of fl]
  let ?s' = "pput (page_of (dirw s (v_addr_to_pde v))) (v_addr_to_pte v) (p OR ucast fl) s"
  have "paging_inv ?s'"
    by (rule table_put_inv [OF inv pde_less pr v(1)]) (use v(2) page_eq_iff in metis)
  moreover have "translate ?s' a = (if page_of a = page_of v then Some p else translate s a)" for a
    using table_put_translate [OF inv pde_less pr] e fl by (simp add: page_eq_iff entry_frame_def present_bit)
  ultimately show ?thesis using map_page_present [OF inv v(1) pr] by auto
qed

text \<open>When \<open>map\<close> has to create the page table, the frame it takes for it is not cleared.\<close>

lemma map_page_new_table:
  assumes inv: "paging_inv s" and v: "v_addr_to_pde v \<noteq> 1023"
    and p: "page_of p = p" and fl: "bit fl 0" and pr: "\<not> present (dirw s (v_addr_to_pde v))"
    and a: "kfalloc (km s) = Inr (f, k)" and f: "fresh_frame s f"
  shows "\<exists>s'. map_page p v fl s = Inr s' \<and> paging_inv s' \<and> km s' = k
     \<and> (\<forall>a. translate s' a =
          (if page_of a = page_of v then Some p
           else if v_addr_to_pde a = v_addr_to_pde v then entry_frame (pmem s f (v_addr_to_pte a))
           else if v_addr_to_pde a = 1023 \<and> v_addr_to_pte a = v_addr_to_pde v then Some f
           else translate s a))"
proof -
  let ?i = "v_addr_to_pde v" and ?s = "enter_table (v_addr_to_pde v) f fl k s"
  have i: "unat ?i < 1023"
  proof -
    have "unat ?i \<noteq> 1023" using v unfolding u32_eq_iff by simp
    then show ?thesis using pde_less [of v] by linarith
  qed
  note e = enter_table_facts [OF inv i pr f fl, of k]
  let ?s' = "pput f (v_addr_to_pte v) (p OR ucast fl) ?s"
  have tr: "translate ?s' a = (if page_of a = page_of v then Some p else translate ?s a)" for a
    using table_put_translate [OF e(1) pde_less e(2)] page_or_flags [OF p, of fl] fl
    by (simp add: page_eq_iff entry_frame_def present_bit e(3))
  have c: "v_addr_to_pde (current_page_directory s) \<noteq> ?i"
    using paging_invD(3) [OF inv] pr by (auto simp: translate_dirw Let_def split: if_splits)
  then have "paging_inv ?s'"
    using table_put_inv [OF e(1) pde_less e(2) v, of "v_addr_to_pte v"] by (simp add: e(3))
  then show ?thesis using map_page_absent [OF inv v pr a f fl] tr e(4)
    by (intro exI [of _ ?s']) simp
qed

text \<open>C1: \<open>map\<close> against the processor's own walk. Under the invariant of the page structures, for a page
  that does not lie in the table of tables (directory entry 1023) and is not the one through which the current
  directory is accessed, for a page-aligned frame and flags with the present bit, and if the page table is there
  or the frame allocator has a frame that the page structures do not use, the call returns, keeps the invariant,
  and the mapped page translates to its frame. If the table was there, nothing else changes. If it had to be
  created, it is reached through the recursive map, the pages of other tables translate as before, and every other
  page of the same four megabytes translates by whatever words the frame held, since the frame is not cleared.\<close>

theorem map_page_translates:
  assumes inv: "paging_inv s" and v: "v_addr_to_pde v \<noteq> 1023" "page_of v \<noteq> page_of (current_page_directory s)"
    and p: "page_of p = p" and fl: "bit fl 0"
    and a: "present (dirw s (v_addr_to_pde v)) \<or> kfalloc (km s) = Inr (f, k) \<and> fresh_frame s f"
  shows "\<exists>s'. map_page p v fl s = Inr s' \<and> paging_inv s'
     \<and> km s' = (if present (dirw s (v_addr_to_pde v)) then km s else k)
     \<and> (\<forall>a. translate s' a =
          (if page_of a = page_of v then Some p
           else if present (dirw s (v_addr_to_pde v)) then translate s a
           else if v_addr_to_pde a = v_addr_to_pde v then entry_frame (pmem s f (v_addr_to_pte a))
           else if v_addr_to_pde a = 1023 \<and> v_addr_to_pte a = v_addr_to_pde v then Some f
           else translate s a))"
proof (cases "present (dirw s (v_addr_to_pde v))")
  case True
  with map_page_existing [OF inv v p fl] show ?thesis by (simp only: if_True simp_thms)
next
  case False
  with a map_page_new_table [OF inv v(1) p fl] show ?thesis by (simp only: if_False simp_thms)
qed

text \<open>A paged machine: directory at 0x1000 mapped at itself by the table at 0x3000, table of
  tables at 0x2000, one free frame.\<close>

definition vmem_example :: vmem where
  "vmem_example = \<lparr>km = kmem_example, pmem = (\<lambda>f i.
       if f = 0x1000 then (if i = 0 then 0x3003 else if i = 1023 then 0x2003 else 0)
       else if f = 0x2000 then (if i = 0 then 0x3003 else if i = 1023 then 0x2003 else 0)
       else if f = 0x3000 then (if i = 1 then 0x1003 else 0)
       else if f = 0x401000 then (if i = 5 then 0xBAD003 else 0) else 0),
     cr3 = 0x1000, current_page_directory = 0x1000, kernel_page_directory = 0x1000,
     table_mappings = 0xFFFFF000, paging_flag = True\<rparr>"

lemma vmem_example_dirw: "dirw vmem_example i = (if i = 0 then 0x3003 else if i = 1023 then 0x2003 else 0)"
  by (simp add: dirw_def vmem_example_def)

lemma vmem_example_inv: "paging_inv vmem_example"
proof -
  have n: "present 0x3003" "present 0x2003" "present 0x1003" "\<not> present 0"
    "page_of 0x3003 = 0x3000" "page_of 0x2003 = 0x2000" "page_of 0x1003 = 0x1000" "page_of 0 = 0"
    "v_addr_to_pde 0x1000 = 0" "v_addr_to_pte 0x1000 = 1"
    by (simp_all add: present_def entry_flags_def page_of_def v_addr_to_pde_def v_addr_to_pte_def)
  have t: "tabs vmem_example = 0x2000" by (simp add: tabs_def vmem_example_dirw n)
  show ?thesis unfolding paging_inv_def t vmem_example_dirw translate_dirw
    by (auto simp: vmem_example_def n Let_def)
qed

text \<open>The page 0x7000 has its table; for 0x800000 the table is made in the frame 0x401000, which holds old words.\<close>

theorem map_page_translates_witness:
  "(\<exists>s'. map_page 0x55000 0x7000 7 vmem_example = Inr s' \<and> paging_inv s' \<and> km s' = km vmem_example
     \<and> translate s' 0x7004 = Some 0x55000 \<and> (\<forall>a. page_of a \<noteq> 0x7000 \<longrightarrow> translate s' a = translate vmem_example a))
   \<and> (\<exists>s'. map_page 0x55000 0x800000 7 vmem_example = Inr s' \<and> paging_inv s'
     \<and> translate s' 0x800000 = Some 0x55000 \<and> translate s' 0x805000 = Some 0xBAD000)"
proof -
  obtain k where k: "kfalloc (km vmem_example) = Inr (0x401000, k)"
    by (simp add: kfalloc_def k_frame_stack_pop_def vmem_example_def kmem_example_def pmm_count_def word_le_nat_alt)
  have "fresh_frame vmem_example 0x401000"
    unfolding fresh_frame_def vmem_example_dirw
    by (simp add: page_of_def present_def entry_flags_def, simp add: vmem_example_def)
  with k have a: "P \<or> kfalloc (km vmem_example) = Inr (0x401000, k) \<and> fresh_frame vmem_example 0x401000" for P by simp
  have "current_page_directory vmem_example = 0x1000" by (simp add: vmem_example_def)
  then have c: "page_of 0x7000 \<noteq> page_of (current_page_directory vmem_example)"
    "page_of 0x800000 \<noteq> page_of (current_page_directory vmem_example)" by (simp_all add: page_of_def)
  have n: "v_addr_to_pde 0x7000 = 0" "v_addr_to_pde 0x800000 = 2" "v_addr_to_pde 0x805000 = 2" "v_addr_to_pte 0x805000 = 5"
    "page_of 0x7000 = 0x7000" "page_of 0x7004 = 0x7000" "page_of 0x800000 = 0x800000" "page_of 0x805000 = 0x805000"
    "page_of 0x55000 = 0x55000" "present 0x3003" "\<not> present 0" "present 0xBAD003" "page_of 0xBAD003 = 0xBAD000" "bit (7 :: u8) 0"
    by (simp_all add: v_addr_to_pde_def v_addr_to_pte_def page_of_def present_def entry_flags_def)
  have w: "pmem vmem_example 0x401000 5 = 0xBAD003" by (simp add: vmem_example_def)
  show ?thesis
    using map_page_translates [OF vmem_example_inv _ c(1) _ _ a, of "0x55000" 7]
      map_page_translates [OF vmem_example_inv _ c(2) _ _ a, of "0x55000" 7]
    by (auto simp: n w vmem_example_dirw entry_frame_def)
qed

text \<open>\<open>virtual2physical\<close> agrees with the processor: it returns zero exactly for what has no
  translation (or lies in frame zero), and otherwise an address in the frame the page translates
  to; \<open>validate\<close> accepts a non-null pointer exactly when that address is not zero.\<close>

theorem virtual2physical_agrees:
  assumes inv: "paging_inv s"
  shows "\<exists>r. virtual2physical s v = Inr r \<and> validate s v = Inr (v \<noteq> 0 \<and> r \<noteq> 0)
     \<and> (case translate s v of None \<Rightarrow> r = 0 | Some f \<Rightarrow> page_of r = f)"
proof -
  have a: "page_of (address t) = page_of t" for t
    unfolding entry_masks by (rule bit_word_eqI) (auto simp: bit_simps)
  have v: "v_addr_to_pde (v AND 0xFFFFF000) = v_addr_to_pde v" "v_addr_to_pte (v AND 0xFFFFF000) = v_addr_to_pte v"
    using page_of_pde [of v] page_of_pte [of v] by (simp_all add: page_of_def)
  show ?thesis
  proof (cases "present (dirw s (v_addr_to_pde v))")
    case True
    then show ?thesis
      by (simp add: virtual2physical_def validate_def v Let_def cpd_access [OF inv] k_pt_access [OF inv pde_less True]
          translate_dirw a)
  next
    case False
    then show ?thesis
      by (simp add: virtual2physical_def validate_def v Let_def cpd_access [OF inv] translate_dirw)
  qed
qed

theorem virtual2physical_agrees_witness:
  "\<exists>r. virtual2physical vmem_example 0x1234 = Inr r \<and> validate vmem_example 0x1234 = Inr (0x1234 \<noteq> (0 :: u32) \<and> r \<noteq> 0)
     \<and> (case translate vmem_example 0x1234 of None \<Rightarrow> r = 0 | Some f \<Rightarrow> page_of r = f)"
  by (rule virtual2physical_agrees [OF vmem_example_inv])

subsection \<open>Unmapping\<close>

lemma table_empty_scan:
  assumes "\<And>i. vload s base i = Inr (g i)" "n \<le> 1024"
  shows "table_empty s base n = Inr (\<forall>i. 1024 - n \<le> unat i \<and> unat i < 1024 \<longrightarrow> g i = 0)"
  using assms(2)
proof (induction n)
  case (Suc n)
  let ?j = "1023 - of_nat n :: u32"
  have "unat (of_nat n :: u32) = n" using Suc.prems by (intro unat_of_nat_u32) simp
  then have j: "unat ?j = 1023 - n" using Suc.prems by (subst unat_sub) (simp_all add: word_le_nat_alt)
  have "(\<forall>i. 1024 - Suc n \<le> unat i \<and> unat i < 1024 \<longrightarrow> g i = 0) \<longleftrightarrow>
      g ?j = 0 \<and> (\<forall>i. 1024 - n \<le> unat i \<and> unat i < 1024 \<longrightarrow> g i = 0)" (is "?L \<longleftrightarrow> ?R")
  proof
    show "?L \<Longrightarrow> ?R" using j Suc.prems by auto
    assume R: ?R
    show ?L
    proof (intro allI impI)
      fix i :: u32
      assume i: "1024 - Suc n \<le> unat i \<and> unat i < 1024"
      show "g i = 0"
      proof (cases "unat i = 1023 - n")
        case True
        then have "i = ?j" using j by (simp add: u32_eq_iff)
        with R show ?thesis by simp
      next
        case False
        with i have "1024 - n \<le> unat i" by linarith
        with R i show ?thesis by blast
      qed
    qed
  qed
  then show ?case using Suc by (simp add: assms(1))
qed auto

text \<open>Removing a directory entry, and then the table of tables' entry for it.\<close>

lemma drop_dir_facts:
  assumes inv: "paging_inv s" and i: "unat i < 1023" "v_addr_to_pde (current_page_directory s) \<noteq> i"
  defines "s' \<equiv> pput (cr3 s) i 0 s"
  shows "paging_inv s'" "dirw s' j = (if j = i then 0 else dirw s j)" "tabs s' = tabs s"
    "translate s' a = (if v_addr_to_pde a = i then None else translate s a)"
    "pmem s' (tabs s) j = pmem s (tabs s) j"
proof -
  have z: "\<not> present 0" by (simp add: present_def entry_flags_def)
  have i': "unat i < 1024" "i \<noteq> 1023" using i(1) by auto
  have T: "tabs s \<noteq> cr3 s" using paging_invD(4) [OF inv] paging_invD(7) [OF inv, of 1023] by (simp add: tabs_def)
  have d: "dirw s' j = (if j = i then 0 else dirw s j)" for j by (simp add: s'_def dirw_def)
  then show "dirw s' j = (if j = i then 0 else dirw s j)" .
  show t: "tabs s' = tabs s" using i' by (simp add: tabs_def d)
  show m: "pmem s' (tabs s) j = pmem s (tabs s) j" for j using T by (simp add: s'_def)
  have tr: "translate s' a = (if v_addr_to_pde a = i then None else translate s a)" for a
  proof (cases "v_addr_to_pde a = i \<or> \<not> present (dirw s (v_addr_to_pde a))")
    case True
    then show ?thesis using z by (auto simp: translate_dirw d Let_def)
  next
    case False
    then have "page_of (dirw s (v_addr_to_pde a)) \<noteq> cr3 s" using paging_invD(7) [OF inv pde_less] by blast
    then show ?thesis using False by (simp add: translate_dirw d Let_def) (simp add: s'_def)
  qed
  then show "translate s' a = (if v_addr_to_pde a = i then None else translate s a)" .
  have "translate s' (current_page_directory s) = Some (cr3 s)"
    using tr i(2) paging_invD(3) [OF inv] by simp
  moreover have "paging_flag s'" "table_mappings s' = 0xFFFFF000" "cr3 s' = cr3 s"
    "current_page_directory s' = current_page_directory s"
    using paging_invD(1,2) [OF inv] by (simp_all add: s'_def)
  ultimately show "paging_inv s'"
    using paging_invD(4-9) [OF inv] i' z unfolding paging_inv_def t by (auto simp: d m)
qed

lemma drop_tabs_facts:
  assumes inv: "paging_inv s" and i: "\<not> present (dirw s i)" "unat i < 1024"
  shows "paging_inv (pput (tabs s) i 0 s)"
    "v_addr_to_pde a \<noteq> 1023 \<Longrightarrow> translate (pput (tabs s) i 0 s) a = translate s a"
proof -
  let ?s = "pput (tabs s) i 0 s"
  have i': "i \<noteq> 1023" using i(1) paging_invD(4) [OF inv] by auto
  have T: "tabs s \<noteq> cr3 s" using paging_invD(4) [OF inv] paging_invD(7) [OF inv, of 1023] by (simp add: tabs_def)
  have d: "dirw ?s j = dirw s j" for j using T by (simp add: dirw_def)
  then have t: "tabs ?s = tabs s" by (simp add: tabs_def)
  have tr: "translate ?s a = translate s a" if "v_addr_to_pde a \<noteq> 1023" for a
    using table_put_translate [OF inv _ paging_invD(4) [OF inv], of i 0 a] that by (simp add: tabs_def)
  then show "v_addr_to_pde a \<noteq> 1023 \<Longrightarrow> translate ?s a = translate s a" .
  have "translate ?s (current_page_directory s) = Some (cr3 s)"
    using tr [OF paging_invD(9) [OF inv]] paging_invD(3) [OF inv] by simp
  then show "paging_inv ?s"
    using paging_invD [OF inv] i i' unfolding paging_inv_def t by (auto simp: d)
qed

definition table_rest :: "vmem \<Rightarrow> u32 \<Rightarrow> bool" where
  "table_rest s v \<longleftrightarrow> (\<forall>i. unat i < 1024 \<longrightarrow> i \<noteq> v_addr_to_pte v \<longrightarrow>
     pmem s (page_of (dirw s (v_addr_to_pde v))) i = 0)"

lemma v_kffree_simps [simp]:
  "translate (v_kffree f s) = translate s" "paging_inv (v_kffree f s) = paging_inv s"
  "km (v_kffree f s) = kffree f (km s)"
proof -
  show "km (v_kffree f s) = kffree f (km s)" by (simp add: v_kffree_def)
  show t: "translate (v_kffree f s) = translate s"
    by (simp add: fun_eq_iff translate_def v_kffree_def Let_def)
  have "dirw (v_kffree f s) = dirw s" "tabs (v_kffree f s) = tabs s"
    by (simp_all add: dirw_def tabs_def v_kffree_def fun_eq_iff)
  then show "paging_inv (v_kffree f s) = paging_inv s"
    unfolding paging_inv_def t by (simp add: v_kffree_def)
qed

text \<open>\<open>kpfree\<close> of a mapped page unmaps exactly that page and returns its frame; when it was the
  last used entry, the page table is taken out of the directory and of the table of tables and its
  frame is returned too, after which every page of the region is still unmapped. The invariant of the
  page structures is kept.\<close>

theorem kpfree_unmaps:
  assumes inv: "paging_inv s" and v: "v_addr_to_pde v \<noteq> 1023" "page_of v \<noteq> page_of (current_page_directory s)"
    and m: "translate s v \<noteq> None"
  defines "t \<equiv> pmem s (page_of (dirw s (v_addr_to_pde v))) (v_addr_to_pte v)"
    and "pt \<equiv> pmem s (tabs s) (v_addr_to_pde v)"
  shows "\<exists>s'. kpfree v s = Inr s' \<and> paging_inv s' \<and> translate s' v = None
     \<and> (\<forall>a. v_addr_to_pde a \<noteq> 1023 \<longrightarrow> page_of a \<noteq> page_of v \<longrightarrow> translate s' a = translate s a)
     \<and> km s' = (if table_rest s v then kffree (address t) (kffree (address pt) (km s)) else kffree (address t) (km s))"
proof -
  let ?i = "v_addr_to_pde v" and ?j = "v_addr_to_pte v"
  have z: "\<not> present 0" by (simp add: present_def entry_flags_def)
  have pr: "present (dirw s ?i)" "present t"
    using m by (auto simp: translate_dirw t_def Let_def split: if_splits)
  let ?P = "page_of (dirw s ?i)" and ?s1 = "pput (page_of (dirw s ?i)) ?j 0 s"
  have P: "?P \<noteq> cr3 s" using paging_invD(7) [OF inv pde_less pr(1)] .
  have inv1: "paging_inv ?s1" by (rule table_put_inv [OF inv pde_less pr(1) v(1)]) (use v(2) page_eq_iff in metis)
  have tr1: "translate ?s1 a = (if page_of a = page_of v then None else translate s a)" for a
    using table_put_translate [OF inv pde_less pr(1)] z by (simp add: page_eq_iff entry_frame_def)
  have d1: "dirw ?s1 = dirw s" using P by (simp add: dirw_def fun_eq_iff)
  have t1: "tabs ?s1 = tabs s" by (simp add: tabs_def d1)
  have PT: "?P \<noteq> tabs s"
    using paging_invD(8) [OF inv pde_less _ pr(1) paging_invD(4) [OF inv]] v(1) by (auto simp: tabs_def)
  have scan: "table_empty ?s1 (k_pt s ?i (dirw s ?i)) 1024 = Inr (table_rest s v)"
  proof -
    have "vload ?s1 (k_pt s ?i (dirw s ?i)) i = Inr (pmem ?s1 ?P i)" for i
      using k_pt_access(1) [OF inv1 pde_less, of v] pr(1) unfolding d1 by (simp add: k_pt_def)
    from table_empty_scan [OF this, of 1024] show ?thesis by (auto simp: table_rest_def)
  qed
  show ?thesis
  proof (cases "table_rest s v")
    case False
    then have "kpfree v s = Inr (v_kffree (address t) ?s1)"
      using scan pr v(1) by (simp add: kpfree_def unmap_with_def [of "unmap_with _ _"] Let_def cpd_access [OF inv]
          k_pt_access [OF inv pde_less pr(1)] t_def)
    then show ?thesis using False inv1 tr1 by (intro exI [of _ "v_kffree (address t) ?s1"]) simp
  next
    case True
    have i: "unat ?i < 1023"
    proof -
      have "unat ?i \<noteq> 1023" using v(1) unfolding u32_eq_iff by simp
      then show ?thesis using pde_less [of v] by linarith
    qed
    have c: "v_addr_to_pde (current_page_directory ?s1) \<noteq> ?i"
    proof
      let ?c = "current_page_directory s"
      assume a: "v_addr_to_pde (current_page_directory ?s1) = ?i"
      then have "v_addr_to_pte ?c \<noteq> ?j" using v(2) by (auto simp: page_eq_iff)
      then have "pmem s ?P (v_addr_to_pte ?c) = 0" using True pte_less by (simp add: table_rest_def)
      then have "translate s ?c = None" using a z by (simp add: translate_dirw Let_def)
      then show False using paging_invD(3) [OF inv] by simp
    qed
    define s2 where "s2 = pput (cr3 s) ?i 0 ?s1"
    have s2: "s2 = pput (cr3 ?s1) ?i 0 ?s1" by (simp add: s2_def)
    note f2 = drop_dir_facts [OF inv1 i c, folded s2]
    have np: "\<not> present (dirw s2 ?i)" using z by (simp add: f2(2))
    have t2: "tabs s2 = tabs s" using f2(3) t1 by simp
    note f3 = drop_tabs_facts [OF f2(1) np pde_less, unfolded t2]
    define s3 where "s3 = pput (tabs s) ?i 0 s2"
    have pt: "pmem s2 (tabs s) ?i = pt" "present pt"
      using f2(5) [of ?i] PT paging_invD(5) [OF inv pde_less pr(1)] unfolding t1 pt_def by auto
    have p1023: "present (dirw s2 1023)" using paging_invD(4) [OF f2(1)] .
    have acc: "vload s2 (k_pt s2 1023 e) j = Inr (pmem s2 (tabs s) j)"
      "vstore (k_pt s2 1023 e) j w s2 = Inr (pput (tabs s) j w s2)" for e j w
      using k_pt_access [OF f2(1) _ p1023] unfolding t2 [symmetric] by (simp_all add: tabs_def)
    have "unmap_with (\<lambda>_ s. Inr s) v_kffree (KERNEL_PT_MAP + ?i * 4096) s2 = Inr (v_kffree (address pt) s3)"
      unfolding unmap_with_def Let_def pt_map_index [OF pde_less [of v]] cpd_access(1) [OF f2(1)]
      using p1023 pt by (simp add: acc s3_def)
    then have "kpfree v s = Inr (v_kffree (address t) (v_kffree (address pt) s3))"
      using True scan pr v(1) cpd_access(2) [OF inv1, of ?i 0]
      by (simp add: kpfree_def unmap_with_def [of "unmap_with _ _"] Let_def cpd_access [OF inv]
          k_pt_access [OF inv pde_less pr(1)] t_def s2_def)
    moreover have "translate s3 a = translate s a"
      if "v_addr_to_pde a \<noteq> 1023" "page_of a \<noteq> page_of v" for a
    proof (cases "v_addr_to_pde a = ?i")
      case i': True
      then have "v_addr_to_pte a \<noteq> ?j" using that(2) by (simp add: page_eq_iff)
      then have "pmem s ?P (v_addr_to_pte a) = 0" using True pte_less by (simp add: table_rest_def)
      then have "translate s a = None" using i' z by (simp add: translate_dirw Let_def)
      then show ?thesis using i' f3(2) [OF that(1), folded s3_def] f2(4) by simp
    next
      case False
      then show ?thesis using that f3(2) [OF that(1), folded s3_def] f2(4) tr1 by simp
    qed
    moreover have "translate s3 v = None" using f3(2) [OF v(1), folded s3_def] f2(4) by simp
    ultimately show ?thesis using True f3(1) [folded s3_def]
      by (intro exI [of _ "v_kffree (address t) (v_kffree (address pt) s3)"])
        (simp, simp add: s3_def s2_def)
  qed
qed

theorem kpfree_unmaps_witness:
  "let s = pput 0x3000 7 0x55003 vmem_example; v = 0x7000;
      t = pmem s (page_of (dirw s (v_addr_to_pde v))) (v_addr_to_pte v); pt = pmem s (tabs s) (v_addr_to_pde v)
   in \<exists>s'. kpfree v s = Inr s' \<and> paging_inv s' \<and> translate s' v = None
     \<and> (\<forall>a. v_addr_to_pde a \<noteq> 1023 \<longrightarrow> page_of a \<noteq> page_of v \<longrightarrow> translate s' a = translate s a)
     \<and> km s' = (if table_rest s v then kffree (address t) (kffree (address pt) (km s)) else kffree (address t) (km s))"
proof -
  have n: "present 0x3003" "page_of 0x3003 = 0x3000" "v_addr_to_pde 0x7000 = 0" "v_addr_to_pte 0x7000 = 7"
    "v_addr_to_pde 0x1000 = 0" "v_addr_to_pte 0x1000 = 1" "current_page_directory vmem_example = 0x1000"
    by (simp_all add: present_def entry_flags_def page_of_def v_addr_to_pde_def v_addr_to_pte_def vmem_example_def)
  have p: "present (dirw vmem_example 0)" "page_of (dirw vmem_example 0) = 0x3000"
    using n by (simp_all add: vmem_example_dirw)
  let ?s = "pput 0x3000 7 0x55003 vmem_example"
  have "paging_inv ?s"
    using table_put_inv [OF vmem_example_inv _ p(1), of 7 "0x55003"] n unfolding p(2) by simp
  moreover have "translate ?s 0x7000 \<noteq> None"
    using table_put_translate [OF vmem_example_inv _ p(1), of 7 "0x55003" "0x7000"] n unfolding p(2)
    by (simp add: entry_frame_def present_def entry_flags_def)
  ultimately show ?thesis unfolding Let_def
    by (intro kpfree_unmaps) (simp_all add: n page_eq_iff)
qed

end
