(* ===== verification/Ualloc.thy ===== *)
theory Ualloc
  imports Allocator
begin

text \<open>
  The C library's allocator in user space, \<open>libc/stdlib/alloc.c\<close>: the same free list as the
  kernel's (theory Freelist), a heap that grows by pages through \<open>sys_sbrk\<close>, and a spin lock
  around every public function. A C function that may spin or loop for ever returns \<open>None\<close>.
  \<open>sbrk_calls\<close> counts the calls of \<open>sys_sbrk(4096)\<close>; the lock is seen by one thread, so a
  lock that is taken is never released while that thread spins.
\<close>

record uheap = heap +
  u_start :: u32
  u_size :: u32
  u_max :: u32
  sbrk_calls :: nat
  memory_lock :: bool
  ubytes :: "u32 \<Rightarrow> u8"

abbreviation USER_HEAP :: u32 where "USER_HEAP \<equiv> 0xD0000000"

definition VALIDATE_PTR :: "u32 \<Rightarrow> u32 \<Rightarrow> bool" where
  "VALIDATE_PTR h p \<longleftrightarrow> USER_HEAP \<le> p \<and> p \<le> USER_HEAP + h"

definition u_split :: "u32 \<Rightarrow> u32 \<Rightarrow> uheap \<Rightarrow> u32 \<times> uheap" where
  "u_split = split_block"

definition u_free_insert :: "u32 \<Rightarrow> uheap \<Rightarrow> uheap option" where
  "u_free_insert b s = free_insert (VALIDATE_PTR (u_size s)) b s"

definition u_free_remove :: "u32 \<Rightarrow> uheap \<Rightarrow> uheap" where
  "u_free_remove b s = free_remove (VALIDATE_PTR (u_size s)) b s"

definition u_free_block :: "u32 \<Rightarrow> uheap \<Rightarrow> (u32 \<times> uheap) option" where
  "u_free_block sz s = free_block (VALIDATE_PTR (u_size s)) sz s"

text \<open>The two page-wise growing loops of \<open>__unsafe_malloc\<close>.\<close>

partial_function (option) grow_while :: "(u32 \<Rightarrow> bool) \<Rightarrow> uheap \<Rightarrow> uheap option" where
  "grow_while c s =
     (if c (u_size s)
      then grow_while c (s\<lparr>u_size := u_size s + 4096, sbrk_calls := sbrk_calls s + 1\<rparr>)
      else Some s)"

definition u_extend :: "u32 \<Rightarrow> uheap \<Rightarrow> u32 \<times> uheap" where
  "u_extend sz s =
     (let nblock = u_start s;
          s = s\<lparr>u_start := u_start s + sizeof_mem_t + sz\<rparr>;
          s = upd_hdr nblock (\<lambda>h. h\<lparr>hsize := sz, guard := KHEAP_GUARD_VALUE, hprev := POISON, hnext := POISON\<rparr>) s
      in (nblock + sizeof_mem_t, s))"

definition unsafe_malloc :: "u32 \<Rightarrow> uheap \<Rightarrow> (u32 \<times> uheap) option" where
  "unsafe_malloc sz s =
     (if sz = 0 then Some (0, s)
      else Option.bind (grow_while (\<lambda>h. sz \<ge> h) s) (\<lambda>s.
           let s = (if sz > u_max s then s\<lparr>u_max := sz\<rparr> else s) in
           Option.bind (u_free_block sz s) (\<lambda>(block, s).
             if block \<noteq> 0 \<and> guard (hdrs s block) = KHEAP_GUARD_VALUE \<and> hsize (hdrs s block) = sz
             then Some (block + sizeof_mem_t, mark_used block s)
             else Option.bind (grow_while (\<lambda>h. u_start s + sizeof_mem_t + sz \<ge> USER_HEAP + h) s) (\<lambda>s.
                  Some (u_extend sz s)))))"

definition unsafe_free :: "u32 \<Rightarrow> uheap \<Rightarrow> uheap option" where
  "unsafe_free mem s =
     (if \<not> VALIDATE_PTR (u_size s) mem then Some s
      else let block = hdrs s (mem - sizeof_mem_t) in
        if guard block \<noteq> KHEAP_GUARD_VALUE \<or> hsize block > u_max s
           \<or> hnext block \<noteq> POISON \<or> hprev block \<noteq> POISON
        then Some s
        else u_free_insert (mem - sizeof_mem_t) s)"

definition u_memmove :: "u32 \<Rightarrow> u32 \<Rightarrow> u32 \<Rightarrow> uheap \<Rightarrow> uheap" where
  "u_memmove dest src n s =
     s\<lparr>ubytes := (\<lambda>a. if a - dest < n then ubytes s (src + (a - dest)) else ubytes s a)\<rparr>"

definition unsafe_realloc :: "u32 \<Rightarrow> u32 \<Rightarrow> uheap \<Rightarrow> (u32 \<times> uheap) option" where
  "unsafe_realloc ptr sz s =
     Option.bind (unsafe_malloc sz s) (\<lambda>(new_alloc, s).
       let osize = hsize (hdrs s (ptr - sizeof_mem_t));
           s = u_memmove new_alloc ptr (if osize \<ge> sz then sz else osize) s
       in Option.bind (unsafe_free ptr s) (\<lambda>s. Some (new_alloc, s)))"

definition unsafe_calloc :: "u32 \<Rightarrow> u32 \<Rightarrow> uheap \<Rightarrow> (u32 \<times> uheap) option" where
  "unsafe_calloc num sz s =
     Option.bind (unsafe_malloc (num * sz) s) (\<lambda>(ret, s).
       Some (ret, s\<lparr>ubytes := (\<lambda>a. if a - ret < num * sz then 0 else ubytes s a)\<rparr>))"

definition unsafe_valloc :: "u32 \<Rightarrow> u32 \<Rightarrow> uheap \<Rightarrow> (u32 \<times> uheap) option" where
  "unsafe_valloc sz alig s = unsafe_malloc sz s"

text \<open>\<open>lock\<close>, the body, \<open>unlock\<close>.\<close>

definition u_lock :: "uheap \<Rightarrow> uheap option" where
  "u_lock s = (if memory_lock s then None else Some (s\<lparr>memory_lock := True\<rparr>))"

definition u_unlock :: "uheap \<Rightarrow> uheap" where
  "u_unlock s = s\<lparr>memory_lock := False\<rparr>"

definition locked :: "(uheap \<Rightarrow> ('r \<times> uheap) option) \<Rightarrow> uheap \<Rightarrow> ('r \<times> uheap) option" where
  "locked f s = Option.bind (u_lock s) (\<lambda>s. Option.bind (f s) (\<lambda>(r, s). Some (r, u_unlock s)))"

definition malloc :: "u32 \<Rightarrow> uheap \<Rightarrow> (u32 \<times> uheap) option" where
  "malloc sz = locked (unsafe_malloc sz)"

definition valloc :: "u32 \<Rightarrow> u32 \<Rightarrow> uheap \<Rightarrow> (u32 \<times> uheap) option" where
  "valloc sz alig = locked (unsafe_valloc sz alig)"

definition u_free :: "u32 \<Rightarrow> uheap \<Rightarrow> uheap option" where
  "u_free mem s = map_option snd (locked (\<lambda>s. map_option (\<lambda>s. ((), s)) (unsafe_free mem s)) s)"

definition realloc :: "u32 \<Rightarrow> u32 \<Rightarrow> uheap \<Rightarrow> (u32 \<times> uheap) option" where
  "realloc ptr sz = locked (unsafe_realloc ptr sz)"

definition calloc :: "u32 \<Rightarrow> u32 \<Rightarrow> uheap \<Rightarrow> (u32 \<times> uheap) option" where
  "calloc num sz = locked (unsafe_calloc num sz)"

text \<open>\<open>fix_user_heap\<close> walks over the blocks of a copied heap to find its end.\<close>

partial_function (option) fix_user_heap :: "u32 \<Rightarrow> uheap \<Rightarrow> uheap option" where
  "fix_user_heap block s =
     (if hsize (hdrs s block) = 0 then Some s
      else let block = block + sizeof_mem_t + hsize (hdrs s block)
           in fix_user_heap block (s\<lparr>u_start := block\<rparr>))"

subsection \<open>The heap as an allocator\<close>

definition uheap_rel :: "uheap \<Rightarrow> (u32 \<rightharpoonup> u32) \<Rightarrow> bool" where
  "uheap_rel s L \<longleftrightarrow> heap_rel (VALIDATE_PTR (u_size s)) USER_HEAP (u_start s) s L
     \<and> unat (u_size s) < 0x30000000 \<and> \<not> memory_lock s
     \<and> (\<forall>p m. L p = Some m \<longrightarrow> m \<le> u_max s)"

definition u_room :: "u32 \<Rightarrow> uheap \<Rightarrow> bool" where
  "u_room sz s \<longleftrightarrow> sz \<noteq> 0 \<and> unat (u_start s) + 13 + unat sz + 8192 < 4294967296"


lemma VALIDATE_PTR_0 [simp]: "\<not> VALIDATE_PTR h 0"
  by (simp add: VALIDATE_PTR_def word_le_nat_alt)

lemma VALIDATE_PTR_nat:
  "unat h < 0x30000000 \<Longrightarrow> VALIDATE_PTR h p \<longleftrightarrow> 0xD0000000 \<le> unat p \<and> unat p \<le> 0xD0000000 + unat h"
  by (simp add: VALIDATE_PTR_def word_le_nat_alt unat_plus_u32)

text \<open>The heap grows by whole pages to the first size that satisfies the request.\<close>

lemma grow_while_ends:
  assumes c: "\<And>h. unat h < 0x30000000 \<Longrightarrow> c h \<longleftrightarrow> unat h < n" and n: "n + 4096 \<le> 0x30000000"
    and h: "unat (u_size s) < 0x30000000"
  shows "\<exists>h k. grow_while c s = Some (s\<lparr>u_size := h, sbrk_calls := k\<rparr>)
     \<and> n \<le> unat h \<and> unat (u_size s) \<le> unat h \<and> unat h < 0x30000000"
  using h
proof (induction "n - unat (u_size s)" arbitrary: s rule: less_induct)
  case less
  show ?case
  proof (cases "unat (u_size s) < n")
    case False
    then have "\<not> c (u_size s)" using c less.prems by simp
    then have "grow_while c s = Some (s\<lparr>u_size := u_size s, sbrk_calls := sbrk_calls s\<rparr>)"
      by (subst grow_while.simps) simp
    with False less.prems show ?thesis by (metis linorder_not_le order_refl)
  next
    case True
    let ?s = "s\<lparr>u_size := u_size s + 4096, sbrk_calls := sbrk_calls s + 1\<rparr>"
    have u: "unat (u_size s + 4096) = unat (u_size s) + 4096" using True n
      by (intro trans [OF unat_plus_u32]) simp_all
    have "unat (u_size ?s) < 0x30000000" "n - unat (u_size ?s) < n - unat (u_size s)"
      using u True n by simp_all
    then obtain h k where "grow_while c ?s = Some (?s\<lparr>u_size := h, sbrk_calls := k\<rparr>)"
      "n \<le> unat h" "unat (u_size ?s) \<le> unat h" "unat h < 0x30000000"
      using less.hyps [of ?s] by blast
    moreover have "grow_while c s = grow_while c ?s"
      using True c [OF less.prems] by (subst grow_while.simps) simp
    ultimately show ?thesis using u by auto
  qed
qed

lemma uheap_more_eq:
  "heap.more s1 = heap.more (s :: uheap) \<Longrightarrow> u_start s1 = u_start s \<and> u_size s1 = u_size s
     \<and> u_max s1 = u_max s \<and> memory_lock s1 = memory_lock s \<and> ubytes s1 = ubytes s"
  by (cases s, cases s1) simp

lemma mark_used_uheap [simp]:
  "u_start (mark_used b s) = u_start s" "u_size (mark_used b s) = u_size s" "u_max (mark_used b s) = u_max s"
  "memory_lock (mark_used b s) = memory_lock s" "ubytes (mark_used b s) = ubytes s"
  by (simp_all add: mark_used_def set_prev_def set_next_def upd_hdr_def)

text \<open>The relation without the lock, which the public functions hold while they work.\<close>

definition unlocked_rel :: "uheap \<Rightarrow> (u32 \<rightharpoonup> u32) \<Rightarrow> bool" where
  "unlocked_rel s L \<longleftrightarrow> heap_rel (VALIDATE_PTR (u_size s)) USER_HEAP (u_start s) s L
     \<and> unat (u_size s) < 0x30000000 \<and> (\<forall>p m. L p = Some m \<longrightarrow> m \<le> u_max s)"

lemma uheap_rel_alt: "uheap_rel s L \<longleftrightarrow> unlocked_rel s L \<and> \<not> memory_lock s"
  by (auto simp: uheap_rel_def unlocked_rel_def)

lemma unlocked_rel_lock [simp]: "unlocked_rel (s\<lparr>memory_lock := b\<rparr>) L = unlocked_rel s L"
  using heap_rel_cong [of "s\<lparr>memory_lock := b\<rparr>" s] by (simp add: unlocked_rel_def)

lemma unsafe_malloc_serves:
  assumes r: "unlocked_rel s L" and m: "u_room sz s"
  shows "\<exists>p s'. unsafe_malloc sz s = Some (p, s') \<and> L p = None \<and> unlocked_rel s' (L(p \<mapsto> sz))
     \<and> ubytes s' = ubytes s \<and> memory_lock s' = memory_lock s"
proof -
  have hr: "heap_rel (VALIDATE_PTR (u_size s)) USER_HEAP (u_start s) s L"
    and hs: "unat (u_size s) < 0x30000000" and mx: "\<And>p m. L p = Some m \<Longrightarrow> m \<le> u_max s"
    using r by (auto simp: unlocked_rel_def)
  have sz: "sz \<noteq> 0" "unat (u_start s) + 13 + unat sz + 8192 < 4294967296" using m by (auto simp: u_room_def)
  have base: "0xD0000000 \<le> unat (u_start s)" using heap_rel_base [OF hr] by simp
  obtain h1 k1 where g1: "grow_while (\<lambda>h. sz \<ge> h) s = Some (s\<lparr>u_size := h1, sbrk_calls := k1\<rparr>)"
    and h1: "unat (u_size s) \<le> unat h1" "unat h1 < 0x30000000"
    using grow_while_ends [of "\<lambda>h. sz \<ge> h" "unat sz + 1" s] sz base hs
    by (auto simp: word_le_nat_alt less_Suc_eq_le)
  define s1 where "s1 = (let s = s\<lparr>u_size := h1, sbrk_calls := k1\<rparr> in
      if sz > u_max s then s\<lparr>u_max := sz\<rparr> else s)"
  have s1: "hdrs s1 = hdrs s" "free_list s1 = free_list s" "u_start s1 = u_start s" "u_size s1 = h1"
    "ubytes s1 = ubytes s" "memory_lock s1 = memory_lock s" "u_max s \<le> u_max s1" "sz \<le> u_max s1"
    by (auto simp: s1_def Let_def)
  have hr1: "heap_rel (VALIDATE_PTR h1) USER_HEAP (u_start s) s1 L"
    using heap_rel_widen [OF hr, of "VALIDATE_PTR h1"] heap_rel_cong [of s1 s] s1 h1 hs
    by (simp add: VALIDATE_PTR_nat)
  have bound: "\<forall>p m. (L(q \<mapsto> sz)) p = Some m \<longrightarrow> m \<le> u_max s1" for q
    using mx s1(7,8) by (auto intro: order_trans)
  have run: "unsafe_malloc sz s = Option.bind (free_block (VALIDATE_PTR h1) sz s1) (\<lambda>(block, s).
             if block \<noteq> 0 \<and> guard (hdrs s block) = KHEAP_GUARD_VALUE \<and> hsize (hdrs s block) = sz
             then Some (block + sizeof_mem_t, mark_used block s)
             else Option.bind (grow_while (\<lambda>h. u_start s + sizeof_mem_t + sz \<ge> USER_HEAP + h) s) (\<lambda>s.
                  Some (u_extend sz s)))"
    using sz g1 by (simp add: unsafe_malloc_def u_free_block_def s1_def Let_def)
  have szl: "unat sz + 13 < 4294967296" using sz by linarith
  show ?thesis
    using heap_rel_take [OF hr1 sz(1) szl]
  proof (elim disjE exE conjE)
    fix x s2
    assume x: "x \<noteq> 0" "free_block (VALIDATE_PTR h1) sz s1 = Some (x, s2)"
      "hsize (hdrs s2 x) = sz" "guard (hdrs s2 x) = KHEAP_GUARD_VALUE"
      and more: "heap.more s2 = heap.more s1" and L: "L (x + 13) = None"
      and hr2: "heap_rel (VALIDATE_PTR h1) USER_HEAP (u_start s) (mark_used x s2) (L(x + 13 \<mapsto> sz))"
    have "unsafe_malloc sz s = Some (x + 13, mark_used x s2)" using x by (simp add: run)
    then show ?thesis using L hr2 h1 bound uheap_more_eq [OF more] s1
      by (intro exI [of _ "x + 13"] exI [of _ "mark_used x s2"]) (simp add: unlocked_rel_def)
  next
    assume fb: "free_block (VALIDATE_PTR h1) sz s1 = Some (0, s1)"
    let ?t = "u_start s"
    have ub: "unat (?t + 13 + sz) = unat ?t + 13 + unat sz" using sz by (simp add: unat_plus_u32)
    have c2: "?t + 13 + sz \<ge> USER_HEAP + h \<longleftrightarrow> unat h < unat ?t + 13 + unat sz - 0xD0000000 + 1"
      if "unat h < 0x30000000" for h
      using that base by (simp add: word_le_nat_alt ub unat_plus_u32) linarith
    have n2: "unat ?t + 13 + unat sz - 0xD0000000 + 1 + 4096 \<le> 0x30000000" using sz base by linarith
    have hs1: "unat (u_size s1) < 0x30000000" using h1 s1 by simp
    obtain h2 k2 where g2: "grow_while (\<lambda>h. ?t + 13 + sz \<ge> USER_HEAP + h) s1
        = Some (s1\<lparr>u_size := h2, sbrk_calls := k2\<rparr>)"
      and h2: "unat ?t + 13 + unat sz - 0xD0000000 + 1 \<le> unat h2" "unat h1 \<le> unat h2" "unat h2 < 0x30000000"
      using grow_while_ends [OF c2 n2 hs1] unfolding s1 by blast
    define s' where "s' = snd (u_extend sz (s1\<lparr>u_size := h2, sbrk_calls := k2\<rparr>))"
    have k: "unsafe_malloc sz s = Some (?t + 13, s')"
      using g2 by (simp add: run fb s'_def u_extend_def Let_def s1)
    have s': "ubytes s' = ubytes s" "u_start s' = ?t + 13 + sz" "u_size s' = h2"
      "memory_lock s' = memory_lock s" "u_max s' = u_max s1"
      by (simp_all add: s'_def u_extend_def Let_def upd_hdr_def s1)
    have hd: "hdrs s' = (hdrs s1)(?t := \<lparr>guard = KHEAP_GUARD_VALUE, hsize = sz, hprev = POISON, hnext = POISON\<rparr>)"
      and fr: "free_list s' = free_list s1"
      by (cases "hdrs s ?t"; simp add: s'_def u_extend_def Let_def upd_hdr_def s1)+
    have "L (?t + 13) = None \<and> heap_rel (VALIDATE_PTR h2) USER_HEAP (?t + 13 + sz) s' (L(?t + 13 \<mapsto> sz))"
      by (rule heap_rel_extend [OF hr1 sz(1), where W = "VALIDATE_PTR h2"])
        (use sz h1 h2 base hd fr in \<open>auto simp: VALIDATE_PTR_nat\<close>)
    then show ?thesis using k s' h2 bound s1
      by (intro exI [of _ "?t + 13"] exI [of _ s']) (simp add: unlocked_rel_def)
  qed
qed

lemma malloc_serves:
  assumes r: "uheap_rel s L" and m: "u_room sz s"
  shows "\<exists>p s'. malloc sz s = Some (p, s') \<and> L p = None \<and> uheap_rel s' (L(p \<mapsto> sz)) \<and> ubytes s' = ubytes s"
proof -
  let ?s = "s\<lparr>memory_lock := True\<rparr>"
  have "unlocked_rel ?s L" "u_room sz ?s" "\<not> memory_lock s"
    using r m by (simp_all add: uheap_rel_alt u_room_def)
  then obtain p s' where "unsafe_malloc sz ?s = Some (p, s')" "L p = None" "unlocked_rel s' (L(p \<mapsto> sz))"
    "ubytes s' = ubytes s" using unsafe_malloc_serves [of ?s L sz] by auto
  with \<open>\<not> memory_lock s\<close> show ?thesis
    by (intro exI [of _ p] exI [of _ "u_unlock s'"])
      (simp add: malloc_def locked_def u_lock_def u_unlock_def uheap_rel_alt)
qed

lemma unsafe_free_live:
  assumes r: "unlocked_rel s L" and p: "L p = Some m"
  shows "\<exists>s'. unsafe_free p s = Some s' \<and> unlocked_rel s' (L(p := None))
     \<and> ubytes s' = ubytes s \<and> memory_lock s' = memory_lock s"
proof -
  have hr: "heap_rel (VALIDATE_PTR (u_size s)) USER_HEAP (u_start s) s L"
    using r by (simp add: unlocked_rel_def)
  note hd = heap_rel_header [OF hr p]
  have "\<not> u_max s < m" unfolding not_less using r p by (auto simp: unlocked_rel_def)
  then have "unsafe_free p s = free_insert (VALIDATE_PTR (u_size s)) (p - 13) s"
    using hd by (simp add: unsafe_free_def u_free_insert_def Let_def)
  moreover obtain s' where "free_insert (VALIDATE_PTR (u_size s)) (p - 13) s = Some s'"
    "heap.more s' = heap.more s" "heap_rel (VALIDATE_PTR (u_size s)) USER_HEAP (u_start s) s' (L(p := None))"
    using heap_rel_free [OF hr p] by blast
  ultimately show ?thesis using r uheap_more_eq [of s' s] by (auto simp: unlocked_rel_def)
qed

lemma u_free_live:
  assumes r: "uheap_rel s L" and p: "L p = Some m"
  shows "\<exists>s'. u_free p s = Some s' \<and> uheap_rel s' (L(p := None)) \<and> ubytes s' = ubytes s"
proof -
  let ?s = "s\<lparr>memory_lock := True\<rparr>"
  have "unlocked_rel ?s L" "\<not> memory_lock s" using r by (simp_all add: uheap_rel_alt)
  then obtain s' where "unsafe_free p ?s = Some s'" "unlocked_rel s' (L(p := None))" "ubytes s' = ubytes s"
    using unsafe_free_live [of ?s L p m] p by auto
  with \<open>\<not> memory_lock s\<close> show ?thesis
    by (simp add: u_free_def locked_def u_lock_def u_unlock_def uheap_rel_alt)
qed

interpretation ua: deallocator uheap_rel u_room "\<lambda>sz s. map_option Inr (malloc sz s)" u_free
proof
  show "separate L" if "uheap_rel s L" for s L
    using that heap_rel_separate by (auto simp: uheap_rel_def)
  show "\<exists>p s'. map_option Inr (malloc sz s) = Some (Inr (p, s')) \<and> L p = None \<and> uheap_rel s' (L(p \<mapsto> sz))"
    if "uheap_rel s L" "u_room sz s" for s L sz
    using malloc_serves [OF that] by auto
  show "\<exists>s'. u_free p s = Some s' \<and> uheap_rel s' (L(p := None))" if "uheap_rel s L" "L p = Some m" for s L p m
    using u_free_live [OF that] by blast
qed


text \<open>A block on the free list does not carry the pattern of an allocated one.\<close>

lemma dseg_prev: "dseg V h prv p xs l q \<Longrightarrow> x \<in> set xs \<Longrightarrow> hprev (h x) = prv \<or> V (hprev (h x))"
proof (induction xs arbitrary: prv p)
  case (Cons y ys)
  then show ?case by (metis dseg.simps(2) set_ConsD)
qed simp

lemma u_free_marks:
  assumes r: "uheap_rel s L" and p: "L p = Some m" and f: "u_free p s = Some s'"
  shows "hprev (hdrs s' (p - 13)) \<noteq> POISON"
proof -
  let ?s = "s\<lparr>memory_lock := True\<rparr>" and ?V = "VALIDATE_PTR (u_size s)"
  have u: "unlocked_rel ?s L" and nl: "\<not> memory_lock s" using r by (simp_all add: uheap_rel_alt)
  then have hr: "heap_rel ?V USER_HEAP (u_start s) ?s L" by (simp add: unlocked_rel_def)
  then obtain bs xs where l: "layout ?V USER_HEAP (u_start s) ?s bs xs" and L: "L = live_map ?s bs xs"
    by (auto simp: heap_rel_def)
  have fl: "fl_ok ?V ?s xs" and b: "p - 13 \<notin> set xs"
    using l p by (auto simp: layout_def L live_map_def split: if_splits)
  note hd = heap_rel_header [OF hr p]
  obtain t where t: "free_insert ?V (p - 13) ?s = Some t" "fl_ok ?V t (insort (p - 13) xs)"
    using free_insert_ok [OF fl hd(5) b] by blast
  have "\<not> u_max s < m" unfolding not_less using r p by (auto simp: uheap_rel_def)
  then have "unsafe_free p ?s = Some t"
    using hd t(1) by (simp add: unsafe_free_def u_free_insert_def Let_def)
  then have s': "s' = u_unlock t" using f nl by (simp add: u_free_def locked_def u_lock_def)
  obtain k where "dseg ?V (hdrs t) 0 (free_list t) (insort (p - 13) xs) k 0"
    using t(2) by (auto simp: fl_ok_def)
  from dseg_prev [OF this, of "p - 13"] have "hprev (hdrs t (p - 13)) = 0 \<or> ?V (hprev (hdrs t (p - 13)))"
    by (simp add: set_insort_key)
  moreover have "\<not> ?V POISON" by (simp add: VALIDATE_PTR_def word_le_nat_alt)
  ultimately show ?thesis by (auto simp: s' u_unlock_def)
qed

definition uheap_fresh :: uheap where
  "uheap_fresh = \<lparr>free_list = 0, hdrs = (\<lambda>_. \<lparr>guard = 0, hsize = 0, hprev = 0, hnext = 0\<rparr>),
     u_start = USER_HEAP, u_size = 0x40000, u_max = 0, sbrk_calls = 0, memory_lock = False, ubytes = (\<lambda>_. 7)\<rparr>"

lemma uheap_fresh_rel: "uheap_rel uheap_fresh Map.empty"
proof -
  have "layout (VALIDATE_PTR 0x40000) USER_HEAP USER_HEAP uheap_fresh [] []"
    by (auto simp: layout_def fl_ok_def uheap_fresh_def VALIDATE_PTR_nat)
  moreover have "live_map uheap_fresh [] [] = Map.empty" by (simp add: live_map_def fun_eq_iff)
  ultimately have "heap_rel (VALIDATE_PTR 0x40000) USER_HEAP USER_HEAP uheap_fresh Map.empty"
    unfolding heap_rel_def by metis
  then show ?thesis by (simp add: uheap_rel_def) (simp add: uheap_fresh_def)
qed

lemma uheap_fresh_room: "sz \<noteq> 0 \<Longrightarrow> unat sz < 0x20000000 \<Longrightarrow> u_room sz uheap_fresh"
  by (simp add: u_room_def uheap_fresh_def)

lemma uheap_fresh_malloc:
  "malloc 24 uheap_fresh =
     Some (USER_HEAP + 13, u_unlock (snd (u_extend 24 (uheap_fresh\<lparr>memory_lock := True, u_max := 24\<rparr>))))"
proof -
  have g: "grow_while c s = Some s" if "\<not> c (u_size s)" for c s
    using that by (subst grow_while.simps) simp
  show ?thesis
    by (simp add: malloc_def locked_def u_lock_def unsafe_malloc_def g uheap_fresh_def u_free_block_def
        free_block_def u_extend_def Let_def)
qed

lemma u_extend_start [simp]: "u_start (snd (u_extend sz s)) = u_start s + 13 + sz"
  by (simp add: u_extend_def Let_def upd_hdr_def)

lemma uheap_fresh_start [simp]: "u_start uheap_fresh = USER_HEAP"
  by (simp add: uheap_fresh_def)

subsection \<open>Properties\<close>

text \<open>C3: User-space \<open>malloc\<close>, with room below the top of the address space, ends (both page loops
  end) with a fresh block of the requested size that overlaps no live allocation, whether it
  comes from the free list (exact or split) or from the end of the heap; \<open>free\<close> of that block
  restores exactly the allocations that were live before.\<close>

theorem malloc_free_restores:
  assumes "uheap_rel s L" "u_room sz s"
  shows "\<exists>p s' s''. malloc sz s = Some (p, s') \<and> uheap_rel s' (L(p \<mapsto> sz)) \<and> separate (L(p \<mapsto> sz))
     \<and> L p = None \<and> u_free p s' = Some s'' \<and> uheap_rel s'' L \<and> ubytes s'' = ubytes s"
proof -
  obtain p s' where a: "malloc sz s = Some (p, s')" "L p = None" "uheap_rel s' (L(p \<mapsto> sz))"
    "ubytes s' = ubytes s" using malloc_serves [OF assms] by blast
  then obtain s'' where "u_free p s' = Some s''" "uheap_rel s'' ((L(p \<mapsto> sz))(p := None))"
    "ubytes s'' = ubytes s" using u_free_live [of s' "L(p \<mapsto> sz)" p sz] by auto
  moreover have "(L(p \<mapsto> sz))(p := None) = L" using a(2) by auto
  ultimately show ?thesis using a ua.rel_separate [OF a(3)] by auto
qed

theorem malloc_free_restores_witness:
  "\<exists>p s' s''. malloc 0x50000 uheap_fresh = Some (p, s') \<and> uheap_rel s' [p \<mapsto> 0x50000] \<and> separate [p \<mapsto> 0x50000]
     \<and> u_free p s' = Some s'' \<and> uheap_rel s'' Map.empty \<and> ubytes s'' = ubytes uheap_fresh"
  using malloc_free_restores [OF uheap_fresh_rel uheap_fresh_room, of "0x50000"] by auto

text \<open>Freeing a live allocation twice is the same as freeing it once: the second call finds
  list links where an allocated block has its pattern, and does nothing.\<close>

theorem free_twice:
  assumes r: "uheap_rel s L" and p: "L p = Some m"
  shows "\<exists>s'. u_free p s = Some s' \<and> uheap_rel s' (L(p := None)) \<and> u_free p s' = Some s'"
proof -
  obtain s' where s': "u_free p s = Some s'" "uheap_rel s' (L(p := None))"
    using u_free_live [OF r p] by blast
  then have "\<not> memory_lock s'" by (simp add: uheap_rel_def)
  then have "u_free p s' = Some s'"
    using u_free_marks [OF r p s'(1)]
    by (simp add: u_free_def locked_def u_lock_def u_unlock_def unsafe_free_def Let_def)
  with s' show ?thesis by blast
qed

theorem free_twice_witness:
  "\<exists>p t. malloc 24 uheap_fresh = Some (p, t) \<and>
    (\<exists>s'. u_free p t = Some s' \<and> uheap_rel s' ([p \<mapsto> 24](p := None)) \<and> u_free p s' = Some s')"
proof -
  obtain p t where t: "malloc 24 uheap_fresh = Some (p, t)" "uheap_rel t [p \<mapsto> 24]"
    using malloc_serves [OF uheap_fresh_rel uheap_fresh_room, of 24] by auto
  from free_twice [OF t(2), of p, OF fun_upd_same] t(1) show ?thesis by blast
qed

text \<open>\<open>realloc\<close> of a live allocation moves it: the first bytes, up to the smaller of the two
  sizes, are carried over, the new block is live and the old one is not.\<close>

theorem realloc_moves:
  assumes r: "uheap_rel s L" and m: "u_room sz s" and l: "L ptr = Some osize"
  shows "\<exists>p s'. realloc ptr sz s = Some (p, s') \<and> L p = None
     \<and> uheap_rel s' (L(p \<mapsto> sz, ptr := None))
     \<and> (\<forall>i < min osize sz. ubytes s' (p + i) = ubytes s (ptr + i))"
proof -
  let ?s = "s\<lparr>memory_lock := True\<rparr>"
  have u: "unlocked_rel ?s L" "u_room sz ?s" "\<not> memory_lock s"
    using r m by (simp_all add: uheap_rel_alt u_room_def)
  then obtain p s1 where a: "unsafe_malloc sz ?s = Some (p, s1)" "L p = None"
    "unlocked_rel s1 (L(p \<mapsto> sz))" "ubytes s1 = ubytes s" "memory_lock s1"
    using unsafe_malloc_serves [of ?s L sz] by auto
  have lp: "(L(p \<mapsto> sz)) ptr = Some osize" using l a(2) by auto
  have os: "hsize (hdrs s1 (ptr - 13)) = osize"
    using heap_rel_header(2) a(3) lp unfolding unlocked_rel_def by blast
  define s2 where "s2 = u_memmove p ptr (min osize sz) s1"
  have "unlocked_rel s2 (L(p \<mapsto> sz))"
    using a(3) heap_rel_cong [of s2 s1] by (simp add: unlocked_rel_def s2_def u_memmove_def)
  then obtain s3 where s3: "unsafe_free ptr s2 = Some s3" "unlocked_rel s3 (L(p \<mapsto> sz, ptr := None))"
    "ubytes s3 = ubytes s2" using unsafe_free_live lp by blast
  have mn: "(if sz \<le> osize then sz else osize) = min osize sz" by (auto simp: min_def)
  have "unsafe_realloc ptr sz ?s = Some (p, s3)"
    using a(1) s3(1) unfolding s2_def mn [symmetric]
    by (simp add: unsafe_realloc_def os Let_def split: if_splits)
  then have "realloc ptr sz s = Some (p, u_unlock s3)"
    using u(3) by (simp add: realloc_def locked_def u_lock_def)
  then show ?thesis using s3 a(2,4)
    by (simp add: u_unlock_def uheap_rel_alt s2_def u_memmove_def)
qed

theorem realloc_moves_witness:
  "\<exists>q t. malloc 24 uheap_fresh = Some (q, t) \<and>
    (\<exists>p s'. realloc q 100 t = Some (p, s') \<and> [q \<mapsto> (24 :: u32)] p = None
     \<and> uheap_rel s' ([q \<mapsto> 24](p \<mapsto> 100, q := None))
     \<and> (\<forall>i < min 24 100. ubytes s' (p + i) = ubytes t (q + i)))"
proof -
  obtain q t where t: "malloc 24 uheap_fresh = Some (q, t)" "uheap_rel t [q \<mapsto> 24]"
    using malloc_serves [OF uheap_fresh_rel uheap_fresh_room, of 24] by auto
  have "u_room 100 t"
    using t(1) unfolding uheap_fresh_malloc by (auto simp: u_room_def u_unlock_def)
  from realloc_moves [OF t(2) this, of q 24, OF fun_upd_same] t(1) show ?thesis by blast
qed

text \<open>\<open>calloc\<close> returns a fresh block of \<open>num * size\<close> bytes, a product taken modulo 2 to the
  32, all of them zero.\<close>

theorem calloc_zeroes:
  assumes r: "uheap_rel s L" and m: "u_room (num * sz) s"
  shows "\<exists>p s'. calloc num sz s = Some (p, s') \<and> L p = None \<and> uheap_rel s' (L(p \<mapsto> num * sz))
     \<and> (\<forall>i < num * sz. ubytes s' (p + i) = 0)"
proof -
  let ?s = "s\<lparr>memory_lock := True\<rparr>"
  have u: "unlocked_rel ?s L" "u_room (num * sz) ?s" "\<not> memory_lock s"
    using r m by (simp_all add: uheap_rel_alt u_room_def)
  then obtain p s1 where a: "unsafe_malloc (num * sz) ?s = Some (p, s1)" "L p = None"
    "unlocked_rel s1 (L(p \<mapsto> num * sz))"
    using unsafe_malloc_serves [of ?s L "num * sz"] by auto
  let ?s' = "u_unlock (s1\<lparr>ubytes := (\<lambda>a. if a - p < num * sz then 0 else ubytes s1 a)\<rparr>)"
  have "calloc num sz s = Some (p, ?s')"
    using a(1) u(3) by (simp add: calloc_def locked_def u_lock_def unsafe_calloc_def)
  moreover have "uheap_rel ?s' (L(p \<mapsto> num * sz))"
    using a(3) heap_rel_cong [of ?s' s1] by (simp add: u_unlock_def uheap_rel_alt unlocked_rel_def)
  ultimately show ?thesis using a(2) by (simp add: u_unlock_def)
qed

theorem calloc_zeroes_witness:
  "\<exists>p s'. calloc 0x80000001 4 uheap_fresh = Some (p, s') \<and> uheap_rel s' [p \<mapsto> 0x80000001 * 4]
     \<and> (\<forall>i < 0x80000001 * 4. ubytes s' (p + i) = 0)"
  using calloc_zeroes [OF uheap_fresh_rel, of "0x80000001" 4] uheap_fresh_room [of "0x80000001 * 4"] by simp

end
