(* ===== verification/Pipe.thy ===== *)
theory Pipe
  imports Fifo
begin

text \<open>
  Pipes, \<open>os/kernel/fs/pipe.c\<close>: a byte ring with a read and a write pointer, of which one
  byte always stays free, and the array of processes waiting for data. Spin locks are
  \<open>proc/sync.c\<close>: taking a lock that is held spins, which is \<open>None\<close>. The functions act on the
  \<open>pipe_info_t\<close> behind \<open>node->inode\<close>; \<open>v\<close> is \<open>validate\<close> of theory Paging, and \<open>node\<close>,
  \<open>info\<close> are the addresses it is asked about. \<open>mem0\<close> stands for the bytes a fresh heap block
  happens to hold. Writing returns the waiters it notifies (\<open>process_fswait_notify\<close> of
  theory Proc) in the order of the calls; what that does to a process is modelled there, what it does to the
  pipe here: a process that waits for the pipe is taken out of the array.
\<close>

record pipe_info =
  buffer :: "u8 list"
  psize :: u32
  write_ptr :: u32
  read_ptr :: u32
  waiters :: "u32 list option"
  waiters_cnt :: u32
  lock :: bool

definition lock_spin :: "bool \<Rightarrow> bool option" where
  "lock_spin mutex = (if mutex then None else Some True)"

definition unlock_spin :: "bool \<Rightarrow> bool" where
  "unlock_spin mutex = False"

definition pipe_unread :: "pipe_info \<Rightarrow> u32" where
  "pipe_unread p =
     (if read_ptr p = write_ptr p then 0
      else if read_ptr p > write_ptr p then (psize p - read_ptr p) + write_ptr p
      else write_ptr p - read_ptr p)"

definition pipe_available :: "pipe_info \<Rightarrow> u32" where
  "pipe_available p =
     (if read_ptr p = write_ptr p then psize p - 1
      else if read_ptr p > write_ptr p then read_ptr p - write_ptr p - 1
      else (psize p - write_ptr p) + read_ptr p - 1)"

text \<open>One round of the reading and of the writing loop.\<close>

definition pipe_get :: "pipe_info \<Rightarrow> (u8 \<times> pipe_info) res" where
  "pipe_get p =
     sbind (load_at (buffer p) (unat (read_ptr p))) (\<lambda>b.
       let r = read_ptr p + 1 in Inr (b, p\<lparr>read_ptr := (if r = psize p then 0 else r)\<rparr>))"

definition pipe_put :: "pipe_info \<Rightarrow> u8 \<Rightarrow> pipe_info res" where
  "pipe_put p b =
     sbind (store_at (buffer p) (unat (write_ptr p)) b) (\<lambda>bs.
       let w = write_ptr p + 1 in Inr (p\<lparr>buffer := bs, write_ptr := (if w = psize p then 0 else w)\<rparr>))"

fun pipe_read_loop :: "nat \<Rightarrow> pipe_info \<Rightarrow> (u8 list \<times> pipe_info) res" where
  "pipe_read_loop 0 p = Inr ([], p)"
| "pipe_read_loop (Suc n) p =
     (if pipe_unread p = 0 then Inr ([], p)
      else sbind (pipe_get p) (\<lambda>(b, p). sbind (pipe_read_loop n p) (\<lambda>(bs, p). Inr (b # bs, p))))"

fun pipe_write_loop :: "u8 list \<Rightarrow> pipe_info \<Rightarrow> (nat \<times> pipe_info) res" where
  "pipe_write_loop [] p = Inr (0, p)"
| "pipe_write_loop (b # bs) p =
     (if pipe_available p = 0 then Inr (0, p)
      else sbind (pipe_put p b) (\<lambda>p. sbind (pipe_write_loop bs p) (\<lambda>(n, p). Inr (Suc n, p))))"

text \<open>The bytes read, with their number.\<close>

definition pipe_read :: "u32 \<Rightarrow> pipe_info \<Rightarrow> (u8 list \<times> u32 \<times> pipe_info) res option" where
  "pipe_read sz p =
     (case lock_spin (lock p) of
        None \<Rightarrow> None
      | Some l \<Rightarrow> Some (sbind (pipe_read_loop (unat sz) (p\<lparr>lock := l\<rparr>)) (\<lambda>(bs, p).
          Inr (bs, of_nat (length bs), p\<lparr>lock := unlock_spin (lock p)\<rparr>))))"

text \<open>The first slot with a pointer that does not satisfy \<open>v\<close>, in the used part of the array.\<close>

fun free_slot :: "(u32 \<Rightarrow> bool) \<Rightarrow> u32 list \<Rightarrow> nat \<Rightarrow> nat \<Rightarrow> nat option res" where
  "free_slot v ws i 0 = Inr None"
| "free_slot v ws i (Suc n) =
     sbind (load_at ws i) (\<lambda>w. if \<not> v w then Inr (Some i) else free_slot v ws (i + 1) n)"

definition pipe_remove_waiter :: "(u32 \<Rightarrow> bool) \<Rightarrow> u32 \<Rightarrow> u32 \<Rightarrow> u32 \<Rightarrow> pipe_info \<Rightarrow> pipe_info res" where
  "pipe_remove_waiter v node info waiter p =
     (if \<not> v node \<or> \<not> v info then Inr p
      else case waiters p of
        None \<Rightarrow> Inr p
      | Some ws \<Rightarrow>
          sbind (free_slot (\<lambda>w. w \<noteq> waiter) ws 0 (unat (waiters_cnt p))) (\<lambda>slot.
            case slot of None \<Rightarrow> Inr p | Some i \<Rightarrow> Inr (p\<lparr>waiters := Some (ws[i := 0])\<rparr>)))"

text \<open>Notifying a waiter, as far as the pipe is concerned. \<open>awaits w\<close> is the number of valid nodes with this \<open>inode\<close>
  among those that process \<open>w\<close> waits for (zero if it waits for none): if there is one, \<open>process_fswait_awake\<close> removes
  the process from the pipe once for each, and then it waits no more.\<close>

fun remove_times :: "(u32 \<Rightarrow> bool) \<Rightarrow> u32 \<Rightarrow> u32 \<Rightarrow> u32 \<Rightarrow> nat \<Rightarrow> pipe_info \<Rightarrow> pipe_info res" where
  "remove_times v node info waiter 0 p = Inr p"
| "remove_times v node info waiter (Suc k) p =
     sbind (pipe_remove_waiter v node info waiter p) (remove_times v node info waiter k)"

definition waiter_list :: "pipe_info \<Rightarrow> u32 list" where
  "waiter_list p = (case waiters p of None \<Rightarrow> [] | Some ws \<Rightarrow> ws)"

fun notify_from :: "(u32 \<Rightarrow> bool) \<Rightarrow> u32 \<Rightarrow> u32 \<Rightarrow> nat \<Rightarrow> nat \<Rightarrow> (u32 \<Rightarrow> nat) \<Rightarrow> pipe_info \<Rightarrow> (u32 list \<times> pipe_info) res" where
  "notify_from v node info i 0 awaits p = Inr ([], p)"
| "notify_from v node info i (Suc n) awaits p =
     sbind (load_at (waiter_list p) i) (\<lambda>w.
       if v w then
         sbind (remove_times v node info w (awaits w) p) (\<lambda>p.
         sbind (notify_from v node info (i + 1) n (awaits(w := 0)) p) (\<lambda>(r, p). Inr (w # r, p)))
       else notify_from v node info (i + 1) n awaits p)"

definition pipe_notify_waiters :: "(u32 \<Rightarrow> bool) \<Rightarrow> u32 \<Rightarrow> u32 \<Rightarrow> (u32 \<Rightarrow> nat) \<Rightarrow> pipe_info \<Rightarrow> (u32 list \<times> pipe_info) res" where
  "pipe_notify_waiters v node info awaits p = notify_from v node info 0 (unat (waiters_cnt p)) awaits p"

definition pipe_write :: "(u32 \<Rightarrow> bool) \<Rightarrow> u32 \<Rightarrow> u32 \<Rightarrow> (u32 \<Rightarrow> nat) \<Rightarrow> u8 list \<Rightarrow> pipe_info
    \<Rightarrow> (u32 \<times> u32 list \<times> pipe_info) res option" where
  "pipe_write v node info awaits data p =
     (if \<not> v node then Some (Inr (0, [], p))
      else if \<not> v info then Some (Inr (0, [], p))
      else case lock_spin (lock p) of
        None \<Rightarrow> None
      | Some l \<Rightarrow> Some (
          sbind (pipe_write_loop data (p\<lparr>lock := l\<rparr>)) (\<lambda>(n, p).
          sbind (if n \<noteq> 0 then pipe_notify_waiters v node info awaits p else Inr ([], p)) (\<lambda>(ws, p).
            Inr (of_nat n, ws, p\<lparr>lock := unlock_spin (lock p)\<rparr>)))))"

definition pipe_add_waiter :: "(u32 \<Rightarrow> bool) \<Rightarrow> u32 \<Rightarrow> u32 \<Rightarrow> u32 \<Rightarrow> pipe_info \<Rightarrow> pipe_info res" where
  "pipe_add_waiter v node info waiter p =
     (if \<not> v node \<or> \<not> v info then Inr p
      else sbind (case waiters p of None \<Rightarrow> Inr None
                  | Some ws \<Rightarrow> free_slot v ws 0 (unat (waiters_cnt p))) (\<lambda>slot.
        case slot of
          Some i \<Rightarrow> Inr (p\<lparr>waiters := map_option (\<lambda>ws. ws[i := waiter]) (waiters p)\<rparr>)
        | None \<Rightarrow>
            let cnt = waiters_cnt p + 1 in
            if cnt = 1 then Inr (p\<lparr>waiters_cnt := cnt, waiters := Some [waiter]\<rparr>)
            else (case waiters p of
                    None \<Rightarrow> Inl Wild
                  | Some ws \<Rightarrow> Inr (p\<lparr>waiters_cnt := cnt, waiters := Some (take (unat cnt - 1) ws @ [waiter])\<rparr>))))"

definition mount_pipe :: "u8 list \<Rightarrow> pipe_info" where
  "mount_pipe mem0 = \<lparr>buffer = mem0, psize = 128, write_ptr = 0, read_ptr = 0, waiters = None,
     waiters_cnt = 0, lock = False\<rparr>"

definition pipe_create :: "u32 \<Rightarrow> pipe_info \<Rightarrow> pipe_info" where
  "pipe_create buffer_size p =
     p\<lparr>buffer := replicate (unat buffer_size) 0, psize := buffer_size, lock := False, waiters_cnt := 0\<rparr>"

text \<open>\<open>PIPE_IOCTL_RESIZE\<close> passes the new size where \<open>krealloc\<close> expects the old buffer; that is
  no heap address, so a fresh block is taken and the pointers stay. \<open>PIPE_IOCTL_CREATE\<close> acts on the
  information of the pipe it mounts.\<close>

definition pipe_ioctl_resize :: "u8 list \<Rightarrow> u32 \<Rightarrow> pipe_info \<Rightarrow> pipe_info" where
  "pipe_ioctl_resize mem0 new_size p = p\<lparr>psize := new_size, buffer := mem0\<rparr>"

definition pipe_ioctl_clear :: "pipe_info \<Rightarrow> pipe_info" where
  "pipe_ioctl_clear p =
     p\<lparr>write_ptr := 0, read_ptr := 0, buffer := replicate (unat (psize p)) 0 @ drop (unat (psize p)) (buffer p)\<rparr>"

definition pipe_ioctl_create :: "u32 \<Rightarrow> pipe_info \<Rightarrow> pipe_info" where
  "pipe_ioctl_create sz p =
     p\<lparr>psize := sz, write_ptr := 0, read_ptr := 0, waiters_cnt := 0, buffer := replicate (unat sz) 0\<rparr>"

subsection \<open>The pipe as a bounded first-in first-out buffer\<close>

definition pipe_inv :: "pipe_info \<Rightarrow> bool" where
  "pipe_inv p \<longleftrightarrow> length (buffer p) = unat (psize p)
     \<and> unat (read_ptr p) < unat (psize p) \<and> unat (write_ptr p) < unat (psize p)"

definition pipe_count :: "pipe_info \<Rightarrow> nat" where
  "pipe_count p = (unat (write_ptr p) + unat (psize p) - unat (read_ptr p)) mod unat (psize p)"

definition pipe_contents :: "pipe_info \<Rightarrow> u8 list" where
  "pipe_contents p = ring (buffer p) (unat (read_ptr p)) (pipe_count p)"

definition pipe_capacity :: "pipe_info \<Rightarrow> nat" where
  "pipe_capacity p = unat (psize p) - 1"

lemma pipe_count_cases:
  "pipe_inv p \<Longrightarrow> pipe_count p = (if unat (read_ptr p) \<le> unat (write_ptr p)
     then unat (write_ptr p) - unat (read_ptr p)
     else unat (psize p) - unat (read_ptr p) + unat (write_ptr p))"
  by (auto simp: pipe_inv_def pipe_count_def mod_if)

lemma pipe_count_less: "pipe_inv p \<Longrightarrow> pipe_count p < unat (psize p)"
  by (simp add: pipe_count_def pipe_inv_def)

lemma unat_sub_u32: "unat b \<le> unat a \<Longrightarrow> unat ((a :: u32) - b) = unat a - unat b"
  by (rule unat_sub) (simp add: word_le_nat_alt)

lemma unat_pipe_unread:
  assumes "pipe_inv p"
  shows "unat (pipe_unread p) = pipe_count p"
proof (cases "unat (read_ptr p) \<le> unat (write_ptr p)")
  case True
  then show ?thesis
    using unat_sub_u32 [OF True] pipe_count_cases [OF assms]
    by (auto simp: pipe_unread_def word_less_nat_alt)
next
  case False
  have "unat (psize p - read_ptr p) = unat (psize p) - unat (read_ptr p)"
    using assms by (intro unat_sub_u32) (simp add: pipe_inv_def)
  moreover have "unat (psize p) - unat (read_ptr p) + unat (write_ptr p) < 4294967296"
    using False unat_u32_less [of "psize p"] assms unfolding pipe_inv_def by linarith
  ultimately show ?thesis using False pipe_count_cases [OF assms]
    by (auto simp: pipe_unread_def word_less_nat_alt unat_plus_u32)
qed

lemma unat_pipe_available:
  assumes inv: "pipe_inv p"
  shows "unat (pipe_available p) = unat (psize p) - 1 - pipe_count p"
proof -
  let ?r = "unat (read_ptr p)" and ?w = "unat (write_ptr p)" and ?z = "unat (psize p)"
  have b: "?r < ?z" "?w < ?z" "?z < 4294967296" using inv by (simp_all add: pipe_inv_def)
  note c = pipe_count_cases [OF inv]
  consider "?r = ?w" | "?w < ?r" | "?r < ?w" by linarith
  then show ?thesis
  proof cases
    case 1
    then have "read_ptr p = write_ptr p" by (simp add: u32_eq_iff)
    moreover have "unat (psize p - 1) = ?z - 1" using b unat_sub_u32 [of 1 "psize p"] by simp
    ultimately show ?thesis using c 1 by (simp add: pipe_available_def)
  next
    case 2
    then have "unat (read_ptr p - write_ptr p) = ?r - ?w" by (intro unat_sub_u32) simp
    then have "unat (read_ptr p - write_ptr p - 1) = ?r - ?w - 1"
      using 2 unat_sub_u32 [of 1 "read_ptr p - write_ptr p"] by simp
    then show ?thesis using c 2 b by (auto simp: pipe_available_def word_less_nat_alt)
  next
    case 3
    have "unat (psize p - write_ptr p) = ?z - ?w" using b by (intro unat_sub_u32) simp
    then have "unat (psize p - write_ptr p + read_ptr p) = ?z - ?w + ?r"
      using b 3 by (intro trans [OF unat_plus_u32]) linarith+
    then have "unat (psize p - write_ptr p + read_ptr p - 1) = ?z - ?w + ?r - 1"
      using b unat_sub_u32 [of 1 "psize p - write_ptr p + read_ptr p"] by simp
    then show ?thesis using c 3 b by (auto simp: pipe_available_def word_less_nat_alt)
  qed
qed


text \<open>Advancing a pointer around the ring.\<close>

lemma pointer_step:
  assumes "unat i < unat n"
  shows "unat (if i + 1 = n then 0 else i + 1 :: u32) = Suc (unat i) mod unat n"
proof -
  have "unat i + 1 < 4294967296" using assms unat_u32_less [of n] by linarith
  then have "unat (i + 1) = unat i + 1" by (rule unat_plus1_u32)
  then show ?thesis using assms mod_wrap_step [OF assms] by (auto simp: u32_eq_iff)
qed

lemma pipe_write_pos:
  assumes "pipe_inv p"
  shows "(unat (read_ptr p) + pipe_count p) mod unat (psize p) = unat (write_ptr p)"
  using assms ring_distance [of "unat (read_ptr p)" "unat (psize p)" "unat (write_ptr p)"]
  by (simp add: pipe_count_def pipe_inv_def)

lemma count_step_put:
  fixes r w n :: nat
  assumes "r < n" "w < n" "(w + n - r) mod n + 1 < n"
  shows "(Suc w mod n + n - r) mod n = (w + n - r) mod n + 1"
proof -
  have "(Suc w mod n + n - r) mod n = (Suc w mod n + (n - r)) mod n" using assms by simp
  also have "\<dots> = (Suc w + (n - r)) mod n" by (rule mod_add_left_eq)
  also have "\<dots> = Suc (w + n - r) mod n" using assms by simp
  also have "\<dots> = (w + n - r) mod n + 1" using assms(3) by (simp add: mod_Suc)
  finally show ?thesis .
qed

lemma count_step_get:
  fixes r w n :: nat
  assumes "r < n" "w < n" "(w + n - r) mod n \<noteq> 0"
  shows "(w + n - Suc r mod n) mod n = (w + n - r) mod n - 1"
proof (cases "Suc r = n")
  case True
  then show ?thesis using assms by (cases "r \<le> w") (auto simp: mod_if)
next
  case False
  then have "Suc r mod n = Suc r" using assms by simp
  then show ?thesis using assms False by (auto simp: mod_if)
qed

lemma pipe_put_ok:
  assumes inv: "pipe_inv p" and free: "pipe_available p \<noteq> 0"
  shows "\<exists>p'. pipe_put p b = Inr p' \<and> pipe_inv p' \<and> pipe_contents p' = pipe_contents p @ [b]
     \<and> psize p' = psize p \<and> waiters p' = waiters p \<and> waiters_cnt p' = waiters_cnt p \<and> lock p' = lock p"
proof -
  let ?n = "unat (psize p)" and ?c = "pipe_count p" and ?w = "unat (write_ptr p)" and ?r = "unat (read_ptr p)"
  have b: "?r < ?n" "?w < ?n" "length (buffer p) = ?n" using inv by (simp_all add: pipe_inv_def)
  have "unat (pipe_available p) \<noteq> 0" using free by (simp add: unat_eq_0_u32)
  then have room: "?c + 1 < ?n" using unat_pipe_available [OF inv] by simp
  let ?p = "p\<lparr>buffer := (buffer p)[?w := b],
      write_ptr := (if write_ptr p + 1 = psize p then 0 else write_ptr p + 1)\<rparr>"
  have put: "pipe_put p b = Inr ?p" using b by (simp add: pipe_put_def Let_def)
  have w': "unat (write_ptr ?p) = Suc ?w mod ?n" using pointer_step [OF b(2)] by simp
  have inv': "pipe_inv ?p" using inv w' b by (simp add: pipe_inv_def)
  have "pipe_count ?p = ?c + 1"
    using count_step_put [OF b(1,2)] room w' by (simp add: pipe_count_def)
  moreover have "ring ((buffer p)[?w := b]) ?r (Suc ?c) = ring (buffer p) ?r ?c @ [b]"
    using ring_snoc [of ?c "buffer p" ?r b] room b(3) pipe_write_pos [OF inv] by simp
  ultimately have "pipe_contents ?p = pipe_contents p @ [b]" by (simp add: pipe_contents_def)
  with put inv' show ?thesis by simp
qed

lemma pipe_get_ok:
  assumes inv: "pipe_inv p" and some: "pipe_contents p \<noteq> []"
  shows "\<exists>p'. pipe_get p = Inr (hd (pipe_contents p), p') \<and> pipe_inv p'
     \<and> pipe_contents p' = tl (pipe_contents p)
     \<and> psize p' = psize p \<and> waiters p' = waiters p \<and> waiters_cnt p' = waiters_cnt p \<and> lock p' = lock p"
proof -
  let ?n = "unat (psize p)" and ?c = "pipe_count p" and ?w = "unat (write_ptr p)" and ?r = "unat (read_ptr p)"
  have b: "?r < ?n" "?w < ?n" "length (buffer p) = ?n" using inv by (simp_all add: pipe_inv_def)
  obtain d where c: "?c = Suc d" using some by (cases ?c) (auto simp: pipe_contents_def)
  have cont: "pipe_contents p = buffer p ! ?r # ring (buffer p) (Suc ?r) d"
    using b by (simp add: pipe_contents_def c ring_Suc)
  let ?p = "p\<lparr>read_ptr := (if read_ptr p + 1 = psize p then 0 else read_ptr p + 1)\<rparr>"
  have get: "pipe_get p = Inr (hd (pipe_contents p), ?p)" using b by (simp add: pipe_get_def Let_def cont)
  have r': "unat (read_ptr ?p) = Suc ?r mod ?n" using pointer_step [OF b(1)] by simp
  have inv': "pipe_inv ?p" using inv r' b by (simp add: pipe_inv_def)
  have "(?w + ?n - ?r) mod ?n \<noteq> 0" using c by (simp add: pipe_count_def)
  then have "pipe_count ?p = d"
    using count_step_get [OF b(1,2)] r' c by (simp add: pipe_count_def)
  then have "pipe_contents ?p = ring (buffer p) (Suc ?r mod ?n) d"
    unfolding pipe_contents_def r' by simp
  then have "pipe_contents ?p = tl (pipe_contents p)"
    using ring_mod [of "buffer p" "Suc ?r" d] b(3) by (simp add: cont)
  with get inv' show ?thesis by simp
qed

definition put_byte :: "pipe_info \<Rightarrow> u8 \<Rightarrow> pipe_info" where
  "put_byte p b = projr (pipe_put p b)"

definition get_byte :: "pipe_info \<Rightarrow> u8 \<times> pipe_info" where
  "get_byte p = projr (pipe_get p)"

lemma put_byte_capacity: "pipe_inv p \<Longrightarrow> psize (put_byte p b) = psize p"
  by (simp add: put_byte_def pipe_put_def pipe_inv_def Let_def)

text \<open>The ring is a bounded buffer of \<open>size - 1\<close> bytes. Outside the invariant nothing is claimed,
  so the operations are cut off there.\<close>

interpretation pf: bounded_fifo pipe_inv pipe_contents "\<lambda>p. pipe_available p = 0"
  "\<lambda>p b. if pipe_inv p then put_byte p b else p" get_byte pipe_capacity
proof
  fix p b
  assume i: "pipe_inv p" and f: "pipe_available p \<noteq> 0"
  obtain p' where "pipe_put p b = Inr p'" "pipe_inv p'" "pipe_contents p' = pipe_contents p @ [b]"
    using pipe_put_ok [OF i f] by blast
  with i show "pipe_inv (if pipe_inv p then put_byte p b else p)"
    "pipe_contents (if pipe_inv p then put_byte p b else p) = pipe_contents p @ [b]"
    by (simp_all add: put_byte_def)
next
  fix p
  assume i: "pipe_inv p" and c: "pipe_contents p \<noteq> []"
  obtain p' where "pipe_get p = Inr (hd (pipe_contents p), p')" "pipe_inv p'"
    "pipe_contents p' = tl (pipe_contents p)" using pipe_get_ok [OF i c] by blast
  then show "pipe_inv (snd (get_byte p))" "fst (get_byte p) = hd (pipe_contents p)"
    "pipe_contents (snd (get_byte p)) = tl (pipe_contents p)" by (simp_all add: get_byte_def)
next
  fix p
  assume i: "pipe_inv p"
  have l: "length (pipe_contents p) = pipe_count p" by (simp add: pipe_contents_def)
  have "pipe_available p = 0 \<longleftrightarrow> unat (pipe_available p) = 0" by (simp add: unat_eq_0_u32)
  then show "(pipe_available p = 0) = (length (pipe_contents p) = pipe_capacity p)"
    using pipe_count_less [OF i] unfolding l pipe_capacity_def unat_pipe_available [OF i] by linarith
  show "length (pipe_contents p) \<le> pipe_capacity p"
    using pipe_count_less [OF i] unfolding l pipe_capacity_def by linarith
qed (simp add: pipe_capacity_def put_byte_capacity)

text \<open>The two loops are the client loops of the interface.\<close>

lemma pipe_frame:
  "pipe_inv p \<Longrightarrow> pipe_available p \<noteq> 0 \<Longrightarrow> waiters (put_byte p b) = waiters p
     \<and> waiters_cnt (put_byte p b) = waiters_cnt p \<and> lock (put_byte p b) = lock p \<and> psize (put_byte p b) = psize p"
  using pipe_put_ok [of p b] by (auto simp: put_byte_def)

lemma pipe_write_loop_puts:
  "pipe_inv p \<Longrightarrow> \<exists>p'. pipe_write_loop bs p = Inr (fst (pf.puts p bs), p') \<and> p' = snd (pf.puts p bs)
     \<and> waiters p' = waiters p \<and> waiters_cnt p' = waiters_cnt p \<and> lock p' = lock p \<and> psize p' = psize p"
proof (induction bs arbitrary: p)
  case (Cons b bs)
  show ?case
  proof (cases "pipe_available p = 0")
    case False
    then obtain p1 where p1: "pipe_put p b = Inr p1" "pipe_inv p1" using pipe_put_ok Cons.prems by blast
    then have "put_byte p b = p1" by (simp add: put_byte_def)
    with False Cons.prems Cons.IH [OF p1(2)] p1 pipe_frame [OF Cons.prems False, of b]
    show ?thesis by (auto simp: Let_def case_prod_unfold)
  qed simp
qed simp

lemma pipe_read_loop_gets:
  "pipe_inv p \<Longrightarrow> \<exists>p'. pipe_read_loop n p = Inr (fst (pf.gets n p), p') \<and> p' = snd (pf.gets n p)
     \<and> lock p' = lock p \<and> psize p' = psize p"
proof (induction n arbitrary: p)
  case (Suc n)
  have e: "pipe_unread p = 0 \<longleftrightarrow> pipe_contents p = []"
    using unat_pipe_unread [OF Suc.prems] by (metis length_0_conv length_ring pipe_contents_def unat_eq_0_u32)
  show ?case
  proof (cases "pipe_contents p = []")
    case False
    then obtain p1 where p1: "pipe_get p = Inr (hd (pipe_contents p), p1)" "pipe_inv p1"
      "lock p1 = lock p" "psize p1 = psize p" using pipe_get_ok Suc.prems by blast
    then have "get_byte p = (hd (pipe_contents p), p1)" by (simp add: get_byte_def)
    with False e Suc.IH [OF p1(2)] p1 show ?thesis by (auto simp: Let_def case_prod_unfold)
  qed (simp add: e)
qed simp

lemma pipe_lock_irrelevant [simp]:
  "pipe_inv (p\<lparr>lock := l\<rparr>) = pipe_inv p" "pipe_contents (p\<lparr>lock := l\<rparr>) = pipe_contents p"
  "pipe_capacity (p\<lparr>lock := l\<rparr>) = pipe_capacity p"
  by (simp_all add: pipe_inv_def pipe_contents_def pipe_count_def pipe_capacity_def)

text \<open>The slots of the waiters that are woken.\<close>

definition clear_woken :: "(u32 \<Rightarrow> bool) \<Rightarrow> (u32 \<Rightarrow> nat) \<Rightarrow> u32 list \<Rightarrow> u32 list" where
  "clear_woken v awaits ws = List.map (\<lambda>w. if v w \<and> awaits w \<noteq> 0 then 0 else w) ws"

lemma first_slot:
  assumes "w \<notin> set (take i ws)" "i < length ws" "ws ! i = w" "j \<le> i" "i < j + n"
  shows "free_slot (\<lambda>x. x \<noteq> w) ws j n = Inr (Some i)"
  using assms(4,5)
proof (induction n arbitrary: j)
  case (Suc n)
  show ?case
  proof (cases "j = i")
    case False
    then have "j < i" using Suc.prems by simp
    then have "ws ! j \<noteq> w" using assms(1,2) by (auto simp: in_set_conv_nth)
    then show ?thesis using Suc \<open>j < i\<close> assms(2) by simp
  qed (use assms in simp)
qed simp

lemma no_slot: "j + n \<le> length ws \<Longrightarrow> w \<notin> set (take (j + n) ws) \<Longrightarrow> free_slot (\<lambda>x. x \<noteq> w) ws j n = Inr None"
proof (induction n arbitrary: j)
  case (Suc n)
  have "ws ! j \<in> set (take (j + Suc n) ws)" using Suc.prems(1) by (auto simp: in_set_conv_nth intro!: exI [of _ j])
  then show ?case using Suc by auto
qed simp

lemma remove_gone:
  assumes "v node" "v info" "waiters p = Some ws" "unat (waiters_cnt p) \<le> length ws" "w \<notin> set (take (unat (waiters_cnt p)) ws)"
  shows "remove_times v node info w k p = Inr p"
  using assms no_slot [of 0 "unat (waiters_cnt p)" ws w] by (induction k) (simp_all add: pipe_remove_waiter_def)

lemma distinct_filter_nth:
  assumes "distinct (filter v u)" "i < length u" "v (u ! i)"
  shows "u ! i \<notin> set (take i u)" "u ! i \<notin> set (drop (Suc i) u)"
proof -
  have "distinct (filter v (take i u @ u ! i # drop (Suc i) u))" using assms id_take_nth_drop [of i u] by simp
  then show "u ! i \<notin> set (take i u)" "u ! i \<notin> set (drop (Suc i) u)" using assms(3) by auto
qed

lemma remove_first:
  assumes v: "v node" "v info" and p: "waiters p = Some ws" "unat (waiters_cnt p) \<le> length ws" "i < unat (waiters_cnt p)"
    and w: "v (ws ! i)" "\<not> v 0" and d: "distinct (filter v (take (unat (waiters_cnt p)) ws))"
  shows "remove_times v node info (ws ! i) k p = Inr (if k = 0 then p else p\<lparr>waiters := Some (ws[i := 0])\<rparr>)"
proof (cases k)
  case (Suc k')
  let ?c = "unat (waiters_cnt p)" and ?w = "ws ! i" and ?p = "p\<lparr>waiters := Some (ws[i := 0])\<rparr>"
  let ?u = "take ?c ws"
  have u: "i < length ?u" "?u ! i = ?w" "take i ?u = take i ws" using p by simp_all
  have n: "?w \<notin> set (take i ?u)" "?w \<notin> set (drop (Suc i) ?u)" using distinct_filter_nth [OF d u(1)] w(1) unfolding u(2) by simp_all
  have "take ?c (ws[i := 0]) = take i ?u @ 0 # drop (Suc i) ?u"
    using upd_conv_take_nth_drop [OF u(1), of 0] by (simp add: take_update_swap)
  then have "?w \<notin> set (take ?c (ws[i := 0]))" using n w by auto
  then have "remove_times v node info ?w k' ?p = Inr ?p" using remove_gone [OF v, of ?p "ws[i := 0]"] p(2) by simp
  moreover have "free_slot (\<lambda>x. x \<noteq> ?w) ws 0 ?c = Inr (Some i)" using first_slot [of ?w i ws 0 ?c] n(1) u(3) p by simp
  ultimately show ?thesis using v p(1) Suc by (simp add: pipe_remove_waiter_def)
qed simp

lemma notify_from_wakes:
  assumes "v node" "v info" "\<not> v 0" "waiters p = Some ws" "unat (waiters_cnt p) \<le> length ws"
    "distinct (filter v (take (unat (waiters_cnt p)) ws))" "i + n = unat (waiters_cnt p)"
  shows "notify_from v node info i n awaits p = Inr (filter v (drop i (take (unat (waiters_cnt p)) ws)),
    p\<lparr>waiters := Some (take i ws @ clear_woken v awaits (drop i (take (unat (waiters_cnt p)) ws)) @ drop (unat (waiters_cnt p)) ws)\<rparr>)"
  using assms(4-7)
proof (induction n arbitrary: i awaits p ws)
  case 0
  then show ?case by (cases p) (simp add: clear_woken_def)
next
  case (Suc n)
  let ?c = "unat (waiters_cnt p)"
  let ?u = "take ?c ws"
  define w where "w = ws ! i"
  have i: "i < ?c" "i < length ?u" "i < length ws" using Suc.prems by simp_all
  have u: "?u ! i = w" using i by (simp add: w_def)
  have dr: "drop i ?u = w # drop (Suc i) ?u" using Cons_nth_drop_Suc [OF i(2)] u by simp
  have ld: "load_at (waiter_list p) i = Inr w" using Suc.prems(1) i(3) by (simp add: waiter_list_def w_def)
  show ?case
  proof (cases "v w")
    case False
    have "take (Suc i) ws = take i ws @ [w]" using i(3) by (simp add: take_Suc_conv_app_nth w_def)
    then show ?thesis using Suc.IH [OF Suc.prems(1-3), of "Suc i" awaits] Suc.prems(4) False ld dr
      by (simp add: clear_woken_def)
  next
    case True
    note n = distinct_filter_nth [OF Suc.prems(3) i(2), unfolded u, OF True]
    define x where "x = (if awaits w = 0 then w else 0)"
    define q where "q = p\<lparr>waiters := Some (ws[i := x])\<rparr>"
    have "remove_times v node info w (awaits w) p = Inr (if awaits w = 0 then p else p\<lparr>waiters := Some (ws[i := 0])\<rparr>)"
      using remove_first [OF assms(1,2) Suc.prems(1,2) i(1) _ assms(3) Suc.prems(3)] True by (simp add: w_def)
    moreover have "ws[i := w] = ws" by (simp add: w_def)
    ultimately have r: "remove_times v node info w (awaits w) p = Inr q"
      using Suc.prems(1) by (cases p) (simp add: q_def x_def)
    have t: "take ?c (ws[i := x]) = take i ?u @ x # drop (Suc i) ?u"
      using upd_conv_take_nth_drop [OF i(2), of x] by (simp add: take_update_swap)
    have dd: "drop (Suc i) (take ?c (ws[i := x])) = drop (Suc i) ?u" "drop ?c (ws[i := x]) = drop ?c ws"
      "take (Suc i) (ws[i := x]) = take i ws @ [x]"
      using i by (simp_all add: take_Suc_conv_app_nth drop_take)
    have "filter v ?u = filter v (take i ?u) @ w # filter v (drop (Suc i) ?u)"
      using id_take_nth_drop [OF i(2)] u True by (metis filter.simps(2) filter_append)
    then have "distinct (filter v (take ?c (ws[i := x])))"
      using Suc.prems(3) assms(3) True unfolding t by (simp add: x_def)
    then have "notify_from v node info (Suc i) n (awaits(w := 0)) q = Inr (filter v (drop (Suc i) ?u),
       q\<lparr>waiters := Some (take i ws @ x # clear_woken v (awaits(w := 0)) (drop (Suc i) ?u) @ drop ?c ws)\<rparr>)"
      using Suc.IH [of q "ws[i := x]" "Suc i" "awaits(w := 0)"] Suc.prems(2,4) dd by (simp add: q_def del: fun_upd_apply)
    moreover have "clear_woken v (awaits(w := 0)) (drop (Suc i) ?u) = clear_woken v awaits (drop (Suc i) ?u)"
      using n(2) by (auto simp: clear_woken_def)
    ultimately show ?thesis using ld True r dr by (simp add: clear_woken_def q_def x_def)
  qed
qed

text \<open>The pipe of a write whose waiters are well-formed.\<close>

definition waiters_ok :: "pipe_info \<Rightarrow> bool" where
  "waiters_ok p \<longleftrightarrow> unat (waiters_cnt p) \<le> length (waiter_list p)"

definition used_waiters :: "pipe_info \<Rightarrow> u32 list" where
  "used_waiters p = take (unat (waiters_cnt p)) (waiter_list p)"

subsection \<open>Properties\<close>

lemma remove_times_keeps:
  "waiters_ok p \<Longrightarrow> \<exists>w'. remove_times v node info w k p = Inr (p\<lparr>waiters := w'\<rparr>) \<and> length (waiter_list (p\<lparr>waiters := w'\<rparr>)) = length (waiter_list p)"
proof (induction k arbitrary: p)
  case 0
  then show ?case by (cases p) (auto simp: waiter_list_def)
next
  case (Suc k)
  have free: "j + n \<le> length ws \<Longrightarrow> \<exists>r. free_slot f ws j n = Inr r" for f ws j n
    by (induction n arbitrary: j) auto
  have "\<exists>w1. pipe_remove_waiter v node info w p = Inr (p\<lparr>waiters := w1\<rparr>) \<and> length (waiter_list (p\<lparr>waiters := w1\<rparr>)) = length (waiter_list p)"
  proof (cases "waiters p")
    case (Some ws)
    then obtain r where "free_slot (\<lambda>x. x \<noteq> w) ws 0 (unat (waiters_cnt p)) = Inr r"
      using free [of 0 "unat (waiters_cnt p)" ws] Suc.prems by (auto simp: waiters_ok_def waiter_list_def)
    then show ?thesis using Some
      by (cases p; cases r) (auto simp: pipe_remove_waiter_def waiter_list_def)
  qed (cases p, auto simp: pipe_remove_waiter_def waiter_list_def)
  then obtain w1 where w1: "pipe_remove_waiter v node info w p = Inr (p\<lparr>waiters := w1\<rparr>)"
      "length (waiter_list (p\<lparr>waiters := w1\<rparr>)) = length (waiter_list p)" by blast
  then have "waiters_ok (p\<lparr>waiters := w1\<rparr>)" using Suc.prems by (simp add: waiters_ok_def)
  then show ?case using Suc.IH w1 by fastforce
qed

lemma notify_from_keeps:
  "waiters_ok p \<Longrightarrow> i + n \<le> unat (waiters_cnt p) \<Longrightarrow> \<exists>r w'. notify_from v node info i n awaits p = Inr (r, p\<lparr>waiters := w'\<rparr>)
     \<and> length (waiter_list (p\<lparr>waiters := w'\<rparr>)) = length (waiter_list p)"
proof (induction n arbitrary: i awaits p)
  case 0
  then show ?case by (cases p) (auto simp: waiter_list_def)
next
  case (Suc n)
  let ?w = "waiter_list p ! i"
  have ld: "load_at (waiter_list p) i = Inr ?w" using Suc.prems by (simp add: waiters_ok_def)
  show ?case
  proof (cases "v ?w")
    case True
    obtain w1 where w1: "remove_times v node info ?w (awaits ?w) p = Inr (p\<lparr>waiters := w1\<rparr>)"
        "length (waiter_list (p\<lparr>waiters := w1\<rparr>)) = length (waiter_list p)" using remove_times_keeps [OF Suc.prems(1)] by blast
    then have "waiters_ok (p\<lparr>waiters := w1\<rparr>)" using Suc.prems(1) by (simp add: waiters_ok_def)
    then show ?thesis using Suc.IH [of "p\<lparr>waiters := w1\<rparr>" "Suc i" "awaits(?w := 0)"] Suc.prems(2) w1 ld True
      by (fastforce simp del: fun_upd_apply)
  qed (use Suc.IH [OF Suc.prems(1), of "Suc i" awaits] Suc.prems(2) ld in simp)
qed

text \<open>A write, whatever the processes in the array wait for.\<close>

lemma pipe_write_run:
  fixes data :: "u8 list"
  assumes inv: "pipe_inv p" and l: "\<not> lock p" and v: "v node" "v info" and w: "waiters_ok p"
  defines "k \<equiv> min (length data) (pipe_capacity p - length (pipe_contents p))"
  shows "\<exists>p1. pipe_inv p1 \<and> pipe_contents p1 = pipe_contents p @ take k data \<and> waiters p1 = waiters p
    \<and> waiters_cnt p1 = waiters_cnt p \<and> psize p1 = psize p
    \<and> (\<exists>r w'. (if k = 0 then Inr ([], p1) else pipe_notify_waiters v node info awaits p1) = Inr (r, p1\<lparr>waiters := w'\<rparr>)
        \<and> pipe_write v node info awaits data p = Some (Inr (of_nat k, r, p1\<lparr>waiters := w', lock := False\<rparr>))
        \<and> waiters_ok (p1\<lparr>waiters := w'\<rparr>))"
proof -
  let ?p = "p\<lparr>lock := True\<rparr>"
  have i: "pipe_inv ?p" using inv by simp
  have k: "fst (pf.puts ?p data) = k" using pf.puts_count_exact [OF i] by (simp add: k_def)
  obtain p1 where p1: "pipe_write_loop data ?p = Inr (k, p1)" "p1 = snd (pf.puts ?p data)"
    "waiters p1 = waiters p" "waiters_cnt p1 = waiters_cnt p" "psize p1 = psize p"
    using pipe_write_loop_puts [OF i, of data] unfolding k by auto
  have c: "pipe_inv p1" "pipe_contents p1 = pipe_contents p @ take k data"
    using pf.puts_inv [OF i] pf.puts_contents [OF i, of data] k unfolding p1(2) by simp_all
  have ok: "waiters_ok p1" using w p1(3,4) by (simp add: waiters_ok_def waiter_list_def)
  have "\<exists>r w'. (if k = 0 then Inr ([], p1) else pipe_notify_waiters v node info awaits p1) = Inr (r, p1\<lparr>waiters := w'\<rparr>)
      \<and> waiters_ok (p1\<lparr>waiters := w'\<rparr>)"
  proof (cases "k = 0")
    case True
    then show ?thesis using ok by (cases p1) auto
  next
    case False
    obtain r w' where "pipe_notify_waiters v node info awaits p1 = Inr (r, p1\<lparr>waiters := w'\<rparr>)"
        "length (waiter_list (p1\<lparr>waiters := w'\<rparr>)) = length (waiter_list p1)"
      using notify_from_keeps [OF ok, of 0 "unat (waiters_cnt p1)" v node info awaits] by (auto simp: pipe_notify_waiters_def)
    moreover then have "waiters_ok (p1\<lparr>waiters := w'\<rparr>)" using ok by (simp add: waiters_ok_def)
    ultimately show ?thesis using False by auto
  qed
  then obtain r w' where n: "(if k = 0 then Inr ([], p1) else pipe_notify_waiters v node info awaits p1) = Inr (r, p1\<lparr>waiters := w'\<rparr>)"
      "waiters_ok (p1\<lparr>waiters := w'\<rparr>)" by blast
  have "pipe_write v node info awaits data p = Some (Inr (of_nat k, r, p1\<lparr>waiters := w', lock := False\<rparr>))"
    using v l p1(1) n(1) by (cases "k = 0") (simp_all add: pipe_write_def lock_spin_def unlock_spin_def)
  with c p1(3-5) n show ?thesis by blast
qed


definition pipe_example :: pipe_info where
  "pipe_example = \<lparr>buffer = [10, 11, 12, 13], psize = 4, write_ptr = 1, read_ptr = 3,
     waiters = Some [77, 0, 78, 79], waiters_cnt = 3, lock = False\<rparr>"

lemma pipe_example_inv: "pipe_inv pipe_example"
  by (simp add: pipe_inv_def pipe_example_def)


text \<open>C8: A read from a well-formed unlocked pipe returns the oldest unread bytes, in order, up to the
  number asked for or available, and leaves the rest.\<close>

theorem pipe_read_takes:
  assumes inv: "pipe_inv p" and l: "\<not> lock p"
  shows "\<exists>p'. pipe_read sz p = Some (Inr (take (unat sz) (pipe_contents p),
        of_nat (min (unat sz) (length (pipe_contents p))), p'))
     \<and> pipe_inv p' \<and> pipe_contents p' = drop (unat sz) (pipe_contents p) \<and> \<not> lock p'"
proof -
  let ?p = "p\<lparr>lock := True\<rparr>"
  have i: "pipe_inv ?p" using inv by simp
  obtain p1 where p1: "pipe_read_loop (unat sz) ?p = Inr (take (unat sz) (pipe_contents p), p1)"
    "p1 = snd (pf.gets (unat sz) ?p)"
    using pipe_read_loop_gets [OF i, of "unat sz"] pf.gets_result [OF i] by auto
  then have "pipe_inv p1" "pipe_contents p1 = drop (unat sz) (pipe_contents p)"
    using pf.gets_inv [OF i] pf.gets_contents [OF i] by simp_all
  then show ?thesis using l p1(1)
    by (simp add: pipe_read_def lock_spin_def unlock_spin_def min.commute)
qed

theorem pipe_read_takes_witness:
  "\<exists>p'. pipe_read 1 pipe_example = Some (Inr (take (unat (1 :: u32)) (pipe_contents pipe_example),
        of_nat (min (unat (1 :: u32)) (length (pipe_contents pipe_example))), p'))
     \<and> pipe_inv p' \<and> pipe_contents p' = drop (unat (1 :: u32)) (pipe_contents pipe_example) \<and> \<not> lock p'"
  by (rule pipe_read_takes [OF pipe_example_inv]) (simp add: pipe_example_def)

text \<open>Resizing a pipe keeps its pointers: when the write pointer lies at or beyond the new size
  (and there is still a byte free by the pointers), the next write goes outside the new buffer.\<close>

theorem pipe_resize_then_write_faults:
  assumes "length mem0 = unat n" "unat n \<le> unat (write_ptr p)" "read_ptr p < write_ptr p"
    and "n + read_ptr p \<noteq> write_ptr p + 1" "\<not> lock p" "v node" "v info"
  shows "pipe_write v node info awaits [b] (pipe_ioctl_resize mem0 n p) = Some (Inl Wild)"
proof -
  let ?p = "pipe_ioctl_resize mem0 n p\<lparr>lock := True\<rparr>"
  have "pipe_available ?p = (n - write_ptr p) + read_ptr p - 1"
    using assms(3) by (auto simp: pipe_available_def pipe_ioctl_resize_def)
  moreover have "(n - write_ptr p) + read_ptr p - 1 \<noteq> 0"
  proof
    assume "(n - write_ptr p) + read_ptr p - 1 = 0"
    then have "n + read_ptr p = write_ptr p + 1" by (simp add: algebra_simps)
    with assms(4) show False ..
  qed
  moreover have "pipe_put ?p b = Inl Wild"
    using assms(1,2) by (simp add: pipe_put_def store_at_out pipe_ioctl_resize_def)
  ultimately have "pipe_write_loop [b] ?p = Inl Wild" by simp
  then show ?thesis using assms(5-7) by (simp add: pipe_write_def lock_spin_def pipe_ioctl_resize_def)
qed

theorem pipe_resize_then_write_faults_witness:
  "pipe_write (\<lambda>_. True) 5 6 (\<lambda>_. 0) [7] (pipe_ioctl_resize [0] 1 (pipe_example\<lparr>read_ptr := 0, write_ptr := 2\<rparr>)) = Some (Inl Wild)"
  by (rule pipe_resize_then_write_faults) (simp_all add: pipe_example_def)

end
