(* ===== verification/Cstring.thy ===== *)
theory Cstring
  imports Smpl_Prelude
begin

text \<open>
  The string functions of the C library, \<open>libc/string\<close>, over a byte-addressed memory.
  Pointers are 32-bit words and wrap; a loop that looks for a terminator may run forever and
  returns \<open>None\<close> then. \<open>char\<close> is signed on this target, which matters for \<open>strncmp\<close> and
  \<open>strchr\<close>. The allocation of \<open>substr\<close> is an argument: the block \<open>malloc\<close> returned.
\<close>

subsection \<open>Blocks of memory\<close>

fun memchr :: "bytes \<Rightarrow> u32 \<Rightarrow> u32 \<Rightarrow> nat \<Rightarrow> u32" where
  "memchr m p c 0 = 0"
| "memchr m p c (Suc n) = (if m p \<noteq> ucast c then memchr m (p + 1) c n else p)"

fun memcmp_from :: "bytes \<Rightarrow> u32 \<Rightarrow> u32 \<Rightarrow> nat \<Rightarrow> nat \<Rightarrow> u32" where
  "memcmp_from m a b i 0 = 0"
| "memcmp_from m a b i (Suc n) =
     (if m (a + of_nat i) < m (b + of_nat i) then - 1
      else if m (b + of_nat i) < m (a + of_nat i) then 1
      else memcmp_from m a b (i + 1) n)"

definition memcmp :: "bytes \<Rightarrow> u32 \<Rightarrow> u32 \<Rightarrow> u32 \<Rightarrow> u32" where
  "memcmp m a b sz = memcmp_from m a b 0 (unat sz)"

text \<open>Ascending and descending byte copies.\<close>

definition copy_up :: "u32 \<Rightarrow> u32 \<Rightarrow> nat \<Rightarrow> bytes \<Rightarrow> bytes" where
  "copy_up dst src n m = fold (\<lambda>i m. m(dst + of_nat i := m (src + of_nat i))) [0..<n] m"

definition copy_down :: "u32 \<Rightarrow> u32 \<Rightarrow> nat \<Rightarrow> bytes \<Rightarrow> bytes" where
  "copy_down dst src n m = fold (\<lambda>i m. m(dst + of_nat i := m (src + of_nat i))) (rev [0..<n]) m"

definition memcpy :: "u32 \<Rightarrow> u32 \<Rightarrow> u32 \<Rightarrow> bytes \<Rightarrow> u32 \<times> bytes" where
  "memcpy dst src sz m = (dst, copy_up dst src (unat sz) m)"

definition memmove :: "u32 \<Rightarrow> u32 \<Rightarrow> u32 \<Rightarrow> bytes \<Rightarrow> u32 \<times> bytes" where
  "memmove dst src sz m =
     (if dst < src then (dst, copy_up dst src (unat sz) m) else (dst, copy_down dst src (unat sz) m))"

definition memset :: "u32 \<Rightarrow> u32 \<Rightarrow> u32 \<Rightarrow> bytes \<Rightarrow> u32 \<times> bytes" where
  "memset buf val sz m = (buf, fold (\<lambda>i m. m(buf + of_nat i := ucast val)) [0..<unat sz] m)"

subsection \<open>Strings\<close>

partial_function (option) strlen_from :: "bytes \<Rightarrow> u32 \<Rightarrow> u32 \<Rightarrow> u32 option" where
  "strlen_from m str n = (if m (str + n) \<noteq> 0 then strlen_from m str (n + 1) else Some n)"

definition strlen :: "bytes \<Rightarrow> u32 \<Rightarrow> u32 option" where
  "strlen m str = strlen_from m str 0"

partial_function (option) strcpy_from :: "u32 \<Rightarrow> u32 \<Rightarrow> u32 \<Rightarrow> bytes \<Rightarrow> bytes option" where
  "strcpy_from dest source i m =
     (let m = m(dest + i := m (source + i)) in
      if m (dest + i) = 0 then Some m else strcpy_from dest source (i + 1) m)"

definition strcpy :: "u32 \<Rightarrow> u32 \<Rightarrow> bytes \<Rightarrow> bytes option" where
  "strcpy dest source m = strcpy_from dest source 0 m"

partial_function (option) strcat_from :: "u32 \<Rightarrow> u32 \<Rightarrow> u32 \<Rightarrow> bytes \<Rightarrow> bytes option" where
  "strcat_from d src j m =
     (if m (src + j) \<noteq> 0 then strcat_from d src (j + 1) (m(d + j := m (src + j)))
      else Some (m(d + j := 0)))"

definition strcat :: "u32 \<Rightarrow> u32 \<Rightarrow> bytes \<Rightarrow> (u32 \<times> bytes) option" where
  "strcat dest src m =
     Option.bind (strlen_from m dest 0) (\<lambda>i. map_option (Pair dest) (strcat_from (dest + i) src 0 m))"

partial_function (option) strchr_from :: "bytes \<Rightarrow> u32 \<Rightarrow> u32 \<Rightarrow> u32 \<Rightarrow> u32 option" where
  "strchr_from m str c i =
     (if m (str + i) \<noteq> 0 \<and> scast (m (str + i)) \<noteq> c then strchr_from m str c (i + 1)
      else Some (if c = scast (m (str + i)) then str + i else 0))"

definition strchr :: "bytes \<Rightarrow> u32 \<Rightarrow> u32 \<Rightarrow> u32 option" where
  "strchr m str c = strchr_from m str c 0"

partial_function (option) strcmp :: "bytes \<Rightarrow> u32 \<Rightarrow> u32 \<Rightarrow> u32 option" where
  "strcmp m x y =
     (if m x \<noteq> 0 \<and> m x = m y then strcmp m (x + 1) (y + 1)
      else Some (ucast (m x) - ucast (m y)))"

text \<open>\<open>strncmp\<close> compares signed characters up to a difference, the end or both terminators.\<close>

fun strncmp_from :: "bytes \<Rightarrow> u32 \<Rightarrow> u32 \<Rightarrow> nat \<Rightarrow> u32 \<Rightarrow> u32" where
  "strncmp_from m a b 0 result = result"
| "strncmp_from m a b (Suc n) result =
     (if result = 0 \<and> (m a \<noteq> 0 \<or> m b \<noteq> 0)
      then strncmp_from m (a + 1) (b + 1) n (scast (m a) - scast (m b))
      else result)"

definition strncmp :: "bytes \<Rightarrow> u32 \<Rightarrow> u32 \<Rightarrow> u32 \<Rightarrow> u32" where
  "strncmp m a b n = strncmp_from m a b (unat n) 0"

fun ncopy :: "u32 \<Rightarrow> u32 \<Rightarrow> nat \<Rightarrow> bytes \<Rightarrow> bytes" where
  "ncopy d s 0 m = m(d := 0)"
| "ncopy d s (Suc n) m = (if m s \<noteq> 0 then ncopy (d + 1) (s + 1) n (m(d := m s)) else m(d := 0))"

definition strncpy :: "u32 \<Rightarrow> u32 \<Rightarrow> u32 \<Rightarrow> bytes \<Rightarrow> u32 \<times> bytes" where
  "strncpy destination source num m =
     (if destination = 0 then (0, m) else (destination, ncopy destination source (unat num) m))"

definition strncat :: "u32 \<Rightarrow> u32 \<Rightarrow> u32 \<Rightarrow> bytes \<Rightarrow> (u32 \<times> bytes) option" where
  "strncat string1 string2 num m =
     map_option (\<lambda>l. (string1, ncopy (string1 + l) string2 (unat num) m)) (strlen m string1)"

text \<open>The two scans of \<open>strtok\<close>. The first passes over every character that \<open>strchr\<close> finds in
  \<open>delim\<close>, and \<open>strchr\<close> also finds the terminator.\<close>

partial_function (option) skip_delims :: "bytes \<Rightarrow> u32 \<Rightarrow> u32 \<Rightarrow> u32 option" where
  "skip_delims m delim c =
     Option.bind (strchr m delim (scast (m c))) (\<lambda>r.
       if r \<noteq> 0 then skip_delims m delim (c + 1) else Some c)"

partial_function (option) token_end :: "bytes \<Rightarrow> u32 \<Rightarrow> u32 \<Rightarrow> u32 option" where
  "token_end m delim c =
     (if m c = 0 then Some c
      else Option.bind (strchr m delim (scast (m c))) (\<lambda>r.
        if r = 0 then token_end m delim (c + 1) else Some c))"

text \<open>\<open>last\<close> is the static variable.\<close>

definition strtok :: "u32 \<Rightarrow> u32 \<Rightarrow> u32 \<Rightarrow> bytes \<Rightarrow> (u32 \<times> u32 \<times> bytes) option" where
  "strtok str delim last0 m =
     (let lst = (if str \<noteq> 0 then str else last0) in
      if lst = 0 \<or> m lst = 0 then Some (0, lst, m)
      else Option.bind (skip_delims m delim lst) (\<lambda>c.
           if m c = 0 then Some (0, lst, m)
           else Option.bind (token_end m delim c) (\<lambda>e.
                if m e = 0 then Some (c, e, m) else Some (c, e + 1, m(e := 0)))))"

text \<open>\<open>substr\<close> tests the first character of \<open>src\<close> in every round, not the one it copies.\<close>

fun substr_loop :: "u32 \<Rightarrow> u32 \<Rightarrow> u32 \<Rightarrow> nat \<Rightarrow> bytes \<Rightarrow> u32 \<times> bytes" where
  "substr_loop src dest i 0 m = (dest, m)"
| "substr_loop src dest i (Suc k) m =
     (if m src \<noteq> 0 then substr_loop src (dest + 1) (i + 1) k (m(dest := m (src + i))) else (dest, m))"

definition substr :: "u32 \<Rightarrow> u32 \<Rightarrow> u32 \<Rightarrow> u32 \<Rightarrow> bytes \<Rightarrow> u32 \<times> bytes" where
  "substr block src a b m =
     (let (dest, m) = substr_loop src block a (nat (sint b - sint a)) m
      in (dest - (b - a), m(dest := 0)))"

subsection \<open>Copies\<close>

lemma of_nat_offset_inj:
  "i < 4294967296 \<Longrightarrow> j < 4294967296 \<Longrightarrow> (p :: u32) + of_nat i = p + of_nat j \<longleftrightarrow> i = j"
  by (auto dest: arg_cong [of "of_nat i :: u32" _ unat] simp: unat_of_nat_u32)

lemma copy_up_Suc: "copy_up dst src (Suc n) m =
    (copy_up dst src n m)(dst + of_nat n := copy_up dst src n m (src + of_nat n))"
  by (simp add: copy_up_def)

lemma copy_down_Suc: "copy_down dst src (Suc n) m =
    copy_down dst src n (m(dst + of_nat n := m (src + of_nat n)))"
  by (simp add: copy_down_def)

text \<open>Neither region wraps around the top of the address space.\<close>

definition no_wrap :: "u32 \<Rightarrow> nat \<Rightarrow> bool" where
  "no_wrap p n \<longleftrightarrow> unat p + n < 4294967296"

lemma no_wrap_index: "no_wrap p n \<Longrightarrow> i \<le> n \<Longrightarrow> unat (p + of_nat i) = unat p + i"
  by (simp add: no_wrap_def unat_plus_u32 unat_of_nat_u32)

definition moved :: "u32 \<Rightarrow> u32 \<Rightarrow> nat \<Rightarrow> bytes \<Rightarrow> bytes" where
  "moved dst src n m =
     (\<lambda>a. if unat dst \<le> unat a \<and> unat a < unat dst + n then m (src + (a - dst)) else m a)"

lemma moved_0 [simp]: "moved dst src 0 m = m"
  by (auto simp: moved_def fun_eq_iff)

lemma copy_up_moved:
  assumes "no_wrap dst n" "no_wrap src n" "dst \<le> src \<or> unat src + n \<le> unat dst"
  shows "copy_up dst src n m = moved dst src n m"
  using assms
proof (induction n)
  case (Suc n)
  then have IH: "copy_up dst src n m = moved dst src n m" by (auto simp: no_wrap_def)
  have d: "unat (dst + of_nat n) = unat dst + n" and s: "unat (src + of_nat n) = unat src + n"
    using Suc.prems by (simp_all add: no_wrap_index)
  have "moved dst src n m (src + of_nat n) = m (src + of_nat n)"
    using Suc.prems(3) s by (auto simp: moved_def word_le_nat_alt)
  then have "copy_up dst src (Suc n) m = (moved dst src n m)(dst + of_nat n := m (src + of_nat n))"
    by (simp add: copy_up_Suc IH)
  also have "\<dots> = moved dst src (Suc n) m"
  proof
    fix a
    have "a = dst + of_nat n \<longleftrightarrow> unat a = unat dst + n" using d by (simp add: u32_eq_iff)
    then show "((moved dst src n m)(dst + of_nat n := m (src + of_nat n))) a = moved dst src (Suc n) m a"
      by (auto simp: moved_def)
  qed
  finally show ?case .
qed (simp add: copy_up_def)

lemma copy_down_moved:
  assumes "no_wrap dst n" "no_wrap src n" "src \<le> dst"
  shows "copy_down dst src n m = moved dst src n m"
  using assms
proof (induction n arbitrary: m)
  case (Suc n)
  have nw: "no_wrap dst n" "no_wrap src n" using Suc.prems by (auto simp: no_wrap_def)
  have d: "unat (dst + of_nat n) = unat dst + n" using Suc.prems by (simp add: no_wrap_index)
  let ?m = "m(dst + of_nat n := m (src + of_nat n))"
  have "copy_down dst src (Suc n) m = moved dst src n ?m"
    unfolding copy_down_Suc by (rule Suc.IH [OF nw Suc.prems(3)])
  also have "\<dots> = moved dst src (Suc n) m"
  proof
    fix a
    have e: "a = dst + of_nat n \<longleftrightarrow> unat a = unat dst + n" using d by (simp add: u32_eq_iff)
    show "moved dst src n ?m a = moved dst src (Suc n) m a"
    proof (cases "unat dst \<le> unat a \<and> unat a < unat dst + n")
      case True
      have "unat (a - dst) = unat a - unat dst" using True by (intro unat_sub) (simp add: word_le_nat_alt)
      then have "unat (src + (a - dst)) = unat src + (unat a - unat dst)"
        using True Suc.prems by (intro trans [OF unat_plus_u32]) (auto simp: no_wrap_def)
      then have "unat (src + (a - dst)) \<noteq> unat (dst + of_nat n)"
        using True Suc.prems(3) d by (auto simp: word_le_nat_alt)
      then have "src + (a - dst) \<noteq> dst + of_nat n" unfolding u32_eq_iff .
      then show ?thesis using True by (simp add: moved_def)
    next
      case False
      then show ?thesis using e d by (auto simp: moved_def)
    qed
  qed
  finally show ?case .
qed (simp add: copy_down_def)


subsection \<open>Strings in memory\<close>

text \<open>The bytes \<open>xs\<close>, none of them zero, lie at \<open>p\<close> and a terminator behind them.\<close>

fun cstr :: "bytes \<Rightarrow> u32 \<Rightarrow> u8 list \<Rightarrow> bool" where
  "cstr m p [] \<longleftrightarrow> m p = 0"
| "cstr m p (x # xs) \<longleftrightarrow> x \<noteq> 0 \<and> m p = x \<and> cstr m (p + 1) xs"

lemma cstr_frame:
  "(\<And>i. i \<le> length xs \<Longrightarrow> k (p + of_nat i) = m (p + of_nat i)) \<Longrightarrow> cstr k p xs = cstr m p xs"
proof (induction xs arbitrary: p)
  case (Cons x xs)
  have "k (p + 1 + of_nat i) = m (p + 1 + of_nat i)" if "i \<le> length xs" for i
    using Cons.prems [of "Suc i"] that by (simp add: algebra_simps)
  moreover have "k p = m p" using Cons.prems [of 0] by simp
  ultimately show ?case using Cons.IH [of "p + 1"] by simp
next
  case Nil
  show ?case using Nil [of 0] by simp
qed

lemma strlen_from_cstr: "cstr m (p + n) xs \<Longrightarrow> strlen_from m p n = Some (n + of_nat (length xs))"
proof (induction xs arbitrary: n)
  case Nil
  then show ?case by (subst strlen_from.simps) simp
next
  case (Cons x xs)
  then have "strlen_from m p (n + 1) = Some (n + 1 + of_nat (length xs))"
    by (intro Cons.IH) (simp add: algebra_simps)
  then show ?case using Cons.prems by (subst strlen_from.simps) (simp add: algebra_simps)
qed

lemma strlen_cstr: "cstr m p xs \<Longrightarrow> strlen m p = Some (of_nat (length xs))"
  using strlen_from_cstr [of m p 0 xs] by (simp add: strlen_def)

text \<open>\<open>strcmp\<close> returns the difference of the first bytes that differ, a terminator counting as zero.\<close>

fun first_diff :: "u8 list \<Rightarrow> u8 list \<Rightarrow> u32" where
  "first_diff [] [] = 0"
| "first_diff [] (y # ys) = - ucast y"
| "first_diff (x # xs) [] = ucast x"
| "first_diff (x # xs) (y # ys) = (if x = y then first_diff xs ys else ucast x - ucast y)"

lemma strcmp_first_diff:
  "cstr m p xs \<Longrightarrow> cstr m q ys \<Longrightarrow> strcmp m p q = Some (first_diff xs ys)"
proof (induction xs arbitrary: p q ys)
  case Nil
  then show ?case by (cases ys; subst strcmp.simps; simp)
next
  case (Cons x xs)
  show ?case
  proof (cases ys)
    case Nil
    with Cons.prems show ?thesis by (subst strcmp.simps) simp
  next
    case (Cons y zs)
    with Cons.prems Cons.IH [of "p + 1" "q + 1" zs] show ?thesis by (subst strcmp.simps) auto
  qed
qed

lemma ucast_u8_eq [simp]: "(ucast (x :: u8) :: u32) = ucast y \<longleftrightarrow> x = y"
  by (metis ucast_down_up(1))

lemma ucast_u8_zero [simp]: "(ucast (x :: u8) :: u32) = 0 \<longleftrightarrow> x = 0"
  using ucast_u8_eq [of x 0] by simp

lemma first_diff_zero: "0 \<notin> set xs \<Longrightarrow> 0 \<notin> set ys \<Longrightarrow> first_diff xs ys = 0 \<longleftrightarrow> xs = ys"
  by (induction xs ys rule: first_diff.induct) auto

lemma cstr_nonzero: "cstr m p xs \<Longrightarrow> 0 \<notin> set xs"
  by (induction xs arbitrary: p) auto

text \<open>Regions of the address space that neither wrap nor overlap.\<close>

definition apart :: "u32 \<Rightarrow> nat \<Rightarrow> u32 \<Rightarrow> nat \<Rightarrow> bool" where
  "apart p n q k \<longleftrightarrow> no_wrap p n \<and> no_wrap q k \<and> (unat p + n \<le> unat q \<or> unat q + k \<le> unat p)"

lemma cstr_stays:
  "cstr m p xs \<Longrightarrow> no_wrap p (Suc (length xs)) \<Longrightarrow> (\<And>q. unat p \<le> unat q \<Longrightarrow> unat q \<le> unat p + length xs \<Longrightarrow> m' q = m q) \<Longrightarrow> cstr m' p xs"
  using cstr_frame [of xs m' p m] no_wrap_index [of p "Suc (length xs)"] by simp

lemma apart_neq:
  assumes "apart p n q k" "i < n" "j < k"
  shows "p + of_nat i \<noteq> q + of_nat j"
proof -
  have "unat (p + of_nat i) = unat p + i" "unat (q + of_nat j) = unat q + j"
    using assms by (auto simp: apart_def intro!: no_wrap_index)
  then have "unat (p + of_nat i) \<noteq> unat (q + of_nat j)" using assms unfolding apart_def by linarith
  then show ?thesis unfolding u32_eq_iff .
qed

lemma apart_step:
  assumes "apart p (Suc n) q (Suc k)"
  shows "apart (p + 1) n (q + 1) k"
proof -
  have "unat (p + 1) = unat p + 1" "unat (q + 1) = unat q + 1"
    using assms by (auto simp: apart_def no_wrap_def unat_plus1_u32)
  then show ?thesis using assms unfolding apart_def no_wrap_def by linarith
qed

text \<open>Copying a string, with its terminator, to a place apart from it.\<close>

lemma strcat_from_copies:
  assumes "cstr m (src + j) xs" "apart (d + j) (Suc (length xs)) (src + j) (Suc (length xs))"
  shows "\<exists>m'. strcat_from d src j m = Some m' \<and> cstr m' (d + j) xs
     \<and> (\<forall>a. unat a < unat (d + j) \<or> unat (d + j) + length xs < unat a \<longrightarrow> m' a = m a)"
  using assms
proof (induction xs arbitrary: j m)
  case Nil
  then show ?case by (subst strcat_from.simps) auto
next
  case (Cons x xs)
  define D S where "D = d + j" and "S = src + j"
  have ds: "d + (j + 1) = D + 1" "src + (j + 1) = S + 1" by (simp_all add: D_def S_def)
  have ap: "apart D (Suc (Suc (length xs))) S (Suc (Suc (length xs)))"
    using Cons.prems(2) by (simp add: D_def S_def)
  let ?m = "m(D := x)"
  have x: "m S = x" "x \<noteq> 0" "cstr m (S + 1) xs" using Cons.prems(1) by (simp_all add: S_def)
  have run: "strcat_from d src j m = strcat_from d src (j + 1) ?m"
    using x by (subst strcat_from.simps) (simp add: D_def S_def)
  have D1: "unat (D + 1) = unat D + 1" using ap by (simp add: apart_def no_wrap_def unat_plus1_u32)
  have "?m (S + 1 + of_nat i) = m (S + 1 + of_nat i)" if "i \<le> length xs" for i
    using apart_neq [OF ap, of 0 "Suc i"] that by (simp add: add.assoc)
  then have c: "cstr ?m (src + (j + 1)) xs" using x(3) cstr_frame [of xs ?m "S + 1" m] unfolding ds by blast
  have "apart (d + (j + 1)) (Suc (length xs)) (src + (j + 1)) (Suc (length xs))"
    unfolding ds by (rule apart_step [OF ap])
  from Cons.IH [OF c this] obtain m' where m': "strcat_from d src (j + 1) ?m = Some m'" "cstr m' (D + 1) xs"
    "\<forall>a. unat a < unat (D + 1) \<or> unat (D + 1) + length xs < unat a \<longrightarrow> m' a = ?m a"
    unfolding ds by blast
  have "m' D = x" using m'(3) D1 by simp
  then have "cstr m' D (x # xs)" using m'(2) x(2) by simp
  moreover have "m' a = m a" if "unat a < unat D \<or> unat D + length (x # xs) < unat a" for a
  proof -
    have "a \<noteq> D" using that by auto
    then show ?thesis using m'(3) that D1 by auto
  qed
  ultimately show ?case using run m'(1) unfolding D_def by auto
qed

lemma strcpy_from_eq_strcat_from:
  assumes "cstr m (src + j) xs" "apart (d + j) (Suc (length xs)) (src + j) (Suc (length xs))"
  shows "strcpy_from d src j m = strcat_from d src j m"
  using assms
proof (induction xs arbitrary: j m)
  case Nil
  then show ?case by (subst strcpy_from.simps, subst strcat_from.simps) (simp add: Let_def)
next
  case (Cons x xs)
  define D S where "D = d + j" and "S = src + j"
  have ds: "d + (j + 1) = D + 1" "src + (j + 1) = S + 1" by (simp_all add: D_def S_def)
  have ap: "apart D (Suc (Suc (length xs))) S (Suc (Suc (length xs)))"
    using Cons.prems(2) by (simp add: D_def S_def)
  let ?m = "m(D := x)"
  have x: "m S = x" "x \<noteq> 0" "cstr m (S + 1) xs" using Cons.prems(1) by (simp_all add: S_def)
  have "?m (S + 1 + of_nat i) = m (S + 1 + of_nat i)" if "i \<le> length xs" for i
    using apart_neq [OF ap, of 0 "Suc i"] that by (simp add: add.assoc)
  then have c: "cstr ?m (src + (j + 1)) xs" using x(3) cstr_frame [of xs ?m "S + 1" m] unfolding ds by blast
  have "apart (d + (j + 1)) (Suc (length xs)) (src + (j + 1)) (Suc (length xs))"
    unfolding ds by (rule apart_step [OF ap])
  from Cons.IH [OF c this] have IH: "strcpy_from d src (j + 1) ?m = strcat_from d src (j + 1) ?m" .
  have "strcpy_from d src j m = strcpy_from d src (j + 1) ?m"
    by (subst strcpy_from.simps) (simp only: Let_def fun_upd_same D_def [symmetric] S_def [symmetric] x if_False)
  moreover have "strcat_from d src j m = strcat_from d src (j + 1) ?m"
    by (subst strcat_from.simps) (simp only: D_def [symmetric] S_def [symmetric] x if_True not_False_eq_True)
  ultimately show ?case using IH by simp
qed

lemma cstr_append:
  "cstr m p (xs @ ys) \<longleftrightarrow> (\<forall>i < length xs. m (p + of_nat i) = xs ! i \<and> xs ! i \<noteq> 0)
     \<and> cstr m (p + of_nat (length xs)) ys"
proof (induction xs arbitrary: p)
  case (Cons x xs)
  have "(\<forall>i < Suc (length xs). P i) \<longleftrightarrow> P 0 \<and> (\<forall>i < length xs. P (Suc i))" for P
    by (auto simp: less_Suc_eq_0_disj)
  with Cons show ?case by (simp add: algebra_simps) blast
qed simp

text \<open>C9: \<open>memmove\<close> is right for overlapping blocks: for any two blocks that do not wrap around the
  address space, every byte of the destination becomes the byte that was at the matching place of
  the source before the call, and every other byte of the memory keeps its value.
\<close>

theorem memmove_correct:
  assumes "no_wrap dst (unat sz)" "no_wrap src (unat sz)"
  shows "fst (memmove dst src sz m) = dst
    \<and> (\<forall>i < unat sz. snd (memmove dst src sz m) (dst + of_nat i) = m (src + of_nat i))
    \<and> (\<forall>a. unat a < unat dst \<or> unat dst + unat sz \<le> unat a \<longrightarrow> snd (memmove dst src sz m) a = m a)"
proof -
  have mv: "snd (memmove dst src sz m) = moved dst src (unat sz) m"
    using copy_up_moved [OF assms] copy_down_moved [OF assms]
    by (cases "dst < src") (auto simp: memmove_def not_less dest: less_imp_le)
  have "moved dst src (unat sz) m (dst + of_nat i) = m (src + of_nat i)" if "i < unat sz" for i
    using no_wrap_index [OF assms(1), of i] that by (simp add: moved_def)
  moreover have "moved dst src (unat sz) m a = m a" if "unat a < unat dst \<or> unat dst + unat sz \<le> unat a" for a
    using that by (auto simp: moved_def)
  ultimately show ?thesis unfolding mv by (simp add: memmove_def)
qed

text \<open>A forward copy of overlapping blocks, \<open>memcpy\<close>, is not a move.\<close>

lemma memmove_correct_witness:
  "snd (memmove 2 1 2 ucast) 3 = (2 :: u8) \<and> snd (memcpy 2 1 2 ucast) 3 = (1 :: u8)"
  using memmove_correct [of 2 2 1 ucast] by (auto simp: no_wrap_def memcpy_def copy_up_def upt_rec dest: spec [of _ 1])

text \<open>\<open>strcmp\<close> on two terminated strings ends, and returns zero exactly if the strings are equal.
\<close>

theorem strcmp_zero_iff_equal:
  assumes "cstr m p xs" "cstr m q ys"
  shows "\<exists>r. strcmp m p q = Some r \<and> (r = 0 \<longleftrightarrow> xs = ys)"
  using strcmp_first_diff [OF assms] first_diff_zero [OF assms [THEN cstr_nonzero]] by simp

lemma strcmp_zero_iff_equal_witness:
  "\<exists>r. strcmp ((\<lambda>_. 0)(10 := 97, 11 := 98, 20 := 97)) 10 20 = Some r \<and> r \<noteq> 0"
  using strcmp_zero_iff_equal [of "(\<lambda>_. 0)(10 := 97, 11 := 98, 20 := 97)" 10 "[97, 98]" 20 "[97]"] by auto

text \<open>\<open>strcat\<close> appends: when the source lies apart from the place behind the destination's last
  character, the call ends, the destination then holds the destination's characters followed by the
  source's and one terminator, and no byte outside the appended part changes.
\<close>

theorem strcat_appends:
  assumes "cstr m dest xs" "cstr m src ys"
    "apart (dest + of_nat (length xs)) (Suc (length ys)) src (Suc (length ys))"
    "no_wrap dest (length xs + Suc (length ys))"
  shows "\<exists>m'. strcat dest src m = Some (dest, m') \<and> cstr m' dest (xs @ ys)
     \<and> (\<forall>a. unat a < unat dest + length xs \<or> unat dest + length xs + length ys < unat a \<longrightarrow> m' a = m a)"
proof -
  have len: "strlen_from m dest 0 = Some (of_nat (length xs))"
    using strlen_cstr [OF assms(1)] by (simp add: strlen_def)
  have e: "unat (dest + of_nat (length xs)) = unat dest + length xs"
    using assms(4) by (intro no_wrap_index [of _ "length xs + Suc (length ys)"]) auto
  obtain m' where m': "strcat_from (dest + of_nat (length xs)) src 0 m = Some m'"
      "cstr m' (dest + of_nat (length xs)) ys"
      "\<forall>a. unat a < unat dest + length xs \<or> unat dest + length xs + length ys < unat a \<longrightarrow> m' a = m a"
    using strcat_from_copies [of m src 0 ys "dest + of_nat (length xs)"] assms e by auto
  have "m' (dest + of_nat i) = xs ! i \<and> xs ! i \<noteq> 0" if "i < length xs" for i
  proof -
    have "unat (dest + of_nat i) = unat dest + i"
      using assms(4) that by (intro no_wrap_index [of _ "length xs + Suc (length ys)"]) auto
    moreover have "m (dest + of_nat i) = xs ! i \<and> xs ! i \<noteq> 0"
      using assms(1) cstr_append [of m dest xs "[]"] that by simp
    ultimately show ?thesis using m'(3) that by auto
  qed
  then have "cstr m' dest (xs @ ys)" using m'(2) by (simp add: cstr_append)
  then show ?thesis using len m' by (auto simp: strcat_def)
qed

lemma strcat_appends_witness:
  "\<exists>m'. strcat 10 20 ((\<lambda>_. 0)(10 := 97, 20 := 98)) = Some (10, m') \<and> cstr m' 10 [97, 98]"
  using strcat_appends [of "(\<lambda>_. 0)(10 := 97, 20 := 98)" 10 "[97]" 20 "[98]"]
  by (auto simp: apart_def no_wrap_def)

lemma strcpy_copies:
  assumes "cstr m src xs" "apart dest (Suc (length xs)) src (Suc (length xs))"
  shows "\<exists>m'. strcpy dest src m = Some m' \<and> cstr m' dest xs
     \<and> (\<forall>a. unat a < unat dest \<or> unat dest + length xs < unat a \<longrightarrow> m' a = m a)"
  using strcat_from_copies [of m src 0 xs dest] strcpy_from_eq_strcat_from [of m src 0 xs dest] assms
  by (simp add: strcpy_def)

text \<open>\<open>strncpy\<close> does not stay inside the \<open>num\<close> bytes it is given: a source of \<open>num\<close> characters or
  more makes it write a terminator at \<open>destination[num]\<close>.
\<close>

theorem strncpy_writes_behind:
  assumes "destination \<noteq> 0" "\<forall>i < unat num. m (source + of_nat i) \<noteq> 0"
    "apart destination (Suc (unat num)) source (Suc (unat num))"
  shows "snd (strncpy destination source num m) (destination + num) = 0"
proof -
  have "ncopy d s n k (d + of_nat n) = 0"
    if "\<forall>i < n. k (s + of_nat i) \<noteq> 0" "apart d (Suc n) s (Suc n)" for d s n k
    using that
  proof (induction d s n k rule: ncopy.induct)
    case (2 d s n k)
    have "(k(d := k s)) (s + 1 + of_nat i) \<noteq> 0" if "i < n" for i
      using 2(2) apart_neq [OF 2(3), of 0 "Suc i"] that by (auto simp: add.assoc dest: spec [of _ "Suc i"])
    moreover have "apart (d + 1) (Suc n) (s + 1) (Suc n)"
    proof -
      have "apart (d + 1) n (s + 1) n" "unat (d + 1) = unat d + 1" "unat (s + 1) = unat s + 1"
        using apart_step 2(3) by (auto simp: apart_def no_wrap_def unat_plus1_u32)
      then show ?thesis using 2(3) by (auto simp: apart_def no_wrap_def)
    qed
    moreover have nz: "k s \<noteq> 0" using 2(2) by (auto dest: spec [of _ 0])
    ultimately have "ncopy (d + 1) (s + 1) n (k(d := k s)) (d + 1 + of_nat n) = 0" using 2(1) by blast
    moreover have "d + 1 + of_nat n = d + of_nat (Suc n)" by simp
    ultimately show ?case unfolding ncopy.simps using nz by simp
  qed simp
  from this [OF assms(2,3)] show ?thesis using assms(1) by (simp add: strncpy_def)
qed

lemma strncpy_writes_behind_witness:
  "snd (strncpy 10 20 1 ((\<lambda>_. 7)(21 := 0))) 11 = 0"
  using strncpy_writes_behind [of 10 1 "(\<lambda>_. 7)(21 := 0)" 20] by (simp add: apart_def no_wrap_def)

end
