(* ===== verification/Vfs.thy ===== *)
theory Vfs
  imports Cstring
begin

text \<open>
  The file system layer, \<open>os/kernel/fs/vfs.c\<close>, and the path helpers of
  \<open>os/kernel/include/kernel/misc/pathutils.h\<close>. C strings are lists of bytes without their
  terminator. Nodes and their \<open>entry\<close> parts are objects at addresses, so that a copied node
  (\<open>kopen\<close>) shares its entry with the original. \<open>kmalloc\<close> hands out the addresses of \<open>avail\<close>
  in order (theory Kheap is the allocator itself; its \<open>kmalloc_fresh_disjoint\<close> is why they are
  distinct), and \<open>kfree\<close> does nothing, as in kheap.c. A file system is a record of optional
  operations on the state, \<open>None\<close> standing for a function pointer that \<open>validate\<close> refuses;
  the parameter \<open>v\<close> is \<open>validate\<close> on node pointers. Console output is left out.
\<close>

subsection \<open>Paths\<close>

type_synonym cstring = "u8 list"

abbreviation slash :: u8 where "slash \<equiv> 47"

definition canonize_absolute :: "cstring \<Rightarrow> cstring res" where
  "canonize_absolute path =
     (if path = [] then Inl Wild
      else Inr ((if hd path \<noteq> slash then [slash] else []) @ path
                @ (if last path \<noteq> slash then [slash] else [])))"

definition path_size :: "cstring \<Rightarrow> u32" where
  "path_size path = of_nat (length (filter (\<lambda>c. c = slash) path)) - 1"

text \<open>The result of \<open>substr\<close> on a string; its indices are in range at both of its callers.\<close>

definition substr_str :: "cstring \<Rightarrow> int \<Rightarrow> int \<Rightarrow> cstring" where
  "substr_str src m n = (if src = [] then [] else take (nat (n - m)) (drop (nat m) src))"

fun block_scan :: "u32 \<Rightarrow> cstring \<Rightarrow> int \<Rightarrow> u32 \<Rightarrow> int \<Rightarrow> int \<times> int" where
  "block_scan block [] i blocks a = (a, - 1)"
| "block_scan block (c # cs) i blocks a =
     (if blocks = block \<and> c = slash
      then (if a < 0 then block_scan block cs (i + 1) blocks (i + 1) else (a, i))
      else if c = slash then block_scan block cs (i + 1) (blocks + 1) a
      else block_scan block cs (i + 1) blocks a)"

definition path_block :: "cstring \<Rightarrow> u32 \<Rightarrow> cstring" where
  "path_block path block =
     (let (a, b) = block_scan block path 0 0 (- 1)
      in if a > 0 \<and> b > 0 then substr_str path a b else path)"

subsection \<open>Nodes and file systems\<close>

record fs_node =
  nname :: cstring
  owner :: u32
  nsize :: u32
  inode :: u32
  nflags :: u8
  open_flags :: u8
  device :: u32
  entry :: u32
  fsid :: u16
  nioctl :: u32

record vfs_entry =
  child_count :: u32
  childs :: "nat \<Rightarrow> u32"
  parent :: u32

record vfs =
  nodes :: "u32 \<Rightarrow> fs_node option"
  entries :: "u32 \<Rightarrow> vfs_entry option"
  root :: u32
  avail :: "u32 list"
  mem :: "u32 \<Rightarrow> u8"

record fs_dir =
  chld_cnt :: u32
  chlds :: "u32 list"

text \<open>\<open>fs_t\<close>. The \<open>ioctl\<close> pointer of a node selects one of the functions of \<open>nioctls\<close>, the code
  at that address.\<close>

record fs =
  fs_name :: cstring
  fmount :: "(u32 \<Rightarrow> u32 \<Rightarrow> vfs \<Rightarrow> (u32 \<times> vfs) res) option"
  fumount :: "(u32 \<Rightarrow> vfs \<Rightarrow> (u8 \<times> vfs) res) option"
  fread :: "(u32 \<Rightarrow> u64 \<Rightarrow> u32 \<Rightarrow> u32 \<Rightarrow> vfs \<Rightarrow> (u32 \<times> vfs) res) option"
  fwrite :: "(u32 \<Rightarrow> u64 \<Rightarrow> u32 \<Rightarrow> u32 \<Rightarrow> vfs \<Rightarrow> (u32 \<times> vfs) res) option"
  fseek :: "(cstring \<Rightarrow> u32 \<Rightarrow> vfs \<Rightarrow> (u32 \<times> vfs) res) option"
  fcreate :: "(cstring \<Rightarrow> u32 \<Rightarrow> u8 \<Rightarrow> vfs \<Rightarrow> (u32 \<times> vfs) res) option"
  freaddir :: "(u32 \<Rightarrow> vfs \<Rightarrow> (fs_dir option \<times> vfs) res) option"
  fremove :: "(u32 \<Rightarrow> vfs \<Rightarrow> (u8 \<times> vfs) res) option"
  fioctl :: "(u32 \<Rightarrow> u32 \<Rightarrow> u32 \<Rightarrow> vfs \<Rightarrow> (u32 \<times> vfs) res) option"

record fstab =
  fss :: "fs option list"
  fsidx :: u16

abbreviation VFS_DIRECTORY :: u8 where "VFS_DIRECTORY \<equiv> 1"
abbreviation VFS_MOUNTPOINT :: u8 where "VFS_MOUNTPOINT \<equiv> 2"
abbreviation VFS_LINK :: u8 where "VFS_LINK \<equiv> 4"
abbreviation VFS_TYPE_VIRTUAL :: u8 where "VFS_TYPE_VIRTUAL \<equiv> 1"

definition vfs_set_flag :: "u8 \<Rightarrow> u8 \<Rightarrow> u8" where
  "vfs_set_flag flags flag = flags OR ucast (push_bit (unat flag) (1 :: u32))"

definition vfs_clear_flag :: "u8 \<Rightarrow> u8 \<Rightarrow> u8" where
  "vfs_clear_flag flags flag = flags AND ucast (NOT (push_bit (unat flag) (1 :: u32)))"

definition vfs_check_flag :: "u8 \<Rightarrow> u8 \<Rightarrow> u8" where
  "vfs_check_flag flags flag = flags AND ucast (push_bit (unat flag) (1 :: u32))"

text \<open>Reading an object through a pointer.\<close>

definition get_node :: "u32 \<Rightarrow> vfs \<Rightarrow> fs_node res" where
  "get_node p s = (case nodes s p of None \<Rightarrow> Inl Wild | Some n \<Rightarrow> Inr n)"

definition get_entry :: "u32 \<Rightarrow> vfs \<Rightarrow> vfs_entry res" where
  "get_entry p s = (case entries s p of None \<Rightarrow> Inl Wild | Some e \<Rightarrow> Inr e)"

definition get_fs :: "fstab \<Rightarrow> u16 \<Rightarrow> fs res" where
  "get_fs t i = sbind (load_at (fss t) (unat i)) (\<lambda>f. case f of None \<Rightarrow> Inl Wild | Some x \<Rightarrow> Inr x)"

definition kalloc :: "vfs \<Rightarrow> (u32 \<times> vfs) res" where
  "kalloc s = (case avail s of [] \<Rightarrow> Inl (Panic ''KHEAP: Out of memory'') | p # ps \<Rightarrow> Inr (p, s\<lparr>avail := ps\<rparr>))"

abbreviation set_node :: "u32 \<Rightarrow> fs_node \<Rightarrow> vfs \<Rightarrow> vfs" where
  "set_node p n s \<equiv> s\<lparr>nodes := (nodes s)(p \<mapsto> n)\<rparr>"

abbreviation set_entry :: "u32 \<Rightarrow> vfs_entry \<Rightarrow> vfs \<Rightarrow> vfs" where
  "set_entry p e s \<equiv> s\<lparr>entries := (entries s)(p \<mapsto> e)\<rparr>"

definition allocate_fs_node :: "vfs \<Rightarrow> (u32 \<times> vfs) res" where
  "allocate_fs_node s =
     sbind (kalloc s) (\<lambda>(p, s).
     sbind (kalloc s) (\<lambda>(e, s).
       Inr (p, set_node p \<lparr>nname = [], owner = 0, nsize = 0, inode = 0, nflags = 0, open_flags = 0,
                 device = 0, entry = e, fsid = 0, nioctl = 0\<rparr>
               (set_entry e \<lparr>child_count = 0, childs = (\<lambda>_. 0), parent = 0\<rparr> s))))"

definition register_fs :: "fs option \<Rightarrow> fstab \<Rightarrow> (u16 \<times> fstab) res" where
  "register_fs f t =
     sbind (store_at (fss t) (unat (fsidx t)) f) (\<lambda>xs.
       Inr (fsidx t, t\<lparr>fss := xs, fsidx := fsidx t + 1\<rparr>))"

subsection \<open>The virtual file system\<close>

definition copy_mem :: "u32 \<Rightarrow> u32 \<Rightarrow> u32 \<Rightarrow> vfs \<Rightarrow> vfs" where
  "copy_mem dst src n s = s\<lparr>mem := snd (memcpy dst src n (mem s))\<rparr>"

definition vfs_read :: "u32 \<Rightarrow> u64 \<Rightarrow> u32 \<Rightarrow> u32 \<Rightarrow> vfs \<Rightarrow> (u32 \<times> vfs) res" where
  "vfs_read node offset sz buffer s =
     sbind (get_node node s) (\<lambda>n.
       if inode n = 0 then Inr (0, s)
       else Inr (sz, copy_mem buffer (inode n + ucast offset) sz s))"

definition vfs_write :: "u32 \<Rightarrow> u64 \<Rightarrow> u32 \<Rightarrow> u32 \<Rightarrow> vfs \<Rightarrow> (u32 \<times> vfs) res" where
  "vfs_write node offset sz buffer s =
     sbind (get_node node s) (\<lambda>n.
       if inode n = 0 then Inr (0, s)
       else Inr (sz, copy_mem (inode n + ucast offset) buffer sz s))"

fun find_child :: "cstring \<Rightarrow> u32 list \<Rightarrow> vfs \<Rightarrow> u32 res" where
  "find_child name [] s = Inr 0"
| "find_child name (c # cs) s =
     sbind (get_node c s) (\<lambda>n. if name = nname n then Inr c else find_child name cs s)"

definition child_list :: "vfs_entry \<Rightarrow> u32 list" where
  "child_list e = List.map (childs e) [0..<unat (child_count e)]"

definition vfs_seek :: "cstring \<Rightarrow> u32 \<Rightarrow> vfs \<Rightarrow> u32 res" where
  "vfs_seek name par s =
     (let par = (if par = 0 then root s else par) in
      sbind (get_node par s) (\<lambda>p. sbind (get_entry (entry p) s) (\<lambda>e. find_child name (child_list e) s)))"

text \<open>The array of children is allocated for the first child and reallocated for each further one.\<close>

definition vfs_create :: "cstring \<Rightarrow> u32 \<Rightarrow> u8 \<Rightarrow> vfs \<Rightarrow> (u32 \<times> vfs) res" where
  "vfs_create name par type s =
     sbind (allocate_fs_node s) (\<lambda>(new, s).
     if length name \<ge> 64 then Inl Wild
     else sbind (get_node new s) (\<lambda>n.
     let s = set_node new (n\<lparr>nname := name, device := 0\<rparr>) s in
     sbind (get_entry (entry n) s) (\<lambda>ne.
     let s = set_entry (entry n) (ne\<lparr>parent := par\<rparr>) s in
     sbind (get_node par s) (\<lambda>p.
     sbind (get_entry (entry p) s) (\<lambda>pe.
     let cnt = child_count pe + 1 in
     sbind (kalloc s) (\<lambda>(_, s).
       Inr (new, set_entry (entry p)
                   (pe\<lparr>child_count := cnt, childs := (childs pe)(unat (cnt - 1) := new)\<rparr>) s)))))))"

definition init_vfs :: "fstab \<Rightarrow> vfs \<Rightarrow> (fstab \<times> vfs) res" where
  "init_vfs t s =
     sbind (kalloc s) (\<lambda>(_, s).
     sbind (register_fs (Some \<lparr>fs_name = [118, 102, 115], fmount = None, fumount = None,
        fread = Some vfs_read, fwrite = Some vfs_write,
        fseek = Some (\<lambda>nm par s. sbind (vfs_seek nm par s) (\<lambda>r. Inr (r, s))),
        fcreate = Some vfs_create, freaddir = None, fremove = None, fioctl = None\<rparr>) t) (\<lambda>(_, t).
     sbind (allocate_fs_node s) (\<lambda>(r, s).
     sbind (get_node r s) (\<lambda>n.
       Inr (t, (set_node r (n\<lparr>nname := [91, 102, 115, 114, 111, 111, 116, 93], fsid := 0\<rparr>) s)\<lparr>root := r\<rparr>)))))"

subsection \<open>Lookup and creation\<close>

text \<open>One component of the path: a child in the tree, else the file system of the node is asked.\<close>

definition kseek_step :: "fstab \<Rightarrow> cstring \<Rightarrow> u32 \<Rightarrow> vfs \<Rightarrow> ((u32, u32) sum \<times> vfs) res" where
  "kseek_step t part rnode s =
     sbind (vfs_seek part rnode s) (\<lambda>vc.
     if vc \<noteq> 0 then Inr (Inr vc, s)
     else if rnode = 0 then Inr (Inl 0, s)
     else sbind (get_node rnode s) (\<lambda>n.
     if fsid n = 0 then Inr (Inl 0, s)
     else sbind (get_fs t (fsid n)) (\<lambda>f.
     case fseek f of
       None \<Rightarrow> Inr (Inl 0, s)
     | Some g \<Rightarrow> sbind (g part rnode s) (\<lambda>(r, s). Inr (Inr r, s)))))"

fun kseek_loop :: "fstab \<Rightarrow> cstring \<Rightarrow> nat \<Rightarrow> nat \<Rightarrow> u32 \<Rightarrow> vfs \<Rightarrow> (u32 \<times> vfs) res" where
  "kseek_loop t npath i 0 rnode s = Inr (rnode, s)"
| "kseek_loop t npath i (Suc k) rnode s =
     sbind (kseek_step t (path_block npath (of_nat i)) rnode s) (\<lambda>(r, s).
       case r of Inl x \<Rightarrow> Inr (x, s) | Inr rnode \<Rightarrow> kseek_loop t npath (i + 1) k rnode s)"

definition kseek :: "fstab \<Rightarrow> cstring \<Rightarrow> vfs \<Rightarrow> (u32 \<times> vfs) res" where
  "kseek t path s =
     (if path = [slash] then Inr (root s, s)
      else sbind (canonize_absolute path) (\<lambda>npath.
        kseek_loop t npath 0 (unat (path_size npath)) (root s) s))"

definition kcreate_in :: "fstab \<Rightarrow> cstring \<Rightarrow> u32 \<Rightarrow> u8 \<Rightarrow> vfs \<Rightarrow> (u32 \<times> vfs) res" where
  "kcreate_in t name par type s =
     (if par = 0 then Inl Wild
      else if type = VFS_TYPE_VIRTUAL then vfs_create name par type s
      else sbind (get_node par s) (\<lambda>p. sbind (get_fs t (fsid p)) (\<lambda>f.
        case fcreate f of None \<Rightarrow> vfs_create name par type s | Some g \<Rightarrow> g name par type s)))"

text \<open>\<open>kcreate\<close> splits off the last component; a missing parent is created first.\<close>

definition kcreate_split :: "cstring \<Rightarrow> (cstring \<times> cstring) res" where
  "kcreate_split path =
     sbind (canonize_absolute path) (\<lambda>path.
       let name = path_block path (path_size path - 1);
           n = int (length path) - int (length name) - 1
       in if n < 0 then Inl (Panic ''KHEAP: Invalid allocation'')
          else Inr (name, substr_str path 0 n))"

partial_function (option) kcreate :: "fstab \<Rightarrow> cstring \<Rightarrow> u8 \<Rightarrow> vfs \<Rightarrow> (u32 \<times> vfs) res option" where
  "kcreate t path type s =
     (case kcreate_split path of
        Inl e \<Rightarrow> Some (Inl e)
      | Inr (name, path) \<Rightarrow>
         (case kseek t path s of
            Inl e \<Rightarrow> Some (Inl e)
          | Inr (par, s) \<Rightarrow>
              if par \<noteq> 0 then Some (kcreate_in t name par type s)
              else Option.bind (kcreate t path type s) (\<lambda>r.
                Some (sbind r (\<lambda>(par, s). kcreate_in t name par type s)))))"

subsection \<open>Mounting, reading and writing\<close>

definition kmount_at :: "fstab \<Rightarrow> u32 \<Rightarrow> cstring \<Rightarrow> u16 \<Rightarrow> fs \<Rightarrow> vfs \<Rightarrow> (u32 \<times> vfs) res" where
  "kmount_at t mountpoint devicep fid f s =
     sbind (get_node mountpoint s) (\<lambda>n.
     let s = set_node mountpoint (n\<lparr>fsid := fid, nflags := vfs_set_flag (nflags n) VFS_MOUNTPOINT\<rparr>) s in
     sbind (if devicep \<noteq> []
            then sbind (kseek t devicep s) (\<lambda>(d, s).
                 sbind (get_node mountpoint s) (\<lambda>n. Inr (d, set_node mountpoint (n\<lparr>device := d\<rparr>) s)))
            else Inr (0, s)) (\<lambda>(dev, s).
     case fmount f of Some g \<Rightarrow> g mountpoint dev s | None \<Rightarrow> Inr (mountpoint, s)))"

definition kmount :: "fstab \<Rightarrow> cstring \<Rightarrow> cstring \<Rightarrow> u16 \<Rightarrow> vfs \<Rightarrow> (u32 \<times> vfs) res option" where
  "kmount t path devicep fid s =
     (if fsidx t \<le> fid then Some (Inr (0, s))
      else case get_fs t fid of
        Inl e \<Rightarrow> Some (Inl e)
      | Inr f \<Rightarrow>
         (case kseek t path s of
            Inl e \<Rightarrow> Some (Inl e)
          | Inr (mp, s) \<Rightarrow>
              if mp = 0 then
                Option.bind (kcreate t path VFS_TYPE_VIRTUAL s) (\<lambda>r.
                  Some (sbind r (\<lambda>(mp, s). if mp = 0 then Inr (0, s) else kmount_at t mp devicep fid f s)))
              else Some (sbind (get_node mp s) (\<lambda>n.
                if vfs_check_flag (nflags n) VFS_MOUNTPOINT \<noteq> 0 then Inr (0, s)
                else if vfs_check_flag (nflags n) VFS_LINK \<noteq> 0 then Inr (0, s)
                else kmount_at t mp devicep fid f s))))"

text \<open>Reads and writes follow one link.\<close>

definition real_node :: "u32 \<Rightarrow> vfs \<Rightarrow> u32 res" where
  "real_node node s = sbind (get_node node s) (\<lambda>n.
     Inr (if vfs_check_flag (nflags n) VFS_LINK \<noteq> 0 then inode n else node))"

definition kread :: "(u32 \<Rightarrow> bool) \<Rightarrow> fstab \<Rightarrow> u32 \<Rightarrow> u64 \<Rightarrow> u32 \<Rightarrow> u32 \<Rightarrow> vfs \<Rightarrow> (u32 \<times> vfs) res" where
  "kread v t node offset sz buffer s =
     sbind (real_node node s) (\<lambda>r.
     if v r then
       sbind (get_node r s) (\<lambda>n. sbind (get_fs t (fsid n)) (\<lambda>f.
         case fread f of Some g \<Rightarrow> g r offset sz buffer s | None \<Rightarrow> Inr (0, s)))
     else Inr (0, s))"

definition kwrite :: "(u32 \<Rightarrow> bool) \<Rightarrow> fstab \<Rightarrow> u32 \<Rightarrow> u64 \<Rightarrow> u32 \<Rightarrow> u32 \<Rightarrow> vfs \<Rightarrow> (u32 \<times> vfs) res" where
  "kwrite v t node offset sz buffer s =
     sbind (real_node node s) (\<lambda>r.
     if v r then
       sbind (get_node r s) (\<lambda>n. sbind (get_fs t (fsid n)) (\<lambda>f.
         case fwrite f of Some g \<Rightarrow> g r offset sz buffer s | None \<Rightarrow> Inr (0, s)))
     else Inr (0, s))"

text \<open>A listing takes two blocks, and one more for each reallocation.\<close>

definition kreaddir :: "fstab \<Rightarrow> u32 \<Rightarrow> vfs \<Rightarrow> (fs_dir \<times> vfs) res" where
  "kreaddir t node s =
     sbind (real_node node s) (\<lambda>node.
     sbind (kalloc s) (\<lambda>(_, s).
     sbind (kalloc s) (\<lambda>(_, s).
     sbind (get_node node s) (\<lambda>n.
     sbind (get_entry (entry n) s) (\<lambda>e.
     sbind (if child_count e \<noteq> 0
            then sbind (kalloc s) (\<lambda>(_, s). Inr (\<lparr>chld_cnt = child_count e, chlds = child_list e\<rparr>, s))
            else Inr (\<lparr>chld_cnt = 0, chlds = []\<rparr>, s)) (\<lambda>(dir, s).
     sbind (get_fs t (fsid n)) (\<lambda>f.
       case freaddir f of
         None \<Rightarrow> Inr (dir, s)
       | Some g \<Rightarrow> sbind (g node s) (\<lambda>(new, s).
           case new of
             None \<Rightarrow> Inr (dir, s)
           | Some nd \<Rightarrow> sbind (kalloc s) (\<lambda>(_, s).
               Inr (\<lparr>chld_cnt = chld_cnt dir + chld_cnt nd, chlds = chlds dir @ chlds nd\<rparr>, s))))))))))"

definition klink :: "fstab \<Rightarrow> cstring \<Rightarrow> cstring \<Rightarrow> vfs \<Rightarrow> (u8 \<times> vfs) res option" where
  "klink t path lnk s =
     (case kseek t path s of
        Inl e \<Rightarrow> Some (Inl e)
      | Inr (node, s) \<Rightarrow>
          if node = 0 then Some (Inr (0, s))
          else case kseek t lnk s of
            Inl e \<Rightarrow> Some (Inl e)
          | Inr (nlink, s) \<Rightarrow>
              Option.bind (if nlink = 0 then kcreate t lnk 0 s else Some (Inr (nlink, s))) (\<lambda>r.
                Some (sbind r (\<lambda>(nlink, s).
                  if nlink = 0 then Inr (0, s)
                  else sbind (get_node nlink s) (\<lambda>n.
                    Inr (1, set_node nlink (n\<lparr>nflags := vfs_set_flag (nflags n) VFS_LINK, inode := node\<rparr>) s))))))"

definition kioctl :: "(u32 \<Rightarrow> bool) \<Rightarrow> (u32 \<Rightarrow> (u32 \<Rightarrow> u32 \<Rightarrow> u32 \<Rightarrow> vfs \<Rightarrow> (u32 \<times> vfs) res) option) \<Rightarrow> fstab \<Rightarrow>
    u32 \<Rightarrow> u32 \<Rightarrow> u32 \<Rightarrow> vfs \<Rightarrow> (u32 \<times> vfs) res" where
  "kioctl v nioctls t node req argp s =
     (if \<not> v node then Inr (0, s)
      else sbind (get_node node s) (\<lambda>n.
        case nioctls (nioctl n) of
          Some g \<Rightarrow> g node req argp s
        | None \<Rightarrow> sbind (get_fs t (fsid n)) (\<lambda>f.
            case fioctl f of Some g \<Rightarrow> g node req argp s | None \<Rightarrow> Inr (0, s))))"

text \<open>The copy takes a node of its own, but its \<open>entry\<close> is the one of the original.\<close>

definition kopen :: "fstab \<Rightarrow> cstring \<Rightarrow> vfs \<Rightarrow> (u32 \<times> vfs) res" where
  "kopen t path s =
     sbind (kseek t path s) (\<lambda>(orig, s).
     if orig \<noteq> 0 then
       sbind (allocate_fs_node s) (\<lambda>(opened, s).
       sbind (get_node orig s) (\<lambda>n. Inr (opened, set_node opened n s)))
     else Inr (0, s))"

definition kclose :: "u32 \<Rightarrow> vfs \<Rightarrow> vfs" where
  "kclose node s = s"

fun ktypeid_from :: "cstring \<Rightarrow> fs option list \<Rightarrow> u16 \<Rightarrow> nat \<Rightarrow> u16 res" where
  "ktypeid_from name xs i 0 = Inr 0"
| "ktypeid_from name xs i (Suc k) =
     sbind (load_at xs (unat i)) (\<lambda>f. case f of
       None \<Rightarrow> Inl Wild
     | Some f \<Rightarrow> if fs_name f = name then Inr i else ktypeid_from name xs (i + 1) k)"

definition ktypeid :: "fstab \<Rightarrow> cstring \<Rightarrow> u16 res" where
  "ktypeid t name = ktypeid_from name (fss t) 0 (unat (fsidx t))"

subsection \<open>Removal\<close>

text \<open>\<open>kumount\<close> drops the result of \<open>vfs_clear_flag\<close>, and returns nothing when it succeeds.\<close>

definition kumount :: "fstab \<Rightarrow> u32 \<Rightarrow> vfs \<Rightarrow> (u8 option \<times> vfs) res" where
  "kumount t node s =
     (if node = 0 then Inr (Some 1, s)
      else sbind (get_node node s) (\<lambda>n.
        if vfs_check_flag (nflags n) VFS_MOUNTPOINT = 0 then Inr (Some 1, s)
        else sbind (get_fs t (fsid n)) (\<lambda>f.
          case fumount f of Some g \<Rightarrow> sbind (g node s) (\<lambda>(_, s). Inr (None, s)) | None \<Rightarrow> Inr (None, s))))"

text \<open>The scan of the parent's children: a child of the same name is cleared, and from there on
  every slot takes its successor.\<close>

fun unlink_loop :: "cstring \<Rightarrow> vfs \<Rightarrow> nat \<Rightarrow> nat \<Rightarrow> int \<Rightarrow> (nat \<Rightarrow> u32) \<Rightarrow> (int \<times> (nat \<Rightarrow> u32)) res" where
  "unlink_loop name s i 0 zero_idx cs = Inr (zero_idx, cs)"
| "unlink_loop name s i (Suc k) zero_idx cs =
     sbind (get_node (cs i) s) (\<lambda>c.
     let (zero_idx, cs) = (if nname c = name then (int i, cs(i := 0)) else (zero_idx, cs));
         (zero_idx, cs) = (if zero_idx \<ge> 0
            then (zero_idx + 1, cs(nat zero_idx := cs (nat zero_idx + 1))) else (zero_idx, cs))
     in unlink_loop name s (i + 1) k zero_idx cs)"

definition unlink_node :: "(u32 \<Rightarrow> bool) \<Rightarrow> u32 \<Rightarrow> vfs \<Rightarrow> vfs res" where
  "unlink_node v node s =
     sbind (get_node node s) (\<lambda>n.
     sbind (get_entry (entry n) s) (\<lambda>e.
     if \<not> v (parent e) then Inr s
     else sbind (get_node (parent e) s) (\<lambda>p.
       sbind (get_entry (entry p) s) (\<lambda>pe.
       sbind (unlink_loop (nname n) s 0 (unat (child_count pe)) (- 1) (childs pe)) (\<lambda>(z, cs).
         Inr (set_entry (entry p) (pe\<lparr>child_count := (if z \<noteq> 0 then child_count pe - 1 else child_count pe),
                                       childs := cs\<rparr>) s))))))"

text \<open>\<open>kremove\<close> and \<open>vfs_remove\<close> call each other; the first argument bounds the calls. The loop over
  the children reads their number again in each round.\<close>

fun kremove :: "nat \<Rightarrow> (u32 \<Rightarrow> bool) \<Rightarrow> fstab \<Rightarrow> u32 \<Rightarrow> vfs \<Rightarrow> (u8 \<times> vfs) res option"
  and vfs_remove :: "nat \<Rightarrow> (u32 \<Rightarrow> bool) \<Rightarrow> fstab \<Rightarrow> u32 \<Rightarrow> vfs \<Rightarrow> vfs res option"
  and remove_children :: "nat \<Rightarrow> (u32 \<Rightarrow> bool) \<Rightarrow> fstab \<Rightarrow> u32 \<Rightarrow> u32 \<Rightarrow> vfs \<Rightarrow> vfs res option" where
  "kremove 0 v t node s = None"
| "kremove (Suc k) v t node s =
     (if node = 0 then Some (Inr (1, s))
      else case sbind (get_node node s) (\<lambda>n.
          sbind (if vfs_check_flag (nflags n) VFS_MOUNTPOINT \<noteq> 0
                 then sbind (kumount t node s) (\<lambda>(_, s). Inr s) else Inr s) (\<lambda>s.
          sbind (get_node node s) (\<lambda>n.
          sbind (get_fs t (fsid n)) (\<lambda>f.
          sbind (case fremove f of Some g \<Rightarrow> sbind (g node s) (\<lambda>(_, s). Inr s) | None \<Rightarrow> Inr s) (\<lambda>s.
          sbind (get_node node s) (\<lambda>n. Inr (fsid n, s))))))) of
        Inl e \<Rightarrow> Some (Inl e)
      | Inr (i, s) \<Rightarrow>
          if i = 0 then Some (Inr (0, s))
          else Option.bind (vfs_remove k v t node s) (\<lambda>r. Some (sbind r (\<lambda>s. Inr (0, s)))))"
| "vfs_remove 0 v t node s = None"
| "vfs_remove (Suc k) v t node s =
     (case sbind (get_node node s) (\<lambda>n. get_entry (entry n) s) of
        Inl e \<Rightarrow> Some (Inl e)
      | Inr e \<Rightarrow>
          Option.bind (if child_count e \<noteq> 0 then remove_children k v t node 0 s else Some (Inr s)) (\<lambda>r.
            Some (sbind r (unlink_node v node))))"
| "remove_children 0 v t node i s = None"
| "remove_children (Suc k) v t node i s =
     (case sbind (get_node node s) (\<lambda>n. get_entry (entry n) s) of
        Inl e \<Rightarrow> Some (Inl e)
      | Inr e \<Rightarrow>
          if i < child_count e then
            Option.bind (kremove k v t (childs e (unat i)) s) (\<lambda>r.
              case r of Inl e \<Rightarrow> Some (Inl e) | Inr (_, s) \<Rightarrow> remove_children k v t node (i + 1) s)
          else Some (Inr s))"

subsection \<open>Splitting paths\<close>

definition path_of :: "cstring list \<Rightarrow> cstring" where
  "path_of cs = concat (List.map (\<lambda>c. slash # c) cs) @ [slash]"

lemma path_of_simps [simp]: "path_of [] = [slash]" "path_of (c # cs) = slash # c @ path_of cs"
  by (simp_all add: path_of_def)

definition plain_names :: "cstring list \<Rightarrow> bool" where
  "plain_names cs \<longleftrightarrow> (\<forall>c \<in> set cs. slash \<notin> set c) \<and> length cs < 4294967296"

lemma path_of_ne [simp]: "path_of cs \<noteq> []" "hd (path_of cs) = slash" "last (path_of cs) = slash"
  by (cases cs; simp add: path_of_def)+

lemma path_of_snoc: "path_of (cs @ [c]) = path_of cs @ c @ [slash]"
  by (simp add: path_of_def)

lemma path_of_single: "path_of cs = [slash] \<longleftrightarrow> cs = []"
  by (cases cs) auto

lemma canonize_path_of [simp]: "canonize_absolute (path_of cs) = Inr (path_of cs)"
  by (simp add: canonize_absolute_def)

lemma path_size_path_of: "plain_names cs \<Longrightarrow> path_size (path_of cs) = of_nat (length cs)"
proof -
  have "slash \<notin> set c \<Longrightarrow> filter (\<lambda>c. c = slash) c = []" for c :: cstring by (induction c) auto
  then have "(\<forall>c \<in> set cs. slash \<notin> set c) \<Longrightarrow> length (filter (\<lambda>c. c = slash) (path_of cs)) = Suc (length cs)" for cs
    by (induction cs) auto
  then show "plain_names cs \<Longrightarrow> ?thesis" by (simp add: path_size_def plain_names_def)
qed

lemma block_scan_name:
  "slash \<notin> set c \<Longrightarrow> block_scan blk (c @ rest) i b a = block_scan blk rest (i + int (length c)) b a"
  by (induction c arbitrary: i) (auto simp: algebra_simps)

lemma block_scan_path_of:
  assumes "\<forall>c \<in> set cs. slash \<notin> set c" "j < length cs" "j < 4294967296" "0 \<le> i"
  shows "block_scan (b + of_nat j) (path_of cs) i b (- 1) =
    (i + 1 + int (length (concat (List.map (\<lambda>c. slash # c) (take j cs)))),
     i + 1 + int (length (concat (List.map (\<lambda>c. slash # c) (take j cs))) + length (cs ! j)))"
  using assms
proof (induction cs arbitrary: i j b)
  case (Cons c cs)
  show ?case
  proof (cases j)
    case 0
    have "\<exists>rest. path_of cs = slash # rest" by (cases cs) auto
    then show ?thesis using 0 Cons.prems by (auto simp: block_scan_name)
  next
    case (Suc k)
    have "(of_nat j :: u32) \<noteq> 0"
      using Suc Cons.prems(3) unat_of_nat_u32 [of j] by (metis nat.distinct(1) unat_0)
    then have "b \<noteq> b + of_nat j" by simp
    moreover have e: "b + of_nat j = (b + 1) + of_nat k" using Suc by simp
    moreover have "block_scan ((b + 1) + of_nat k) (path_of cs) (i + 1 + int (length c)) (b + 1) (- 1) =
        (i + 1 + int (length c) + 1 + int (length (concat (List.map (\<lambda>c. slash # c) (take k cs)))),
         i + 1 + int (length c) + 1 + int (length (concat (List.map (\<lambda>c. slash # c) (take k cs))) + length (cs ! k)))"
      using Cons.prems Suc by (intro Cons.IH) auto
    moreover have "block_scan (b + of_nat j) (path_of (c # cs)) i b (- 1)
        = block_scan (b + of_nat j) (path_of cs) (i + 1 + int (length c)) (b + 1) (- 1)"
      using \<open>b \<noteq> b + of_nat j\<close> Cons.prems(1) by (simp add: block_scan_name)
    ultimately show ?thesis unfolding Suc by (simp add: algebra_simps)
  qed
qed simp

lemma path_block_path_of:
  assumes "plain_names cs" "j < length cs"
  shows "path_block (path_of cs) (of_nat j) = cs ! j"
proof -
  let ?pre = "concat (List.map (\<lambda>c. slash # c) (take j cs))"
  have "path_of cs = ?pre @ slash # cs ! j @ path_of (drop (Suc j) cs)"
    using assms(2) by (subst id_take_nth_drop [of j cs]) (simp_all add: path_of_def)
  then have "take (length (cs ! j)) (drop (Suc (length ?pre)) (path_of cs)) = cs ! j"
    by (simp add: drop_Suc)
  moreover have "block_scan (of_nat j) (path_of cs) 0 0 (- 1) =
      (1 + int (length ?pre), 1 + int (length ?pre + length (cs ! j)))"
    using block_scan_path_of [of cs j 0 0] assms by (auto simp: plain_names_def)
  moreover have "nat (1 + int (length ?pre)) = Suc (length ?pre)" by simp
  ultimately show ?thesis by (simp add: path_block_def substr_str_def)
qed


subsection \<open>Lookup as a walk over the components\<close>

fun walk :: "fstab \<Rightarrow> cstring list \<Rightarrow> u32 \<Rightarrow> vfs \<Rightarrow> (u32 \<times> vfs) res" where
  "walk t [] r s = Inr (r, s)"
| "walk t (c # cs) r s =
     sbind (kseek_step t c r s) (\<lambda>(x, s). case x of Inl y \<Rightarrow> Inr (y, s) | Inr r \<Rightarrow> walk t cs r s)"

lemma kseek_loop_walk:
  assumes "plain_names cs" "i + k = length cs"
  shows "kseek_loop t (path_of cs) i k r s = walk t (drop i cs) r s"
  using assms(2)
proof (induction k arbitrary: i r s)
  case (Suc k)
  then have i: "i < length cs" by simp
  have "drop i cs = cs ! i # drop (i + 1) cs" using i by (simp add: Cons_nth_drop_Suc)
  moreover have "kseek_loop t (path_of cs) (i + 1) k r s = walk t (drop (i + 1) cs) r s" for r s
    using Suc by simp
  ultimately show ?case
    using path_block_path_of [OF assms(1) i]
    by (simp add: sbind_def split: sum.splits prod.splits)
qed simp

lemma kseek_walk: "plain_names cs \<Longrightarrow> kseek t (path_of cs) s = walk t cs (root s) s"
proof (cases "cs = []")
  case False
  assume p: "plain_names cs"
  have n: "unat (of_nat (length cs) :: u32) = length cs"
    using p by (intro unat_of_nat_u32) (simp add: plain_names_def)
  show ?thesis
    unfolding kseek_def path_of_single if_not_P [OF False] canonize_path_of sbind_simps path_size_path_of [OF p] n
    using kseek_loop_walk [OF p, of 0] by simp
qed (simp add: kseek_def)

lemma kseek_step_stop: "kseek_step t c r s = Inr (Inl y, s') \<Longrightarrow> y = 0"
  by (auto simp: kseek_step_def sbind_def split: sum.splits if_splits option.splits prod.splits)

lemma walk_append:
  "walk t cs r s = Inr (q, s') \<Longrightarrow> q \<noteq> 0 \<Longrightarrow> walk t (cs @ ds) r s = walk t ds q s'"
proof (induction cs arbitrary: r s)
  case (Cons c cs)
  then show ?case using kseek_step_stop [of t c r s]
    by (auto simp: sbind_def split: sum.splits prod.splits)
qed simp

text \<open>The part of a lookup that stays in the tree of nodes.\<close>

fun tree_seek :: "cstring list \<Rightarrow> u32 \<Rightarrow> vfs \<Rightarrow> u32 res" where
  "tree_seek [] r s = Inr r"
| "tree_seek (c # cs) r s = sbind (vfs_seek c r s) (\<lambda>q. if q = 0 then Inr 0 else tree_seek cs q s)"

lemma walk_tree: "tree_seek cs r s = Inr q \<Longrightarrow> q \<noteq> 0 \<Longrightarrow> walk t cs r s = Inr (q, s)"
  by (induction cs arbitrary: r) (auto simp: kseek_step_def sbind_def split: sum.splits if_splits)

text \<open>Adding nodes, and children at the end of a node's list, keeps what a lookup finds.\<close>

definition grows :: "vfs \<Rightarrow> vfs \<Rightarrow> bool" where
  "grows s s' \<longleftrightarrow> root s' = root s \<and> (\<forall>q n. nodes s q = Some n \<longrightarrow> nodes s' q = Some n)
     \<and> (\<forall>q e. entries s q = Some e \<longrightarrow> (\<exists>e' zs. entries s' q = Some e' \<and> child_list e' = child_list e @ zs))"

lemma find_child_grows:
  "grows s s' \<Longrightarrow> find_child c xs s = Inr q \<Longrightarrow> q \<noteq> 0 \<Longrightarrow> find_child c (xs @ zs) s' = Inr q"
  by (induction xs) (auto simp: grows_def get_node_def sbind_def split: option.splits if_splits)

lemma vfs_seek_grows:
  assumes "grows s s'" "vfs_seek c r s = Inr q" "q \<noteq> 0"
  shows "vfs_seek c r s' = Inr q"
proof -
  define p where "p = (if r = 0 then root s else r)"
  obtain n e where n: "nodes s p = Some n" "entries s (entry n) = Some e" "find_child c (child_list e) s = Inr q"
    using assms(2) by (auto simp: vfs_seek_def p_def [symmetric] get_node_def get_entry_def sbind_def split: option.splits)
  obtain e' zs where "nodes s' p = Some n" "entries s' (entry n) = Some e'" "child_list e' = child_list e @ zs"
    using assms(1) n(1,2) unfolding grows_def by blast
  moreover have "(if r = 0 then root s' else r) = p" using assms(1) by (simp add: grows_def p_def)
  ultimately show ?thesis using find_child_grows [OF assms(1) n(3) assms(3)]
    by (simp add: vfs_seek_def get_node_def get_entry_def)
qed

lemma tree_seek_grows:
  "grows s s' \<Longrightarrow> tree_seek cs r s = Inr q \<Longrightarrow> q \<noteq> 0 \<Longrightarrow> tree_seek cs r s' = Inr q"
proof (induction cs arbitrary: r)
  case (Cons c cs)
  then obtain x where "vfs_seek c r s = Inr x" "x \<noteq> 0" "tree_seek cs x s = Inr q"
    by (auto simp: sbind_def split: sum.splits if_splits)
  then show ?case using Cons vfs_seek_grows [OF Cons.prems(1)] by auto
qed simp

lemma kcreate_split_path_of:
  assumes "plain_names (cs @ [c])"
  shows "kcreate_split (path_of (cs @ [c])) = Inr (c, path_of cs)"
proof -
  have "path_size (path_of (cs @ [c])) - 1 = of_nat (length cs)"
    using path_size_path_of [OF assms] by simp
  then have "path_block (path_of (cs @ [c])) (path_size (path_of (cs @ [c])) - 1) = c"
    using path_block_path_of [OF assms, of "length cs"] by simp
  then show ?thesis unfolding kcreate_split_def canonize_path_of
    by (simp add: substr_str_def path_of_snoc)
qed

text \<open>One call of \<open>vfs_create\<close>.\<close>

lemma child_list_snoc:
  assumes "child_count e \<noteq> - 1"
  shows "child_list (e\<lparr>child_count := child_count e + 1, childs := (childs e)(unat (child_count e) := x)\<rparr>)
     = child_list e @ [x]"
proof -
  have "unat (child_count e) \<noteq> 4294967295" using assms u32_eq_iff [of "child_count e" "- 1"] by simp
  then have "unat (child_count e) + 1 < 4294967296" using unat_u32_less [of "child_count e"] by linarith
  then show ?thesis by (simp add: child_list_def unat_plus1_u32)
qed

lemma vfs_create_effect:
  assumes "nodes s par = Some n" "entries s (entry n) = Some pe" "child_count pe \<noteq> - 1"
    and "avail s = p # e # a # rest" "nodes s p = None" "entries s e = None" "length c < 64"
  shows "\<exists>s'. vfs_create c par type s = Inr (p, s') \<and> grows s s'
     \<and> nodes s' p = Some \<lparr>nname = c, owner = 0, nsize = 0, inode = 0, nflags = 0, open_flags = 0,
          device = 0, entry = e, fsid = 0, nioctl = 0\<rparr>
     \<and> entries s' (entry n) =
         Some (pe\<lparr>child_count := child_count pe + 1, childs := (childs pe)(unat (child_count pe) := p)\<rparr>)"
proof -
  have ne: "par \<noteq> p" "entry n \<noteq> e" using assms by auto
  show ?thesis using assms ne child_list_snoc [OF assms(3), of p]
    by (auto simp: vfs_create_def allocate_fs_node_def kalloc_def get_node_def get_entry_def Let_def grows_def)
qed

lemma kcreate_seeks:
  assumes names: "plain_names (cs @ [c])" "length c < 64"
    and par: "tree_seek cs (root s) s = Inr par" "par \<noteq> 0" "vfs_seek c par s = Inr 0"
    and n: "nodes s par = Some n" "entries s (entry n) = Some pe" "child_count pe \<noteq> - 1"
    and heap: "avail s = p # e # a # rest" "nodes s p = None" "entries s e = None" "p \<noteq> 0" "nodes s 0 = None"
  shows "\<exists>s'. kcreate t (path_of (cs @ [c])) VFS_TYPE_VIRTUAL s = Some (Inr (p, s'))
     \<and> kseek t (path_of (cs @ [c])) s' = Inr (p, s')
     \<and> (\<forall>ds q. plain_names ds \<and> tree_seek ds (root s) s = Inr q \<and> q \<noteq> 0 \<longrightarrow> kseek t (path_of ds) s' = Inr (q, s'))
     \<and> grows s s' \<and> vfs_seek c par s' = Inr p \<and> nodes s' p = Some \<lparr>nname = c, owner = 0, nsize = 0, inode = 0, nflags = 0, open_flags = 0,
          device = 0, entry = e, fsid = 0, nioctl = 0\<rparr>"
proof -
  obtain s' where c': "vfs_create c par VFS_TYPE_VIRTUAL s = Inr (p, s')" "grows s s'"
      "nodes s' p = Some \<lparr>nname = c, owner = 0, nsize = 0, inode = 0, nflags = 0, open_flags = 0,
          device = 0, entry = e, fsid = 0, nioctl = 0\<rparr>"
      "entries s' (entry n) = Some (pe\<lparr>child_count := child_count pe + 1, childs := (childs pe)(unat (child_count pe) := p)\<rparr>)"
    using vfs_create_effect [OF n heap(1-3) names(2), of VFS_TYPE_VIRTUAL]
    by blast
  have pl: "plain_names cs" using names(1) by (simp add: plain_names_def)
  have k: "kseek t (path_of cs) s = Inr (par, s)"
    unfolding kseek_walk [OF pl] by (rule walk_tree [OF par(1,2)])
  have cr: "kcreate t (path_of (cs @ [c])) VFS_TYPE_VIRTUAL s = Some (Inr (p, s'))"
    unfolding kcreate.simps [of t "path_of (cs @ [c])"] kcreate_split_path_of [OF names(1)]
    using k par(2) c'(1) by (simp add: kcreate_in_def)
  have miss: "find_child c (child_list pe) s = Inr 0"
    using par(2,3) n(1,2) by (simp add: vfs_seek_def get_node_def get_entry_def)
  have nz: "find_child c (xs @ [p]) s' = Inr p" if "find_child c xs s = Inr 0" for xs
    using that c'(2,3) heap(2,5)
    by (induction xs) (auto simp: get_node_def sbind_def grows_def split: option.splits if_splits)
  have "nodes s' par = Some n" using c'(2) n(1) unfolding grows_def by blast
  then have vs: "vfs_seek c par s' = Inr p"
    using nz [OF miss] c'(4) par(2) child_list_snoc [OF n(3), of p]
    by (simp add: vfs_seek_def get_node_def get_entry_def)
  then have "tree_seek [c] par s' = Inr p" using heap(4) by simp
  moreover have tg: "tree_seek ds (root s') s' = Inr q" if "tree_seek ds (root s) s = Inr q" "q \<noteq> 0" for ds q
    using tree_seek_grows [OF c'(2) that] c'(2) by (simp add: grows_def)
  moreover have "walk t (cs @ [c]) (root s') s' = walk t [c] par s'"
    using walk_append [OF walk_tree [OF tg [OF par(1,2)] par(2)] par(2)] .
  ultimately have "kseek t (path_of (cs @ [c])) s' = Inr (p, s')"
    using kseek_walk [OF names(1)] walk_tree [of "[c]" par s' p t] heap(4) by simp
  moreover have "kseek t (path_of ds) s' = Inr (q, s')"
    if "plain_names ds" "tree_seek ds (root s) s = Inr q" "q \<noteq> 0" for ds q
    using walk_tree [OF tg [OF that(2,3)] that(3)] kseek_walk [OF that(1)] by simp
  ultimately show ?thesis using cr c'(2,3) vs by blast
qed

text \<open>C11: a node made by \<open>kcreate\<close> is found by \<open>kseek\<close> under its path. If the parent's path resolves
  in the tree of nodes, the new name is free there and fits the field, and the heap hands out unused
  addresses, then \<open>kcreate\<close> with the type \<open>VFS_TYPE_VIRTUAL\<close> (that of mount points, devices and pipes; the
  file made by \<open>sys_open\<close> has type 0 and goes to the file system of its parent) returns the new node, \<open>kseek\<close>
  of the same path returns it in the new state, and every path that resolved in the tree before still
  resolves to the same node.\<close>

theorem kcreate_then_kseek:
  assumes names: "plain_names (cs @ [c])" "length c < 64"
    and par: "tree_seek cs (root s) s = Inr par" "par \<noteq> 0" "vfs_seek c par s = Inr 0"
    and n: "nodes s par = Some n" "entries s (entry n) = Some pe" "child_count pe \<noteq> - 1"
    and heap: "avail s = p # e # a # rest" "nodes s p = None" "entries s e = None" "p \<noteq> 0" "nodes s 0 = None"
  shows "\<exists>s'. kcreate t (path_of (cs @ [c])) VFS_TYPE_VIRTUAL s = Some (Inr (p, s'))
     \<and> kseek t (path_of (cs @ [c])) s' = Inr (p, s')
     \<and> (\<forall>ds q. plain_names ds \<and> tree_seek ds (root s) s = Inr q \<and> q \<noteq> 0 \<longrightarrow> kseek t (path_of ds) s' = Inr (q, s'))"
  using kcreate_seeks [OF assms, of t] by blast

text \<open>A tree with the root directory at 100 and one virtual directory \<open>d\<close> in it.\<close>

definition node_at :: "cstring \<Rightarrow> u32 \<Rightarrow> fs_node" where
  "node_at nm e = \<lparr>nname = nm, owner = 0, nsize = 0, inode = 0, nflags = 0, open_flags = 0,
     device = 0, entry = e, fsid = 0, nioctl = 0\<rparr>"

definition vfs_example :: vfs where
  "vfs_example = \<lparr>nodes = [100 \<mapsto> node_at [91] 200, 300 \<mapsto> node_at [100] 400],
     entries = [200 \<mapsto> \<lparr>child_count = 1, childs = (\<lambda>_. 300), parent = 0\<rparr>,
                400 \<mapsto> \<lparr>child_count = 0, childs = (\<lambda>_. 0), parent = 100\<rparr>],
     root = 100, avail = [500, 600, 700], mem = (\<lambda>_. 0)\<rparr>"

definition no_fs :: fs where
  "no_fs = \<lparr>fs_name = [], fmount = None, fumount = None, fread = Some vfs_read, fwrite = Some vfs_write,
     fseek = None, fcreate = None, freaddir = None, fremove = None, fioctl = None\<rparr>"

definition fstab_example :: fstab where
  "fstab_example = \<lparr>fss = [Some no_fs, Some (no_fs\<lparr>fseek := Some (\<lambda>c r s. Inr (0, s))\<rparr>)], fsidx = 2\<rparr>"

theorem kcreate_then_kseek_witness:
  "\<exists>s'. kcreate fstab_example (path_of [[100], [120]]) VFS_TYPE_VIRTUAL vfs_example = Some (Inr (500, s'))
     \<and> kseek fstab_example (path_of [[100], [120]]) s' = Inr (500, s')"
  using kcreate_then_kseek [of "[[100]]" "[120]" vfs_example 300 "node_at [100] 400"
      "\<lparr>child_count = 0, childs = (\<lambda>_. 0), parent = 100\<rparr>" 500 600 700 "[]" fstab_example]
  by (auto simp: plain_names_def vfs_example_def node_at_def vfs_seek_def get_node_def get_entry_def child_list_def)

text \<open>A component that a mounted file system does not find makes the rest of the path start over
  at the root: if the path \<open>xs\<close> leads to a node whose file system answers NULL for \<open>m\<close>, then
  \<open>xs/m/y/ys\<close> resolves to whatever \<open>/y/ys\<close> is, instead of to nothing.\<close>

theorem kseek_restarts_at_root:
  assumes names: "plain_names (xs @ m # y # ys)"
    and x: "tree_seek xs (root s) s = Inr r" "r \<noteq> 0" "vfs_seek m r s = Inr 0"
    and f: "nodes s r = Some n" "fsid n \<noteq> 0" "get_fs t (fsid n) = Inr f" "fseek f = Some g" "g m r s = Inr (0, s)"
    and y: "tree_seek (y # ys) (root s) s = Inr q" "q \<noteq> 0"
  shows "kseek t (path_of (xs @ m # y # ys)) s = Inr (q, s)"
proof -
  have "kseek_step t m r s = Inr (Inr 0, s)"
    using x f by (simp add: kseek_step_def get_node_def)
  then have "walk t (m # y # ys) r s = walk t (y # ys) 0 s" by simp
  also have "\<dots> = walk t (y # ys) (root s) s"
  proof -
    have "vfs_seek y 0 s = vfs_seek y (root s) s" by (simp add: vfs_seek_def)
    moreover obtain z where "vfs_seek y (root s) s = Inr z" "z \<noteq> 0"
      using y by (auto simp: sbind_def split: sum.splits if_splits)
    ultimately show ?thesis by (simp add: kseek_step_def)
  qed
  also have "\<dots> = Inr (q, s)" by (rule walk_tree [OF y])
  finally show ?thesis
    using kseek_walk [OF names] walk_append [OF walk_tree [OF x(1,2)] x(2)] by simp
qed

lemma kseek_restarts_at_root_witness:
  "kseek fstab_example (path_of [[100], [120], [100]])
     (vfs_example\<lparr>nodes := [100 \<mapsto> node_at [91] 200, 300 \<mapsto> node_at [100] 400\<lparr>fsid := 1\<rparr>]\<rparr>)
   = Inr (300, vfs_example\<lparr>nodes := [100 \<mapsto> node_at [91] 200, 300 \<mapsto> node_at [100] 400\<lparr>fsid := 1\<rparr>]\<rparr>)"
  by (rule kseek_restarts_at_root [where xs = "[[100]]" and ys = "[]" and r = 300
        and n = "node_at [100] 400\<lparr>fsid := 1\<rparr>" and f = "no_fs\<lparr>fseek := Some (\<lambda>c r s. Inr (0, s))\<rparr>"
        and g = "\<lambda>c r s. Inr (0, s)", simplified append_Cons append_Nil])
     (simp_all add: plain_names_def vfs_example_def node_at_def vfs_seek_def get_node_def get_entry_def
        child_list_def fstab_example_def get_fs_def)

subsection \<open>Mounting and removal\<close>

lemma mount_flag_set [simp]: "vfs_check_flag (vfs_set_flag x VFS_MOUNTPOINT) VFS_MOUNTPOINT \<noteq> 0"
proof -
  have "bit (vfs_check_flag (vfs_set_flag x VFS_MOUNTPOINT) VFS_MOUNTPOINT) 2"
    by (simp add: vfs_check_flag_def vfs_set_flag_def bit_simps)
  then show ?thesis by auto
qed

text \<open>A mount point can be mounted once and never again. Mounting on an existing plain node
  records the file system and sets the flag; \<open>kumount\<close> then reports no error, but since it drops
  the result of \<open>vfs_clear_flag\<close> the node stays as it is, and every later \<open>kmount\<close> of the path
  returns NULL and changes nothing.\<close>

theorem kumount_never_frees_mountpoint:
  assumes k: "plain_names cs" "tree_seek cs (root s) s = Inr mp" "mp \<noteq> 0"
    and n: "nodes s mp = Some n" "vfs_check_flag (nflags n) VFS_MOUNTPOINT = 0" "vfs_check_flag (nflags n) VFS_LINK = 0"
    and f: "fid < fsidx t" "get_fs t fid = Inr f" "fmount f = None" "fumount f = None"
  shows "\<exists>s' n'. kmount t (path_of cs) [] fid s = Some (Inr (mp, s')) \<and> nodes s' mp = Some n' \<and> fsid n' = fid
     \<and> kumount t mp s' = Inr (None, s')
     \<and> (\<forall>dev. kmount t (path_of cs) dev fid s' = Some (Inr (0, s')))"
proof -
  define n' where "n' = n\<lparr>fsid := fid, nflags := vfs_set_flag (nflags n) VFS_MOUNTPOINT\<rparr>"
  define s' where "s' = set_node mp n' s"
  have ks: "kseek t (path_of cs) s = Inr (mp, s)"
    using kseek_walk [OF k(1)] walk_tree [OF k(2,3)] by simp
  have m1: "kmount t (path_of cs) [] fid s = Some (Inr (mp, s'))"
    using ks f n k(3) by (simp add: kmount_def kmount_at_def get_node_def n'_def s'_def not_le [symmetric])
  have same: "find_child c xs s' = find_child c xs s" for c xs
    using n(1) by (induction xs) (simp_all add: s'_def n'_def get_node_def sbind_def split: option.splits)
  have "vfs_seek c r s' = vfs_seek c r s" for c r
    using n(1) same by (auto simp: vfs_seek_def s'_def n'_def get_node_def get_entry_def Let_def)
  then have "tree_seek xs r s' = tree_seek xs r s" for xs r
    by (induction xs arbitrary: r) (simp_all add: sbind_def split: sum.split)
  then have "tree_seek cs (root s') s' = Inr mp" using k(2) by (simp add: s'_def)
  then have ks': "kseek t (path_of cs) s' = Inr (mp, s')"
    using kseek_walk [OF k(1)] walk_tree [OF _ k(3)] by simp
  have n': "nodes s' mp = Some n'" "fsid n' = fid" "vfs_check_flag (nflags n') VFS_MOUNTPOINT \<noteq> 0"
    by (simp_all add: s'_def n'_def)
  have "kumount t mp s' = Inr (None, s')"
    using n' k(3) f by (simp add: kumount_def get_node_def)
  moreover have "kmount t (path_of cs) dev fid s' = Some (Inr (0, s'))" for dev
    using ks' n' k(3) f by (simp add: kmount_def get_node_def not_le [symmetric])
  ultimately show ?thesis using m1 n' by blast
qed

lemma kumount_never_frees_mountpoint_witness:
  "\<exists>s'. kmount fstab_example (path_of [[100]]) [] 0 vfs_example = Some (Inr (300, s'))
     \<and> kumount fstab_example 300 s' = Inr (None, s')
     \<and> kmount fstab_example (path_of [[100]]) [] 0 s' = Some (Inr (0, s'))"
  using kumount_never_frees_mountpoint [of "[[100]]" vfs_example 300 "node_at [100] 400" 0 fstab_example no_fs]
  by (auto simp: plain_names_def vfs_example_def node_at_def vfs_seek_def get_node_def get_entry_def
        child_list_def fstab_example_def get_fs_def vfs_check_flag_def no_fs_def)

text \<open>Removing a node of the virtual file system has no effect: \<open>kremove\<close> returns 0, but the node
  is not taken out of its parent and its path still resolves to it.\<close>

theorem kremove_virtual_stays:
  assumes k: "plain_names cs" "tree_seek cs (root s) s = Inr p" "p \<noteq> 0"
    and n: "nodes s p = Some n" "fsid n = 0" "vfs_check_flag (nflags n) VFS_MOUNTPOINT = 0"
    and f: "get_fs t 0 = Inr f" "fremove f = None"
  shows "kremove (Suc i) v t p s = Some (Inr (0, s)) \<and> kseek t (path_of cs) s = Inr (p, s)"
  using kseek_walk [OF k(1)] walk_tree [OF k(2,3)] k(3) n f by (simp add: get_node_def)

lemma kremove_virtual_stays_witness:
  "kremove 1 (\<lambda>_. True) fstab_example 300 vfs_example = Some (Inr (0, vfs_example))"
  using kremove_virtual_stays [of "[[100]]" vfs_example 300 "node_at [100] 400" fstab_example no_fs 0 "\<lambda>_. True"]
  by (simp add: plain_names_def vfs_example_def node_at_def vfs_seek_def get_node_def get_entry_def
        child_list_def fstab_example_def get_fs_def vfs_check_flag_def no_fs_def)

text \<open>The path helpers split a path into its components: for names without a slash,
  \<open>canonize_absolute\<close> keeps the path made of them, \<open>path_size\<close> is their number and
  \<open>path_block\<close> with index \<open>j\<close> is the \<open>j\<close>-th name.\<close>

theorem path_helpers_split:
  assumes "plain_names cs"
  shows "canonize_absolute (path_of cs) = Inr (path_of cs) \<and> path_size (path_of cs) = of_nat (length cs)
    \<and> List.map (\<lambda>j. path_block (path_of cs) (of_nat j)) [0..<length cs] = cs"
  using path_size_path_of [OF assms] path_block_path_of [OF assms] by (auto intro: nth_equalityI)

lemma path_helpers_split_witness:
  "path_size (path_of [[100, 101], [102]]) = 2 \<and> path_block (path_of [[100, 101], [102]]) 0 = [100, 101]
   \<and> path_block (path_of [[100, 101], [102]]) 1 = [102]"
  using path_helpers_split [of "[[100, 101], [102]]"] by (simp add: plain_names_def)

subsection \<open>Reading what was written\<close>

lemma memcpy_apart:
  assumes "apart dst (unat n) src (unat n)"
  shows "snd (memcpy dst src n m) = moved dst src (unat n) m"
proof -
  have "no_wrap dst (unat n)" "no_wrap src (unat n)" "dst \<le> src \<or> unat src + unat n \<le> unat dst"
    using assms by (auto simp: apart_def word_le_nat_alt)
  then show ?thesis by (simp add: memcpy_def copy_up_moved)
qed

lemma moved_inside: "no_wrap dst n \<Longrightarrow> i < n \<Longrightarrow> moved dst src n m (dst + of_nat i) = m (src + of_nat i)"
  using no_wrap_index [of dst n i] by (simp add: moved_def)

text \<open>What \<open>kwrite\<close> puts into a virtual file \<open>kread\<close> gives back, also when either goes through a
  link to the file. For a node of the virtual file system with a buffer, both calls return the size
  and the bytes of the second buffer become those that were in the first.\<close>

theorem kwrite_kread:
  assumes r: "real_node node s = Inr r" "real_node node2 s = Inr r" "v r"
    and n: "nodes s r = Some n" "inode n \<noteq> 0" "get_fs t (fsid n) = Inr f" "fread f = Some vfs_read" "fwrite f = Some vfs_write"
    and ap: "apart (inode n + ucast offset) (unat sz) src (unat sz)" "apart dst (unat sz) (inode n + ucast offset) (unat sz)"
  shows "\<exists>s1 s2. kwrite v t node offset sz src s = Inr (sz, s1) \<and> kread v t node2 offset sz dst s1 = Inr (sz, s2)
     \<and> (\<forall>i < unat sz. mem s2 (dst + of_nat i) = mem s (src + of_nat i))"
proof -
  define a where "a = inode n + ucast offset"
  define s1 where "s1 = copy_mem a src sz s"
  define s2 where "s2 = copy_mem dst a sz s1"
  have w: "kwrite v t node offset sz src s = Inr (sz, s1)"
    using r n by (simp add: kwrite_def vfs_write_def get_node_def s1_def a_def)
  have "real_node node2 s1 = Inr r" using r(2) by (simp add: real_node_def get_node_def s1_def copy_mem_def)
  moreover have "nodes s1 r = Some n" using n(1) by (simp add: s1_def copy_mem_def)
  ultimately have rd: "kread v t node2 offset sz dst s1 = Inr (sz, s2)"
    using r(3) n by (simp add: kread_def vfs_read_def get_node_def s2_def a_def)
  have "mem s2 (dst + of_nat i) = mem s (src + of_nat i)" if "i < unat sz" for i
    using that ap by (simp add: s2_def s1_def copy_mem_def memcpy_apart a_def moved_inside apart_def)
  then show ?thesis using w rd by blast
qed

lemma kwrite_kread_witness:
  "\<exists>s1 s2. kwrite (\<lambda>_. True) fstab_example 300 2 1 5000
       (vfs_example\<lparr>nodes := [300 \<mapsto> node_at [100] 400\<lparr>inode := 1000\<rparr>], mem := (\<lambda>_. 0)(5000 := 42)\<rparr>) = Inr (1, s1)
     \<and> kread (\<lambda>_. True) fstab_example 300 2 1 6000 s1 = Inr (1, s2) \<and> mem s2 6000 = 42"
  using kwrite_kread [of 300 "vfs_example\<lparr>nodes := [300 \<mapsto> node_at [100] 400\<lparr>inode := 1000\<rparr>], mem := (\<lambda>_. 0)(5000 := 42)\<rparr>"
      300 300 "\<lambda>_. True" "node_at [100] 400\<lparr>inode := 1000\<rparr>" fstab_example no_fs 2 1 5000 6000]
  by (auto simp: real_node_def node_at_def get_node_def vfs_check_flag_def fstab_example_def get_fs_def no_fs_def
      apart_def no_wrap_def)

end
