(* ===== verification/Proc.thy ===== *)
theory Proc
  imports Smpl_Prelude
begin

text \<open>
  Processes, \<open>os/kernel/arch/i386/proc/proc.c\<close>: thread groups and their ready queues, the sleep
  and kill lists, context switching, exit, waiting, signals and shared memory blocks. Processes,
  groups, register frames and arrays of shared blocks are objects at addresses; a process and
  the \<open>thread_t\<close> it owns are one record. \<open>kmalloc\<close> hands out the addresses of \<open>avail\<close>;
  \<open>kfree\<close> does nothing, as in kheap.c. The calls of the file system, of
  pipes and of paging that only act there are recorded in \<open>ext_calls\<close> (theories Vfs, Pipe and
  Paging model them). Console output is left out.
\<close>

subsection \<open>Data\<close>

record regs =
  edi :: u32
  esi :: u32
  ebp :: u32
  ebx :: u32
  edx :: u32
  ecx :: u32
  eax :: u32
  eip :: u32
  useresp :: u32
  other_regs :: "u32 list"

record sig =
  sig_num :: u32
  unhandled_behav :: u8
  block_behav :: u8

record thread_group =
  ggid :: u32
  priority :: u8
  members :: "u32 list"
  queue :: "u32 list"
  pointer :: u32
  ready_count :: u32
  queue_size :: u32
  proc_count :: u32

record shmem_block =
  bsize :: u32
  boffset :: u32

record proc =
  pid :: u32
  group :: u32
  gid :: u32
  pname :: "u8 list"
  pnode :: u32
  status :: u32
  pdir :: u32
  tstate :: u32
  syscall_state :: u32
  kernel_stack :: u32
  signal_state :: u32
  sig_handlers :: "u32 list"
  sig_stack :: "u32 list"
  sig_stack_esp :: int
  in_sig :: u8
  uheap :: u32
  heap_size :: u32
  sig_ret_state :: u8
  queue_idx :: u32
  fswait_nodes :: "u32 list"
  fswait_nodes_cnt :: u32
  parent :: u32
  childs :: "u32 list"
  pwait :: u8
  work_dir_abs :: "u8 list"
  work_dir :: u32
  uid :: u32
  sleep_time :: u32
  shmem_blocks :: u32
  shmem_size :: u32
  shmem_bytes :: u32

text \<open>The calls of other components that only act there, in order: creating and removing the
  directory of a process under \<open>/proc\<close>, creating one of its pipes, mapping a range of addresses in a
  page directory, and adding or removing a waiter of a pipe.\<close>

datatype ext_call = MakeDir u32 | MakePipe u32 string u32 | RemoveDir u32 | MapRange u32 u32 u32
  | AddWaiter u32 u32 | RemoveWaiter u32 u32

record sched =
  procs :: "u32 \<Rightarrow> proc option"
  grps :: "u32 \<Rightarrow> thread_group option"
  frames :: "u32 \<Rightarrow> regs option"
  blocks :: "u32 \<Rightarrow> shmem_block list"
  processes :: "u32 list"
  killed_procs :: "u32 list"
  sleep_procs :: "u32 list"
  current_process :: u32
  init_process :: u32
  total_prcs :: u32
  sleep_procs_size :: u32
  killed_procs_size :: u32
  proc_signals :: "sig option list"
  groups :: "u32 list"
  groups_size :: u32
  groups_ptr :: u32
  page_dir :: u32
  tss_stack :: u32
  avail :: "u32 list"
  ext_calls :: "ext_call list"

abbreviation PROC_READY :: u32 where "PROC_READY \<equiv> 1"
abbreviation PROC_DEAD :: u32 where "PROC_DEAD \<equiv> 2"
abbreviation PROC_WAIT :: u32 where "PROC_WAIT \<equiv> 3"
abbreviation PROC_SLEEP :: u32 where "PROC_SLEEP \<equiv> 4"
abbreviation PROC_PRIORITY_HIGH :: u8 where "PROC_PRIORITY_HIGH \<equiv> 1"
abbreviation PROC_PRIORITY_LOW :: u8 where "PROC_PRIORITY_LOW \<equiv> 0"
abbreviation SIG_UNHANDLD_KILL :: u8 where "SIG_UNHANDLD_KILL \<equiv> 1"
abbreviation SIG_BLOCK_SKIP :: u8 where "SIG_BLOCK_SKIP \<equiv> 1"
abbreviation SIG_BLOCK_KILL :: u8 where "SIG_BLOCK_KILL \<equiv> 2"
abbreviation SIG_BLOCK_AWAKE :: u8 where "SIG_BLOCK_AWAKE \<equiv> 3"

text \<open>Access through pointers.\<close>

definition get_proc :: "u32 \<Rightarrow> sched \<Rightarrow> proc res" where
  "get_proc p s = (case procs s p of None \<Rightarrow> Inl Wild | Some x \<Rightarrow> Inr x)"

definition get_grp :: "u32 \<Rightarrow> sched \<Rightarrow> thread_group res" where
  "get_grp g s = (case grps s g of None \<Rightarrow> Inl Wild | Some x \<Rightarrow> Inr x)"

definition get_frame :: "u32 \<Rightarrow> sched \<Rightarrow> regs res" where
  "get_frame r s = (case frames s r of None \<Rightarrow> Inl Wild | Some x \<Rightarrow> Inr x)"

definition upd_proc :: "u32 \<Rightarrow> (proc \<Rightarrow> proc) \<Rightarrow> sched \<Rightarrow> sched res" where
  "upd_proc p f s = sbind (get_proc p s) (\<lambda>x. Inr (s\<lparr>procs := (procs s)(p \<mapsto> f x)\<rparr>))"

definition upd_grp :: "u32 \<Rightarrow> (thread_group \<Rightarrow> thread_group) \<Rightarrow> sched \<Rightarrow> sched res" where
  "upd_grp g f s = sbind (get_grp g s) (\<lambda>x. Inr (s\<lparr>grps := (grps s)(g \<mapsto> f x)\<rparr>))"

definition kalloc :: "sched \<Rightarrow> (u32 \<times> sched) res" where
  "kalloc s = (case avail s of [] \<Rightarrow> Inl (Panic ''KHEAP: Out of memory'') | p # ps \<Rightarrow> Inr (p, s\<lparr>avail := ps\<rparr>))"

text \<open>The first free slot among the first \<open>n\<close> of an array.\<close>

fun free_slot :: "u32 list \<Rightarrow> nat \<Rightarrow> nat \<Rightarrow> nat option" where
  "free_slot xs i 0 = None"
| "free_slot xs i (Suc n) = (if xs ! i = 0 then Some i else free_slot xs (i + 1) n)"

subsection \<open>Thread groups\<close>

definition add_group :: "u32 \<Rightarrow> sched \<Rightarrow> sched res" where
  "add_group g s =
     (case free_slot (groups s) 0 (unat (groups_size s)) of
        Some i \<Rightarrow> upd_grp g (\<lambda>x. x\<lparr>ggid := of_nat i\<rparr>) (s\<lparr>groups := (groups s)[i := g]\<rparr>)
      | None \<Rightarrow> sbind (store_at (groups s) (unat (groups_size s)) g) (\<lambda>xs.
          Inr (s\<lparr>groups := xs, groups_size := groups_size s + 1\<rparr>)))"

definition remove_group :: "u32 \<Rightarrow> sched \<Rightarrow> sched res" where
  "remove_group g s =
     sbind (get_grp g s) (\<lambda>x. sbind (store_at (groups s) (unat (ggid x)) 0) (\<lambda>xs. Inr (s\<lparr>groups := xs\<rparr>)))"

text \<open>Is the group one the search accepts?\<close>

definition eligible :: "u8 \<Rightarrow> u32 \<Rightarrow> sched \<Rightarrow> bool res" where
  "eligible prior g s =
     (if g = 0 then Inr False
      else sbind (get_grp g s) (\<lambda>x. Inr (priority x = prior \<and> ready_count x \<noteq> 0)))"

text \<open>The search goes round the table once, so \<open>groups_size\<close> rounds are enough.\<close>

fun get_group_loop :: "nat \<Rightarrow> u8 \<Rightarrow> u32 \<Rightarrow> u32 \<Rightarrow> u32 \<Rightarrow> sched \<Rightarrow> (u32 \<times> u32) res" where
  "get_group_loop 0 prior first gr ptr s = Inr (gr, ptr)"
| "get_group_loop (Suc k) prior first gr ptr s =
     sbind (eligible prior gr s) (\<lambda>ok.
     if ok then Inr (gr, ptr)
     else sbind (load_at (groups s) (unat ptr)) (\<lambda>gr.
       let ptr = ptr + 1; ptr = (if ptr \<ge> groups_size s then 0 else ptr)
       in if first = ptr then Inr (gr, ptr) else get_group_loop k prior first gr ptr s))"

definition get_group :: "u8 \<Rightarrow> sched \<Rightarrow> (u32 \<times> sched) res" where
  "get_group prior s =
     (if groups_size s = 0 then Inr (0, s)
      else sbind (get_group_loop (unat (groups_size s) + 1) prior (groups_ptr s) 0 (groups_ptr s) s) (\<lambda>(gr, ptr).
        let s = s\<lparr>groups_ptr := ptr\<rparr> in
        sbind (eligible prior gr s) (\<lambda>ok. Inr (if ok then gr else 0, s))))"

fun get_ready_loop :: "nat \<Rightarrow> u32 list \<Rightarrow> u32 \<Rightarrow> u32 \<Rightarrow> u32 \<Rightarrow> u32 \<Rightarrow> (u32 \<times> u32) res" where
  "get_ready_loop 0 q qsize first proc ptr = Inr (proc, ptr)"
| "get_ready_loop (Suc k) q qsize first proc ptr =
     (if proc \<noteq> 0 then Inr (proc, ptr)
      else sbind (load_at q (unat ptr)) (\<lambda>proc.
        let ptr = ptr + 1; ptr = (if ptr \<ge> qsize then 0 else ptr)
        in if ptr = first then Inr (proc, ptr) else get_ready_loop k q qsize first proc ptr))"

definition get_ready :: "sched \<Rightarrow> (u32 \<times> sched) res" where
  "get_ready s =
     sbind (get_group PROC_PRIORITY_HIGH s) (\<lambda>(grp, s).
     sbind (if grp = 0 then get_group PROC_PRIORITY_LOW s else Inr (grp, s)) (\<lambda>(grp, s).
     if grp = 0 then Inr (0, s)
     else sbind (get_grp grp s) (\<lambda>x.
       sbind (get_ready_loop (unat (queue_size x) + 1) (queue x) (queue_size x) (pointer x) 0 (pointer x)) (\<lambda>(proc, ptr).
         Inr (proc, s\<lparr>grps := (grps s)(grp \<mapsto> x\<lparr>pointer := ptr\<rparr>)\<rparr>)))))"

definition set_proc :: "u32 \<Rightarrow> proc \<Rightarrow> sched \<Rightarrow> sched" where
  "set_proc p x s = s\<lparr>procs := (procs s)(p \<mapsto> x)\<rparr>"

definition set_grp :: "u32 \<Rightarrow> thread_group \<Rightarrow> sched \<Rightarrow> sched" where
  "set_grp g x s = s\<lparr>grps := (grps s)(g \<mapsto> x)\<rparr>"

text \<open>The queue is reallocated to one slot more when no slot of it is free.\<close>

definition ready_insert :: "u32 \<Rightarrow> sched \<Rightarrow> sched res" where
  "ready_insert p s =
     sbind (get_proc p s) (\<lambda>x.
     sbind (get_grp (group x) s) (\<lambda>g.
       case free_slot (queue g) 0 (unat (queue_size g)) of
         Some i \<Rightarrow> Inr (set_proc p (x\<lparr>status := PROC_READY, queue_idx := of_nat i\<rparr>)
             (set_grp (group x) (g\<lparr>ready_count := ready_count g + 1, queue := (queue g)[i := p]\<rparr>) s))
       | None \<Rightarrow> sbind (kalloc s) (\<lambda>(_, s).
           let n = queue_size g + 1
           in Inr (set_proc p (x\<lparr>status := PROC_READY, queue_idx := n - 1\<rparr>)
             (set_grp (group x) (g\<lparr>ready_count := ready_count g + 1, queue_size := n,
                queue := (take (unat n) (queue g @ replicate (unat n) 0))[unat (n - 1) := p]\<rparr>) s)))))"

definition ready_remove :: "u32 \<Rightarrow> sched \<Rightarrow> sched res" where
  "ready_remove p s =
     sbind (get_proc p s) (\<lambda>x.
     sbind (get_grp (group x) s) (\<lambda>g.
     sbind (store_at (queue g) (unat (queue_idx x)) 0) (\<lambda>q.
       Inr (set_grp (group x) (g\<lparr>ready_count := ready_count g - 1, queue := q\<rparr>) s))))"

definition group_insert :: "u32 \<Rightarrow> sched \<Rightarrow> sched res" where
  "group_insert p s =
     sbind (get_proc p s) (\<lambda>x.
     sbind (get_grp (group x) s) (\<lambda>g.
       case free_slot (members g) 0 (length (members g)) of
         Some i \<Rightarrow> Inr (set_proc p (x\<lparr>gid := of_nat i\<rparr>)
             (set_grp (group x) (g\<lparr>proc_count := proc_count g + 1, members := (members g)[i := p]\<rparr>) s))
       | None \<Rightarrow> sbind (kalloc s) (\<lambda>(_, s).
           Inr (set_proc p (x\<lparr>gid := of_nat (length (members g))\<rparr>)
             (set_grp (group x) (g\<lparr>proc_count := proc_count g + 1, members := members g @ [p]\<rparr>) s)))))"

text \<open>\<open>proc_count\<close> is unsigned, so the test \<open>proc_count <= 0\<close> is for zero.\<close>

definition group_remove :: "u32 \<Rightarrow> sched \<Rightarrow> sched res" where
  "group_remove p s =
     sbind (get_proc p s) (\<lambda>x.
     sbind (get_grp (group x) s) (\<lambda>g.
       let g = g\<lparr>proc_count := proc_count g - 1\<rparr>; s = set_grp (group x) g s
       in if proc_count g = 0 then remove_group (group x) s
          else sbind (store_at (members g) (unat (gid x)) 0) (\<lambda>ms.
            Inr (set_grp (group x) (g\<lparr>members := ms\<rparr>) s))))"

subsection \<open>Waiting, killed and sleeping processes\<close>

definition wait_insert :: "u32 \<Rightarrow> sched \<Rightarrow> sched res" where
  "wait_insert p s = upd_proc p (\<lambda>x. x\<lparr>status := PROC_WAIT\<rparr>) s"

definition killed_insert :: "u32 \<Rightarrow> sched \<Rightarrow> sched res" where
  "killed_insert p s =
     sbind (upd_proc p (\<lambda>x. x\<lparr>status := PROC_DEAD\<rparr>) s) (\<lambda>s.
       case free_slot (killed_procs s) 0 (unat (killed_procs_size s)) of
         Some i \<Rightarrow> upd_proc p (\<lambda>x. x\<lparr>queue_idx := of_nat i\<rparr>) (s\<lparr>killed_procs := (killed_procs s)[i := p]\<rparr>)
       | None \<Rightarrow>
           if killed_procs_size s < 256 then
             upd_proc p (\<lambda>x. x\<lparr>queue_idx := killed_procs_size s\<rparr>)
               (s\<lparr>killed_procs := (killed_procs s)[unat (killed_procs_size s) := p],
                  killed_procs_size := killed_procs_size s + 1\<rparr>)
           else Inr s)"

definition killed_remove :: "u32 \<Rightarrow> sched \<Rightarrow> sched res" where
  "killed_remove p s =
     sbind (get_proc p s) (\<lambda>x.
     sbind (store_at (killed_procs s) (unat (queue_idx x)) 0) (\<lambda>ks. Inr (s\<lparr>killed_procs := ks\<rparr>)))"

text \<open>The search of \<open>sleep_insert\<close>: the index, the accumulated delta and the flag.\<close>

fun sleep_search :: "nat \<Rightarrow> u32 \<Rightarrow> u32 \<Rightarrow> u32 \<Rightarrow> sched \<Rightarrow> (u32 \<times> u32 \<times> bool) res" where
  "sleep_search 0 t idx delta s = Inr (idx, delta, False)"
| "sleep_search (Suc k) t idx delta s =
     sbind (load_at (sleep_procs s) (unat idx)) (\<lambda>q.
     sbind (get_proc q s) (\<lambda>x.
       if delta + sleep_time x \<ge> t then Inr (idx + 1, delta, True)
       else sleep_search k t (idx + 1) (delta + sleep_time x) s))"

text \<open>The shift copies upwards from \<open>qidx\<close>; each round reads the slot the round before has written.\<close>

fun sleep_shift :: "nat \<Rightarrow> u32 \<Rightarrow> u32 \<Rightarrow> sched \<Rightarrow> sched res" where
  "sleep_shift 0 qidx p s = Inr s"
| "sleep_shift (Suc k) qidx p s =
     sbind (load_at (sleep_procs s) (unat qidx)) (\<lambda>q.
       if q \<noteq> 0 \<and> qidx < 255 then
         sbind (upd_proc q (\<lambda>y. y\<lparr>queue_idx := qidx + 1\<rparr>)
             (s\<lparr>sleep_procs := (sleep_procs s)[unat (qidx + 1) := q]\<rparr>)) (\<lambda>s.
         sbind (get_proc p s) (\<lambda>x.
         sbind (upd_proc q (\<lambda>y. y\<lparr>sleep_time := sleep_time y - sleep_time x\<rparr>) s) (\<lambda>s.
           sleep_shift k (qidx + 1) p s)))
       else Inr s)"

definition sleep_insert :: "u32 \<Rightarrow> sched \<Rightarrow> sched res" where
  "sleep_insert p s =
     sbind (upd_proc p (\<lambda>x. x\<lparr>status := PROC_SLEEP\<rparr>) s) (\<lambda>s.
     if sleep_procs_size s = 0 then
       upd_proc p (\<lambda>x. x\<lparr>queue_idx := 0\<rparr>) (s\<lparr>sleep_procs := (sleep_procs s)[0 := p], sleep_procs_size := 1\<rparr>)
     else sbind (get_proc p s) (\<lambda>x.
       sbind (sleep_search (unat (sleep_procs_size s)) (sleep_time x) 0 0 s) (\<lambda>(idx, delta, flag).
       sbind (upd_proc p (\<lambda>x. x\<lparr>sleep_time := sleep_time x - delta\<rparr>) s) (\<lambda>s.
       let idx = (if flag then idx else sleep_procs_size s);
           s = s\<lparr>sleep_procs_size := sleep_procs_size s + 1\<rparr>
       in sbind (sleep_shift 256 idx p s) (\<lambda>s.
          sbind (store_at (sleep_procs s) (unat idx) p) (\<lambda>xs.
            upd_proc p (\<lambda>x. x\<lparr>queue_idx := idx\<rparr>) (s\<lparr>sleep_procs := xs\<rparr>)))))))"

text \<open>Closing the gap moves every later entry down, the last one from behind the list, and sets the
  index of each through the pointer just moved.\<close>

fun sleep_close :: "nat \<Rightarrow> nat \<Rightarrow> sched \<Rightarrow> sched res" where
  "sleep_close i 0 s = Inr s"
| "sleep_close i (Suc k) s =
     sbind (load_at (sleep_procs s) (i + 1)) (\<lambda>q.
     sbind (upd_proc q (\<lambda>x. x\<lparr>queue_idx := of_nat i\<rparr>) (s\<lparr>sleep_procs := (sleep_procs s)[i := q]\<rparr>)) (\<lambda>s.
       sleep_close (i + 1) k s))"

fun sleep_trim :: "nat \<Rightarrow> sched \<Rightarrow> sched" where
  "sleep_trim 0 s = s"
| "sleep_trim (Suc i) s =
     (let s = (if sleep_procs s ! i = 0 then s\<lparr>sleep_procs_size := sleep_procs_size s - 1\<rparr> else s)
      in if sleep_procs_size s = 0 then s else sleep_trim i s)"

definition sleep_remove :: "u32 \<Rightarrow> sched \<Rightarrow> sched res" where
  "sleep_remove p s =
     sbind (get_proc p s) (\<lambda>x.
     sbind (store_at (sleep_procs s) (unat (queue_idx x)) 0) (\<lambda>xs.
     let s = s\<lparr>sleep_procs := xs\<rparr> in
     sbind (if sleep_procs_size s > 1
            then sleep_close (unat (queue_idx x)) (unat (sleep_procs_size s) - unat (queue_idx x)) s
            else Inr s) (\<lambda>s.
       Inr (sleep_trim (unat (sleep_procs_size s)) s))))"

definition process_awake :: "u32 \<Rightarrow> sched \<Rightarrow> sched res" where
  "process_awake p s = sbind (sleep_remove p s) (ready_insert p)"

subsection \<open>Context switching\<close>

definition copy_ctx :: "regs \<Rightarrow> regs \<Rightarrow> regs" where
  "copy_ctx src dst = dst\<lparr>eax := eax src, ebx := ebx src, ecx := ecx src, edx := edx src,
     edi := edi src, esi := esi src, useresp := useresp src, ebp := ebp src, eip := eip src\<rparr>"

text \<open>\<open>set_page_directory\<close> refuses null.\<close>

definition load_pd :: "u32 \<Rightarrow> sched \<Rightarrow> sched" where
  "load_pd pd s = (if pd = 0 then s else s\<lparr>page_dir := pd\<rparr>)"

definition setup_ctx :: "u32 \<Rightarrow> u32 \<Rightarrow> u32 \<Rightarrow> u32 \<Rightarrow> sched \<Rightarrow> sched res" where
  "setup_ctx ctx r pd ks s =
     sbind (get_frame ctx s) (\<lambda>c. sbind (get_frame r s) (\<lambda>f.
       let s = load_pd pd s in Inr (s\<lparr>tss_stack := ks, frames := (frames s)(r \<mapsto> copy_ctx c f)\<rparr>)))"

definition save_ctx :: "u32 \<Rightarrow> u32 \<Rightarrow> sched \<Rightarrow> sched res" where
  "save_ctx ctx r s =
     sbind (get_frame r s) (\<lambda>f. sbind (get_frame ctx s) (\<lambda>c.
       Inr (s\<lparr>frames := (frames s)(ctx \<mapsto> copy_ctx f c)\<rparr>)))"

subsection \<open>Creation\<close>

definition free_pid :: "sched \<Rightarrow> u32" where
  "free_pid s = (case free_slot (processes s) 1 255 of None \<Rightarrow> 0 | Some i \<Rightarrow> of_nat i)"

abbreviation USER_STACK_TOP :: u32 where "USER_STACK_TOP \<equiv> 0xC0000000 + 32 * 4096"
abbreviation USER_HEAP :: u32 where "USER_HEAP \<equiv> 0xD0000000"
abbreviation USER_HEAP_SIZE :: u32 where "USER_HEAP_SIZE \<equiv> 256 * 1024"
abbreviation KERNEL_STACK_PER_PROCESS :: u32 where "KERNEL_STACK_PER_PROCESS \<equiv> 32 * 4096"

definition zero_regs :: regs where
  "zero_regs = \<lparr>edi = 0, esi = 0, ebp = 0, ebx = 0, edx = 0, ecx = 0, eax = 0, eip = 0, useresp = 0,
     other_regs = replicate 10 0\<rparr>"

text \<open>\<open>pd\<close> is the result of \<open>copy_page_directory\<close> (theory Paging), \<open>mknode\<close> gives the node that
  \<open>kcreate\<close> makes for a pid and \<open>rootdir\<close> is the node of \<open>kseek("/")\<close> (theory Vfs).\<close>

definition create_process :: "u8 list \<Rightarrow> u32 \<Rightarrow> u32 \<Rightarrow> (u32 \<Rightarrow> u32) \<Rightarrow> u32 \<Rightarrow> sched \<Rightarrow> (u32 \<times> sched) res" where
  "create_process nm par pd mknode rootdir s =
     sbind (kalloc s) (\<lambda>(p, s).
     sbind (kalloc s) (\<lambda>(thr, s).
     sbind (kalloc s) (\<lambda>(st, s).
     sbind (kalloc s) (\<lambda>(sgst, s).
     sbind (kalloc s) (\<lambda>(kstack, s).
     sbind (kalloc s) (\<lambda>(g, s).
     sbind (kalloc s) (\<lambda>(qa, s).
     sbind (kalloc s) (\<lambda>(ma, s).
     let s = set_grp g \<lparr>ggid = 0, priority = PROC_PRIORITY_LOW, members = [p], queue = [0], pointer = 0,
               ready_count = 0, queue_size = 0, proc_count = 0\<rparr> s
     in sbind (add_group g s) (\<lambda>s.
     let i = free_pid s in
     if i = 0 then Inl (Panic ''Failed to allocate pid'')
     else if length nm \<ge> 64 then Inl Wild
     else sbind (if par = 0 then Inr (0, rootdir, [47])
                 else sbind (get_proc par s) (\<lambda>y. Inr (uid y, work_dir y, work_dir_abs y))) (\<lambda>(u, wd, wda).
     let s = s\<lparr>frames := (frames s)(st \<mapsto> zero_regs\<lparr>useresp := USER_STACK_TOP, ebp := USER_STACK_TOP\<rparr>,
                 sgst \<mapsto> zero_regs),
               ext_calls := ext_calls s @ [MakeDir i, MakePipe i ''stdout'' 256, MakePipe i ''stderr'' 128,
                 MakePipe i ''stdin'' 256, MapRange pd USER_HEAP (USER_HEAP + USER_HEAP_SIZE),
                 MapRange pd 0xC0000000 USER_STACK_TOP, MapRange pd 0xEA000000 0xEB000000]\<rparr>;
         s = set_proc p \<lparr>pid = i, group = g, gid = 0, pname = nm, pnode = mknode i, status = 0, pdir = pd,
               tstate = st, syscall_state = 0,
               kernel_stack = kstack + KERNEL_STACK_PER_PROCESS, signal_state = sgst, sig_handlers = replicate 64 0,
               sig_stack = [], sig_stack_esp = - 1, in_sig = 0, uheap = USER_HEAP, heap_size = USER_HEAP_SIZE,
               sig_ret_state = 0, queue_idx = 0,
               fswait_nodes = [], fswait_nodes_cnt = 0, parent = par, childs = [], pwait = 0,
               work_dir_abs = wda, work_dir = wd, uid = u,
               sleep_time = 0, shmem_blocks = 0, shmem_size = 0, shmem_bytes = 0\<rparr> s
     in sbind (if par = 0 then Inr s
               else sbind (kalloc s) (\<lambda>(_, s). upd_proc par (\<lambda>y. y\<lparr>childs := childs y @ [p]\<rparr>) s)) (\<lambda>s.
        sbind (store_at (processes s) (unat i) p) (\<lambda>ps.
        sbind (ready_insert p (s\<lparr>processes := ps, total_prcs := total_prcs s + 1\<rparr>)) (\<lambda>s.
          Inr (p, s))))))))))))))"

definition process_create_thread :: "(u32 \<Rightarrow> bool) \<Rightarrow> u32 \<Rightarrow> u32 \<Rightarrow> u32 \<Rightarrow> sched \<Rightarrow> sched res" where
  "process_create_thread v par entry pd s =
     (let i = free_pid s in
      if i = 0 then Inl (Panic ''Failed to allocate pid'')
      else if \<not> v entry then Inr s
      else sbind (kalloc s) (\<lambda>(p, s).
        sbind (get_proc par s) (\<lambda>x.
        sbind (kalloc s) (\<lambda>(thr, s).
        sbind (group_insert p (set_proc p (x\<lparr>pid := i\<rparr>) s)) (\<lambda>s.
        sbind (get_proc (current_process s) s) (\<lambda>cp.
        sbind (kalloc s) (\<lambda>(st, s).
        sbind (kalloc s) (\<lambda>(kstack, s).
        sbind (upd_proc p (\<lambda>y. y\<lparr>pdir := pd, tstate := st, syscall_state := 0,
                 kernel_stack := kstack + KERNEL_STACK_PER_PROCESS,
                 shmem_size := shmem_size x, shmem_bytes := shmem_size x\<rparr>)
               ((load_pd (pdir cp) s)\<lparr>ext_calls := ext_calls s @ [MapRange pd 0xC0000000 USER_STACK_TOP],
                  frames := (frames s)(st \<mapsto> zero_regs\<lparr>useresp := USER_STACK_TOP, ebp := USER_STACK_TOP, eip := entry\<rparr>)\<rparr>)) (\<lambda>s.
        sbind (store_at (processes s) (unat i) p) (\<lambda>ps.
          ready_insert p (s\<lparr>processes := ps, total_prcs := total_prcs s + 1\<rparr>)))))))))))"

subsection \<open>Scheduling, exit and signals\<close>

text \<open>\<open>drained pid\<close> says whether the streams under \<open>/proc/<pid>\<close> are gone or empty; a process with
  output left is kept.\<close>

definition clean_process :: "(u32 \<Rightarrow> bool) \<Rightarrow> (u32 \<Rightarrow> bool) \<Rightarrow> u32 \<Rightarrow> sched \<Rightarrow> sched res" where
  "clean_process v drained p s =
     sbind (get_proc p s) (\<lambda>x.
     sbind (if pwait x \<noteq> 0 \<and> v (parent x)
            then sbind (get_proc (parent x) s) (\<lambda>y.
              if status y = PROC_WAIT
              then sbind (ready_insert (parent x) s) (upd_proc p (\<lambda>x. x\<lparr>pwait := 0\<rparr>)) else Inr s)
            else Inr s) (\<lambda>s.
     if \<not> drained (pid x) then Inr s
     else sbind (group_remove p (s\<lparr>ext_calls := ext_calls s @ [RemoveDir (pid x)]\<rparr>)) (\<lambda>s.
          sbind (load_at (processes s) (unat (pid x))) (\<lambda>q.
          sbind (get_proc q s) (\<lambda>_.
          sbind (killed_remove p s) (\<lambda>s.
            Inr (s\<lparr>processes := (processes s)[unat (pid x) := 0]\<rparr>)))))))"

fun clean_loop :: "(u32 \<Rightarrow> bool) \<Rightarrow> (u32 \<Rightarrow> bool) \<Rightarrow> nat \<Rightarrow> nat \<Rightarrow> sched \<Rightarrow> sched res" where
  "clean_loop v drained i 0 s = Inr s"
| "clean_loop v drained i (Suc k) s =
     sbind (load_at (killed_procs s) i) (\<lambda>p.
     sbind (if p \<noteq> 0 then clean_process v drained p s else Inr s) (clean_loop v drained (i + 1) k))"

definition clean_processes :: "(u32 \<Rightarrow> bool) \<Rightarrow> (u32 \<Rightarrow> bool) \<Rightarrow> sched \<Rightarrow> sched res" where
  "clean_processes v drained s = clean_loop v drained 0 (unat (killed_procs_size s)) s"

text \<open>One tick of the sleep queue.\<close>

fun wake_loop :: "nat \<Rightarrow> sched \<Rightarrow> sched res option" where
  "wake_loop 0 s = None"
| "wake_loop (Suc k) s =
     (if sleep_procs_size s = 0 then Some (Inr s)
      else let p = sleep_procs s ! 0 in
        res_bind (Some (upd_proc p (\<lambda>x. x\<lparr>sleep_time := sleep_time x - 1\<rparr>) s)) (\<lambda>s.
        res_bind (Some (get_proc p s)) (\<lambda>x.
          if sleep_time x = 0 then res_bind (Some (process_awake p s)) (wake_loop k)
          else Some (Inr s))))"

definition switch_in :: "u32 \<Rightarrow> sched \<Rightarrow> sched res" where
  "switch_in reg s =
     (if current_process s = 0 then Inr s
      else sbind (get_proc (current_process s) s) (\<lambda>x.
        setup_ctx (if in_sig x \<noteq> 0 then signal_state x else tstate x) reg (pdir x) (kernel_stack x) s))"

definition switch_out :: "u32 \<Rightarrow> u8 \<Rightarrow> sched \<Rightarrow> sched res" where
  "switch_out reg save s =
     (if current_process s \<noteq> 0 \<and> save \<noteq> 0
      then sbind (get_proc (current_process s) s) (\<lambda>x.
        save_ctx (if in_sig x \<noteq> 0 then signal_state x else tstate x) reg s)
      else Inr s)"

definition pick_next :: "sched \<Rightarrow> sched res" where
  "pick_next s =
     sbind (get_ready s) (\<lambda>(p, s'). Inr (s'\<lparr>current_process := (if p = 0 then current_process s else p)\<rparr>))"

text \<open>The mutually recursive operations: the calls, and one body per function over the function \<open>rc\<close>
  that makes the nested calls.\<close>

datatype kcall = Schedule u32 u8 | Exit u32 | Send u32 u32

definition deliver :: "(kcall \<Rightarrow> sched \<Rightarrow> sched res option) \<Rightarrow> u32 \<Rightarrow> sched \<Rightarrow> sched res option" where
  "deliver rc reg s =
     (let cp = current_process s in
      res_bind (Some (get_proc cp s)) (\<lambda>x.
      if in_sig x = 0 \<and> sig_stack_esp x \<ge> 0 then
        res_bind (Some (load_at (sig_stack x) (nat (sig_stack_esp x)))) (\<lambda>signum.
        res_bind (Some (upd_proc cp (\<lambda>x. x\<lparr>sig_stack_esp := sig_stack_esp x - 1\<rparr>) s)) (\<lambda>s.
        if signum > 64 then Some (Inr s)
        else res_bind (Some (load_at (sig_handlers x) (unat signum))) (\<lambda>h.
          if h \<noteq> 0 then
            res_bind (Some (upd_proc cp (\<lambda>x. x\<lparr>in_sig := 1\<rparr>) s)) (\<lambda>s.
            res_bind (Some (get_frame reg s)) (\<lambda>f.
              Some (Inr (s\<lparr>frames := (frames s)(reg \<mapsto> f\<lparr>eip := h\<rparr>)\<rparr>))))
          else res_bind (Some (load_at (proc_signals s) (unat signum))) (\<lambda>sg.
            case sg of None \<Rightarrow> Some (Inl Wild)
            | Some sg \<Rightarrow>
                if unhandled_behav sg = SIG_UNHANDLD_KILL then
                  res_bind (Some (upd_proc cp (\<lambda>x. x\<lparr>syscall_state := reg\<rparr>) s)) (rc (Exit cp))
                else Some (Inr s)))))
      else Some (Inr s)))"

definition schedule_body ::
    "(kcall \<Rightarrow> sched \<Rightarrow> sched res option) \<Rightarrow> (u32 \<Rightarrow> bool) \<Rightarrow> (u32 \<Rightarrow> bool) \<Rightarrow> nat \<Rightarrow> u32 \<Rightarrow> u8 \<Rightarrow> sched \<Rightarrow> sched res option" where
  "schedule_body rc v drained k reg save s =
     (if total_prcs s = 0 then Some (Inr (s\<lparr>processes := replicate 256 0\<rparr>))
      else res_bind (wake_loop k s) (\<lambda>s.
        res_bind (Some (if reg = 0 \<and> current_process s \<noteq> 0
                        then sbind (get_proc (current_process s) s) (\<lambda>x.
                          Inr (if v (syscall_state x) then syscall_state x else 0))
                        else Inr reg)) (\<lambda>reg.
        if reg = 0 then Some (Inr s)
        else res_bind (Some (sbind (switch_out reg save s) pick_next)) (\<lambda>s.
             res_bind (Some (sbind (switch_in reg s) (clean_processes v drained))) (\<lambda>s.
               deliver rc reg s)))))"

fun orphan :: "u32 list \<Rightarrow> sched \<Rightarrow> sched res" where
  "orphan [] s = Inr s"
| "orphan (c # cs) s = sbind (upd_proc c (\<lambda>x. x\<lparr>parent := 0, pwait := 0\<rparr>) s) (orphan cs)"

definition exit_body :: "(kcall \<Rightarrow> sched \<Rightarrow> sched res option) \<Rightarrow> u32 \<Rightarrow> sched \<Rightarrow> sched res option" where
  "exit_body rc p s =
     res_bind (Some (get_proc p s)) (\<lambda>x.
     if pid x = 1 then
       rc (Schedule (syscall_state x) 0) (s\<lparr>current_process := (if p = current_process s then 0 else current_process s)\<rparr>)
     else
       res_bind (Some (if status x = PROC_READY then ready_remove p s else Inr s)) (\<lambda>s.
       res_bind (Some (upd_proc p (\<lambda>x. x\<lparr>status := PROC_DEAD\<rparr>) s)) (\<lambda>s.
       res_bind (if parent x \<noteq> 0 then rc (Send (parent x) 0) s else Some (Inr s)) (\<lambda>s.
       res_bind (Some (sbind (get_proc p s) (\<lambda>x. orphan (childs x) s))) (\<lambda>s.
       res_bind (Some (killed_insert p s)) (\<lambda>s.
       if p = current_process s then
         res_bind (Some (get_proc p s)) (\<lambda>x. rc (Schedule (syscall_state x) 0) (s\<lparr>current_process := 0\<rparr>))
       else Some (Inr s)))))))"

definition put_signal :: "u32 \<Rightarrow> u32 \<Rightarrow> sched \<Rightarrow> sched res" where
  "put_signal p sg s =
     sbind (get_proc p s) (\<lambda>x. sbind (store_at (sig_stack x) (nat (sig_stack_esp x)) sg) (\<lambda>st.
       Inr (set_proc p (x\<lparr>sig_stack := st\<rparr>) s)))"

definition send_body :: "(kcall \<Rightarrow> sched \<Rightarrow> sched res option) \<Rightarrow> (u32 \<Rightarrow> bool) \<Rightarrow> u32 \<Rightarrow> u32 \<Rightarrow> sched \<Rightarrow> sched res option" where
  "send_body rc v p sg s =
     (if \<not> v p \<or> p = current_process s then Some (Inr s)
      else res_bind (Some (get_proc p s)) (\<lambda>x.
      if sig_stack_esp x \<ge> 64 then Some (Inr s)
      else res_bind (Some (kalloc s)) (\<lambda>(_, s).
        let n = nat (sig_stack_esp x + 2);
            s = set_proc p (x\<lparr>sig_stack_esp := sig_stack_esp x + 1, sig_stack := take n (sig_stack x @ replicate n 0)\<rparr>) s
        in if status x = PROC_WAIT then
             res_bind (Some (upd_proc p (\<lambda>x. x\<lparr>sig_ret_state := 3\<rparr>) s)) (\<lambda>s.
             res_bind (Some (load_at (proc_signals s) (unat sg))) (\<lambda>d.
             case d of None \<Rightarrow> Some (Inl Wild)
             | Some d \<Rightarrow>
                 if block_behav d = SIG_BLOCK_AWAKE then Some (sbind (put_signal p sg s) (ready_insert p))
                 else if block_behav d = SIG_BLOCK_KILL then res_bind (Some (put_signal p sg s)) (rc (Exit p))
                 else if block_behav d = SIG_BLOCK_SKIP
                 then Some (upd_proc p (\<lambda>x. x\<lparr>sig_stack_esp := sig_stack_esp x - 1\<rparr>) s)
                 else Some (put_signal p sg s)))
           else Some (put_signal p sg s))))"

fun run_call :: "(u32 \<Rightarrow> bool) \<Rightarrow> (u32 \<Rightarrow> bool) \<Rightarrow> nat \<Rightarrow> kcall \<Rightarrow> sched \<Rightarrow> sched res option" where
  "run_call v drained 0 c s = None"
| "run_call v drained (Suc k) c s =
     (case c of
        Schedule reg save \<Rightarrow> schedule_body (run_call v drained k) v drained k reg save s
      | Exit p \<Rightarrow> exit_body (run_call v drained k) p s
      | Send p sg \<Rightarrow> send_body (run_call v drained k) v p sg s)"

definition schedule :: "(u32 \<Rightarrow> bool) \<Rightarrow> (u32 \<Rightarrow> bool) \<Rightarrow> nat \<Rightarrow> u32 \<Rightarrow> u8 \<Rightarrow> sched \<Rightarrow> sched res option" where
  "schedule v drained k reg save s = run_call v drained k (Schedule reg save) s"

definition proc_exit :: "(u32 \<Rightarrow> bool) \<Rightarrow> (u32 \<Rightarrow> bool) \<Rightarrow> nat \<Rightarrow> u32 \<Rightarrow> sched \<Rightarrow> sched res option" where
  "proc_exit v drained k p s = run_call v drained k (Exit p) s"

definition send_signal :: "(u32 \<Rightarrow> bool) \<Rightarrow> (u32 \<Rightarrow> bool) \<Rightarrow> nat \<Rightarrow> u32 \<Rightarrow> u32 \<Rightarrow> sched \<Rightarrow> sched res option" where
  "send_signal v drained k p sg s = run_call v drained k (Send p sg) s"

subsection \<open>Blocking operations\<close>

definition get_process_by_pid :: "u32 \<Rightarrow> sched \<Rightarrow> u32 res" where
  "get_process_by_pid i s = load_at (processes s) (unat i)"

definition process_fswait :: "(u32 \<Rightarrow> bool) \<Rightarrow> (u32 \<Rightarrow> bool) \<Rightarrow> nat \<Rightarrow> u32 \<Rightarrow> u32 list \<Rightarrow> u32 \<Rightarrow> sched \<Rightarrow> sched res option" where
  "process_fswait v drained k p ns cnt s =
     res_bind (Some (get_proc p s)) (\<lambda>x.
     if status x = PROC_WAIT \<or> fswait_nodes_cnt x \<noteq> 0 then Some (Inr s)
     else if length ns < unat cnt then Some (Inl Wild)
     else
       let calls = List.map (\<lambda>n. AddWaiter n p) (filter v (take (unat cnt) ns));
           s = set_proc p (x\<lparr>fswait_nodes := ns, fswait_nodes_cnt := cnt\<rparr>) (s\<lparr>ext_calls := ext_calls s @ calls\<rparr>)
       in res_bind (Some (if status x = PROC_READY then ready_remove p s else Inr s)) (\<lambda>s.
          res_bind (Some (wait_insert p s)) (\<lambda>s.
          if p = current_process s then schedule v drained k 0 1 s else Some (Inr s))))"

definition process_fswait_awake :: "u32 \<Rightarrow> sched \<Rightarrow> sched res" where
  "process_fswait_awake p s =
     sbind (get_proc p s) (\<lambda>x.
       let calls = List.map (\<lambda>n. RemoveWaiter n p) (take (unat (fswait_nodes_cnt x)) (fswait_nodes x))
       in ready_insert p (set_proc p (x\<lparr>fswait_nodes_cnt := 0\<rparr>) (s\<lparr>ext_calls := ext_calls s @ calls\<rparr>)))"

text \<open>\<open>inode\<close> maps a node to its \<open>inode\<close> field. The loop tests the count again, and the wake-up
  has set it to zero, so the first node that matches ends it.\<close>

fun notify_loop :: "(u32 \<Rightarrow> bool) \<Rightarrow> (u32 \<Rightarrow> u32) \<Rightarrow> u32 \<Rightarrow> u32 \<Rightarrow> u32 list \<Rightarrow> u32 \<Rightarrow> sched \<Rightarrow> sched res" where
  "notify_loop v inode p node [] i s = Inr s"
| "notify_loop v inode p node (n # ns) i s =
     (if v n \<and> inode node = inode n then
        sbind (get_proc p s) (\<lambda>x.
        sbind (get_frame (tstate x) s) (\<lambda>f.
          process_fswait_awake p (s\<lparr>frames := (frames s)(tstate x \<mapsto> f\<lparr>eax := i\<rparr>)\<rparr>)))
      else notify_loop v inode p node ns (i + 1) s)"

definition process_fswait_notify :: "(u32 \<Rightarrow> bool) \<Rightarrow> (u32 \<Rightarrow> u32) \<Rightarrow> u32 \<Rightarrow> u32 \<Rightarrow> sched \<Rightarrow> sched res" where
  "process_fswait_notify v inode p node s =
     (if v p \<and> v node then
        sbind (get_proc p s) (\<lambda>x.
          if fswait_nodes_cnt x \<noteq> 0
          then notify_loop v inode p node (take (unat (fswait_nodes_cnt x)) (fswait_nodes x)) 0 s else Inr s)
      else Inr s)"

definition process_waitpid :: "(u32 \<Rightarrow> bool) \<Rightarrow> (u32 \<Rightarrow> bool) \<Rightarrow> nat \<Rightarrow> u32 \<Rightarrow> u32 \<Rightarrow> sched \<Rightarrow> sched res option" where
  "process_waitpid v drained k p i s =
     res_bind (Some (get_proc p s)) (\<lambda>x.
     if childs x = [] then Some (Inr s)
     else res_bind (Some (get_process_by_pid i s)) (\<lambda>c.
       if c = 0 then Some (Inr s)
       else res_bind (Some (get_proc c s)) (\<lambda>y.
         if parent y \<noteq> p then Some (Inr s)
         else res_bind (Some (sbind (upd_proc c (\<lambda>y. y\<lparr>pwait := 1\<rparr>) s) (\<lambda>s.
                sbind (ready_remove p s) (wait_insert p)))) (\<lambda>s.
              if p = current_process s then schedule v drained k 0 1 s else Some (Inr s)))))"

definition exit_sig :: "(u32 \<Rightarrow> bool) \<Rightarrow> (u32 \<Rightarrow> bool) \<Rightarrow> nat \<Rightarrow> u32 \<Rightarrow> sched \<Rightarrow> sched res option" where
  "exit_sig v drained k p s =
     res_bind (Some (sbind (upd_proc p (\<lambda>x. x\<lparr>in_sig := 0\<rparr>) s) (\<lambda>s.
       sbind (get_proc p s) (\<lambda>x.
         if sig_ret_state x = 3 then sbind (ready_remove p s) (wait_insert p) else Inr s))))
     (schedule v drained k 0 0)"

definition sig_register :: "u32 \<Rightarrow> sig \<Rightarrow> sched \<Rightarrow> sched" where
  "sig_register i sg s = (if i < 64 then s\<lparr>proc_signals := (proc_signals s)[unat i := Some sg]\<rparr> else s)"

definition init_signals :: "sched \<Rightarrow> sched res" where
  "init_signals s = sbind (kalloc s) (\<lambda>(_, s).
     Inr (sig_register 0 \<lparr>sig_num = 0, unhandled_behav = 0, block_behav = SIG_BLOCK_AWAKE\<rparr> s))"

definition set_sig_handler :: "u32 \<Rightarrow> u32 \<Rightarrow> u32 \<Rightarrow> sched \<Rightarrow> sched res" where
  "set_sig_handler p handl i s =
     (if i \<ge> 64 then Inr s else upd_proc p (\<lambda>x. x\<lparr>sig_handlers := (sig_handlers x)[unat i := handl]\<rparr>) s)"

definition process_sleep :: "(u32 \<Rightarrow> bool) \<Rightarrow> (u32 \<Rightarrow> bool) \<Rightarrow> nat \<Rightarrow> u32 \<Rightarrow> u32 \<Rightarrow> sched \<Rightarrow> sched res option" where
  "process_sleep v drained k p ticks s =
     res_bind (Some (sbind (get_proc p s) (\<lambda>x.
       sbind (if status x = PROC_READY then ready_remove p s else Inr s) (\<lambda>s.
       sbind (upd_proc p (\<lambda>x. x\<lparr>sleep_time := ticks\<rparr>) s) (sleep_insert p))))) (\<lambda>s.
     if p = current_process s then schedule v drained k 0 1 s else Some (Inr s))"

subsection \<open>Shared memory blocks\<close>

definition process_create_shared :: "u32 \<Rightarrow> u32 \<Rightarrow> sched \<Rightarrow> (u32 \<times> sched) res" where
  "process_create_shared p buffer_size s =
     sbind (get_proc p s) (\<lambda>x.
     sbind (kalloc s) (\<lambda>(arr, s).
     sbind (kalloc s) (\<lambda>(_, s).
       let old = (if shmem_size x = 0 then [] else take (unat (shmem_size x)) (blocks s (shmem_blocks x)));
           b = \<lparr>bsize = buffer_size, boffset = shmem_bytes x\<rparr>
       in Inr (shmem_size x, set_proc p (x\<lparr>shmem_blocks := arr, shmem_size := shmem_size x + 1,
                 shmem_bytes := shmem_bytes x + buffer_size\<rparr>)
               (s\<lparr>blocks := (blocks s)(arr := old @ [b])\<rparr>)))))"

definition process_get_shared :: "u32 \<Rightarrow> u32 \<Rightarrow> sched \<Rightarrow> shmem_block option res" where
  "process_get_shared p i s =
     sbind (get_proc p s) (\<lambda>x.
       if i < shmem_size x then sbind (load_at (blocks s (shmem_blocks x)) (unat i)) (\<lambda>b. Inr (Some b))
       else Inr None)"

definition process_reset_shmem :: "u32 \<Rightarrow> sched \<Rightarrow> sched res" where
  "process_reset_shmem p s = upd_proc p (\<lambda>x. x\<lparr>shmem_size := 0, shmem_bytes := 0\<rparr>) s"

text \<open>The mapping of the target's pages, \<open>copy_region\<close> of theory Paging, is returned as a request:
  source directory, target directory, source address, length and target address.\<close>

definition process_open_shmem :: "u32 \<Rightarrow> u32 \<Rightarrow> u32 \<Rightarrow> sched \<Rightarrow> (shmem_block \<times> (u32 \<times> u32 \<times> u32 \<times> u32 \<times> u32) \<times> sched) res" where
  "process_open_shmem p target i s =
     sbind (process_get_shared target i s) (\<lambda>bl. case bl of None \<Rightarrow> Inl Wild | Some bl \<Rightarrow>
     sbind (process_create_shared p (bsize bl) s) (\<lambda>(id1, s).
     sbind (process_get_shared p id1 s) (\<lambda>own. case own of None \<Rightarrow> Inl Wild | Some own \<Rightarrow>
     sbind (get_proc target s) (\<lambda>t. sbind (get_proc p s) (\<lambda>x.
       Inr (own, (pdir t, pdir x, 0xEA000000 + boffset bl, bsize bl, 0xEA000000 + boffset own), s))))))"

subsection \<open>Example states\<close>

text \<open>A state with one process, waiting in \<open>sched_one\<close> and ready in \<open>sched_ready\<close>.\<close>

definition proc_one :: proc where
  "proc_one = \<lparr>pid = 2, group = 50, gid = 0, pname = [], pnode = 0, status = 3, pdir = 7000, tstate = 300, syscall_state = 0,
     kernel_stack = 8000, signal_state = 301, sig_handlers = replicate 64 0, sig_stack = [], sig_stack_esp = - 1,
     in_sig = 0, uheap = 0, heap_size = 0, sig_ret_state = 0, queue_idx = 0, fswait_nodes = [], fswait_nodes_cnt = 0, parent = 0,
     childs = [], pwait = 0, work_dir_abs = [], work_dir = 0, uid = 0, sleep_time = 0, shmem_blocks = 0, shmem_size = 0, shmem_bytes = 0\<rparr>"

definition group_one :: thread_group where
  "group_one = \<lparr>ggid = 0, priority = 0, members = [100], queue = [0], pointer = 0, ready_count = 0,
     queue_size = 0, proc_count = 0\<rparr>"

definition sched_one :: sched where
  "sched_one = \<lparr>procs = [100 \<mapsto> proc_one], grps = [50 \<mapsto> group_one],
     frames = (\<lambda>_. Some zero_regs), blocks = (\<lambda>_. []), processes = (replicate 256 0)[2 := 100],
     killed_procs = replicate 256 0, sleep_procs = replicate 256 0, current_process = 0, init_process = 0,
     total_prcs = 1, sleep_procs_size = 0, killed_procs_size = 0,
     proc_signals = (replicate 64 None)[0 := Some \<lparr>sig_num = 0, unhandled_behav = 0, block_behav = 3\<rparr>],
     groups = (replicate 256 0)[0 := 50], groups_size = 1, groups_ptr = 0, page_dir = 7000, tss_stack = 0,
     avail = [900, 901, 902, 903, 904, 905, 906, 907, 908, 909, 910], ext_calls = []\<rparr>"

definition sched_ready :: sched where
  "sched_ready = sched_one\<lparr>procs := [100 \<mapsto> proc_one\<lparr>status := PROC_READY\<rparr>],
     grps := [50 \<mapsto> group_one\<lparr>queue := [100], ready_count := 1, queue_size := 1\<rparr>]\<rparr>"

subsection \<open>Context switches\<close>

text \<open>C15: a process resumes with the registers it was stopped with. When \<open>save_ctx\<close> has stored the
  interrupt frame, the frame may change in any way; as long as the stored context is untouched,
  \<open>setup_ctx\<close> puts back every general register, the stack and base pointers and the instruction
  pointer, loads the process's kernel stack and its page directory (a null one is refused, and the old one stays), and leaves the other fields of the
  frame and the context alone.\<close>

theorem switch_restores_registers:
  assumes "frames s r = Some f" "frames s ctx = Some c" "r \<noteq> ctx" "save_ctx ctx r s = Inr s1"
    and "frames s2 ctx = frames s1 ctx" "frames s2 r = Some f2"
  shows "\<exists>s3. setup_ctx ctx r pd ks s2 = Inr s3 \<and> frames s3 r = Some (f\<lparr>other_regs := other_regs f2\<rparr>)
    \<and> page_dir s3 = (if pd = 0 then page_dir s2 else pd) \<and> tss_stack s3 = ks \<and> frames s3 ctx = frames s2 ctx"
  using assms by (auto simp: save_ctx_def setup_ctx_def load_pd_def get_frame_def copy_ctx_def Let_def)

lemma switch_restores_registers_witness:
  "\<exists>s1 s3. save_ctx 300 301 (sched_one\<lparr>frames := (\<lambda>_. Some (zero_regs\<lparr>eax := 5\<rparr>))\<rparr>) = Inr s1
     \<and> setup_ctx 300 301 7000 8000 (s1\<lparr>frames := (frames s1)(301 \<mapsto> zero_regs)\<rparr>) = Inr s3
     \<and> frames s3 301 = Some (zero_regs\<lparr>eax := 5\<rparr>) \<and> page_dir s3 = 7000"
proof -
  let ?s = "sched_one\<lparr>frames := (\<lambda>_. Some (zero_regs\<lparr>eax := 5\<rparr>))\<rparr>"
  obtain s1 where s1: "save_ctx 300 301 ?s = Inr s1" by (simp add: save_ctx_def get_frame_def)
  show ?thesis
    using switch_restores_registers [of ?s 301 "zero_regs\<lparr>eax := 5\<rparr>" 300 "zero_regs\<lparr>eax := 5\<rparr>" s1
        "s1\<lparr>frames := (frames s1)(301 \<mapsto> zero_regs)\<rparr>" zero_regs 7000 8000] s1
    by (auto simp: zero_regs_def)
qed

subsection \<open>The sleep queue\<close>

lemma sleep_shift_stop:
  "unat i < length (sleep_procs s) \<Longrightarrow> sleep_procs s ! unat i = 0 \<Longrightarrow> sleep_shift k i p s = Inr s"
  by (cases k) simp_all

text \<open>A process may sleep longer than it asked for. If one process sleeps and a second one goes to
  sleep for at most the time the first has left, \<open>sleep_insert\<close> puts it behind the first with its
  full time as the delta, so it wakes only after the sum of both times.\<close>

theorem sleep_insert_behind:
  assumes one: "sleep_procs_size s = 1" "length (sleep_procs s) = 256" "sleep_procs s ! 0 = q" "sleep_procs s ! 1 = 0"
    and q: "procs s q = Some y" "p \<noteq> q" and p: "procs s p = Some x" "sleep_time x \<le> sleep_time y"
  shows "\<exists>s' z. sleep_insert p s = Inr s' \<and> sleep_procs_size s' = 2 \<and> sleep_procs s' ! 0 = q \<and> sleep_procs s' ! 1 = p
    \<and> procs s' p = Some z \<and> sleep_time z = sleep_time x \<and> status z = PROC_SLEEP \<and> procs s' q = Some y"
proof -
  have "sleep_shift 256 1 p t = Inr t" if "sleep_procs t = sleep_procs s" for t
    using that one by (intro sleep_shift_stop) simp_all
  then show ?thesis using assms by (simp add: sleep_insert_def upd_proc_def get_proc_def Let_def)
qed

lemma sleep_insert_behind_witness:
  "\<exists>s' z. sleep_insert 100 (sched_one\<lparr>procs := [100 \<mapsto> proc_one\<lparr>sleep_time := 5\<rparr>, 101 \<mapsto> proc_one\<lparr>sleep_time := 10\<rparr>],
       sleep_procs := (replicate 256 0)[0 := 101], sleep_procs_size := 1\<rparr>) = Inr s'
     \<and> sleep_procs s' ! 1 = 100 \<and> procs s' 100 = Some z \<and> sleep_time z = 5"
  using sleep_insert_behind [of "sched_one\<lparr>procs := [100 \<mapsto> proc_one\<lparr>sleep_time := 5\<rparr>, 101 \<mapsto> proc_one\<lparr>sleep_time := 10\<rparr>],
       sleep_procs := (replicate 256 0)[0 := 101], sleep_procs_size := 1\<rparr>" 101
       "proc_one\<lparr>sleep_time := 10\<rparr>" 100 "proc_one\<lparr>sleep_time := 5\<rparr>"]
  by auto

text \<open>The first of two sleepers cannot be taken out: the loop that closes the gap ends with a write
  through the null pointer behind the last entry.\<close>

lemma sleep_remove_two_faults:
  assumes "sleep_procs_size s = 2" "length (sleep_procs s) = 256" "sleep_procs s ! 1 = q" "sleep_procs s ! 2 = 0"
    and "procs s p = Some x" "queue_idx x = 0" "procs s q = Some y" "procs s 0 = None"
  shows "sleep_remove p s = Inl Wild"
proof -
  have "q \<noteq> 0" using assms by auto
  then have "sleep_close 0 2 (s\<lparr>sleep_procs := (sleep_procs s)[0 := 0]\<rparr>) = Inl Wild"
    using assms by (simp add: upd_proc_def get_proc_def nth_list_update numeral_2_eq_2)
  moreover have "unat (sleep_procs_size s) - unat (queue_idx x) = 2" "sleep_procs_size s > 1"
    using assms by simp_all
  ultimately show ?thesis using assms by (simp add: sleep_remove_def get_proc_def Let_def)
qed

lemma free_slot_range: "free_slot xs i n = Some j \<Longrightarrow> i \<le> j \<and> j < i + n"
  by (induction n arbitrary: i) (force split: if_splits)+

text \<open>\<open>ready_insert\<close> puts a process where its index says, into the queue of its group.\<close>

lemma ready_insert_queued:
  assumes "procs s p = Some x" "grps s (group x) = Some g" "avail s \<noteq> []"
    and q: "unat (queue_size g) \<le> length (queue g)" "unat (queue_size g) < 4294967295"
  shows "\<exists>s' z h. ready_insert p s = Inr s' \<and> procs s' p = Some z \<and> status z = PROC_READY \<and> group z = group x
    \<and> grps s' (group x) = Some h \<and> unat (queue_idx z) < unat (queue_size h) \<and> queue h ! unat (queue_idx z) = p
    \<and> killed_procs s' = killed_procs s \<and> sleep_procs_size s' = sleep_procs_size s"
proof -
  obtain a rest where a: "avail s = a # rest" using assms(3) by (cases "avail s") auto
  show ?thesis
  proof (cases "free_slot (queue g) 0 (unat (queue_size g))")
    case None
    have n: "unat (queue_size g + 1) = unat (queue_size g) + 1" using q(2) unat_plus1_u32 [of "queue_size g"] by simp
    then show ?thesis using None assms(1,2) a q
      by (simp add: ready_insert_def get_proc_def get_grp_def kalloc_def Let_def set_proc_def set_grp_def)
  next
    case (Some i)
    then have i: "i < unat (queue_size g)" using free_slot_range by fastforce
    then have "unat (of_nat i :: u32) = i" using q(2) by (intro unat_of_nat_u32) simp
    then show ?thesis using Some assms(1,2) i q(1)
      by (simp add: ready_insert_def get_proc_def get_grp_def set_proc_def set_grp_def)
  qed
qed

text \<open>C16: killing a sleeping process does not take it out of the sleep queue, and the timer brings it
  back to life. Process \<open>p\<close> is the only sleeper, in slot 0, with one tick left; it is not the current process, has not the
  number 1 and has neither parent nor children; no process waits to be freed; its group is there, with an array of
  the size it counts, and a heap block is left. Then \<open>proc_exit\<close> marks it dead and lists it as killed, and the next
  tick makes it ready and puts it into the ready queue of its group, at its index, while it is still listed as killed.\<close>

theorem killed_sleeper_runs_again:
  assumes x: "procs s p = Some x" "pid x \<noteq> 1" "status x = PROC_SLEEP" "parent x = 0" "childs x = []"
      "queue_idx x = 0" "sleep_time x = 1" "p \<noteq> current_process s" "p \<noteq> 0"
    and sl: "sleep_procs_size s = 1" "length (sleep_procs s) = 256" "sleep_procs s ! 0 = p"
    and kl: "killed_procs_size s = 0" "length (killed_procs s) = 256"
    and g: "grps s (group x) = Some gr" "avail s \<noteq> []" "unat (queue_size gr) \<le> length (queue gr)" "unat (queue_size gr) < 4294967295"
  shows "\<exists>s1 s2 y z h. proc_exit v drained (Suc k) p s = Some (Inr s1) \<and> procs s1 p = Some y \<and> status y = PROC_DEAD
    \<and> killed_procs s1 ! 0 = p \<and> wake_loop (Suc (Suc m)) s1 = Some (Inr s2)
    \<and> procs s2 p = Some z \<and> status z = PROC_READY \<and> killed_procs s2 ! 0 = p
    \<and> grps s2 (group x) = Some h \<and> unat (queue_idx z) < unat (queue_size h) \<and> queue h ! unat (queue_idx z) = p"
proof -
  let ?y = "x\<lparr>status := PROC_DEAD, queue_idx := 0\<rparr>"
  define s1 where "s1 = s\<lparr>procs := (procs s)(p \<mapsto> ?y), killed_procs := (killed_procs s)[0 := p], killed_procs_size := 1\<rparr>"
  have e: "proc_exit v drained (Suc k) p s = Some (Inr s1)"
    using x kl by (simp add: proc_exit_def exit_body_def get_proc_def upd_proc_def killed_insert_def s1_def)
  let ?t = "s1\<lparr>procs := (procs s1)(p \<mapsto> ?y\<lparr>sleep_time := 0\<rparr>)\<rparr>"
  let ?u = "?t\<lparr>sleep_procs := (sleep_procs s)[0 := 0], sleep_procs_size := 0\<rparr>"
  have r: "sleep_remove p ?t = Inr ?u"
    using sl by (simp add: sleep_remove_def get_proc_def s1_def Let_def)
  have "procs ?u p = Some (?y\<lparr>sleep_time := 0\<rparr>)" "grps ?u (group (?y\<lparr>sleep_time := 0\<rparr>)) = Some gr" "avail ?u \<noteq> []"
    using g(1,2) by (simp_all add: s1_def)
  from ready_insert_queued [OF this g(3,4)]
  obtain s2 z h where s2: "ready_insert p ?u = Inr s2" "procs s2 p = Some z" "status z = PROC_READY"
      "grps s2 (group x) = Some h" "unat (queue_idx z) < unat (queue_size h)" "queue h ! unat (queue_idx z) = p"
      "killed_procs s2 = killed_procs s1" "sleep_procs_size s2 = 0" by auto
  then have "process_awake p ?t = Inr s2" using r by (simp add: process_awake_def)
  then have w: "wake_loop (Suc (Suc m)) s1 = Some (Inr s2)"
    using sl x(7) s2(8) by (simp add: s1_def upd_proc_def get_proc_def)
  have "procs s1 p = Some ?y" "killed_procs s1 ! 0 = p" using kl by (simp_all add: s1_def)
  then show ?thesis using e w s2 by (intro exI [of _ s1] exI [of _ s2]) auto
qed

lemma killed_sleeper_runs_again_witness:
  "\<exists>s1 s2 z h. proc_exit (\<lambda>_. True) (\<lambda>_. True) 1 100 (sched_one\<lparr>procs := [100 \<mapsto> proc_one\<lparr>status := PROC_SLEEP, sleep_time := 1\<rparr>],
       sleep_procs := (replicate 256 0)[0 := 100], sleep_procs_size := 1\<rparr>) = Some (Inr s1)
     \<and> wake_loop (Suc (Suc 0)) s1 = Some (Inr s2) \<and> procs s2 100 = Some z \<and> status z = PROC_READY
     \<and> grps s2 50 = Some h \<and> queue h ! unat (queue_idx z) = 100"
  using killed_sleeper_runs_again [of "sched_one\<lparr>procs := [100 \<mapsto> proc_one\<lparr>status := PROC_SLEEP, sleep_time := 1\<rparr>],
       sleep_procs := (replicate 256 0)[0 := 100], sleep_procs_size := 1\<rparr>" 100
       "proc_one\<lparr>status := PROC_SLEEP, sleep_time := 1\<rparr>" group_one "\<lambda>_. True" "\<lambda>_. True" 0 0]
  by (fastforce simp: sched_one_def proc_one_def group_one_def)

subsection \<open>Groups and signals\<close>

text \<open>Taking a group out of the table can take out another one. \<open>add_group\<close> does not set the
  number of a group it appends, so the group keeps number 0, and \<open>remove_group\<close> for it clears the
  slot of the first group while its own slot stays.\<close>

theorem remove_group_clears_first:
  assumes "groups_size s = 1" "length (groups s) = 256" "groups s ! 0 = g0" "g0 \<noteq> 0" "grps s g = Some x" "ggid x = 0"
  shows "\<exists>s1 s2. add_group g s = Inr s1 \<and> groups s1 ! 0 = g0 \<and> groups s1 ! 1 = g
    \<and> remove_group g s1 = Inr s2 \<and> groups s2 ! 0 = 0 \<and> groups s2 ! 1 = g"
  using assms by (simp add: add_group_def remove_group_def get_grp_def)

lemma remove_group_clears_first_witness:
  "\<exists>s1 s2. add_group 60 (sched_one\<lparr>grps := [50 \<mapsto> group_one, 60 \<mapsto> group_one]\<rparr>) = Inr s1
     \<and> remove_group 60 s1 = Inr s2 \<and> groups s2 ! 0 = 0 \<and> groups s2 ! 1 = 60"
  using remove_group_clears_first [of "sched_one\<lparr>grps := [50 \<mapsto> group_one, 60 \<mapsto> group_one]\<rparr>" 50 60 group_one]
  by (auto simp: sched_one_def group_one_def)

text \<open>A signal wakes a waiting process. \<open>send_signal\<close> to a waiting process, other than the current
  one, of a signal whose behaviour is to awake pushes the number on the process's signal stack, notes
  that it has to go back to waiting, and makes it ready.\<close>

theorem send_signal_awakes:
  assumes x: "procs s p = Some x" "status x = PROC_WAIT" "p \<noteq> current_process s" "v p" "sig_stack_esp x = - 1"
    and g: "grps s (group x) = Some gr" "avail s = a # b # rest"
    and sg: "unat sg < length (proc_signals s)" "proc_signals s ! unat sg = Some d" "block_behav d = SIG_BLOCK_AWAKE"
  shows "\<exists>s' y. send_signal v drained (Suc k) p sg s = Some (Inr s') \<and> procs s' p = Some y \<and> status y = PROC_READY
    \<and> sig_stack y = [sg] \<and> sig_stack_esp y = 0 \<and> sig_ret_state y = 3 \<and> in_sig y = in_sig x"
proof -
  have n: "nat (sig_stack_esp x + 2) = Suc 0" using x(5) by simp
  let ?x = "x\<lparr>sig_stack_esp := 0, sig_ret_state := 3, sig_stack := [sg]\<rparr>"
  define s1 where "s1 = s\<lparr>avail := b # rest, procs := (procs s)(p \<mapsto> ?x)\<rparr>"
  have l: "length (take (Suc 0) (sig_stack x @ replicate (Suc 0) 0)) = Suc 0"
      "(take (Suc 0) (sig_stack x @ replicate (Suc 0) 0))[0 := sg] = [sg]" by (cases "sig_stack x"; simp)+
  have e: "send_signal v drained (Suc k) p sg s = Some (ready_insert p s1)"
    using x g(2) sg n(1) l
    by (simp add: send_signal_def send_body_def get_proc_def kalloc_def Let_def upd_proc_def set_proc_def put_signal_def s1_def
        del: take_append length_take replicate.simps)
  show ?thesis unfolding e using g(1)
    by (cases "free_slot (queue gr) 0 (unat (queue_size gr))")
      (auto simp: ready_insert_def get_proc_def get_grp_def s1_def kalloc_def Let_def set_proc_def set_grp_def)
qed

lemma send_signal_awakes_witness:
  "\<exists>s' y. send_signal (\<lambda>_. True) (\<lambda>_. True) (Suc 0) 100 0 sched_one = Some (Inr s') \<and> procs s' 100 = Some y
     \<and> status y = PROC_READY \<and> sig_stack y = [0]"
  using send_signal_awakes [of sched_one 100 proc_one "\<lambda>_. True" group_one 900 901 "[902, 903, 904, 905, 906, 907, 908, 909, 910]"
      0 "\<lparr>sig_num = 0, unhandled_behav = 0, block_behav = 3\<rparr>" "\<lambda>_. True" 0]
  by (auto simp: sched_one_def proc_one_def)

end
