(* ===== verification/Ready_Queues.thy ===== *)
theory Ready_Queues
  imports Proc
begin

text \<open>
  The ready queues of theory Proc: both searches of the scheduler are one cyclic scan; the queues
  hold exactly the ready processes, an invariant that inserting, blocking and choosing keep; the
  choice respects priorities, finds a ready process whenever there is one, and is fair within a queue.
\<close>

subsection \<open>Cyclic search\<close>

text \<open>Both searches, over the groups and over a ready queue, are this loop.\<close>

fun ring_scan :: "nat \<Rightarrow> (u32 \<Rightarrow> bool) \<Rightarrow> u32 list \<Rightarrow> u32 \<Rightarrow> u32 \<Rightarrow> u32 \<Rightarrow> u32 \<Rightarrow> u32 \<times> u32" where
  "ring_scan 0 E q n f c p = (c, p)"
| "ring_scan (Suc k) E q n f c p =
     (if E c then (c, p)
      else let c = q ! unat p; p = (if p + 1 \<ge> n then 0 else p + 1)
           in if f = p then (c, p) else ring_scan k E q n f c p)"

lemma ring_step:
  assumes "unat n = N" "0 < N" "m < N"
  shows "(if (of_nat m :: u32) + 1 \<ge> n then 0 else of_nat m + 1) = of_nat (Suc m mod N)"
proof -
  have N: "N < 4294967296" using assms(1) unat_u32_less [of n] by linarith
  have u: "unat (of_nat m :: u32) = m" using assms(3) N by (intro unat_of_nat_u32) simp
  have "n = of_nat N" using assms(1) by (metis unat_of_nat_u32 N u32_eq_iff)
  show ?thesis
  proof (cases "Suc m = N")
    case True
    have "(of_nat m :: u32) + 1 = n" using True \<open>n = of_nat N\<close> by (metis add.commute of_nat_Suc)
    then show ?thesis using True by simp
  next
    case False
    then have l: "Suc m < N" using assms(3) by simp
    then have "unat ((of_nat m :: u32) + 1) = Suc m" using u N by (simp add: unat_plus1_u32)
    then have "\<not> (of_nat m :: u32) + 1 \<ge> n" using assms(1) l by (simp add: word_le_nat_alt)
    then show ?thesis using l by (simp add: add.commute)
  qed
qed

text \<open>The loop stops at the first entry that \<open>E\<close> accepts, in cyclic order from \<open>f\<close>, or after the
  last one, and leaves the pointer behind it.\<close>

lemma ring_scan_finds:
  assumes n: "unat n = N" "F < N" "f = of_nat F"
  shows "j < N \<Longrightarrow> \<forall>l < j. \<not> E (q ! ((F + l) mod N)) \<Longrightarrow> \<not> E c \<Longrightarrow> N - j < k \<Longrightarrow>
    \<exists>i. j \<le> i \<and> i < N \<and> ring_scan k E q n f c (of_nat ((F + j) mod N)) = (q ! ((F + i) mod N), of_nat (Suc (F + i) mod N))
      \<and> (\<forall>l < i. \<not> E (q ! ((F + l) mod N))) \<and> (E (q ! ((F + i) mod N)) \<or> i = N - 1)"
proof (induction k arbitrary: j c)
  case (Suc k)
  have N: "0 < N" "N < 4294967296" using n unat_u32_less [of n] by linarith+
  define m where "m = (F + j) mod N"
  have m: "m < N" using N by (simp add: m_def)
  have um: "unat (of_nat m :: u32) = m" using m N by (intro unat_of_nat_u32) simp
  have step: "(if (of_nat m :: u32) + 1 \<ge> n then 0 else of_nat m + 1) = of_nat (Suc (F + j) mod N)"
    using ring_step [OF n(1) N(1) m] by (simp add: m_def mod_Suc_eq)
  have eq: "f = of_nat (Suc (F + j) mod N) \<longleftrightarrow> Suc j = N"
  proof -
    have "f = of_nat (Suc (F + j) mod N) \<longleftrightarrow> F = Suc (F + j) mod N"
    proof -
      have "Suc (F + j) mod N < N" using N(1) by simp
      then have "Suc (F + j) mod N < 4294967296" "F < 4294967296" using n(2) N(2) by linarith+
      then have "unat (of_nat (Suc (F + j) mod N) :: u32) = Suc (F + j) mod N" "unat f = F"
        unfolding n(3) by (simp_all only: unat_of_nat_u32)
      then show ?thesis unfolding u32_eq_iff by simp
    qed
    also have "\<dots> \<longleftrightarrow> Suc j = N"
    proof (cases "Suc (F + j) < N")
      case False
      then have "Suc (F + j) mod N = Suc (F + j) - N" using n(2) Suc.prems(1) by (simp add: mod_if)
      then show ?thesis using n(2) False by auto
    qed simp
    finally show ?thesis .
  qed
  have run: "ring_scan (Suc k) E q n f c (of_nat m) =
      (if Suc j = N then (q ! m, of_nat (Suc (F + j) mod N)) else ring_scan k E q n f (q ! m) (of_nat (Suc (F + j) mod N)))"
    using Suc.prems(3) by (simp add: Let_def um step eq)
  show ?case
  proof (cases "Suc j = N")
    case True
    then show ?thesis using run Suc.prems by (intro exI [of _ j]) (auto simp: m_def)
  next
    case False
    show ?thesis
    proof (cases "E (q ! m)")
      case True
      have "0 < k" using Suc.prems False by simp
      then obtain k' where "k = Suc k'" by (cases k) auto
      then have "ring_scan k E q n f (q ! m) (of_nat (Suc (F + j) mod N)) = (q ! m, of_nat (Suc (F + j) mod N))"
        using True by simp
      then show ?thesis using run False True Suc.prems by (intro exI [of _ j]) (auto simp: m_def)
    next
      case nE: False
      have "\<forall>l < Suc j. \<not> E (q ! ((F + l) mod N))" using Suc.prems(2) nE by (auto simp: less_Suc_eq m_def)
      moreover have "Suc j < N" "N - Suc j < k" using False Suc.prems by auto
      ultimately obtain i where "Suc j \<le> i" "i < N"
          "ring_scan k E q n f (q ! m) (of_nat ((F + Suc j) mod N)) = (q ! ((F + i) mod N), of_nat (Suc (F + i) mod N))"
          "\<forall>l < i. \<not> E (q ! ((F + l) mod N))" "E (q ! ((F + i) mod N)) \<or> i = N - 1"
        using Suc.IH [of "Suc j" "q ! m"] nE by blast
      then show ?thesis using run False by (intro exI [of _ i]) (auto simp: m_def)
    qed
  qed
qed simp

lemma ring_covers:
  assumes "F < N" "m < N" "\<forall>l < N. \<not> E (q ! ((F + l) mod N))"
  shows "\<not> E (q ! m)"
proof -
  define l where "l = (if F \<le> m then m - F else m + N - F)"
  have "l < N" "(F + l) mod N = m" using assms by (auto simp: l_def)
  then show ?thesis using assms(3) by metis
qed

lemma get_ready_loop_scan:
  assumes "unat n \<le> length q" "0 < unat n"
  shows "unat p < unat n \<Longrightarrow> get_ready_loop k q n f c p = Inr (ring_scan k (\<lambda>x. x \<noteq> 0) q n f c p)"
proof (induction k arbitrary: c p)
  case (Suc k)
  have "unat (if p + 1 \<ge> n then 0 else p + 1) < unat n" 
    using assms(2) by (cases "p + 1 \<ge> n") (simp_all add: not_le word_less_nat_alt)
  from Suc.IH [OF this] show ?case using Suc.prems assms by (simp add: Let_def)
qed simp

lemma get_group_loop_scan:
  assumes "unat (groups_size s) \<le> length (groups s)" "0 < unat (groups_size s)"
    and E: "\<And>g. g \<in> set (take (unat (groups_size s)) (groups s)) \<Longrightarrow> eligible prior g s = Inr (E g)"
  shows "unat p < unat (groups_size s) \<Longrightarrow> eligible prior c s = Inr (E c) \<Longrightarrow>
    get_group_loop k prior f c p s = Inr (ring_scan k E (groups s) (groups_size s) f c p)"
proof (induction k arbitrary: c p)
  case (Suc k)
  have nx: "unat (if p + 1 \<ge> groups_size s then 0 else p + 1) < unat (groups_size s)"
    using assms(2) by (cases "p + 1 \<ge> groups_size s") (simp_all add: not_le word_less_nat_alt)
  have "groups s ! unat p \<in> set (take (unat (groups_size s)) (groups s))"
    using Suc.prems(1) assms(1) by (force simp: in_set_conv_nth)
  from Suc.IH [OF nx E [OF this]] show ?case using Suc.prems assms(1) by (simp add: Let_def)
qed simp

subsection \<open>The ready queues\<close>

definition queue_ok :: "sched \<Rightarrow> u32 \<Rightarrow> thread_group \<Rightarrow> bool" where
  "queue_ok s g x \<longleftrightarrow> unat (queue_size x) \<le> length (queue x)
     \<and> (queue_size x = 0 \<and> pointer x = 0 \<or> pointer x < queue_size x)
     \<and> unat (ready_count x) = length (filter (\<lambda>q. q \<noteq> 0) (take (unat (queue_size x)) (queue x)))
     \<and> (\<forall>i < unat (queue_size x). queue x ! i \<noteq> 0 \<longrightarrow>
          (\<exists>y. procs s (queue x ! i) = Some y \<and> group y = g \<and> status y = PROC_READY \<and> unat (queue_idx y) = i))"

text \<open>The queues hold exactly the ready processes: every entry is a ready process of the group that
  knows its index, every ready process is an entry of its group's queue, and the counts agree.\<close>

definition ready_ok :: "sched \<Rightarrow> bool" where
  "ready_ok s \<longleftrightarrow> (\<forall>g x. grps s g = Some x \<longrightarrow> queue_ok s g x)
     \<and> (\<forall>p y. procs s p = Some y \<and> status y = PROC_READY \<longrightarrow>
          p \<noteq> 0 \<and> (\<exists>x. grps s (group y) = Some x \<and> unat (queue_idx y) < unat (queue_size x)
            \<and> queue x ! unat (queue_idx y) = p))"

lemma ready_ok_cong: "procs s' = procs s \<Longrightarrow> grps s' = grps s \<Longrightarrow> ready_ok s' = ready_ok s"
  unfolding ready_ok_def queue_ok_def by (simp only:)

lemma free_slot_Some:
  "free_slot xs i n = Some j \<Longrightarrow> i \<le> j \<and> j < i + n \<and> xs ! j = 0"
  by (induction xs i n rule: free_slot.induct) (auto split: if_splits)

lemma free_slot_None:
  "free_slot xs i n = None \<Longrightarrow> i \<le> j \<Longrightarrow> j < i + n \<Longrightarrow> xs ! j \<noteq> 0"
proof (induction xs i n rule: free_slot.induct)
  case (2 xs i n)
  then show ?case by (cases "j = i") (auto split: if_splits)
qed simp

lemma count_set_ready:
  "i < length xs \<Longrightarrow> xs ! i = 0 \<Longrightarrow> p \<noteq> 0 \<Longrightarrow>
   length (filter (\<lambda>q. q \<noteq> 0) (xs[i := p])) = Suc (length (filter (\<lambda>q. q \<noteq> (0 :: u32)) xs))"
  by (induction xs arbitrary: i) (auto split: nat.splits simp: nth_Cons)

lemma count_clear_ready:
  "i < length xs \<Longrightarrow> xs ! i \<noteq> 0 \<Longrightarrow>
   Suc (length (filter (\<lambda>q. q \<noteq> 0) (xs[i := 0]))) = length (filter (\<lambda>q. q \<noteq> (0 :: u32)) xs)"
  by (induction xs arbitrary: i) (auto split: nat.splits simp: nth_Cons)

text \<open>Setting one slot of a group's queue and the process in it.\<close>

lemma ready_ok_insert:
  assumes ok: "ready_ok s" and y: "procs s p = Some y" "status y \<noteq> PROC_READY" "p \<noteq> 0"
    and x: "grps s (group y) = Some x"
    and i: "i < unat n" "queue_size x \<le> n" "unat n \<le> length q"
      "\<And>j. j < unat (queue_size x) \<Longrightarrow> q ! j = queue x ! j" "\<And>j. unat (queue_size x) \<le> j \<Longrightarrow> j < unat n \<Longrightarrow> j = i"
      "i < unat (queue_size x) \<Longrightarrow> queue x ! i = 0"
    and cnt: "unat rc = length (filter (\<lambda>q. q \<noteq> 0) (take (unat n) (q[i := p])))"
  shows "ready_ok (set_proc p (y\<lparr>status := PROC_READY, queue_idx := of_nat i\<rparr>)
    (set_grp (group y) (x\<lparr>ready_count := rc, queue_size := n, queue := q[i := p]\<rparr>) s))"
proof -
  let ?y = "y\<lparr>status := PROC_READY, queue_idx := of_nat i\<rparr>"
  let ?x = "x\<lparr>ready_count := rc, queue_size := n, queue := q[i := p]\<rparr>"
  let ?s = "set_proc p ?y (set_grp (group y) ?x s)"
  have i32: "unat (of_nat i :: u32) = i" using i(1) unat_u32_less [of n] by (intro unat_of_nat_u32) linarith
  have absent: "queue z ! j \<noteq> p" if "grps s g = Some z" "j < unat (queue_size z)" for g z j
    using ok y that unfolding ready_ok_def queue_ok_def by fastforce
  have "queue_ok ?s g z" if "grps ?s g = Some z" for g z
  proof (cases "g = group y")
    case True
    then have z: "z = ?x" using that by (simp add: set_proc_def set_grp_def)
    have qx: "queue_ok s (group y) x" using ok x by (auto simp: ready_ok_def)
    have ptr: "pointer x < n"
    proof (cases "queue_size x = 0")
      case True
      then have "pointer x = 0" using qx by (auto simp: queue_ok_def)
      then show ?thesis using i(1) by (simp add: word_less_nat_alt)
    next
      case False
      then have "pointer x < queue_size x" using qx by (auto simp: queue_ok_def)
      then show ?thesis using i(2) by simp
    qed
    have "\<exists>w. procs ?s (q[i := p] ! j) = Some w \<and> group w = g \<and> status w = PROC_READY \<and> unat (queue_idx w) = j"
      if j: "j < unat n" "q[i := p] ! j \<noteq> 0" for j
    proof (cases "j = i")
      case True
      then show ?thesis using j i(3) i32 \<open>g = group y\<close> by (simp add: set_proc_def)
    next
      case False
      then have l: "j < unat (queue_size x)" using i(5) [of j] j by fastforce
      then have e: "q[i := p] ! j = queue x ! j" using False i(4) by simp
      then obtain w where "procs s (queue x ! j) = Some w" "group w = group y" "status w = PROC_READY" "unat (queue_idx w) = j"
        using qx l j(2) by (auto simp: queue_ok_def)
      then show ?thesis using e absent [OF x l] \<open>g = group y\<close> by (simp add: set_proc_def set_grp_def)
    qed
    then show ?thesis using ptr i(3) cnt unfolding z queue_ok_def by simp
  next
    case False
    then have gz: "grps s g = Some z" using that by (simp add: set_proc_def set_grp_def)
    then have "queue_ok s g z" using ok by (auto simp: ready_ok_def)
    then show ?thesis using absent [OF gz] by (fastforce simp: queue_ok_def set_proc_def set_grp_def)
  qed
  moreover have "r \<noteq> 0 \<and> (\<exists>z. grps ?s (group w) = Some z \<and> unat (queue_idx w) < unat (queue_size z)
      \<and> queue z ! unat (queue_idx w) = r)" if w: "procs ?s r = Some w" "status w = PROC_READY" for r w
  proof (cases "r = p")
    case True
    then have "w = ?y" using w by (simp add: set_proc_def)
    then show ?thesis using True y(3) i(1,3) i32 by (simp add: set_proc_def set_grp_def)
  next
    case False
    then have ws: "procs s r = Some w" using w by (simp add: set_proc_def set_grp_def)
    then obtain z where z: "r \<noteq> 0" "grps s (group w) = Some z" "unat (queue_idx w) < unat (queue_size z)"
        "queue z ! unat (queue_idx w) = r" using ok w(2) unfolding ready_ok_def by blast
    show ?thesis
    proof (cases "group w = group y")
      case True
      then have zx: "z = x" using z x by simp
      then have "unat (queue_idx w) \<noteq> i" using z i(6) by auto
      then have "q[i := p] ! unat (queue_idx w) = r" using z(3,4) zx i(4) by simp
      moreover have "unat (queue_idx w) < unat n" using z(3) zx i(2) by (simp add: word_le_nat_alt)
      ultimately show ?thesis using z(1) True by (simp add: set_proc_def set_grp_def)
    next
      case False
      then show ?thesis using z by (simp add: set_proc_def set_grp_def)
    qed
  qed
  ultimately show ?thesis unfolding ready_ok_def by blast
qed

lemma sched_ready_ok: "ready_ok sched_ready"
  by (auto simp: sched_ready_def sched_one_def proc_one_def group_one_def ready_ok_def queue_ok_def split: if_splits)

lemma ready_count_insert:
  assumes qx: "queue_ok s g x" and n: "queue_size x \<noteq> - 1" and p: "p \<noteq> 0"
  shows "i < unat (queue_size x) \<Longrightarrow> queue x ! i = 0 \<Longrightarrow>
      unat (ready_count x + 1) = length (filter (\<lambda>q. q \<noteq> 0) (take (unat (queue_size x)) ((queue x)[i := p])))"
    and "q = take (unat (queue_size x + 1)) (queue x @ replicate (unat (queue_size x + 1)) 0) \<Longrightarrow>
      unat (queue_size x + 1) = unat (queue_size x) + 1 \<and> length q = unat (queue_size x + 1)
      \<and> (\<forall>j < unat (queue_size x). q ! j = queue x ! j)
      \<and> unat (ready_count x + 1) = length (filter (\<lambda>q. q \<noteq> 0) (take (unat (queue_size x + 1)) (q[unat (queue_size x) := p])))"
proof -
  let ?n = "queue_size x" and ?m = "queue_size x + 1"
  have len: "unat ?n \<le> length (queue x)" and cnt: "unat (ready_count x) = length (filter (\<lambda>q. q \<noteq> 0) (take (unat ?n) (queue x)))"
    using qx by (simp_all add: queue_ok_def)
  have le: "unat (ready_count x) \<le> unat ?n" unfolding cnt by (rule order_trans [OF length_filter_le]) simp
  have nmax: "unat ?n + 1 < 4294967296"
    using n u32_eq_iff [of ?n "- 1"] unat_u32_less [of ?n] by (simp add: less_le)
  have rc: "unat (ready_count x + 1) = unat (ready_count x) + 1" using le nmax by (intro unat_plus1_u32) linarith
  show "unat (ready_count x + 1) = length (filter (\<lambda>q. q \<noteq> 0) (take (unat ?n) ((queue x)[i := p])))"
    if "i < unat ?n" "queue x ! i = 0"
    using rc cnt count_set_ready [of i "take (unat ?n) (queue x)" p] that len p by (simp add: take_update_swap)
  assume q: "q = take (unat ?m) (queue x @ replicate (unat ?m) 0)"
  have m: "unat ?m = unat ?n + 1" using nmax by (rule unat_plus1_u32)
  have lq: "length q = unat ?m" unfolding q by simp
  have tq: "take (unat ?n) q = take (unat ?n) (queue x)" unfolding q using len m by (simp add: min_def)
  have "q[unat ?n := p] = take (unat ?n) q @ [p]" using lq m by (simp add: upd_conv_take_nth_drop)
  then have "take (unat ?m) (q[unat ?n := p]) = take (unat ?n) (queue x) @ [p]" using lq m tq by simp
  moreover have "\<forall>j < unat ?n. q ! j = queue x ! j" unfolding q using len m by (simp add: nth_append)
  ultimately show "unat ?m = unat ?n + 1 \<and> length q = unat ?m \<and> (\<forall>j < unat ?n. q ! j = queue x ! j)
      \<and> unat (ready_count x + 1) = length (filter (\<lambda>q. q \<noteq> 0) (take (unat ?m) (q[unat ?n := p])))"
    using m lq rc cnt p by simp
qed

text \<open>C12: \<open>ready_insert\<close> keeps the ready queues consistent. For a process that is not ready, it
  succeeds and marks the process ready; afterwards the queues again hold exactly the ready processes,
  each under the index it knows, with the counts right; no other process changes.\<close>

theorem ready_insert_keeps_queues:
  assumes ok: "ready_ok s" and y: "procs s p = Some y" "status y \<noteq> PROC_READY" "p \<noteq> 0"
    and x: "grps s (group y) = Some x" "queue_size x \<noteq> - 1" and av: "avail s \<noteq> []"
  shows "\<exists>s' i. ready_insert p s = Inr s' \<and> ready_ok s'
     \<and> procs s' = (procs s)(p \<mapsto> y\<lparr>status := PROC_READY, queue_idx := i\<rparr>)"
proof -
  let ?n = "queue_size x"
  have qx: "queue_ok s (group y) x" using ok x by (auto simp: ready_ok_def)
  then have len: "unat ?n \<le> length (queue x)" by (simp add: queue_ok_def)
  note count = ready_count_insert [OF qx x(2) y(3)]
  show ?thesis
  proof (cases "free_slot (queue x) 0 (unat ?n)")
    case (Some i)
    have i: "i < unat ?n" "queue x ! i = 0" using free_slot_Some [OF Some] by auto
    have "ready_ok (set_proc p (y\<lparr>status := PROC_READY, queue_idx := of_nat i\<rparr>)
        (set_grp (group y) (x\<lparr>ready_count := ready_count x + 1, queue_size := ?n, queue := (queue x)[i := p]\<rparr>) s))"
      using i len count(1) [OF i] by (intro ready_ok_insert [OF ok y x(1)]) auto
    then show ?thesis using Some y(1) x(1)
      by (simp add: ready_insert_def get_proc_def get_grp_def) (auto simp: set_proc_def set_grp_def)
  next
    case None
    obtain a rest where a: "avail s = a # rest" using av by (cases "avail s") auto
    let ?s = "s\<lparr>avail := rest\<rparr>" and ?m = "?n + 1"
    define q where "q = take (unat ?m) (queue x @ replicate (unat ?m) 0)"
    note c = count(2) [OF q_def]
    have ok': "ready_ok ?s" using ok ready_ok_cong [of ?s s] by simp
    have "ready_ok (set_proc p (y\<lparr>status := PROC_READY, queue_idx := of_nat (unat ?n)\<rparr>)
        (set_grp (group y) (x\<lparr>ready_count := ready_count x + 1, queue_size := ?m, queue := q[unat ?n := p]\<rparr>) ?s))"
      using y x c by (intro ready_ok_insert [OF ok']) (auto simp: word_le_nat_alt)
    then show ?thesis using None y(1) x(1) a
      by (simp add: ready_insert_def get_proc_def get_grp_def kalloc_def Let_def q_def) (auto simp: set_proc_def set_grp_def)
  qed
qed

lemma ready_insert_keeps_queues_witness:
  "\<exists>s' i. ready_insert 100 sched_one = Inr s' \<and> ready_ok s'
     \<and> procs s' = (procs sched_one)(100 \<mapsto> proc_one\<lparr>status := PROC_READY, queue_idx := i\<rparr>)"
  by (rule ready_insert_keeps_queues [where x = group_one])
     (simp_all add: sched_one_def proc_one_def group_one_def ready_ok_def queue_ok_def)

text \<open>Clearing the slot of a ready process that waits from now on.\<close>

lemma ready_slot_unique:
  assumes "ready_ok s" "procs s p = Some y" "p \<noteq> 0" "grps s g = Some z" "j < unat (queue_size z)" "queue z ! j = p"
  shows "g = group y \<and> j = unat (queue_idx y)"
proof -
  have "queue_ok s g z" using assms(1,4) by (auto simp: ready_ok_def)
  then show ?thesis using assms(2,3,5,6) unfolding queue_ok_def by fastforce
qed

lemma queue_ok_remove:
  assumes ok: "ready_ok s" and y: "procs s p = Some y" "p \<noteq> 0" and x: "grps s (group y) = Some x"
    and i: "i = unat (queue_idx y)" "i < unat (queue_size x)" "queue x ! i = p"
    and z: "grps (set_proc p (y\<lparr>status := PROC_WAIT\<rparr>)
      (set_grp (group y) (x\<lparr>ready_count := ready_count x - 1, queue := (queue x)[i := 0]\<rparr>) s)) g = Some z"
  shows "queue_ok (set_proc p (y\<lparr>status := PROC_WAIT\<rparr>)
      (set_grp (group y) (x\<lparr>ready_count := ready_count x - 1, queue := (queue x)[i := 0]\<rparr>) s)) g z"
proof -
  let ?x = "x\<lparr>ready_count := ready_count x - 1, queue := (queue x)[i := 0]\<rparr>"
  let ?s = "set_proc p (y\<lparr>status := PROC_WAIT\<rparr>) (set_grp (group y) ?x s)" and ?n = "unat (queue_size x)"
  have qx: "queue_ok s (group y) x" using ok x by (auto simp: ready_ok_def)
  then have len: "?n \<le> length (queue x)" and cnt: "unat (ready_count x) = length (filter (\<lambda>q. q \<noteq> 0) (take ?n (queue x)))"
    by (simp_all add: queue_ok_def)
  note once = ready_slot_unique [OF ok y]
  show ?thesis
  proof (cases "g = group y")
    case True
    then have z: "z = ?x" using z by (simp add: set_proc_def set_grp_def)
    have "Suc (length (filter (\<lambda>q. q \<noteq> 0) ((take ?n (queue x))[i := 0]))) = unat (ready_count x)"
      unfolding cnt using i len y(2) by (intro count_clear_ready) auto
    then have c: "unat (ready_count x - 1) = length (filter (\<lambda>q. q \<noteq> 0) (take ?n ((queue x)[i := 0])))"
      using unat_minus1_u32 [of "ready_count x"] by (cases "ready_count x = 0") (auto simp: take_update_swap)
    have "\<exists>w. procs ?s ((queue x)[i := 0] ! j) = Some w \<and> group w = g \<and> status w = PROC_READY \<and> unat (queue_idx w) = j"
      if j: "j < ?n" "(queue x)[i := 0] ! j \<noteq> 0" for j
    proof -
      have ji: "j \<noteq> i" using j len by auto
      then have "queue x ! j \<noteq> p" using once [OF x j(1)] i(1) by blast
      moreover obtain w where "procs s (queue x ! j) = Some w" "group w = group y" "status w = PROC_READY" "unat (queue_idx w) = j"
        using qx j ji by (auto simp: queue_ok_def)
      ultimately show ?thesis using ji True by (simp add: set_proc_def set_grp_def)
    qed
    then show ?thesis using qx c len unfolding z queue_ok_def by simp
  next
    case False
    then have gz: "grps s g = Some z" using z by (simp add: set_proc_def set_grp_def)
    then have "queue_ok s g z" using ok by (auto simp: ready_ok_def)
    moreover have "queue z ! j \<noteq> p" if "j < unat (queue_size z)" for j using once [OF gz that] False by blast
    ultimately show ?thesis by (fastforce simp: queue_ok_def set_proc_def set_grp_def)
  qed
qed

lemma ready_ok_remove:
  assumes ok: "ready_ok s" and y: "procs s p = Some y" "p \<noteq> 0" and x: "grps s (group y) = Some x"
    and i: "i = unat (queue_idx y)" "i < unat (queue_size x)" "queue x ! i = p"
  shows "ready_ok (set_proc p (y\<lparr>status := PROC_WAIT\<rparr>)
      (set_grp (group y) (x\<lparr>ready_count := ready_count x - 1, queue := (queue x)[i := 0]\<rparr>) s))" (is "ready_ok ?s")
proof -
  have "r \<noteq> 0 \<and> (\<exists>z. grps ?s (group w) = Some z \<and> unat (queue_idx w) < unat (queue_size z)
      \<and> queue z ! unat (queue_idx w) = r)" if w: "procs ?s r = Some w" "status w = PROC_READY" for r w
  proof -
    have rp: "r \<noteq> p" using w by (auto simp: set_proc_def)
    then have ws: "procs s r = Some w" using w by (simp add: set_proc_def set_grp_def)
    then obtain z where z: "r \<noteq> 0" "grps s (group w) = Some z" "unat (queue_idx w) < unat (queue_size z)"
        "queue z ! unat (queue_idx w) = r" using ok w(2) unfolding ready_ok_def by blast
    show ?thesis
    proof (cases "group w = group y")
      case True
      then have "z = x" using z x by simp
      moreover have "unat (queue_idx w) \<noteq> i" using z i(3) rp \<open>z = x\<close> by auto
      ultimately show ?thesis using z True by (simp add: set_proc_def set_grp_def)
    qed (use z in \<open>simp add: set_proc_def set_grp_def\<close>)
  qed
  moreover have "\<forall>g z. grps ?s g = Some z \<longrightarrow> queue_ok ?s g z" using queue_ok_remove [OF assms] by blast
  ultimately show ?thesis unfolding ready_ok_def by blast
qed

text \<open>Blocking a ready process keeps the ready queues consistent: \<open>ready_remove\<close> followed by
  \<open>wait_insert\<close>, the sequence of every blocking operation, succeeds, leaves the process waiting and in
  no queue, and changes no other process.\<close>

theorem block_keeps_queues:
  assumes ok: "ready_ok s" and y: "procs s p = Some y" "status y = PROC_READY"
  shows "\<exists>s'. sbind (ready_remove p s) (wait_insert p) = Inr s' \<and> ready_ok s'
     \<and> procs s' = (procs s)(p \<mapsto> y\<lparr>status := PROC_WAIT\<rparr>)"
proof -
  obtain x where x: "grps s (group y) = Some x" and i: "unat (queue_idx y) < unat (queue_size x)"
      and at: "queue x ! unat (queue_idx y) = p" and p: "p \<noteq> 0"
    using ok y unfolding ready_ok_def by blast
  let ?i = "unat (queue_idx y)"
  let ?s = "set_proc p (y\<lparr>status := PROC_WAIT\<rparr>)
      (set_grp (group y) (x\<lparr>ready_count := ready_count x - 1, queue := (queue x)[?i := 0]\<rparr>) s)"
  have "queue_ok s (group y) x" using ok x by (auto simp: ready_ok_def)
  then have "?i < length (queue x)" using i by (simp add: queue_ok_def)
  then have "sbind (ready_remove p s) (wait_insert p) = Inr ?s"
    using y(1) x by (simp add: ready_remove_def wait_insert_def upd_proc_def get_proc_def get_grp_def set_proc_def set_grp_def)
  then show ?thesis using ready_ok_remove [OF ok y(1) p x refl i at] by (simp add: set_proc_def set_grp_def)
qed

lemma block_keeps_queues_witness:
  "\<exists>s'. sbind (ready_remove 100 sched_ready) (wait_insert 100) = Inr s' \<and> ready_ok s'"
  using block_keeps_queues [OF sched_ready_ok, of 100 "proc_one\<lparr>status := PROC_READY\<rparr>"]
  by (auto simp: sched_ready_def sched_one_def)

subsection \<open>Choosing the next process\<close>

definition registered :: "sched \<Rightarrow> u32 set" where
  "registered s = set (take (unat (groups_size s)) (groups s)) - {0}"

definition groups_ok :: "sched \<Rightarrow> bool" where
  "groups_ok s \<longleftrightarrow> unat (groups_size s) \<le> length (groups s) \<and> (groups_size s = 0 \<or> groups_ptr s < groups_size s)
     \<and> (\<forall>g \<in> registered s. grps s g \<noteq> None)"

definition has_ready :: "u8 \<Rightarrow> u32 \<Rightarrow> sched \<Rightarrow> bool" where
  "has_ready prior g s \<longleftrightarrow> g \<noteq> 0 \<and> (\<exists>x. grps s g = Some x \<and> priority x = prior \<and> ready_count x \<noteq> 0)"

lemma eligible_has_ready: "g = 0 \<or> grps s g \<noteq> None \<Longrightarrow> eligible prior g s = Inr (has_ready prior g s)"
  by (auto simp: eligible_def has_ready_def get_grp_def)

lemma eligible_ptr: "eligible prior g (s\<lparr>groups_ptr := p\<rparr>) = eligible prior g s"
  by (simp add: eligible_def get_grp_def)

lemma get_group_finds:
  assumes ok: "groups_ok s"
  shows "\<exists>gr ptr. get_group prior s = Inr (gr, s\<lparr>groups_ptr := ptr\<rparr>) \<and> (groups_size s = 0 \<or> ptr < groups_size s)
     \<and> (gr \<noteq> 0 \<longrightarrow> gr \<in> registered s \<and> has_ready prior gr s)
     \<and> (gr = 0 \<longrightarrow> (\<forall>g \<in> registered s. \<not> has_ready prior g s))"
proof (cases "groups_size s = 0")
  case True
  then show ?thesis by (intro exI [of _ 0] exI [of _ "groups_ptr s"]) (simp add: get_group_def registered_def)
next
  case False
  define n N f q F where "n = groups_size s" and "N = unat n" and "f = groups_ptr s" and "q = groups s" and "F = unat f"
  define E where "E = (\<lambda>g. has_ready prior g s)"
  have N: "0 < N" "F < N" "N \<le> length q" "f = of_nat F" "unat n = N" "N < 4294967296"
    using ok False unat_u32_less [of n]
    by (auto simp: groups_ok_def N_def n_def F_def f_def q_def word_less_nat_alt unat_gt_0)
  have el: "eligible prior g s = Inr (E g)" if "g \<in> set (take N q)" for g
    using ok that by (auto intro!: eligible_has_ready simp: E_def groups_ok_def registered_def N_def n_def q_def)
  have e0: "eligible prior 0 s = Inr (E 0)" by (simp add: eligible_def E_def has_ready_def)
  have "\<exists>i. 0 \<le> i \<and> i < N \<and> ring_scan (N + 1) E q n f 0 (of_nat ((F + 0) mod N)) = (q ! ((F + i) mod N), of_nat (Suc (F + i) mod N))
      \<and> (\<forall>l < i. \<not> E (q ! ((F + l) mod N))) \<and> (E (q ! ((F + i) mod N)) \<or> i = N - 1)"
    using N by (intro ring_scan_finds) (auto simp: E_def has_ready_def)
  then obtain i where i: "i < N" "ring_scan (N + 1) E q n f 0 f = (q ! ((F + i) mod N), of_nat (Suc (F + i) mod N))"
      "\<forall>l < i. \<not> E (q ! ((F + l) mod N))" "E (q ! ((F + i) mod N)) \<or> i = N - 1"
    using N by auto
  define gr ptr where "gr = q ! ((F + i) mod N)" and "ptr = (of_nat (Suc (F + i) mod N) :: u32)"
  have grin: "gr \<in> set (take N q)"
  proof -
    have "(F + i) mod N < N" using N by simp
    then show ?thesis using N(3) unfolding gr_def by (metis nth_take nth_mem length_take min_absorb2)
  qed
  have "get_group_loop (N + 1) prior f 0 f s = Inr (gr, ptr)"
    using get_group_loop_scan [where s = s and prior = prior and E = E and p = f and c = 0 and f = f and k = "N + 1"] el e0 N i(2)
    by (simp add: n_def q_def N_def gr_def ptr_def F_def f_def)
  moreover have "eligible prior gr (s\<lparr>groups_ptr := ptr\<rparr>) = Inr (E gr)"
    using el [OF grin] by (simp only: eligible_ptr)
  ultimately have run: "get_group prior s = Inr (if E gr then gr else 0, s\<lparr>groups_ptr := ptr\<rparr>)"
    using False by (simp add: get_group_def N_def n_def f_def)
  have "Suc (F + i) mod N < N" using N by simp
  then have ptr: "ptr < groups_size s" 
    using N(5,6) unat_of_nat_u32 [of "Suc (F + i) mod N"] by (simp add: ptr_def word_less_nat_alt n_def)
  show ?thesis
  proof (cases "E gr")
    case True
    then show ?thesis using run ptr grin
      by (intro exI [of _ gr] exI [of _ ptr]) (auto simp: E_def has_ready_def registered_def N_def n_def q_def)
  next
    case nE: False
    then have "i = N - 1" using i(4) by (simp add: gr_def)
    then have "\<forall>l < N. \<not> E (q ! ((F + l) mod N))"
      using i(3) nE by (metis gr_def less_Suc_eq Suc_diff_1 N(1))
    then have "\<not> E (q ! m)" if "m < N" for m using ring_covers [OF N(2) that] by blast
    then have "\<forall>g \<in> registered s. \<not> has_ready prior g s"
      by (auto simp: registered_def E_def in_set_conv_nth N_def n_def q_def)
    then show ?thesis using run ptr nE by (intro exI [of _ 0] exI [of _ ptr]) auto
  qed
qed

lemma ready_has_ready:
  assumes "ready_ok s" "procs s p = Some y" "status y = PROC_READY" "grps s (group y) = Some x" "group y \<noteq> 0"
  shows "has_ready (priority x) (group y) s"
proof -
  have i: "unat (queue_idx y) < unat (queue_size x)" "queue x ! unat (queue_idx y) = p" "p \<noteq> 0"
    using assms unfolding ready_ok_def by fastforce+
  have "queue_ok s (group y) x" using assms by (auto simp: ready_ok_def)
  then have c: "unat (ready_count x) = length (filter (\<lambda>q. q \<noteq> 0) (take (unat (queue_size x)) (queue x)))"
      "unat (queue_size x) \<le> length (queue x)" by (simp_all add: queue_ok_def)
  have "p \<in> set (take (unat (queue_size x)) (queue x))" using i c(2) by (force simp: in_set_conv_nth)
  then have "filter (\<lambda>q. q \<noteq> 0) (take (unat (queue_size x)) (queue x)) \<noteq> []"
    using i(3) by (auto simp: filter_empty_conv)
  then have "ready_count x \<noteq> 0" using c(1) by auto
  then show ?thesis using assms by (simp add: has_ready_def)
qed

text \<open>The group the search returned yields a ready process.\<close>

lemma get_ready_loop_finds:
  assumes ok: "queue_ok s g x" and r: "ready_count x \<noteq> 0"
  shows "\<exists>p ptr. get_ready_loop (unat (queue_size x) + 1) (queue x) (queue_size x) (pointer x) 0 (pointer x) = Inr (p, ptr)
     \<and> p \<noteq> 0 \<and> p \<in> set (take (unat (queue_size x)) (queue x)) \<and> ptr < queue_size x"
proof -
  define n N f q F where "n = queue_size x" and "N = unat n" and "f = pointer x" and "q = queue x" and "F = unat f"
  have ne: "filter (\<lambda>q. q \<noteq> 0) (take N q) \<noteq> []"
    using ok r by (auto simp: queue_ok_def N_def n_def q_def unat_eq_0_u32 [symmetric])
  then have "0 < N" by (cases N) auto
  then have N: "0 < N" "F < N" "N \<le> length q" "f = of_nat F" "unat n = N" "N < 4294967296"
    using ok unat_u32_less [of n]
    by (auto simp: queue_ok_def N_def n_def F_def f_def q_def word_less_nat_alt)
  have "\<exists>i. 0 \<le> i \<and> i < N \<and> ring_scan (N + 1) (\<lambda>x. x \<noteq> 0) q n f 0 (of_nat ((F + 0) mod N)) = (q ! ((F + i) mod N), of_nat (Suc (F + i) mod N))
      \<and> (\<forall>l < i. \<not> q ! ((F + l) mod N) \<noteq> 0) \<and> (q ! ((F + i) mod N) \<noteq> 0 \<or> i = N - 1)"
    using N by (intro ring_scan_finds) auto
  then obtain i where i: "i < N" "ring_scan (N + 1) (\<lambda>x. x \<noteq> 0) q n f 0 f = (q ! ((F + i) mod N), of_nat (Suc (F + i) mod N))"
      "\<forall>l < i. \<not> q ! ((F + l) mod N) \<noteq> 0" "q ! ((F + i) mod N) \<noteq> 0 \<or> i = N - 1"
    using N by auto
  have nz: "q ! ((F + i) mod N) \<noteq> 0"
  proof (rule ccontr)
    assume z: "\<not> q ! ((F + i) mod N) \<noteq> 0"
    then have "i = N - 1" using i(4) by blast
    then have "\<forall>l < N. \<not> q ! ((F + l) mod N) \<noteq> 0"
      using i(3) z by (metis less_Suc_eq Suc_diff_1 N(1))
    then have "\<not> q ! m \<noteq> 0" if "m < N" for m using ring_covers [OF N(2) that, of "\<lambda>x. x \<noteq> 0"] by blast
    then show False using ne N(3) by (auto simp: filter_empty_conv in_set_conv_nth)
  qed
  have m: "(F + i) mod N < N" "Suc (F + i) mod N < N" using N by simp_all
  have "q ! ((F + i) mod N) \<in> set (take N q)" using m N(3) by (metis nth_take nth_mem length_take min_absorb2)
  moreover have "(of_nat (Suc (F + i) mod N) :: u32) < n"
  proof -
    have u: "unat (of_nat (Suc (F + i) mod N) :: u32) = Suc (F + i) mod N"
      using m(2) N(6) by (intro unat_of_nat_u32) linarith
    show ?thesis unfolding word_less_nat_alt u N(5) by (rule m(2))
  qed
  moreover have "get_ready_loop (N + 1) q n f 0 f = Inr (q ! ((F + i) mod N), of_nat (Suc (F + i) mod N))"
    using get_ready_loop_scan [where n = n and q = q and p = f and k = "N + 1" and f = f and c = 0] N(1,2,3,5) i(2)
    by (simp add: F_def)
  ultimately show ?thesis using nz unfolding N_def n_def q_def f_def by blast
qed

text \<open>The group that is searched: one of high priority, or if there is none, one of low priority.\<close>

definition first_choice :: "sched \<Rightarrow> u32 \<Rightarrow> bool" where
  "first_choice s g \<longleftrightarrow> (if g = 0 then \<forall>g \<in> registered s. \<not> has_ready PROC_PRIORITY_HIGH g s \<and> \<not> has_ready PROC_PRIORITY_LOW g s
     else g \<in> registered s \<and> (\<exists>x. grps s g = Some x \<and> ready_count x \<noteq> 0 \<and> (priority x = PROC_PRIORITY_HIGH
             \<or> priority x = PROC_PRIORITY_LOW \<and> (\<forall>g \<in> registered s. \<not> has_ready PROC_PRIORITY_HIGH g s))))"

lemma get_group_twice:
  assumes ok: "groups_ok s"
  shows "\<exists>g pt. (\<forall>f :: u32 \<times> sched \<Rightarrow> (u32 \<times> sched) res. sbind (get_group PROC_PRIORITY_HIGH s) (\<lambda>(grp, s).
     sbind (if grp = 0 then get_group PROC_PRIORITY_LOW s else Inr (grp, s)) f) = f (g, s\<lparr>groups_ptr := pt\<rparr>))
     \<and> groups_ok (s\<lparr>groups_ptr := pt\<rparr>) \<and> first_choice s g"
proof -
  obtain g1 p1 where g1: "get_group PROC_PRIORITY_HIGH s = Inr (g1, s\<lparr>groups_ptr := p1\<rparr>)"
      "groups_size s = 0 \<or> p1 < groups_size s" "g1 \<noteq> 0 \<longrightarrow> g1 \<in> registered s \<and> has_ready PROC_PRIORITY_HIGH g1 s"
      "g1 = 0 \<longrightarrow> (\<forall>g \<in> registered s. \<not> has_ready PROC_PRIORITY_HIGH g s)"
    using get_group_finds [OF ok] by blast
  let ?s1 = "s\<lparr>groups_ptr := p1\<rparr>"
  have ok1: "groups_ok ?s1" using ok g1(2) by (auto simp: groups_ok_def registered_def)
  obtain g2 p2 where g2: "get_group PROC_PRIORITY_LOW ?s1 = Inr (g2, s\<lparr>groups_ptr := p2\<rparr>)"
      "groups_size s = 0 \<or> p2 < groups_size s" "g2 \<noteq> 0 \<longrightarrow> g2 \<in> registered s \<and> has_ready PROC_PRIORITY_LOW g2 s"
      "g2 = 0 \<longrightarrow> (\<forall>g \<in> registered s. \<not> has_ready PROC_PRIORITY_LOW g s)"
    using get_group_finds [OF ok1, of PROC_PRIORITY_LOW] by (auto simp: registered_def has_ready_def)
  define g pt where "g = (if g1 = 0 then g2 else g1)" and "pt = (if g1 = 0 then p2 else p1)"
  have "sbind (get_group PROC_PRIORITY_HIGH s) (\<lambda>(grp, s).
     sbind (if grp = 0 then get_group PROC_PRIORITY_LOW s else Inr (grp, s)) f) = f (g, s\<lparr>groups_ptr := pt\<rparr>)" for f :: "u32 \<times> sched \<Rightarrow> (u32 \<times> sched) res"
    using g1(1) g2(1) by (simp add: g_def pt_def)
  moreover have "groups_ok (s\<lparr>groups_ptr := pt\<rparr>)" using ok g1(2) g2(2) by (auto simp: pt_def groups_ok_def registered_def)
  moreover have "first_choice s g" using g1(3,4) g2(3,4) by (auto simp: first_choice_def g_def has_ready_def)
  ultimately show ?thesis by blast
qed

text \<open>C13: the scheduler chooses a ready process whenever there is one, and a high-priority one before
  any other. In a state with consistent queues \<open>get_ready\<close> succeeds and keeps them consistent. If it
  returns NULL, no registered group of either priority has a ready process; otherwise the result is
  a ready process of a registered group, and if that group's priority is low then no registered
  high-priority group has a ready process.\<close>

theorem get_ready_chooses:
  assumes ok: "ready_ok s" "groups_ok s"
  shows "\<exists>p s'. get_ready s = Inr (p, s') \<and> ready_ok s' \<and> groups_ok s' \<and> procs s' = procs s
     \<and> (if p = 0 then \<forall>g \<in> registered s. \<not> has_ready PROC_PRIORITY_HIGH g s \<and> \<not> has_ready PROC_PRIORITY_LOW g s
        else \<exists>y x. procs s p = Some y \<and> status y = PROC_READY \<and> group y \<in> registered s \<and> grps s (group y) = Some x
          \<and> (priority x = PROC_PRIORITY_HIGH
             \<or> priority x = PROC_PRIORITY_LOW \<and> (\<forall>g \<in> registered s. \<not> has_ready PROC_PRIORITY_HIGH g s)))"
proof -
  obtain g pt where both: "\<forall>f :: u32 \<times> sched \<Rightarrow> (u32 \<times> sched) res. sbind (get_group PROC_PRIORITY_HIGH s) (\<lambda>(grp, s).
     sbind (if grp = 0 then get_group PROC_PRIORITY_LOW s else Inr (grp, s)) f) = f (g, s\<lparr>groups_ptr := pt\<rparr>)"
      and gok: "groups_ok (s\<lparr>groups_ptr := pt\<rparr>)" and g: "first_choice s g"
    using get_group_twice [OF ok(2)] by blast
  note both = both [rule_format]
  let ?s = "s\<lparr>groups_ptr := pt\<rparr>"
  have rok: "ready_ok ?s" using ok(1) ready_ok_cong [of ?s s] by simp
  show ?thesis
  proof (cases "g = 0")
    case True
    then have "get_ready s = Inr (0, ?s)" by (simp add: get_ready_def both)
    then show ?thesis using g gok rok True by (intro exI [of _ 0] exI [of _ ?s]) (simp add: first_choice_def)
  next
    case False
    then obtain x where x: "g \<in> registered s" "grps s g = Some x" "ready_count x \<noteq> 0"
        "priority x = PROC_PRIORITY_HIGH \<or> priority x = PROC_PRIORITY_LOW \<and> (\<forall>g \<in> registered s. \<not> has_ready PROC_PRIORITY_HIGH g s)"
      using g by (auto simp: first_choice_def)
    have qx: "queue_ok s g x" using ok(1) x(2) by (simp add: ready_ok_def)
    obtain p ptr where p: "get_ready_loop (unat (queue_size x) + 1) (queue x) (queue_size x) (pointer x) 0 (pointer x) = Inr (p, ptr)"
        "p \<noteq> 0" "p \<in> set (take (unat (queue_size x)) (queue x))" "ptr < queue_size x"
      using get_ready_loop_finds [OF qx x(3)] by blast
    let ?t = "?s\<lparr>grps := (grps s)(g \<mapsto> x\<lparr>pointer := ptr\<rparr>)\<rparr>"
    have run: "get_ready s = Inr (p, ?t)" using False x(2) p(1) by (simp add: get_ready_def both get_grp_def)
    obtain i where "i < unat (queue_size x)" "queue x ! i = p" using p(3) by (auto simp: in_set_conv_nth)
    then obtain y where y: "procs s p = Some y" "group y = g" "status y = PROC_READY" using qx p(2) by (auto simp: queue_ok_def)
    have "ready_ok ?t" using ok(1) x(2) p(4) by (fastforce simp: ready_ok_def queue_ok_def split: if_splits)
    moreover have "groups_ok ?t" using gok by (auto simp: groups_ok_def registered_def)
    ultimately show ?thesis using run p(2) x y by (intro exI [of _ p] exI [of _ ?t]) auto
  qed
qed

lemma get_ready_chooses_witness:
  "\<exists>p s' y. get_ready sched_ready = Inr (p, s') \<and> ready_ok s' \<and> procs sched_ready p = Some y \<and> status y = PROC_READY"
proof -
  have g: "groups_ok sched_ready"
    by (auto simp: groups_ok_def registered_def sched_ready_def sched_one_def take_update_swap)
  have "has_ready PROC_PRIORITY_LOW 50 sched_ready" "50 \<in> registered sched_ready"
    by (simp_all add: has_ready_def registered_def sched_ready_def sched_one_def group_one_def take_update_swap)
  then show ?thesis using get_ready_chooses [OF sched_ready_ok g] by (auto split: if_splits)
qed

text \<open>A sequence of searches of one queue.\<close>

fun serve :: "nat \<Rightarrow> u32 list \<Rightarrow> u32 \<Rightarrow> u32 \<Rightarrow> u32 list res" where
  "serve 0 q n ptr = Inr []"
| "serve (Suc k) q n ptr =
     sbind (get_ready_loop (unat n + 1) q n ptr 0 ptr) (\<lambda>(p, ptr).
     sbind (serve k q n ptr) (\<lambda>ps. Inr (p # ps)))"

lemma serve_reaches:
  assumes len: "unat n \<le> length q" and n: "N = unat n" "0 < N"
    and d: "F < N" "d < N" "q ! ((F + d) mod N) \<noteq> 0"
  shows "\<exists>ps. serve k q n (of_nat F) = Inr ps \<and> (d < k \<longrightarrow> q ! ((F + d) mod N) \<in> set ps)"
  using d
proof (induction k arbitrary: F d)
  case (Suc k)
  have "\<exists>i. 0 \<le> i \<and> i < N \<and> ring_scan (N + 1) (\<lambda>x. x \<noteq> 0) q n (of_nat F) 0 (of_nat ((F + 0) mod N))
        = (q ! ((F + i) mod N), of_nat (Suc (F + i) mod N))
      \<and> (\<forall>l < i. \<not> q ! ((F + l) mod N) \<noteq> 0) \<and> (q ! ((F + i) mod N) \<noteq> 0 \<or> i = N - 1)"
    using n Suc.prems(1) by (intro ring_scan_finds) auto
  then obtain i where i: "i < N" "ring_scan (N + 1) (\<lambda>x. x \<noteq> 0) q n (of_nat F) 0 (of_nat F)
        = (q ! ((F + i) mod N), of_nat (Suc (F + i) mod N))" "\<forall>l < i. \<not> q ! ((F + l) mod N) \<noteq> 0"
    using Suc.prems(1) by auto
  have id: "i \<le> d" using i(3) Suc.prems(3) by (meson not_le)
  have uF: "unat (of_nat F :: u32) = F" using Suc.prems(1) n unat_u32_less [of n] by (intro unat_of_nat_u32) linarith
  have one: "get_ready_loop (N + 1) q n (of_nat F) 0 (of_nat F) = Inr (q ! ((F + i) mod N), of_nat (Suc (F + i) mod N))"
    using get_ready_loop_scan [where n = n and q = q and p = "of_nat F" and k = "N + 1" and f = "of_nat F" and c = 0]
      len n uF Suc.prems(1) i(2) by simp
  let ?F = "Suc (F + i) mod N"
  have F': "?F < N" using n by simp
  show ?case
  proof (cases "i = d")
    case True
    have "\<exists>ps. serve k q n (of_nat ?F) = Inr ps"
    proof -
      have "(?F + (N - ?F + (F + d) mod N) mod N) mod N = (F + d) mod N"
        using F' by (simp add: mod_add_right_eq)
      then show ?thesis using Suc.IH [OF F', of "(N - ?F + (F + d) mod N) mod N"] Suc.prems(3) n by auto
    qed
    then show ?thesis using one True by (auto simp: n(1))
  next
    case False
    then have d: "Suc (d - Suc i) \<le> d" "d - Suc i < N" using id Suc.prems(2) by auto
    have e: "(?F + (d - Suc i)) mod N = (F + d) mod N"
    proof -
      have "Suc (F + i) + (d - Suc i) = F + d" using id False by simp
      then show ?thesis by (metis mod_add_left_eq)
    qed
    then obtain ps where ps: "serve k q n (of_nat ?F) = Inr ps" "d - Suc i < k \<longrightarrow> q ! ((F + d) mod N) \<in> set ps"
      using Suc.IH [OF F' d(2)] Suc.prems(3) by auto
    then show ?thesis using one d(1) by (auto simp: n(1))
  qed
qed simp

text \<open>C14: a queue is served round robin. Along any sequence of \<open>queue_size\<close> searches of an unchanged
  ready queue, each starting where the one before left the pointer, every process in the queue is
  returned at least once.\<close>

theorem round_robin_serves_all:
  assumes "unat n \<le> length q" "ptr < n" "i < unat n" "q ! i \<noteq> 0"
  shows "\<exists>ps. serve (unat n) q n ptr = Inr ps \<and> q ! i \<in> set ps"
proof -
  let ?N = "unat n" and ?F = "unat ptr"
  define d where "d = (if ?F \<le> i then i - ?F else i + ?N - ?F)"
  have "?F < ?N" using assms(2) by (simp add: word_less_nat_alt)
  moreover have "d < ?N" "(?F + d) mod ?N = i" using assms(3) \<open>?F < ?N\<close> by (auto simp: d_def)
  ultimately show ?thesis using serve_reaches [OF assms(1) refl, of ?F d ?N] assms(3,4) by auto
qed

lemma round_robin_serves_all_witness:
  "\<exists>ps. serve (unat (3 :: u32)) [7, 0, 9] 3 1 = Inr ps \<and> [7, 0, 9] ! 0 \<in> set ps"
  by (rule round_robin_serves_all) simp_all

end
