(* ===== verification/Numfmt.thy ===== *)
theory Numfmt
  imports Smpl_Prelude "HOL-Library.Signed_Division"
begin

text \<open>
  Characters, number parsing and formatted printing of the C library: \<open>libc/ctype\<close>,
  \<open>libc/stdlib/{abs,atoi,atol,atoll,strtoul}.c\<close> and \<open>libc/stdio/vsprintf.c\<close>. C strings are lists of
  bytes without the terminator; \<open>char\<close> is signed, so a byte is read through \<^const>\<open>sint\<close>. The
  variable arguments are the 32-bit words on the stack, and \<open>str\<close> gives the string at an address.
\<close>

subsection \<open>Characters\<close>

definition isdigit :: "int \<Rightarrow> bool" where
  "isdigit c \<longleftrightarrow> 48 \<le> c \<and> c \<le> 57"

definition isalpha :: "int \<Rightarrow> bool" where
  "isalpha c \<longleftrightarrow> c \<in> {65..90} \<or> c \<in> {97..122}"

definition isprint :: "int \<Rightarrow> bool" where
  "isprint c \<longleftrightarrow> 0x20 \<le> c \<and> c \<le> 0x7E"

definition isspace :: "int \<Rightarrow> bool" where
  "isspace c \<longleftrightarrow> c = 32 \<or> c = 10 \<or> c = 9 \<or> c = 11 \<or> c = 12 \<or> c = 13"

definition isupper :: "int \<Rightarrow> bool" where
  "isupper c \<longleftrightarrow> 65 \<le> c \<and> c \<le> 90"

definition isxdigit :: "int \<Rightarrow> bool" where
  "isxdigit c \<longleftrightarrow> isdigit c \<or> (65 \<le> c \<and> c \<le> 70) \<or> (97 \<le> c \<and> c \<le> 102)"

definition tolower :: "int \<Rightarrow> int" where
  "tolower c = (if 65 \<le> c \<and> c \<le> 90 then c + 32 else c)"

definition toupper :: "int \<Rightarrow> int" where
  "toupper c = (if 97 \<le> c \<and> c \<le> 122 then c - 32 else c)"

subsection \<open>Parsing\<close>

definition abs32 :: "u32 \<Rightarrow> u32" where
  "abs32 j = (if sint j \<ge> 0 then j else - j)"

text \<open>The loop of \<open>atoi\<close>, \<open>atol\<close> and \<open>atoll\<close>, at the width of the result.\<close>

fun ato_loop :: "u8 list \<Rightarrow> 'a::len word \<Rightarrow> 'a word" where
  "ato_loop [] v = v"
| "ato_loop (c # cs) v = (if isdigit (sint c) then ato_loop cs (v * 10 + word_of_int (sint c - 48)) else v)"

definition ato :: "u8 list \<Rightarrow> 'a::len word" where
  "ato s = (case s of
      [] \<Rightarrow> 0
    | c # cs \<Rightarrow> if c = 45 then - ato_loop cs 0 else if c = 43 then ato_loop cs 0 else ato_loop s 0)"

definition atoi :: "u8 list \<Rightarrow> u32" where "atoi s = ato s"
definition atol :: "u8 list \<Rightarrow> u32" where "atol s = ato s"
definition atoll :: "u8 list \<Rightarrow> u64" where "atoll s = ato s"

text \<open>\<open>strtoul\<close> returns the value and the index that \<open>endptr\<close> receives. The value of a digit:\<close>

definition digit_value :: "int \<Rightarrow> int option" where
  "digit_value c = (if isdigit c then Some (c - 48)
     else if isalpha c then Some (c - (if isupper c then 55 else 87)) else None)"

fun strtoul_loop :: "u32 \<Rightarrow> u32 \<Rightarrow> u32 \<Rightarrow> u8 list \<Rightarrow> nat \<Rightarrow> u32 \<Rightarrow> int \<Rightarrow> u32 \<times> int \<times> nat" where
  "strtoul_loop base cutoff cutlim [] i acc any = (acc, any, i)"
| "strtoul_loop base cutoff cutlim (c # cs) i acc any =
     (case digit_value (sint c) of
        None \<Rightarrow> (acc, any, i)
      | Some d \<Rightarrow>
          if d \<ge> sint base then (acc, any, i)
          else if any < 0 \<or> acc > cutoff \<or> (acc = cutoff \<and> d > sint cutlim)
          then strtoul_loop base cutoff cutlim cs (i + 1) acc (- 1)
          else strtoul_loop base cutoff cutlim cs (i + 1) (acc * base + word_of_int d) 1)"

fun skip_space :: "u8 list \<Rightarrow> nat \<Rightarrow> u8 list \<times> nat" where
  "skip_space [] i = ([], i)"
| "skip_space (c # cs) i = (if isspace (sint c) then skip_space cs (i + 1) else (c # cs, i))"

definition strtoul :: "u8 list \<Rightarrow> u32 \<Rightarrow> u32 \<times> nat" where
  "strtoul nptr base =
     (let (s, i) = skip_space nptr 0;
          neg = (s \<noteq> [] \<and> hd s = 45);
          (s, i) = (if s \<noteq> [] \<and> (hd s = 45 \<or> hd s = 43) then (tl s, i + 1) else (s, i));
          hex = ((base = 0 \<or> base = 16) \<and> length s \<ge> 2 \<and> s ! 0 = 48 \<and> (s ! 1 = 120 \<or> s ! 1 = 88));
          (s, i) = (if hex then (drop 2 s, i + 2) else (s, i));
          base = (if hex then 16 else if base = 0 then (if s \<noteq> [] \<and> hd s = 48 then 8 else 10) else base);
          (acc, any, e) = strtoul_loop base (- 1 div base) (- 1 mod base) s i 0 0;
          acc = (if any < 0 then - 1 else if neg then - acc else acc)
      in (acc, if any \<noteq> 0 then e else 0))"

subsection \<open>Formatted printing\<close>

definition dtoc :: "int \<Rightarrow> u8" where
  "dtoc digit = (if digit < 10 then word_of_int (digit + 48)
     else if digit \<le> 15 then word_of_int (digit + 55) else 0)"

text \<open>The digit loop, most significant digit first, on a value with C's truncating division.\<close>

function digits :: "int \<Rightarrow> int \<Rightarrow> u8 list" where
  "digits b a = (if b < 2 \<or> a sdiv b = 0 then [dtoc (a smod b)] else digits b (a sdiv b) @ [dtoc (a smod b)])"
  by auto

lemma abs_sdiv: "2 \<le> b \<Longrightarrow> \<bar>a sdiv b\<bar> = \<bar>a\<bar> div (b :: int)"
  by (cases "a = 0") (simp_all add: signed_divide_int_def abs_mult abs_sgn_eq pos_imp_zdiv_nonneg_iff)

lemma sdiv_smaller:
  assumes "2 \<le> b" "a sdiv b \<noteq> (0 :: int)"
  shows "\<bar>a sdiv b\<bar> < \<bar>a\<bar>"
proof -
  have "\<bar>a\<bar> div b \<noteq> 0" using abs_sdiv [OF assms(1), of a] assms(2) by linarith
  then have "b \<le> \<bar>a\<bar>" using assms(1) by (metis abs_ge_zero div_pos_pos_trivial not_le)
  then show ?thesis unfolding abs_sdiv [OF assms(1)] using assms(1) by (intro int_div_less_self) auto
qed

termination digits
proof (relation "measure (\<lambda>(b, a). nat \<bar>a\<bar>)")
  fix b a :: int
  assume "\<not> (b < 2 \<or> a sdiv b = 0)"
  then show "((b, a sdiv b), b, a) \<in> measure (\<lambda>(b, a). nat \<bar>a\<bar>)" using sdiv_smaller [of b a] by simp
qed simp

declare digits.simps [simp del]

text \<open>Taking arguments off the stack. Taking a \<open>short\<close> is undefined, as it is passed as an \<open>int\<close>.\<close>

definition arg32 :: "u32 list \<Rightarrow> (u32 \<times> u32 list) res" where
  "arg32 as = (case as of [] \<Rightarrow> Inl Wild | a # as \<Rightarrow> Inr (a, as))"

definition arg64 :: "u32 list \<Rightarrow> (u64 \<times> u32 list) res" where
  "arg64 as = (case as of a # b # as \<Rightarrow> Inr (word_cat b a, as) | _ \<Rightarrow> Inl Wild)"

text \<open>A negative value is negated at its width, so the smallest one stays negative.\<close>

definition signed_digits :: "nat \<Rightarrow> int \<Rightarrow> u8 list" where
  "signed_digits w a =
     (if a < 0 then 45 # digits 10 (signed_take_bit (w - 1) (- a)) else digits 10 a)"

definition put_signed :: "u8 \<Rightarrow> u32 list \<Rightarrow> (u8 list \<times> u32 list) res" where
  "put_signed sz as =
     (if sz = 1 then Inl Wild
      else if sz = 2 then sbind (arg32 as) (\<lambda>(a, as). Inr (signed_digits 8 (sint (ucast a :: u8)), as))
      else if sz = 4 then sbind (arg64 as) (\<lambda>(a, as). Inr (signed_digits 64 (sint a), as))
      else sbind (arg32 as) (\<lambda>(a, as). Inr (signed_digits 32 (sint a), as)))"

definition put_unsigned :: "int \<Rightarrow> u8 \<Rightarrow> u32 list \<Rightarrow> (u8 list \<times> u32 list) res" where
  "put_unsigned b sz as =
     (if sz = 1 then Inl Wild
      else if sz = 2 then sbind (arg32 as) (\<lambda>(a, as). Inr (digits b (uint (ucast a :: u8)), as))
      else if sz = 4 then sbind (arg64 as) (\<lambda>(a, as). Inr (digits b (uint a), as))
      else sbind (arg32 as) (\<lambda>(a, as). Inr (digits b (uint a), as)))"

text \<open>One conversion character: the text it produces and the arguments left.\<close>

definition convert :: "(u32 \<Rightarrow> u8 list) \<Rightarrow> u8 \<Rightarrow> u8 \<Rightarrow> u32 list \<Rightarrow> (u8 list \<times> u32 list) res" where
  "convert str tp sz as =
     (if tp = 99 then sbind (arg32 as) (\<lambda>(a, as). Inr ([ucast a], as))
      else if tp = 100 then put_signed sz as
      else if tp = 117 then put_unsigned 10 sz as
      else if tp = 120 then put_unsigned 16 sz as
      else if tp = 112 then sbind (arg32 as) (\<lambda>(a, as). Inr (48 # 120 # digits 16 (uint a), as))
      else if tp = 98 then sbind (arg32 as) (\<lambda>(a, as). Inr (digits 2 (uint a), as))
      else if tp = 115 then sbind (arg32 as) (\<lambda>(a, as). Inr (str a, as))
      else Inr ([], as))"

definition next_size :: "u8 \<Rightarrow> u8 \<Rightarrow> u8 \<times> bool" where
  "next_size tp sz =
     (if tp = 108 then (if sz = 3 then sz + 1 else 3, True)
      else if tp = 104 then (if sz = 1 then sz + 1 else 1, True)
      else (0, False))"

definition conv_step :: "(u32 \<Rightarrow> u8 list) \<Rightarrow> u8 \<Rightarrow> u8 \<Rightarrow> u32 list \<Rightarrow> u8 list \<Rightarrow> (u8 \<times> bool \<times> u32 list \<times> u8 list) res" where
  "conv_step str tp sz as out =
     sbind (convert str tp sz as) (\<lambda>(txt, as).
       let (sz, needarg) = next_size tp sz in Inr (sz, needarg, as, out @ txt))"

text \<open>A percent sign at the end of the format takes the terminator as its conversion, which prints
  nothing.\<close>

fun vsprintf_loop :: "(u32 \<Rightarrow> u8 list) \<Rightarrow> u8 list \<Rightarrow> u8 \<Rightarrow> bool \<Rightarrow> u32 list \<Rightarrow> u8 list \<Rightarrow> u8 list res" where
  "vsprintf_loop str [] sz needarg as out = Inr out"
| "vsprintf_loop str (c # cs) sz needarg as out =
     (if needarg then
        sbind (conv_step str c sz as out) (\<lambda>(sz, needarg, as, out). vsprintf_loop str cs sz needarg as out)
      else if c = 37 then
        (case cs of
           [] \<Rightarrow> sbind (conv_step str 0 sz as out) (\<lambda>(_, _, _, out). Inr out)
         | t # ts \<Rightarrow>
             sbind (conv_step str t sz as out) (\<lambda>(sz, needarg, as, out). vsprintf_loop str ts sz needarg as out))
      else vsprintf_loop str cs sz needarg as (out @ [c]))"

text \<open>The bytes written to the buffer, without a terminator; the result is their number.\<close>

definition vsprintf :: "(u32 \<Rightarrow> u8 list) \<Rightarrow> u8 list \<Rightarrow> u32 list \<Rightarrow> (u32 \<times> u8 list) res" where
  "vsprintf str format argptr =
     sbind (vsprintf_loop str format 0 False argptr []) (\<lambda>out. Inr (of_nat (length out), out))"

subsection \<open>What is printed is parsed\<close>

lemma digits_nonneg:
  assumes "2 \<le> b" "0 \<le> a"
  shows "digits b a = (if a < b then [dtoc a] else digits b (a div b) @ [dtoc (a mod b)])"
proof -
  have "a sdiv b = a div b" "a smod b = a mod b"
    using assms by (simp_all add: signed_divide_int_def signed_modulo_int_def sgn_if minus_div_mult_eq_mod)
  moreover have "a div b = 0 \<longleftrightarrow> a < b" using assms by (auto simp: zdiv_eq_0_iff)
  ultimately show ?thesis using assms by (subst digits.simps) auto
qed

lemma sint_u8_small: "0 \<le> x \<Longrightarrow> x < 128 \<Longrightarrow> sint (word_of_int x :: u8) = x"
  by (simp add: sint_uint signed_take_bit_eq_if_positive bit_iff_odd uint_word_of_int take_bit_int_eq_self)

lemma sint_dtoc: "0 \<le> d \<Longrightarrow> d < 16 \<Longrightarrow> sint (dtoc d) = (if d < 10 then d + 48 else d + 55)"
  using sint_u8_small [of "d + 48"] sint_u8_small [of "d + 55"] by (auto simp: dtoc_def)

lemma digit_value_dtoc: "0 \<le> d \<Longrightarrow> d < 16 \<Longrightarrow> digit_value (sint (dtoc d)) = Some d"
  by (auto simp: sint_dtoc digit_value_def isdigit_def isalpha_def isupper_def)

lemma isdigit_dtoc: "0 \<le> d \<Longrightarrow> d < 10 \<Longrightarrow> isdigit (sint (dtoc d)) \<and> sint (dtoc d) - 48 = d"
  by (simp add: sint_dtoc isdigit_def)

lemma word_of_int_linear: "word_of_int x * 10 + word_of_int y = (word_of_int (x * 10 + y) :: 'a::len word)"
  by simp

lemma ato_loop_digits:
  "0 \<le> a \<Longrightarrow> ato_loop (digits 10 a @ rest) (0 :: 'a::len word) = ato_loop rest (word_of_int a)"
proof (induction "nat a" arbitrary: a rest rule: less_induct)
  case less
  show ?case
  proof (cases "a < 10")
    case True
    then show ?thesis using less.prems isdigit_dtoc [of a] by (simp add: digits_nonneg)
  next
    case False
    have "ato_loop (digits 10 a @ rest) (0 :: 'a word) = ato_loop (digits 10 (a div 10) @ dtoc (a mod 10) # rest) 0"
      using False less.prems by (simp add: digits_nonneg)
    also have "\<dots> = ato_loop (dtoc (a mod 10) # rest) (word_of_int (a div 10))"
      using False less.prems by (intro less.hyps) auto
    also have "\<dots> = ato_loop rest (word_of_int (a div 10) * 10 + word_of_int (a mod 10))"
      using isdigit_dtoc [of "a mod 10"] by simp
    also have "(word_of_int (a div 10) * 10 + word_of_int (a mod 10) :: 'a word) = word_of_int (a div 10 * 10 + a mod 10)"
      by (rule word_of_int_linear)
    also have "a div 10 * 10 + a mod 10 = a" by (rule div_mult_mod_eq)
    finally show ?thesis .
  qed
qed

lemma digits_ne: "digits b a \<noteq> []"
  by (subst digits.simps) auto

text \<open>The first digit of a number in base ten is not a sign.\<close>

lemma hd_digits: "0 \<le> a \<Longrightarrow> \<exists>d ds. digits 10 a = dtoc d # ds \<and> 0 \<le> d \<and> d < 10"
proof (induction "nat a" arbitrary: a rule: less_induct)
  case less
  show ?case
  proof (cases "a < 10")
    case True
    then show ?thesis using less.prems by (auto simp: digits_nonneg)
  next
    case False
    have "\<exists>d ds. digits 10 (a div 10) = dtoc d # ds \<and> 0 \<le> d \<and> d < 10"
      using False less.prems by (intro less.hyps) auto
    then obtain d ds where "digits 10 (a div 10) = dtoc d # ds" "0 \<le> d" "d < 10" by blast
    then show ?thesis using False less.prems by (auto simp: digits_nonneg)
  qed
qed

lemma ato_digits: "0 \<le> a \<Longrightarrow> ato (digits 10 a) = (word_of_int a :: 'a::len word)"
proof -
  assume a: "0 \<le> a"
  then obtain d ds where d: "digits 10 a = dtoc d # ds" "0 \<le> d" "d < 10" using hd_digits by blast
  have "sint (45 :: u8) = 45" "sint (43 :: u8) = 43" by simp_all
  then have "dtoc d \<noteq> 45" "dtoc d \<noteq> 43" using sint_dtoc [of d] d(2,3) by auto
  then have "ato (digits 10 a) = (ato_loop (digits 10 a) 0 :: 'a word)" by (simp add: ato_def d(1))
  then show ?thesis using ato_loop_digits [OF a, of "[]"] by simp
qed

lemma vsprintf_one:
  "convert str tp 0 as = Inr (txt, []) \<Longrightarrow> tp \<noteq> 108 \<Longrightarrow> tp \<noteq> 104 \<Longrightarrow>
   vsprintf str [37, tp] as = Inr (of_nat (length txt), txt)"
  by (simp add: vsprintf_def conv_step_def next_size_def)

text \<open>C31: Printing an \<open>int\<close> with \<open>%d\<close> and parsing the text with \<open>atoi\<close> gives the number back, for
  every value except the smallest one.\<close>

theorem printf_d_atoi:
  assumes "n \<noteq> 0x80000000"
  shows "\<exists>txt. vsprintf str [37, 100] [n] = Inr (of_nat (length txt), txt) \<and> atoi txt = n"
proof -
  have pr: "vsprintf str [37, 100] [n] = Inr (of_nat (length (signed_digits 32 (sint n))), signed_digits 32 (sint n))"
    by (intro vsprintf_one) (simp_all add: convert_def put_signed_def arg32_def)
  have "atoi (signed_digits 32 (sint n)) = n"
  proof (cases "sint n < 0")
    case True
    have lo: "- 2147483648 < sint n"
      using assms sint_u32_eq [of n] u32_eq_iff [of n "0x80000000"] unat_u32_less [of n] by (auto split: if_splits)
    have "signed_take_bit 31 (- sint n) = - sint n" using lo True by (intro signed_take_bit_int_eq_self) auto
    then have "atoi (signed_digits 32 (sint n)) = - ato_loop (digits 10 (- sint n)) 0"
      using True by (simp add: signed_digits_def atoi_def ato_def)
    also have "ato_loop (digits 10 (- sint n)) 0 = (word_of_int (- sint n) :: u32)"
      using ato_loop_digits [of "- sint n" "[]"] True by (simp del: of_int_minus)
    also have "- word_of_int (- sint n) = n" by (simp add: scast_id)
    finally show ?thesis .
  qed (simp add: scast_id signed_digits_def atoi_def ato_digits)
  then show ?thesis using pr by blast
qed

lemma printf_d_atoi_witness:
  "\<exists>txt. vsprintf (\<lambda>_. []) [37, 100] [- 42] = Inr (of_nat (length txt), txt) \<and> atoi txt = - 42"
  by (rule printf_d_atoi) simp

text \<open>The smallest \<open>int\<close> prints as characters that are no digits.\<close>

lemma printf_d_int_min: "hd (digits 10 (signed_take_bit 31 (- (- 2147483648)))) = 46"
proof -
  have "signed_take_bit 31 (- (- 2147483648)) = (- 2147483648 :: int)" by simp
  moreover have "hd (digits 10 (- 2147483648)) = 46"
    by (simp add: digits.simps signed_divide_int_def signed_modulo_int_def dtoc_def)
  ultimately show ?thesis by simp
qed

lemma strtoul_step:
  assumes d: "0 \<le> d" "d < b" "2 \<le> b" "b \<le> 16" and a: "0 \<le> a" "a * b + d < 4294967296" and any: "0 \<le> any"
  shows "strtoul_loop (word_of_int b) (- 1 div word_of_int b) (- 1 mod word_of_int b) (dtoc d # cs) i (word_of_int a) any
    = strtoul_loop (word_of_int b) (- 1 div word_of_int b) (- 1 mod word_of_int b) cs (i + 1) (word_of_int (a * b + d)) 1"
proof -
  have ub: "uint (word_of_int b :: u32) = b" "sint (word_of_int b :: u32) = b"
    using d by (simp_all add: uint_word_of_int sint_uint take_bit_int_eq_self signed_take_bit_int_eq_self)
  have "a \<le> a * b" using a(1) d(3) mult_left_mono [of 1 b a] by simp
  then have al: "a < 4294967296" using a(2) d(1) by linarith
  have ua: "uint (word_of_int a :: u32) = a" using a(1) al by (simp add: uint_word_of_int take_bit_int_eq_self)
  have m1: "uint (- 1 :: u32) = 4294967295"
    by (simp add: unsigned_minus_1_eq_mask mask_eq_exp_minus_1)
  have cut: "uint (- 1 div word_of_int b :: u32) = 4294967295 div b" "uint (- 1 mod word_of_int b :: u32) = 4294967295 mod b"
    by (simp_all only: uint_div uint_mod ub m1)
  have lim: "sint (- 1 mod word_of_int b :: u32) = 4294967295 mod b"
  proof -
    have "4294967295 mod b < b" and nn: "0 \<le> 4294967295 mod b" using d(3) by simp_all
    then have "4294967295 mod b < 16" using d(4) by linarith
    then have "4294967295 mod b < 2 ^ 31" "- (2 ^ 31) \<le> 4294967295 mod b" using nn by auto
    then show ?thesis unfolding sint_uint cut by (simp add: signed_take_bit_int_eq_self)
  qed
  have "a * b \<le> 4294967295" using a(2) d(1) by linarith
  then have le: "a \<le> 4294967295 div b" using zdiv_mono1 [of "a * b" 4294967295 b] d(3) by simp
  have "\<not> (a = 4294967295 div b \<and> d > 4294967295 mod b)"
  proof
    assume x: "a = 4294967295 div b \<and> d > 4294967295 mod b"
    then have "4294967295 = a * b + 4294967295 mod b" by simp
    then show False using x a(2) by linarith
  qed
  then have nc: "(any < 0 \<or> (word_of_int a :: u32) > - 1 div word_of_int b
      \<or> ((word_of_int a :: u32) = - 1 div word_of_int b \<and> d > sint (- 1 mod word_of_int b :: u32))) = False"
    using any le unfolding lim word_less_def word_uint_eq_iff ua cut by auto
  have nd: "(d \<ge> sint (word_of_int b :: u32)) = False" using d ub(2) by simp
  have dv: "digit_value (sint (dtoc d)) = Some d" using d by (intro digit_value_dtoc) auto
  show ?thesis by (simp only: strtoul_loop.simps dv option.case nc nd if_False) simp
qed

lemma strtoul_loop_digits:
  assumes "2 \<le> b" "b \<le> 16"
  shows "0 \<le> a \<Longrightarrow> a < 4294967296 \<Longrightarrow>
    strtoul_loop (word_of_int b) (- 1 div word_of_int b) (- 1 mod word_of_int b) (digits b a @ rest) i 0 0
    = strtoul_loop (word_of_int b) (- 1 div word_of_int b) (- 1 mod word_of_int b) rest (i + length (digits b a)) (word_of_int a) 1"
proof (induction "nat a" arbitrary: a rest i rule: less_induct)
  case less
  show ?case
  proof (cases "a < b")
    case True
    then show ?thesis using strtoul_step [of a b 0 0 rest i] assms less.prems by (simp add: digits_nonneg del: strtoul_loop.simps)
  next
    case False
    have q: "0 < a div b" "a div b < a" using False less.prems assms by (auto simp: pos_imp_zdiv_pos_iff intro: int_div_less_self)
    have m: "0 \<le> a mod b" "a mod b < b" "a div b * b + a mod b = a" using assms by auto
    have "strtoul_loop (word_of_int b) (- 1 div word_of_int b) (- 1 mod word_of_int b) (digits b (a div b) @ dtoc (a mod b) # rest) i 0 0
       = strtoul_loop (word_of_int b) (- 1 div word_of_int b) (- 1 mod word_of_int b) (dtoc (a mod b) # rest)
           (i + length (digits b (a div b))) (word_of_int (a div b)) 1"
      using q less.prems by (intro less.hyps) auto
    also have "\<dots> = strtoul_loop (word_of_int b) (- 1 div word_of_int b) (- 1 mod word_of_int b) rest
           (i + length (digits b (a div b)) + 1) (word_of_int (a div b * b + a mod b)) 1"
      using m q less.prems assms by (intro strtoul_step) auto
    finally show ?thesis using False less.prems assms by (simp add: digits_nonneg m(3))
  qed
qed

lemma digits_set: "2 \<le> b \<Longrightarrow> 0 \<le> a \<Longrightarrow> c \<in> set (digits b a) \<Longrightarrow> \<exists>d. 0 \<le> d \<and> d < b \<and> c = dtoc d"
proof (induction "nat a" arbitrary: a rule: less_induct)
  case less
  show ?case
  proof (cases "a < b")
    case True
    then show ?thesis using less.prems by (auto simp: digits_nonneg)
  next
    case False
    then have "a div b < a" "0 \<le> a div b" using less.prems by (auto intro: int_div_less_self simp: pos_imp_zdiv_nonneg_iff)
    then have "c \<in> set (digits b (a div b)) \<Longrightarrow> \<exists>d. 0 \<le> d \<and> d < b \<and> c = dtoc d"
      using less.prems by (intro less.hyps) auto
    moreover have "0 \<le> a mod b" "a mod b < b" using less.prems by auto
    moreover have "c \<in> set (digits b (a div b)) \<or> c = dtoc (a mod b)"
      using False less.prems by (auto simp: digits_nonneg)
    ultimately show ?thesis by blast
  qed
qed

lemma strtoul_digits:
  assumes b: "b = 10 \<or> b = 16" and a: "0 \<le> a" "a < 4294967296"
  shows "strtoul (digits b a) (word_of_int b) = (word_of_int a, length (digits b a))"
proof -
  obtain c cs where ds: "digits b a = c # cs" using digits_ne [of b a] by (cases "digits b a") auto
  have all: "\<exists>d. 0 \<le> d \<and> d < b \<and> x = dtoc d" if "x \<in> set (digits b a)" for x
    using digits_set [of b a x] b a that by auto
  have char: "48 \<le> sint x \<and> sint x \<le> 70" if x: "x \<in> set (digits b a)" for x
  proof -
    obtain d where "0 \<le> d" "d < b" "x = dtoc d" using all [OF x] by blast
    then show ?thesis using b sint_dtoc [of d] by auto
  qed
  have c: "48 \<le> sint c" "sint c \<le> 70" using char [of c] ds by auto
  have sp: "skip_space (digits b a) 0 = (digits b a, 0)" using c ds by (auto simp: isspace_def)
  have nosign: "c \<noteq> 45" "c \<noteq> 43" using c by auto
  have nohex: "\<not> (length (digits b a) \<ge> 2 \<and> digits b a ! 0 = 48 \<and> (digits b a ! 1 = 120 \<or> digits b a ! 1 = 88))"
  proof
    assume x: "length (digits b a) \<ge> 2 \<and> digits b a ! 0 = 48 \<and> (digits b a ! 1 = 120 \<or> digits b a ! 1 = 88)"
    then have "digits b a ! 1 \<in> set (digits b a)" by (intro nth_mem) simp
    then have "sint (digits b a ! 1) \<le> 70" using char by blast
    then show False using x by auto
  qed
  have lp: "strtoul_loop (word_of_int b) (- 1 div word_of_int b) (- 1 mod word_of_int b) (digits b a) 0 0 0
      = (word_of_int a, 1, length (digits b a))"
    using strtoul_loop_digits [of b a "[]" 0] b a by auto
  have b0: "(word_of_int b :: u32) \<noteq> 0" using b by auto
  show ?thesis
    using lp b0 nohex nosign unfolding strtoul_def sp Let_def prod.case
    by (auto simp: ds simp del: strtoul_loop.simps)
qed

text \<open>Printing an unsigned value with \<open>%u\<close> or \<open>%x\<close> and parsing the text with \<open>strtoul\<close> in base
  ten or sixteen gives the value back and consumes the whole text, for every 32-bit value.\<close>

theorem printf_u_x_strtoul:
  "(\<exists>txt. vsprintf str [37, 117] [n] = Inr (of_nat (length txt), txt) \<and> strtoul txt 10 = (n, length txt))
   \<and> (\<exists>txt. vsprintf str [37, 120] [n] = Inr (of_nat (length txt), txt) \<and> strtoul txt 16 = (n, length txt))"
proof -
  have "vsprintf str [37, 117] [n] = Inr (of_nat (length (digits 10 (uint n))), digits 10 (uint n))"
    by (intro vsprintf_one) (simp_all add: convert_def put_unsigned_def arg32_def)
  moreover have "vsprintf str [37, 120] [n] = Inr (of_nat (length (digits 16 (uint n))), digits 16 (uint n))"
    by (intro vsprintf_one) (simp_all add: convert_def put_unsigned_def arg32_def)
  moreover have "uint n < 4294967296" using uint_bounded [of n] by simp
  ultimately show ?thesis using strtoul_digits [of 10 "uint n"] strtoul_digits [of 16 "uint n"] by simp
qed

end
