(* ===== verification/Elf.thy ===== *)
theory Elf
  imports Cstring
begin

text \<open>
  The ELF loader, \<open>os/kernel/module/elf.c\<close>, and the kernel symbol table,
  \<open>os/kernel/module/symtable.c\<close>. The file lies in memory at \<open>hdr\<close>; headers are read from the
  bytes there each time the code reads them, and relocation writes into them. \<open>alloc\<close> is the list of
  addresses that \<open>kmalloc\<close> hands out. A string in memory is compared with a known one by
  \<^const>\<open>cstr\<close>, which is when \<open>strcmp\<close> returns zero (\<open>strcmp_zero_iff_equal\<close>). Fuel bounds the loops
  whose bounds are read from memory in each round.
\<close>

subsection \<open>Symbol table\<close>

record sym_entry =
  sname :: "u8 list"
  saddr :: u32

record symtable =
  entries :: "sym_entry option list"
  last_sym :: u32

definition symbol_export :: "u8 list \<Rightarrow> u32 \<Rightarrow> symtable \<Rightarrow> symtable res" where
  "symbol_export name addr s =
     sbind (store_at (entries s) (unat (last_sym s)) (Some \<lparr>sname = take 64 name, saddr = addr\<rparr>)) (\<lambda>es.
       Inr (s\<lparr>entries := es, last_sym := last_sym s + 1\<rparr>))"

definition symbol_get :: "u32 \<Rightarrow> symtable \<Rightarrow> sym_entry option res" where
  "symbol_get i s = (if i > last_sym s then Inr None else load_at (entries s) (unat i))"

fun seek_from :: "bytes \<Rightarrow> u32 \<Rightarrow> u32 \<Rightarrow> nat \<Rightarrow> symtable \<Rightarrow> sym_entry option res" where
  "seek_from m name i 0 s = Inr None"
| "seek_from m name i (Suc k) s =
     sbind (symbol_get i s) (\<lambda>e. case e of
       None \<Rightarrow> Inl Wild
     | Some e \<Rightarrow> if cstr m name (sname e) then Inr (Some e) else seek_from m name (i + 1) k s)"

definition symbol_seek :: "bytes \<Rightarrow> u32 \<Rightarrow> symtable \<Rightarrow> sym_entry option res" where
  "symbol_seek m name s = seek_from m name 0 (unat (last_sym s)) s"

subsection \<open>Headers\<close>

abbreviation e_type :: "bytes \<Rightarrow> u32 \<Rightarrow> u16" where "e_type m h \<equiv> rd16 m (h + 16)"
abbreviation e_machine :: "bytes \<Rightarrow> u32 \<Rightarrow> u16" where "e_machine m h \<equiv> rd16 m (h + 18)"
abbreviation e_entry :: "bytes \<Rightarrow> u32 \<Rightarrow> u32" where "e_entry m h \<equiv> rd32 m (h + 24)"
abbreviation e_phoff :: "bytes \<Rightarrow> u32 \<Rightarrow> u32" where "e_phoff m h \<equiv> rd32 m (h + 28)"
abbreviation e_shoff :: "bytes \<Rightarrow> u32 \<Rightarrow> u32" where "e_shoff m h \<equiv> rd32 m (h + 32)"
abbreviation e_phnum :: "bytes \<Rightarrow> u32 \<Rightarrow> u16" where "e_phnum m h \<equiv> rd16 m (h + 44)"
abbreviation e_shentsize :: "bytes \<Rightarrow> u32 \<Rightarrow> u16" where "e_shentsize m h \<equiv> rd16 m (h + 46)"
abbreviation e_shnum :: "bytes \<Rightarrow> u32 \<Rightarrow> u16" where "e_shnum m h \<equiv> rd16 m (h + 48)"
abbreviation e_shstrndx :: "bytes \<Rightarrow> u32 \<Rightarrow> u16" where "e_shstrndx m h \<equiv> rd16 m (h + 50)"

abbreviation sh_name :: "bytes \<Rightarrow> u32 \<Rightarrow> u32" where "sh_name m p \<equiv> rd32 m p"
abbreviation sh_type :: "bytes \<Rightarrow> u32 \<Rightarrow> u32" where "sh_type m p \<equiv> rd32 m (p + 4)"
abbreviation sh_flags :: "bytes \<Rightarrow> u32 \<Rightarrow> u32" where "sh_flags m p \<equiv> rd32 m (p + 8)"
abbreviation sh_offset :: "bytes \<Rightarrow> u32 \<Rightarrow> u32" where "sh_offset m p \<equiv> rd32 m (p + 16)"
abbreviation sh_size :: "bytes \<Rightarrow> u32 \<Rightarrow> u32" where "sh_size m p \<equiv> rd32 m (p + 20)"
abbreviation sh_link :: "bytes \<Rightarrow> u32 \<Rightarrow> u32" where "sh_link m p \<equiv> rd32 m (p + 24)"
abbreviation sh_info :: "bytes \<Rightarrow> u32 \<Rightarrow> u32" where "sh_info m p \<equiv> rd32 m (p + 28)"
abbreviation sh_entsize :: "bytes \<Rightarrow> u32 \<Rightarrow> u32" where "sh_entsize m p \<equiv> rd32 m (p + 36)"

abbreviation st_name :: "bytes \<Rightarrow> u32 \<Rightarrow> u32" where "st_name m p \<equiv> rd32 m p"
abbreviation st_value :: "bytes \<Rightarrow> u32 \<Rightarrow> u32" where "st_value m p \<equiv> rd32 m (p + 4)"
abbreviation st_info :: "bytes \<Rightarrow> u32 \<Rightarrow> u8" where "st_info m p \<equiv> m (p + 12)"
abbreviation st_shndx :: "bytes \<Rightarrow> u32 \<Rightarrow> u16" where "st_shndx m p \<equiv> rd16 m (p + 14)"

abbreviation ELF_RELOC_ERR :: u32 where "ELF_RELOC_ERR \<equiv> - 1"
abbreviation SHT_SYMTAB :: u32 where "SHT_SYMTAB \<equiv> 2"
abbreviation SHT_STRTAB :: u32 where "SHT_STRTAB \<equiv> 3"
abbreviation SHT_NOBITS :: u32 where "SHT_NOBITS \<equiv> 8"
abbreviation SHT_REL :: u32 where "SHT_REL \<equiv> 9"

definition elf_sheader :: "bytes \<Rightarrow> u32 \<Rightarrow> u32" where
  "elf_sheader m hdr = hdr + e_shoff m hdr"

definition elf_section :: "bytes \<Rightarrow> u32 \<Rightarrow> u32 \<Rightarrow> u32" where
  "elf_section m hdr idx = elf_sheader m hdr + 40 * idx"

definition elf_check_format :: "bytes \<Rightarrow> u32 \<Rightarrow> bool" where
  "elf_check_format m hdr \<longleftrightarrow> hdr \<noteq> 0 \<and> m hdr = 0x7F \<and> m (hdr + 1) = 69 \<and> m (hdr + 2) = 76 \<and> m (hdr + 3) = 70"

definition elf_check_supported :: "bytes \<Rightarrow> u32 \<Rightarrow> bool" where
  "elf_check_supported m hdr \<longleftrightarrow> elf_check_format m hdr \<and> m (hdr + 4) = 1 \<and> m (hdr + 5) = 1
     \<and> e_machine m hdr = 3 \<and> m (hdr + 6) = 1 \<and> (e_type m hdr = 1 \<or> e_type m hdr = 2)"

subsection \<open>Symbols\<close>

text \<open>The first pass over the section headers remembers the last symbol table and the string table of
  section names; \<open>sym_shdr\<close> is not initialised.\<close>

fun scan_symtab :: "bytes \<Rightarrow> u32 \<Rightarrow> u16 \<Rightarrow> nat \<Rightarrow> u32 option \<times> u32 \<Rightarrow> u32 option \<times> u32" where
  "scan_symtab m target i 0 (sym_shdr, shstrtab) = (sym_shdr, shstrtab)"
| "scan_symtab m target i (Suc k) (sym_shdr, shstrtab) =
     (let shdr = target + (e_shoff m target + ucast i * ucast (e_shentsize m target))
      in scan_symtab m target (i + 1) k
           (if sh_type m shdr = SHT_SYMTAB then Some shdr else sym_shdr,
            if i = e_shstrndx m target then target + sh_offset m shdr else shstrtab))"

fun scan_strtab :: "bytes \<Rightarrow> u32 \<Rightarrow> u32 \<Rightarrow> u16 \<Rightarrow> nat \<Rightarrow> u32 \<Rightarrow> u32" where
  "scan_strtab m target shstrtab i 0 r = r"
| "scan_strtab m target shstrtab i (Suc k) r =
     (let shdr = target + (e_shoff m target + ucast i * ucast (e_shentsize m target))
      in scan_strtab m target shstrtab (i + 1) k
           (if sh_type m shdr = SHT_STRTAB \<and> cstr m (shstrtab + sh_name m shdr) [46, 115, 116, 114, 116, 97, 98]
            then target + sh_offset m shdr else r))"

fun scan_symbols :: "bytes \<Rightarrow> u8 list \<Rightarrow> u32 \<Rightarrow> u32 \<Rightarrow> u32 \<Rightarrow> u32 \<Rightarrow> nat \<Rightarrow> u32" where
  "scan_symbols m nm symstrtab base off sz 0 = 0"
| "scan_symbols m nm symstrtab base off sz (Suc k) =
     (if off < sz then
        let tab = base + off in
        if st_name m tab \<noteq> 0 \<and> cstr m (symstrtab + st_name m tab) nm then tab
        else scan_symbols m nm symstrtab base (off + 16) sz k
      else 0)"

definition elf_get_symbol :: "bytes \<Rightarrow> u32 \<Rightarrow> u8 list \<Rightarrow> u32 res" where
  "elf_get_symbol m target nm =
     (let n = (if e_shentsize m target = 0 then 0 else unat (e_shnum m target));
          (sym_shdr, shstrtab) = scan_symtab m target 0 n (None, 0);
          symstrtab = scan_strtab m target shstrtab 0 n 0
      in case sym_shdr of None \<Rightarrow> Inl Wild
         | Some sh \<Rightarrow>
             if sh = 0 \<or> shstrtab = 0 \<or> symstrtab = 0 then Inr 0
             else Inr (scan_symbols m nm symstrtab (target + sh_offset m sh) 0 (sh_size m sh)
                         (Suc (unat (sh_size m sh) div 16))))"

definition elf_get_symval :: "bytes \<Rightarrow> symtable \<Rightarrow> u32 \<Rightarrow> u32 \<Rightarrow> u32 \<Rightarrow> u32 res" where
  "elf_get_symval m syms hdr table idx =
     (if table = 0 \<or> idx = 0 then Inr 0
      else let symtab = elf_section m hdr table in
        if sh_entsize m symtab = 0 then Inl DivZero
        else if idx \<ge> sh_size m symtab div sh_entsize m symtab then Inr ELF_RELOC_ERR
        else let symbol = hdr + sh_offset m symtab + 16 * idx in
          if st_shndx m symbol = 0 then
            let strtab = elf_section m hdr (sh_link m symtab);
                name = hdr + sh_offset m strtab + st_name m symbol
            in sbind (symbol_seek m name syms) (\<lambda>e.
              let target = (case e of None \<Rightarrow> 0 | Some e \<Rightarrow> saddr e) in
              if target = 0 then
                if drop_bit 4 (st_info m symbol) AND 2 \<noteq> 0 then Inr 0 else Inr ELF_RELOC_ERR
              else Inr target)
          else if st_shndx m symbol = 0xfff1 then Inr (st_value m symbol)
          else Inr (hdr + st_value m symbol + sh_offset m (elf_section m hdr (ucast (st_shndx m symbol)))))"

subsection \<open>Relocatable files\<close>

text \<open>A \<open>NOBITS\<close> section gets zeroed memory of its own.\<close>

definition bss_section :: "u32 \<Rightarrow> u32 \<Rightarrow> bytes \<times> u32 list \<Rightarrow> (bytes \<times> u32 list) res" where
  "bss_section hdr section st =
     (let (m, alloc) = st in
      if sh_type m section = SHT_NOBITS \<and> sh_size m section \<noteq> 0 \<and> sh_flags m section AND 2 \<noteq> 0 then
        case alloc of
          [] \<Rightarrow> Inl (Panic ''KHEAP: Out of memory'')
        | p # ps \<Rightarrow>
            let m = snd (memset p 0 (sh_size m section) m)
            in Inr (wr32 (section + 16) (p - hdr) m, ps)
      else Inr (m, alloc))"

fun bss_loop :: "nat \<Rightarrow> u32 \<Rightarrow> u32 \<Rightarrow> u32 \<Rightarrow> bytes \<times> u32 list \<Rightarrow> (bytes \<times> u32 list) res option" where
  "bss_loop 0 hdr shdr i st = None"
| "bss_loop (Suc k) hdr shdr i st =
     (if i < ucast (e_shnum (fst st) hdr)
      then res_bind (Some (bss_section hdr (shdr + 40 * i) st)) (bss_loop k hdr shdr (i + 1))
      else Some (Inr st))"

definition elf_make_bss :: "nat \<Rightarrow> u32 \<Rightarrow> bytes \<times> u32 list \<Rightarrow> (bytes \<times> u32 list) res option" where
  "elf_make_bss k hdr st = bss_loop k hdr (elf_sheader (fst st) hdr) 0 st"

text \<open>One relocation; the result is the value of the symbol or the error.\<close>

definition elf_do_reloc :: "symtable \<Rightarrow> u32 \<Rightarrow> u32 \<Rightarrow> u32 \<Rightarrow> bytes \<Rightarrow> (u32 \<times> bytes) res" where
  "elf_do_reloc syms hdr rel reltab m =
     (let target = elf_section m hdr (sh_info m reltab);
          addr = hdr + sh_offset m target;
          ref = addr + rd32 m rel;
          info = rd32 m (rel + 4);
          sym = drop_bit 8 info
      in sbind (if sym \<noteq> 0 then elf_get_symval m syms hdr (sh_link m reltab) sym else Inr 0) (\<lambda>symval.
         if sym \<noteq> 0 \<and> symval = ELF_RELOC_ERR then Inr (ELF_RELOC_ERR, m)
         else if (ucast info :: u8) = 0 then Inr (symval, m)
         else if (ucast info :: u8) = 1 then Inr (symval, wr32 ref (symval + rd32 m ref) m)
         else if (ucast info :: u8) = 2 then Inr (symval, wr32 ref (symval + rd32 m ref - ref) m)
         else Inr (ELF_RELOC_ERR, m)))"

fun reloc_entries :: "nat \<Rightarrow> symtable \<Rightarrow> u32 \<Rightarrow> u32 \<Rightarrow> u32 \<Rightarrow> bytes \<Rightarrow> (u32 \<times> bytes) res option" where
  "reloc_entries 0 syms hdr section idx m = None"
| "reloc_entries (Suc k) syms hdr section idx m =
     (if sh_entsize m section = 0 then Some (Inl DivZero)
      else if idx < sh_size m section div sh_entsize m section then
        res_bind (Some (elf_do_reloc syms hdr (hdr + sh_offset m section + 8 * idx) section m)) (\<lambda>(r, m).
          if r = ELF_RELOC_ERR then Some (Inr (ELF_RELOC_ERR, m)) else reloc_entries k syms hdr section (idx + 1) m)
      else Some (Inr (0, m)))"

fun reloc_sections :: "nat \<Rightarrow> symtable \<Rightarrow> u32 \<Rightarrow> u32 \<Rightarrow> u32 \<Rightarrow> bytes \<Rightarrow> (u32 \<times> bytes) res option" where
  "reloc_sections 0 syms hdr shdr i m = None"
| "reloc_sections (Suc k) syms hdr shdr i m =
     (if i < ucast (e_shnum m hdr) then
        res_bind (if sh_type m (shdr + 40 * i) = SHT_REL then reloc_entries k syms hdr (shdr + 40 * i) 0 m
                  else Some (Inr (0, m))) (\<lambda>(r, m).
          if r = ELF_RELOC_ERR then Some (Inr (ELF_RELOC_ERR, m)) else reloc_sections k syms hdr shdr (i + 1) m)
      else Some (Inr (0, m)))"

definition elf_make_relocations :: "nat \<Rightarrow> symtable \<Rightarrow> u32 \<Rightarrow> bytes \<Rightarrow> (u32 \<times> bytes) res option" where
  "elf_make_relocations k syms hdr m = reloc_sections k syms hdr (elf_sheader m hdr) 0 m"

definition elf_load_reloc :: "nat \<Rightarrow> symtable \<Rightarrow> u32 \<Rightarrow> bytes \<times> u32 list \<Rightarrow> (u32 \<times> bytes \<times> u32 list) res option" where
  "elf_load_reloc k syms hdr st =
     res_bind (elf_make_bss k hdr st) (\<lambda>(m, alloc).
     res_bind (elf_make_relocations k syms hdr m) (\<lambda>(r, m).
       Some (Inr (if r = ELF_RELOC_ERR then 0 else 1, m, alloc))))"

subsection \<open>Executables\<close>

text \<open>The pages that \<open>knpalloc\<close> is called for (theory Paging maps them) are collected in order. The
  loop does not end when a segment reaches into the last page of the address space.\<close>

fun page_loop :: "nat \<Rightarrow> u32 \<Rightarrow> u32 \<Rightarrow> u32 list option" where
  "page_loop 0 i e = None"
| "page_loop (Suc k) i e = (if i < e then map_option ((#) i) (page_loop k (i + 4096) e) else Some [])"

definition load_segment :: "nat \<Rightarrow> u32 \<Rightarrow> u32 \<Rightarrow> bytes \<Rightarrow> (bytes \<times> u32 list) option" where
  "load_segment k hdr ph m =
     (let p_offset = rd32 m (ph + 4); p_vaddr = rd32 m (ph + 8); p_filesz = rd32 m (ph + 16); p_memsz = rd32 m (ph + 20)
      in if rd32 m ph = 1 then
           map_option (\<lambda>pages. (snd (memcpy p_vaddr (hdr + p_offset) p_filesz (snd (memset p_vaddr 0 p_memsz m))), pages))
             (page_loop k (p_vaddr AND 0xFFFFF000) (p_vaddr + p_memsz))
         else Some (m, []))"

fun load_segments :: "nat \<Rightarrow> u32 \<Rightarrow> u32 \<Rightarrow> u16 \<Rightarrow> bytes \<Rightarrow> u32 list \<Rightarrow> (bytes \<times> u32 list) option" where
  "load_segments 0 hdr phs i m pages = None"
| "load_segments (Suc k) hdr phs i m pages =
     (if i < e_phnum m hdr then
        Option.bind (load_segment k hdr (phs + 32 * ucast i) m) (\<lambda>(m, ps).
          load_segments k hdr phs (i + 1) m (pages @ ps))
      else Some (m, pages))"

definition elf_load_exec :: "nat \<Rightarrow> u32 \<Rightarrow> bytes \<Rightarrow> (u32 \<times> bytes \<times> u32 list) option" where
  "elf_load_exec k hdr m =
     map_option (\<lambda>(m, pages). (e_entry m hdr, m, pages)) (load_segments k hdr (hdr + e_phoff m hdr) 0 m [])"

text \<open>The result, the memory, the pages mapped and the addresses left for \<open>kmalloc\<close>.\<close>

definition elf_load_file :: "nat \<Rightarrow> symtable \<Rightarrow> u32 \<Rightarrow> bytes \<times> u32 list \<Rightarrow> (u32 \<times> bytes \<times> u32 list \<times> u32 list) res option" where
  "elf_load_file k syms file st =
     (let (m, alloc) = st in
      if \<not> elf_check_supported m file then Some (Inr (0, m, [], alloc))
      else if e_type m file = 2 then
        map_option (\<lambda>(r, m, pages). Inr (r, m, pages, alloc)) (elf_load_exec k file m)
      else if e_type m file = 1 then
        res_bind (elf_load_reloc k syms file st) (\<lambda>(r, m, alloc). Some (Inr (r, m, [], alloc)))
      else Some (Inr (0, m, [], alloc)))"

subsection \<open>Relocations\<close>

text \<open>One relocation patches one word. For an entry whose symbol has a value, a relocation of
  type \<open>R_386_32\<close> adds the value to the word it points at, one of type \<open>R_386_PC32\<close> adds the value
  less the address of the word, no other byte of the memory changes, and the value is returned; an
  unknown type is an error and changes nothing.\<close>

theorem elf_do_reloc_patches:
  assumes sym: "drop_bit 8 (rd32 m (rel + 4)) \<noteq> 0"
      "elf_get_symval m syms hdr (sh_link m reltab) (drop_bit 8 (rd32 m (rel + 4))) = Inr v" "v \<noteq> ELF_RELOC_ERR"
    and tp: "tp = (ucast (rd32 m (rel + 4)) :: u8)"
    and ref: "ref = hdr + sh_offset m (elf_section m hdr (sh_info m reltab)) + rd32 m rel"
  shows "\<exists>r m'. elf_do_reloc syms hdr rel reltab m = Inr (r, m')
    \<and> (if tp = 1 then r = v \<and> rd32 m' ref = v + rd32 m ref
       else if tp = 2 then r = v \<and> rd32 m' ref = v + rd32 m ref - ref
       else m' = m \<and> r = (if tp = 0 then v else ELF_RELOC_ERR))
    \<and> (\<forall>a. a \<noteq> ref \<and> a \<noteq> ref + 1 \<and> a \<noteq> ref + 2 \<and> a \<noteq> ref + 3 \<longrightarrow> m' a = m a)"
  using assms by (simp add: elf_do_reloc_def Let_def wr32_other)

text \<open>A file at 0x1000 with one relocation entry at 0x1100 of type \<open>R_386_32\<close> for symbol 1, an
  absolute symbol of value 7; the section headers start at 0x1200.\<close>

definition elf_example :: bytes where
  "elf_example = wr32 (0x1000 + 32) 0x200 (wr32 0x1100 0x10 (wr32 0x1104 0x101
     (wr32 (0x1200 + 40 + 16) 0x300 (wr32 (0x1200 + 40 + 20) 32 (wr32 (0x1200 + 40 + 36) 16
     (wr32 (0x1200 + 80 + 24) 1 (wr32 (0x1200 + 80 + 28) 3 (wr32 (0x1200 + 120 + 16) 0x400
     (wr32 (0x1300 + 16 + 4) 7 (wr16 (0x1300 + 16 + 14) 0xfff1 (\<lambda>_. 0)))))))))))"

lemma elf_do_reloc_patches_witness:
  "\<exists>m'. elf_do_reloc \<lparr>entries = [], last_sym = 0\<rparr> 0x1000 0x1100 0x1250 elf_example = Inr (7, m')
     \<and> rd32 m' 0x1410 = 7 + rd32 elf_example 0x1410"
proof -
  note ev = elf_example_def rd32_def rd16_def wr32_def wr16_def elf_section_def elf_sheader_def
  have i: "rd32 elf_example 0x1104 = 0x101" "rd32 elf_example 0x1100 = 0x10" by (simp_all add: ev)
  have l: "sh_link elf_example 0x1250 = 1" "sh_info elf_example 0x1250 = 3" by (simp_all add: ev)
  have s: "elf_section elf_example 0x1000 1 = 0x1228" "elf_section elf_example 0x1000 3 = 0x1278" by (simp_all add: ev)
  have o: "sh_offset elf_example 0x1228 = 0x300" "sh_offset elf_example 0x1278 = 0x400"
      "sh_size elf_example 0x1228 = 32" "sh_entsize elf_example 0x1228 = 16" by (simp_all add: ev)
  have y: "st_shndx elf_example 0x1310 = 0xfff1" "st_value elf_example 0x1310 = 7" by (simp_all add: ev)
  have v: "elf_get_symval elf_example \<lparr>entries = [], last_sym = 0\<rparr> 0x1000 1 1 = Inr 7"
    using s o y by (simp add: elf_get_symval_def Let_def word_le_nat_alt)
  show ?thesis
    using elf_do_reloc_patches [of elf_example "0x1100" "\<lparr>entries = [], last_sym = 0\<rparr>" "0x1000" "0x1250" 7 1 "0x1410"]
      i l s o v by auto
qed

subsection \<open>Segments\<close>

lemma memset_at: "no_wrap p (unat n) \<Longrightarrow>
    snd (memset p c n m) = (\<lambda>a. if unat p \<le> unat a \<and> unat a < unat p + unat n then ucast c else m a)"
proof -
  have "no_wrap p k \<Longrightarrow> fold (\<lambda>i m. m(p + of_nat i := ucast c)) [0..<k] m
      = (\<lambda>a. if unat p \<le> unat a \<and> unat a < unat p + k then ucast c else m a)" for k
  proof (induction k)
    case (Suc k)
    then have "no_wrap p k" by (simp add: no_wrap_def)
    then have IH: "fold (\<lambda>i m. m(p + of_nat i := ucast c)) [0..<k] m
      = (\<lambda>a. if unat p \<le> unat a \<and> unat a < unat p + k then ucast c else m a)" by (rule Suc.IH)
    have "unat (p + of_nat k) = unat p + k" using Suc.prems by (simp add: no_wrap_index)
    then have eq: "a = p + of_nat k \<longleftrightarrow> unat a = unat p + k" for a by (simp add: u32_eq_iff)
    have step: "fold (\<lambda>i m. m(p + of_nat i := ucast c)) [0..<Suc k] m
        = (fold (\<lambda>i m. m(p + of_nat i := ucast c)) [0..<k] m)(p + of_nat k := ucast c)" by simp
    show ?case unfolding step IH using eq by (auto simp: fun_eq_iff fun_upd_def)
  qed (auto simp: fun_eq_iff)
  then show "no_wrap p (unat n) \<Longrightarrow> ?thesis" by (simp add: memset_def)
qed

lemma page_loop_pages:
  assumes e: "unat e + 4096 < 4294967296"
  shows "\<forall>j. unat i + 4096 * j < unat e \<longrightarrow> j < k \<Longrightarrow>
    \<exists>ps. page_loop (Suc k) i e = Some ps \<and> (\<forall>a. unat i \<le> a \<and> a < unat e \<longrightarrow> (\<exists>p \<in> set ps. unat p \<le> a \<and> a < unat p + 4096 \<and> (unat p - unat i) mod 4096 = 0 \<and> unat i \<le> unat p))"
proof (induction k arbitrary: i)
  case 0
  then have "\<not> unat i < unat e" using 0 [rule_format, of 0] by auto
  then show ?case by (auto simp: word_less_nat_alt)
next
  case (Suc k)
  show ?case
  proof (cases "i < e")
    case False
    then show ?thesis by (auto simp: word_less_nat_alt)
  next
    case True
    then have u: "unat (i + 4096) = unat i + 4096"
    proof -
      have "unat i < unat e" using True by (simp add: word_less_nat_alt)
      then have "unat i + unat (4096 :: u32) < 4294967296" using e by simp
      from unat_plus_u32 [OF this] show ?thesis by simp
    qed
    have "\<forall>j. unat (i + 4096) + 4096 * j < unat e \<longrightarrow> j < k"
    proof (intro allI impI)
      fix j assume "unat (i + 4096) + 4096 * j < unat e"
      then have "unat i + 4096 * Suc j < unat e" using u by simp
      then show "j < k" using Suc.prems by blast
    qed
    from Suc.IH [OF this] obtain ps where ps: "page_loop (Suc k) (i + 4096) e = Some ps"
      "\<forall>a. unat (i + 4096) \<le> a \<and> a < unat e \<longrightarrow> (\<exists>p \<in> set ps. unat p \<le> a \<and> a < unat p + 4096
         \<and> (unat p - unat (i + 4096)) mod 4096 = 0 \<and> unat (i + 4096) \<le> unat p)" by blast
    have covers: "\<exists>p \<in> set (i # ps). unat p \<le> a \<and> a < unat p + 4096 \<and> (unat p - unat i) mod 4096 = 0 \<and> unat i \<le> unat p"
      if a: "unat i \<le> a" "a < unat e" for a
    proof (cases "a < unat i + 4096")
      case True
      then have "unat i \<le> a \<and> a < unat i + 4096 \<and> (unat i - unat i) mod 4096 = 0 \<and> unat i \<le> unat i" using a by simp
      moreover have "i \<in> set (i # ps)" by simp
      ultimately show ?thesis by (intro bexI [of _ i])
    next
      case False
      then have "\<exists>p \<in> set ps. unat p \<le> a \<and> a < unat p + 4096 \<and> (unat p - (unat i + 4096)) mod 4096 = 0
          \<and> unat i + 4096 \<le> unat p"
        using ps(2) [unfolded u, rule_format, of a] a(2) by (simp only: not_less)
      then obtain p where p: "p \<in> set ps" "unat p \<le> a" "a < unat p + 4096" "(unat p - (unat i + 4096)) mod 4096 = 0"
          "unat i + 4096 \<le> unat p" by (elim bexE conjE)
      have "unat p - unat i = (unat p - (unat i + 4096)) + 4096" using p(5) by simp
      then have "(unat p - unat i) mod 4096 = 0" using p(4) by (simp only: mod_add_self2)
      moreover have "unat i \<le> unat p" using p(5) by linarith
      moreover have "p \<in> set (i # ps)" using p(1) by simp
      ultimately show ?thesis using p(2,3) by (intro bexI [of _ p] conjI)
    qed
    have "page_loop (Suc (Suc k)) i e = Some (i # ps)" using ps(1) True page_loop.simps(2) [of "Suc k" i e] by simp
    then show ?thesis using covers by blast
  qed
qed

lemma page_mask: "unat ((a :: u32) AND 0xFFFFF000) = unat a - unat a mod 4096"
proof -
  have e: "(0xFFFFF000 :: u32) = NOT (mask 12)" by (simp add: mask_eq_exp_minus_1)
  show ?thesis unfolding e by (simp only: unat_and_not_mask) simp
qed

text \<open>The pages that are allocated for a segment cover it.\<close>

lemma page_loop_covers:
  assumes sz: "unat vaddr + unat memsz + 8192 < 4294967296" and k: "unat memsz div 4096 + 2 \<le> k"
  shows "\<exists>pages. page_loop (Suc k) (vaddr AND 0xFFFFF000) (vaddr + memsz) = Some pages
    \<and> (\<forall>i < unat memsz. \<exists>p \<in> set pages. unat p mod 4096 = 0 \<and> unat p \<le> unat vaddr + i \<and> unat vaddr + i < unat p + 4096)"
proof -
  define base where "base = vaddr AND 0xFFFFF000"
  define e where "e = vaddr + memsz"
  have ue: "unat e = unat vaddr + unat memsz" unfolding e_def using sz by (intro unat_plus_u32) simp
  have ub: "unat base = unat vaddr - unat vaddr mod 4096" unfolding base_def by (rule page_mask)
  have "\<forall>j. unat base + 4096 * j < unat e \<longrightarrow> j < k"
  proof (intro allI impI)
    fix j assume "unat base + 4096 * j < unat e"
    then have "4096 * j < 4096 + unat memsz" using ub ue mod_less_divisor [of 4096 "unat vaddr"] by linarith
    then have "j < unat memsz div 4096 + 2" by linarith
    then show "j < k" using k by simp
  qed
  then obtain pages where pg: "page_loop (Suc k) base e = Some pages"
      "\<forall>a. unat base \<le> a \<and> a < unat e \<longrightarrow> (\<exists>p \<in> set pages. unat p \<le> a \<and> a < unat p + 4096
         \<and> (unat p - unat base) mod 4096 = 0 \<and> unat base \<le> unat p)"
    using page_loop_pages [of e base k] sz ue by auto
  have "\<exists>p \<in> set pages. unat p mod 4096 = 0 \<and> unat p \<le> unat vaddr + i \<and> unat vaddr + i < unat p + 4096"
    if i: "i < unat memsz" for i
  proof -
    have "unat base \<le> unat vaddr + i" "unat vaddr + i < unat e" using ub ue i by linarith+
    then have "\<exists>p \<in> set pages. unat p \<le> unat vaddr + i \<and> unat vaddr + i < unat p + 4096
        \<and> (unat p - unat base) mod 4096 = 0 \<and> unat base \<le> unat p" by (intro pg(2) [rule_format] conjI)
    then obtain p where p: "p \<in> set pages" "unat p \<le> unat vaddr + i" "unat vaddr + i < unat p + 4096"
        "(unat p - unat base) mod 4096 = 0" "unat base \<le> unat p" by (elim bexE conjE)
    have "unat base mod 4096 = 0" unfolding ub by (simp add: minus_mod_eq_mult_div)
    moreover have "unat p = unat base + (unat p - unat base)" using p(5) by simp
    ultimately have "unat p mod 4096 = 0" using p(4) by (metis mod_add_eq mod_0 add_0_right)
    then show ?thesis using p(1,2,3) by (intro bexI [of _ p] conjI)
  qed
  then show ?thesis using pg(1) by (auto simp: base_def e_def)
qed

text \<open>Clearing a region and copying to its front.\<close>

lemma clear_then_copy:
  assumes sz: "filesz \<le> memsz" "unat vaddr + unat memsz < 4294967296" and ap: "apart vaddr (unat memsz) src (unat filesz)"
    and m2: "m2 = snd (memcpy vaddr src filesz (snd (memset vaddr 0 memsz m)))"
  shows "i < unat filesz \<Longrightarrow> m2 (vaddr + of_nat i) = m (src + of_nat i)"
    and "unat filesz \<le> i \<Longrightarrow> i < unat memsz \<Longrightarrow> m2 (vaddr + of_nat i) = 0"
    and "unat a < unat vaddr \<or> unat vaddr + unat memsz \<le> unat a \<Longrightarrow> m2 a = m a"
proof -
  define m1 where "m1 = snd (memset vaddr 0 memsz m)"
  have nw: "no_wrap vaddr (unat memsz)" "no_wrap vaddr (unat filesz)" "no_wrap src (unat filesz)"
    using ap sz by (auto simp: apart_def no_wrap_def word_le_nat_alt)
  have le: "unat filesz \<le> unat memsz" using sz(1) by (simp add: word_le_nat_alt)
  have m1: "m1 = (\<lambda>a. if unat vaddr \<le> unat a \<and> unat a < unat vaddr + unat memsz then 0 else m a)"
    unfolding m1_def unfolding memset_at [OF nw(1)] by (simp add: fun_eq_iff)
  have "vaddr \<le> src \<or> unat src + unat filesz \<le> unat vaddr"
    using ap by (auto simp: apart_def word_le_nat_alt)
  then have m2: "m2 = moved vaddr src (unat filesz) m1"
    unfolding m2 m1_def [symmetric] memcpy_def using copy_up_moved [OF nw(2,3)] by simp
  have off: "unat (vaddr + of_nat i) = unat vaddr + i" if "i < unat memsz" for i
    using no_wrap_index [OF nw(1)] that by simp
  show "m2 (vaddr + of_nat i) = m (src + of_nat i)" if i: "i < unat filesz"
  proof -
    have "unat (src + of_nat i) = unat src + i" using no_wrap_index [OF nw(3)] i by simp
    then have "m1 (src + of_nat i) = m (src + of_nat i)" using ap i by (auto simp: m1 apart_def)
    then show ?thesis using i le off [of i] by (simp add: m2 moved_def)
  qed
  show "m2 (vaddr + of_nat i) = 0" if i: "unat filesz \<le> i" "i < unat memsz"
    using i off [of i] by (simp add: m2 m1 moved_def)
  show "m2 a = m a" if "unat a < unat vaddr \<or> unat vaddr + unat memsz \<le> unat a"
    using that le by (auto simp: m2 m1 moved_def)
qed

text \<open>C32: Loading a segment puts the file's bytes in place, clears the rest, and maps every page of it.
  For a \<open>PH_LOAD\<close> segment that does not wrap, stays below the last page and does not overlap the
  file's bytes, enough fuel makes the load return; the segment's memory then holds the \<open>p_filesz\<close>
  bytes of the file followed by zeroes up to \<open>p_memsz\<close>, all other memory is unchanged, and each of
  its addresses lies in a page passed to \<open>knpalloc\<close>.\<close>

theorem load_segment_correct:
  assumes tp: "rd32 m ph = 1" and f: "vaddr = rd32 m (ph + 8)" "src = hdr + rd32 m (ph + 4)"
      "filesz = rd32 m (ph + 16)" "memsz = rd32 m (ph + 20)"
    and sz: "filesz \<le> memsz" "unat vaddr + unat memsz + 8192 < 4294967296"
    and ap: "apart vaddr (unat memsz) src (unat filesz)" and k: "unat memsz div 4096 + 2 \<le> k"
  shows "\<exists>m' pages. load_segment (Suc k) hdr ph m = Some (m', pages)
    \<and> (\<forall>i < unat filesz. m' (vaddr + of_nat i) = m (src + of_nat i))
    \<and> (\<forall>i. unat filesz \<le> i \<and> i < unat memsz \<longrightarrow> m' (vaddr + of_nat i) = 0)
    \<and> (\<forall>a. unat a < unat vaddr \<or> unat vaddr + unat memsz \<le> unat a \<longrightarrow> m' a = m a)
    \<and> (\<forall>i < unat memsz. \<exists>p \<in> set pages. unat p mod 4096 = 0 \<and> unat p \<le> unat vaddr + i \<and> unat vaddr + i < unat p + 4096)"
proof -
  obtain pages where pg: "page_loop (Suc k) (vaddr AND 0xFFFFF000) (vaddr + memsz) = Some pages"
      "\<forall>i < unat memsz. \<exists>p \<in> set pages. unat p mod 4096 = 0 \<and> unat p \<le> unat vaddr + i \<and> unat vaddr + i < unat p + 4096"
    using page_loop_covers [OF sz(2) k] by blast
  define m2 where "m2 = snd (memcpy vaddr src filesz (snd (memset vaddr 0 memsz m)))"
  have run: "load_segment (Suc k) hdr ph m = Some (m2, pages)"
    using tp pg(1) by (simp add: load_segment_def Let_def f [symmetric] m2_def del: page_loop.simps)
  have "unat vaddr + unat memsz < 4294967296" using sz(2) by simp
  note m2 = clear_then_copy [OF sz(1) this ap m2_def]
  show ?thesis using run m2 pg(2) by (intro exI [of _ m2] exI [of _ pages]) simp
qed

text \<open>A program header at 0x1000 of a segment with two bytes at 0x1040, to be loaded at 0x5000 into
  four bytes.\<close>

definition ph_example :: bytes where
  "ph_example = (wr32 0x1000 1 (wr32 0x1004 0x40 (wr32 0x1008 0x5000 (wr32 0x1010 2 (wr32 0x1014 4 (\<lambda>_. 0))))))(0x1040 := 17, 0x1041 := 34)"

lemma load_segment_correct_witness:
  "\<exists>m' pages. load_segment 3 0x1000 0x1000 ph_example = Some (m', pages) \<and> m' 0x5001 = 34 \<and> m' 0x5003 = 0"
proof -
  note ev = ph_example_def rd32_def wr32_def
  have v: "rd32 ph_example 0x1000 = 1" "rd32 ph_example 0x1004 = 0x40" "rd32 ph_example 0x1008 = 0x5000"
      "rd32 ph_example 0x1010 = 2" "rd32 ph_example 0x1014 = 4" "ph_example 0x1041 = 34" by (simp_all add: ev)
  have "\<exists>m' pages. load_segment (Suc 2) 0x1000 0x1000 ph_example = Some (m', pages)
    \<and> (\<forall>i < unat (2 :: u32). m' (0x5000 + of_nat i) = ph_example (0x1040 + of_nat i))
    \<and> (\<forall>i. unat (2 :: u32) \<le> i \<and> i < unat (4 :: u32) \<longrightarrow> m' (0x5000 + of_nat i) = 0)
    \<and> (\<forall>a. unat a < unat (0x5000 :: u32) \<or> unat (0x5000 :: u32) + unat (4 :: u32) \<le> unat a \<longrightarrow> m' a = ph_example a)
    \<and> (\<forall>i < unat (4 :: u32). \<exists>p \<in> set pages. unat p mod 4096 = 0 \<and> unat p \<le> unat (0x5000 :: u32) + i
        \<and> unat (0x5000 :: u32) + i < unat p + 4096)"
    by (rule load_segment_correct) (simp_all add: v apart_def no_wrap_def word_le_nat_alt)
  then obtain m' pages where r: "load_segment (Suc 2) 0x1000 0x1000 ph_example = Some (m', pages)"
    "\<forall>i < unat (2 :: u32). m' (0x5000 + of_nat i) = ph_example (0x1040 + of_nat i)"
    "\<forall>i. unat (2 :: u32) \<le> i \<and> i < unat (4 :: u32) \<longrightarrow> m' (0x5000 + of_nat i) = 0" by blast
  have "m' 0x5001 = 34" using r(2) v(6) by (auto dest: spec [of _ 1])
  moreover have "m' 0x5003 = 0" using r(3) by (auto dest: spec [of _ 3])
  moreover have "Suc 2 = 3" by simp
  ultimately show ?thesis using r(1) by metis
qed

end
