(* ===== verification/Regions.thy ===== *)
theory Regions
  imports Cstring
begin

text \<open>
  Strings and tables of words in byte-addressed memory, and the lemmas by which an update leaves the
  rest of the memory alone: \<open>same_on\<close> says that two memories agree on an interval of addresses,
  \<open>beside\<close> that a block lies outside of one.
\<close>

subsection \<open>Strings and tables\<close>

text \<open>The string at an address; \<open>None\<close> where \<open>strlen\<close> does not end.\<close>

definition read_str :: "bytes \<Rightarrow> u32 \<Rightarrow> u8 list option" where
  "read_str m p = map_option (\<lambda>n. List.map (\<lambda>i. m (p + of_nat i)) [0..<unat n]) (strlen m p)"

fun put_str :: "u32 \<Rightarrow> u8 list \<Rightarrow> bytes \<Rightarrow> bytes" where
  "put_str p [] m = m(p := 0)"
| "put_str p (x # xs) m = put_str (p + 1) xs (m(p := x))"

fun put_words :: "u32 \<Rightarrow> u32 list \<Rightarrow> bytes \<Rightarrow> bytes" where
  "put_words p [] m = m"
| "put_words p (x # xs) m = put_words (p + 4) xs (wr32 p x m)"

subsection \<open>Regions of memory left alone\<close>

text \<open>Two memories hold the same bytes from \<open>lo\<close> up to \<open>hi\<close>.\<close>

definition same_on :: "nat \<Rightarrow> nat \<Rightarrow> bytes \<Rightarrow> bytes \<Rightarrow> bool" where
  "same_on lo hi m m' \<longleftrightarrow> (\<forall>a. lo \<le> unat a \<and> unat a < hi \<longrightarrow> m' a = m a)"

lemma same_on_refl [simp]: "same_on lo hi m m"
  by (simp add: same_on_def)

lemma same_on_trans [trans]: "same_on lo hi m m' \<Longrightarrow> same_on lo hi m' m'' \<Longrightarrow> same_on lo hi m m''"
  by (auto simp: same_on_def)

lemma same_on_mono: "same_on lo hi m m' \<Longrightarrow> lo \<le> lo' \<Longrightarrow> hi' \<le> hi \<Longrightarrow> same_on lo' hi' m m'"
  by (auto simp: same_on_def)

lemma same_on_at: "same_on lo hi m m' \<Longrightarrow> lo \<le> unat a \<Longrightarrow> unat a < hi \<Longrightarrow> m' a = m a"
  by (simp add: same_on_def)

definition beside :: "nat \<Rightarrow> nat \<Rightarrow> u32 \<Rightarrow> nat \<Rightarrow> bool" where
  "beside lo hi p n \<longleftrightarrow> no_wrap p n \<and> (unat p + n \<le> lo \<or> hi \<le> unat p)"

lemma besideD: "beside lo hi p n \<Longrightarrow> i < n \<Longrightarrow> lo \<le> unat a \<Longrightarrow> unat a < hi \<Longrightarrow> a \<noteq> p + of_nat i"
  using no_wrap_index [of p n i] by (auto simp: beside_def)

lemma beside_less: "beside lo hi p n \<Longrightarrow> k \<le> n \<Longrightarrow> beside lo hi p k"
  by (auto simp: beside_def no_wrap_def)

lemma beside_shift: "beside lo hi p n \<Longrightarrow> i + k \<le> n \<Longrightarrow> beside lo hi (p + of_nat i) k"
  using no_wrap_index [of p n i] by (auto simp: beside_def no_wrap_def)

lemma same_on_upd: "beside lo hi p 1 \<Longrightarrow> same_on lo hi m (m(p := x))"
  using besideD [of lo hi p 1 0] by (auto simp: same_on_def)

lemma wr32_same_on: "beside lo hi p 4 \<Longrightarrow> same_on lo hi m (wr32 p w m)"
  using besideD [of lo hi p 4 0] besideD [of lo hi p 4 1] besideD [of lo hi p 4 2] besideD [of lo hi p 4 3]
  unfolding same_on_def by (intro allI impI wr32_other) auto

lemma rd32_same_on: "same_on lo hi m m' \<Longrightarrow> lo \<le> unat p \<Longrightarrow> unat p + 4 \<le> hi \<Longrightarrow> no_wrap p 4 \<Longrightarrow> rd32 m' p = rd32 m p"
  using no_wrap_index [of p 4 1] no_wrap_index [of p 4 2] no_wrap_index [of p 4 3]
  by (simp add: rd32_def same_on_at)

lemma cstr_same_on:
  "same_on lo hi m m' \<Longrightarrow> lo \<le> unat p \<Longrightarrow> unat p + length xs < hi \<Longrightarrow> no_wrap p (length xs) \<Longrightarrow> cstr m' p xs = cstr m p xs"
  by (rule cstr_frame) (auto intro!: same_on_at simp: no_wrap_index)

lemma put_str_same_on: "beside lo hi p (Suc (length xs)) \<Longrightarrow> same_on lo hi m (put_str p xs m)"
proof (induction xs arbitrary: p m)
  case (Cons x xs)
  have "same_on lo hi m (m(p := x))" using Cons.prems by (intro same_on_upd) (auto elim: beside_less)
  moreover have "beside lo hi (p + 1) (Suc (length xs))" using beside_shift [OF Cons.prems, of 1] by simp
  ultimately show ?case using Cons.IH same_on_trans by (metis put_str.simps(2))
qed (simp add: same_on_upd)

lemma cstr_put_str: "0 \<notin> set xs \<Longrightarrow> no_wrap p (Suc (length xs)) \<Longrightarrow> cstr (put_str p xs m) p xs"
proof (induction xs arbitrary: p m)
  case (Cons x xs)
  have u: "unat (p + 1) = unat p + 1" using Cons.prems(2) by (intro unat_plus1_u32) (simp add: no_wrap_def)
  then have nw: "no_wrap (p + 1) (Suc (length xs))" using Cons.prems(2) by (simp add: no_wrap_def)
  then have "same_on (unat p) (Suc (unat p)) (m(p := x)) (put_str (p + 1) xs (m(p := x)))"
    using u by (intro put_str_same_on) (simp add: beside_def)
  from same_on_at [OF this, of p] have "put_str (p + 1) xs (m(p := x)) p = x" by simp
  then show ?case using Cons.prems(1) Cons.IH [OF _ nw] by simp
qed simp

text \<open>A table of words.\<close>

fun words :: "bytes \<Rightarrow> u32 \<Rightarrow> u32 list \<Rightarrow> bool" where
  "words m p [] \<longleftrightarrow> True"
| "words m p (x # xs) \<longleftrightarrow> rd32 m p = x \<and> words m (p + 4) xs"

lemma put_words_same_on: "beside lo hi p (4 * length xs) \<Longrightarrow> same_on lo hi m (put_words p xs m)"
proof (induction xs arbitrary: p m)
  case (Cons x xs)
  have "same_on lo hi m (wr32 p x m)" using Cons.prems by (intro wr32_same_on) (auto elim: beside_less)
  moreover have "beside lo hi (p + 4) (4 * length xs)" using beside_shift [OF Cons.prems, of 4] by simp
  ultimately show ?case using Cons.IH same_on_trans by (metis put_words.simps(2))
qed simp

lemma words_put_words: "no_wrap p (4 * length xs) \<Longrightarrow> words (put_words p xs m) p xs"
proof (induction xs arbitrary: p m)
  case (Cons x xs)
  have u: "unat (p + 4) = unat p + 4"
    using Cons.prems no_wrap_index [of p "4 * length (x # xs)" 4] by simp
  then have nw: "no_wrap (p + 4) (4 * length xs)" using Cons.prems by (simp add: no_wrap_def)
  then have "same_on (unat p) (unat p + 4) (wr32 p x m) (put_words (p + 4) xs (wr32 p x m))"
    using u by (intro put_words_same_on) (simp add: beside_def)
  then have "rd32 (put_words (p + 4) xs (wr32 p x m)) p = x"
    using rd32_same_on [of "unat p" "unat p + 4"] Cons.prems by (auto simp: no_wrap_def)
  then show ?case using Cons.IH [OF nw] by simp
qed simp

lemma words_nth: "words m p xs \<Longrightarrow> i < length xs \<Longrightarrow> rd32 m (p + 4 * of_nat i) = xs ! i"
proof (induction xs arbitrary: p i)
  case (Cons x xs)
  show ?case
  proof (cases i)
    case 0
    then show ?thesis using Cons.prems by simp
  next
    case (Suc j)
    then have "rd32 m (p + 4 + 4 * of_nat j) = xs ! j" using Cons.prems by (intro Cons.IH) auto
    then show ?thesis using Suc by (simp add: algebra_simps)
  qed
qed simp

lemma rd32_slot_same_on:
  assumes "same_on lo hi m m'" "i < k" "lo \<le> unat tab" "unat tab + 4 * k \<le> hi" "no_wrap tab (4 * k)"
  shows "rd32 m' (tab + 4 * of_nat i) = rd32 m (tab + 4 * of_nat i)"
proof -
  have "unat (tab + of_nat (4 * i)) = unat tab + 4 * i" using assms(2,5) by (intro no_wrap_index [of tab "4 * k"]) simp_all
  then have u: "unat (tab + 4 * of_nat i) = unat tab + 4 * i" by simp
  have nw: "no_wrap (tab + 4 * of_nat i) 4" using assms(2,5) u by (simp add: no_wrap_def)
  show ?thesis using assms u nw by (intro rd32_same_on [of lo hi]) simp_all
qed

text \<open>Everything below \<open>lo\<close> is as it was.\<close>

definition below :: "nat \<Rightarrow> bytes \<Rightarrow> bytes \<Rightarrow> bool" where
  "below lo m m' \<longleftrightarrow> (\<forall>a. unat a < lo \<longrightarrow> m' a = m a)"

lemma below_same_on: "below hi m m' \<Longrightarrow> same_on lo hi m m'"
  by (simp add: below_def same_on_def)

lemma below_trans: "below lo m m' \<Longrightarrow> below lo' m' m'' \<Longrightarrow> lo \<le> lo' \<Longrightarrow> below lo m m''"
  by (simp add: below_def)

lemma below_upd: "lo \<le> unat p \<Longrightarrow> below lo m (m(p := x))"
  by (auto simp: below_def)

lemma below_wr32: "lo \<le> unat p \<Longrightarrow> no_wrap p 4 \<Longrightarrow> below lo m (wr32 p x m)"
  using wr32_same_on [of 0 lo p m x] by (simp add: below_def same_on_def beside_def)

lemma below_copy_up:
  assumes "lo \<le> unat p" "no_wrap p n"
  shows "below lo m (copy_up p q n m)"
  using assms
proof (induction n arbitrary: m)
  case (Suc n)
  have "unat (p + of_nat n) = unat p + n" using no_wrap_index [OF Suc.prems(2), of n] by simp
  moreover have "below lo m (copy_up p q n m)" using Suc by (simp add: no_wrap_def)
  ultimately show ?case using Suc.prems(1) by (auto simp: copy_up_Suc below_def)
qed (simp add: copy_up_def below_def)

text \<open>A terminated string is read back.\<close>

lemma read_str_cstr: "cstr m p xs \<Longrightarrow> length xs < 4294967296 \<Longrightarrow> read_str m p = Some xs"
proof -
  assume c: "cstr m p xs" and l: "length xs < 4294967296"
  have "m (p + of_nat i) = xs ! i" if "i < length xs" for i
    using c that
  proof (induction xs arbitrary: p i)
    case (Cons x xs)
    show ?case
    proof (cases i)
      case (Suc j)
      then have "m (p + 1 + of_nat j) = xs ! j" using Cons.prems by (intro Cons.IH) auto
      then show ?thesis using Suc by (simp add: algebra_simps)
    qed (use Cons.prems in simp)
  qed simp
  then have "List.map (\<lambda>i. m (p + of_nat i)) [0..<length xs] = xs" by (auto intro: nth_equalityI)
  then show ?thesis using l by (simp add: read_str_def strlen_cstr [OF c] unat_of_nat_u32)
qed

end
