(* ===== verification/Tar.thy ===== *)
theory Tar
  imports Vfs Regions
begin

text \<open>
  The read-only file system of the boot ramdisk, \<open>os/kernel/fs/tar.c\<close>, on the state of theory Vfs:
  the archives lie in memory where the boot loader put them, \<open>modules\<close> lists their addresses
  (\<open>module_ramdisk_get\<close>). Mounting strips the path from the file names inside the archive, collects the
  addresses of the headers in a table, and enlarges that table for each file. A header is 100 bytes of
  file name, with the size as octal digits from byte 124 on; the data begins 512 bytes behind it.
  Temporary strings of the path helpers are values, as in theory Vfs.
\<close>

subsection \<open>Headers\<close>

text \<open>The digits are read from the right, \<open>count\<close> being the weight of the one at hand.\<close>

fun getsize_loop :: "bytes \<Rightarrow> u32 \<Rightarrow> nat \<Rightarrow> u32 \<Rightarrow> u32 \<Rightarrow> u32" where
  "getsize_loop m in' 0 cnt sz = sz"
| "getsize_loop m in' (Suc j) cnt sz =
     getsize_loop m in' j (cnt * 8) (sz + (scast (m (in' + of_nat j)) - 48) * cnt)"

definition getsize :: "bytes \<Rightarrow> u32 \<Rightarrow> u32" where
  "getsize m in' = getsize_loop m in' 11 1 0"

definition tar_header_size :: "bytes \<Rightarrow> u32 \<Rightarrow> u32" where
  "tar_header_size m hdr = getsize m (hdr + 124)"

definition tar_header2node :: "u16 \<Rightarrow> u32 \<Rightarrow> vfs \<Rightarrow> (u32 \<times> vfs) res option" where
  "tar_header2node tarfs_id hdr s =
     (case allocate_fs_node s of
        Inl e \<Rightarrow> Some (Inl e)
      | Inr (p, s) \<Rightarrow>
         (case read_str (mem s) hdr of
            None \<Rightarrow> None
          | Some nm \<Rightarrow> Some (if length nm > 64 then Inl Wild
              else sbind (get_node p s) (\<lambda>n.
                Inr (p, set_node p (n\<lparr>nsize := tar_header_size (mem s) hdr, nname := nm, inode := hdr,
                  fsid := tarfs_id, nflags := 0\<rparr>) s)))))"

subsection \<open>Mounting\<close>

text \<open>The table of header addresses lies in a heap block. \<open>krealloc\<close> hands out a new block and copies
  the old one.\<close>

definition stride :: "u32 \<Rightarrow> u32" where
  "stride sz = (sz div 512 + 1) * 512 + (if sz mod 512 \<noteq> 0 then 512 else 0)"

text \<open>The scan of one archive: the block of the table, the headers found so far, the state.\<close>

fun tar_scan :: "nat \<Rightarrow> u32 \<Rightarrow> u32 \<Rightarrow> u32 list \<Rightarrow> vfs \<Rightarrow> (u32 \<times> u32 list \<times> vfs) res option" where
  "tar_scan 0 address tab hdrs s = None"
| "tar_scan (Suc k) address tab hdrs s =
     (if mem s address = 0 then Some (Inr (tab, hdrs, s))
      else case read_str (mem s) address of
        None \<Rightarrow> None
      | Some nm \<Rightarrow>
          res_bind (Some (canonize_absolute nm)) (\<lambda>path.
            let m = put_str address (path_block path (path_size path - 1)) (mem s);
                sz = getsize m (address + 124);
                m = wr32 (tab + 4 * of_nat (length hdrs)) address m;
                hdrs = hdrs @ [address]
            in res_bind (Some (Vfs.kalloc (s\<lparr>mem := m\<rparr>))) (\<lambda>(tab, s).
                 tar_scan k (address + stride sz) tab hdrs (s\<lparr>mem := put_words tab hdrs (mem s)\<rparr>))))"

fun tar_scan_all :: "nat \<Rightarrow> u32 list \<Rightarrow> u32 \<Rightarrow> u32 list \<Rightarrow> vfs \<Rightarrow> (u32 \<times> u32 list \<times> vfs) res option" where
  "tar_scan_all k [] tab hdrs s = Some (Inr (tab, hdrs, s))"
| "tar_scan_all k (a # as) tab hdrs s =
     res_bind (tar_scan k a tab hdrs s) (\<lambda>(tab, hdrs, s). tar_scan_all k as tab hdrs s)"

definition tar_mount :: "nat \<Rightarrow> u32 list \<Rightarrow> u32 \<Rightarrow> u32 \<Rightarrow> vfs \<Rightarrow> (u32 \<times> vfs) res option" where
  "tar_mount k modules rt dev s =
     res_bind (Some (Vfs.kalloc s)) (\<lambda>(tab, s).
     res_bind (tar_scan_all k modules tab [] s) (\<lambda>(tab, hdrs, s).
       Some (sbind (get_node rt s) (\<lambda>n.
         Inr (rt, set_node rt (n\<lparr>inode := tab, nsize := of_nat (length hdrs) - 1\<rparr>) s)))))"

definition tar_umount :: "u32 \<Rightarrow> vfs \<Rightarrow> (u8 \<times> vfs) res" where
  "tar_umount rt s = Inr (1, s)"

subsection \<open>Reading and lookup\<close>

definition tar_read :: "u32 \<Rightarrow> u64 \<Rightarrow> u32 \<Rightarrow> u32 \<Rightarrow> vfs \<Rightarrow> (u32 \<times> vfs) res" where
  "tar_read node offset sz buffer s =
     sbind (get_node node s) (\<lambda>n.
       if vfs_check_flag (nflags n) VFS_MOUNTPOINT \<noteq> 0 then
         (if offset + 1 > ucast (nsize n) then Inr (0, s)
          else Inr (sz, s\<lparr>mem := wr32 buffer (rd32 (mem s) (inode n + 4 * ucast (offset + 1))) (mem s)\<rparr>))
       else if offset + ucast sz > ucast (nsize n) then Inr (0, s)
       else Inr (sz, copy_mem buffer (inode n + ucast offset + 512) sz s))"

text \<open>A name is compared by \<^const>\<open>cstr\<close>, which holds when \<open>strcmp\<close> returns zero.\<close>

fun tar_find :: "bytes \<Rightarrow> u32 \<Rightarrow> cstring \<Rightarrow> u32 \<Rightarrow> nat \<Rightarrow> u32 option" where
  "tar_find m tab nm i 0 = None"
| "tar_find m tab nm i (Suc k) =
     (if cstr m (rd32 m (tab + 4 * i)) nm then Some (rd32 m (tab + 4 * i)) else tar_find m tab nm (i + 1) k)"

definition tar_seek :: "u16 \<Rightarrow> cstring \<Rightarrow> u32 \<Rightarrow> vfs \<Rightarrow> (u32 \<times> vfs) res option" where
  "tar_seek tarfs_id nm rt s =
     (if nm = [114, 97, 109, 100, 105, 115, 107] then Some (Inr (0, s))
      else res_bind (Some (get_node rt s)) (\<lambda>n.
        case tar_find (mem s) (inode n) nm 0 (unat (nsize n)) of
          None \<Rightarrow> Some (Inr (0, s))
        | Some hdr \<Rightarrow> tar_header2node tarfs_id hdr s))"

text \<open>Registration. The operations of a file system that may not end are taken with their fuel, which
  running out of counts as a fault.\<close>

definition settled :: "'a res option \<Rightarrow> 'a res" where
  "settled r = (case r of None \<Rightarrow> Inl Wild | Some x \<Rightarrow> x)"

definition tar_fs :: "nat \<Rightarrow> u32 list \<Rightarrow> u16 \<Rightarrow> fs" where
  "tar_fs k modules tarfs_id =
     \<lparr>fs_name = [116, 97, 114], fmount = Some (\<lambda>rt dev s. settled (tar_mount k modules rt dev s)), fumount = None,
      fread = Some tar_read, fwrite = None, fseek = Some (\<lambda>nm rt s. settled (tar_seek tarfs_id nm rt s)),
      fcreate = None, freaddir = None, fremove = None, fioctl = None\<rparr>"

definition init_tar :: "nat \<Rightarrow> u32 list \<Rightarrow> fstab \<Rightarrow> vfs \<Rightarrow> (u16 \<times> fstab \<times> vfs) res" where
  "init_tar k modules t s =
     sbind (Vfs.kalloc s) (\<lambda>(_, s).
     sbind (register_fs (Some (tar_fs k modules (fsidx t))) t) (\<lambda>(i, t). Inr (i, t, s)))"

subsection \<open>Archives\<close>

text \<open>A file of an archive: its name as stored, the components of that name, and its size.\<close>

type_synonym member = "cstring \<times> cstring list \<times> u32"

definition member_ok :: "bytes \<Rightarrow> u32 \<Rightarrow> member \<Rightarrow> bool" where
  "member_ok m a f = (case f of (nm, cs, sz) \<Rightarrow>
     nm \<noteq> [] \<and> cstr m a nm \<and> length nm < 100 \<and> canonize_absolute nm = Inr (path_of cs) \<and> cs \<noteq> []
     \<and> plain_names cs \<and> tar_header_size m a = sz \<and> unat sz < 4294966000 \<and> last cs \<noteq> [])"

fun archive :: "bytes \<Rightarrow> u32 \<Rightarrow> member list \<Rightarrow> bool" where
  "archive m a [] \<longleftrightarrow> m a = 0"
| "archive m a (f # fs) \<longleftrightarrow> member_ok m a f \<and> archive m (a + stride (snd (snd f))) fs"

fun extent :: "member list \<Rightarrow> nat" where
  "extent [] = 1"
| "extent (f # fs) = unat (stride (snd (snd f))) + extent fs"

fun addresses :: "u32 \<Rightarrow> member list \<Rightarrow> u32 list" where
  "addresses a [] = []"
| "addresses a (f # fs) = a # addresses (a + stride (snd (snd f))) fs"

text \<open>Mounting leaves the last component of each name.\<close>

definition mounted :: "member \<Rightarrow> member" where
  "mounted f = (case f of (nm, cs, sz) \<Rightarrow> (last cs, [last cs], sz))"

lemma length_addresses [simp]: "length (addresses a fs) = length fs"
  by (induction fs arbitrary: a) auto

lemma snd_snd_mounted [simp]: "snd (snd (mounted f)) = snd (snd f)"
  by (cases f) (simp add: mounted_def)

lemma addresses_mounted [simp]: "addresses a (List.map mounted fs) = addresses a fs"
  by (induction fs arbitrary: a) auto

lemma extent_pos: "1 \<le> extent fs"
  by (induction fs) auto

lemma stride_big: "unat sz < 4294966000 \<Longrightarrow> 512 \<le> unat (stride sz)"
proof -
  assume s: "unat sz < 4294966000"
  have d: "unat (sz div 512) = unat sz div 512" by (simp add: unat_div)
  then have q: "unat (sz div 512) + 1 < 4294967296" by (simp only: d) (use s in linarith)
  have q1: "unat (sz div 512 + 1) = unat sz div 512 + 1" using unat_plus1_u32 [OF q] d by simp
  have "unat ((sz div 512 + 1) * 512) = (unat sz div 512 + 1) * 512"
  proof -
    have "unat (sz div 512 + 1) * unat (512 :: u32) < 4294967296" unfolding q1 using s by simp
    then show ?thesis using q1 by (subst unat_mult_lem [THEN iffD1]) simp_all
  qed
  moreover have "unat ((sz div 512 + 1) * 512) + 512 < 4294967296" unfolding calculation
    using s div_times_less_eq_dividend [of "unat sz" 512] unfolding add_mult_distrib by linarith
  ultimately show ?thesis by (simp add: stride_def unat_plus_u32)
qed

lemma getsize_same_on:
  assumes "same_on lo hi m m'" "lo \<le> unat p" "unat p + 11 \<le> hi" "no_wrap p 11"
  shows "getsize m' p = getsize m p"
proof -
  have "j \<le> 11 \<Longrightarrow> getsize_loop m' p j c z = getsize_loop m p j c z" for j c z
  proof (induction j arbitrary: c z)
    case (Suc j)
    have "unat (p + of_nat j) = unat p + j" using assms(4) Suc.prems by (simp add: no_wrap_index)
    then have "m' (p + of_nat j) = m (p + of_nat j)" using assms Suc.prems by (intro same_on_at) auto
    then show ?case using Suc by simp
  qed simp
  then show ?thesis by (simp add: getsize_def)
qed

lemma member_same_on:
  assumes "same_on (unat a) (unat a + 512) m m'" "no_wrap a 512"
  shows "member_ok m' a f = member_ok m a f"
proof -
  obtain nm cs sz where f: "f = (nm, cs, sz)" by (cases f)
  have "cstr m' a nm = cstr m a nm" if "length nm < 100"
    using assms that by (intro cstr_same_on) (auto simp: no_wrap_def)
  moreover have "tar_header_size m' a = tar_header_size m a"
  proof -
    have "unat (a + 124) = unat a + 124" using no_wrap_index [OF assms(2), of 124] by simp
    then show ?thesis unfolding tar_header_size_def using assms
      by (intro getsize_same_on) (auto simp: no_wrap_def)
  qed
  ultimately show ?thesis unfolding f member_ok_def by auto
qed

lemma next_member:
  assumes "member_ok m a f" "unat a + extent (f # fs) < 4294967296"
  shows "unat (a + stride (snd (snd f))) = unat a + unat (stride (snd (snd f)))"
    "512 \<le> unat (stride (snd (snd f)))" "no_wrap a 512"
proof -
  show s: "512 \<le> unat (stride (snd (snd f)))" using assms(1) by (cases f) (auto simp: member_ok_def intro: stride_big)
  show "unat (a + stride (snd (snd f))) = unat a + unat (stride (snd (snd f)))"
    using assms(2) by (intro unat_plus_u32) simp
  show "no_wrap a 512" using assms(2) s by (simp add: no_wrap_def)
qed

lemma archive_same_on:
  "archive m a fs \<Longrightarrow> same_on (unat a) (unat a + extent fs) m m' \<Longrightarrow> unat a + extent fs < 4294967296 \<Longrightarrow> archive m' a fs"
proof (induction fs arbitrary: a)
  case Nil
  then show ?case using same_on_at [of "unat a" "Suc (unat a)" m m' a] by simp
next
  case (Cons f fs)
  have ok: "member_ok m a f" using Cons.prems(1) by simp
  note n = next_member [OF ok Cons.prems(3)]
  have "same_on (unat a) (unat a + 512) m m'" using Cons.prems(2) by (rule same_on_mono) (use n(2) in auto)
  then have "member_ok m' a f" using member_same_on n(3) ok by blast
  moreover have "archive m' (a + stride (snd (snd f))) fs"
    using Cons.prems n(1) by (intro Cons.IH) (auto elim: same_on_mono)
  ultimately show ?case by simp
qed

text \<open>The last component fits where the name was.\<close>

lemma last_component:
  assumes "canonize_absolute nm = Inr (path_of cs)" "cs \<noteq> []" "plain_names cs"
  shows "path_block (path_of cs) (path_size (path_of cs) - 1) = last cs" "length (last cs) \<le> length nm"
    "set (last cs) \<subseteq> set nm"
proof -
  have l: "path_size (path_of cs) - 1 = of_nat (length cs - 1)"
    unfolding path_size_path_of [OF assms(3)] using assms(2) by (cases cs) simp_all
  show "path_block (path_of cs) (path_size (path_of cs) - 1) = last cs"
    unfolding l using assms by (simp add: path_block_path_of last_conv_nth)
  obtain ds c where cs: "cs = ds @ [c]" using assms(2) by (metis append_butlast_last_id)
  have p: "path_of cs = path_of ds @ c @ [slash]" unfolding cs by (rule path_of_snoc)
  have e: "path_of cs = (if hd nm \<noteq> slash then [slash] else []) @ nm @ (if last nm \<noteq> slash then [slash] else [])"
    using assms(1) by (simp add: canonize_absolute_def split: if_splits)
  have "length (path_of cs) \<le> length nm + 2" unfolding e by simp
  moreover have "1 \<le> length (path_of ds)" by (simp add: path_of_def)
  ultimately show "length (last cs) \<le> length nm" unfolding p by (simp add: cs)
  have "slash \<notin> set c" using assms(3) by (simp add: cs plain_names_def)
  moreover have "set c \<subseteq> set nm \<union> {slash}" using arg_cong [OF e, of set] unfolding p by (auto split: if_splits)
  ultimately show "set (last cs) \<subseteq> set nm" unfolding cs by auto
qed


subsection \<open>Mounting finds every file\<close>

text \<open>What a mount needs of the heap: blocks beside the archives and large enough for the table.\<close>

definition tables_ok :: "nat \<Rightarrow> nat \<Rightarrow> nat \<Rightarrow> u32 list \<Rightarrow> bool" where
  "tables_ok lo hi n ps \<longleftrightarrow> list_all (\<lambda>p. beside lo hi p (4 * n)) ps"

lemma tar_scan_archive:
  "archive (mem s) a fs \<Longrightarrow> unat a + extent fs < 4294967296 \<Longrightarrow> words (mem s) tab hs \<Longrightarrow>
    length fs \<le> length (avail s) \<Longrightarrow>
    tables_ok (unat a) (unat a + extent fs) (Suc (length hs + length fs)) (tab # take (length fs) (avail s)) \<Longrightarrow>
    length fs < k \<Longrightarrow>
    \<exists>tab' m'. tar_scan k a tab hs s = Some (Inr (tab', hs @ addresses a fs, s\<lparr>avail := drop (length fs) (avail s), mem := m'\<rparr>))
      \<and> words m' tab' (hs @ addresses a fs) \<and> archive m' a (List.map mounted fs)
      \<and> (\<forall>lo hi. lo \<le> hi \<and> hi \<le> unat a \<and> list_all (\<lambda>p. beside lo hi p (4 * Suc (length hs + length fs))) (tab # take (length fs) (avail s))
          \<longrightarrow> same_on lo hi (mem s) m')"
proof (induction fs arbitrary: a tab hs s k)
  case Nil
  then obtain j where "k = Suc j" by (cases k) auto
  then show ?case using Nil.prems by (intro exI [of _ tab] exI [of _ "mem s"]) simp
next
  case (Cons f fs)
  obtain nm cs sz where f: "f = (nm, cs, sz)" by (cases f)
  obtain j where k: "k = Suc j" using Cons.prems(6) by (cases k) auto
  obtain q qs where av: "avail s = q # qs" using Cons.prems(4) by (cases "avail s") auto
  have ok: "member_ok (mem s) a f" using Cons.prems(1) by simp
  note n = next_member [OF ok Cons.prems(2), unfolded f snd_conv]
  have mo: "nm \<noteq> []" "cstr (mem s) a nm" "length nm < 100" "canonize_absolute nm = Inr (path_of cs)"
      "cs \<noteq> []" "plain_names cs" "tar_header_size (mem s) a = sz" "unat sz < 4294966000" "last cs \<noteq> []"
    using ok unfolding f member_ok_def by simp_all
  let ?N = "Suc (length hs + length (f # fs))" and ?lo = "unat a" and ?hi = "unat a + extent (f # fs)" and ?b = "a + stride sz"
  have tabs: "beside ?lo ?hi tab (4 * ?N)" "beside ?lo ?hi q (4 * ?N)"
    using Cons.prems(5) by (simp_all add: tables_ok_def av)
  note lc = last_component [OF mo(4,5,6)]
  define m1 where "m1 = put_str a (last cs) (mem s)"
  define m2 where "m2 = wr32 (tab + 4 * of_nat (length hs)) a m1"
  define m3 where "m3 = put_words q (hs @ [a]) m2"
  have ne: "mem s a \<noteq> 0" using mo(1,2) by (cases nm) auto
  have rs: "read_str (mem s) a = Some nm" using mo(2,3) by (intro read_str_cstr) auto
  have t4: "beside lo hi p (4 * ?N) \<Longrightarrow> beside lo hi (p + 4 * of_nat (length hs)) 4" for lo hi p
    using beside_shift [of lo hi p "4 * ?N" "4 * length hs" 4] by simp
  have b12: "same_on lo hi m1 m2" if "beside lo hi tab (4 * ?N)" for lo hi
    unfolding m2_def using t4 [OF that] by (rule wr32_same_on)
  have b23: "same_on lo hi m2 m3" if "beside lo hi q (4 * ?N)" for lo hi
    unfolding m3_def using that by (intro put_words_same_on) (auto elim: beside_less)
  have b01: "same_on lo hi (mem s) m1" if "beside lo hi a 100" for lo hi
    unfolding m1_def using that lc(2) mo(3) by (intro put_str_same_on) (auto elim: beside_less)
  have in13: "same_on ?lo ?hi m1 m3" using b12 [OF tabs(1)] b23 [OF tabs(2)] by (rule same_on_trans)
  have far: "beside (unat a + 100) ?hi a 100" using n(3) by (simp add: beside_def no_wrap_def)
  have sz1: "getsize m1 (a + 124) = sz"
  proof -
    have "unat (a + 124) = unat a + 124" using no_wrap_index [OF n(3), of 124] by simp
    then have "getsize m1 (a + 124) = getsize (mem s) (a + 124)"
      using b01 [OF far] n(2,3) extent_pos [of fs] by (intro getsize_same_on) (auto simp: no_wrap_def f)
    then show ?thesis using mo(7) by (simp add: tar_header_size_def)
  qed
  have step: "tar_scan k a tab hs s = tar_scan j ?b q (hs @ [a]) (s\<lparr>avail := qs, mem := m3\<rparr>)"
    using ne rs mo(4) lc(1) sz1 by (simp add: k Let_def m1_def [symmetric] m2_def [symmetric] m3_def Vfs.kalloc_def av)
  have tail: "archive m3 ?b fs"
  proof -
    have "same_on (unat ?b) (unat ?b + extent fs) (mem s) m3"
      using same_on_trans [OF b01 [OF far] same_on_mono [OF in13]] n(1,2) by (auto elim: same_on_mono simp: f)
    moreover have "unat ?b + extent fs < 4294967296" using Cons.prems(2) n(1) by (simp add: f)
    moreover have "archive (mem s) ?b fs" using Cons.prems(1) by (simp add: f)
    ultimately show ?thesis by (rule archive_same_on [rotated])
  qed
  have w3: "words m3 q (hs @ [a])"
    unfolding m3_def using tabs(2) by (intro words_put_words) (simp add: beside_def no_wrap_def)
  have hi: "unat ?b + extent fs = ?hi" using n(1) by (simp add: f)
  have sub: "beside (unat ?b) (unat ?b + extent fs) p (4 * ?N)" if "beside ?lo ?hi p (4 * ?N)" for p
    using that n(1) unfolding hi by (auto simp: beside_def)
  have "tables_ok (unat ?b) (unat ?b + extent fs) (Suc (length (hs @ [a]) + length fs)) (q # take (length fs) qs)"
    using Cons.prems(5) sub by (auto simp: tables_ok_def av list_all_iff)
  with Cons.IH [of "s\<lparr>avail := qs, mem := m3\<rparr>" ?b q "hs @ [a]" j] tail w3 Cons.prems(2,4,6)
  obtain tab' m' where r: "tar_scan j ?b q (hs @ [a]) (s\<lparr>avail := qs, mem := m3\<rparr>)
      = Some (Inr (tab', (hs @ [a]) @ addresses ?b fs, s\<lparr>avail := drop (length fs) qs, mem := m'\<rparr>))"
      "words m' tab' ((hs @ [a]) @ addresses ?b fs)" "archive m' ?b (List.map mounted fs)"
      "\<forall>lo hi. lo \<le> hi \<and> hi \<le> unat ?b \<and> list_all (\<lambda>p. beside lo hi p (4 * ?N)) (q # take (length fs) qs) \<longrightarrow> same_on lo hi m3 m'"
    by (auto simp: av k hi)
  have keep: "same_on lo h (mem s) m'"
    if h: "lo \<le> h" "h \<le> unat a" "list_all (\<lambda>p. beside lo h p (4 * ?N)) (tab # take (length (f # fs)) (avail s))" for lo h
  proof -
    have "beside lo h a 100" using h(2) n(2,3) by (simp add: beside_def no_wrap_def)
    then have "same_on lo h (mem s) m1" by (rule b01)
    also have "same_on lo h m1 m2" using h(3) by (intro b12) simp
    also have "same_on lo h m2 m3" using h(3) by (intro b23) (simp add: av)
    also have "same_on lo h m3 m'" using r(4) h n(1) by (auto simp: av)
    finally show ?thesis .
  qed
  have fit: "length (last cs) \<le> length nm" "length (last cs) < 100" using lc(2) mo(3) by simp_all
  have whole: "same_on ?lo (unat a + 512) m1 m'"
  proof -
    have "list_all (\<lambda>p. beside ?lo (unat a + 512) p (4 * ?N)) (q # take (length fs) qs)"
      using Cons.prems(5) n(2) extent_pos [of fs] by (auto simp: tables_ok_def av list_all_iff beside_def f)
    then have "same_on ?lo (unat a + 512) m3 m'" using r(4) n(1,2) by auto
    moreover have "same_on ?lo (unat a + 512) m1 m3" using in13 n(2) by (auto elim: same_on_mono simp: f)
    ultimately show ?thesis by (rule same_on_trans [rotated])
  qed
  have ok1: "member_ok m1 a (mounted f)"
  proof -
    have "cstr m1 a (last cs)" unfolding m1_def
      using fit(2) n(3) cstr_nonzero [OF mo(2)] lc(3) by (intro cstr_put_str) (auto simp: no_wrap_def)
    moreover have "slash \<notin> set (last cs)" using mo(5,6) by (simp add: plain_names_def)
    moreover have "last cs \<noteq> []" using mo(9) .
    moreover have "hd (last cs) \<noteq> slash" "last (last cs) \<noteq> slash" using calculation(2,3) hd_in_set last_in_set by metis+
    ultimately show ?thesis using sz1 mo(8) fit(2)
      by (auto simp: mounted_def f member_ok_def tar_header_size_def plain_names_def canonize_absolute_def)
  qed
  then have "member_ok m' a (mounted f)" using member_same_on [OF whole n(3)] by simp
  then show ?case using step r(1,2,3) keep by (intro exI [of _ tab'] exI [of _ m']) (simp add: f av)
qed

lemma extent_length:
  "archive m a fs \<Longrightarrow> unat a + extent fs < 4294967296 \<Longrightarrow> 512 * length fs < extent fs"
proof (induction fs arbitrary: a)
  case (Cons f fs)
  have ok: "member_ok m a f" using Cons.prems(1) by simp
  note n = next_member [OF ok Cons.prems(2)]
  have "512 * length fs < extent fs" using Cons.prems n(1) by (intro Cons.IH [of "a + stride (snd (snd f))"]) auto
  then show ?case using n(2) by simp
qed simp

text \<open>C33: mounting the ramdisk finds every file. For an archive of \<open>n\<close> files laid out one behind the
  other from \<open>a\<close> on, with heap blocks beside it for the table, the mount returns; the root then points
  to a table of the \<open>n\<close> header addresses, and the archive still holds the same files at the same places
  with each name cut down to its last component. The size of the root becomes \<open>n - 1\<close>.\<close>

theorem tar_mount_indexes:
  assumes "archive (mem s) a fs" "unat a + extent fs < 4294967296" "avail s = tab # ps" "length fs \<le> length ps"
    "tables_ok (unat a) (unat a + extent fs) (Suc (length fs)) (tab # take (length fs) ps)" "length fs < k"
    "nodes s rt = Some n"
  shows "\<exists>tab' s'. tar_mount k [a] rt dev s = Some (Inr (rt, s')) \<and> words (mem s') tab' (addresses a fs)
     \<and> archive (mem s') a (List.map mounted fs)
     \<and> nodes s' = (nodes s)(rt \<mapsto> n\<lparr>inode := tab', nsize := of_nat (length fs) - 1\<rparr>)"
proof -
  have "\<exists>tab' m'. tar_scan k a tab [] (s\<lparr>avail := ps\<rparr>)
      = Some (Inr (tab', [] @ addresses a fs, s\<lparr>avail := ps\<rparr>\<lparr>avail := drop (length fs) (avail (s\<lparr>avail := ps\<rparr>)), mem := m'\<rparr>))
      \<and> words m' tab' ([] @ addresses a fs) \<and> archive m' a (List.map mounted fs)
      \<and> (\<forall>lo hi. lo \<le> hi \<and> hi \<le> unat a \<and> list_all (\<lambda>p. beside lo hi p (4 * Suc (length ([] :: u32 list) + length fs)))
          (tab # take (length fs) (avail (s\<lparr>avail := ps\<rparr>))) \<longrightarrow> same_on lo hi (mem (s\<lparr>avail := ps\<rparr>)) m')"
    by (rule tar_scan_archive) (use assms in simp_all)
  then obtain tab' m' where "tar_scan k a tab [] (s\<lparr>avail := ps\<rparr>)
      = Some (Inr (tab', addresses a fs, s\<lparr>avail := drop (length fs) ps, mem := m'\<rparr>))"
      "words m' tab' (addresses a fs)" "archive m' a (List.map mounted fs)" by auto
  then show ?thesis using assms(3,7)
    by (intro exI [of _ tab'] exI [of _ "set_node rt (n\<lparr>inode := tab', nsize := of_nat (length fs) - 1\<rparr>)
        (s\<lparr>avail := drop (length fs) ps, mem := m'\<rparr>)"]) (simp add: tar_mount_def Vfs.kalloc_def get_node_def)
qed

subsection \<open>Lookup in a mounted archive\<close>

lemma member_at:
  "archive m a fs \<Longrightarrow> i < length fs \<Longrightarrow> member_ok m (addresses a fs ! i) (fs ! i)"
  by (induction fs arbitrary: a i) (auto simp: nth_Cons split: nat.split)

lemma cstr_unique: "cstr m p xs \<Longrightarrow> cstr m p ys \<Longrightarrow> xs = ys"
proof (induction xs arbitrary: p ys)
  case Nil
  then show ?case by (cases ys) auto
next
  case (Cons x xs)
  then show ?case by (cases ys) auto
qed

text \<open>The first header from index \<open>i\<close> on with the name.\<close>

lemma tar_find_scan:
  assumes "\<And>j. j < k \<Longrightarrow> cstr m (rd32 m (tab + 4 * (of_nat i + of_nat j))) nm = (j = d)" "d < k"
  shows "tar_find m tab nm (of_nat i) k = Some (rd32 m (tab + 4 * (of_nat i + of_nat d)))"
  using assms
proof (induction k arbitrary: i d)
  case (Suc k)
  show ?case
  proof (cases d)
    case 0
    then show ?thesis using Suc.prems(1) [of 0] by simp
  next
    case (Suc e)
    have n: "\<not> cstr m (rd32 m (tab + 4 * of_nat i)) nm" using Suc.prems(1) [of 0] Suc by simp
    have "tar_find m tab nm (of_nat (Suc i)) k = Some (rd32 m (tab + 4 * (of_nat (Suc i) + of_nat e)))"
    proof (rule Suc.IH)
      show "cstr m (rd32 m (tab + 4 * (of_nat (Suc i) + of_nat j))) nm = (j = e)" if "j < k" for j
        using Suc.prems(1) [of "Suc j"] that Suc by (simp add: algebra_simps)
    qed (use Suc Suc.prems(2) in simp)
    then show ?thesis using n Suc by (simp add: algebra_simps)
  qed
qed simp

lemma tar_find_none:
  "(\<And>j. j < k \<Longrightarrow> \<not> cstr m (rd32 m (tab + 4 * (i + of_nat j))) nm) \<Longrightarrow> tar_find m tab nm i k = None"
proof (induction k arbitrary: i)
  case (Suc k)
  have "tar_find m tab nm (i + 1) k = None"
    by (rule Suc.IH) (use Suc.prems [of "Suc _"] in \<open>simp add: algebra_simps\<close>)
  then show ?case using Suc.prems [of 0] by simp
qed simp

text \<open>A mounted archive shows all of its files but the last. Looking up the name of the \<open>i\<close>-th file
  gives a new node for it, with its size and the address of its header, unless it is the last file, which
  is not found: the size that the mount stores in the root is one less than the number of files.\<close>

theorem tar_seek_all_but_last:
  assumes arch: "archive (mem s) a fs" "unat a + extent fs < 4294967296" "words (mem s) tab (addresses a fs)"
    and rt: "nodes s rt = Some n" "inode n = tab" "nsize n = of_nat (length fs) - 1"
    and nm: "distinct (List.map fst fs)" "i < length fs" "nm = fst (fs ! i)" "length nm \<le> 64"
      "nm \<noteq> [114, 97, 109, 100, 105, 115, 107]"
    and av: "avail s = p # e # ps"
  shows "if Suc i = length fs then tar_seek fid nm rt s = Some (Inr (0, s))
    else \<exists>x s'. tar_seek fid nm rt s = Some (Inr (p, s')) \<and> nodes s' p = Some x \<and> nname x = nm
      \<and> inode x = addresses a fs ! i \<and> nsize x = snd (snd (fs ! i)) \<and> fsid x = fid \<and> nflags x = 0"
proof -
  have big: "length fs < 4294967296" "fs \<noteq> []" using extent_length [OF arch(1,2)] arch(2) nm(2) by auto
  then have "(of_nat (length fs) :: u32) - 1 = of_nat (length fs - 1)" by (cases fs) simp_all
  then have sz: "unat (nsize n) = length fs - 1" using rt(3) big by (simp add: unat_of_nat_u32)
  have at: "rd32 (mem s) (tab + 4 * of_nat j) = addresses a fs ! j" if "j < length fs" for j
    using words_nth [OF arch(3)] that by simp
  have has: "cstr (mem s) (addresses a fs ! j) nm = (j = i)" if "j < length fs" for j
  proof -
    have "cstr (mem s) (addresses a fs ! j) (fst (fs ! j))"
      using member_at [OF arch(1) that] by (simp add: member_ok_def split: prod.splits)
    moreover have "fst (fs ! j) = nm \<longleftrightarrow> j = i"
      using nm(1,2,3) that nth_eq_iff_index_eq [of "List.map fst fs" j i] by simp
    ultimately show ?thesis using cstr_unique by blast
  qed
  show ?thesis
  proof (cases "Suc i = length fs")
    case True
    have "tar_find (mem s) tab nm 0 (length fs - 1) = None"
      by (rule tar_find_none) (use at has True in simp)
    then show ?thesis using True nm(5) rt sz by (simp add: tar_seek_def get_node_def)
  next
    case False
    have "tar_find (mem s) tab nm (of_nat 0) (length fs - 1) = Some (rd32 (mem s) (tab + 4 * (of_nat 0 + of_nat i)))"
      by (rule tar_find_scan) (use at has False nm(2) in simp_all)
    then have "tar_find (mem s) tab nm 0 (length fs - 1) = Some (addresses a fs ! i)" using at nm(2) by simp
    moreover have "read_str (mem s) (addresses a fs ! i) = Some nm"
      using has [OF nm(2)] nm(4) by (intro read_str_cstr) auto
    moreover have "tar_header_size (mem s) (addresses a fs ! i) = snd (snd (fs ! i))"
      using member_at [OF arch(1) nm(2)] by (simp add: member_ok_def split: prod.splits)
    ultimately show ?thesis using False nm(4,5) rt sz av
      by (simp add: tar_seek_def get_node_def tar_header2node_def allocate_fs_node_def Vfs.kalloc_def)
  qed
qed

lemma getsize_zero:
  assumes "list_all (\<lambda>j. m (p + of_nat j) = 48) [0..<11]"
  shows "getsize m p = 0"
proof -
  have "j \<le> 11 \<Longrightarrow> getsize_loop m p j c 0 = 0" for j c
    by (induction j arbitrary: c) (use assms in \<open>auto simp: list_all_iff\<close>)
  then show ?thesis by (simp add: getsize_def)
qed

text \<open>Two empty files, \<open>/d/a\<close> and \<open>b\<close>, at 0x1000.\<close>

definition tar_example :: bytes where
  "tar_example = put_str (0x1000 + 124) [48, 48, 48, 48, 48, 48, 48, 48, 48, 48, 48] (put_str 0x1000 [47, 100, 47, 97]
     (put_str (0x1200 + 124) [48, 48, 48, 48, 48, 48, 48, 48, 48, 48, 48] (put_str 0x1200 [98] (\<lambda>_. 0))))"

definition tar_vfs_example :: vfs where
  "tar_vfs_example = vfs_example\<lparr>nodes := [100 \<mapsto> node_at [114] 101], avail := [0x2000, 0x2100, 0x2200], mem := tar_example\<rparr>"

lemma tar_example_archive: "archive tar_example 0x1000 [([47, 100, 47, 97], [[100], [97]], 0), ([98], [[98]], 0)]"
proof -
  have s: "getsize tar_example 0x107C = 0" "getsize tar_example 0x127C = 0"
    by (rule getsize_zero; simp add: tar_example_def upt_rec)+
  have z: "tar_example 0x1400 = 0" "cstr tar_example 0x1000 [47, 100, 47, 97]" "cstr tar_example 0x1200 [98]"
    by (simp_all add: tar_example_def)
  show ?thesis using s z
    by (simp add: member_ok_def plain_names_def canonize_absolute_def tar_header_size_def stride_def del: cstr.simps)
qed

lemma tar_mount_indexes_witness:
  "\<exists>tab' s'. tar_mount 3 [0x1000] 100 0 tar_vfs_example = Some (Inr (100, s'))
     \<and> words (mem s') tab' [0x1000, 0x1200]"
proof -
  let ?fs = "[([47, 100, 47, 97], [[100], [97]], 0), ([98], [[98]], 0)] :: member list"
  have "\<exists>tab' s'. tar_mount 3 [0x1000] 100 0 tar_vfs_example = Some (Inr (100, s'))
      \<and> words (mem s') tab' (addresses 0x1000 ?fs) \<and> archive (mem s') 0x1000 (List.map mounted ?fs)
      \<and> nodes s' = (nodes tar_vfs_example)(100 \<mapsto> (node_at [114] 101)\<lparr>inode := tab', nsize := of_nat (length ?fs) - 1\<rparr>)"
    by (rule tar_mount_indexes [where tab = "0x2000" and ps = "[0x2100, 0x2200]"])
      (simp_all add: tar_example_archive tar_vfs_example_def stride_def tables_ok_def beside_def no_wrap_def
        del: archive.simps)
  then show ?thesis by (auto simp: stride_def)
qed

text \<open>The same archive after mounting.\<close>

definition mounted_example :: vfs where
  "mounted_example = vfs_example\<lparr>nodes := [100 \<mapsto> (node_at [114] 101)\<lparr>inode := 0x2000, nsize := 1\<rparr>],
     avail := [0x3000, 0x3100], mem := put_words 0x2000 [0x1000, 0x1200] (put_str 0x1000 [97] tar_example)\<rparr>"

lemma tar_seek_all_but_last_witness:
  "(\<exists>x s'. tar_seek 7 [97] 100 mounted_example = Some (Inr (0x3000, s')) \<and> nodes s' 0x3000 = Some x \<and> inode x = 0x1000)
   \<and> tar_seek 7 [98] 100 mounted_example = Some (Inr (0, mounted_example))"
proof -
  let ?fs = "[([97], [[97]], 0), ([98], [[98]], 0)] :: member list"
  let ?m = "mem mounted_example"
  note ev = mounted_example_def tar_example_def wr32_def
  have s: "getsize ?m 0x107C = 0" "getsize ?m 0x127C = 0"
    by (rule getsize_zero; simp add: ev upt_rec)+
  have z: "?m 0x1400 = 0" "cstr ?m 0x1000 [97]" "cstr ?m 0x1200 [98]" by (simp_all add: ev)
  have a: "archive ?m 0x1000 ?fs" using s z
    by (simp add: member_ok_def plain_names_def canonize_absolute_def tar_header_size_def stride_def del: cstr.simps)
  have w: "words ?m 0x2000 (addresses 0x1000 ?fs)"
    unfolding mounted_example_def by (simp add: words_put_words no_wrap_def stride_def del: put_words.simps words.simps)
  note r = tar_seek_all_but_last [OF a _ w, where rt = 100 and n = "(node_at [114] 101)\<lparr>inode := 0x2000, nsize := 1\<rparr>"
      and p = "0x3000" and e = "0x3100" and ps = "[]" and fid = 7]
  show ?thesis
    using r [of 0 "[97]"] r [of 1 "[98]"] by (auto simp: stride_def mounted_example_def)
qed

end
