(* ===== verification/Kmodule.thy ===== *)
theory Kmodule
  imports Tar Elf
begin

text \<open>
  Kernel modules, \<open>os/kernel/module/module.c\<close>, and the ramdisk that brings them,
  \<open>os/kernel/module/ramdisk.c\<close>. A module file is read through the file system layer (theory Vfs), loaded
  as an ELF file (theory Elf), and its header found by name: at \<open>hdr\<close> lie the pointer to the module's
  name, the number of dependencies, 256 bytes of dependency names, and the entry points. The code of a
  module is not called by this model: \<open>call\<close> stands for the function at an address, its result and what
  it leaves in memory; it does not touch the table of modules.
\<close>

subsection \<open>Dependencies\<close>

abbreviation comma :: u8 where "comma \<equiv> 44"

fun dep_scan :: "u32 \<Rightarrow> cstring \<Rightarrow> int \<Rightarrow> u32 \<Rightarrow> int \<Rightarrow> int \<times> int" where
  "dep_scan block [] i blocks a = (a, - 1)"
| "dep_scan block (c # cs) i blocks a =
     (if blocks = block \<and> c = comma
      then (if a < 0 then dep_scan block cs (i + 1) blocks (i + 1) else (a, i))
      else if c = comma then dep_scan block cs (i + 1) (blocks + 1) a
      else dep_scan block cs (i + 1) blocks a)"

definition deps_block :: "cstring \<Rightarrow> u32 \<Rightarrow> cstring" where
  "deps_block path block =
     (let (a, b) = dep_scan block path 0 0 (- 1)
      in if a > 0 \<and> b > 0 then substr_str path a b else path)"

definition deps_size :: "cstring \<Rightarrow> u32" where
  "deps_size path = of_nat (length (filter (\<lambda>c. c = comma) path)) - 1"

definition canonize_deps :: "cstring \<Rightarrow> cstring res" where
  "canonize_deps path =
     (if path = [] then Inl Wild
      else Inr ((if hd path \<noteq> comma then [comma] else []) @ path
                @ (if last path \<noteq> comma then [comma] else [])))"

text \<open>A loaded module: its name, whether it has failed (0), runs (1) or waits for others (2), and the
  address of its header.\<close>

record kernel_module =
  mname :: cstring
  mstate :: u8
  mhdr :: u32

text \<open>Fields of the header. A name may fill the 31 bytes it has; \<open>None\<close> is a string without end.\<close>

abbreviation dep_cnt :: "bytes \<Rightarrow> u32 \<Rightarrow> u8" where "dep_cnt m hdr \<equiv> m (hdr + 4)"
abbreviation dependencies :: "u32 \<Rightarrow> u32" where "dependencies hdr \<equiv> hdr + 5"
abbreviation load_fn :: "bytes \<Rightarrow> u32 \<Rightarrow> u32" where "load_fn m hdr \<equiv> rd32 m (hdr + 264)"

definition module_is_loaded :: "cstring \<Rightarrow> kernel_module list \<Rightarrow> bool" where
  "module_is_loaded name mods = list_ex (\<lambda>md. name = mname md \<and> mstate md = 1) mods"

fun deps_loaded :: "cstring \<Rightarrow> u32 \<Rightarrow> nat \<Rightarrow> kernel_module list \<Rightarrow> bool" where
  "deps_loaded deps i 0 mods = True"
| "deps_loaded deps i (Suc k) mods =
     (if \<not> module_is_loaded (deps_block deps i) mods then False else deps_loaded deps (i + 1) k mods)"

definition module_check_dependencies :: "bytes \<Rightarrow> u32 \<Rightarrow> kernel_module list \<Rightarrow> bool option" where
  "module_check_dependencies m hdr mods =
     (if dep_cnt m hdr = 0 then Some True
      else map_option (\<lambda>deps. deps_loaded deps 0 (unat (dep_cnt m hdr)) mods) (read_str m (dependencies hdr)))"

subsection \<open>Waiting modules\<close>

text \<open>One round over the table: every waiting module whose dependencies run is started. The flag is set
  when one started.\<close>

fun reload_pass :: "(u32 \<Rightarrow> bytes \<Rightarrow> u8 \<times> bytes) \<Rightarrow> nat \<Rightarrow> nat \<Rightarrow> bytes \<times> kernel_module list \<times> bool
    \<Rightarrow> (bytes \<times> kernel_module list \<times> bool) option" where
  "reload_pass call i 0 st = Some st"
| "reload_pass call i (Suc k) (m, mods, flag) =
     (if mstate (mods ! i) = 2 then
        Option.bind (module_check_dependencies m (mhdr (mods ! i)) mods) (\<lambda>ok.
          if ok then
            (let (r, m) = call (load_fn m (mhdr (mods ! i))) m
             in if r = 0 then reload_pass call (i + 1) k (m, mods[i := (mods ! i)\<lparr>mstate := 1\<rparr>], True)
                else reload_pass call (i + 1) k (m, mods[i := (mods ! i)\<lparr>mstate := 0\<rparr>], flag))
          else reload_pass call (i + 1) k (m, mods, flag))
      else reload_pass call (i + 1) k (m, mods, flag))"

definition waiting :: "kernel_module list \<Rightarrow> nat" where
  "waiting mods = length (filter (\<lambda>md. mstate md = 2) mods)"

lemma waiting_update:
  "i < length mods \<Longrightarrow> mstate (mods ! i) = 2 \<Longrightarrow> mstate md \<noteq> 2 \<Longrightarrow> Suc (waiting (mods[i := md])) = waiting mods"
proof (induction mods arbitrary: i)
  case (Cons x mods)
  then show ?case by (cases i) (auto simp: waiting_def)
qed simp

text \<open>A round never makes a module wait, and takes one off the waiting ones when it sets the flag.\<close>

lemma reload_pass_waiting:
  "reload_pass call i k (m, mods, flag) = Some (m', mods', flag') \<Longrightarrow> i + k \<le> length mods \<Longrightarrow>
    waiting mods' \<le> waiting mods \<and> length mods' = length mods \<and> (flag' \<and> \<not> flag \<longrightarrow> waiting mods' < waiting mods)"
proof (induction k arbitrary: i m mods flag)
  case (Suc k)
  note w1 = waiting_update [of i mods "(mods ! i)\<lparr>mstate := 1\<rparr>"] and w0 = waiting_update [of i mods "(mods ! i)\<lparr>mstate := 0\<rparr>"]
  obtain r m1 where c: "call (load_fn m (mhdr (mods ! i))) m = (r, m1)" by fastforce
  show ?case
  proof (cases "mstate (mods ! i) = 2 \<and> module_check_dependencies m (mhdr (mods ! i)) mods = Some True")
    case True
    show ?thesis
    proof (cases "r = 0")
      case r: True
      with True Suc.prems c Suc.IH [of "i + 1" m1 "mods[i := (mods ! i)\<lparr>mstate := 1\<rparr>]" True] w1
      show ?thesis by simp
    next
      case r: False
      with True Suc.prems c Suc.IH [of "i + 1" m1 "mods[i := (mods ! i)\<lparr>mstate := 0\<rparr>]" flag] w0
      show ?thesis by simp
    qed
  next
    case False
    with Suc.prems c Suc.IH [of "i + 1" m mods flag] show ?thesis
      by (auto split: if_splits bind_splits simp: Option.bind_eq_Some_conv)
  qed
qed simp

text \<open>\<open>module_try_dependencies_reload\<close>. The table has 128 entries, so its 8-bit index does not wrap.\<close>

function module_try_dependencies_reload ::
    "(u32 \<Rightarrow> bytes \<Rightarrow> u8 \<times> bytes) \<Rightarrow> bytes \<Rightarrow> kernel_module list \<Rightarrow> (bytes \<times> kernel_module list) option" where
  "module_try_dependencies_reload call m mods =
     (case reload_pass call 0 (length mods) (m, mods, False) of
        None \<Rightarrow> None
      | Some (m', mods', flag) \<Rightarrow>
          if flag then module_try_dependencies_reload call m' mods' else Some (m', mods'))"
  by pat_completeness auto

termination
  by (relation "measure (\<lambda>(call, m, mods). waiting mods)") (auto dest: reload_pass_waiting)

declare module_try_dependencies_reload.simps [simp del]

subsection \<open>Loading\<close>

text \<open>The modules the boot loader passed on, at most 64 of them.\<close>

definition module_ramdisk_get :: "u32 list \<Rightarrow> u32 \<Rightarrow> u32 res" where
  "module_ramdisk_get rd i = load_at rd (unat i)"

definition module_ramdisk_add :: "u32 \<Rightarrow> u32 list \<Rightarrow> u32 list res" where
  "module_ramdisk_add md rd = (if length rd < 64 then Inr (rd @ [md]) else Inl Wild)"

definition module_ramdisk_count :: "u32 list \<Rightarrow> u32" where
  "module_ramdisk_count rd = of_nat (length rd)"

text \<open>The state: the file system layer with the memory, the symbols of the kernel, the table of modules,
  and the pages that loading mapped. A file is read into a fresh block; what \<open>kread\<close> returns is only
  reported. The module's own failure sets its state; a dependency that is missing makes it wait.\<close>

record modsys =
  fsys :: vfs
  syms :: symtable
  mods :: "kernel_module list"
  pages :: "u32 list"

definition module_header_name :: cstring where
  "module_header_name = [95, 95, 109, 111, 100, 117, 108, 101, 95, 104, 101, 97, 100, 101, 114]"

definition enter_module :: "(u32 \<Rightarrow> bytes \<Rightarrow> u8 \<times> bytes) \<Rightarrow> u32 \<Rightarrow> modsys \<Rightarrow> (u8 \<times> modsys) res option" where
  "enter_module call hdr s =
     (let m = mem (fsys s) in
      res_bind (Some (Vfs.kalloc (fsys s))) (\<lambda>(_, f).
      case read_str m (rd32 m hdr) of
        None \<Rightarrow> None
      | Some nm \<Rightarrow>
          if length nm \<ge> 32 \<or> length (mods s) \<ge> 128 then Some (Inl Wild)
          else let ms = mods s @ [\<lparr>mname = nm, mstate = 0, mhdr = hdr\<rparr>]; i = length (mods s) in
            (case module_check_dependencies m hdr ms of
               None \<Rightarrow> None
             | Some False \<Rightarrow> Some (Inr (0, s\<lparr>fsys := f, mods := ms[i := (ms ! i)\<lparr>mstate := 2\<rparr>]\<rparr>))
             | Some True \<Rightarrow>
                 let (r, m) = call (load_fn m hdr) m in
                 if r = 0 then
                   map_option (\<lambda>(m, ms). Inr (1, s\<lparr>fsys := f\<lparr>mem := m\<rparr>, mods := ms\<rparr>))
                     (module_try_dependencies_reload call m (ms[i := (ms ! i)\<lparr>mstate := 1\<rparr>]))
                 else Some (Inr (0, s\<lparr>fsys := f\<lparr>mem := m\<rparr>, mods := ms[i := (ms ! i)\<lparr>mstate := 0\<rparr>]\<rparr>)))))"

definition module_load :: "nat \<Rightarrow> (u32 \<Rightarrow> bool) \<Rightarrow> fstab \<Rightarrow> (u32 \<Rightarrow> bytes \<Rightarrow> u8 \<times> bytes) \<Rightarrow> u32 \<Rightarrow> modsys \<Rightarrow> (u8 \<times> modsys) res option" where
  "module_load k v t call node s =
     res_bind (Some (Vfs.kalloc (fsys s))) (\<lambda>(buffer, f).
     res_bind (Some (get_node node f)) (\<lambda>n.
     res_bind (Some (kread v t node 0 (nsize n) buffer f)) (\<lambda>(_, f).
     res_bind (elf_load_file k (syms s) buffer (mem f, avail f)) (\<lambda>(r, m, ps, av).
       let s = s\<lparr>fsys := f\<lparr>mem := m, avail := av\<rparr>, pages := pages s @ ps\<rparr> in
       if r = 0 then Some (Inr (0, s))
       else res_bind (Some (elf_get_symbol m buffer module_header_name)) (\<lambda>sym.
         if sym = 0 then Some (Inr (0, s))
         else enter_module call
                (buffer + st_value m sym + sh_offset m (elf_section m buffer (ucast (st_shndx m sym)))) s)))))"

text \<open>The ramdisk: the entries of the mounted archive are loaded in turn. \<open>kread\<close> puts the address of a
  header into the local variable at \<open>loc\<close>.\<close>

fun load_entries :: "nat \<Rightarrow> (u32 \<Rightarrow> bool) \<Rightarrow> fstab \<Rightarrow> (u32 \<Rightarrow> bytes \<Rightarrow> u8 \<times> bytes) \<Rightarrow> u16 \<Rightarrow> u32 \<Rightarrow> u32 \<Rightarrow> u32 \<Rightarrow> nat \<Rightarrow> modsys
    \<Rightarrow> modsys res option" where
  "load_entries k v t call tid rt loc i 0 s = Some (Inr s)"
| "load_entries k v t call tid rt loc i (Suc j) s =
     res_bind (Some (kread v t rt (ucast i) 1228 loc ((fsys s)\<lparr>mem := wr32 loc 0 (mem (fsys s))\<rparr>))) (\<lambda>(_, f).
     res_bind (tar_header2node tid (rd32 (mem f) loc) f) (\<lambda>(node, f).
     res_bind (module_load k v t call node (s\<lparr>fsys := f\<rparr>)) (\<lambda>(_, s).
       load_entries k v t call tid rt loc (i + 1) j s)))"

definition ramdisk_load :: "nat \<Rightarrow> (u32 \<Rightarrow> bool) \<Rightarrow> u32 list \<Rightarrow> fstab \<Rightarrow> (u32 \<Rightarrow> bytes \<Rightarrow> u8 \<times> bytes) \<Rightarrow> u32 \<Rightarrow> modsys
    \<Rightarrow> modsys res option" where
  "ramdisk_load k v rd t call loc s =
     res_bind (Some (init_tar k rd t (fsys s))) (\<lambda>(tid, t, f).
     res_bind (kmount t [47, 114, 97, 109, 100, 105, 115, 107] [] tid f) (\<lambda>(rt, f).
       if rt = 0 then Some (Inr (s\<lparr>fsys := f\<rparr>))
       else res_bind (Some (get_node rt f)) (\<lambda>n.
         load_entries k v t call tid rt loc 0 (unat (nsize n)) (s\<lparr>fsys := f\<rparr>))))"

subsection \<open>What a check depends on\<close>

text \<open>A module's code leaves the headers of the modules alone, and the dependency strings in them end
  within their field.\<close>

definition headers_kept :: "(u32 \<Rightarrow> bytes \<Rightarrow> u8 \<times> bytes) \<Rightarrow> u32 list \<Rightarrow> bool" where
  "headers_kept call hs \<longleftrightarrow> (\<forall>f m. \<forall>h \<in> set hs. \<forall>i < 261. snd (call f m) (h + of_nat i) = m (h + of_nat i))"

definition deps_end :: "bytes \<Rightarrow> u32 list \<Rightarrow> bool" where
  "deps_end m hs \<longleftrightarrow> (\<forall>h \<in> set hs. \<exists>xs. cstr m (dependencies h) xs \<and> length xs < 256)"

lemma header_cong:
  assumes "\<forall>i < 261. m' (h + of_nat i) = m (h + of_nat i)" "cstr m (dependencies h) xs" "length xs < 256"
  shows "cstr m' (dependencies h) xs" "module_check_dependencies m' h ms = module_check_dependencies m h ms"
proof -
  have "m' (dependencies h + of_nat i) = m (dependencies h + of_nat i)" if "i \<le> length xs" for i
    using assms(1)[rule_format, of "5 + i"] assms(3) that by (simp add: algebra_simps)
  then have "cstr m' (dependencies h) xs = cstr m (dependencies h) xs" by (rule cstr_frame)
  then show c: "cstr m' (dependencies h) xs" using assms(2) by simp
  have "dep_cnt m' h = dep_cnt m h" using assms(1)[rule_format, of 4] by simp
  then show "module_check_dependencies m' h ms = module_check_dependencies m h ms"
    using read_str_cstr [OF c] read_str_cstr [OF assms(2)] assms(3) by (simp add: module_check_dependencies_def)
qed

lemma headers_kept_call:
  assumes "headers_kept call hs" "deps_end m hs" "call f m = (r, m')"
  shows "deps_end m' hs" "h \<in> set hs \<Longrightarrow> module_check_dependencies m' h ms = module_check_dependencies m h ms"
proof -
  have k: "\<forall>i < 261. m' (h + of_nat i) = m (h + of_nat i)" if "h \<in> set hs" for h
    using assms(1,3) that unfolding headers_kept_def by (metis snd_conv)
  show "deps_end m' hs" using assms(2) header_cong(1) [OF k] unfolding deps_end_def by blast
  show "module_check_dependencies m' h ms = module_check_dependencies m h ms" if "h \<in> set hs"
    using assms(2) header_cong(2) [OF k] that unfolding deps_end_def by blast
qed

lemma check_ends: "deps_end m hs \<Longrightarrow> h \<in> set hs \<Longrightarrow> \<exists>b. module_check_dependencies m h ms = Some b"
  unfolding deps_end_def module_check_dependencies_def using read_str_cstr [of m "dependencies h"] by fastforce

text \<open>A check sees only which names run.\<close>

definition running :: "kernel_module list \<Rightarrow> (cstring \<times> bool) list" where
  "running ms = List.map (\<lambda>md. (mname md, mstate md = 1)) ms"

lemma is_loaded_running: "module_is_loaded nm ms \<longleftrightarrow> (nm, True) \<in> set (running ms)"
  by (induction ms) (auto simp: module_is_loaded_def running_def)

lemma deps_loaded_mono:
  "(\<And>nm. module_is_loaded nm ms \<Longrightarrow> module_is_loaded nm ms') \<Longrightarrow> deps_loaded d i k ms \<Longrightarrow> deps_loaded d i k ms'"
  by (induction d i k ms rule: deps_loaded.induct) (auto split: if_splits)

lemma check_mono:
  "(\<And>nm. module_is_loaded nm ms \<Longrightarrow> module_is_loaded nm ms') \<Longrightarrow> module_check_dependencies m h ms = Some True
    \<Longrightarrow> module_check_dependencies m h ms' = Some True"
  using deps_loaded_mono [of ms ms'] by (auto simp: module_check_dependencies_def split: if_splits)

lemma check_cong: "running ms = running ms' \<Longrightarrow> module_check_dependencies m h ms = module_check_dependencies m h ms'"
proof -
  assume "running ms = running ms'"
  then have e: "module_is_loaded nm ms = module_is_loaded nm ms'" for nm by (simp add: is_loaded_running)
  have "deps_loaded d i k ms = deps_loaded d i k ms'" for d i k
    using deps_loaded_mono [of ms ms'] deps_loaded_mono [of ms' ms] e by blast
  then show ?thesis by (simp add: module_check_dependencies_def)
qed

text \<open>Changing a module that did not run, and whose state becomes 0 or 1.\<close>

lemma loaded_update:
  assumes "i < length ms" "mstate (ms ! i) \<noteq> 1" "module_is_loaded nm ms"
  shows "module_is_loaded nm (ms[i := (ms ! i)\<lparr>mstate := x\<rparr>])"
proof -
  obtain j where j: "j < length ms" "mname (ms ! j) = nm" "mstate (ms ! j) = 1"
    using assms(3) by (auto simp: module_is_loaded_def list_ex_iff in_set_conv_nth)
  then have "j \<noteq> i" using assms(2) by auto
  then have "ms[i := (ms ! i)\<lparr>mstate := x\<rparr>] ! j = ms ! j" "j < length (ms[i := (ms ! i)\<lparr>mstate := x\<rparr>])" using j by simp_all
  then show ?thesis using j unfolding module_is_loaded_def list_ex_iff by (metis nth_mem)
qed

lemma running_update:
  "i < length ms \<Longrightarrow> mstate (ms ! i) \<noteq> 1 \<Longrightarrow> x \<noteq> 1 \<Longrightarrow> running (ms[i := (ms ! i)\<lparr>mstate := x\<rparr>]) = running ms"
  by (auto simp: running_def map_update intro!: list_update_same_conv [THEN iffD2])

text \<open>Every running module, but those with a header in \<open>H\<close>, has its dependencies running.\<close>

definition deps_ok :: "u32 set \<Rightarrow> bytes \<Rightarrow> kernel_module list \<Rightarrow> bool" where
  "deps_ok H m ms \<longleftrightarrow> (\<forall>md \<in> set ms. mstate md = 1 \<longrightarrow> mhdr md \<in> H \<or> module_check_dependencies m (mhdr md) ms = Some True)"


lemma deps_ok_update:
  assumes "deps_ok H m ms" "i < length ms" "mstate (ms ! i) \<noteq> 1"
    "x = 1 \<Longrightarrow> module_check_dependencies m (mhdr (ms ! i)) ms = Some True"
  shows "deps_ok H m (ms[i := (ms ! i)\<lparr>mstate := x\<rparr>])"
  unfolding deps_ok_def
proof (intro ballI impI)
  let ?ms = "ms[i := (ms ! i)\<lparr>mstate := x\<rparr>]"
  fix md assume md: "md \<in> set ?ms" "mstate md = 1"
  have mono: "\<And>nm. module_is_loaded nm ms \<Longrightarrow> module_is_loaded nm ?ms" using assms(2,3) by (rule loaded_update)
  obtain j where j: "j < length ms" "md = ?ms ! j" using md(1) by (auto simp: in_set_conv_nth)
  show "mhdr md \<in> H \<or> module_check_dependencies m (mhdr md) ?ms = Some True"
  proof (cases "j = i")
    case True
    then have "md = (ms ! i)\<lparr>mstate := x\<rparr>" using j by simp
    then show ?thesis using md(2) assms(4) check_mono [OF mono] by simp
  next
    case False
    then have "md \<in> set ms" using j by simp
    then show ?thesis using assms(1) md(2) check_mono [OF mono] by (auto simp: deps_ok_def)
  qed
qed

lemma deps_ok_call:
  "headers_kept call (List.map mhdr ms) \<Longrightarrow> deps_end m (List.map mhdr ms) \<Longrightarrow> call f m = (r, m') \<Longrightarrow> deps_ok H m ms \<Longrightarrow> deps_ok H m' ms"
  unfolding deps_ok_def using headers_kept_call(2) [of call "List.map mhdr ms" m f r m'] by auto

lemma map_mhdr_update [simp]: "List.map mhdr (ms[i := (ms ! i)\<lparr>mstate := x\<rparr>]) = List.map mhdr ms"
proof (cases "i < length ms")
  case True
  then show ?thesis by (simp add: map_update list_update_same_conv)
next
  case False
  then have "ms[i := (ms ! i)\<lparr>mstate := x\<rparr>] = ms" by (intro list_update_beyond) simp
  then show ?thesis by simp
qed

text \<open>A module that runs goes on running.\<close>

lemma reload_pass_loaded:
  "reload_pass call i k (m, ms, flag) = Some (m', ms', flag') \<Longrightarrow> i + k \<le> length ms \<Longrightarrow> module_is_loaded nm ms
    \<Longrightarrow> module_is_loaded nm ms'"
proof (induction k arbitrary: i m ms flag)
  case (Suc k)
  obtain r m1 where c: "call (load_fn m (mhdr (ms ! i))) m = (r, m1)" by fastforce
  have up: "module_is_loaded nm (ms[i := (ms ! i)\<lparr>mstate := x\<rparr>])" if "mstate (ms ! i) = 2" for x
    using that Suc.prems by (intro loaded_update) auto
  show ?case
  proof (cases "mstate (ms ! i) = 2 \<and> module_check_dependencies m (mhdr (ms ! i)) ms = Some True")
    case True
    then show ?thesis
      using Suc.prems c up Suc.IH [of "i + 1" m1 "ms[i := (ms ! i)\<lparr>mstate := 1\<rparr>]" True]
        Suc.IH [of "i + 1" m1 "ms[i := (ms ! i)\<lparr>mstate := 0\<rparr>]" flag] by (cases "r = 0") simp_all
  next
    case False
    then show ?thesis using Suc.prems Suc.IH [of "i + 1" m ms flag]
      by (auto split: if_splits simp: Option.bind_eq_Some_conv)
  qed
qed simp

lemma reload_loaded:
  "module_try_dependencies_reload call m ms = Some (m', ms') \<Longrightarrow> module_is_loaded nm ms \<Longrightarrow> module_is_loaded nm ms'"
proof (induction call m ms rule: module_try_dependencies_reload.induct)
  case (1 call m ms)
  obtain m1 ms1 flag where r: "reload_pass call 0 (length ms) (m, ms, False) = Some (m1, ms1, flag)"
    using 1(2) by (subst (asm) module_try_dependencies_reload.simps) (auto split: option.splits)
  have "module_is_loaded nm ms1" using reload_pass_loaded [OF r] 1(3) by simp
  then show ?case using 1(1) [OF r] 1(2) r
    by (subst (asm) (2) module_try_dependencies_reload.simps) (auto split: if_splits)
qed

text \<open>What a round over the rest of the table does: it ends, keeps the headers and the invariant, and
  with the flag down at its end no name has begun to run and every module it passed that still waits
  was refused.\<close>

definition pass_post :: "u32 set \<Rightarrow> nat \<Rightarrow> bytes \<times> kernel_module list \<times> bool \<Rightarrow> bytes \<times> kernel_module list \<times> bool \<Rightarrow> bool" where
  "pass_post H i st st' = (case (st, st') of ((m, ms, flag), (m', ms', flag')) \<Rightarrow>
     deps_end m' (List.map mhdr ms) \<and> List.map mhdr ms' = List.map mhdr ms \<and> deps_ok H m' ms'
     \<and> (\<not> flag' \<longrightarrow> \<not> flag \<and> running ms' = running ms
         \<and> (\<forall>j < length ms. (j < i \<longrightarrow> ms' ! j = ms ! j) \<and> (i \<le> j \<longrightarrow> mstate (ms' ! j) = 2 \<longrightarrow>
              module_check_dependencies m' (mhdr (ms' ! j)) ms' = Some False))
         \<and> (\<forall>h \<in> set (List.map mhdr ms). \<forall>xs. module_check_dependencies m' h xs = module_check_dependencies m h xs)))"

lemma pass_post_step:
  assumes post: "pass_post H (i + 1) (m1, ms1, flag1) st'"
    and ms1: "length ms1 = length ms" "List.map mhdr ms1 = List.map mhdr ms" "i < length ms"
    and same: "\<not> flag1 \<Longrightarrow> \<not> flag \<and> running ms1 = running ms \<and> (\<forall>j < length ms. j < i \<longrightarrow> ms1 ! j = ms ! j)
        \<and> (mstate (ms1 ! i) = 2 \<longrightarrow> module_check_dependencies m (mhdr (ms1 ! i)) ms = Some False)"
    and hk: "\<And>h xs. h \<in> set (List.map mhdr ms) \<Longrightarrow> module_check_dependencies m1 h xs = module_check_dependencies m h xs"
  shows "pass_post H i (m, ms, flag) st'"
proof -
  obtain m' ms' flag' where st: "st' = (m', ms', flag')" by (cases st')
  note P = post [unfolded st pass_post_def prod.case ms1(1,2)]
  have len: "length ms' = length ms" using P ms1(1) by (metis length_map)
  show ?thesis
  proof (cases flag')
    case True
    then show ?thesis using P by (simp add: st pass_post_def)
  next
    case False
    then have Q: "\<not> flag1" "running ms' = running ms1" "\<forall>j < length ms. j < i + 1 \<longrightarrow> ms' ! j = ms1 ! j"
      "\<forall>j < length ms. i + 1 \<le> j \<longrightarrow> mstate (ms' ! j) = 2 \<longrightarrow> module_check_dependencies m' (mhdr (ms' ! j)) ms' = Some False"
      "\<And>h xs. h \<in> set (List.map mhdr ms) \<Longrightarrow> module_check_dependencies m' h xs = module_check_dependencies m1 h xs"
      using P by auto
    note S = same [OF Q(1)]
    have r: "running ms' = running ms" using Q(2) S by simp
    have ei: "ms' ! i = ms1 ! i" using Q(3) ms1(3) by simp
    have mem: "mhdr (ms' ! i) \<in> set (List.map mhdr ms)"
      using P len ms1(3) nth_mem [of i ms'] by (metis image_eqI list.set_map)
    have refused: "module_check_dependencies m' (mhdr (ms' ! j)) ms' = Some False"
      if "j < length ms" "i \<le> j" "mstate (ms' ! j) = 2" for j
    proof (cases "j = i")
      case True
      then have "module_check_dependencies m (mhdr (ms' ! i)) ms = Some False" using that S ei by simp
      then show ?thesis unfolding True using Q(5) [OF mem] hk [OF mem] check_cong [OF r] by simp
    next
      case False
      then show ?thesis using Q(4) that by simp
    qed
    have "\<forall>j < length ms. j < i \<longrightarrow> ms' ! j = ms ! j" using Q(3) S by simp
    moreover have "module_check_dependencies m' h xs = module_check_dependencies m h xs" if "h \<in> set (List.map mhdr ms)" for h xs
      using Q(5) [OF that] hk [OF that] by simp
    ultimately show ?thesis using P S r refused False unfolding st pass_post_def by simp
  qed
qed

lemma reload_pass_post:
  "headers_kept call (List.map mhdr ms) \<Longrightarrow> deps_end m (List.map mhdr ms) \<Longrightarrow> deps_ok H m ms \<Longrightarrow> i + k = length ms \<Longrightarrow>
    \<exists>st'. reload_pass call i k (m, ms, flag) = Some st' \<and> pass_post H i (m, ms, flag) st'"
proof (induction k arbitrary: i m ms flag)
  case 0
  then show ?case by (simp add: pass_post_def)
next
  case (Suc k)
  let ?h = "mhdr (ms ! i)" and ?ms = "\<lambda>x. ms[i := (ms ! i)\<lparr>mstate := x\<rparr>]"
  have i: "i < length ms" "?h \<in> set (List.map mhdr ms)" using Suc.prems(4) by auto
  obtain r m1 where c: "call (load_fn m ?h) m = (r, m1)" by fastforce
  note kc = headers_kept_call [OF Suc.prems(1,2) c]
  note oc = deps_ok_call [OF Suc.prems(1,2) c Suc.prems(3)]
  obtain b where b: "module_check_dependencies m ?h ms = Some b" using check_ends [OF Suc.prems(2) i(2)] by blast
  consider (start) "mstate (ms ! i) = 2" "b" "r = 0" | (fail) "mstate (ms ! i) = 2" "b" "r \<noteq> 0"
    | (wait) "mstate (ms ! i) = 2" "\<not> b" | (skip) "mstate (ms ! i) \<noteq> 2" by blast
  then show ?case
  proof cases
    case start
    have "deps_ok H m1 (?ms 1)" using oc i start b kc(2) by (intro deps_ok_update) auto
    with Suc.IH [of "?ms 1" m1 "i + 1" True] Suc.prems kc(1)
    obtain st' where st: "reload_pass call (i + 1) k (m1, ?ms 1, True) = Some st'" "pass_post H (i + 1) (m1, ?ms 1, True) st'" by auto
    have "pass_post H i (m, ms, flag) st'" by (rule pass_post_step [OF st(2)]) (use i kc(2) in auto)
    then show ?thesis using st(1) start b c by simp
  next
    case fail
    have "deps_ok H m1 (?ms 0)" using oc i fail by (intro deps_ok_update) auto
    with Suc.IH [of "?ms 0" m1 "i + 1" flag] Suc.prems kc(1)
    obtain st' where st: "reload_pass call (i + 1) k (m1, ?ms 0, flag) = Some st'" "pass_post H (i + 1) (m1, ?ms 0, flag) st'" by auto
    have "running (?ms 0) = running ms" using i fail by (intro running_update) auto
    then have "pass_post H i (m, ms, flag) st'"
      by (intro pass_post_step [OF st(2)]) (use i kc(2) in auto)
    then show ?thesis using st(1) fail b c by simp
  next
    case wait
    with Suc.IH [of ms m "i + 1" flag] Suc.prems
    obtain st' where st: "reload_pass call (i + 1) k (m, ms, flag) = Some st'" "pass_post H (i + 1) (m, ms, flag) st'" by auto
    have "pass_post H i (m, ms, flag) st'" by (rule pass_post_step [OF st(2)]) (use i wait b in auto)
    then show ?thesis using st(1) wait b by simp
  next
    case skip
    with Suc.IH [of ms m "i + 1" flag] Suc.prems
    obtain st' where st: "reload_pass call (i + 1) k (m, ms, flag) = Some st'" "pass_post H (i + 1) (m, ms, flag) st'" by auto
    have "pass_post H i (m, ms, flag) st'" by (rule pass_post_step [OF st(2)]) (use i skip in auto)
    then show ?thesis using st(1) skip by simp
  qed
qed

subsection \<open>The table after loading\<close>

text \<open>Every running module has its dependencies running, and every waiting one lacks one.\<close>

definition settled_mods :: "bytes \<Rightarrow> kernel_module list \<Rightarrow> bool" where
  "settled_mods m ms \<longleftrightarrow> deps_ok {} m ms
     \<and> (\<forall>md \<in> set ms. mstate md = 2 \<longrightarrow> module_check_dependencies m (mhdr md) ms = Some False)"

lemma reload_settles:
  "headers_kept call (List.map mhdr ms) \<Longrightarrow> deps_end m (List.map mhdr ms) \<Longrightarrow> deps_ok H m ms \<Longrightarrow>
    \<exists>m' ms'. module_try_dependencies_reload call m ms = Some (m', ms') \<and> List.map mhdr ms' = List.map mhdr ms
      \<and> deps_ok H m' ms' \<and> (\<forall>md \<in> set ms'. mstate md = 2 \<longrightarrow> module_check_dependencies m' (mhdr md) ms' = Some False)"
proof (induction call m ms rule: module_try_dependencies_reload.induct)
  case (1 call m ms)
  obtain m1 ms1 flag where r: "reload_pass call 0 (length ms) (m, ms, False) = Some (m1, ms1, flag)"
      "pass_post H 0 (m, ms, False) (m1, ms1, flag)"
    using reload_pass_post [OF 1(2,3,4), of 0 "length ms" False] by auto
  have post: "deps_end m1 (List.map mhdr ms)" "List.map mhdr ms1 = List.map mhdr ms" "deps_ok H m1 ms1"
    using r(2) by (simp_all add: pass_post_def)
  show ?case
  proof (cases flag)
    case True
    with 1(1) [OF r(1)] post 1(2) show ?thesis
      by (subst module_try_dependencies_reload.simps) (simp add: r(1))
  next
    case False
    have "length ms1 = length ms" using post(2) by (metis length_map)
    then have "\<forall>md \<in> set ms1. mstate md = 2 \<longrightarrow> module_check_dependencies m1 (mhdr md) ms1 = Some False"
      using r(2) False by (auto simp: pass_post_def in_set_conv_nth)
    then show ?thesis using r(1) post(2,3) False by (subst module_try_dependencies_reload.simps) simp
  qed
qed

text \<open>C34: starting waiting modules comes to an end. For any table of modules and whatever the results of the load
  functions, if these leave the headers of the modules in the table alone and the dependency string of each ends
  within its 256 bytes, the recursion returns with the same modules; every module that still waits then lacks one of its
  dependencies; and every running module has all its dependencies running, unless it ran at the start already
  while lacking one (a module that is started never is such a one).\<close>

theorem reload_reaches_fixpoint:
  assumes "headers_kept call (List.map mhdr ms)" "deps_end m (List.map mhdr ms)"
  shows "\<exists>m' ms'. module_try_dependencies_reload call m ms = Some (m', ms') \<and> List.map mhdr ms' = List.map mhdr ms
     \<and> (\<forall>md \<in> set ms'. (mstate md = 2 \<longrightarrow> module_check_dependencies m' (mhdr md) ms' = Some False)
          \<and> (mstate md = 1 \<longrightarrow> module_check_dependencies m' (mhdr md) ms' = Some True
               \<or> (\<exists>old \<in> set ms. mhdr old = mhdr md \<and> mstate old = 1 \<and> module_check_dependencies m (mhdr old) ms \<noteq> Some True)))"
proof -
  let ?H = "mhdr ` {old \<in> set ms. mstate old = 1 \<and> module_check_dependencies m (mhdr old) ms \<noteq> Some True}"
  have "deps_ok ?H m ms" by (auto simp: deps_ok_def)
  from reload_settles [OF assms this] show ?thesis by (fastforce simp: deps_ok_def)
qed

text \<open>Module \<open>a\<close> with its header at 0x1000 needs nothing, module \<open>b\<close> at 0x2000 needs \<open>a\<close>.\<close>

definition module_example :: bytes where
  "module_example = wr32 0x2000 0x3000 (put_str 0x3000 [98] (put_str 0x2005 [97] ((\<lambda>_. 0)(0x2004 := 1))))"

lemma module_example_facts:
  "module_example 0x1004 = 0" "module_example 0x2004 = 1" "cstr module_example 0x2005 [97]" "cstr module_example 0x1005 []"
  "rd32 module_example 0x2000 = 0x3000" "cstr module_example 0x3000 [98]"
  by (simp_all add: module_example_def rd32_def wr32_def)

lemma module_example_deps: "deps_end module_example [0x1000, 0x2000]"
  using module_example_facts(3,4) by (auto simp: deps_end_def simp del: cstr.simps intro: exI [of _ "[97]"] exI [of _ "[]"])

lemma reload_reaches_fixpoint_witness:
  "\<exists>m' ms'. module_try_dependencies_reload (\<lambda>f m. (0, m)) module_example
      [\<lparr>mname = [97], mstate = 1, mhdr = 0x1000\<rparr>, \<lparr>mname = [98], mstate = 2, mhdr = 0x2000\<rparr>] = Some (m', ms')
    \<and> List.map mhdr ms' = [0x1000, 0x2000]"
proof -
  let ?ms = "[\<lparr>mname = [97], mstate = 1, mhdr = 0x1000\<rparr>, \<lparr>mname = [98], mstate = 2, mhdr = 0x2000\<rparr>]"
  have h: "headers_kept (\<lambda>f m. (0, m)) (List.map mhdr ?ms)" by (simp add: headers_kept_def)
  have d: "deps_end module_example (List.map mhdr ?ms)" using module_example_deps by simp
  from reload_reaches_fixpoint [OF h d] show ?thesis by auto
qed

text \<open>A module that is appended, in a state other than loaded, changes no answer about dependencies.\<close>

lemma appended_same:
  assumes "x \<noteq> 1"
  shows "module_is_loaded n (ms @ [\<lparr>mname = nm, mstate = x, mhdr = hdr\<rparr>]) = module_is_loaded n ms"
    and "module_check_dependencies m h (ms @ [\<lparr>mname = nm, mstate = x, mhdr = hdr\<rparr>]) = module_check_dependencies m h ms"
proof -
  let ?ms = "ms @ [\<lparr>mname = nm, mstate = x, mhdr = hdr\<rparr>]"
  have ih: "module_is_loaded n ?ms = module_is_loaded n ms" for n using assms by (simp add: module_is_loaded_def)
  then show "module_is_loaded n ?ms = module_is_loaded n ms" .
  have "deps_loaded d i k ?ms = deps_loaded d i k ms" for d i k
    using deps_loaded_mono [of ?ms ms d i k] deps_loaded_mono [of ms ?ms d i k] ih by blast
  then show "module_check_dependencies m h ?ms = module_check_dependencies m h ms" by (simp add: module_check_dependencies_def)
qed

text \<open>A module whose dependencies are there is started, and the ones that wait for it with it.\<close>

lemma appended_settles:
  fixes nm :: cstring
  assumes call: "headers_kept call (hdr # List.map mhdr ms)" "deps_end m (hdr # List.map mhdr ms)"
    and ok: "deps_ok {} m ms" and b: "module_check_dependencies m hdr ms = Some True" and c: "call f m = (r, m1)"
  defines "ms1 \<equiv> ms @ [\<lparr>mname = nm, mstate = 1, mhdr = hdr\<rparr>]"
  shows "\<exists>m2 ms2. module_try_dependencies_reload call m1 ms1 = Some (m2, ms2)
    \<and> List.map mhdr ms2 = List.map mhdr ms @ [hdr] \<and> settled_mods m2 ms2 \<and> module_is_loaded nm ms2"
proof -
  note kc = headers_kept_call [OF call c]
  have mono: "module_is_loaded n ms \<Longrightarrow> module_is_loaded n ms1" for n by (simp add: module_is_loaded_def ms1_def)
  have "deps_ok {} m1 ms1" unfolding deps_ok_def
  proof (intro ballI impI)
    fix md assume "md \<in> set ms1" "mstate md = 1"
    then have "mhdr md \<in> set (hdr # List.map mhdr ms) \<and> module_check_dependencies m (mhdr md) ms = Some True"
      using ok b by (auto simp: deps_ok_def ms1_def)
    then show "mhdr md \<in> {} \<or> module_check_dependencies m1 (mhdr md) ms1 = Some True" using kc(2) check_mono [OF mono] by metis
  qed
  moreover have "headers_kept call (List.map mhdr ms1)" "deps_end m1 (List.map mhdr ms1)"
    using call(1) kc(1) by (auto simp: headers_kept_def deps_end_def ms1_def)
  ultimately obtain m2 ms2 where t: "module_try_dependencies_reload call m1 ms1 = Some (m2, ms2)"
    "List.map mhdr ms2 = List.map mhdr ms1" "settled_mods m2 ms2" using reload_settles [of call ms1 m1 "{}"] by (auto simp: settled_mods_def)
  have "module_is_loaded nm ms1" by (simp add: module_is_loaded_def ms1_def)
  then have "module_is_loaded nm ms2" by (rule reload_loaded [OF t(1)])
  then show ?thesis using t by (simp add: ms1_def)
qed

text \<open>C35: loading a module keeps the table settled. Given a table in which every running module has its dependencies
  running and every waiting one lacks one, a module whose header lies at \<open>hdr\<close>, with a name of at most 31 bytes, load
  functions that leave the headers alone and dependency strings that end within their 256 bytes (of this module
  and of those in the table), and a heap block: if fewer than 128 modules are loaded, entering it returns, and the
  table is settled again and has the module at its end; it is reported as loaded only if it runs. The 129th
  module is stored behind the table of 128 entries, which \<open>module_load\<close> only warns about: the fault \<open>Wild\<close>.\<close>

theorem enter_module_settled:
  assumes call: "headers_kept call (hdr # List.map mhdr (mods s))" "deps_end (mem (fsys s)) (hdr # List.map mhdr (mods s))"
    and st: "settled_mods (mem (fsys s)) (mods s)" "avail (fsys s) = p # ps"
    and nm: "cstr (mem (fsys s)) (rd32 (mem (fsys s)) hdr) nm" "length nm < 32"
  shows "if length (mods s) < 128 then
      \<exists>r s'. enter_module call hdr s = Some (Inr (r, s')) \<and> settled_mods (mem (fsys s')) (mods s')
        \<and> List.map mhdr (mods s') = List.map mhdr (mods s) @ [hdr] \<and> (r \<noteq> 0 \<longrightarrow> module_is_loaded nm (mods s'))
    else enter_module call hdr s = Some (Inl Wild)"
proof -
  let ?m = "mem (fsys s)" and ?ms = "\<lambda>x. mods s @ [\<lparr>mname = nm, mstate = x, mhdr = hdr\<rparr>]"
  have rs: "read_str ?m (rd32 ?m hdr) = Some nm" using nm by (intro read_str_cstr) auto
  show ?thesis
  proof (cases "length (mods s) < 128")
    case False
    then show ?thesis using rs st(2) by (simp add: enter_module_def Let_def Vfs.kalloc_def)
  next
  case few: True
  have old: "deps_ok {} ?m (mods s)" using st(1) by (simp add: settled_mods_def)
  obtain b where b: "module_check_dependencies ?m hdr (mods s) = Some b" using check_ends [OF call(2)] by auto
  obtain r m1 where c: "call (load_fn ?m hdr) ?m = (r, m1)" by fastforce
  note kc = headers_kept_call [OF call c]
  have run: "enter_module call hdr s =
      (if \<not> b then Some (Inr (0, s\<lparr>fsys := (fsys s)\<lparr>avail := ps\<rparr>, mods := ?ms 2\<rparr>))
       else if r = 0 then map_option (\<lambda>(m, ms). Inr (1, s\<lparr>fsys := (fsys s)\<lparr>avail := ps, mem := m\<rparr>, mods := ms\<rparr>))
           (module_try_dependencies_reload call m1 (?ms 1))
       else Some (Inr (0, s\<lparr>fsys := (fsys s)\<lparr>avail := ps, mem := m1\<rparr>, mods := ?ms 0\<rparr>)))"
    using rs b c nm(2) few st(2) appended_same(2) [of 0 ?m hdr]
    by (simp add: enter_module_def Let_def Vfs.kalloc_def nth_append split: bool.split)
  have keepd: "settled_mods m (?ms x)" if "x \<noteq> 1" "x = 2 \<Longrightarrow> \<not> b" "\<And>h xs. h \<in> set (hdr # List.map mhdr (mods s))
      \<Longrightarrow> module_check_dependencies m h xs = module_check_dependencies ?m h xs" for x m
    using st(1) that b appended_same(2) [OF that(1)] by (auto simp: settled_mods_def deps_ok_def)
  consider (wait) "\<not> b" | (start) "b" "r = 0" | (fail) "b" "r \<noteq> 0" by blast
  then have "\<exists>r s'. enter_module call hdr s = Some (Inr (r, s')) \<and> settled_mods (mem (fsys s')) (mods s')
      \<and> List.map mhdr (mods s') = List.map mhdr (mods s) @ [hdr] \<and> (r \<noteq> 0 \<longrightarrow> module_is_loaded nm (mods s'))"
  proof cases
    case wait
    then show ?thesis using run keepd [of 2 ?m] by simp
  next
    case fail
    then show ?thesis using run keepd [of 0 m1] kc(2) by simp
  next
    case start
    then show ?thesis using run appended_settles [OF call old _ c, of nm] b by auto
  qed
  then show ?thesis using few by simp
  qed
qed

definition modsys_example :: modsys where
  "modsys_example = \<lparr>fsys = vfs_example\<lparr>avail := [0x9000], mem := module_example\<rparr>, syms = symtable.make [] 0,
     mods = [\<lparr>mname = [97], mstate = 1, mhdr = 0x1000\<rparr>], pages = []\<rparr>"

lemma enter_module_settled_witness:
  "\<exists>r s'. enter_module (\<lambda>f m. (0, m)) 0x2000 modsys_example = Some (Inr (r, s')) \<and> settled_mods (mem (fsys s')) (mods s')
     \<and> List.map mhdr (mods s') = [0x1000, 0x2000]"
proof -
  have d: "deps_end module_example [0x2000, 0x1000]" using module_example_deps by (simp add: deps_end_def)
  have "length (mods modsys_example) < 128" by (simp add: modsys_example_def)
  moreover have "if length (mods modsys_example) < 128 then
      \<exists>r s'. enter_module (\<lambda>f m. (0, m)) 0x2000 modsys_example = Some (Inr (r, s')) \<and> settled_mods (mem (fsys s')) (mods s')
        \<and> List.map mhdr (mods s') = List.map mhdr (mods modsys_example) @ [0x2000] \<and> (r \<noteq> 0 \<longrightarrow> module_is_loaded [98] (mods s'))
    else enter_module (\<lambda>f m. (0, m)) 0x2000 modsys_example = Some (Inl Wild)"
    by (rule enter_module_settled [where p = "0x9000" and ps = "[]"])
      (use d module_example_facts in \<open>simp_all add: modsys_example_def headers_kept_def settled_mods_def deps_ok_def
        module_check_dependencies_def del: cstr.simps\<close>)
  ultimately show ?thesis by (auto simp: modsys_example_def)
qed

end
