(* ===== verification/Devices.thy ===== *)
theory Devices
  imports Port_IO
begin

text \<open>
  Drivers of the kernel: the PCI bus (\<open>os/kernel/dev/pci.c\<close>), the interval timer
  (\<open>os/kernel/dev/pit.c\<close>), the early display (\<open>os/kernel/dev/eld.c\<close> with the cell format of
  \<open>vga.h\<close>) and the registers of the emulator's video card (\<open>os/modules/qemu_video/main.c\<close>). Hardware
  is the device parameter of theory Port_IO.
\<close>

subsection \<open>pci.c\<close>

record pci_device =
  func :: u32
  bus :: u32
  slot :: u32

text \<open>The table of devices found; its length is \<open>__pci_dev\<close>, which would wrap with the last function of the
  last bus if every place were taken; that counts as a fault.\<close>

type_synonym pci = "pci_device list"

definition pci_get_deviceptr :: "pci \<Rightarrow> u16 \<Rightarrow> pci_device option" where
  "pci_get_deviceptr ds i = (if i \<ge> of_nat (length ds) then None else Some (ds ! unat i))"

definition pci_get_addr :: "pci_device \<Rightarrow> u32 \<Rightarrow> u32" where
  "pci_get_addr d field =
     0x80000000 OR push_bit 16 (bus d) OR push_bit 11 (slot d) OR push_bit 8 (func d) OR (field AND 0xFC)"

definition pci_last_device :: "pci \<Rightarrow> u16" where
  "pci_last_device ds = of_nat (length ds)"

definition add_pci_dev :: "pci_device \<Rightarrow> pci \<Rightarrow> pci res" where
  "add_pci_dev d ds = (if length ds < 65535 then Inr (ds @ [d]) else Inl Wild)"

definition pci_read_value :: "device \<Rightarrow> pci_device \<Rightarrow> u32 \<Rightarrow> u32 \<Rightarrow> io \<Rightarrow> u32 \<times> io" where
  "pci_read_value dev d field sz h =
     (let h = outl 0xCF8 (pci_get_addr d field) h in
      if sz = 4 then inl dev 0xCFC h
      else if sz = 2 then (let (v, h) = inw dev (0xCFC + ucast (field AND 2)) h in (ucast v, h))
      else if sz = 1 then (let (v, h) = inb dev (0xCFC + ucast (field AND 3)) h in (ucast v, h))
      else (0xFFFF, h))"

definition pci_write_value8 :: "pci_device \<Rightarrow> u32 \<Rightarrow> u8 \<Rightarrow> io \<Rightarrow> io" where
  "pci_write_value8 d field val h = outb 0xCFC val (outl 0xCF8 (pci_get_addr d field) h)"

definition pci_write_value16 :: "pci_device \<Rightarrow> u32 \<Rightarrow> u16 \<Rightarrow> io \<Rightarrow> io" where
  "pci_write_value16 d field val h = outw 0xCFC val (outl 0xCF8 (pci_get_addr d field) h)"

definition pci_write_value32 :: "pci_device \<Rightarrow> u32 \<Rightarrow> u32 \<Rightarrow> io \<Rightarrow> io" where
  "pci_write_value32 d field val h = outl 0xCFC val (outl 0xCF8 (pci_get_addr d field) h)"

definition pci_get_vendor :: "device \<Rightarrow> pci_device \<Rightarrow> io \<Rightarrow> u16 \<times> io" where
  "pci_get_vendor dev d h = (let (v, h) = pci_read_value dev d 0x00 2 h in (ucast v, h))"

definition pci_get_device :: "device \<Rightarrow> pci_device \<Rightarrow> io \<Rightarrow> u16 \<times> io" where
  "pci_get_device dev d h = (let (v, h) = pci_read_value dev d 0x02 2 h in (ucast v, h))"

definition pci_get_class :: "device \<Rightarrow> pci_device \<Rightarrow> io \<Rightarrow> u16 \<times> io" where
  "pci_get_class dev d h = (let (v, h) = pci_read_value dev d 0x0b 1 h in (ucast (push_bit 8 v), h))"

definition pci_get_subclass :: "device \<Rightarrow> pci_device \<Rightarrow> io \<Rightarrow> u16 \<times> io" where
  "pci_get_subclass dev d h = (let (v, h) = pci_read_value dev d 0x0a 1 h in (ucast (drop_bit 8 v), h))"

text \<open>The probe visits every bus, slot and function in order; the identifier of the device is only
  printed.\<close>

definition pci_probe_one :: "device \<Rightarrow> pci_device \<Rightarrow> pci \<times> io \<Rightarrow> (pci \<times> io) res" where
  "pci_probe_one dev d st =
     (let (ds, h) = st; (vendor, h) = pci_get_vendor dev d h in
      if vendor = 0xffff then Inr (ds, h)
      else let (device, h) = pci_get_device dev d h in sbind (add_pci_dev d ds) (\<lambda>ds. Inr (ds, h)))"

definition pci_places :: "pci_device list" where
  "pci_places = concat (map (\<lambda>b. concat (map (\<lambda>s. map (\<lambda>f. \<lparr>func = of_nat f, bus = of_nat b, slot = of_nat s\<rparr>) [0..<8]) [0..<32])) [0..<256])"

fun pci_probe_from :: "device \<Rightarrow> pci_device list \<Rightarrow> pci \<times> io \<Rightarrow> (pci \<times> io) res" where
  "pci_probe_from dev [] st = Inr st"
| "pci_probe_from dev (d # ds) st = sbind (pci_probe_one dev d st) (pci_probe_from dev ds)"

definition pci_probe :: "device \<Rightarrow> pci \<times> io \<Rightarrow> (pci \<times> io) res" where
  "pci_probe dev st = pci_probe_from dev pci_places st"

fun pci_seek_device :: "device \<Rightarrow> u16 \<Rightarrow> u16 \<Rightarrow> pci \<Rightarrow> io \<Rightarrow> pci_device option \<times> io" where
  "pci_seek_device dev vendor device [] h = (None, h)"
| "pci_seek_device dev vendor device (d # ds) h =
     (let (x, h) = pci_get_device dev d h in
      if x = device then
        (let (y, h) = pci_get_vendor dev d h in
         if y = vendor then (Some d, h) else pci_seek_device dev vendor device ds h)
      else pci_seek_device dev vendor device ds h)"

fun pci_seek_device3 :: "u16 \<Rightarrow> u16 \<Rightarrow> u16 \<Rightarrow> pci \<Rightarrow> pci_device option" where
  "pci_seek_device3 b s f [] = None"
| "pci_seek_device3 b s f (d # ds) =
     (if bus d = ucast b \<and> slot d = ucast s \<and> func d = ucast f then Some d else pci_seek_device3 b s f ds)"

subsection \<open>pit.c\<close>

text \<open>A listener is its handler and its period. The table has as many entries as a 16-bit index has
  values. \<open>fired\<close> records the handlers called, \<open>schedule\<close> and \<open>irq_end\<close> follow each tick (theories
  Proc and Interrupts).\<close>

record pit_listener =
  handler :: u32
  time :: u32

record pit =
  last_id :: u16
  max_id :: u16
  sys_ticks :: u64
  pit_listeners :: "u16 \<Rightarrow> pit_listener option"
  fired :: "u16 list"

partial_function (option) next_free :: "(u16 \<Rightarrow> pit_listener option) \<Rightarrow> u16 \<Rightarrow> u16 option" where
  "next_free ls i = (if ls i \<noteq> None then next_free ls (i + 1) else Some i)"

definition pit_add_listener :: "pit_listener \<Rightarrow> pit \<Rightarrow> (u32 \<times> pit) option" where
  "pit_add_listener l p =
     (if pit_listeners p (last_id p) \<noteq> None then Some (0, p)
      else let l = (if time l = 0 then l\<lparr>time := 1\<rparr> else l);
               i = last_id p;
               ls = (pit_listeners p)(i \<mapsto> l)
           in map_option (\<lambda>j. (ucast i, p\<lparr>pit_listeners := ls, last_id := j,
                max_id := (if j > max_id p then j else max_id p)\<rparr>)) (next_free ls (i + 1)))"

definition pit_remove_listener :: "u32 \<Rightarrow> pit \<Rightarrow> pit res" where
  "pit_remove_listener i p =
     (if i > 65536 then Inr p
      else if i = 65536 then Inl Wild
      else Inr (p\<lparr>pit_listeners := (pit_listeners p)(ucast i := None), last_id := ucast i\<rparr>))"

text \<open>The division of C truncates.\<close>

definition pit_phase :: "int \<Rightarrow> io \<Rightarrow> io res" where
  "pit_phase hz h =
     (if hz = 0 then Inl DivZero
      else let divisor = word_of_int (if hz < 0 then - (1193180 div (- hz)) else 1193180 div hz) :: u32 in
        Inr (outb 0x40 (ucast (drop_bit 8 divisor AND 0xFF)) (outb 0x40 (ucast (divisor AND 0xFF)) (outb 0x43 0x34 h))))"

fun fire :: "u16 \<Rightarrow> nat \<Rightarrow> pit \<Rightarrow> pit res" where
  "fire i 0 p = Inr p"
| "fire i (Suc k) p =
     (case pit_listeners p i of
        None \<Rightarrow> fire (i + 1) k p
      | Some l \<Rightarrow>
          if time l = 0 then Inl DivZero
          else if sys_ticks p mod ucast (time l) = 0 then fire (i + 1) k (p\<lparr>fired := fired p @ [i]\<rparr>)
          else fire (i + 1) k p)"

definition pit_tick :: "pit \<Rightarrow> pit res" where
  "pit_tick p = fire 0 (unat (max_id p)) (p\<lparr>sys_ticks := sys_ticks p + 1\<rparr>)"

definition pit_system_ticks :: "pit \<Rightarrow> u32" where
  "pit_system_ticks p = ucast (sys_ticks p)"

definition init_pit :: "io \<Rightarrow> io res" where
  "init_pit h = pit_phase 1000 h"

subsection \<open>eld.c\<close>

text \<open>Video memory as cells of 16 bits, and the cursor. The row below the screen exists in memory; a
  scroll copies it onto the last row.\<close>

record eld =
  cells :: "nat \<Rightarrow> u16"
  dx :: int
  dy :: int

definition vga_entry_color :: "u8 \<Rightarrow> u8 \<Rightarrow> u8" where
  "vga_entry_color fg bg = fg OR push_bit 4 bg"

definition vga_entry :: "u8 \<Rightarrow> u8 \<Rightarrow> u16" where
  "vga_entry uc color = ucast uc OR push_bit 8 (ucast color)"

definition eld_init :: "eld \<Rightarrow> eld" where
  "eld_init e = e\<lparr>cells := (\<lambda>i. if i < 2000 then 0 else cells e i)\<rparr>"

definition eld_scroll :: "eld \<Rightarrow> eld" where
  "eld_scroll e = e\<lparr>cells := (\<lambda>i. if i < 2000 then cells e (i + 80) else cells e i)\<rparr>"

definition eld_newline :: "eld \<Rightarrow> eld" where
  "eld_newline e =
     (let e = e\<lparr>dx := 0, dy := dy e + 1\<rparr> in
      if dy e \<ge> 25 then eld_scroll (e\<lparr>dy := dy e - 1\<rparr>) else e)"

definition eld_show :: "u8 \<Rightarrow> eld \<Rightarrow> eld res" where
  "eld_show c e =
     (if c = 10 then Inr (eld_newline e)
      else if c = 0 then Inr e
      else if c = 9 then
        (let e = e\<lparr>dx := dx e + 3\<rparr> in Inr (if dx e \<ge> 80 then eld_newline e else e))
      else let i = dy e * 80 + dx e in
        if i < 0 \<or> 2000 \<le> i then Inl Wild
        else let e = e\<lparr>cells := (cells e)(nat i := vga_entry c (vga_entry_color 7 0)), dx := dx e + 1\<rparr>
             in Inr (if dx e \<ge> 80 then eld_newline e else e))"

definition eld_putchar :: "device \<Rightarrow> u8 \<Rightarrow> eld \<Rightarrow> io \<Rightarrow> (eld \<times> io) res option" where
  "eld_putchar dev c e h =
     map_option (\<lambda>h. sbind (eld_show c e) (\<lambda>e. Inr (e, h))) (serial_write dev 0x3F8 c h)"

fun eld_puts :: "device \<Rightarrow> u8 list \<Rightarrow> eld \<Rightarrow> io \<Rightarrow> (eld \<times> io) res option" where
  "eld_puts dev [] e h = Some (Inr (e, h))"
| "eld_puts dev (c # cs) e h = res_bind (eld_putchar dev c e h) (\<lambda>(e, h). eld_puts dev cs e h)"

subsection \<open>The video card's registers\<close>

definition qvid_write_register :: "u16 \<Rightarrow> u16 \<Rightarrow> io \<Rightarrow> io" where
  "qvid_write_register idx data h = outw 0x01CF data (outw 0x01CE idx h)"

definition qvid_read_register :: "device \<Rightarrow> u16 \<Rightarrow> io \<Rightarrow> u16 \<times> io" where
  "qvid_read_register dev idx h = inw dev 0x01CF (outw 0x01CE idx h)"

definition qvid_set_resolution :: "u16 \<Rightarrow> u16 \<Rightarrow> u16 \<Rightarrow> u8 \<Rightarrow> u8 \<Rightarrow> io \<Rightarrow> io" where
  "qvid_set_resolution x y bpp use_lfb clear_video h =
     qvid_write_register 4 (0x01 OR (if use_lfb \<noteq> 0 then 0x40 else 0) OR (if clear_video \<noteq> 0 then 0 else 0x80))
      (qvid_write_register 6 4096 (qvid_write_register 3 bpp (qvid_write_register 2 y (qvid_write_register 1 x
        (qvid_write_register 4 0 h)))))"

text \<open>\<open>args\<close> are the half-words behind the argument pointer.\<close>

definition fb_ioctl :: "u32 \<Rightarrow> (nat \<Rightarrow> u16) \<Rightarrow> io \<Rightarrow> u32 \<times> io" where
  "fb_ioctl req args h =
     (0, if req = 0x10 then qvid_set_resolution (args 0) (args 1) (args 2) 1 1 h
         else if req = 0x20 then qvid_write_register 9 (args 0) h
         else if req = 0x30 then qvid_write_register 8 (args 0) h
         else h)"

text \<open>Loading: the address of the frame buffer, whose 2048 pages are mapped to themselves and which
  becomes \<open>/dev/fb0\<close>; \<open>None\<close> where there is no card.\<close>

definition qvid_probe :: "device \<Rightarrow> pci \<Rightarrow> io \<Rightarrow> u32 option \<times> io" where
  "qvid_probe dev ds h =
     (case pci_seek_device dev 0x1234 0x1111 ds h of
        (None, h) \<Rightarrow> (None, h)
      | (Some d, h) \<Rightarrow>
          (let (ver, h) = qvid_read_register dev 0 (qvid_write_register 0 0xB0C4 h);
               (bar, h) = pci_read_value dev d 0x10 4 h
           in (Some (bar AND 0xFFFFFFF0), h)))"

definition lfb_pages :: "u32 \<Rightarrow> u32 list" where
  "lfb_pages lfb = map (\<lambda>i. lfb + of_nat i * 4096) [0..<2048]"

subsection \<open>Finding devices\<close>

text \<open>A bus with a fixed configuration space: the data port answers the double word that the last write
  to the address port selected, from the byte that the port's offset names.\<close>

fun last_out32 :: "u16 \<Rightarrow> io \<Rightarrow> u32 option" where
  "last_out32 p [] = None"
| "last_out32 p (e # h) =
     (case last_out32 p h of
        Some v \<Rightarrow> Some v
      | None \<Rightarrow> (case e of Out32 q v \<Rightarrow> if q = p then Some v else None | _ \<Rightarrow> None))"

lemma last_out32_snoc: "last_out32 p (h @ [Out32 p v]) = Some v"
  by (induction h) auto

definition pci_bus :: "(u32 \<Rightarrow> u32) \<Rightarrow> device" where
  "pci_bus conf h p =
     (case last_out32 0xCF8 h of None \<Rightarrow> - 1 | Some a \<Rightarrow> drop_bit (8 * unat (p - 0xCFC)) (conf a))"

definition ids_at :: "(u32 \<Rightarrow> u32) \<Rightarrow> pci_device \<Rightarrow> u32" where
  "ids_at conf d = conf (pci_get_addr d 0)"

lemma pci_ids:
  "fst (pci_get_vendor (pci_bus conf) d h) = ucast (ids_at conf d)"
  "fst (pci_get_device (pci_bus conf) d h) = ucast (drop_bit 16 (ids_at conf d))"
proof -
  have "pci_get_addr d 2 = pci_get_addr d 0" by (simp add: pci_get_addr_def)
  moreover have "(ucast (ucast w :: u16) :: u32) = take_bit 16 w" for w :: u32 by (rule ucast_u16_take)
  moreover have "(ucast (take_bit 16 w) :: u16) = ucast w" for w :: u32 by (rule bit_word_eqI) (simp add: bit_simps)
  ultimately show "fst (pci_get_vendor (pci_bus conf) d h) = ucast (ids_at conf d)"
    "fst (pci_get_device (pci_bus conf) d h) = ucast (drop_bit 16 (ids_at conf d))"
    by (simp_all add: pci_get_vendor_def pci_get_device_def pci_read_value_def io_defs pci_bus_def last_out32_snoc
        ids_at_def split_def Let_def)
qed

definition present :: "(u32 \<Rightarrow> u32) \<Rightarrow> pci_device \<Rightarrow> bool" where
  "present conf d \<longleftrightarrow> (ucast (ids_at conf d) :: u16) \<noteq> 0xffff"

lemma pci_probe_from_bus:
  "length ds + length (filter (present conf) places) \<le> 65535 \<Longrightarrow>
    \<exists>h'. pci_probe_from (pci_bus conf) places (ds, h) = Inr (ds @ filter (present conf) places, h')"
proof (induction places arbitrary: ds h)
  case (Cons d places)
  obtain v h1 where v: "pci_get_vendor (pci_bus conf) d h = (v, h1)" by fastforce
  obtain x h2 where x: "pci_get_device (pci_bus conf) d h1 = (x, h2)" by fastforce
  have e: "v = ucast (ids_at conf d)" using pci_ids(1) [of conf d h] v by simp
  show ?case
  proof (cases "present conf d")
    case True
    with Cons.IH [of "ds @ [d]" h2] Cons.prems v x e show ?thesis
      by (simp add: pci_probe_one_def present_def add_pci_dev_def)
  next
    case False
    with Cons.IH [of ds h1] Cons.prems v e show ?thesis by (simp add: pci_probe_one_def present_def)
  qed
qed simp

lemma pci_seek_device_bus:
  "fst (pci_seek_device (pci_bus conf) v x ds h) =
     List.find (\<lambda>d. ucast (drop_bit 16 (ids_at conf d)) = x \<and> ucast (ids_at conf d) = v) ds"
proof (induction ds arbitrary: h)
  case (Cons d ds)
  obtain y h1 where y: "pci_get_device (pci_bus conf) d h = (y, h1)" by fastforce
  obtain z h2 where z: "pci_get_vendor (pci_bus conf) d h1 = (z, h2)" by fastforce
  have "y = ucast (drop_bit 16 (ids_at conf d))" "z = ucast (ids_at conf d)"
    using pci_ids(2) [of conf d h] pci_ids(1) [of conf d h1] y z by simp_all
  then show ?case using Cons y z by simp
qed simp

text \<open>The probe finds exactly the devices there are. On a bus with a fixed configuration space it
  returns, in the order bus, slot, function, the places whose vendor is not 0xFFFF, and looking for a
  vendor and device then finds the first of them that answers with both.\<close>

theorem pci_probe_finds_all:
  assumes "length (filter (present conf) pci_places) \<le> 65535"
  shows "\<exists>h'. pci_probe (pci_bus conf) ([], h) = Inr (filter (present conf) pci_places, h')
     \<and> fst (pci_seek_device (pci_bus conf) v x (filter (present conf) pci_places) h') =
         List.find (\<lambda>d. ucast (drop_bit 16 (ids_at conf d)) = x \<and> ucast (ids_at conf d) = v) (filter (present conf) pci_places)"
  using pci_probe_from_bus [of "[]" conf pci_places h] assms by (simp add: pci_probe_def pci_seek_device_bus)

lemma pci_probe_finds_all_witness: "\<exists>h'. pci_probe (pci_bus (\<lambda>_. 0xFFFFFFFF)) ([], []) = Inr ([], h')"
proof -
  have "filter (present (\<lambda>_. 0xFFFFFFFF)) pci_places = []" by (simp add: present_def ids_at_def filter_empty_conv)
  with pci_probe_finds_all [of "\<lambda>_. 0xFFFFFFFF" "[]" 0 0] show ?thesis by auto
qed

text \<open>The subclass is always reported as zero: one byte is read and then shifted out.\<close>

theorem pci_subclass_zero: "fst (pci_get_subclass dev d h) = 0"
proof -
  have "drop_bit 8 (ucast (b :: u8) :: u32) = 0" for b
    by (rule bit_word_eqI) (auto simp: bit_simps dest: bit_imp_le_length)
  then show ?thesis by (simp add: pci_get_subclass_def pci_read_value_def io_defs Let_def)
qed

subsection \<open>Periods\<close>

definition pit_ok :: "pit \<Rightarrow> bool" where
  "pit_ok p \<longleftrightarrow> (\<forall>i l. pit_listeners p i = Some l \<longrightarrow> time l \<noteq> 0)"

definition due :: "pit \<Rightarrow> u16 \<Rightarrow> bool" where
  "due p i \<longleftrightarrow> (case pit_listeners p i of None \<Rightarrow> False | Some l \<Rightarrow> sys_ticks p mod ucast (time l) = 0)"

lemma fire_due:
  "pit_ok p \<Longrightarrow> fire i k p = Inr (p\<lparr>fired := fired p @ filter (due p) (map (\<lambda>j. i + of_nat j) [0..<k])\<rparr>)"
proof (induction k arbitrary: i p)
  case (Suc k)
  have shift: "map (\<lambda>j. i + of_nat j) [0..<Suc k] = i # map (\<lambda>j. i + 1 + of_nat j) [0..<k]"
    by (simp add: upt_conv_Cons map_Suc_upt [symmetric] add.assoc o_def del: upt_Suc map_Suc_upt)
  have d: "due (p\<lparr>fired := xs\<rparr>) = due p" for xs by (simp add: due_def fun_eq_iff split: option.split)
  have ok: "pit_ok (p\<lparr>fired := fired p @ [i]\<rparr>)" using Suc.prems by (simp add: pit_ok_def)
  show ?case
  proof (cases "pit_listeners p i")
    case None
    then show ?thesis using Suc.IH [OF Suc.prems, of "i + 1"] unfolding shift by (simp add: due_def)
  next
    case (Some l)
    then have "time l \<noteq> 0" using Suc.prems by (simp add: pit_ok_def)
    then show ?thesis using Suc.IH [OF Suc.prems, of "i + 1"] Suc.IH [OF ok, of "i + 1"] Some
      unfolding shift d by (simp add: due_def)
  qed
qed simp


fun pit_ticks :: "nat \<Rightarrow> pit \<Rightarrow> pit res" where
  "pit_ticks 0 p = Inr p"
| "pit_ticks (Suc n) p = sbind (pit_tick p) (pit_ticks n)"

lemma pit_tick_due:
  assumes "pit_ok p"
  shows "pit_tick p = Inr (p\<lparr>sys_ticks := sys_ticks p + 1,
    fired := fired p @ filter (due (p\<lparr>sys_ticks := sys_ticks p + 1\<rparr>)) (map of_nat [0..<unat (max_id p)])\<rparr>)"
proof -
  have "pit_ok (p\<lparr>sys_ticks := sys_ticks p + 1\<rparr>)" using assms by (simp add: pit_ok_def)
  from fire_due [OF this, of 0 "unat (max_id p)"] show ?thesis by (simp add: pit_tick_def)
qed

lemma count_distinct: "distinct xs \<Longrightarrow> x \<in> set xs \<Longrightarrow> count_list xs x = 1"
  by (induction xs) auto

lemma count_filter_index:
  "i < mx \<Longrightarrow> count_list (filter P (map of_nat [0..<unat mx])) (i :: u16) = (if P i then 1 else 0)"
proof -
  assume i: "i < mx"
  have inj: "distinct (map of_nat [0..<unat mx] :: u16 list)"
  proof -
    have "inj_on (of_nat :: nat \<Rightarrow> u16) {0..<unat mx}"
    proof (rule inj_onI)
      fix a b assume "a \<in> {0..<unat mx}" "b \<in> {0..<unat mx}" "(of_nat a :: u16) = of_nat b"
      then have "a < 65536" "b < 65536" using unat_u16_less [of mx] unfolding atLeastLessThan_iff by linarith+
      moreover have "unat (of_nat a :: u16) = unat (of_nat b :: u16)" using \<open>(of_nat a :: u16) = of_nat b\<close> by simp
      ultimately show "a = b" by (simp add: unat_of_nat take_bit_eq_mod)
    qed
    then show ?thesis by (simp add: distinct_map)
  qed
  have "i = of_nat (unat i)" "unat i \<in> set [0..<unat mx]" using i by (simp_all add: word_less_nat_alt)
  then have mem: "i \<in> set (map of_nat [0..<unat mx])" unfolding set_map by (rule image_eqI)
  show ?thesis
  proof (cases "P i")
    case True
    have "distinct (filter P (map of_nat [0..<unat mx] :: u16 list))" using inj by simp
    moreover have "i \<in> set (filter P (map of_nat [0..<unat mx]))" using True mem by simp
    ultimately have "count_list (filter P (map of_nat [0..<unat mx])) i = 1" by (rule count_distinct)
    then show ?thesis using True by simp
  next
    case False
    then show ?thesis by (simp add: count_list_0_iff)
  qed
qed

text \<open>A listener is called once in every period. Starting at tick zero, \<open>n\<close> ticks call the handler
  of listener \<open>i\<close>, whose period is \<open>t\<close>, exactly \<open>n div t\<close> times, whatever other listeners there are.\<close>

theorem pit_periodic:
  assumes ok: "pit_ok p" "sys_ticks p = 0" "fired p = []" and l: "pit_listeners p i = Some l" "i < max_id p"
    and n: "n < 18446744073709551616"
  shows "\<exists>q. pit_ticks n p = Inr q \<and> count_list (fired q) i = n div unat (time l) \<and> unat (sys_ticks q) = n"
proof -
  let ?t = "unat (time l)"
  have t0: "?t \<noteq> 0" using ok(1) l(1) by (auto simp: pit_ok_def unat_eq_zero)
  have step: "\<exists>q'. pit_tick q = Inr q' \<and> pit_listeners q' = pit_listeners q \<and> max_id q' = max_id q
      \<and> unat (sys_ticks q') = Suc k \<and> count_list (fired q') i = count_list (fired q) i + (if Suc k mod ?t = 0 then 1 else 0)"
    if q: "pit_listeners q = pit_listeners p" "max_id q = max_id p" "unat (sys_ticks q) = k" and k: "Suc k < 18446744073709551616" for q :: pit and k
  proof -
    have qo: "pit_ok q" using ok(1) q(1) by (simp add: pit_ok_def)
    have u: "unat (sys_ticks q + 1) = Suc k" using q(3) k by (simp add: unat_word_ariths)
    have "due (q\<lparr>sys_ticks := sys_ticks q + 1\<rparr>) i \<longleftrightarrow> (sys_ticks q + 1) mod ucast (time l) = 0"
      using q(1) l(1) by (simp add: due_def)
    also have "\<dots> \<longleftrightarrow> unat ((sys_ticks q + 1) mod ucast (time l)) = 0" by (simp add: unat_eq_zero)
    also have "\<dots> \<longleftrightarrow> Suc k mod ?t = 0" unfolding unat_mod_distrib u by simp
    finally show ?thesis using pit_tick_due [OF qo] q(2) u l(2) by (simp add: count_filter_index)
  qed
  have "\<forall>(q :: pit) k. pit_listeners q = pit_listeners p \<and> max_id q = max_id p \<and> unat (sys_ticks q) = k \<and> k + n < 18446744073709551616
      \<longrightarrow> (\<exists>q'. pit_ticks n q = Inr q' \<and> unat (sys_ticks q') = k + n
            \<and> count_list (fired q') i = count_list (fired q) i + ((k + n) div ?t - k div ?t))" for n
  proof (induction n)
    case (Suc n)
    show ?case
    proof (intro allI impI)
      fix q :: pit and k
      assume a: "pit_listeners q = pit_listeners p \<and> max_id q = max_id p \<and> unat (sys_ticks q) = k \<and> k + Suc n < 18446744073709551616"
      then obtain q1 where q1: "pit_tick q = Inr q1" "pit_listeners q1 = pit_listeners p" "max_id q1 = max_id p"
        "unat (sys_ticks q1) = Suc k" "count_list (fired q1) i = count_list (fired q) i + (if Suc k mod ?t = 0 then 1 else 0)"
        using step [of q k] by auto
      obtain q2 where q2: "pit_ticks n q1 = Inr q2" "unat (sys_ticks q2) = Suc k + n"
        "count_list (fired q2) i = count_list (fired q1) i + ((Suc k + n) div ?t - Suc k div ?t)"
        using Suc.IH q1 a by (metis add_Suc_shift)
      have "Suc k div ?t = k div ?t + (if Suc k mod ?t = 0 then 1 else 0)" using t0 by (simp add: div_Suc)
      moreover have "Suc k div ?t \<le> (Suc k + n) div ?t" by (intro div_le_mono) simp
      ultimately have "count_list (fired q2) i = count_list (fired q) i + ((k + Suc n) div ?t - k div ?t)"
        unfolding q2(3) q1(5) by (simp only: add_Suc add_Suc_right)
      then show "\<exists>q'. pit_ticks (Suc n) q = Inr q' \<and> unat (sys_ticks q') = k + Suc n
            \<and> count_list (fired q') i = count_list (fired q) i + ((k + Suc n) div ?t - k div ?t)"
        using q1(1) q2(1,2) by simp
    qed
  qed simp
  from this [of n, rule_format, of p 0] show ?thesis using ok n by auto
qed

definition pit_example :: pit where
  "pit_example = \<lparr>last_id = 1, max_id = 1, sys_ticks = 0, pit_listeners = [0 \<mapsto> \<lparr>handler = 7, time = 3\<rparr>], fired = []\<rparr>"

lemma pit_periodic_witness: "\<exists>q. pit_ticks 10 pit_example = Inr q \<and> count_list (fired q) 0 = 3"
proof -
  have "\<exists>q. pit_ticks 10 pit_example = Inr q \<and> count_list (fired q) 0 = 10 div unat (3 :: u32) \<and> unat (sys_ticks q) = 10"
    using pit_periodic [of pit_example 0 "\<lparr>handler = 7, time = 3\<rparr>" 10]
    by (simp add: pit_example_def pit_ok_def)
  then show ?thesis by auto
qed

subsection \<open>The cursor\<close>

definition on_screen :: "eld \<Rightarrow> bool" where
  "on_screen e \<longleftrightarrow> 0 \<le> dx e \<and> dx e < 80 \<and> 0 \<le> dy e \<and> dy e < 25"

lemma eld_newline_on_screen:
  "0 \<le> dy e \<Longrightarrow> dy e < 25 \<Longrightarrow> on_screen (eld_newline e) \<and> (\<forall>i \<ge> 2000. cells (eld_newline e) i = cells e i)"
  by (auto simp: eld_newline_def on_screen_def eld_scroll_def Let_def)

lemma eld_show_on_screen:
  assumes "on_screen e"
  shows "\<exists>e'. eld_show c e = Inr e' \<and> on_screen e' \<and> (\<forall>i \<ge> 2000. cells e' i = cells e i)"
proof -
  have i: "0 \<le> dy e * 80 + dx e" "dy e * 80 + dx e < 2000" using assms by (auto simp: on_screen_def)
  consider (nl) "c = 10" | (nul) "c = 0" | (tab) "c = 9" | (pr) "c \<noteq> 10" "c \<noteq> 0" "c \<noteq> 9" by blast
  then show ?thesis
  proof cases
    case nl
    then show ?thesis using eld_newline_on_screen [of e] assms by (simp add: eld_show_def on_screen_def)
  next
    case nul
    then show ?thesis using assms by (simp add: eld_show_def)
  next
    case tab
    then show ?thesis using eld_newline_on_screen [of "e\<lparr>dx := dx e + 3\<rparr>"] assms
      by (auto simp: eld_show_def on_screen_def Let_def)
  next
    case pr
    let ?e = "e\<lparr>cells := (cells e)(nat (dy e * 80 + dx e) := vga_entry c (vga_entry_color 7 0)), dx := dx e + 1\<rparr>"
    have "eld_show c e = Inr (if dx ?e \<ge> 80 then eld_newline ?e else ?e)"
      using pr i by (simp add: eld_show_def Let_def)
    moreover have "\<forall>j \<ge> 2000. cells ?e j = cells e j" using i by auto
    ultimately show ?thesis using eld_newline_on_screen [of ?e] assms by (auto simp: on_screen_def)
  qed
qed

text \<open>C36: the early display never writes outside of the screen. With a serial line that is ready, printing
  any text from a cursor on the screen returns, leaves the cursor within 80 columns and 25 rows, and
  changes no cell behind the 2000 of the screen.\<close>

theorem eld_puts_on_screen:
  assumes "\<And>h. (ucast (dev h 0x3FD) :: u8) AND 0x20 \<noteq> 0" "on_screen e"
  shows "\<exists>e' h'. eld_puts dev cs e h = Some (Inr (e', h')) \<and> on_screen e' \<and> (\<forall>i \<ge> 2000. cells e' i = cells e i)"
  using assms(2)
proof (induction cs arbitrary: e h)
  case (Cons c cs)
  have "\<exists>h'. serial_write dev 0x3F8 c h = Some h'"
    using assms(1) by (subst serial_write.simps) (simp add: serial_can_transmit_def io_defs split_def)
  then obtain h' where w: "serial_write dev 0x3F8 c h = Some h'" by blast
  obtain e' where e': "eld_show c e = Inr e'" "on_screen e'" "\<forall>i \<ge> 2000. cells e' i = cells e i"
    using eld_show_on_screen [OF Cons.prems] by blast
  show ?case using Cons.IH [OF e'(2), of h'] w e'(1,3) by (simp add: eld_putchar_def)
qed simp

lemma eld_puts_on_screen_witness:
  "\<exists>e' h'. eld_puts (\<lambda>_ _. 0x60) [72, 10, 9, 105] \<lparr>cells = (\<lambda>_. 0), dx = 79, dy = 24\<rparr> [] = Some (Inr (e', h')) \<and> on_screen e'"
  using eld_puts_on_screen [of "\<lambda>_ _. 0x60" "\<lparr>cells = (\<lambda>_. 0), dx = 79, dy = 24\<rparr>" "[72, 10, 9, 105]" "[]"]
  by (simp add: on_screen_def) blast

end
