(* ===== verification/Kbd.thy ===== *)
theory Kbd
  imports Smpl_Prelude
begin

text \<open>
  The keyboard library, \<open>libs/kbd/kbd.c\<close>: scancodes of set 1 become key events. The tables are those of
  the source, \<open>key_type\<close> with 1 for a common, 2 for a special and 3 for a function key; the state is the
  two modifier variables.
\<close>

record key_event =
  keycode :: u32
  kstate :: u8
  key :: u8

record kbd =
  ctrl :: u8
  shift :: u8

definition key_type :: "u8 list" where
  "key_type =
     [0, 2, 1, 1, 1, 1, 1, 1,
      1, 1, 1, 1, 1, 1, 1, 1,
      1, 1, 1, 1, 1, 1, 1, 1,
      1, 1, 1, 1, 1, 2, 1, 1,
      1, 1, 1, 1, 1, 1, 1, 1,
      1, 1, 2, 1, 1, 1, 1, 1,
      1, 1, 1, 1, 1, 1, 2, 1,
      2, 1, 2, 3, 3, 3, 3, 3,
      3, 3, 3, 3, 3, 2, 2, 2,
      2, 2, 2, 2, 2, 2, 2, 2,
      2, 2, 2, 2, 2, 2, 2, 3,
      3, 2, 2, 2, 2, 2, 2, 2,
      2, 2, 2, 2, 2, 2, 2, 2,
      2, 2, 2, 2, 2, 2, 2, 2,
      2, 2, 2, 2, 2, 2, 2, 2,
      2, 2, 2, 2, 2, 2, 2, 2]"

definition keypad_rows :: "u8 list" where
  "keypad_rows = [42, 0, 32] @ replicate 16 0 @ [45, 0, 0, 0, 43] @ replicate 49 0"

definition kbd_us_l1 :: "u8 list" where
  "kbd_us_l1 = [0, 27] @ map of_char ''1234567890-='' @ [8, 9] @ map of_char ''qwertyuiop[]'' @ [10, 0]
     @ map of_char ''asdfghjkl;'' @ [39, 96, 0, 92] @ map of_char ''zxcvbnm,./'' @ [0] @ keypad_rows"

definition kbd_us_l2 :: "u8 list" where
  "kbd_us_l2 = [0, 27] @ map of_char ''!@#$%^&*()_+'' @ [8, 9] @ map of_char ''QWERTYUIOP{}'' @ [10, 0]
     @ map of_char ''ASDFGHJKL:'' @ [34, 126, 0, 124] @ map of_char ''ZXCVBNM<>?'' @ [0] @ keypad_rows"

text \<open>The character under control: letters in upper case, less 64; what is no control character stays.\<close>

definition ctrl_key :: "u8 \<Rightarrow> u8" where
  "ctrl_key c =
     (let keyc = sint c;
          keyc = (if keyc \<le> 122 \<and> keyc \<ge> 97 then keyc - 32 else keyc);
          keyc = (if keyc = 45 then 95 else keyc);
          keyc = (if keyc = 96 then 64 else keyc);
          keyc = keyc - 64
      in if keyc < 0 \<or> keyc > 0x1F then c else word_of_int keyc)"

definition kbd_key_event :: "u8 \<Rightarrow> key_event \<times> kbd \<Rightarrow> key_event \<times> kbd" where
  "kbd_key_event scancode st =
     (let (ev, s) = st in
      if scancode = 0xE0 then (ev, s)
      else
        let up = scancode AND 0x80 \<noteq> 0;
            code = (if up then scancode XOR 0x80 else scancode);
            ev = ev\<lparr>kstate := (if up then 0 else 1)\<rparr>;
            i = unat code;
            tp = key_type ! i
        in if tp = 1 then
             (ev\<lparr>keycode := scast (kbd_us_l1 ! i),
                 key := (if ctrl s \<noteq> 0 then ctrl_key (kbd_us_l1 ! i)
                         else if shift s \<noteq> 0 then kbd_us_l2 ! i else kbd_us_l1 ! i)\<rparr>, s)
           else if tp = 2 then
             (ev, if code = 0x1D then s\<lparr>ctrl := kstate ev\<rparr>
                  else if code = 0x2A \<or> code = 0x36 then s\<lparr>shift := kstate ev\<rparr>
                  else s)
           else (ev, s))"

subsection \<open>Properties\<close>

lemma key_tables: "length key_type = 128" "length kbd_us_l1 = 128" "length kbd_us_l2 = 128"
  by (simp_all add: key_type_def kbd_us_l1_def kbd_us_l2_def keypad_rows_def)

text \<open>What a sequence of scancodes leaves of a modifier: the last press or release decides.\<close>

fun modifier :: "u8 set \<Rightarrow> u8 list \<Rightarrow> u8 \<Rightarrow> u8" where
  "modifier keys [] v = v"
| "modifier keys (c # cs) v =
     modifier keys cs (if c \<in> keys then 1 else if c XOR 0x80 \<in> keys then 0 else v)"

fun kbd_events :: "u8 list \<Rightarrow> key_event \<times> kbd \<Rightarrow> key_event \<times> kbd" where
  "kbd_events [] st = st"
| "kbd_events (c # cs) st = kbd_events cs (kbd_key_event c st)"

lemma key_type_at: "key_type ! 29 = 2" "key_type ! 42 = 2" "key_type ! 54 = 2" "key_type ! 30 = 1"
  by (simp_all add: key_type_def)

lemma kbd_key_event_modifiers:
  "snd (kbd_key_event c (ev, s)) =
     \<lparr>ctrl = modifier {0x1D} [c] (ctrl s), shift = modifier {0x2A, 0x36} [c] (shift s)\<rparr>"
proof -
  consider "c \<in> {0x1D, 0x2A, 0x36, 0x9D, 0xAA, 0xB6, 0xE0}" | (other) "c \<notin> {0x1D, 0x2A, 0x36, 0x9D, 0xAA, 0xB6, 0xE0}" by blast
  then show ?thesis
  proof cases
    case 1
    then show ?thesis by (elim insertE emptyE) (simp_all add: kbd_key_event_def key_type_at)
  next
    case other
    have x: "c XOR 0x80 = k \<longleftrightarrow> c = k XOR 0x80" for k by (auto simp: xor.assoc)
    have "c XOR 0x80 \<noteq> 0x1D" "c XOR 0x80 \<noteq> 0x2A" "c XOR 0x80 \<noteq> 0x36" using other unfolding x by simp_all
    then show ?thesis using other by (simp add: kbd_key_event_def Let_def)
  qed
qed

text \<open>The modifiers follow the last press or release. After any sequence of scancodes the control state
  is decided by the last code of the control key, the shift state by the last code of either shift key,
  which are down for a press and up for a release; releasing one shift key lifts shift even while the
  other one is held.\<close>

theorem kbd_modifiers_follow:
  "snd (kbd_events cs (ev, s)) =
     \<lparr>ctrl = modifier {0x1D} cs (ctrl s), shift = modifier {0x2A, 0x36} cs (shift s)\<rparr>"
proof (induction cs arbitrary: ev s)
  case (Cons c cs)
  obtain ev' s' where st: "kbd_key_event c (ev, s) = (ev', s')" by fastforce
  then have "s' = \<lparr>ctrl = modifier {0x1D} [c] (ctrl s), shift = modifier {0x2A, 0x36} [c] (shift s)\<rparr>"
    using kbd_key_event_modifiers [of c ev s] by simp
  then show ?case using Cons.IH [of ev' s'] st by simp
qed simp

text \<open>Control and a letter give the control characters 1 to 26.\<close>

lemma ctrl_letters: "map (\<lambda>k. ctrl_key (97 + of_nat k)) [0..<26] = map (\<lambda>k. of_nat (k + 1)) [0..<26]"
  by (simp add: ctrl_key_def upt_rec)

lemma key_a: "kbd_us_l1 ! 30 = 97" "kbd_us_l2 ! 30 = 65"
  by (simp_all add: kbd_us_l1_def kbd_us_l2_def)

lemma shift_then_key:
  "key (fst (kbd_events [0x2A, 0x1E] (ev, \<lparr>ctrl = 0, shift = 0\<rparr>))) = 65"
  "key (fst (kbd_events [0x2A, 0xAA, 0x1E] (ev, \<lparr>ctrl = 0, shift = 0\<rparr>))) = 97"
  "key (fst (kbd_events [0x2A, 0x36, 0xB6, 0x1E] (ev, \<lparr>ctrl = 0, shift = 0\<rparr>))) = 97"
  by (simp_all add: kbd_key_event_def key_type_at key_a)

end
