(* ===== verification/Fb.thy ===== *)
theory Fb
  imports Smpl_Prelude
begin

text \<open>
  The framebuffer library, \<open>libs/fb/fb.c\<close>. Pixels are 32-bit words in memory at multiples of four; the
  visible buffer starts at 0xFD000000 and the second one behind it. Coordinates are C integers whose sums
  do not overflow. The font table of \<open>fb_font.h\<close> is the parameter \<open>font\<close>. \<open>framebuffer\<close> is the address of the
  stream that \<open>fopen\<close> returned, zero if it failed. The calls of \<open>sys_ioctl\<close> are recorded with the number they
  pass as the file, the request and the argument: the code passes the address of the stream, not its
  descriptor \<open>fd\<close>.
\<close>

record fbuf =
  framebuffer :: u32
  x_res :: u16
  y_res :: u16
  x_opt_res :: u16
  y_opt_res :: u16
  back_buffer :: u32
  back_buffer_enabled :: u8
  vmem :: "u32 \<Rightarrow> u32"
  ioctls :: "(u32 \<times> u32 \<times> u32) list"

abbreviation LFB :: u32 where "LFB \<equiv> 0xFD000000"

definition lookup :: "u8 list" where
  "lookup = [0x0, 0x8, 0x4, 0xc, 0x2, 0xa, 0x6, 0xe, 0x1, 0x9, 0x5, 0xd, 0x3, 0xb, 0x7, 0xf]"

definition reverse :: "u8 \<Rightarrow> u8" where
  "reverse n = push_bit 4 (lookup ! unat (n AND 0xF)) OR lookup ! unat (drop_bit 4 n)"

definition fb_rgb2linear :: "u8 \<Rightarrow> u8 \<Rightarrow> u8 \<Rightarrow> u32" where
  "fb_rgb2linear r g b = ucast b OR push_bit 8 (ucast g) OR push_bit 16 (ucast r)"

fun memcpy_opt :: "u32 \<Rightarrow> u32 \<Rightarrow> nat \<Rightarrow> (u32 \<Rightarrow> u32) \<Rightarrow> u32 \<Rightarrow> u32" where
  "memcpy_opt dest src 0 m = m"
| "memcpy_opt dest src (Suc n) m = memcpy_opt (dest + 4) (src + 4) n (m(dest := m src))"

fun memset_opt :: "u32 \<Rightarrow> u32 \<Rightarrow> nat \<Rightarrow> (u32 \<Rightarrow> u32) \<Rightarrow> u32 \<Rightarrow> u32" where
  "memset_opt dest v 0 m = m"
| "memset_opt dest v (Suc n) m = memset_opt (dest + 4) v n (m(dest := v))"

abbreviation w16 :: "u16 \<Rightarrow> int" where "w16 w \<equiv> int (unat w)"

definition fb_pixel :: "int \<Rightarrow> int \<Rightarrow> u32 \<Rightarrow> u32 \<Rightarrow> fbuf \<Rightarrow> fbuf" where
  "fb_pixel x y color opt s =
     (if (x < 0 \<or> x > w16 (x_res s) \<or> y < 0 \<or> y > w16 (y_res s)) \<and> opt = 0 then s
      else if framebuffer s \<noteq> 0 \<or> opt \<noteq> 0 then
        (if back_buffer_enabled s = 0 \<and> opt = 0
         then s\<lparr>vmem := (vmem s)(LFB + word_of_int (y * w16 (x_res s) + x) * 4 := color)\<rparr>
         else let bfr = (if opt \<noteq> 0 then opt else back_buffer s);
                  res = (if opt \<noteq> 0 then x_opt_res s else x_res s)
              in s\<lparr>vmem := (vmem s)(bfr + word_of_int (y * w16 res + x) * 4 := color)\<rparr>)
      else s)"

definition fb_swapbuffers :: "fbuf \<Rightarrow> fbuf" where
  "fb_swapbuffers s =
     (if back_buffer_enabled s \<noteq> 0 then
        (if back_buffer s \<noteq> LFB
         then s\<lparr>back_buffer := LFB, ioctls := ioctls s @ [(framebuffer s, 0x20, ucast (y_res s)), (framebuffer s, 0x30, 0)]\<rparr>
         else s\<lparr>back_buffer := LFB + ucast (x_res s) * ucast (y_res s) * 4, ioctls := ioctls s @ [(framebuffer s, 0x20, 0), (framebuffer s, 0x30, 0)]\<rparr>)
      else s)"

definition fb_char :: "(nat \<Rightarrow> u8) \<Rightarrow> u8 \<Rightarrow> int \<Rightarrow> int \<Rightarrow> u32 \<Rightarrow> u32 \<Rightarrow> u32 \<Rightarrow> fbuf \<Rightarrow> fbuf" where
  "fb_char font c x y fc bc opt s =
     fold (\<lambda>i. fold (\<lambda>j. fb_pixel (x + int j) (y + int i)
       (if reverse (font (unat c * 16 + i)) AND push_bit j 1 \<noteq> 0 then fc else bc) opt) [0..<8]) [0..<16] s"

text \<open>\<open>opened\<close> is the result of \<open>fopen\<close>.\<close>

definition fb_init :: "u32 \<Rightarrow> u16 \<Rightarrow> u16 \<Rightarrow> u8 \<Rightarrow> fbuf \<Rightarrow> u8 \<times> fbuf" where
  "fb_init opened xres yres double_buffer s =
     (let s = s\<lparr>x_res := xres, y_res := yres, x_opt_res := 0, y_opt_res := 0, framebuffer := opened\<rparr> in
      if opened = 0 then (1, s)
      else (0, s\<lparr>back_buffer_enabled := double_buffer, back_buffer := LFB + ucast xres * ucast yres * 4\<rparr>))"

fun line_loop :: "nat \<Rightarrow> int \<Rightarrow> int \<Rightarrow> int \<Rightarrow> int \<Rightarrow> int \<Rightarrow> int \<Rightarrow> u32 \<Rightarrow> u32 \<Rightarrow> fbuf \<Rightarrow> fbuf" where
  "line_loop 0 x y err deltax deltaerr diry color opt s = s"
| "line_loop (Suc k) x y err deltax deltaerr diry color opt s =
     (let s = fb_pixel x y color opt s; err = err + deltaerr in
      if err \<ge> deltax + 1 then line_loop k (x + 1) (y + diry) (err - (deltax + 1)) deltax deltaerr diry color opt s
      else line_loop k (x + 1) y err deltax deltaerr diry color opt s)"

definition fb_line :: "int \<Rightarrow> int \<Rightarrow> int \<Rightarrow> int \<Rightarrow> u32 \<Rightarrow> u32 \<Rightarrow> fbuf \<Rightarrow> fbuf" where
  "fb_line x0 y0 x1 y1 color opt s =
     (if x0 = x1 then fold (\<lambda>i. fb_pixel x0 (y0 + int i) color opt) [0..<nat (y1 - y0 + 1)] s
      else let diry = (if y1 - y0 > 0 then 1 else if y1 - y0 < 0 then - 1 else 0)
           in line_loop (nat (x1 - x0 + 1)) x0 y0 0 \<bar>x1 - x0\<bar> (\<bar>y1 - y0\<bar> + 1) diry color opt s)"

definition circle_points :: "int \<Rightarrow> int \<Rightarrow> int \<Rightarrow> int \<Rightarrow> u32 \<Rightarrow> u8 \<Rightarrow> u32 \<Rightarrow> fbuf \<Rightarrow> fbuf" where
  "circle_points X1 Y1 x y color fill opt s =
     (if fill = 0 then
        fb_pixel (X1 - x) (Y1 - y) color opt (fb_pixel (X1 - x) (Y1 + y) color opt
          (fb_pixel (X1 + x) (Y1 - y) color opt (fb_pixel (X1 + x) (Y1 + y) color opt s)))
      else fb_line (X1 - x) (Y1 - y) (X1 + x) (Y1 - y) color opt (fb_line (X1 - x) (Y1 + y) (X1 + x) (Y1 + y) color opt s))"

text \<open>The column \<open>x\<close> only grows from zero. In a round that keeps the row, the negative \<open>delta\<close> grows.\<close>

function circle_loop :: "int \<Rightarrow> int \<Rightarrow> nat \<Rightarrow> int \<Rightarrow> int \<Rightarrow> u32 \<Rightarrow> u8 \<Rightarrow> u32 \<Rightarrow> fbuf \<Rightarrow> fbuf" where
  "circle_loop X1 Y1 x y delta color fill opt s =
     (if y < 0 then s
      else let s = circle_points X1 Y1 (int x) y color fill opt s; err = 2 * (delta + y) - 1 in
        if delta < 0 \<and> err \<le> 0 then circle_loop X1 Y1 (x + 1) y (delta + 2 * int (x + 1) + 1) color fill opt s
        else if delta > 0 \<and> err > 0 then circle_loop X1 Y1 x (y - 1) (delta - (2 * (y - 1) + 1)) color fill opt s
        else circle_loop X1 Y1 (x + 1) (y - 1) (delta + 2 * (int (x + 1) - y)) color fill opt s)"
  by auto

termination circle_loop
  by (relation "measures [\<lambda>(X1, Y1, x, y, _). nat (y + 1), \<lambda>(X1, Y1, x, y, delta, _). nat (- delta)]") auto

declare circle_loop.simps [simp del]

definition fb_circle :: "int \<Rightarrow> int \<Rightarrow> int \<Rightarrow> u32 \<Rightarrow> u8 \<Rightarrow> u32 \<Rightarrow> fbuf \<Rightarrow> fbuf" where
  "fb_circle X1 Y1 R color fill opt s = circle_loop X1 Y1 0 R (1 - 2 * R) color fill opt s"

definition fb_rect :: "int \<Rightarrow> int \<Rightarrow> int \<Rightarrow> int \<Rightarrow> u32 \<Rightarrow> u8 \<Rightarrow> u32 \<Rightarrow> fbuf \<Rightarrow> fbuf" where
  "fb_rect x y sx sy color filled opt s =
     (if filled \<noteq> 0 then
        fold (\<lambda>i s.
          if back_buffer_enabled s = 0 \<and> opt = 0 then s
          else let offset = w16 (if opt \<noteq> 0 then x_opt_res s else x_res s) * (y + int i) + x;
                   bfr = (if opt \<noteq> 0 then opt else back_buffer s)
               in s\<lparr>vmem := memset_opt (bfr + word_of_int offset * 4) color (unat (word_of_int sx :: u32)) (vmem s)\<rparr>) [0..<nat sy] s
      else
        fb_line x (y + sx) (x + sx) (y + sx) color opt (fb_line x y x (y + sy) color opt
          (fb_line (x + sx) y (x + sx) (y + sy) color opt (fb_line x y (x + sx) y color opt s))))"

definition fb_triangle :: "int \<Rightarrow> int \<Rightarrow> int \<Rightarrow> int \<Rightarrow> int \<Rightarrow> int \<Rightarrow> u32 \<Rightarrow> u8 \<Rightarrow> u32 \<Rightarrow> fbuf \<Rightarrow> fbuf" where
  "fb_triangle x y x1 y1 x2 y2 color fill opt s =
     (if fill = 0 then fb_line x y x2 y2 color opt (fb_line x1 y1 x2 y2 color opt (fb_line x y x1 y1 color opt s)) else s)"

definition fb_inject_buffer :: "int \<Rightarrow> int \<Rightarrow> int \<Rightarrow> int \<Rightarrow> u32 \<Rightarrow> u32 \<Rightarrow> fbuf \<Rightarrow> fbuf" where
  "fb_inject_buffer x y bsx bsy buffer opt s =
     fold (\<lambda>i s.
       let res = (if opt \<noteq> 0 then x_opt_res s else x_res s); offset = w16 res * (y + int i) + x in
       if back_buffer_enabled s = 0 \<and> opt = 0 then s
       else let buf = (if opt \<noteq> 0 then opt else back_buffer s) in
         s\<lparr>vmem := memcpy_opt (buf + word_of_int offset * 4) (buffer + word_of_int (int i * bsx) * 4)
                      (unat (word_of_int bsx :: u32)) (vmem s)\<rparr>) [0..<nat bsy] s"

definition fb_optbuff_size :: "int \<Rightarrow> int \<Rightarrow> fbuf \<Rightarrow> fbuf" where
  "fb_optbuff_size x y s = s\<lparr>x_opt_res := word_of_int x, y_opt_res := word_of_int y\<rparr>"

subsection \<open>Lines\<close>

text \<open>The points of a line that is at least as wide as it is high.\<close>

definition line_points :: "int \<Rightarrow> int \<Rightarrow> int \<Rightarrow> int \<Rightarrow> (int \<times> int) list" where
  "line_points x0 y0 x1 y1 =
     map (\<lambda>k. (x0 + int k, y0 + sgn (y1 - y0) * (int k * (\<bar>y1 - y0\<bar> + 1) div (x1 - x0 + 1)))) [0..<nat (x1 - x0 + 1)]"

lemma line_loop_points:
  assumes "0 \<le> dy" "dy \<le> dx"
  shows "line_loop n (x0 + int k) (y0 + d * (int k * (dy + 1) div (dx + 1))) (int k * (dy + 1) mod (dx + 1)) dx (dy + 1) d c opt s
    = fold (\<lambda>(x, y). fb_pixel x y c opt) (map (\<lambda>j. (x0 + int j, y0 + d * (int j * (dy + 1) div (dx + 1)))) [k..<k + n]) s"
proof (induction n arbitrary: k s)
  case (Suc n)
  let ?q = "int k * (dy + 1) div (dx + 1)" and ?r = "int k * (dy + 1) mod (dx + 1)"
  have r: "0 \<le> ?r" "?r < dx + 1"
    using pos_mod_sign [of "dx + 1" "int k * (dy + 1)"] pos_mod_bound [of "dx + 1" "int k * (dy + 1)"] assms by linarith+
  have e: "int (Suc k) * (dy + 1) = ?q * (dx + 1) + (?r + (dy + 1))"
    using div_mult_mod_eq [of "int k * (dy + 1)" "dx + 1"] by (simp add: algebra_simps)
  have x: "x0 + int k + 1 = x0 + int (Suc k)" by simp
  have u: "[k..<k + Suc n] = k # [Suc k..<Suc k + n]" by (simp add: upt_conv_Cons)
  show ?case
  proof (cases "?r + (dy + 1) \<ge> dx + 1")
    case True
    have s1: "int (Suc k) * (dy + 1) = (?q + 1) * (dx + 1) + (?r + (dy + 1) - (dx + 1))" using e by (simp add: algebra_simps)
    have b: "0 \<le> ?r + (dy + 1) - (dx + 1)" "?r + (dy + 1) - (dx + 1) < dx + 1" using True r assms by linarith+
    have q1: "int (Suc k) * (dy + 1) div (dx + 1) = ?q + 1" "int (Suc k) * (dy + 1) mod (dx + 1) = ?r + (dy + 1) - (dx + 1)"
      unfolding s1 using b assms by (simp_all add: div_pos_pos_trivial mod_pos_pos_trivial)
    have y: "y0 + d * ?q + d = y0 + d * (?q + 1)" by (simp add: algebra_simps)
    show ?thesis using Suc.IH [of "Suc k" "fb_pixel (x0 + int k) (y0 + d * ?q) c opt s"] True
      unfolding u q1 by (simp add: Let_def x y del: of_nat_Suc)
  next
    case False
    then have b: "0 \<le> ?r + (dy + 1)" "?r + (dy + 1) < dx + 1" using r assms by linarith+
    have q1: "int (Suc k) * (dy + 1) div (dx + 1) = ?q" "int (Suc k) * (dy + 1) mod (dx + 1) = ?r + (dy + 1)"
      unfolding e using b assms by (simp_all add: div_pos_pos_trivial mod_pos_pos_trivial)
    show ?thesis using Suc.IH [of "Suc k" "fb_pixel (x0 + int k) (y0 + d * ?q) c opt s"] False
      unfolding u q1 by (simp add: Let_def x del: of_nat_Suc)
  qed
qed simp

text \<open>C37: the incremental line algorithm draws the rational line. For a line from left to right that is at
  least as wide as it is high, the loop with its error term colours exactly one pixel in every column, in
  column \<open>x0 + k\<close> the row at distance \<open>k * (|dy| + 1) div (dx + 1)\<close> from the start in the direction of the
  end, and it ends in \<open>(x1, y1)\<close>.\<close>

theorem fb_line_draws:
  assumes "x0 < x1" "\<bar>y1 - y0\<bar> \<le> x1 - x0"
  shows "fb_line x0 y0 x1 y1 c opt s = fold (\<lambda>(x, y). fb_pixel x y c opt) (line_points x0 y0 x1 y1) s
    \<and> hd (line_points x0 y0 x1 y1) = (x0, y0) \<and> last (line_points x0 y0 x1 y1) = (x1, y1)"
proof -
  let ?dx = "x1 - x0" and ?dy = "\<bar>y1 - y0\<bar>"
  have d: "(if y1 - y0 > 0 then 1 else if y1 - y0 < 0 then - 1 else 0) = sgn (y1 - y0)" by (simp add: sgn_if)
  have "fb_line x0 y0 x1 y1 c opt s = line_loop (nat (?dx + 1)) x0 y0 0 ?dx (?dy + 1) (sgn (y1 - y0)) c opt s"
    using assms(1) by (simp add: fb_line_def d Let_def)
  also have "\<dots> = fold (\<lambda>(x, y). fb_pixel x y c opt) (line_points x0 y0 x1 y1) s"
    using line_loop_points [of ?dy ?dx "nat (?dx + 1)" x0 0 y0 "sgn (y1 - y0)" c opt s] assms
    by (simp add: line_points_def)
  finally have draws: "fb_line x0 y0 x1 y1 c opt s = \<dots>" .
  have n: "nat (?dx + 1) = Suc (nat ?dx)" using assms by simp
  have "hd (line_points x0 y0 x1 y1) = (x0, y0)" unfolding line_points_def n by (simp add: upt_conv_Cons del: upt_Suc)
  moreover have "last (line_points x0 y0 x1 y1) = (x1, y1)"
  proof -
    have "?dx * (?dy + 1) = ?dy * (?dx + 1) + (?dx - ?dy)" by (simp add: algebra_simps)
    then have q: "?dx * (?dy + 1) div (?dx + 1) = ?dy" using assms by (simp add: div_pos_pos_trivial)
    have "last (line_points x0 y0 x1 y1) = (x0 + ?dx, y0 + sgn (y1 - y0) * (?dx * (?dy + 1) div (?dx + 1)))"
      unfolding line_points_def n using assms by simp
    then show ?thesis unfolding q by (simp add: sgn_mult_abs)
  qed
  ultimately show ?thesis using draws by simp
qed

definition fb_example :: fbuf where
  "fb_example = \<lparr>framebuffer = 0x40000000, x_res = 8, y_res = 8, x_opt_res = 0, y_opt_res = 0, back_buffer = LFB,
     back_buffer_enabled = 0, vmem = (\<lambda>_. 0), ioctls = []\<rparr>"

lemma fb_line_draws_witness:
  "fb_line 1 1 3 2 7 0 fb_example = fold (\<lambda>(x, y). fb_pixel x y 7 0) [(1, 1), (2, 1), (3, 2)] fb_example"
  using fb_line_draws [of 1 3 2 1 7 0 fb_example] by (simp add: line_points_def upt_rec)

text \<open>The right edge of the screen is one pixel too far. Drawing at \<open>x = x_res\<close>, which the bounds check
  lets through, colours the first pixel of the next row.\<close>

theorem fb_pixel_right_edge:
  assumes "0 \<le> y" "y < int (unat (y_res s))"
  shows "fb_pixel (int (unat (x_res s))) y c 0 s = fb_pixel 0 (y + 1) c 0 s"
  using assms by (auto simp: fb_pixel_def Let_def algebra_simps)

lemma fb_pixel_right_edge_witness: "fb_pixel 8 2 5 0 fb_example = fb_pixel 0 3 5 0 fb_example"
  using fb_pixel_right_edge [of 2 fb_example 5] by (simp add: fb_example_def)

text \<open>The mask of \<open>fb_char\<close> reads a font row from its highest bit.\<close>

lemma lookup_bits: "list_all (\<lambda>k. list_all (\<lambda>j. bit (lookup ! k) j = bit (of_nat k :: u8) (3 - j)) [0..<4]) [0..<16]"
  by (simp add: lookup_def upt_rec)

lemma lookup_at: "unat (n :: u8) < 16 \<Longrightarrow> j < 4 \<Longrightarrow> bit (lookup ! unat n) j = bit n (3 - j)"
proof -
  assume "unat n < 16" "j < 4"
  then have "unat n \<in> set [0..<16]" "j \<in> set [0..<4]" by simp_all
  then have "bit (lookup ! unat n) j = bit (of_nat (unat n) :: u8) (3 - j)"
    using lookup_bits unfolding list_all_iff by blast
  then show ?thesis by simp
qed

lemma lookup_high: "unat (n :: u8) < 16 \<Longrightarrow> 4 \<le> j \<Longrightarrow> \<not> bit (lookup ! unat n) j"
proof -
  assume n: "unat n < 16" "4 \<le> j"
  have "list_all (\<lambda>w. unat w < 2 ^ 4) lookup" by (simp add: lookup_def)
  moreover have "lookup ! unat n \<in> set lookup" using n(1) by (intro nth_mem) (simp add: lookup_def)
  ultimately have "unat (lookup ! unat n) < 2 ^ 4" unfolding list_all_iff by blast
  then have "take_bit 4 (unat (lookup ! unat n)) = unat (lookup ! unat n)" by (rule take_bit_nat_eq_self)
  then have "\<not> bit (unat (lookup ! unat n)) j" using n(2) by (metis bit_take_bit_iff not_less)
  then show ?thesis by (simp add: bit_unsigned_iff)
qed

lemma reverse_bits:
  assumes "j < 8"
  shows "(reverse n AND push_bit j 1 \<noteq> 0) = bit n (7 - j)"
proof -
  have lo: "unat (n AND 0xF) < 16" "unat (drop_bit 4 n) < 16"
  proof -
    have "(0xF :: u8) = mask 4" by (simp add: mask_eq_exp_minus_1)
    then have "unat (n AND 0xF) = unat n mod 2 ^ 4" by (simp only: unat_and_mask)
    then show "unat (n AND 0xF) < 16" by simp
    have "unat (drop_bit 4 n) = unat n div 16" by (simp add: drop_bit_eq_div unat_div)
    then show "unat (drop_bit 4 n) < 16" using unat_u8_less [of n] by linarith
  qed
  have m: "(0xF :: u8) = mask 4" by (simp add: mask_eq_exp_minus_1)
  have "bit (reverse n) j = bit n (7 - j)"
  proof (cases "j < 4")
    case True
    then have "bit (reverse n) j = bit (drop_bit 4 n) (3 - j)"
      using lookup_at [OF lo(2)] by (simp add: reverse_def bit_simps)
    moreover have "4 + (3 - j) = 7 - j" using True by simp
    ultimately show ?thesis by (simp add: bit_simps)
  next
    case False
    then have "bit (reverse n) j = bit (n AND 0xF) (3 - (j - 4))"
      using lookup_at [OF lo(1), of "j - 4"] lookup_high [OF lo(2), of j] assms by (simp add: reverse_def bit_simps)
    moreover have "3 - (j - 4) = 7 - j" "7 - j < 4" using False assms by simp_all
    ultimately show ?thesis unfolding m by (simp add: bit_simps)
  qed
  then show ?thesis by (simp add: push_bit_of_1 and_exp_eq_0_iff_not_bit)
qed

end
