(* ===== verification/Ps2.thy ===== *)
theory Ps2
  imports Interrupts
begin

text \<open>
  The PS/2 controller, keyboard and mouse, \<open>os/modules/ps2/main.c\<close>. Commands to the controller are port
  programs of theory Port_IO; the waits give up after 1001 polls. The state holds the module's variables,
  the interrupt tables of theory Interrupts with the log of port accesses, and what was written to the
  pipes \<open>/dev/kbd\<close> and \<open>/dev/mouse\<close> (theory Pipe). Console output is left out.
\<close>

subsection \<open>The controller\<close>

fun poll :: "device \<Rightarrow> (u8 \<Rightarrow> bool) \<Rightarrow> nat \<Rightarrow> io \<Rightarrow> u8 \<times> io" where
  "poll dev busy 0 h = (1, h)"
| "poll dev busy (Suc k) h =
     (let (v, h) = inb dev 0x64 h in if busy v then poll dev busy k h else (0, h))"

definition ps2_wait_write :: "device \<Rightarrow> io \<Rightarrow> u8 \<times> io" where
  "ps2_wait_write dev h = poll dev (\<lambda>v. GET_BIT v 1 \<noteq> 0) 1001 h"

definition ps2_wait_read :: "device \<Rightarrow> io \<Rightarrow> u8 \<times> io" where
  "ps2_wait_read dev h = poll dev (\<lambda>v. GET_BIT v 0 = 0) 1001 h"

text \<open>Wait, then write to a port; wait, then read the data port.\<close>

definition ps2_out :: "device \<Rightarrow> u16 \<Rightarrow> u8 \<Rightarrow> io \<Rightarrow> io" where
  "ps2_out dev port v h = outb port v (snd (ps2_wait_write dev h))"

definition ps2_device_read :: "device \<Rightarrow> io \<Rightarrow> u8 \<times> io" where
  "ps2_device_read dev h = inb dev 0x60 (snd (ps2_wait_read dev h))"

definition ps2_read_ram :: "device \<Rightarrow> u8 \<Rightarrow> io \<Rightarrow> u8 \<times> io" where
  "ps2_read_ram dev offset h = ps2_device_read dev (ps2_out dev 0x64 (0x20 + offset) h)"

definition ps2_write_ram :: "device \<Rightarrow> u8 \<Rightarrow> u8 \<Rightarrow> io \<Rightarrow> io" where
  "ps2_write_ram dev offset data h = ps2_out dev 0x60 data (ps2_out dev 0x64 (0x60 + offset) h)"

definition ps2_device_send :: "device \<Rightarrow> u8 \<Rightarrow> u8 \<Rightarrow> io \<Rightarrow> io" where
  "ps2_device_send dev main cmd h =
     (if main \<noteq> 0 then ps2_out dev 0x60 cmd h else ps2_out dev 0x60 cmd (ps2_out dev 0x64 0xD4 h))"

record mouse_packet =
  x_mov :: u32
  y_mov :: u32
  buttons :: u8

record ps2 =
  ps2_kbd :: u8
  ps2_kbd_scncd_set :: u8
  ps2_mouse :: u8
  ms_pack_part :: u8
  pack_bytes :: "u8 list"
  intr :: kintr
  kbd_out :: "u8 list"
  mouse_out :: "mouse_packet list"
  opened :: "string list"

abbreviation upd_io :: "(io \<Rightarrow> io) \<Rightarrow> ps2 \<Rightarrow> ps2" where
  "upd_io f s \<equiv> s\<lparr>intr := (intr s)\<lparr>iolog := f (iolog (intr s))\<rparr>\<rparr>"

definition with_io :: "(io \<Rightarrow> 'a \<times> io) \<Rightarrow> ps2 \<Rightarrow> 'a \<times> ps2" where
  "with_io f s = (let (v, h) = f (iolog (intr s)) in (v, upd_io (\<lambda>_. h) s))"

text \<open>One port: what the device answers to the identification decides what it is. A device that does not
  answer is taken for a keyboard.\<close>

definition identify :: "device \<Rightarrow> u8 \<Rightarrow> ps2 \<Rightarrow> ps2" where
  "identify dev main s =
     (let s = upd_io (ps2_device_send dev main 0xF5) s;
          (_, s) = with_io (ps2_device_read dev) s;
          s = upd_io (ps2_device_send dev main 0xF2) s;
          (w, s) = with_io (ps2_wait_read dev) s;
          s = (if w \<noteq> 0 then s\<lparr>ps2_kbd := main\<rparr> else s);
          (_, s) = with_io (ps2_device_read dev) s;
          (resp, s) = with_io (ps2_device_read dev) s;
          (w, s) = with_io (ps2_wait_read dev) s;
          s = (if w = 0 then snd (with_io (ps2_device_read dev) s) else s);
          s = (if resp = 0 \<or> resp = 3 \<or> resp = 4 then s\<lparr>ps2_mouse := main\<rparr> else s)
      in if resp = 0xAB then s\<lparr>ps2_kbd := main\<rparr> else s)"

definition ps2_map_devices :: "device \<Rightarrow> u8 \<Rightarrow> ps2 \<Rightarrow> ps2" where
  "ps2_map_devices dev dual s =
     (let s = identify dev 1 s in if dual = 0 then s else identify dev 0 s)"

definition init_ps2_controller :: "device \<Rightarrow> ps2 \<Rightarrow> u8 \<times> ps2" where
  "init_ps2_controller dev s =
     (let s = upd_io (ps2_out dev 0x64 0xAE) s;
          s = upd_io (ps2_out dev 0x64 0xA7) s;
          (_, s) = with_io (inb dev 0x60) s;
          s = upd_io (ps2_out dev 0x64 0x20) s;
          (cfg, s) = with_io (ps2_device_read dev) s;
          cfg = cfg AND NOT (push_bit 0 1) AND NOT (push_bit 1 1) AND NOT (push_bit 6 1);
          dual_port = GET_BIT cfg 5;
          s = upd_io (ps2_out dev 0x60 cfg \<circ> ps2_out dev 0x64 0x60) s;
          s = upd_io (ps2_out dev 0x64 0xAA) s;
          (resp, s) = with_io (ps2_device_read dev) s
      in if resp \<noteq> 0x55 then (0, s)
         else let s = upd_io (ps2_out dev 0x64 0xAB) s;
                  (resp, s) = with_io (ps2_device_read dev) s
              in if resp \<noteq> 0 then (1, s)
                 else let s = (if dual_port \<noteq> 0
                               then snd (with_io (ps2_device_read dev) (upd_io (ps2_out dev 0x64 0xA9) s)) else s);
                          s = upd_io (ps2_out dev 0x64 0xAD) s;
                          s = (if dual_port \<noteq> 0 then upd_io (ps2_out dev 0x64 0xA8) s else s);
                          cfg = cfg OR push_bit 0 1 OR push_bit 1 1;
                          s = upd_io (ps2_out dev 0x60 cfg \<circ> ps2_out dev 0x64 0x60) s;
                          s = upd_io (ps2_device_send dev 1 0xFF) s;
                          s = (if dual_port \<noteq> 0 then upd_io (ps2_device_send dev 0 0xFF) s else s)
                      in (1, ps2_map_devices dev dual_port s))"

subsection \<open>The keyboard\<close>

definition kbd_irq :: "ps2 \<Rightarrow> u8" where
  "kbd_irq s = (if ps2_kbd s \<noteq> 0 then 1 else 12)"

definition ps2_kbd_int_handler :: "device \<Rightarrow> ps2 \<Rightarrow> ps2" where
  "ps2_kbd_int_handler dev s =
     (let (scancode, s) = with_io (inb dev 0x60) s
      in upd_io (irq_end (kbd_irq s)) (s\<lparr>kbd_out := kbd_out s @ [scancode]\<rparr>))"

partial_function (option) skip_acks :: "device \<Rightarrow> io \<Rightarrow> (u8 \<times> io) option" where
  "skip_acks dev h =
     (let (resp, h) = ps2_device_read dev h in if resp = 0xFA then skip_acks dev h else Some (resp, h))"

text \<open>\<open>handler\<close> is the address of the interrupt handler.\<close>

definition init_ps2_kbd :: "device \<Rightarrow> u32 \<Rightarrow> ps2 \<Rightarrow> (u8 \<times> ps2) res option" where
  "init_ps2_kbd dev handler s =
     (let s = upd_io (\<lambda>h. h @ [Cli]) s in
      if ps2_kbd s = 0xFF then Some (Inr (0, s))
      else let s = upd_io (ps2_device_send dev (ps2_kbd s) 0xEE) s;
               (_, s) = with_io (ps2_device_read dev) s;
               s = upd_io (ps2_device_send dev (ps2_kbd s) 0xF0) s;
               s = upd_io (ps2_device_send dev (ps2_kbd s) 1) s;
               s = upd_io (ps2_device_send dev (ps2_kbd s) 0xF0) s;
               s = upd_io (ps2_device_send dev (ps2_kbd s) 0) s;
               (resp, s) = with_io (ps2_device_read dev) s
           in Option.bind (if resp = 0xFA
                           then map_option (\<lambda>(r, h). upd_io (\<lambda>_. h) s\<lparr>ps2_kbd_scncd_set := r\<rparr>) (skip_acks dev (iolog (intr s)))
                           else Some s) (\<lambda>s.
             let s = s\<lparr>opened := opened s @ [''/dev/kbd'']\<rparr> in
             Some (sbind (irq_set_handler (kbd_irq s) handler (intr s)) (\<lambda>i.
               let s = s\<lparr>intr := i\<rparr>;
                   s = upd_io (ps2_device_send dev (ps2_kbd s) 0xF4) s;
                   (_, s) = with_io (ps2_device_read dev) s
               in Inr (1, upd_io (\<lambda>h. h @ [Sti]) s)))))"

subsection \<open>The mouse\<close>

text \<open>The three bytes of a packet: flags, horizontal and vertical movement. \<open>mouse_out\<close> is the sequence of packets
  passed to \<open>kwrite\<close>, not the content of the pipe, which holds 3072 bytes.\<close>

definition mouse_decode :: "u8 list \<Rightarrow> mouse_packet" where
  "mouse_decode p =
     (let x = (ucast (p ! 1) :: u32); x = (if x \<noteq> 0 \<and> p ! 0 AND push_bit 4 1 \<noteq> 0 then x - 0x100 else x);
          y = (ucast (p ! 2) :: u32); y = (if y \<noteq> 0 \<and> p ! 0 AND push_bit 5 1 \<noteq> 0 then y - 0x100 else y);
          over = (p ! 0 AND push_bit 6 1 \<noteq> 0 \<or> p ! 0 AND push_bit 7 1 \<noteq> 0)
      in \<lparr>x_mov = (if over then 0 else x), y_mov = (if over then 0 else y), buttons = p ! 0 AND 7\<rparr>)"

definition ps2_mouse_byte :: "u8 \<Rightarrow> ps2 \<Rightarrow> ps2 res" where
  "ps2_mouse_byte b s =
     (if ms_pack_part s = 0 \<and> b AND push_bit 3 1 = 0 then Inr s
      else sbind (store_at (pack_bytes s) (unat (ms_pack_part s)) b) (\<lambda>p.
        let s = s\<lparr>pack_bytes := p\<rparr> in
        Inr (if ms_pack_part s = 2 then s\<lparr>mouse_out := mouse_out s @ [mouse_decode p], ms_pack_part := 0\<rparr>
             else s\<lparr>ms_pack_part := ms_pack_part s + 1\<rparr>)))"

definition ps2_mouse_int_handler :: "device \<Rightarrow> ps2 \<Rightarrow> ps2 res" where
  "ps2_mouse_int_handler dev s =
     (let (b, s) = with_io (inb dev 0x60) s
      in sbind (ps2_mouse_byte b s) (\<lambda>s. Inr (upd_io (irq_end 12) s)))"

definition init_ps2_mouse :: "device \<Rightarrow> u32 \<Rightarrow> ps2 \<Rightarrow> (u8 \<times> ps2) res" where
  "init_ps2_mouse dev handler s =
     (if ps2_mouse s = 0xFF then Inr (0, s)
      else let s = upd_io (\<lambda>h. h @ [Cli]) s;
               s = upd_io (ps2_device_send dev (ps2_mouse s) 0xF6) s;
               (_, s) = with_io (ps2_device_read dev) s
           in sbind (irq_set_handler 12 handler (intr s)) (\<lambda>i.
             let s = s\<lparr>intr := i\<rparr>;
                 s = upd_io (ps2_device_send dev (ps2_mouse s) 0xF4) s;
                 (_, s) = with_io (ps2_device_read dev) s;
                 s = s\<lparr>opened := opened s @ [''/dev/mouse'']\<rparr>
             in Inr (1, upd_io (\<lambda>h. h @ [Sti]) s)))"

definition ps2_load :: "device \<Rightarrow> u32 \<Rightarrow> u32 \<Rightarrow> ps2 \<Rightarrow> (u8 \<times> ps2) res option" where
  "ps2_load dev kbd_handler mouse_handler s =
     (let (r, s) = init_ps2_controller dev s in
      if r = 0 then Some (Inr (1, s))
      else res_bind (init_ps2_kbd dev kbd_handler s) (\<lambda>(_, s).
        Some (sbind (init_ps2_mouse dev mouse_handler s) (\<lambda>(_, s). Inr (0, s)))))"

subsection \<open>Movements\<close>

text \<open>The packet a mouse sends for a movement and three buttons.\<close>

definition mouse_encode :: "int \<Rightarrow> int \<Rightarrow> u8 \<Rightarrow> u8 list" where
  "mouse_encode dx dy btn =
     [(btn AND 7) OR 8 OR (if dx < 0 then 16 else 0) OR (if dy < 0 then 32 else 0), word_of_int dx, word_of_int dy]"

lemma and_push_bit_u8: "n < 8 \<Longrightarrow> ((w :: u8) AND push_bit n 1 \<noteq> 0) = bit w n"
  by (simp add: push_bit_of_1 and_exp_eq_0_iff_not_bit)

lemma and_bits_u8:
  "((w :: u8) AND 8 = 0) = (\<not> bit w 3)" "(w AND 16 = 0) = (\<not> bit w 4)" "(w AND 32 = 0) = (\<not> bit w 5)"
  "(w AND 64 = 0) = (\<not> bit w 6)" "(w AND 128 = 0) = (\<not> bit w 7)"
  using and_push_bit_u8 [of 3 w] and_push_bit_u8 [of 4 w] and_push_bit_u8 [of 5 w] and_push_bit_u8 [of 6 w]
    and_push_bit_u8 [of 7 w] by auto

lemma sign_extend:
  assumes "- 256 < d" "d < 256"
  shows "(let x = (ucast (word_of_int d :: u8) :: u32) in if x \<noteq> 0 \<and> d < 0 then x - 0x100 else x) = word_of_int d"
proof -
  have u: "uint (word_of_int d :: u8) = d mod 256" by (simp add: uint_word_of_int)
  have c: "(ucast (word_of_int d :: u8) :: u32) = word_of_int (d mod 256)"
    by (rule word_uint_eqI) (simp add: uint_word_of_int unsigned_ucast_eq u take_bit_eq_mod)
  show ?thesis
  proof (cases "d < 0")
    case True
    have "(d + 256) mod 256 = d + 256" using True assms by (intro mod_pos_pos_trivial) auto
    then have m: "d mod 256 = d + 256" by simp
    have "(word_of_int (d + 256) :: u32) \<noteq> 0"
    proof
      assume "(word_of_int (d + 256) :: u32) = 0"
      then have "uint (word_of_int (d + 256) :: u32) = 0" by (simp del: of_int_add)
      then have "(d + 256) mod 4294967296 = 0" unfolding uint_word_of_int by simp
      then show False using True assms by (simp add: mod_pos_pos_trivial)
    qed
    then show ?thesis using True unfolding c m by (simp add: Let_def)
  next
    case False
    then have "d mod 256 = d" using assms by simp
    then show ?thesis using False unfolding c by (simp add: Let_def)
  qed
qed

lemma mouse_decode_encode:
  assumes "- 256 < dx" "dx < 256" "- 256 < dy" "dy < 256"
  shows "mouse_decode (mouse_encode dx dy btn) = \<lparr>x_mov = word_of_int dx, y_mov = word_of_int dy, buttons = btn AND 7\<rparr>"
proof -
  let ?f = "(btn AND 7) OR 8 OR (if dx < 0 then 16 else 0) OR (if dy < 0 then 32 else 0) :: u8"
  have b: "bit ?f 4 = (dx < 0)" "bit ?f 5 = (dy < 0)" "\<not> bit ?f 6" "\<not> bit ?f 7"
    by (auto simp: bit_simps)
  have "?f AND 7 = btn AND 7"
    by (simp add: bit.conj_disj_distrib2 and.assoc)
  then show ?thesis
    using sign_extend [OF assms(1,2)] sign_extend [OF assms(3,4)] b
    by (simp add: mouse_decode_def mouse_encode_def and_bits_u8 Let_def)
qed

fun mouse_bytes :: "u8 list \<Rightarrow> ps2 \<Rightarrow> ps2 res" where
  "mouse_bytes [] s = Inr s"
| "mouse_bytes (b # bs) s = sbind (ps2_mouse_byte b s) (mouse_bytes bs)"

lemma mouse_packet_bytes:
  assumes "ms_pack_part s = 0" "length (pack_bytes s) = 3" "bit f 3"
  shows "\<exists>s'. mouse_bytes ([f, x, y] @ bs) s = mouse_bytes bs s' \<and> ms_pack_part s' = 0 \<and> length (pack_bytes s') = 3
    \<and> mouse_out s' = mouse_out s @ [mouse_decode [f, x, y]]"
proof -
  obtain p q r where p: "pack_bytes s = [p, q, r]" using assms(2) by (auto simp: numeral_3_eq_3 length_Suc_conv)
  have "mouse_bytes ([f, x, y] @ bs) s = mouse_bytes bs (s\<lparr>pack_bytes := [f, x, y],
      mouse_out := mouse_out s @ [mouse_decode [f, x, y]], ms_pack_part := 0\<rparr>)"
    using assms(1,3) p by (simp add: ps2_mouse_byte_def store_at_def and_bits_u8 Let_def)
  then show ?thesis by (intro exI conjI) (assumption, simp_all)
qed

text \<open>C38: the mouse handler reconstructs every movement. From a state between two packets, the bytes of any
  sequence of movements of less than 256 units in either direction leave exactly these movements and
  buttons, in order, as the packets handed to \<open>kwrite\<close> for the mouse pipe, and the handler again between two
  packets. (The pipe of 3072 bytes takes as many of them as have room until a client reads.)\<close>

theorem mouse_stream_decoded:
  assumes "ms_pack_part s = 0" "length (pack_bytes s) = 3"
    "list_all (\<lambda>(dx, dy, btn). - 256 < dx \<and> dx < 256 \<and> - 256 < dy \<and> dy < 256) ms"
  shows "\<exists>s'. mouse_bytes (concat (map (\<lambda>(dx, dy, btn). mouse_encode dx dy btn) ms)) s = Inr s' \<and> ms_pack_part s' = 0
    \<and> mouse_out s' = mouse_out s @ map (\<lambda>(dx, dy, btn). \<lparr>x_mov = word_of_int dx, y_mov = word_of_int dy, buttons = btn AND 7\<rparr>) ms"
  using assms
proof (induction ms arbitrary: s)
  case (Cons m ms)
  obtain dx dy btn where m: "m = (dx, dy, btn)" by (cases m)
  have r: "- 256 < dx" "dx < 256" "- 256 < dy" "dy < 256" using Cons.prems(3) by (simp_all add: m)
  obtain f x y where e: "mouse_encode dx dy btn = [f, x, y]" "bit f 3" by (auto simp: mouse_encode_def bit_simps)
  obtain s1 where s1: "mouse_bytes ([f, x, y] @ concat (map (\<lambda>(dx, dy, btn). mouse_encode dx dy btn) ms)) s
      = mouse_bytes (concat (map (\<lambda>(dx, dy, btn). mouse_encode dx dy btn) ms)) s1"
      "ms_pack_part s1 = 0" "length (pack_bytes s1) = 3" "mouse_out s1 = mouse_out s @ [mouse_decode [f, x, y]]"
    using mouse_packet_bytes [OF Cons.prems(1,2) e(2)] by blast
  have "mouse_decode [f, x, y] = \<lparr>x_mov = word_of_int dx, y_mov = word_of_int dy, buttons = btn AND 7\<rparr>"
    using mouse_decode_encode [OF r, of btn] e(1) by simp
  then show ?case using Cons.IH [OF s1(2,3)] Cons.prems(3) s1(1,4) e(1) by (auto simp: m)
qed simp

definition ps2_example :: ps2 where
  "ps2_example = \<lparr>ps2_kbd = 1, ps2_kbd_scncd_set = 2, ps2_mouse = 0, ms_pack_part = 0, pack_bytes = [0, 0, 0],
     intr = \<lparr>irq_handlers = replicate 16 0, isr_handlers = [], interrupt_locker = 0, iolog = []\<rparr>,
     kbd_out = [], mouse_out = [], opened = []\<rparr>"

lemma mouse_stream_decoded_witness:
  "\<exists>s'. mouse_bytes (mouse_encode (- 3) 200 1 @ mouse_encode 7 (- 255) 0) ps2_example = Inr s'
     \<and> map x_mov (mouse_out s') = [- 3, 7] \<and> map y_mov (mouse_out s') = [200, - 255]"
proof -
  have "\<exists>s'. mouse_bytes (concat (map (\<lambda>(dx, dy, btn). mouse_encode dx dy btn) [(- 3, 200, 1), (7, - 255, 0)])) ps2_example = Inr s'
    \<and> ms_pack_part s' = 0 \<and> mouse_out s' = mouse_out ps2_example @ map (\<lambda>(dx, dy, btn). \<lparr>x_mov = word_of_int dx, y_mov = word_of_int dy, buttons = btn AND 7\<rparr>)
        [(- 3, 200, 1), (7, - 255, 0)]"
    by (rule mouse_stream_decoded) (simp_all add: ps2_example_def)
  then show ?thesis by (auto simp: ps2_example_def)
qed

text \<open>Without a keyboard the interrupts stay off. \<open>init_ps2_kbd\<close> clears the interrupt flag before it looks
  for a keyboard and returns without setting it again when there is none.\<close>

theorem init_ps2_kbd_leaves_cli:
  assumes "ps2_kbd s = 0xFF"
  shows "\<exists>s'. init_ps2_kbd dev handler s = Some (Inr (0, s')) \<and> iolog (intr s') = iolog (intr s) @ [Cli]"
  using assms by (simp add: init_ps2_kbd_def Let_def)

lemma init_ps2_kbd_leaves_cli_witness:
  "\<exists>s'. init_ps2_kbd (\<lambda>_ _. 0) 0 (ps2_example\<lparr>ps2_kbd := 0xFF\<rparr>) = Some (Inr (0, s')) \<and> iolog (intr s') = [Cli]"
  using init_ps2_kbd_leaves_cli [of "ps2_example\<lparr>ps2_kbd := 0xFF\<rparr>" "\<lambda>_ _. 0" 0] by (simp add: ps2_example_def)

end
