(* ===== verification/Fat.thy ===== *)
theory Fat
  imports Smpl_Prelude
begin

text \<open>
  The FAT file system driver, \<open>os/modules/ramdisk_modules/fat/main.c\<close>. It works on a block device that it
  reads through \<open>kread\<close>: the parameter \<open>rd\<close>, which gives the bytes of a sector, or \<open>None\<close> in their
  place when the device reports an error and leaves the buffer alone, and threads the state of the
  device. Theory Fat_Ata instantiates it with the disk driver. Sectors, blocks and buffers are byte
  lists; an access past their end is \<open>Wild\<close>. A node of the file system holds its cluster entry where the
  code has a pointer to it. Blocks from \<open>kmalloc\<close> hold what they held before: \<open>blk\<close>, where a name is made the
  content of one block, in a search or a listing a function that gives the content of the block for the n-th name.
\<close>

subsection \<open>Byte lists\<close>

definition le16 :: "u8 list \<Rightarrow> nat \<Rightarrow> u16" where
  "le16 b i = ucast (b ! i) OR push_bit 8 (ucast (b ! (i + 1)))"

definition le32 :: "u8 list \<Rightarrow> nat \<Rightarrow> u32" where
  "le32 b i = ucast (le16 b i) OR push_bit 16 (ucast (le16 b (i + 2)))"

definition slice :: "nat \<Rightarrow> nat \<Rightarrow> 'a list \<Rightarrow> 'a list" where
  "slice off n b = take n (drop off b)"

definition overlay :: "nat \<Rightarrow> u8 list \<Rightarrow> u8 list \<Rightarrow> u8 list res" where
  "overlay off b buf =
     (if off + length b \<le> length buf then Inr (take off buf @ b @ drop (off + length b) buf) else Inl Wild)"

type_synonym 's blockdev = "u64 \<Rightarrow> 's \<Rightarrow> (u8 list option \<times> 's) option"

definition read_block :: "'s blockdev \<Rightarrow> u64 \<Rightarrow> nat \<Rightarrow> u8 list \<Rightarrow> 's \<Rightarrow> (u8 list \<times> 's) res option" where
  "read_block rd lba off buf s = (case rd lba s of
       None \<Rightarrow> None
     | Some (None, s) \<Rightarrow> Some (Inr (buf, s))
     | Some (Some b, s) \<Rightarrow> Some (sbind (overlay off b buf) (\<lambda>buf. Inr (buf, s))))"

subsection \<open>Structures on disk\<close>

record fat_bpb =
  bytes_per_sector :: u16
  sectors_per_cluster :: u8
  reserved_sectors :: u16
  fat_count :: u8
  dirent_count :: u16
  sectors_per_fat :: u32
  root_cluster :: u32
  signature16 :: u8
  signature32 :: u8

definition bpb_of :: "u8 list \<Rightarrow> fat_bpb" where
  "bpb_of b = \<lparr>bytes_per_sector = le16 b 11, sectors_per_cluster = b ! 13, reserved_sectors = le16 b 14,
     fat_count = b ! 16, dirent_count = le16 b 17, sectors_per_fat = le32 b 36, root_cluster = le32 b 44,
     signature16 = b ! 38, signature32 = b ! 66\<rparr>"

record fat_dirent =
  short_name :: "u8 list"
  attribs :: u8
  first_cluster_high :: u16
  first_cluster_low :: u16
  file_size :: u32

definition dirent_of :: "u8 list \<Rightarrow> fat_dirent" where
  "dirent_of e = \<lparr>short_name = take 11 e, attribs = e ! 11, first_cluster_high = le16 e 20,
     first_cluster_low = le16 e 26, file_size = le32 e 28\<rparr>"

record fat_lfe =
  first_chars :: "u8 list"
  mid_chars :: "u8 list"
  end_chars :: "u8 list"

definition lfe_of :: "u8 list \<Rightarrow> fat_lfe" where
  "lfe_of e = \<lparr>first_chars = slice 1 10 e, mid_chars = slice 14 12 e, end_chars = slice 28 4 e\<rparr>"

text \<open>\<open>fat_cluster_entry_t\<close> without the pointer to the parameter block, which the node holds.\<close>

record fat_entry =
  dirent :: "fat_dirent option"
  lfe :: "fat_lfe option"

record fat_node =
  fname :: "u8 list"
  fsize :: u32
  mountpoint :: bool
  fentry :: "(fat_dirent \<times> fat_lfe option \<times> fat_bpb) option"

subsection \<open>Directory entries and names\<close>

definition fat_entry_type :: "u8 list \<Rightarrow> nat" where
  "fat_entry_type e = (if e ! 0 = 0 then 0 else if e ! 0 = 0xE5 then 2 else if e ! 11 = 0x0F then 3 else 1)"

text \<open>
  The name stops at the first blank of the eight, the extension follows a dot. The terminator is put two
  behind the extension, so one byte of the 12 of the block stays what it was. A name of seven characters
  puts it behind the block, one of eight takes the position from a variable that was never set.
\<close>

definition c_string :: "u8 list \<Rightarrow> u8 list" where
  "c_string b = takeWhile (\<lambda>c. c \<noteq> 0) b"

definition dirent2str :: "u8 list \<Rightarrow> fat_dirent \<Rightarrow> u8 list res" where
  "dirent2str blk d =
     (let i = length (takeWhile (\<lambda>c. c \<noteq> 32) (take 8 (short_name d))) in
      if i < 7 then Inr (c_string (take i (short_name d) @ [46] @ slice 8 3 (short_name d) @ [blk ! (i + 4), 0]))
      else Inl Wild)"

text \<open>Long names: one character of the three fields after the other, each of two bytes.\<close>

definition lfe_at :: "fat_lfe \<Rightarrow> nat \<Rightarrow> u8 res" where
  "lfe_at e i = (if i < 5 then load_at (first_chars e) (2 * i)
     else if i < 11 then load_at (mid_chars e) (2 * (i - 5)) else load_at (end_chars e) (2 * (i - 11)))"

fun lfe_loop :: "fat_lfe \<Rightarrow> nat \<Rightarrow> nat \<Rightarrow> u8 list res" where
  "lfe_loop e i 0 = Inr []"
| "lfe_loop e i (Suc k) =
     sbind (lfe_at e i) (\<lambda>c.
       if c = 0 then Inr [] else sbind (lfe_loop e (i + 1) k) (\<lambda>cs. Inr (c # cs)))"

definition lfe2str :: "fat_lfe \<Rightarrow> u8 list res" where
  "lfe2str e = lfe_loop e 0 26"

subsection \<open>Clusters\<close>

definition first_data_sector :: "fat_bpb \<Rightarrow> u32 res" where
  "first_data_sector bpb =
     (let bps = ucast (bytes_per_sector bpb) in
      if bps = 0 then Inl DivZero
      else let root_dir_sectors = (ucast (dirent_count bpb) * 32 + (bps - 1)) div bps
           in Inr (ucast (reserved_sectors bpb) + ucast (fat_count bpb) * sectors_per_fat bpb + root_dir_sectors))"

definition cluster_sector :: "fat_bpb \<Rightarrow> u32 \<Rightarrow> u32 res" where
  "cluster_sector bpb cluster =
     sbind (first_data_sector bpb) (\<lambda>f. Inr ((cluster - 2) * ucast (sectors_per_cluster bpb) + f))"

text \<open>The successor in the allocation table; a table that cannot be read leaves uninitialised memory.\<close>

definition fat_next :: "'s blockdev \<Rightarrow> fat_bpb \<Rightarrow> u32 \<Rightarrow> 's \<Rightarrow> (u32 \<times> 's) res option" where
  "fat_next rd bpb cluster s =
     (let bps = ucast (bytes_per_sector bpb); fat_offset = cluster * 4;
          fat_sector = ucast (reserved_sectors bpb) + fat_offset div bps;
          ent_offset = unat (fat_offset mod bps)
      in case rd (ucast fat_sector) s of
           None \<Rightarrow> None
         | Some (None, s) \<Rightarrow> Some (Inl Wild)
         | Some (Some b, s) \<Rightarrow>
             if unat (bytes_per_sector bpb) < length b \<or> length b < ent_offset + 4 then Some (Inl Wild)
             else let next_cluster = le32 b ent_offset AND 0x0FFFFFFF
                  in Some (Inr (if next_cluster \<ge> 0x0FFFFFF8 \<or> next_cluster = 0x0FFFFFF7 then 0 else next_cluster, s)))"

fun read_sectors :: "'s blockdev \<Rightarrow> u32 \<Rightarrow> nat \<Rightarrow> nat \<Rightarrow> nat \<Rightarrow> u8 list \<Rightarrow> 's \<Rightarrow> (u8 list \<times> 's) res option" where
  "read_sectors rd sec bps i 0 buf s = Some (Inr (buf, s))"
| "read_sectors rd sec bps i (Suc k) buf s =
     res_bind (read_block rd (ucast (sec + of_nat i)) (i * bps) buf s) (\<lambda>(buf, s).
       read_sectors rd sec bps (i + 1) k buf s)"

definition fat_read_cluster :: "'s blockdev \<Rightarrow> fat_bpb \<Rightarrow> u32 \<Rightarrow> u8 list option \<Rightarrow> 's \<Rightarrow> (u32 \<times> u8 list option \<times> 's) res option" where
  "fat_read_cluster rd bpb cluster buffer s =
     res_bind (Some (cluster_sector bpb cluster)) (\<lambda>sec.
     res_bind (case buffer of None \<Rightarrow> Some (Inr (None, s))
               | Some buf \<Rightarrow> res_bind (read_sectors rd sec (unat (bytes_per_sector bpb)) 0 (unat (sectors_per_cluster bpb)) buf s)
                   (\<lambda>(buf, s). Some (Inr (Some buf, s)))) (\<lambda>(buffer, s).
     res_bind (fat_next rd bpb cluster s) (\<lambda>(next, s). Some (Inr (next, buffer, s)))))"

text \<open>
  One sector of a directory. A long entry is kept until the next short one, deleted entries in between or
  not; the first flag says that the end of the directory was met.
\<close>

fun parse_sector :: "u8 list \<Rightarrow> nat \<Rightarrow> nat \<Rightarrow> nat \<Rightarrow> fat_lfe option \<Rightarrow> fat_entry list \<Rightarrow> (bool \<times> fat_lfe option \<times> fat_entry list) res" where
  "parse_sector b at i 0 lf es = Inr (False, lf, es)"
| "parse_sector b at i (Suc k) lf es =
     (if length b < 32 * i + 32 then Inl Wild
      else let e = slice (32 * i) 32 b; t = fat_entry_type e in
        if t = 0 then Inr (True, lf, es)
        else if t = 1 then parse_sector b at (i + 1) k None (es[at + i := \<lparr>dirent = Some (dirent_of e), lfe = lf\<rparr>])
        else parse_sector b at (i + 1) k (if t = 3 then Some (lfe_of e) else lf) (es[at + i := \<lparr>dirent = None, lfe = None\<rparr>]))"

fun parse_sectors :: "'s blockdev \<Rightarrow> u32 \<Rightarrow> nat \<Rightarrow> nat \<Rightarrow> nat \<Rightarrow> fat_lfe option \<Rightarrow> fat_entry list \<Rightarrow> 's \<Rightarrow> (fat_entry list \<times> 's) res option" where
  "parse_sectors rd sec bps i 0 lf es s = Some (Inr (es, s))"
| "parse_sectors rd sec bps i (Suc k) lf es s =
     res_bind (read_block rd (ucast (sec + of_nat i)) 0 (replicate bps 0) s) (\<lambda>(b, s).
     res_bind (Some (parse_sector b (16 * i) 0 16 lf es)) (\<lambda>(flag, lf, es).
       if flag then Some (Inr (es, s)) else parse_sectors rd sec bps (i + 1) k lf es s))"

definition fat_parse_cluster :: "'s blockdev \<Rightarrow> fat_bpb \<Rightarrow> u32 \<Rightarrow> fat_entry list \<Rightarrow> 's \<Rightarrow> (u32 \<times> fat_entry list \<times> 's) res option" where
  "fat_parse_cluster rd bpb cluster es s =
     res_bind (Some (cluster_sector bpb cluster)) (\<lambda>sec.
     res_bind (parse_sectors rd sec (unat (bytes_per_sector bpb)) 0 (unat (sectors_per_cluster bpb)) None es s) (\<lambda>(es, s).
     res_bind (fat_next rd bpb cluster s) (\<lambda>(next, s). Some (Inr (next, es, s)))))"

subsection \<open>The file system operations\<close>

text \<open>Mounting: \<open>root\<close> keeps its other fields; the fields of the root entry that are not set are stale.\<close>

definition fat_mount :: "'s blockdev \<Rightarrow> u8 list \<Rightarrow> fat_dirent \<Rightarrow> bool \<Rightarrow> fat_node \<Rightarrow> 's \<Rightarrow> (fat_node \<times> 's) res option" where
  "fat_mount rd blk fresh dev_ok root s =
     (if \<not> dev_ok then Some (Inr (root, s))
      else res_bind (read_block rd 0 0 blk s) (\<lambda>(b, s).
        let bpb = bpb_of b in
        if signature32 bpb \<noteq> 0x28 \<and> signature32 bpb \<noteq> 0x29 \<and> signature16 bpb \<noteq> 0x28 \<and> signature16 bpb \<noteq> 0x29
        then Some (Inr (root, s))
        else Some (Inr (root\<lparr>fentry := Some (fresh\<lparr>attribs := 0x10, short_name := take 11 (fname root @ replicate 11 0)\<rparr>, None, bpb)\<rparr>, s))))"

definition start_cluster :: "fat_node \<Rightarrow> fat_dirent \<Rightarrow> fat_bpb \<Rightarrow> u32" where
  "start_cluster n d bpb = (if mountpoint n then root_cluster bpb
     else push_bit 16 (ucast (first_cluster_high d)) + ucast (first_cluster_low d))"

definition empty_entries :: "fat_bpb \<Rightarrow> fat_entry list" where
  "empty_entries bpb = replicate (16 * unat (sectors_per_cluster bpb)) \<lparr>dirent = None, lfe = None\<rparr>"

definition entry_names :: "u8 list \<Rightarrow> fat_dirent \<Rightarrow> fat_lfe option \<Rightarrow> (u8 list \<times> u8 list) res" where
  "entry_names blk d l = sbind (dirent2str blk d) (\<lambda>dn.
     sbind (case l of Some l \<Rightarrow> lfe2str l | None \<Rightarrow> Inr []) (\<lambda>ln. Inr (dn, ln)))"

definition entry_node :: "fat_bpb \<Rightarrow> fat_dirent \<Rightarrow> fat_lfe option \<Rightarrow> u8 list \<times> u8 list \<Rightarrow> fat_node" where
  "entry_node bpb d l nm = \<lparr>fname = (if l = None then fst nm else snd nm), fsize = file_size d, mountpoint = False,
     fentry = Some (d, l, bpb)\<rparr>"

text \<open>\<open>n\<close> names have been made so far; each entry that is there makes one.\<close>

fun find_entry :: "(nat \<Rightarrow> u8 list) \<Rightarrow> nat \<Rightarrow> u8 list \<Rightarrow> fat_bpb \<Rightarrow> fat_entry list \<Rightarrow> fat_node option res" where
  "find_entry blk n path bpb [] = Inr None"
| "find_entry blk n path bpb (e # es) = (case dirent e of
       None \<Rightarrow> find_entry blk n path bpb es
     | Some d \<Rightarrow> sbind (entry_names (blk n) d (lfe e)) (\<lambda>nm.
         if fst nm = path \<or> snd nm = path then Inr (Some (entry_node bpb d (lfe e) nm))
         else find_entry blk (n + 1) path bpb es))"

definition names_made :: "fat_entry list \<Rightarrow> nat" where
  "names_made es = length (filter (\<lambda>e. dirent e \<noteq> None) es)"

fun seek_loop :: "nat \<Rightarrow> 's blockdev \<Rightarrow> (nat \<Rightarrow> u8 list) \<Rightarrow> nat \<Rightarrow> u8 list \<Rightarrow> fat_bpb \<Rightarrow> u32 \<Rightarrow> 's \<Rightarrow> (fat_node option \<times> 's) res option" where
  "seek_loop 0 rd blk n path bpb cluster s = None"
| "seek_loop (Suc k) rd blk n path bpb cluster s =
     res_bind (fat_parse_cluster rd bpb cluster (empty_entries bpb) s) (\<lambda>(cluster, es, s).
     res_bind (Some (find_entry blk n path bpb es)) (\<lambda>r.
       if r \<noteq> None then Some (Inr (r, s))
       else if cluster = 0 then Some (Inr (None, s))
       else seek_loop k rd blk (n + names_made es) path bpb cluster s))"

definition fat_seek :: "nat \<Rightarrow> 's blockdev \<Rightarrow> (nat \<Rightarrow> u8 list) \<Rightarrow> u8 list \<Rightarrow> fat_node \<Rightarrow> 's \<Rightarrow> (fat_node option \<times> 's) res option" where
  "fat_seek k rd blk path root s = (case fentry root of
       None \<Rightarrow> Some (Inl Wild)
     | Some (d, l, bpb) \<Rightarrow>
         if attribs d = 0x10 then seek_loop k rd blk 0 path bpb (start_cluster root d bpb) s
         else Some (Inr (None, s)))"

fun entry_nodes :: "(nat \<Rightarrow> u8 list) \<Rightarrow> nat \<Rightarrow> fat_bpb \<Rightarrow> fat_entry list \<Rightarrow> fat_node list res" where
  "entry_nodes blk n bpb [] = Inr []"
| "entry_nodes blk n bpb (e # es) = (case dirent e of
       None \<Rightarrow> entry_nodes blk n bpb es
     | Some d \<Rightarrow> sbind (entry_names (blk n) d (lfe e)) (\<lambda>nm.
         sbind (entry_nodes blk (n + 1) bpb es) (\<lambda>ns. Inr (entry_node bpb d (lfe e) nm # ns))))"

fun readdir_loop :: "nat \<Rightarrow> 's blockdev \<Rightarrow> (nat \<Rightarrow> u8 list) \<Rightarrow> nat \<Rightarrow> fat_bpb \<Rightarrow> u32 \<Rightarrow> fat_node list \<Rightarrow> 's \<Rightarrow> (fat_node list \<times> 's) res option" where
  "readdir_loop 0 rd blk n bpb cluster acc s = None"
| "readdir_loop (Suc k) rd blk n bpb cluster acc s =
     res_bind (fat_parse_cluster rd bpb cluster (empty_entries bpb) s) (\<lambda>(cluster, es, s).
     res_bind (Some (entry_nodes blk n bpb es)) (\<lambda>ns.
       if cluster = 0 then Some (Inr (acc @ ns, s)) else readdir_loop k rd blk (n + names_made es) bpb cluster (acc @ ns) s))"

definition fat_readdir :: "nat \<Rightarrow> 's blockdev \<Rightarrow> (nat \<Rightarrow> u8 list) \<Rightarrow> fat_node \<Rightarrow> 's \<Rightarrow> (fat_node list option \<times> 's) res option" where
  "fat_readdir k rd blk n s = (case fentry n of
       None \<Rightarrow> Some (Inl Wild)
     | Some (d, l, bpb) \<Rightarrow>
         if attribs d = 0x10
         then res_bind (readdir_loop k rd blk 0 bpb (start_cluster n d bpb) [] s) (\<lambda>(ns, s). Some (Inr (Some ns, s)))
         else Some (Inr (None, s)))"

subsection \<open>Reading a file\<close>

definition cluster_bytes :: "fat_bpb \<Rightarrow> u64" where
  "cluster_bytes bpb = ucast (sectors_per_cluster bpb) * ucast (bytes_per_sector bpb)"

text \<open>The walk to the cluster of the offset; it ends when the offset has shrunk or the chain is over.\<close>

partial_function (option) skip_clusters :: "'s blockdev \<Rightarrow> fat_bpb \<Rightarrow> u32 \<Rightarrow> u64 \<Rightarrow> 's \<Rightarrow> (u32 \<times> u64 \<times> 's) res option" where
  "skip_clusters rd bpb cluster offset s =
     (if offset \<ge> cluster_bytes bpb \<and> cluster \<noteq> 0
      then (case fat_read_cluster rd bpb cluster None s of
              None \<Rightarrow> None
            | Some (Inl e) \<Rightarrow> Some (Inl e)
            | Some (Inr (cluster, _, s)) \<Rightarrow> skip_clusters rd bpb cluster (offset - cluster_bytes bpb) s)
      else Some (Inr (cluster, offset, s)))"

text \<open>
  \<open>fat_read\<close> splits a read that leaves the cluster into reads of the same node through \<open>kread\<close>, which
  comes back to \<open>fat_read\<close>: the fuel bounds the depth and the loop. \<open>at\<close> is the position in the caller's
  buffer. As the offset was reduced by the clusters skipped, the parts are read from the front of the file,
  and what is returned is the size of the last part.
\<close>

fun fat_read :: "nat \<Rightarrow> 's blockdev \<Rightarrow> fat_node \<Rightarrow> u64 \<Rightarrow> u32 \<Rightarrow> nat \<Rightarrow> u8 list \<Rightarrow> 's \<Rightarrow> (u32 \<times> u8 list \<times> 's) res option"
  and fat_read_rest :: "nat \<Rightarrow> 's blockdev \<Rightarrow> fat_node \<Rightarrow> u64 \<Rightarrow> u64 \<Rightarrow> u32 \<Rightarrow> nat \<Rightarrow> u8 list \<Rightarrow> 's \<Rightarrow> (u32 \<times> u8 list \<times> 's) res option" where
  "fat_read 0 rd n offset sz at buf s = None"
| "fat_read (Suc k) rd n offset sz at buf s = (case fentry n of
       None \<Rightarrow> Some (Inl Wild)
     | Some (d, l, bpb) \<Rightarrow>
         if attribs d \<noteq> 0x10 \<and> offset + ucast sz \<le> ucast (file_size d) then
           res_bind (skip_clusters rd bpb (push_bit 16 (ucast (first_cluster_high d)) + ucast (first_cluster_low d)) offset s)
             (\<lambda>(cluster, offset, s).
           if cluster = 0 then Some (Inr (0, buf, s))
           else if offset + ucast sz \<le> cluster_bytes bpb then
             res_bind (fat_read_cluster rd bpb cluster (Some (replicate (unat (cluster_bytes bpb)) 0)) s) (\<lambda>(_, big, s).
             res_bind (Some (overlay at (slice (unat offset) (unat sz) (the big)) buf)) (\<lambda>buf.
               Some (Inr (sz, buf, s))))
           else
             let psize = ucast (cluster_bytes bpb - offset) in
             res_bind (fat_read k rd n offset psize at buf s) (\<lambda>(_, buf, s).
               fat_read_rest k rd n (cluster_bytes bpb) (offset + ucast psize) (sz - psize) (at + unat psize) buf s))
         else Some (Inr (0, buf, s)))"
| "fat_read_rest 0 rd n cb offset sz at buf s = None"
| "fat_read_rest (Suc k) rd n cb offset sz at buf s =
     (if ucast sz \<ge> cb then
        res_bind (fat_read k rd n offset (ucast cb) at buf s) (\<lambda>(_, buf, s).
          fat_read_rest k rd n cb (offset + cb) (sz - ucast cb) (at + unat cb) buf s)
      else if sz \<noteq> 0 then res_bind (fat_read k rd n offset sz at buf s) (\<lambda>(_, buf, s). Some (Inr (sz, buf, s)))
      else Some (Inr (sz, buf, s)))"

lemma unat_ucast_u64: "unat (ucast (w :: u32) :: u64) = unat w"
  unfolding unsigned_ucast_eq by (rule take_bit_nat_eq_self, rule less_le_trans [OF unat_u32_less]) simp

lemma unat_plus_u64: "unat v + unat w < 18446744073709551616 \<Longrightarrow> unat ((v :: u64) + w) = unat v + unat w"
  by (simp add: unat_word_ariths)

lemma unat_small_u64: "n < 18446744073709551616 \<Longrightarrow> unat (of_nat n :: u64) = n"
  by (simp add: unsigned_of_nat take_bit_nat_eq_self)

subsection \<open>Long and short names\<close>

text \<open>A long name of at most 12 characters as a file system writes it: two bytes for a character, a
  terminator, and the rest filled up.\<close>

definition lfe_encode :: "u8 list \<Rightarrow> fat_lfe" where
  "lfe_encode nm =
     (let b = concat (List.map (\<lambda>c. [c, 0]) (nm @ [0])) @ replicate 26 0xFF
      in \<lparr>first_chars = take 10 b, mid_chars = slice 10 12 b, end_chars = slice 22 4 b\<rparr>)"

lemma nth_pairs: "i < length xs \<Longrightarrow> (concat (List.map (\<lambda>c. [c, 0]) xs) @ ys) ! (2 * i) = xs ! i"
proof (induction xs arbitrary: i)
  case (Cons x xs)
  then show ?case by (cases i) simp_all
qed simp

lemma length_pairs [simp]: "length (concat (List.map (\<lambda>c. [c, 0]) xs)) = 2 * length xs"
  by (induction xs) simp_all

lemma lfe_char:
  assumes "length nm \<le> 12" "i \<le> length nm"
  shows "lfe_at (lfe_encode nm) i = Inr ((nm @ [0]) ! i)"
proof -
  define b where "b = concat (List.map (\<lambda>c. [c, 0]) (nm @ [0])) @ replicate 26 (0xFF :: u8)"
  have n: "b ! (2 * i) = (nm @ [0]) ! i" using assms(2) unfolding b_def by (intro nth_pairs) simp
  have l: "26 \<le> length b" by (simp add: b_def)
  have e: "lfe_encode nm = \<lparr>first_chars = take 10 b, mid_chars = take 12 (drop 10 b), end_chars = take 4 (drop 22 b)\<rparr>"
    by (simp only: lfe_encode_def b_def Let_def slice_def)
  show ?thesis
  proof (cases "i < 5")
    case False
    show ?thesis
    proof (cases "i < 11")
      case True
      then have "10 + 2 * (i - 5) = 2 * i" using False by simp
      then show ?thesis using n l True False by (simp add: e lfe_at_def load_at_def)
    next
      case ge: False
      then have "22 + 2 * (i - 11) = 2 * i" by simp
      then show ?thesis using n l ge assms by (simp add: e lfe_at_def load_at_def)
    qed
  qed (use n l in \<open>simp add: e lfe_at_def load_at_def\<close>)
qed

lemma lfe_loop_encode:
  "length nm \<le> 12 \<Longrightarrow> 0 \<notin> set nm \<Longrightarrow> i \<le> length nm \<Longrightarrow> length nm - i < k \<Longrightarrow> lfe_loop (lfe_encode nm) i k = Inr (drop i nm)"
proof (induction k arbitrary: i)
  case (Suc k)
  show ?case
  proof (cases "i = length nm")
    case True
    then show ?thesis using lfe_char [of nm i] Suc.prems by simp
  next
    case False
    then have i: "i < length nm" using Suc.prems by simp
    have "nm ! i \<noteq> 0" using Suc.prems(2) i nth_mem by metis
    moreover have "(nm @ [0]) ! i = nm ! i" "drop i nm = nm ! i # drop (Suc i) nm"
      using i by (simp_all add: nth_append Cons_nth_drop_Suc)
    ultimately show ?thesis using lfe_char [of nm i] Suc.IH [of "Suc i"] Suc.prems False by simp
  qed
qed simp

lemma lfe2str_encode: "length nm \<le> 12 \<Longrightarrow> 0 \<notin> set nm \<Longrightarrow> lfe2str (lfe_encode nm) = Inr nm"
  using lfe_loop_encode [of nm 0 26] by (simp add: lfe2str_def)

text \<open>A name of 13 characters fills the entry without a terminator: the loop reads behind it.\<close>

lemma lfe2str_13:
  "list_all (\<lambda>c. c \<noteq> 0) [a, b, c, d, e, f, g, h, i, j, k, l, m] \<Longrightarrow>
     lfe2str \<lparr>first_chars = [a, 0, b, 0, c, 0, d, 0, e, 0], mid_chars = [f, 0, g, 0, h, 0, i, 0, j, 0, k, 0],
       end_chars = [l, 0, m, 0]\<rparr> = Inl Wild"
  by (simp add: lfe2str_def eval_nat_numeral load_at_def lfe_at_def)

lemma dirent2str_name:
  assumes "length nm \<le> 6" "length ext = 3" "32 \<notin> set nm" "0 \<notin> set nm" "0 \<notin> set ext"
    "short_name d = nm @ replicate (8 - length nm) 32 @ ext"
  shows "dirent2str blk d = Inr (nm @ [46] @ ext @ c_string [blk ! (length nm + 4)])"
proof -
  have t: "takeWhile (\<lambda>c. c \<noteq> 32) (take 8 (short_name d)) = nm"
  proof -
    have "take 8 (short_name d) = nm @ replicate (8 - length nm) 32" using assms(1,6) by simp
    moreover have "takeWhile (\<lambda>c. c \<noteq> 32) (nm @ replicate (8 - length nm) (32 :: u8)) = nm"
      using assms(1,3) by (subst takeWhile_append2) (auto simp: takeWhile_replicate)
    ultimately show ?thesis by simp
  qed
  have "slice 8 3 (short_name d) = ext" using assms(1,2,6) by (simp add: slice_def)
  moreover have "take (length nm) (short_name d) = nm" using assms(6) by simp
  moreover have "takeWhile (\<lambda>c. c \<noteq> 0) (nm @ 46 # ext @ [x, 0]) = nm @ 46 # ext @ takeWhile (\<lambda>c. c \<noteq> 0) [x]" for x
    using assms(4,5) by (subst takeWhile_append2) (auto simp: takeWhile_append)
  ultimately show ?thesis using assms(1) by (simp add: dirent2str_def t c_string_def)
qed

subsection \<open>Directories as lists\<close>

fun dir_scan :: "u8 list list \<Rightarrow> fat_lfe option \<Rightarrow> (fat_dirent \<times> fat_lfe option) list" where
  "dir_scan [] l = []"
| "dir_scan (e # es) l =
     (if fat_entry_type e = 0 then []
      else if fat_entry_type e = 1 then (dirent_of e, l) # dir_scan es None
      else dir_scan es (if fat_entry_type e = 3 then Some (lfe_of e) else l))"

fun present :: "fat_entry list \<Rightarrow> (fat_dirent \<times> fat_lfe option) list" where
  "present [] = []"
| "present (e # es) = (case dirent e of None \<Rightarrow> present es | Some d \<Rightarrow> (d, lfe e) # present es)"

lemma present_append [simp]: "present (xs @ ys) = present xs @ present ys"
  by (induction xs) (auto split: option.split)

abbreviation no_entry :: fat_entry where "no_entry \<equiv> \<lparr>dirent = None, lfe = None\<rparr>"

lemma present_none [simp]: "present (replicate n no_entry) = []"
  by (induction n) simp_all

definition chunks :: "nat \<Rightarrow> nat \<Rightarrow> u8 list \<Rightarrow> u8 list list" where
  "chunks i k b = List.map (\<lambda>j. slice (32 * j) 32 b) [i..<i + k]"

lemma chunks_Suc: "chunks i (Suc k) b = slice (32 * i) 32 b # chunks (Suc i) k b"
  unfolding chunks_def by (subst upt_conv_Cons) simp_all

lemma parse_sector_scan:
  assumes "length b = 512"
  shows "i + k = 16 \<Longrightarrow> length pre = at + i \<Longrightarrow> k \<le> m \<Longrightarrow>
    \<exists>flag lf' pre' m'. parse_sector b at i k lf (pre @ replicate m no_entry) = Inr (flag, lf', pre' @ replicate m' no_entry)
      \<and> (if flag then present pre @ dir_scan (chunks i k b @ rest) lf = present pre'
         else length pre' = at + 16 \<and> m' = m - k \<and> present pre @ dir_scan (chunks i k b @ rest) lf = present pre' @ dir_scan rest lf')"
proof (induction k arbitrary: i pre m lf)
  case 0
  then show ?case by (intro exI [of _ False] exI [of _ lf] exI [of _ pre] exI [of _ m]) (simp add: chunks_def)
next
  case (Suc k)
  let ?e = "slice (32 * i) 32 b"
  obtain m' where m: "m = Suc m'" using Suc.prems(3) by (cases m) auto
  have len: "\<not> length b < 32 * i + 32" using assms Suc.prems(1) by simp
  have upd: "(pre @ replicate m no_entry)[at + i := x] = (pre @ [x]) @ replicate m' no_entry" for x
    using Suc.prems(2) by (simp add: m list_update_append)
  note IH = Suc.IH [of "Suc i" "pre @ [x]" m' for x]
  show ?case
  proof (cases "fat_entry_type ?e = 0")
    case True
    then show ?thesis using len
      by (intro exI [of _ True] exI [of _ lf] exI [of _ pre] exI [of _ m]) (simp add: chunks_Suc)
  next
    case nz: False
    define x where "x = (if fat_entry_type ?e = 1 then \<lparr>dirent = Some (dirent_of ?e), lfe = lf\<rparr> else no_entry)"
    define lf1 where "lf1 = (if fat_entry_type ?e = 1 then None else if fat_entry_type ?e = 3 then Some (lfe_of ?e) else lf)"
    have p: "parse_sector b at i (Suc k) lf (pre @ replicate m no_entry)
        = parse_sector b at (Suc i) k lf1 ((pre @ [x]) @ replicate m' no_entry)"
      using nz len by (simp del: append_assoc add: x_def lf1_def upd Let_def)
    have q: "present pre @ dir_scan (chunks i (Suc k) b @ rest) lf
        = present (pre @ [x]) @ dir_scan (chunks (Suc i) k b @ rest) lf1"
      using nz by (simp add: chunks_Suc x_def lf1_def)
    have mk: "m - Suc k = m' - k" by (simp add: m)
    show ?thesis unfolding p q mk by (rule Suc.IH) (use Suc.prems m in simp_all)
  qed
qed

fun find_name :: "(nat \<Rightarrow> u8 list) \<Rightarrow> nat \<Rightarrow> u8 list \<Rightarrow> fat_bpb \<Rightarrow> (fat_dirent \<times> fat_lfe option) list \<Rightarrow> fat_node option res" where
  "find_name blk n path bpb [] = Inr None"
| "find_name blk n path bpb ((d, l) # fs) = sbind (entry_names (blk n) d l) (\<lambda>nm.
     if fst nm = path \<or> snd nm = path then Inr (Some (entry_node bpb d l nm)) else find_name blk (n + 1) path bpb fs)"

lemma find_entry_present: "find_entry blk n path bpb es = find_name blk n path bpb (present es)"
  by (induction es arbitrary: n) (auto split: option.split simp: sbind_def split: sum.split)

lemma names_made_present: "names_made es = length (present es)"
  by (induction es) (auto simp: names_made_def split: option.split)

lemma find_name_append: "find_name blk n path bpb (xs @ ys)
    = sbind (find_name blk n path bpb xs) (\<lambda>r. if r = None then find_name blk (n + length xs) path bpb ys else Inr r)"
  by (induction blk n path bpb xs rule: find_name.induct) (auto simp: sbind_def split: sum.split)

subsection \<open>The interface to the disk\<close>

text \<open>The content of a cluster, and its successor.\<close>

definition sector_bytes :: "(u64 \<Rightarrow> u8 list) \<Rightarrow> u32 \<Rightarrow> nat \<Rightarrow> nat \<Rightarrow> u8 list" where
  "sector_bytes disk sec i k = concat (List.map (\<lambda>j. disk (ucast (sec + of_nat j))) [i..<i + k])"

lemma sector_bytes_Suc: "sector_bytes disk sec i (Suc k) = disk (ucast (sec + of_nat i)) @ sector_bytes disk sec (Suc i) k"
  unfolding sector_bytes_def by (subst upt_conv_Cons) simp_all

definition sector_at :: "fat_bpb \<Rightarrow> u32 \<Rightarrow> u32" where
  "sector_at bpb c = (c - 2) * ucast (sectors_per_cluster bpb)
     + (ucast (reserved_sectors bpb) + ucast (fat_count bpb) * sectors_per_fat bpb
        + (ucast (dirent_count bpb) * 32 + (ucast (bytes_per_sector bpb) - 1)) div ucast (bytes_per_sector bpb))"

definition content :: "(u64 \<Rightarrow> u8 list) \<Rightarrow> fat_bpb \<Rightarrow> u32 \<Rightarrow> u8 list" where
  "content disk bpb c = sector_bytes disk (sector_at bpb c) 0 (unat (sectors_per_cluster bpb))"

definition table_sector :: "fat_bpb \<Rightarrow> u32 \<Rightarrow> u32" where
  "table_sector bpb c = ucast (reserved_sectors bpb) + c * 4 div 512"

definition successor :: "(u64 \<Rightarrow> u8 list) \<Rightarrow> fat_bpb \<Rightarrow> u32 \<Rightarrow> u32" where
  "successor disk bpb c =
     (let n = le32 (disk (ucast (table_sector bpb c))) (unat (c * 4 mod 512)) AND 0x0FFFFFFF
      in if n \<ge> 0x0FFFFFF8 \<or> n = 0x0FFFFFF7 then 0 else n)"

definition cluster_ok :: "(u64 \<Rightarrow> bool) \<Rightarrow> fat_bpb \<Rightarrow> u32 \<Rightarrow> bool" where
  "cluster_ok valid bpb c \<longleftrightarrow> bytes_per_sector bpb = 512 \<and> valid (ucast (table_sector bpb c))
     \<and> (\<forall>i < unat (sectors_per_cluster bpb). valid (ucast (sector_at bpb c + of_nat i)))"

text \<open>A chain of clusters up to its end, and what a directory in one cluster holds.\<close>

fun linked :: "(u64 \<Rightarrow> u8 list) \<Rightarrow> fat_bpb \<Rightarrow> u32 list \<Rightarrow> bool" where
  "linked disk bpb [] = False"
| "linked disk bpb [c] = (c \<noteq> 0 \<and> successor disk bpb c = 0)"
| "linked disk bpb (c # d # cs) = (c \<noteq> 0 \<and> successor disk bpb c = d \<and> linked disk bpb (d # cs))"

lemma linked_hd: "linked disk bpb (c # cs) \<Longrightarrow> c \<noteq> 0"
  by (cases cs) simp_all

definition dir_chunks :: "(u64 \<Rightarrow> u8 list) \<Rightarrow> u32 \<Rightarrow> nat \<Rightarrow> nat \<Rightarrow> u8 list list" where
  "dir_chunks disk sec i k = concat (List.map (\<lambda>j. chunks 0 16 (disk (ucast (sec + of_nat j)))) [i..<i + k])"

lemma dir_chunks_Suc: "dir_chunks disk sec i (Suc k) = chunks 0 16 (disk (ucast (sec + of_nat i))) @ dir_chunks disk sec (Suc i) k"
  unfolding dir_chunks_def by (subst upt_conv_Cons) simp_all

definition dir_entries :: "(u64 \<Rightarrow> u8 list) \<Rightarrow> fat_bpb \<Rightarrow> u32 \<Rightarrow> (fat_dirent \<times> fat_lfe option) list" where
  "dir_entries disk bpb c = dir_scan (dir_chunks disk (sector_at bpb c) 0 (unat (sectors_per_cluster bpb))) None"

definition start_of :: "fat_dirent \<Rightarrow> u32" where
  "start_of d = push_bit 16 (ucast (first_cluster_high d)) + ucast (first_cluster_low d)"

lemma linked_nonzero: "linked disk bpb cs \<Longrightarrow> c \<in> set cs \<Longrightarrow> c \<noteq> 0"
  by (induction disk bpb cs rule: linked.induct) auto

text \<open>What a file needs to be read: its entry, its chain of readable clusters, and its size within them.\<close>

definition file_ok :: "(u64 \<Rightarrow> bool) \<Rightarrow> (u64 \<Rightarrow> u8 list) \<Rightarrow> fat_node \<Rightarrow> fat_dirent \<Rightarrow> fat_bpb \<Rightarrow> u32 list \<Rightarrow> bool" where
  "file_ok valid disk n d bpb cs \<longleftrightarrow> (\<exists>l. fentry n = Some (d, l, bpb)) \<and> attribs d \<noteq> 0x10 \<and> linked disk bpb cs
     \<and> hd cs = start_of d \<and> bytes_per_sector bpb = 512 \<and> sectors_per_cluster bpb \<noteq> 0
     \<and> (\<forall>c \<in> set cs. cluster_ok valid bpb c) \<and> unat (file_size d) \<le> unat (cluster_bytes bpb) * length cs"

definition file_bytes :: "(u64 \<Rightarrow> u8 list) \<Rightarrow> fat_bpb \<Rightarrow> u32 list \<Rightarrow> u8 list" where
  "file_bytes disk bpb cs = concat (List.map (content disk bpb) cs)"

text \<open>Blocks of equal length one behind the other.\<close>

lemma slice_blocks:
  "0 < n \<Longrightarrow> \<forall>b \<in> set bs. length b = n \<Longrightarrow> off div n < length bs \<Longrightarrow> off mod n + k \<le> n \<Longrightarrow>
    slice off k (concat bs) = slice (off mod n) k (bs ! (off div n))"
proof (induction bs arbitrary: off)
  case (Cons b bs)
  have b: "length b = n" and n: "0 < n" using Cons.prems by simp_all
  show ?case
  proof (cases "off < n")
    case True
    then show ?thesis using Cons.prems b by (simp add: slice_def)
  next
    case False
    then obtain o' where o': "off = n + o'" using le_Suc_ex by (auto simp: not_less)
    have "off div n = Suc (o' div n)" "off mod n = o' mod n" using n by (simp_all add: o' div_add_self1)
    then show ?thesis using Cons.IH [of o'] Cons.prems b by (simp add: o' slice_def)
  qed
qed simp

text \<open>A block device whose valid sectors are 512 fixed bytes each; \<open>ok\<close> holds of its states.\<close>

locale block_device =
  fixes rd :: "'s blockdev" and ok :: "'s \<Rightarrow> bool" and valid :: "u64 \<Rightarrow> bool" and disk :: "u64 \<Rightarrow> u8 list"
  assumes reads: "ok s \<Longrightarrow> valid lba \<Longrightarrow> \<exists>s'. rd lba s = Some (Some (disk lba), s') \<and> ok s'"
    and sector_512 [simp]: "length (disk lba) = 512"
begin

lemma read_block_disk:
  assumes "ok s" "valid lba" "off + 512 \<le> length buf"
  shows "\<exists>s'. read_block rd lba off buf s = Some (Inr (take off buf @ disk lba @ drop (off + 512) buf, s')) \<and> ok s'"
  using reads [OF assms(1,2)] assms(3) by (auto simp: read_block_def overlay_def)

lemma length_sector_bytes [simp]: "length (sector_bytes disk sec i k) = 512 * k"
  by (induction k arbitrary: i) (simp_all add: sector_bytes_Suc, simp add: sector_bytes_def)

lemma ent_offset: "unat ((c :: u32) * 4 mod 512) + 4 \<le> 512"
proof -
  have "unat (c * 4 mod 512) = (unat c * 4 mod 4294967296) mod 512" by (simp add: unat_mod unat_word_ariths)
  also have "\<dots> = unat c * 4 mod 512" by (simp add: mod_mod_cancel)
  also have "\<dots> = 4 * (unat c mod 128)" by (simp add: mult_mod_right mult.commute)
  finally show ?thesis by simp
qed

lemma fat_next_disk:
  assumes "ok s" "cluster_ok valid bpb c"
  shows "\<exists>s'. fat_next rd bpb c s = Some (Inr (successor disk bpb c, s')) \<and> ok s'"
proof -
  have b: "(ucast (bytes_per_sector bpb) :: u32) = 512" "unat (bytes_per_sector bpb) = 512"
    using assms(2) by (simp_all add: cluster_ok_def)
  obtain s' where "rd (ucast (table_sector bpb c)) s = Some (Some (disk (ucast (table_sector bpb c))), s')" "ok s'"
    using reads [OF assms(1), of "ucast (table_sector bpb c)"] assms(2) by (auto simp: cluster_ok_def)
  then show ?thesis using ent_offset [of c]
    by (simp add: fat_next_def b Let_def successor_def table_sector_def)
qed

lemma cluster_sector_at: "cluster_ok valid bpb c \<Longrightarrow> cluster_sector bpb c = Inr (sector_at bpb c)"
  by (simp add: cluster_sector_def first_data_sector_def sector_at_def cluster_ok_def)

lemma read_sectors_disk:
  assumes "\<And>j. j < n \<Longrightarrow> valid (ucast (sec + of_nat j))"
  shows "ok s \<Longrightarrow> i + k \<le> n \<Longrightarrow> i * 512 + k * 512 \<le> length buf \<Longrightarrow>
    \<exists>s'. read_sectors rd sec 512 i k buf s
      = Some (Inr (take (i * 512) buf @ sector_bytes disk sec i k @ drop (i * 512 + k * 512) buf, s')) \<and> ok s'"
proof (induction k arbitrary: i buf s)
  case 0
  then show ?case by (simp add: sector_bytes_def)
next
  case (Suc k)
  obtain s1 where s1: "read_block rd (ucast (sec + of_nat i)) (i * 512) buf s
      = Some (Inr (take (i * 512) buf @ disk (ucast (sec + of_nat i)) @ drop (i * 512 + 512) buf, s1))" "ok s1"
    using read_block_disk [OF Suc.prems(1), of "ucast (sec + of_nat i)" "i * 512" buf] assms [of i] Suc.prems(2,3) by auto
  let ?b = "take (i * 512) buf @ disk (ucast (sec + of_nat i)) @ drop (i * 512 + 512) buf"
  have l: "Suc i * 512 + k * 512 \<le> length ?b" "Suc i + k \<le> n" using Suc.prems by simp_all
  have t: "take (Suc i * 512) ?b = take (i * 512) buf @ disk (ucast (sec + of_nat i))"
    "drop (Suc i * 512 + k * 512) ?b = drop (i * 512 + Suc k * 512) buf"
    using Suc.prems(3) by (simp_all add: algebra_simps)
  from Suc.IH [OF s1(2) l(2,1), unfolded t] show ?case using s1(1) by (simp add: sector_bytes_Suc)
qed

lemma fat_read_cluster_skip:
  assumes "ok s" "cluster_ok valid bpb c"
  shows "\<exists>s'. fat_read_cluster rd bpb c None s = Some (Inr (successor disk bpb c, None, s')) \<and> ok s'"
  using fat_next_disk [OF assms] cluster_sector_at [OF assms(2)] by (auto simp: fat_read_cluster_def)

lemma fat_read_cluster_content:
  assumes "ok s" "cluster_ok valid bpb c" "length buf = 512 * unat (sectors_per_cluster bpb)"
  shows "\<exists>s'. fat_read_cluster rd bpb c (Some buf) s = Some (Inr (successor disk bpb c, Some (content disk bpb c), s')) \<and> ok s'"
proof -
  let ?n = "unat (sectors_per_cluster bpb)"
  have b: "unat (bytes_per_sector bpb) = 512" using assms(2) by (simp add: cluster_ok_def)
  obtain s1 where s1: "read_sectors rd (sector_at bpb c) 512 0 ?n buf s = Some (Inr (content disk bpb c, s1))" "ok s1"
    using read_sectors_disk [of ?n "sector_at bpb c" s 0 ?n buf] assms by (auto simp: cluster_ok_def content_def)
  from fat_next_disk [OF s1(2) assms(2)] show ?thesis
    using s1(1) cluster_sector_at [OF assms(2)] by (auto simp: fat_read_cluster_def b)
qed

lemma parse_sectors_scan:
  assumes "\<And>j. j < n \<Longrightarrow> valid (ucast (sec + of_nat j))"
  shows "ok s \<Longrightarrow> i + k \<le> n \<Longrightarrow> length pre = 16 * i \<Longrightarrow> 16 * k \<le> m \<Longrightarrow>
    \<exists>es s'. parse_sectors rd sec 512 i k lf (pre @ replicate m no_entry) s = Some (Inr (es, s')) \<and> ok s'
      \<and> present es = present pre @ dir_scan (dir_chunks disk sec i k) lf"
proof (induction k arbitrary: i pre m lf s)
  case 0
  then show ?case by (simp add: dir_chunks_def)
next
  case (Suc k)
  let ?b = "disk (ucast (sec + of_nat i))"
  obtain s1 where s1: "read_block rd (ucast (sec + of_nat i)) 0 (replicate 512 0) s = Some (Inr (?b, s1))" "ok s1"
    using read_block_disk [OF Suc.prems(1), of "ucast (sec + of_nat i)" 0 "replicate 512 0"] assms [of i] Suc.prems(2) by auto
  obtain flag lf' pre' m' where p:
    "parse_sector ?b (16 * i) 0 16 lf (pre @ replicate m no_entry) = Inr (flag, lf', pre' @ replicate m' no_entry)"
    "if flag then present pre @ dir_scan (dir_chunks disk sec i (Suc k)) lf = present pre'
     else length pre' = 16 * i + 16 \<and> m' = m - 16 \<and> present pre @ dir_scan (dir_chunks disk sec i (Suc k)) lf
       = present pre' @ dir_scan (dir_chunks disk sec (Suc i) k) lf'"
    using parse_sector_scan [OF sector_512, of 0 16 pre "16 * i" m "ucast (sec + of_nat i)" lf "dir_chunks disk sec (Suc i) k"]
      Suc.prems(3,4) unfolding dir_chunks_Suc by auto
  show ?case
  proof (cases flag)
    case True
    then show ?thesis using s1 p by simp
  next
    case False
    then have f: "length pre' = 16 * Suc i" "16 * k \<le> m'" "Suc i + k \<le> n" using p(2) Suc.prems by simp_all
    from Suc.IH [OF s1(2) f(3,1,2), of lf'] show ?thesis using s1(1) p False by auto
  qed
qed

lemma fat_parse_cluster_entries:
  assumes "ok s" "cluster_ok valid bpb c"
  shows "\<exists>es s'. fat_parse_cluster rd bpb c (empty_entries bpb) s = Some (Inr (successor disk bpb c, es, s')) \<and> ok s'
     \<and> present es = dir_entries disk bpb c"
proof -
  let ?n = "unat (sectors_per_cluster bpb)"
  have b: "unat (bytes_per_sector bpb) = 512" using assms(2) by (simp add: cluster_ok_def)
  obtain es s1 where p: "parse_sectors rd (sector_at bpb c) 512 0 ?n None (empty_entries bpb) s = Some (Inr (es, s1))" "ok s1"
    "present es = dir_entries disk bpb c"
    using parse_sectors_scan [of ?n "sector_at bpb c" s 0 ?n "[]" "16 * ?n" None] assms
    by (auto simp: cluster_ok_def dir_entries_def empty_entries_def)
  from fat_next_disk [OF p(2) assms(2)] show ?thesis
    using p cluster_sector_at [OF assms(2)] by (auto simp: fat_parse_cluster_def b)
qed

lemma seek_loop_finds:
  "ok s \<Longrightarrow> linked disk bpb cs \<Longrightarrow> \<forall>c \<in> set cs. cluster_ok valid bpb c \<Longrightarrow> length cs \<le> k \<Longrightarrow>
    \<exists>s'. seek_loop k rd blk n path bpb (hd cs) s
        = Some (sbind (find_name blk n path bpb (concat (List.map (dir_entries disk bpb) cs))) (\<lambda>r. Inr (r, s'))) \<and> ok s'"
proof (induction cs arbitrary: k s n)
  case (Cons c cs)
  obtain k' where k: "k = Suc k'" using Cons.prems(4) by (cases k) auto
  obtain es s1 where p: "fat_parse_cluster rd bpb c (empty_entries bpb) s = Some (Inr (successor disk bpb c, es, s1))" "ok s1"
    "present es = dir_entries disk bpb c"
    using fat_parse_cluster_entries [OF Cons.prems(1), of bpb c] Cons.prems(3) by auto
  let ?f = "find_name blk n path bpb (dir_entries disk bpb c)"
  have f: "find_entry blk n path bpb es = ?f" "names_made es = length (dir_entries disk bpb c)"
    using p(3) by (simp_all add: find_entry_present names_made_present)
  consider (fault) e where "?f = Inl e" | (found) x where "?f = Inr (Some x)" | (none) "?f = Inr None"
    by (cases ?f) auto
  then show ?case
  proof cases
    case none
    show ?thesis
    proof (cases cs)
      case Nil
      then show ?thesis using p f none Cons.prems(2) by (auto simp: k)
    next
      case (Cons d ds)
      have n: "successor disk bpb c = d" "d \<noteq> 0" "linked disk bpb cs"
        using Cons.prems(2) linked_hd [of disk bpb d ds] by (simp_all add: Cons)
      from Cons.IH [OF p(2) n(3), of k' "n + length (dir_entries disk bpb c)"] Cons.prems(3,4) k
      obtain s' where "seek_loop k' rd blk (n + length (dir_entries disk bpb c)) path bpb (hd cs) s1
          = Some (sbind (find_name blk (n + length (dir_entries disk bpb c)) path bpb (concat (List.map (dir_entries disk bpb) cs))) (\<lambda>r. Inr (r, s')))" "ok s'"
        by auto
      then show ?thesis using p f none n by (auto simp: k Cons find_name_append)
    qed
  qed (use p f in \<open>auto simp: k find_name_append\<close>)
qed simp

theorem fat_seek_lookup:
  assumes "ok s" "fentry root = Some (d, l, bpb)" "attribs d = 0x10" "start_cluster root d bpb = hd cs"
    "linked disk bpb cs" "\<forall>c \<in> set cs. cluster_ok valid bpb c" "length cs \<le> k"
  shows "\<exists>s'. fat_seek k rd blk path root s
      = Some (sbind (find_name blk 0 path bpb (concat (List.map (dir_entries disk bpb) cs))) (\<lambda>r. Inr (r, s'))) \<and> ok s'"
  using seek_loop_finds [OF assms(1,5,6,7)] assms(2,3,4) by (simp add: fat_seek_def)

subsection \<open>Reading\<close>

lemma cluster_bytes_unat:
  assumes "bytes_per_sector bpb = 512"
  shows "unat (cluster_bytes bpb) = 512 * unat (sectors_per_cluster bpb)"
proof -
  have "take_bit 64 (unat (sectors_per_cluster bpb)) = unat (sectors_per_cluster bpb)"
    by (rule take_bit_nat_eq_self, rule less_le_trans [OF unat_u8_less]) simp
  moreover have "unat (sectors_per_cluster bpb) * 512 < 18446744073709551616"
    using unat_u8_less [of "sectors_per_cluster bpb"] by linarith
  ultimately show ?thesis using assms by (simp add: cluster_bytes_def unat_word_ariths unsigned_ucast_eq)
qed

lemma cluster_bytes_small: "bytes_per_sector bpb = 512 \<Longrightarrow> unat (cluster_bytes bpb) < 131072"
  using unat_u8_less [of "sectors_per_cluster bpb"] by (simp only: cluster_bytes_unat)

lemma skip_clusters_chain:
  assumes "bytes_per_sector bpb = 512" "sectors_per_cluster bpb \<noteq> 0"
  shows "ok s \<Longrightarrow> linked disk bpb cs \<Longrightarrow> \<forall>c \<in> set cs. cluster_ok valid bpb c \<Longrightarrow>
    unat off div unat (cluster_bytes bpb) < length cs \<Longrightarrow>
    \<exists>s'. skip_clusters rd bpb (hd cs) off s
      = Some (Inr (cs ! (unat off div unat (cluster_bytes bpb)), of_nat (unat off mod unat (cluster_bytes bpb)), s')) \<and> ok s'"
proof (induction cs arbitrary: off s)
  case (Cons c cs)
  let ?cb = "cluster_bytes bpb"
  have cb: "0 < unat ?cb" using assms by (simp add: cluster_bytes_unat unat_gt_0)
  have c: "c \<noteq> 0" using linked_hd Cons.prems(2) by blast
  show ?case
  proof (cases "off < ?cb")
    case True
    then have "unat off < unat ?cb" "\<not> ?cb \<le> off" by (simp_all add: word_less_nat_alt not_le)
    then show ?thesis using Cons.prems(1) by (subst skip_clusters.simps) (simp add: of_nat_unat)
  next
    case False
    then have le: "unat ?cb \<le> unat off" by (simp add: word_less_nat_alt)
    have o': "unat (off - ?cb) = unat off - unat ?cb" using False by (simp add: unat_sub not_less)
    have dm: "unat off div unat ?cb = Suc (unat (off - ?cb) div unat ?cb)" "unat off mod unat ?cb = unat (off - ?cb) mod unat ?cb"
      using cb le unfolding o' by (simp_all add: div_if le_mod_geq)
    have len: "unat (off - ?cb) div unat ?cb < length cs" using Cons.prems(4) dm by simp
    obtain s1 where s1: "fat_read_cluster rd bpb c None s = Some (Inr (successor disk bpb c, None, s1))" "ok s1"
      using fat_read_cluster_skip [OF Cons.prems(1), of bpb c] Cons.prems(3) by auto
    obtain d ds where ds: "cs = d # ds" using len by (cases cs) auto
    have n: "successor disk bpb c = hd cs" "linked disk bpb cs" using Cons.prems(2) by (simp_all add: ds)
    from Cons.IH [OF s1(2) n(2) _ len] Cons.prems(3) show ?thesis
      using s1(1) False c n(1) by (subst skip_clusters.simps) (simp add: dm not_less)
  qed
qed simp


lemma file_bytes_slice:
  assumes "file_ok valid disk n d bpb cs" "off div unat (cluster_bytes bpb) < length cs"
    "off mod unat (cluster_bytes bpb) + k \<le> unat (cluster_bytes bpb)"
  shows "slice (off mod unat (cluster_bytes bpb)) k (content disk bpb (cs ! (off div unat (cluster_bytes bpb))))
    = slice off k (file_bytes disk bpb cs)"
proof -
  have f: "bytes_per_sector bpb = 512" "sectors_per_cluster bpb \<noteq> 0" using assms(1) by (auto simp: file_ok_def)
  have "slice off k (concat (List.map (content disk bpb) cs))
      = slice (off mod unat (cluster_bytes bpb)) k (List.map (content disk bpb) cs ! (off div unat (cluster_bytes bpb)))"
    using f assms(2,3) by (intro slice_blocks) (auto simp: cluster_bytes_unat content_def unat_gt_0)
  then show ?thesis using assms(2) by (simp add: file_bytes_def)
qed

text \<open>A read that stays in one cluster.\<close>

lemma fat_read_within:
  assumes "ok s" "file_ok valid disk n d bpb cs" "unat off + unat sz \<le> unat (file_size d)" "sz \<noteq> 0"
    "unat off mod unat (cluster_bytes bpb) + unat sz \<le> unat (cluster_bytes bpb)" "at + unat sz \<le> length buf"
  shows "\<exists>s'. fat_read (Suc k) rd n off sz at buf s
    = Some (Inr (sz, take at buf @ slice (unat off) (unat sz) (file_bytes disk bpb cs) @ drop (at + unat sz) buf, s')) \<and> ok s'"
proof -
  let ?cb = "cluster_bytes bpb"
  let ?q = "unat off div unat ?cb" and ?r = "unat off mod unat ?cb"
  obtain l where f: "fentry n = Some (d, l, bpb)" "attribs d \<noteq> 0x10" "linked disk bpb cs" "hd cs = start_of d"
    "bytes_per_sector bpb = 512" "sectors_per_cluster bpb \<noteq> 0" "\<forall>c \<in> set cs. cluster_ok valid bpb c"
    "unat (file_size d) \<le> unat ?cb * length cs" using assms(2) by (auto simp: file_ok_def)
  have cb: "0 < unat ?cb" using f(5,6) by (simp add: cluster_bytes_unat unat_gt_0)
  have sz: "0 < unat sz" using assms(4) by (simp add: unat_gt_0)
  have q: "?q < length cs" using assms(3) f(8) sz cb by (simp add: div_less_iff_less_mult mult.commute)
  obtain s1 where s1: "skip_clusters rd bpb (start_of d) off s = Some (Inr (cs ! ?q, of_nat ?r, s1))" "ok s1"
    using skip_clusters_chain [OF f(5,6) assms(1) f(3,7) q] f(4) by auto
  have c: "cs ! ?q \<noteq> 0" by (rule linked_nonzero [OF f(3) nth_mem [OF q]])
  have r: "unat (of_nat ?r :: u64) = ?r" using assms(5) cluster_bytes_small [OF f(5)] by (intro unat_small_u64) linarith
  have "unat off + unat sz < 18446744073709551616" using assms(3) unat_u32_less [of "file_size d"] by linarith
  then have le: "off + ucast sz \<le> ucast (file_size d)"
    using assms(3) by (simp add: word_le_nat_alt unat_plus_u64 unat_ucast_u64)
  have le2: "of_nat ?r + ucast sz \<le> ?cb"
    using assms(5) cluster_bytes_small [OF f(5)] by (simp add: word_le_nat_alt unat_plus_u64 unat_ucast_u64 r)
  obtain s2 where s2: "fat_read_cluster rd bpb (cs ! ?q) (Some (replicate (unat ?cb) 0)) s1
      = Some (Inr (successor disk bpb (cs ! ?q), Some (content disk bpb (cs ! ?q)), s2))" "ok s2"
    using fat_read_cluster_content [OF s1(2), of bpb "cs ! ?q" "replicate (unat ?cb) 0"] f(5,7) q by (auto simp: cluster_bytes_unat)
  let ?b = "slice (unat off) (unat sz) (file_bytes disk bpb cs)"
  have b: "slice ?r (unat sz) (content disk bpb (cs ! ?q)) = ?b" by (rule file_bytes_slice [OF assms(2) q assms(5)])
  have "length ?b = unat sz" unfolding b [symmetric] using assms(5) f(5) by (simp add: slice_def content_def cluster_bytes_unat)
  then have o: "overlay at ?b buf = Inr (take at buf @ ?b @ drop (at + unat sz) buf)"
    using assms(6) by (simp add: overlay_def)
  show ?thesis using f(1,2) s1 s2 c le le2 b o by (simp add: start_of_def r)
qed

lemma length_file_slice:
  assumes "file_ok valid disk n d bpb cs" "off + k \<le> unat (file_size d)"
  shows "length (slice off k (file_bytes disk bpb cs)) = k"
proof -
  have f: "bytes_per_sector bpb = 512" "unat (file_size d) \<le> unat (cluster_bytes bpb) * length cs"
    using assms(1) by (auto simp: file_ok_def)
  have "length (concat (List.map (content disk bpb) xs)) = unat (cluster_bytes bpb) * length xs" for xs
    using f(1) by (induction xs) (simp_all add: content_def cluster_bytes_unat)
  then show ?thesis using f(2) assms(2) by (simp add: slice_def file_bytes_def)
qed

lemma slice_split: "slice off (a + b) xs = slice off a xs @ slice (off + a) b xs"
  by (simp add: slice_def take_add add.commute)

lemma patch_twice:
  assumes "length x = a" "at + a + b \<le> length buf"
  shows "take (at + a) (take at buf @ x @ drop (at + a) buf) @ y @ drop (at + a + b) (take at buf @ x @ drop (at + a) buf)
    = take at buf @ (x @ y) @ drop (at + (a + b)) buf"
  using assms by (simp add: add.assoc add.commute [of b] add.left_commute)

lemma unat_ucast_u32: "unat (w :: u64) < 4294967296 \<Longrightarrow> unat (ucast w :: u32) = unat w"
  unfolding unsigned_ucast_eq by (rule take_bit_nat_eq_self) simp

lemma fat_read_rest_all:
  assumes f: "file_ok valid disk n d bpb cs"
  shows "ok s \<Longrightarrow> unat off mod unat (cluster_bytes bpb) = 0 \<Longrightarrow> unat off + unat sz \<le> unat (file_size d) \<Longrightarrow>
    at + unat sz \<le> length buf \<Longrightarrow> unat sz div unat (cluster_bytes bpb) + 2 \<le> k \<Longrightarrow>
    \<exists>s'. fat_read_rest k rd n (cluster_bytes bpb) off sz at buf s
      = Some (Inr (of_nat (unat sz mod unat (cluster_bytes bpb)),
          take at buf @ slice (unat off) (unat sz) (file_bytes disk bpb cs) @ drop (at + unat sz) buf, s')) \<and> ok s'"
proof (induction k arbitrary: off sz at buf s)
  case (Suc k)
  let ?cb = "cluster_bytes bpb" and ?X = "file_bytes disk bpb cs"
  have b: "bytes_per_sector bpb = 512" and n0: "sectors_per_cluster bpb \<noteq> 0" using f by (auto simp: file_ok_def)
  have cb: "0 < unat ?cb" "unat ?cb < 131072" using b n0 cluster_bytes_small by (simp_all add: cluster_bytes_unat unat_gt_0)
  obtain k' where k: "k = Suc k'" using Suc.prems(5) by (cases k) auto
  show ?case
  proof (cases "?cb \<le> ucast sz")
    case False
    then have lt: "unat sz < unat ?cb" by (simp add: word_le_nat_alt unat_ucast_u64)
    show ?thesis
    proof (cases "sz = 0")
      case True
      then show ?thesis using False Suc.prems(1) by (simp add: slice_def)
    next
      case nz: False
      have w: "unat off mod unat ?cb + unat sz \<le> unat ?cb" using Suc.prems(2) lt by simp
      show ?thesis using fat_read_within [OF Suc.prems(1) f Suc.prems(3) nz w Suc.prems(4), of k'] False nz lt
        by (auto simp: k of_nat_unat)
    qed
  next
    case True
    then have ge: "unat ?cb \<le> unat sz" by (simp add: word_le_nat_alt unat_ucast_u64)
    have u: "unat (ucast ?cb :: u32) = unat ?cb" using cb(2) by (intro unat_ucast_u32) simp
    have nz: "(ucast ?cb :: u32) \<noteq> 0" using u cb(1) by auto
    have d: "unat (sz - ucast ?cb) = unat sz - unat ?cb" using ge u by (simp add: unat_sub word_le_nat_alt)
    have o: "unat (off + ?cb) = unat off + unat ?cb"
      using Suc.prems(3) unat_u32_less [of "file_size d"] ge by (intro unat_plus_u64) linarith
    have p: "unat off + unat (ucast ?cb :: u32) \<le> unat (file_size d)" "at + unat (ucast ?cb :: u32) \<le> length buf"
      "unat off mod unat ?cb + unat (ucast ?cb :: u32) \<le> unat ?cb" using Suc.prems(2,3,4) ge u by simp_all
    let ?x = "slice (unat off) (unat ?cb) ?X"
    let ?buf = "take at buf @ ?x @ drop (at + unat ?cb) buf"
    obtain s1 where s1: "fat_read k rd n off (ucast ?cb) at buf s = Some (Inr (ucast ?cb, ?buf, s1))" "ok s1"
      using fat_read_within [OF Suc.prems(1) f p(1) nz p(3,2), of k'] by (auto simp: u k)
    have lx: "length ?x = unat ?cb" using length_file_slice [OF f, of "unat off" "unat ?cb"] p(1) u by simp
    have q: "unat (off + ?cb) mod unat ?cb = 0" "unat (off + ?cb) + unat (sz - ucast ?cb) \<le> unat (file_size d)"
      "at + unat ?cb + unat (sz - ucast ?cb) \<le> length ?buf" "unat (sz - ucast ?cb) div unat ?cb + 2 \<le> k"
      using Suc.prems(2-5) ge o d lx cb(1) by (simp_all add: le_div_geq)
    have m: "(unat sz - unat ?cb) mod unat ?cb = unat sz mod unat ?cb" using ge by (simp add: le_mod_geq)
    have t: "take (at + unat ?cb) ?buf @ slice (unat off + unat ?cb) (unat sz - unat ?cb) ?X @ drop (at + unat ?cb + (unat sz - unat ?cb)) ?buf
        = take at buf @ slice (unat off) (unat sz) ?X @ drop (at + unat sz) buf"
      using patch_twice [OF lx, of at "unat sz - unat ?cb" buf] Suc.prems(4) ge slice_split [of "unat off" "unat ?cb" "unat sz - unat ?cb" ?X] by simp
    from Suc.IH [OF s1(2) q, unfolded o d m t] show ?thesis using s1(1) True by (auto simp: u)
  qed
qed simp

text \<open>A read that leaves the cluster of its offset: the parts come from the front of the file.\<close>

lemma fat_read_across:
  assumes "ok s" and f: "file_ok valid disk n d bpb cs" and fits: "unat off + unat sz \<le> unat (file_size d)"
    "at + unat sz \<le> length buf" and r: "r = unat off mod unat (cluster_bytes bpb)" "unat (cluster_bytes bpb) < r + unat sz"
    and k: "unat sz div unat (cluster_bytes bpb) + 2 \<le> k"
  shows "\<exists>s'. fat_read (Suc k) rd n off sz at buf s
      = Some (Inr (of_nat ((r + unat sz) mod unat (cluster_bytes bpb)),
          take at buf @ slice r (unat sz) (file_bytes disk bpb cs) @ drop (at + unat sz) buf, s')) \<and> ok s'"
proof -
  let ?cb = "cluster_bytes bpb" and ?X = "file_bytes disk bpb cs"
  let ?o = "of_nat r :: u64"
  let ?p = "unat ?cb - r" and ?ps = "ucast (?cb - ?o) :: u32"
  obtain l where e: "fentry n = Some (d, l, bpb)" "attribs d \<noteq> 0x10" "linked disk bpb cs" "hd cs = start_of d"
    "\<forall>c \<in> set cs. cluster_ok valid bpb c" "unat (file_size d) \<le> unat ?cb * length cs"
    and b: "bytes_per_sector bpb = 512" and n0: "sectors_per_cluster bpb \<noteq> 0" using f by (auto simp: file_ok_def)
  have cb: "0 < unat ?cb" "unat ?cb < 131072" using b n0 cluster_bytes_small by (simp_all add: cluster_bytes_unat unat_gt_0)
  have rc: "r < unat ?cb" "r \<le> unat off" using cb(1) by (simp_all add: r(1))
  have sz0: "0 < unat sz" using r(2) rc(1) by simp
  have q: "unat off div unat ?cb < length cs" using fits(1) e(6) sz0 cb(1) by (simp add: div_less_iff_less_mult mult.commute)
  obtain s0 where sk: "skip_clusters rd bpb (start_of d) off s = Some (Inr (cs ! (unat off div unat ?cb), ?o, s0))" "ok s0"
    using skip_clusters_chain [OF b n0 assms(1) e(3,5) q] e(4) r(1) by auto
  have c0: "cs ! (unat off div unat ?cb) \<noteq> 0" by (rule linked_nonzero [OF e(3) nth_mem [OF q]])
  have ur: "unat ?o = r" using rc(1) cb(2) by (intro unat_small_u64) linarith
  have "unat (?cb - ?o) = ?p" using rc(1) ur by (simp add: unat_sub word_le_nat_alt)
  then have ps: "unat ?ps = ?p" using cb(2) by (simp add: unat_ucast_u32)
  have lt: "unat off + unat sz < 18446744073709551616" using fits(1) unat_u32_less [of "file_size d"] by linarith
  have le: "off + ucast sz \<le> ucast (file_size d)" "\<not> ?o + ucast sz \<le> ?cb"
    using fits(1) r(2) rc lt by (simp_all add: word_le_nat_alt unat_plus_u64 unat_ucast_u64 ur)
  have nz: "?ps \<noteq> 0" using ps rc(1) by auto
  have p: "unat ?o + unat ?ps \<le> unat (file_size d)" "at + unat ?ps \<le> length buf" "unat ?o mod unat ?cb + unat ?ps \<le> unat ?cb"
    using fits r(2) rc ps ur by simp_all
  let ?x = "slice r ?p ?X"
  let ?buf = "take at buf @ ?x @ drop (at + ?p) buf"
  obtain k' where k': "k = Suc k'" using k by (cases k) auto
  obtain s1 where s1: "fat_read k rd n ?o ?ps at buf s0 = Some (Inr (?ps, ?buf, s1))" "ok s1"
    using fat_read_within [OF sk(2) f p(1) nz p(3,2), of k'] by (auto simp: ps k' ur)
  have lx: "length ?x = ?p" using length_file_slice [OF f, of r ?p] p(1) ps ur by simp
  have o: "unat (?o + ucast ?ps) = unat ?cb"
    using rc(1) cb(2) ps ur by (subst unat_plus_u64) (simp_all add: unat_ucast_u64)
  have dd: "unat (sz - ?ps) = unat sz - ?p" using rc(1) r(2) ps by (subst unat_sub) (simp_all add: word_le_nat_alt)
  have q3: "unat (?o + ucast ?ps) mod unat ?cb = 0" "unat (?o + ucast ?ps) + unat (sz - ?ps) \<le> unat (file_size d)"
    "at + ?p + unat (sz - ?ps) \<le> length ?buf"
    using fits rc r(2) o dd lx by simp_all
  have "unat (sz - ?ps) div unat ?cb \<le> unat sz div unat ?cb" by (simp add: dd div_le_mono)
  then have q4: "unat (sz - ?ps) div unat ?cb + 2 \<le> k" using k by simp
  have "r + unat sz = (unat sz - ?p) + unat ?cb" using rc(1) r(2) by simp
  then have m: "(unat sz - ?p) mod unat ?cb = (r + unat sz) mod unat ?cb" by (simp only: mod_add_self2)
  have t: "take (at + ?p) ?buf @ slice (unat ?cb) (unat sz - ?p) ?X @ drop (at + ?p + (unat sz - ?p)) ?buf
      = take at buf @ slice r (unat sz) ?X @ drop (at + unat sz) buf"
    using patch_twice [OF lx, of at "unat sz - ?p" buf] rc(1) r(2) fits(2) slice_split [of r ?p "unat sz - ?p" ?X] by simp
  from fat_read_rest_all [OF f s1(2) q3 q4, unfolded o dd m t] show ?thesis
    using s1(1) e(1,2) sk le c0 by (auto simp: start_of_def ps Let_def)
qed

end

end
