(* ===== verification/Ata.thy ===== *)
theory Ata
  imports Regions Interrupts
begin

text \<open>
  The ATA disk driver, \<open>os/modules/ramdisk_modules/ata/main.c\<close>. The drives are behind the ports: the
  parameter \<open>dev\<close> of theory Port_IO answers every read from the history of port accesses, which is part of
  the state. The file is compiled with \<open>ATA_NODMA\<close> set, so in every condition \<open>ATA_NODMA || !dma_setup\<close>
  the programmed transfer is taken and the other branch is dead code; the bus master programs
  \<open>dma_init\<close>, \<open>dma_start\<close> and \<open>dma_end\<close> are modelled on their own. Mounts are recorded with the
  device that \<open>ata_mount\<close> would hang into the node; console output is left out.
\<close>

subsection \<open>Data\<close>

record partition =
  bootable :: u8
  ptype :: u8
  pstart :: u32
  psectors :: u32

record ata_device =
  abus :: u8
  adrive :: u8
  info :: "u16 list"
  patrition_info :: "partition option"
  busmaster :: u32
  dma :: u32
  dbuffer :: u32

record ata =
  devices :: "ata_device option list"
  device_idx :: u16
  letter_idx :: u8
  selected_drive :: u8
  ports :: io
  amem :: bytes
  mounts :: "(u8 list \<times> ata_device option) list"

text \<open>The fields of the identification block, words 60 and 100 of the 256.\<close>

definition lba28_sectors :: "u16 list \<Rightarrow> u32" where
  "lba28_sectors w = ucast (w ! 60) OR push_bit 16 (ucast (w ! 61))"

definition lba48_sectors :: "u16 list \<Rightarrow> u64" where
  "lba48_sectors w = ucast (w ! 100) OR push_bit 16 (ucast (w ! 101)) OR push_bit 32 (ucast (w ! 102))
     OR push_bit 48 (ucast (w ! 103))"

definition io_base :: "u8 \<Rightarrow> u16" where
  "io_base bus = (if bus \<noteq> 0 then 0x1F0 else 0x170)"

subsection \<open>Selecting and identifying\<close>

definition ata_index :: "u8 \<Rightarrow> u8 \<Rightarrow> u8" where
  "ata_index bus drive = (if bus \<noteq> 0 then if drive \<noteq> 0 then 0 else 1 else if drive \<noteq> 0 then 2 else 3)"

definition ata_seldrive :: "u8 \<Rightarrow> u8 \<Rightarrow> ata \<Rightarrow> ata" where
  "ata_seldrive bus drive s =
     s\<lparr>ports := outb (io_base bus + 6) (if drive \<noteq> 0 then 0xA0 else 0xB0) (ports s),
       selected_drive := ata_index bus drive\<rparr>"

definition ata_reset :: "device \<Rightarrow> u8 \<Rightarrow> ata \<Rightarrow> ata" where
  "ata_reset dev bus s =
     s\<lparr>ports := outb (io_base bus + 0) 0 (snd (inb dev (io_base bus + 7) (outb (io_base bus + 0) 0x20 (ports s))))\<rparr>"

text \<open>Reading the status again as long as it is not settled: \<open>None\<close> if it never is.\<close>

partial_function (option) spin :: "device \<Rightarrow> u16 \<Rightarrow> (u8 \<Rightarrow> bool) \<Rightarrow> u8 \<Rightarrow> io \<Rightarrow> (u8 \<times> io) option" where
  "spin dev port again st h =
     (if again st then (case inb dev port h of (st, h) \<Rightarrow> spin dev port again st h) else Some (st, h))"

fun read_words :: "device \<Rightarrow> u16 \<Rightarrow> nat \<Rightarrow> io \<Rightarrow> u16 list \<times> io" where
  "read_words dev port 0 h = ([], h)"
| "read_words dev port (Suc k) h =
     (let (w, h) = inw dev port h; (ws, h) = read_words dev port k h in (w # ws, h))"

definition ata_ident :: "device \<Rightarrow> u8 \<Rightarrow> u8 \<Rightarrow> ata \<Rightarrow> (u16 list option \<times> ata) option" where
  "ata_ident dev bus drive s =
     (let s = ata_seldrive bus drive s;
          base = io_base bus;
          h = outb (base + 7) 0xEC (outb (base + 5) 0 (outb (base + 4) 0 (outb (base + 3) 0 (outb (base + 2) 0 (ports s)))));
          (status, h) = inb dev (base + 7) h
      in if status = 0 then Some (None, s\<lparr>ports := h\<rparr>)
         else Option.bind (spin dev (base + 7) (\<lambda>st. GET_BIT st 7 \<noteq> 0) status h) (\<lambda>(status, h).
           let (mid, h) = inb dev (base + 4) h;
               (high, h) = (if mid \<noteq> 0 then (mid, h) else inb dev (base + 5) h)
           in if mid \<noteq> 0 \<or> high \<noteq> 0 then Some (None, s\<lparr>ports := h\<rparr>)
              else Option.bind (spin dev (base + 7) (\<lambda>st. GET_BIT st 3 = 0 \<and> GET_BIT st 0 = 0 \<and> GET_BIT st 5 = 0) status h)
                (\<lambda>(status, h).
                if GET_BIT status 0 = 0 \<and> GET_BIT status 5 = 0
                then (let (ws, h) = read_words dev base 256 h in Some (Some ws, s\<lparr>ports := h\<rparr>))
                else Some (None, s\<lparr>ports := h\<rparr>))))"

text \<open>The remaining fields keep what the block from \<open>kmalloc\<close> held before.\<close>

definition ata_create_device :: "ata_device \<Rightarrow> u8 \<Rightarrow> u8 \<Rightarrow> u16 list \<Rightarrow> ata_device" where
  "ata_create_device fresh bus drive buffer =
     fresh\<lparr>abus := bus, adrive := drive, info := buffer, patrition_info := None\<rparr>"

definition ata_select :: "ata_device \<Rightarrow> ata \<Rightarrow> ata" where
  "ata_select d s =
     (if selected_drive s \<noteq> ata_index (abus d) (adrive d) then ata_seldrive (abus d) (adrive d) s else s)"

definition ata_delay :: "device \<Rightarrow> ata_device \<Rightarrow> ata \<Rightarrow> ata" where
  "ata_delay dev d s =
     (let s = ata_select d s
      in s\<lparr>ports := ((\<lambda>h. snd (inb dev (io_base (abus d) + 7) h)) ^^ 4) (ports s)\<rparr>)"

partial_function (option) poll_status :: "device \<Rightarrow> u16 \<Rightarrow> io \<Rightarrow> (u8 \<times> io) option" where
  "poll_status dev port h =
     (case inb dev port h of (status, h) \<Rightarrow>
        if GET_BIT status 0 \<noteq> 0 \<or> GET_BIT status 5 \<noteq> 0 then Some (0, h)
        else if GET_BIT status 7 = 0 \<and> GET_BIT status 3 \<noteq> 0 then Some (1, h)
        else poll_status dev port h)"

definition ata_poll :: "device \<Rightarrow> ata_device \<Rightarrow> ata \<Rightarrow> (u8 \<times> ata) option" where
  "ata_poll dev d s =
     (let s = ata_select d s
      in map_option (\<lambda>(r, h). (r, s\<lparr>ports := h\<rparr>)) (poll_status dev (io_base (abus d) + 7) (ports s)))"

subsection \<open>Bus master programs\<close>

definition bm_offset :: "ata_device \<Rightarrow> u32" where
  "bm_offset d = (if abus d \<noteq> 0 then 0 else 8)"

definition dma_init :: "device \<Rightarrow> ata_device \<Rightarrow> u8 \<Rightarrow> io \<Rightarrow> io" where
  "dma_init dev d mode h =
     (let p = busmaster d + bm_offset d;
          h = outl (ucast (p + 4)) (dma d) (outb (ucast p) 0 h);
          (st, h) = inb dev (ucast (p + 2)) h;
          h = outb (ucast (p + 2)) (st OR 0x04 OR 0x02) h
      in outb (ucast p) (if mode \<noteq> 0 then 0 else 8) h)"

definition dma_start :: "ata_device \<Rightarrow> u8 \<Rightarrow> io \<Rightarrow> io" where
  "dma_start d mode h = outb (ucast (busmaster d + bm_offset d)) ((if mode \<noteq> 0 then 0 else 8) OR 1) h"

definition dma_end :: "device \<Rightarrow> ata_device \<Rightarrow> io \<Rightarrow> io" where
  "dma_end dev d h =
     (let p = ucast (busmaster d + bm_offset d + 2); (st, h) = inb dev p h in outb p (st OR 0x04 OR 0x02) h)"

subsection \<open>Sectors\<close>

text \<open>Programming the sector address: the long form writes each address register twice.\<close>

definition lba48_out :: "u16 \<Rightarrow> u8 \<Rightarrow> u64 \<Rightarrow> io \<Rightarrow> io" where
  "lba48_out base drive lba h =
     (let h = outb (base + 6) (if drive \<noteq> 0 then 0x40 else 0x50) h;
          h = outb (base + 2) 0 h;
          h = outb (base + 3) (ucast (drop_bit 24 (ucast (ucast lba :: u8) :: u32))) h;
          h = outb (base + 4) (ucast (drop_bit 32 lba)) h;
          h = outb (base + 5) (ucast (drop_bit 40 lba)) h;
          h = outb (base + 2) 1 h;
          h = outb (base + 3) (ucast lba) h;
          h = outb (base + 4) (ucast (drop_bit 8 lba)) h
      in outb (base + 5) (ucast (drop_bit 16 lba)) h)"

definition lba28_out :: "u16 \<Rightarrow> u8 \<Rightarrow> u32 \<Rightarrow> io \<Rightarrow> io" where
  "lba28_out base drive slba h =
     (let h = outb (base + 6) (ucast ((0xE0 :: u32) OR (if drive = 0 then 0x10 else 0) OR (drop_bit 24 slba AND 0x0F))) h;
          h = outb (base + 2) 1 h;
          h = outb (base + 3) (ucast slba) h;
          h = outb (base + 4) (ucast (drop_bit 8 slba)) h
      in outb (base + 5) (ucast (drop_bit 16 slba)) h)"

definition disk_lba :: "ata_device \<Rightarrow> u64 \<Rightarrow> u64" where
  "disk_lba d lba = (case patrition_info d of Some p \<Rightarrow> lba + ucast (pstart p) | None \<Rightarrow> lba)"

fun put_halves :: "u32 \<Rightarrow> u16 list \<Rightarrow> bytes \<Rightarrow> bytes" where
  "put_halves p [] m = m"
| "put_halves p (w # ws) m = put_halves (p + 2) ws (wr16 p w m)"

definition ata_read_sector :: "device \<Rightarrow> ata_device \<Rightarrow> u64 \<Rightarrow> u32 \<Rightarrow> ata \<Rightarrow> (u16 \<times> ata) option" where
  "ata_read_sector dev d lba buffer s =
     (let lba = disk_lba d lba;
          base = io_base (abus d);
          s = ata_select d s;
          h = outb (base + 1) 0 (ports s);
          h = (if lba48_sectors (info d) > 0
               then outb (base + 7) 0xE7 (outb (base + 7) 0x24 (lba48_out base (adrive d) lba h))
               else outb (base + 7) 0xE7 (outb (base + 7) 0x20 (lba28_out base (adrive d) (ucast lba) h)));
          s = ata_delay dev d (s\<lparr>ports := h\<rparr>)
      in Option.bind (ata_poll dev d s) (\<lambda>(ok, s).
           if ok \<noteq> 0 then (let (ws, h) = read_words dev base 256 (ports s)
                in Some (512, s\<lparr>ports := h, amem := put_halves buffer ws (amem s)\<rparr>))
           else Some (0, s)))"

text \<open>\<open>outb\<close> takes a byte: of each 16-bit word only the low half goes out.\<close>

definition ata_write_sector :: "device \<Rightarrow> ata_device \<Rightarrow> u64 \<Rightarrow> u32 \<Rightarrow> ata \<Rightarrow> (u16 \<times> ata) option" where
  "ata_write_sector dev d lba buffer s =
     (let lba = disk_lba d lba;
          base = io_base (abus d);
          s = ata_select d s;
          h = ports s;
          h = (if lba48_sectors (info d) > 0
               then outb (base + 7) 0xE7 (outb (base + 7) 0x34 (lba48_out base (adrive d) lba h))
               else outb (base + 7) 0xE7 (outb (base + 7) 0x30 (lba28_out base (adrive d) (ucast lba) h)));
          s = ata_delay dev d (s\<lparr>ports := h\<rparr>)
      in Option.bind (ata_poll dev d s) (\<lambda>(ok, s).
           if ok \<noteq> 0 then Some (512, s\<lparr>ports :=
                fold (\<lambda>i. outb base (ucast (rd16 (amem s) (buffer + 2 * of_nat i)))) [0..<256] (ports s)\<rparr>)
           else Some (0, s)))"

fun device_loop :: "(u64 \<Rightarrow> u32 \<Rightarrow> ata \<Rightarrow> (u16 \<times> ata) option) \<Rightarrow> u64 \<Rightarrow> u32 \<Rightarrow> u32 \<Rightarrow> nat \<Rightarrow> u32 \<Rightarrow> ata \<Rightarrow> (u32 \<times> ata) option" where
  "device_loop sector lba buffer i 0 done s = Some (done, s)"
| "device_loop sector lba buffer i (Suc k) done s =
     Option.bind (sector (lba + ucast i) (buffer + i * 512) s) (\<lambda>(r, s).
       device_loop sector lba buffer (i + 1) k (if r = 0 then done - 1 else done) s)"

definition ata_read_device :: "device \<Rightarrow> ata_device \<Rightarrow> u64 \<Rightarrow> u32 \<Rightarrow> u32 \<Rightarrow> ata \<Rightarrow> (u32 \<times> ata) option" where
  "ata_read_device dev d lba sz buffer s = device_loop (ata_read_sector dev d) lba buffer 0 (unat sz) sz s"

definition ata_write_device :: "device \<Rightarrow> ata_device \<Rightarrow> u64 \<Rightarrow> u32 \<Rightarrow> u32 \<Rightarrow> ata \<Rightarrow> (u32 \<times> ata) option" where
  "ata_write_device dev d lba sz buffer s = device_loop (ata_write_sector dev d) lba buffer 0 (unat sz) sz s"

subsection \<open>The file system operations and interrupts\<close>

text \<open>The inode of a mounted node is the device; a node whose device is missing makes the access wild.\<close>

definition ata_mount :: "u8 list \<Rightarrow> ata \<Rightarrow> ata" where
  "ata_mount path s = s\<lparr>mounts := mounts s @ [(path, devices s ! unat (device_idx s))]\<rparr>"

definition ata_read :: "device \<Rightarrow> ata_device option \<Rightarrow> u64 \<Rightarrow> u32 \<Rightarrow> u32 \<Rightarrow> ata \<Rightarrow> (u32 \<times> ata) res option" where
  "ata_read dev node offs sz buffer s = (case node of None \<Rightarrow> Some (Inl Wild)
     | Some d \<Rightarrow> map_option Inr (ata_read_device dev d offs sz buffer s))"

definition ata_write :: "device \<Rightarrow> ata_device option \<Rightarrow> u64 \<Rightarrow> u32 \<Rightarrow> u32 \<Rightarrow> ata \<Rightarrow> (u32 \<times> ata) res option" where
  "ata_write dev node offs sz buffer s = (case node of None \<Rightarrow> Some (Inl Wild)
     | Some d \<Rightarrow> map_option Inr (ata_write_device dev d offs sz buffer s))"

definition ata_check_gpt :: "u32 \<Rightarrow> bytes \<Rightarrow> bool" where
  "ata_check_gpt p m \<longleftrightarrow> List.map (\<lambda>i. m (p + of_nat i)) [0..<8] = [69, 70, 73, 32, 80, 65, 82, 84]"

definition ata_master_irq :: "device \<Rightarrow> u32 \<Rightarrow> io \<Rightarrow> io" where
  "ata_master_irq dev master_port h =
     irq_end 14 (snd (inb dev 0x1F7 (snd (inb dev (ucast (master_port + 2)) (outb (ucast master_port) 0 h)))))"

definition ata_slave_irq :: "device \<Rightarrow> u32 \<Rightarrow> io \<Rightarrow> io" where
  "ata_slave_irq dev slave_port h =
     irq_end 15 (snd (inb dev 0x177 (snd (inb dev (ucast (slave_port + 0xA)) (outb (ucast (slave_port + 8)) 0 h)))))"

subsection \<open>Searching for drives\<close>

text \<open>\<open>fresh\<close> is what the blocks of new devices hold before, \<open>buf\<close> the address of the sector buffer on the
  stack of \<open>load\<close>.\<close>

definition sd_path :: "u8 \<Rightarrow> u8 list \<Rightarrow> u8 list" where
  "sd_path sec rest = takeWhile (\<lambda>c. c \<noteq> 0) ([47, 100, 101, 118, 47, 115, 100, sec] @ rest)"

definition add_device :: "u8 list \<Rightarrow> ata_device \<Rightarrow> ata \<Rightarrow> ata res" where
  "add_device path d s =
     sbind (store_at (devices s) (unat (device_idx s)) (Some d)) (\<lambda>ds. Inr (ata_mount path (s\<lparr>devices := ds\<rparr>)))"

definition read_partition :: "u32 \<Rightarrow> bytes \<Rightarrow> partition" where
  "read_partition p m = \<lparr>bootable = m p, ptype = m (p + 4), pstart = rd32 m (p + 8), psectors = rd32 m (p + 12)\<rparr>"

fun scan_partitions :: "ata_device \<Rightarrow> u8 \<Rightarrow> u32 \<Rightarrow> nat \<Rightarrow> nat \<Rightarrow> ata \<Rightarrow> ata res" where
  "scan_partitions d sec buf z 0 s = Inr s"
| "scan_partitions d sec buf z (Suc k) s =
     (let part = read_partition (buf + 0x1BE + of_nat z * 16) (amem s) in
      if psectors part > 0 then
        sbind (add_device (sd_path sec [49 + of_nat z]) (d\<lparr>patrition_info := Some part\<rparr>) s) (\<lambda>s.
          scan_partitions d sec buf (z + 1) k (s\<lparr>device_idx := device_idx s + 1\<rparr>))
      else scan_partitions d sec buf (z + 1) k s)"

definition probe_drive :: "device \<Rightarrow> ata_device \<Rightarrow> u32 \<Rightarrow> u8 \<Rightarrow> u8 \<Rightarrow> ata \<Rightarrow> ata res option" where
  "probe_drive dev fresh buf i j s =
     Option.bind (ata_ident dev i j s) (\<lambda>(w, s).
     case w of None \<Rightarrow> Some (Inr s)
     | Some w \<Rightarrow>
        let d = ata_create_device fresh i j w; sec = 97 + letter_idx s in
        res_bind (Some (add_device (sd_path sec []) d s)) (\<lambda>s.
        let s = s\<lparr>letter_idx := letter_idx s + 1, device_idx := device_idx s + 1\<rparr> in
        Option.bind (ata_read_device dev d 1 1 buf s) (\<lambda>(_, s).
        if ata_check_gpt buf (amem s) then Some (Inr s)
        else Option.bind (ata_read_device dev d 0 1 buf s) (\<lambda>(_, s).
          Some (scan_partitions d sec buf 0 4 s)))))"

definition load :: "device \<Rightarrow> ata_device \<Rightarrow> u32 \<Rightarrow> ata \<Rightarrow> ata res option" where
  "load dev fresh buf s =
     (let s = s\<lparr>ports := outb 0x376 2 (ports s)\<rparr> in
      res_bind (probe_drive dev fresh buf 0 0 s) (\<lambda>s.
      res_bind (probe_drive dev fresh buf 0 1 s) (\<lambda>s.
      let s = s\<lparr>ports := outb 0x3F6 2 (ports s)\<rparr> in
      res_bind (probe_drive dev fresh buf 1 0 s) (\<lambda>s.
      probe_drive dev fresh buf 1 1 s))))"

subsection \<open>A conforming drive\<close>

text \<open>What a drive knows: for each register the bytes written to it, the latest first; and how many data
  words were read since the last command.\<close>

fun written :: "u16 \<Rightarrow> io \<Rightarrow> u8 list" where
  "written port [] = []"
| "written port (e # evs) = (case e of Out8 p v \<Rightarrow> written port evs @ (if p = port then [v] else []) | _ \<Rightarrow> written port evs)"

lemma written_append: "written port (xs @ ys) = written port ys @ written port xs"
  by (induction xs) (auto split: io_event.splits)

definition data_index :: "u16 \<Rightarrow> io \<Rightarrow> nat" where
  "data_index base h = length (filter ((=) (In16 base)) (takeWhile (\<lambda>e. \<forall>v. e \<noteq> Out8 (base + 7) v) (rev h)))"

text \<open>The sector address in the short and in the long form.\<close>

definition lba28_of :: "u16 \<Rightarrow> io \<Rightarrow> u64" where
  "lba28_of base h = ucast (written (base + 3) h ! 0) OR push_bit 8 (ucast (written (base + 4) h ! 0))
     OR push_bit 16 (ucast (written (base + 5) h ! 0)) OR push_bit 24 (ucast (written (base + 6) h ! 0 AND 0x0F))"

definition lba48_of :: "u16 \<Rightarrow> io \<Rightarrow> u64" where
  "lba48_of base h = ucast (written (base + 3) h ! 0) OR push_bit 8 (ucast (written (base + 4) h ! 0))
     OR push_bit 16 (ucast (written (base + 5) h ! 0)) OR push_bit 24 (ucast (written (base + 3) h ! 1))
     OR push_bit 32 (ucast (written (base + 4) h ! 1)) OR push_bit 40 (ucast (written (base + 5) h ! 1))"

text \<open>What is assumed of a drive: it is ready with data at every look at its status, and the words read since
  the last command are those of the sector that the registers address. This holds for every history, so
  whatever the last command was: the driver sends the command that flushes the cache right behind the one
  that reads, before it takes the data, and the drive is assumed to deliver the sector all the same.\<close>

definition drive_of :: "(u16 \<Rightarrow> io \<Rightarrow> u64) \<Rightarrow> (u64 \<Rightarrow> nat \<Rightarrow> u16) \<Rightarrow> u16 \<Rightarrow> device \<Rightarrow> bool" where
  "drive_of addr disk base dev \<longleftrightarrow>
     (\<forall>h. (ucast (dev h (base + 7)) :: u8) = 0x58 \<and> ucast (dev h base) = disk (addr base h) (data_index base h))"

lemma io_base_cases: "io_base b = 0x1F0 \<or> io_base b = 0x170"
  by (simp add: io_base_def)

definition quiet :: "u16 \<Rightarrow> io \<Rightarrow> bool" where
  "quiet base evs \<longleftrightarrow> (\<forall>e \<in> set evs. \<forall>p v. e \<noteq> Out8 p v)"

lemma written_quiet: "quiet base evs \<Longrightarrow> written port evs = []"
  by (induction evs) (auto simp: quiet_def split: io_event.splits)

lemma read_words_drive:
  assumes d: "drive_of addr disk base dev" and a: "\<And>evs. quiet base evs \<Longrightarrow> addr base (h @ evs) = lba"
  shows "quiet base evs \<Longrightarrow> data_index base (h @ evs) = i \<Longrightarrow>
    \<exists>fvs. quiet base fvs \<and> read_words dev base k (h @ evs) = (List.map (disk lba) [i..<i + k], h @ evs @ fvs)"
proof (induction k arbitrary: evs i)
  case 0
  then show ?case by (intro exI [of _ "[]"]) (simp add: quiet_def)
next
  case (Suc k)
  have q: "quiet base (evs @ [In16 base])" using Suc.prems(1) by (auto simp: quiet_def)
  have i: "data_index base (h @ evs @ [In16 base]) = Suc i" using Suc.prems(2) by (simp add: data_index_def)
  have w: "ucast (dev (h @ evs) base) = disk lba i"
    using d a [OF Suc.prems(1)] Suc.prems(2) by (simp add: drive_of_def)
  from Suc.IH [OF q i] obtain fvs where fvs: "quiet base fvs"
    "read_words dev base k (h @ evs @ [In16 base]) = (List.map (disk lba) [Suc i..<Suc i + k], h @ (evs @ [In16 base]) @ fvs)" by auto
  have "[i..<i + Suc k] = i # [Suc i..<Suc i + k]" by (subst upt_conv_Cons) simp_all
  then show ?case using fvs w
    by (intro exI [of _ "In16 base # fvs"]) (auto simp: quiet_def inw_def)
qed

lemma poll_drive: "drive_of addr disk base dev \<Longrightarrow> poll_status dev (base + 7) h = Some (1, h @ [In8 (base + 7)])"
  by (subst poll_status.simps) (simp add: drive_of_def inb_def GET_BIT_def)

text \<open>Once the command is out, the transfer reads the sector that the registers address.\<close>

lemma transfer_reads:
  assumes d: "drive_of addr disk (io_base (abus d)) dev" "selected_drive s = ata_index (abus d) (adrive d)"
    and h: "ports s = g @ [Out8 (io_base (abus d) + 7) c]" "\<And>evs. quiet (io_base (abus d)) evs \<Longrightarrow> addr (io_base (abus d)) (ports s @ evs) = lba"
  shows "\<exists>evs. quiet (io_base (abus d)) evs \<and> Option.bind (ata_poll dev d (ata_delay dev d s)) (\<lambda>(ok, s).
           if ok \<noteq> 0 then (let (ws, h) = read_words dev (io_base (abus d)) 256 (ports s)
                in Some (512 :: u16, s\<lparr>ports := h, amem := put_halves buffer ws (amem s)\<rparr>))
           else Some (0, s))
     = Some (512, s\<lparr>ports := ports s @ evs, amem := put_halves buffer (List.map (disk lba) [0..<256]) (amem s)\<rparr>)"
proof -
  let ?b = "io_base (abus d)"
  let ?evs = "replicate 5 (In8 (?b + 7))"
  have q: "quiet ?b ?evs" by (simp add: quiet_def)
  have i: "data_index ?b (ports s @ ?evs) = 0" using h(1) by (simp add: data_index_def eval_nat_numeral)
  from read_words_drive [of addr disk ?b dev "ports s" lba, OF d(1) h(2) q i, of 256]
  obtain fvs where fvs: "quiet ?b fvs"
    "read_words dev ?b 256 (ports s @ ?evs) = (List.map (disk lba) [0..<256], ports s @ ?evs @ fvs)" by auto
  have p: "ata_poll dev d (ata_delay dev d s) = Some (1, s\<lparr>ports := ports s @ ?evs\<rparr>)"
    using d(2) by (simp add: ata_poll_def ata_delay_def ata_select_def poll_drive [OF d(1)] Let_def inb_def eval_nat_numeral)
  show ?thesis using fvs p q by (intro exI [of _ "?evs @ fvs"]) (auto simp: quiet_def)
qed

lemma take_bit_small: "unat w < 2 ^ n \<Longrightarrow> take_bit n w = (w :: 'a :: len word)"
  by (rule unsigned_word_eqI [where ?'a = nat]) (simp add: unsigned_take_bit_eq take_bit_nat_eq_self)

lemma nibble: "x AND 0x0F = take_bit 4 (x :: 'a :: len word)"
  by (simp add: take_bit_eq_mask mask_eq_exp_minus_1)

lemma drive_register: "ucast ((0xE0 :: u32) OR (if c then 0x10 else 0) OR (y AND 0x0F)) AND (0x0F :: u8) = take_bit 4 (ucast y)"
proof -
  have "ucast ((0xE0 :: u32) OR (if c then 0x10 else 0) OR (y AND 0x0F)) AND (0x0F :: u8)
      = ((0xE0 OR (if c then 0x10 else 0)) AND 0x0F) OR ((ucast y AND 0x0F) AND 0x0F)"
    by (simp add: unsigned_or_eq unsigned_and_eq bit.conj_disj_distrib2)
  also have "\<dots> = take_bit 4 (ucast y)" by (simp add: and.assoc nibble)
  finally show ?thesis .
qed

lemma lba28_of_out:
  assumes "lba < 0x10000000" "quiet base evs" "base = io_base bus"
  shows "lba28_of base (lba28_out base drive (ucast lba) h @ [Out8 (base + 7) c, Out8 (base + 7) c'] @ evs) = lba"
proof -
  have a: "lba28_of base (lba28_out base drive (ucast lba) h @ [Out8 (base + 7) c, Out8 (base + 7) c'] @ evs)
      = ucast (ucast (ucast lba :: u32) :: u8) OR push_bit 8 (ucast (ucast (drop_bit 8 (ucast lba :: u32)) :: u8))
        OR push_bit 16 (ucast (ucast (drop_bit 16 (ucast lba :: u32)) :: u8))
        OR push_bit 24 (ucast (take_bit 4 (ucast (drop_bit 24 (ucast lba :: u32)) :: u8)))"
    using io_base_cases [of bus] assms(3)
    by (auto simp: lba28_of_def lba28_out_def outb_def written_append written_quiet [OF assms(2)] drive_register)
  have "take_bit 28 lba = lba" using assms(1) by (intro take_bit_small) (simp add: word_less_nat_alt)
  then have b: "bit lba n \<longleftrightarrow> n < 28 \<and> bit lba n" for n by (metis bit_take_bit_iff)
  have "bit ((ucast (ucast (ucast lba :: u32) :: u8) :: u64) OR push_bit 8 (ucast (ucast (drop_bit 8 (ucast lba :: u32)) :: u8))
        OR push_bit 16 (ucast (ucast (drop_bit 16 (ucast lba :: u32)) :: u8))
        OR push_bit 24 (ucast (take_bit 4 (ucast (drop_bit 24 (ucast lba :: u32)) :: u8)))) n
      = (n < 28 \<and> bit (lba :: u64) n)" for n
    by (cases "n < 8"; cases "n < 16"; cases "n < 24"; cases "n < 28"; simp add: bit_simps less_diff_conv2)
  then show ?thesis unfolding a using b by (intro bit_word_eqI) simp
qed

text \<open>The long form: bits 24 to 31 of the address are zero whatever they were.\<close>

lemma lba48_of_out:
  assumes "lba < 0x1000000000000" "quiet base evs" "base = io_base bus"
  shows "lba48_of base (lba48_out base drive lba h @ [Out8 (base + 7) c, Out8 (base + 7) c'] @ evs) = lba AND NOT 0xFF000000"
proof -
  have a: "lba48_of base (lba48_out base drive lba h @ [Out8 (base + 7) c, Out8 (base + 7) c'] @ evs)
      = ucast (ucast lba :: u8) OR push_bit 8 (ucast (ucast (drop_bit 8 lba) :: u8))
        OR push_bit 16 (ucast (ucast (drop_bit 16 lba) :: u8)) OR push_bit 24 (ucast (ucast (drop_bit 24 (ucast (ucast lba :: u8) :: u32)) :: u8))
        OR push_bit 32 (ucast (ucast (drop_bit 32 lba) :: u8)) OR push_bit 40 (ucast (ucast (drop_bit 40 lba) :: u8))"
    using io_base_cases [of bus] assms(3)
    by (auto simp: lba48_of_def lba48_out_def outb_def written_append written_quiet [OF assms(2)])
  have "take_bit 48 lba = lba" using assms(1) by (intro take_bit_small) (simp add: word_less_nat_alt)
  then have b: "bit lba n \<longleftrightarrow> n < 48 \<and> bit lba n" for n by (metis bit_take_bit_iff)
  have m: "0xFF000000 = (push_bit 24 (mask 8) :: u64)" by (simp add: mask_eq_exp_minus_1)
  have "bit ((ucast (ucast lba :: u8) :: u64) OR push_bit 8 (ucast (ucast (drop_bit 8 lba) :: u8))
        OR push_bit 16 (ucast (ucast (drop_bit 16 lba) :: u8)) OR push_bit 24 (ucast (ucast (drop_bit 24 (ucast (ucast lba :: u8) :: u32)) :: u8))
        OR push_bit 32 (ucast (ucast (drop_bit 32 lba) :: u8)) OR push_bit 40 (ucast (ucast (drop_bit 40 lba) :: u8))) n
      = bit (lba AND NOT 0xFF000000) n" if "n < 64" for n
    unfolding bit_and_iff using that
    by (subst b) (cases "n < 8"; cases "n < 16"; cases "n < 24"; cases "n < 32"; cases "n < 40"; auto simp: bit_simps m less_diff_conv2)
  then show ?thesis unfolding a by (intro bit_word_eqI) simp
qed

lemma quiet_append: "quiet base (xs @ ys) \<longleftrightarrow> quiet base xs \<and> quiet base ys"
  by (auto simp: quiet_def)

lemma ata_select_selects [simp]: "selected_drive (ata_select d s) = ata_index (abus d) (adrive d)"
  "amem (ata_select d s) = amem s"
  by (simp_all add: ata_select_def ata_seldrive_def)

lemma sector_28:
  assumes "drive_of lba28_of disk (io_base (abus d)) dev" "lba48_sectors (info d) = 0" "disk_lba d lba < 0x10000000"
  shows "\<exists>s'. ata_read_sector dev d lba buffer s = Some (512, s')
    \<and> amem s' = put_halves buffer (List.map (disk (disk_lba d lba)) [0..<256]) (amem s)"
proof -
  let ?b = "io_base (abus d)" and ?s = "ata_select d s" and ?l = "disk_lba d lba"
  let ?h = "lba28_out ?b (adrive d) (ucast ?l) (outb (?b + 1) 0 (ports ?s))"
  have q: "lba28_of ?b (ports (?s\<lparr>ports := outb (?b + 7) 0xE7 (outb (?b + 7) 0x20 ?h)\<rparr>) @ evs) = ?l" if "quiet ?b evs" for evs
    using lba28_of_out [OF assms(3) that refl, of "adrive d"] by (simp add: outb_def)
  have "ports (?s\<lparr>ports := outb (?b + 7) 0xE7 (outb (?b + 7) 0x20 ?h)\<rparr>) = (outb (?b + 7) 0x20 ?h) @ [Out8 (?b + 7) 0xE7]"
    by (simp add: outb_def)
  from transfer_reads [OF assms(1) _ this, of "?l" buffer] q
  show ?thesis using assms(2) by (auto simp: ata_read_sector_def Let_def)
qed

lemma put_halves_append: "put_halves p (xs @ ys) m = put_halves (p + 2 * of_nat (length xs)) ys (put_halves p xs m)"
  by (induction xs arbitrary: p m) (simp_all add: algebra_simps)

lemma disk_lba_add: "disk_lba d (lba + x) = disk_lba d lba + x"
  by (simp add: disk_lba_def split: option.split)

definition sectors :: "(u64 \<Rightarrow> nat \<Rightarrow> u16) \<Rightarrow> u64 \<Rightarrow> nat list \<Rightarrow> u16 list" where
  "sectors disk lba is = concat (List.map (\<lambda>i. List.map (disk (lba + of_nat i)) [0..<256]) is)"

lemma device_loop_28:
  assumes d: "drive_of lba28_of disk (io_base (abus d)) dev" "lba48_sectors (info d) = 0"
  shows "i + k \<le> 268435456 \<Longrightarrow> unat (disk_lba d lba) + i + k \<le> 268435456 \<Longrightarrow>
    \<exists>s'. device_loop (ata_read_sector dev d) lba buffer (of_nat i) k r s = Some (r, s')
      \<and> amem s' = put_halves (buffer + of_nat i * 512) (sectors disk (disk_lba d lba) [i..<i + k]) (amem s)"
proof (induction k arbitrary: i s)
  case 0
  then show ?case by (simp add: sectors_def)
next
  case (Suc k)
  have i: "(ucast (of_nat i :: u32) :: u64) = of_nat i" using Suc.prems(1) by (simp add: unsigned_of_nat take_bit_nat_eq_self)
  have "unat (disk_lba d lba + of_nat i) = unat (disk_lba d lba) + i"
    using Suc.prems by (simp add: unat_word_ariths unsigned_of_nat take_bit_nat_eq_self)
  then have l: "disk_lba d (lba + of_nat i) < 0x10000000"
    using Suc.prems by (simp add: disk_lba_add word_less_nat_alt)
  from sector_28 [OF d l, of "buffer + of_nat i * 512" s] obtain t where
    t: "ata_read_sector dev d (lba + of_nat i) (buffer + of_nat i * 512) s = Some (512, t)"
       "amem t = put_halves (buffer + of_nat i * 512) (sectors disk (disk_lba d lba) [i]) (amem s)"
    by (auto simp: disk_lba_add sectors_def)
  from Suc.IH [of "Suc i" t] Suc.prems obtain s' where
    s': "device_loop (ata_read_sector dev d) lba buffer (of_nat (Suc i)) k r t = Some (r, s')"
        "amem s' = put_halves (buffer + of_nat (Suc i) * 512) (sectors disk (disk_lba d lba) [Suc i..<Suc i + k]) (amem t)" by auto
  have c: "[i..<i + Suc k] = i # [Suc i..<Suc i + k]" by (subst upt_conv_Cons) simp_all
  have "put_halves (buffer + of_nat i * 512) (sectors disk (disk_lba d lba) [i..<i + Suc k]) (amem s) = amem s'"
    unfolding c s'(2) t(2) by (simp add: sectors_def put_halves_append algebra_simps)
  moreover have "(512 :: u16) \<noteq> 0" by simp
  ultimately show ?case using t(1) s'(1) by (simp del: upt_Suc add: i algebra_simps)
qed

text \<open>Reading sectors gives what is on the disk. From a drive with short addresses that is ready and
  delivers the words of the sector its registers address, a read of \<open>n\<close> sectors reports \<open>n\<close> and puts
  the words of the sectors from \<open>lba\<close> on, moved by the start of the partition, one behind the other
  into the buffer.\<close>

theorem ata_read_device_reads:
  assumes "drive_of lba28_of disk (io_base (abus d)) dev" "lba48_sectors (info d) = 0"
    "unat (disk_lba d lba) + unat n \<le> 268435456"
  shows "\<exists>s'. ata_read_device dev d lba n buffer s = Some (n, s')
    \<and> amem s' = put_halves buffer (sectors disk (disk_lba d lba) [0..<unat n]) (amem s)"
  using device_loop_28 [OF assms(1,2), of 0 "unat n" lba buffer n s] assms(3) by (simp add: ata_read_device_def)

definition example_ata :: ata where
  "example_ata = \<lparr>devices = [], device_idx = 0, letter_idx = 0, selected_drive = 0, ports = [], amem = (\<lambda>_. 0), mounts = []\<rparr>"

definition example_drive :: device where
  "example_drive h p = (if p = 0x1F7 then 0x58
     else ucast (ucast (lba28_of 0x1F0 h) + of_nat (data_index 0x1F0 h) :: u16))"

definition example_device :: ata_device where
  "example_device = \<lparr>abus = 1, adrive = 0, info = replicate 256 0,
     patrition_info = Some \<lparr>bootable = 0, ptype = 0, pstart = 100, psectors = 50\<rparr>, busmaster = 0, dma = 0, dbuffer = 0\<rparr>"

lemma ata_read_device_reads_witness:
  "\<exists>s'. ata_read_device example_drive example_device 5 2 0x1000
       example_ata = Some (2, s')
    \<and> amem s' = put_halves 0x1000 (sectors (\<lambda>l j. ucast l + of_nat j) 105 [0..<2]) (\<lambda>_. 0)"
proof -
  have "drive_of lba28_of (\<lambda>l j. ucast l + of_nat j) (io_base (abus example_device)) example_drive"
    by (simp add: drive_of_def example_drive_def example_device_def io_base_def)
  from ata_read_device_reads [OF this, of 5 2 "0x1000" example_ata] show ?thesis
    by (simp add: example_device_def example_ata_def lba48_sectors_def disk_lba_def)
qed

text \<open>Long addresses lose eight bits. With a drive that takes 48-bit addresses, reading a sector reports
  success but delivers the sector whose address has the bits 24 to 31 cleared: behind the first 8 GB the
  driver reads (and writes) the wrong sector.\<close>

theorem ata_read_ext_loses_bits:
  assumes "drive_of lba48_of disk (io_base (abus d)) dev" "lba48_sectors (info d) > 0" "disk_lba d lba < 0x1000000000000"
  shows "\<exists>s'. ata_read_sector dev d lba buffer s = Some (512, s')
    \<and> amem s' = put_halves buffer (List.map (disk (disk_lba d lba AND NOT 0xFF000000)) [0..<256]) (amem s)"
proof -
  let ?b = "io_base (abus d)" and ?s = "ata_select d s" and ?l = "disk_lba d lba"
  let ?h = "lba48_out ?b (adrive d) ?l (outb (?b + 1) 0 (ports ?s))"
  have q: "lba48_of ?b (ports (?s\<lparr>ports := outb (?b + 7) 0xE7 (outb (?b + 7) 0x24 ?h)\<rparr>) @ evs) = ?l AND NOT 0xFF000000" if "quiet ?b evs" for evs
    using lba48_of_out [OF assms(3) that refl, of "adrive d"] by (simp add: outb_def)
  have "ports (?s\<lparr>ports := outb (?b + 7) 0xE7 (outb (?b + 7) 0x24 ?h)\<rparr>) = (outb (?b + 7) 0x24 ?h) @ [Out8 (?b + 7) 0xE7]"
    by (simp add: outb_def)
  from transfer_reads [OF assms(1) _ this, of "?l AND NOT 0xFF000000" buffer] q
  show ?thesis using assms(2) by (auto simp: ata_read_sector_def Let_def)
qed

lemma ata_read_ext_loses_bits_witness:
  "\<exists>s'. ata_read_sector (\<lambda>h p. if p = 0x177 then 0x58 else if lba48_of 0x170 h = 7 then 0xAAAA else 0)
       \<lparr>abus = 0, adrive = 1, info = (replicate 256 0)[101 := 0x200], patrition_info = None, busmaster = 0, dma = 0, dbuffer = 0\<rparr>
       0x1000007 0x1000
       example_ata = Some (512, s')
    \<and> amem s' = put_halves 0x1000 (replicate 256 0xAAAA) (\<lambda>_. 0)"
proof -
  let ?dev = "\<lambda>h p. if p = 0x177 then 0x58 else if lba48_of 0x170 h = 7 then 0xAAAA else (0 :: u32)"
  let ?d = "\<lparr>abus = 0, adrive = 1, info = (replicate 256 0)[101 := 0x200], patrition_info = None, busmaster = 0, dma = 0, dbuffer = 0\<rparr>"
  have d: "drive_of lba48_of (\<lambda>l j. if l = 7 then 0xAAAA else 0) (io_base (abus ?d)) ?dev"
    by (simp add: drive_of_def io_base_def)
  have w: "lba48_sectors (info ?d) > 0" "disk_lba ?d 0x1000007 < 0x1000000000000"
    by (simp_all add: lba48_sectors_def disk_lba_def)
  from ata_read_ext_loses_bits [OF d w, of "0x1000" example_ata] show ?thesis
    by (simp add: disk_lba_def map_replicate_const example_ata_def)
qed

text \<open>Writing a sector sends 256 bytes, of each word the low one.\<close>

lemma ata_write_drops_high_bytes:
  assumes "\<And>h. (ucast (dev h (io_base (abus d) + 7)) :: u8) = 0x58"
  shows "\<exists>s'. ata_write_sector dev d lba buffer s = Some (512, s') \<and> amem s' = amem s
    \<and> (\<exists>g. ports s' = g @ List.map (\<lambda>i. Out8 (io_base (abus d)) (amem s (buffer + 2 * of_nat i))) [0..<256])"
proof -
  have f: "fold (\<lambda>i. outb p (f i)) xs h = h @ List.map (\<lambda>i. Out8 p (f i)) xs" for p f xs h
    by (induction xs arbitrary: h) (simp_all add: outb_def)
  have b: "(ucast (rd16 m a) :: u8) = m a" for m a
    by (rule bit_word_eqI) (simp add: rd16_def bit_simps)
  have p: "poll_status dev (io_base (abus d) + 7) h = Some (1, h @ [In8 (io_base (abus d) + 7)])" for h
    by (subst poll_status.simps) (simp add: assms inb_def GET_BIT_def)
  show ?thesis
    by (auto simp: ata_write_sector_def ata_poll_def ata_delay_def p f b Let_def)
qed

end
