(* ===== verification/Fat_Ata.thy ===== *)
theory Fat_Ata
  imports Fat Ata
begin

text \<open>
  The FAT driver on the ATA driver: a sector is read by \<open>ata_read\<close> into a buffer of the driver's memory,
  as \<open>kread\<close> does with a node of the file system \<open>ata\<close>. The disk interface of theory Fat holds for it,
  so the theorems on directories and files are theorems about the two drivers together.
\<close>

subsection \<open>The disk interface\<close>

definition ata_block :: "device \<Rightarrow> ata_device \<Rightarrow> u32 \<Rightarrow> ata blockdev" where
  "ata_block dev d addr lba s =
     map_option (\<lambda>(r, s'). (if r = 0 then None else Some (List.map (\<lambda>i. amem s' (addr + of_nat i)) [0..<512]), s'))
       (ata_read_device dev d lba 1 addr s)"

definition word_bytes :: "u16 \<Rightarrow> u8 list" where
  "word_bytes w = [ucast w, ucast (drop_bit 8 w)]"

definition ata_bytes :: "(u64 \<Rightarrow> nat \<Rightarrow> u16) \<Rightarrow> ata_device \<Rightarrow> u64 \<Rightarrow> u8 list" where
  "ata_bytes disk d lba = concat (List.map word_bytes (List.map (disk (disk_lba d lba)) [0..<256]))"

definition ata_valid :: "ata_device \<Rightarrow> u64 \<Rightarrow> bool" where
  "ata_valid d lba \<longleftrightarrow> unat (disk_lba d lba) < 268435456"

lemma length_word_bytes [simp]: "length (concat (List.map word_bytes ws)) = 2 * length ws"
  by (induction ws) (simp_all add: word_bytes_def)

lemma put_halves_other: "(\<And>i. i < 2 * length ws \<Longrightarrow> a \<noteq> p + of_nat i) \<Longrightarrow> put_halves p ws m a = m a"
proof (induction ws arbitrary: p m)
  case (Cons w ws)
  have "a \<noteq> p" "a \<noteq> p + 1" using Cons.prems [of 0] Cons.prems [of 1] by simp_all
  moreover have "a \<noteq> p + 2 + of_nat i" if "i < 2 * length ws" for i
    using Cons.prems [of "2 + i"] that by (simp add: add.assoc)
  ultimately show ?case using Cons.IH [of "p + 2"] by (simp add: wr16_def)
qed simp

lemma put_halves_at:
  "2 * length ws \<le> 4294967296 \<Longrightarrow> i < 2 * length ws \<Longrightarrow> put_halves p ws m (p + of_nat i) = concat (List.map word_bytes ws) ! i"
proof (induction ws arbitrary: p m i)
  case (Cons w ws)
  show ?case
  proof (cases "i < 2")
    case True
    have "put_halves (p + 2) ws (wr16 p w m) (p + of_nat i) = wr16 p w m (p + of_nat i)"
    proof (rule put_halves_other)
      fix j assume "j < 2 * length ws"
      then show "p + of_nat i \<noteq> p + 2 + of_nat j"
        using of_nat_offset_inj [of i "2 + j" p] Cons.prems(1) True by (simp add: add.assoc)
    qed
    moreover have "i = 0 \<or> i = 1" using True by auto
    ultimately show ?thesis by (auto simp: wr16_def word_bytes_def)
  next
    case False
    then obtain j where j: "i = 2 + j" using le_Suc_ex [of 2 i] by auto
    have "put_halves (p + 2) ws (wr16 p w m) (p + 2 + of_nat j) = concat (List.map word_bytes ws) ! j"
      using Cons.prems by (intro Cons.IH) (simp_all add: j)
    moreover have "word_bytes w = [ucast w, ucast (drop_bit 8 w)]" by (simp add: word_bytes_def)
    ultimately show ?thesis by (simp add: j add.assoc)
  qed
qed simp

interpretation fat_disk: block_device "ata_block dev d addr"
  "\<lambda>s. drive_of lba28_of disk (io_base (abus d)) dev \<and> lba48_sectors (info d) = 0" "ata_valid d" "ata_bytes disk d"
  for dev d addr disk
proof
  fix s lba
  assume o: "drive_of lba28_of disk (io_base (abus d)) dev \<and> lba48_sectors (info d) = 0" and v: "ata_valid d lba"
  then have "unat (disk_lba d lba) + 0 + 1 \<le> 268435456" by (simp add: ata_valid_def)
  with device_loop_28 [of disk d dev 0 1 lba addr 1 s] o obtain s' where
    s': "ata_read_device dev d lba 1 addr s = Some (1, s')"
      "amem s' = put_halves addr (sectors disk (disk_lba d lba) [0..<1]) (amem s)"
    by (auto simp: ata_read_device_def)
  have "List.map (\<lambda>i. amem s' (addr + of_nat i)) [0..<512] = ata_bytes disk d lba"
  proof (rule nth_equalityI)
    fix i assume "i < length (List.map (\<lambda>i. amem s' (addr + of_nat i)) [0..<512])"
    then have "i < 512" by simp
    then show "List.map (\<lambda>i. amem s' (addr + of_nat i)) [0..<512] ! i = ata_bytes disk d lba ! i"
      unfolding s'(2) ata_bytes_def sectors_def using put_halves_at [of "List.map (disk (disk_lba d lba)) [0..<256]" i addr "amem s"]
      by simp
  qed (simp add: ata_bytes_def del: map_map)
  then show "\<exists>s'. ata_block dev d addr lba s = Some (Some (ata_bytes disk d lba), s')
      \<and> (drive_of lba28_of disk (io_base (abus d)) dev \<and> lba48_sectors (info d) = 0)"
    using s'(1) o by (simp add: ata_block_def)
qed (simp add: ata_bytes_def del: map_map)

subsection \<open>Directories and files on a disk\<close>


text \<open>A read within one cluster delivers the bytes of the file. However many clusters lie before it, the
  bytes at the offset of the content, which is that of the linked clusters one behind the other, come to
  the place in the buffer, the rest of the buffer stays, and the size read is returned.\<close>

theorem fat_read_within_on_ata:
  assumes "drive_of lba28_of disk (io_base (abus d)) dev" "lba48_sectors (info d) = 0"
    "file_ok (ata_valid d) (ata_bytes disk d) n e bpb chain" "unat off + unat sz \<le> unat (file_size e)" "sz \<noteq> 0"
    "unat off mod unat (cluster_bytes bpb) + unat sz \<le> unat (cluster_bytes bpb)" "at + unat sz \<le> length buf"
  shows "\<exists>s'. fat_read (Suc k) (ata_block dev d addr) n off sz at buf s = Some (Inr (sz,
    take at buf @ slice (unat off) (unat sz) (file_bytes (ata_bytes disk d) bpb chain) @ drop (at + unat sz) buf, s'))"
  using fat_disk.fat_read_within [where addr = addr and s = s, OF conjI [OF assms(1,2)] assms(3-7)] by blast

text \<open>C40: A read across the end of a cluster is reported and placed wrongly. From a 28-bit drive that is ready
  and delivers the sectors it is asked for, it returns, not the size, but what
  is left of it in the last cluster (so zero for a file of whole clusters read at once), and the bytes come
  from the offset reduced by the clusters before it, that is from the front of the file.\<close>

theorem fat_read_across_on_ata:
  assumes "drive_of lba28_of disk (io_base (abus d)) dev" "lba48_sectors (info d) = 0"
    "file_ok (ata_valid d) (ata_bytes disk d) n e bpb chain" "unat off + unat sz \<le> unat (file_size e)" "at + unat sz \<le> length buf"
    "r = unat off mod unat (cluster_bytes bpb)" "unat (cluster_bytes bpb) < r + unat sz"
    "unat sz div unat (cluster_bytes bpb) + 2 \<le> k"
  shows "\<exists>s'. fat_read (Suc k) (ata_block dev d addr) n off sz at buf s = Some (Inr (of_nat ((r + unat sz) mod unat (cluster_bytes bpb)),
    take at buf @ slice r (unat sz) (file_bytes (ata_bytes disk d) bpb chain) @ drop (at + unat sz) buf, s'))"
  using fat_disk.fat_read_across [where addr = addr and s = s, OF conjI [OF assms(1,2)] assms(3-8)] by blast

subsection \<open>A disk\<close>

text \<open>Sector 1 is the allocation table, sector 2 the root directory with the file \<open>A.TXT\<close> of 600 bytes in the
  clusters 3 and 4, that is in the sectors 3 and 4.\<close>

definition example_sector :: "nat \<Rightarrow> u8 list" where
  "example_sector i =
     (if i = 1 then replicate 8 0 @ [0xFF, 0xFF, 0xFF, 0x0F, 4, 0, 0, 0, 0xFF, 0xFF, 0xFF, 0x0F] @ replicate 492 0
      else if i = 2 then [65, 32, 32, 32, 32, 32, 32, 32, 84, 88, 84] @ replicate 15 0 @ [3, 0, 88, 2, 0, 0] @ replicate 480 0
      else replicate 512 (of_nat i))"

definition word_of_bytes :: "u8 list \<Rightarrow> nat \<Rightarrow> u16" where
  "word_of_bytes b j = ucast (b ! (2 * j)) OR push_bit 8 (ucast (b ! (2 * j + 1)))"

definition fat_drive :: device where
  "fat_drive h p = (if p = 0x1F7 then 0x58
     else ucast (word_of_bytes (example_sector (unat (lba28_of 0x1F0 h))) (data_index 0x1F0 h)))"

definition fat_disk_device :: ata_device where
  "fat_disk_device = \<lparr>abus = 1, adrive = 0, info = replicate 256 0, patrition_info = None, busmaster = 0, dma = 0, dbuffer = 0\<rparr>"

definition fat_disk_bpb :: fat_bpb where
  "fat_disk_bpb = \<lparr>bytes_per_sector = 512, sectors_per_cluster = 1, reserved_sectors = 1, fat_count = 1, dirent_count = 0,
     sectors_per_fat = 1, root_cluster = 2, signature16 = 0, signature32 = 0x29\<rparr>"

lemma word_bytes_of: "word_bytes (word_of_bytes b j) = [b ! (2 * j), b ! (2 * j + 1)]"
proof -
  have "\<not> bit (x :: u8) (8 + n)" for x n using bit_imp_le_length [of x "8 + n"] by auto
  then show ?thesis by (auto simp: word_bytes_def word_of_bytes_def bit_simps intro!: bit_word_eqI)
qed

lemma bytes_of_words: "length b = 2 * n \<Longrightarrow> concat (List.map word_bytes (List.map (word_of_bytes b) [0..<n])) = b"
proof (induction n arbitrary: b)
  case (Suc n)
  have "length (take (2 * n) b) = 2 * n" using Suc.prems by simp
  from Suc.IH [OF this] have "concat (List.map word_bytes (List.map (word_of_bytes (take (2 * n) b)) [0..<n])) = take (2 * n) b" .
  moreover have "List.map (word_of_bytes (take (2 * n) b)) [0..<n] = List.map (word_of_bytes b) [0..<n]"
    by (simp add: word_of_bytes_def)
  moreover have "b = take (2 * n) b @ [b ! (2 * n), b ! (2 * n + 1)]"
    using Suc.prems by (intro nth_equalityI) (auto simp: nth_append less_Suc_eq)
  ultimately show ?case by (simp add: word_bytes_of)
qed simp

lemma length_example_sector: "length (example_sector i) = 512"
  by (simp add: example_sector_def)

lemma fat_drive_of: "drive_of lba28_of (\<lambda>l. word_of_bytes (example_sector (unat l))) (io_base (abus fat_disk_device)) fat_drive"
  by (simp add: drive_of_def fat_drive_def fat_disk_device_def io_base_def)

lemma fat_disk_bytes: "ata_bytes (\<lambda>l. word_of_bytes (example_sector (unat l))) fat_disk_device = (\<lambda>l. example_sector (unat l))"
  using bytes_of_words [of _ 256] length_example_sector by (simp add: fun_eq_iff ata_bytes_def disk_lba_def fat_disk_device_def)

lemma fat_drive_facts:
  "lba48_sectors (info fat_disk_device) = 0"
  "linked (\<lambda>l. example_sector (unat l)) fat_disk_bpb [2]"
  "linked (\<lambda>l. example_sector (unat l)) fat_disk_bpb [3, 4]"
  "c \<in> {2, 3, 4} \<Longrightarrow> cluster_ok (ata_valid fat_disk_device) fat_disk_bpb c"
  by (auto simp: lba48_sectors_def fat_disk_device_def successor_def table_sector_def fat_disk_bpb_def
      example_sector_def le32_def le16_def nth_append Let_def cluster_ok_def ata_valid_def disk_lba_def sector_at_def)

lemma fat_drive_root:
  "dir_entries (\<lambda>l. example_sector (unat l)) fat_disk_bpb 2
     = [(\<lparr>short_name = [65, 32, 32, 32, 32, 32, 32, 32, 84, 88, 84], attribs = 0, first_cluster_high = 0,
         first_cluster_low = 3, file_size = 600\<rparr>, None)]"
proof -
  have c: "chunks 0 16 b = slice 0 32 b # slice 32 32 b # chunks 2 14 b" for b by (simp add: chunks_def upt_conv_Cons)
  show ?thesis
    by (simp add: dir_entries_def dir_chunks_def c sector_at_def fat_disk_bpb_def example_sector_def slice_def
        fat_entry_type_def dirent_of_def le32_def le16_def nth_append)
qed

definition fat_root :: fat_node where
  "fat_root = \<lparr>fname = [47], fsize = 0, mountpoint = True,
     fentry = Some (\<lparr>short_name = replicate 11 0, attribs = 0x10, first_cluster_high = 0, first_cluster_low = 0, file_size = 0\<rparr>, None, fat_disk_bpb)\<rparr>"

definition a_txt :: fat_node where
  "a_txt = \<lparr>fname = [65, 46, 84, 88, 84], fsize = 600, mountpoint = False,
     fentry = Some (\<lparr>short_name = [65, 32, 32, 32, 32, 32, 32, 32, 84, 88, 84], attribs = 0, first_cluster_high = 0,
       first_cluster_low = 3, file_size = 600\<rparr>, None, fat_disk_bpb)\<rparr>"


lemma a_txt_ok: "file_ok (ata_valid fat_disk_device) (\<lambda>l. example_sector (unat l)) a_txt
    \<lparr>short_name = [65, 32, 32, 32, 32, 32, 32, 32, 84, 88, 84], attribs = 0, first_cluster_high = 0,
      first_cluster_low = 3, file_size = 600\<rparr> fat_disk_bpb [3, 4]"
  using fat_drive_facts(3) fat_drive_facts(4) [of 3] fat_drive_facts(4) [of 4]
  by (simp add: file_ok_def a_txt_def start_of_def) (simp add: fat_disk_bpb_def cluster_bytes_def)

lemma a_txt_bytes: "file_bytes (\<lambda>l. example_sector (unat l)) fat_disk_bpb [3, 4] = replicate 512 3 @ replicate 512 4"
  by (simp add: file_bytes_def content_def sector_bytes_def sector_at_def fat_disk_bpb_def example_sector_def)

lemma fat_disk_cluster: "cluster_bytes fat_disk_bpb = 512"
  by (simp add: fat_disk_bpb_def cluster_bytes_def)

text \<open>Ten bytes of the second cluster.\<close>

lemma fat_read_within_on_ata_witness:
  "\<exists>s'. fat_read 1 (ata_block fat_drive fat_disk_device 0x1000) a_txt 520 10 0 (replicate 10 0) example_ata
     = Some (Inr (10, replicate 10 4, s'))"
  using fat_read_within_on_ata [OF fat_drive_of fat_drive_facts(1), unfolded fat_disk_bytes, OF a_txt_ok,
      where off = 520 and sz = 10 and at = 0 and buf = "replicate 10 0" and k = 0 and addr = "0x1000" and s = example_ata]
  by (simp del: fat_read.simps add: a_txt_bytes slice_def fat_disk_cluster)

text \<open>The whole file: 600 bytes come, 88 are reported.\<close>

lemma fat_read_across_on_ata_witness:
  "\<exists>s'. fat_read 4 (ata_block fat_drive fat_disk_device 0x1000) a_txt 0 600 0 (replicate 600 0) example_ata
     = Some (Inr (88, replicate 512 3 @ replicate 88 4, s'))"
  using fat_read_across_on_ata [OF fat_drive_of fat_drive_facts(1), unfolded fat_disk_bytes, OF a_txt_ok,
      where off = 0 and sz = 600 and at = 0 and buf = "replicate 600 0" and k = 3 and r = 0 and addr = "0x1000" and s = example_ata]
  by (simp del: fat_read.simps add: a_txt_bytes slice_def fat_disk_cluster)

end
