(* ===== verification/Exec.thy ===== *)
theory Exec
  imports Regions Elf Vfs Interrupts Pmm Proc
begin

text \<open>
  Starting a program: \<open>execute\<close> of \<open>os/kernel/arch/i386/proc/proc.c\<close>, on the state that the system calls
  work on too (theory Syscall). It joins the states of the components: processes (theory Proc), files
  (theory Vfs), page frames (theory Pmm) and interrupts (theory Interrupts). The memory of the address space
  that is switched on is \<open>mem\<close> of the files; that of a process which was loaded is in \<open>spaces\<close>, by page
  directory. Console output is left out.
\<close>

subsection \<open>The state\<close>

text \<open>The handlers in the table of system calls.\<close>

datatype sysfn = SysEcho | SysRead | SysWrite | SysOpen | SysClose | SysYield | SysExec | SysIoctl | SysReaddir
  | SysFswait | SysExit | SysSbrk | SysAssign | SysSig | SysSighandl | SysSigexit | SysTime | SysWaitpid | SysGetcwd
  | SysChdir | SysSetuid | SysGetuid | SysGetpid | SysLink | SysSleep | SysGetppid | SysPipe | SysPwreq | SysFstat
  | SysPrior | SysThread | SysShmemCreate | SysShmemOpen | SysShmemReset

text \<open>\<open>f_descs\<close> and \<open>f_descs_cnt\<close> are fields of \<open>proc_t\<close>: the address of the array of open nodes of a process
  and its length; the arrays are in \<open>fd_arrays\<close>, since threads share one.\<close>

record sys =
  kern :: sched
  files :: vfs
  ftab :: fstab
  pmem :: kmem
  kint :: kintr
  f_descs :: "u32 \<Rightarrow> u32"
  f_descs_cnt :: "u32 \<Rightarrow> u32"
  fd_arrays :: "u32 \<Rightarrow> u32 list"
  spaces :: "u32 \<Rightarrow> bytes"
  page_maps :: "(u32 \<times> u32 \<times> u32) list"
  new_pages :: "(u32 \<times> u32 list) list"
  pipe_calls :: "(cstring \<times> u32) list"
  shmem_maps :: "(u32 \<times> u32 \<times> u32 \<times> u32 \<times> u32) list"
  syscalls :: "sysfn option list"

text \<open>What the code gets from elsewhere: \<open>validate\<close> and \<open>drained\<close> as in theory Proc, the fuel of the
  scheduler, the \<open>ioctl\<close> functions of nodes and the devices behind the ports, the result of
  \<open>copy_page_directory\<close> and \<open>copy_region\<close>'s view of another address space, the node of a new process,
  the root node, the exported symbols, and what a call that returns no value leaves in \<open>eax\<close>.\<close>

record cfg =
  vld :: "u32 \<Rightarrow> bool"
  drained :: "u32 \<Rightarrow> bool"
  fuel :: nat
  node_ioctls :: "u32 \<Rightarrow> (u32 \<Rightarrow> u32 \<Rightarrow> u32 \<Rightarrow> vfs \<Rightarrow> (u32 \<times> vfs) res) option"
  port_dev :: Port_IO.device
  fresh_pd :: "sched \<Rightarrow> u32"
  view :: "u32 \<Rightarrow> bytes \<Rightarrow> bytes"
  proc_node :: "u32 \<Rightarrow> u32"
  root_node :: u32
  exported :: symtable
  junk :: u32

definition on_files :: "(vfs \<Rightarrow> ('a \<times> vfs) res) \<Rightarrow> sys \<Rightarrow> ('a \<times> sys) res" where
  "on_files f s = sbind (f (files s)) (\<lambda>(r, v). Inr (r, s\<lparr>files := v\<rparr>))"

definition on_kern :: "(sched \<Rightarrow> sched res option) \<Rightarrow> sys \<Rightarrow> sys res option" where
  "on_kern f s = res_bind (f (kern s)) (\<lambda>k. Some (Inr (s\<lparr>kern := k\<rparr>)))"

definition set_mem :: "bytes \<Rightarrow> sys \<Rightarrow> sys" where
  "set_mem m s = s\<lparr>files := (files s)\<lparr>mem := m\<rparr>\<rparr>"

subsection \<open>The arguments of a program\<close>

text \<open>A block of the user heap, made by hand: guard, size and the two poisoned links. The strings lie one
  behind the other, each in a block of its own, and their addresses go to the table. The code clears a
  block before it copies the string, which fills it.\<close>

definition put_header :: "u32 \<Rightarrow> u32 \<Rightarrow> bytes \<Rightarrow> bytes" where
  "put_header a n m = wr32 (a + 9) 0xAABBCCDD (wr32 (a + 5) 0xAABBCCDD (wr32 (a + 1) n (m(a := 0xED))))"

fun put_strings :: "u32 \<Rightarrow> u32 \<Rightarrow> u32 \<Rightarrow> u8 list list \<Rightarrow> bytes \<Rightarrow> u32 \<times> u32 \<times> bytes" where
  "put_strings tab a n [] m = (a, n, m)"
| "put_strings tab a n (x # xs) m =
     (let a = a + 13 + n; n = of_nat (length x) + 1;
          m = put_str (a + 13) x (wr32 tab (a + 13) (put_header a n m))
      in put_strings (tab + 4) a n xs m)"

definition put_vector :: "u32 \<Rightarrow> u8 list list \<Rightarrow> bytes \<Rightarrow> u32 \<times> u32 \<times> bytes" where
  "put_vector a xs m = put_strings (a + 13) a (4 * of_nat (length xs)) xs (put_header a (4 * of_nat (length xs)) m)"

text \<open>The argument and environment vectors; \<open>given\<close> says that \<open>envp\<close> is not null.\<close>

definition put_vectors :: "u8 list list \<Rightarrow> bool \<Rightarrow> u8 list list \<Rightarrow> bytes \<Rightarrow> u32 \<times> u32 \<times> bytes" where
  "put_vectors argv given envp m =
     (let (uargv, b, n, m) = (if argv \<noteq> [] then (USER_HEAP + 13, put_vector USER_HEAP argv m) else (0, 0, 0, m)) in
      if given then
        let a = (if argv \<noteq> [] then b + 13 + n else USER_HEAP); (_, _, m) = put_vector a envp m in (uargv, a + 13, m)
      else (uargv, 0, m))"

text \<open>Counting the pointers of a vector up to the first invalid one, and reading their strings.\<close>

fun read_vector :: "(u32 \<Rightarrow> bool) \<Rightarrow> nat \<Rightarrow> bytes \<Rightarrow> u32 \<Rightarrow> u8 list list option" where
  "read_vector v 0 m p = None"
| "read_vector v (Suc k) m p =
     (if v (rd32 m p) then Option.bind (read_str m (rd32 m p)) (\<lambda>x. map_option ((#) x) (read_vector v k m (p + 4)))
      else Some [])"

subsection \<open>execute\<close>

definition push32 :: "u32 \<Rightarrow> u32 \<times> bytes \<Rightarrow> u32 \<times> bytes" where
  "push32 v st = (let esp = fst st - 4 in (esp, wr32 esp v (snd st)))"

definition execute :: "cfg \<Rightarrow> u32 \<Rightarrow> u32 \<Rightarrow> u32 \<Rightarrow> bool \<Rightarrow> sys \<Rightarrow> (u32 \<times> sys) res option" where
  "execute c node argv envp is_init s =
     (let s = s\<lparr>kint := disable_interrupts (kint s)\<rparr> in
      if \<not> vld c node then Some (Inr (0, s))
      else res_bind (Some (get_node node (files s))) (\<lambda>n.
      res_bind (Some (on_files Vfs.kalloc s)) (\<lambda>(buffer, s).
      res_bind (Some (on_files (kread (vld c) (ftab s) node 0 (nsize n) buffer) s)) (\<lambda>(r, s).
      if r = 0 then Some (Inr (0, s))
      else res_bind (Some (create_process (nname n) (current_process (kern s)) (fresh_pd c (kern s)) (proc_node c) (root_node c) (kern s)))
        (\<lambda>(p, k).
      let s = s\<lparr>kern := k\<rparr>; m = mem (files s) in
      Option.bind (if vld c argv then read_vector (vld c) (fuel c) m argv else Some []) (\<lambda>args.
      Option.bind (if vld c envp then read_vector (vld c) (fuel c) m envp else Some []) (\<lambda>envs.
      res_bind (Some (get_proc p k)) (\<lambda>x.
      let (uargv, uenvp, um) = put_vectors args (envp \<noteq> 0) envs (view c (pdir x) m) in
      res_bind (elf_load_file (fuel c) (exported c) buffer (um, Vfs.avail (files s))) (\<lambda>(ent, um, pages, alloc).
      res_bind (Some (get_frame (tstate x) k)) (\<lambda>f.
      let (esp, um) = push32 (of_nat (length args)) (push32 uargv (push32 uenvp (useresp f, um)));
          k = k\<lparr>frames := (frames k)(tstate x \<mapsto> f\<lparr>eip := ent, useresp := esp\<rparr>),
                page_dir := (if is_init \<and> pdir x \<noteq> 0 then pdir x else page_dir k),
                tss_stack := (if is_init then kernel_stack x else tss_stack k)\<rparr>;
          s = s\<lparr>kern := k, files := vfs.avail_update (\<lambda>_. alloc) (files s), spaces := (spaces s)(pdir x := um),
                new_pages := new_pages s @ [(pdir x, pages)]\<rparr>
      in if ent = 0 \<or> ent = 1
         then res_bind (on_kern (proc_exit (vld c) (drained c) (fuel c) p) s) (\<lambda>s. Some (Inr (0, s)))
         else if is_init then Some (Inr (p, s\<lparr>kern := (kern s)\<lparr>init_process := p, current_process := p\<rparr>\<rparr>))
         else Some (Inr (p, s))))))))))))"

subsection \<open>The program finds its arguments\<close>

fun str_space :: "u8 list list \<Rightarrow> nat" where
  "str_space [] = 0"
| "str_space (x # xs) = 14 + length x + str_space xs"

lemma put_header_same_on:
  assumes b: "beside lo hi a 13"
  shows "same_on lo hi m (put_header a n m)"
proof -
  have o: "beside lo hi (a + 1) 4" using beside_shift [OF b, of 1 4] by simp
  have o5: "beside lo hi (a + 5) 4" using beside_shift [OF b, of 5 4] by simp
  have o9: "beside lo hi (a + 9) 4" using beside_shift [OF b, of 9 4] by simp
  have o1: "beside lo hi a 1" using b by (rule beside_less) simp
  have "same_on lo hi m (m(a := 0xED))" by (rule same_on_upd [OF o1])
  also have "same_on lo hi (m(a := 0xED)) (wr32 (a + 1) n (m(a := 0xED)))" by (rule wr32_same_on [OF o])
  also have "same_on lo hi (wr32 (a + 1) n (m(a := 0xED))) (wr32 (a + 5) 0xAABBCCDD (wr32 (a + 1) n (m(a := 0xED))))"
    by (rule wr32_same_on [OF o5])
  also have "same_on lo hi (wr32 (a + 5) 0xAABBCCDD (wr32 (a + 1) n (m(a := 0xED)))) (put_header a n m)"
    unfolding put_header_def by (rule wr32_same_on [OF o9])
  finally show ?thesis .
qed

lemma block_addr:
  assumes "unat (a :: u32) + 13 + unat n < 4294967296"
  shows "unat (a + 13 + n) = unat a + 13 + unat n"
proof -
  have "unat (a + 13) = unat a + 13" using assms unat_plus_u32 [of a 13] by simp
  then show ?thesis using assms unat_plus_u32 [of "a + 13" n] by simp
qed

lemma len_word: "length x + 1 < 4294967296 \<Longrightarrow> unat (of_nat (length x) + 1 :: u32) = length x + 1"
  using unat_of_nat_u32 [of "Suc (length x)"] by (simp add: add.commute)

text \<open>Writing strings touches only the table and what lies behind the block at \<open>a\<close>.\<close>

lemma put_strings_same_on:
  "unat a + 13 + unat n + str_space xs < 4294967296 \<Longrightarrow> hi \<le> unat a + 13 + unat n \<Longrightarrow>
    unat tab + 4 * length xs < 4294967296 \<Longrightarrow> hi \<le> unat tab \<or> unat tab + 4 * length xs \<le> lo \<Longrightarrow>
    put_strings tab a n xs m = (b, n', m') \<Longrightarrow> same_on lo hi m m'"
proof (induction xs arbitrary: tab a n m)
  case (Cons x xs)
  let ?a = "a + 13 + n" and ?n = "of_nat (length x) + 1 :: u32"
  let ?m = "put_str (?a + 13) x (wr32 tab (?a + 13) (put_header ?a ?n m))"
  have u: "unat ?a = unat a + 13 + unat n" using Cons.prems(1) by (intro block_addr) simp
  have u13: "unat (?a + 13) = unat a + 13 + unat n + 13" using block_addr [of ?a 0] u Cons.prems(1) by simp
  have n: "unat ?n = length x + 1" using Cons.prems(1) by (intro len_word) simp
  have t: "unat (tab + 4) = unat tab + 4 \<or> xs = []" using Cons.prems(3) by (cases xs) (simp_all add: unat_plus_u32)
  have s: "same_on lo hi m ?m"
  proof (rule same_on_trans [OF put_header_same_on same_on_trans [OF wr32_same_on put_str_same_on]])
    show "beside lo hi ?a 13" "beside lo hi (?a + 13) (Suc (length x))" "beside lo hi tab 4"
      using u u13 Cons.prems by (auto simp: beside_def no_wrap_def)
  qed
  have r: "put_strings (tab + 4) ?a ?n xs ?m = (b, n', m')" using Cons.prems(5) by (simp add: Let_def)
  have "same_on lo hi ?m m'"
  proof (cases "xs = []")
    case False
    then have t4: "unat (tab + 4) = unat tab + 4" using t by simp
    show ?thesis using u n Cons.prems t4 by (intro Cons.IH [OF _ _ _ _ r]) auto
  next
    case True
    then have "m' = ?m" using r by (metis prod.inject put_strings.simps(1))
    then show ?thesis by simp
  qed
  with s show ?case by (rule same_on_trans)
qed simp

text \<open>A vector of pointers to strings, all within \<open>lo\<close> and \<open>hi\<close>.\<close>

definition vector :: "nat \<Rightarrow> nat \<Rightarrow> bytes \<Rightarrow> u32 \<Rightarrow> u8 list list \<Rightarrow> bool" where
  "vector lo hi m p xs \<longleftrightarrow> (\<exists>ps. length ps = length xs \<and> words m p ps
     \<and> list_all2 (\<lambda>a x. lo \<le> unat a \<and> unat a + length x < hi \<and> cstr m a x) ps xs)"

lemma words_same_on:
  "same_on lo hi m m' \<Longrightarrow> lo \<le> unat p \<Longrightarrow> unat p + 4 * length ps \<le> hi \<Longrightarrow> unat p + 4 * length ps < 4294967296 \<Longrightarrow>
    words m p ps \<Longrightarrow> words m' p ps"
proof (induction ps arbitrary: p)
  case (Cons x ps)
  have "rd32 m' p = rd32 m p" using Cons.prems by (intro rd32_same_on [of lo hi]) (auto simp: no_wrap_def)
  moreover have "unat (p + 4) = unat p + 4 \<or> ps = []" using Cons.prems(4) unat_plus_u32 [of p 4] by (cases ps) auto
  ultimately show ?case using Cons.prems Cons.IH [of "p + 4"] by auto
qed simp

lemma vector_same_on:
  assumes "vector lo hi m p xs" "same_on lo hi m m'" "lo \<le> unat p" "unat p + 4 * length xs \<le> hi" "hi \<le> 4294967296" "hi \<le> hi'"
    "unat p + 4 * length xs < 4294967296"
  shows "vector lo hi' m' p xs"
proof -
  obtain ps where ps: "length ps = length xs" "words m p ps"
    "list_all2 (\<lambda>a x. lo \<le> unat a \<and> unat a + length x < hi \<and> cstr m a x) ps xs" using assms(1) by (auto simp: vector_def)
  have "words m' p ps" using assms ps(1,2) by (intro words_same_on [OF assms(2)]) simp_all
  moreover have "list_all2 (\<lambda>a x. lo \<le> unat a \<and> unat a + length x < hi' \<and> cstr m' a x) ps xs"
    using ps(3)
  proof (rule list_all2_mono)
    fix a x assume "lo \<le> unat a \<and> unat a + length x < hi \<and> cstr m a x"
    then show "lo \<le> unat a \<and> unat a + length x < hi' \<and> cstr m' a x"
      using cstr_same_on [OF assms(2), of a x] assms(5,6) by (auto simp: no_wrap_def)
  qed
  ultimately show ?thesis using ps(1) by (auto simp: vector_def)
qed

lemma vector_mono: "vector lo hi m p xs \<Longrightarrow> lo' \<le> lo \<Longrightarrow> hi \<le> hi' \<Longrightarrow> vector lo' hi' m p xs"
  unfolding vector_def by (elim exE conjE, intro exI conjI) (assumption, assumption, erule list_all2_mono, auto)

lemma put_strings_read:
  "unat a + 13 + unat n + str_space xs < 4294967296 \<Longrightarrow> unat tab + 4 * length xs \<le> unat a + 13 + unat n \<Longrightarrow>
    list_all (\<lambda>x. 0 \<notin> set x) xs \<Longrightarrow> put_strings tab a n xs m = (b, n', m') \<Longrightarrow>
    vector (unat a + 13 + unat n) (unat a + 13 + unat n + str_space xs) m' tab xs
    \<and> unat b + 13 + unat n' = unat a + 13 + unat n + str_space xs
    \<and> (xs \<noteq> [] \<longrightarrow> m' (a + 13 + n) = 0xED)"
proof (induction xs arbitrary: tab a n m)
  case Nil
  then show ?case by (simp add: vector_def)
next
  case (Cons x xs)
  let ?a = "a + 13 + n" and ?n = "of_nat (length x) + 1 :: u32"
  let ?h = "put_header ?a ?n m"
  let ?w = "wr32 tab (?a + 13) ?h"
  let ?m = "put_str (?a + 13) x ?w"
  have u: "unat ?a = unat a + 13 + unat n" using Cons.prems(1) by (intro block_addr) simp
  have u13: "unat (?a + 13) = unat a + 13 + unat n + 13" using block_addr [of ?a 0] u Cons.prems(1) by simp
  have n: "unat ?n = length x + 1" using Cons.prems(1) by (intro len_word) simp
  have t4: "unat (tab + 4) = unat tab + 4" using Cons.prems(1,2) unat_plus_u32 [of tab 4] by simp
  have z: "0 \<notin> set x" using Cons.prems(3) by simp
  have r: "put_strings (tab + 4) ?a ?n xs ?m = (b, n', m')" using Cons.prems(4) by (simp add: Let_def)
  have pre: "unat ?a + 13 + unat ?n + str_space xs < 4294967296" "unat (tab + 4) + 4 * length xs \<le> unat ?a + 13 + unat ?n"
    "unat (tab + 4) + 4 * length xs < 4294967296" using u n t4 Cons.prems(1,2) by simp_all
  have IH: "vector (unat ?a + 13 + unat ?n) (unat ?a + 13 + unat ?n + str_space xs) m' (tab + 4) xs"
    "unat b + 13 + unat n' = unat ?a + 13 + unat ?n + str_space xs"
    using Cons.IH [OF pre(1,2) _ r] Cons.prems(3) by simp_all
  have nw: "no_wrap (?a + 13) (Suc (length x))" using u13 Cons.prems(1) by (simp add: no_wrap_def)
  have lo: "same_on (unat tab) (unat tab + 4) ?m m'"
    using pre t4 Cons.prems(2) u n by (intro put_strings_same_on [OF pre(1) _ pre(3) _ r]) auto
  have st: "same_on (unat ?a) (unat ?a + 13 + unat ?n) ?m m'"
    using pre(3) t4 Cons.prems(2) u n by (intro put_strings_same_on [OF pre(1) _ pre(3) _ r]) auto
  have "same_on (unat tab) (unat tab + 4) ?w ?m"
    using u13 Cons.prems(1,2) by (intro put_str_same_on) (auto simp: beside_def no_wrap_def)
  then have "rd32 ?m tab = ?a + 13"
    using Cons.prems(1,2) rd32_same_on [of "unat tab" "unat tab + 4" ?w ?m tab] by (simp add: no_wrap_def)
  then have w: "rd32 m' tab = ?a + 13"
    using Cons.prems(1,2) rd32_same_on [OF lo, of tab] by (simp add: no_wrap_def)
  have "cstr ?m (?a + 13) x" by (rule cstr_put_str [OF z nw])
  then have c: "cstr m' (?a + 13) x"
    using cstr_same_on [OF st, of "?a + 13" x] u u13 n nw by (simp add: no_wrap_def)
  have "same_on (unat ?a) (unat ?a + 1) ?h ?w" using u Cons.prems(1,2) by (intro wr32_same_on) (auto simp: beside_def no_wrap_def)
  moreover have "same_on (unat ?a) (unat ?a + 1) ?w ?m"
    using u u13 Cons.prems(1) by (intro put_str_same_on) (auto simp: beside_def no_wrap_def)
  moreover have "?h ?a = 0xED" by (simp add: put_header_def wr32_def add.assoc)
  ultimately have g: "m' ?a = 0xED" using st by (simp add: same_on_def)
  obtain ps where ps: "length ps = length xs" "words m' (tab + 4) ps"
    "list_all2 (\<lambda>a x. unat ?a + 13 + unat ?n \<le> unat a \<and> unat a + length x < unat ?a + 13 + unat ?n + str_space xs \<and> cstr m' a x) ps xs"
    using IH(1) by (auto simp: vector_def)
  have "list_all2 (\<lambda>p y. unat a + 13 + unat n \<le> unat p \<and> unat p + length y < unat a + 13 + unat n + str_space (x # xs) \<and> cstr m' p y) ps xs"
    using ps(3) by (rule list_all2_mono) (use u n in auto)
  then have "vector (unat a + 13 + unat n) (unat a + 13 + unat n + str_space (x # xs)) m' tab (x # xs)"
    unfolding vector_def using ps(1,2) w c u13 by (intro exI [of _ "(?a + 13) # ps"]) simp
  then show ?case using g IH(2) u n by simp
qed

text \<open>A vector with its table, from the end of the block before it.\<close>

lemma put_vector_read:
  assumes "unat a + 13 + 4 * length xs + str_space xs < 4294967296" "list_all (\<lambda>x. 0 \<notin> set x) xs" "put_vector a xs m = (b, n, m')"
  shows "vector (unat a + 13 + 4 * length xs) (unat a + 13 + 4 * length xs + str_space xs) m' (a + 13) xs"
    "unat b + 13 + unat n = unat a + 13 + 4 * length xs + str_space xs"
    "xs \<noteq> [] \<Longrightarrow> m' (a + 13 + 4 * of_nat (length xs)) = 0xED"
    "unat (a + 13) = unat a + 13" "hi \<le> unat a \<Longrightarrow> same_on lo hi m m'"
proof -
  have l: "unat (4 * of_nat (length xs) :: u32) = 4 * length xs"
    using assms(1) by (simp add: unat_word_ariths unat_of_nat_u32)
  show u: "unat (a + 13) = unat a + 13" using assms(1) unat_plus_u32 [of a 13] by simp
  note r = put_strings_read [of a "4 * of_nat (length xs)" xs "a + 13" "put_header a (4 * of_nat (length xs)) m" b n m', unfolded l u,
      OF assms(1) _ assms(2)] assms(3) [unfolded put_vector_def]
  show "vector (unat a + 13 + 4 * length xs) (unat a + 13 + 4 * length xs + str_space xs) m' (a + 13) xs"
    "unat b + 13 + unat n = unat a + 13 + 4 * length xs + str_space xs"
    "xs \<noteq> [] \<Longrightarrow> m' (a + 13 + 4 * of_nat (length xs)) = 0xED"
    using r by simp_all
  assume h: "hi \<le> unat a"
  have "same_on lo hi m (put_header a (4 * of_nat (length xs)) m)"
    using h assms(1) by (intro put_header_same_on) (auto simp: beside_def no_wrap_def)
  moreover have "same_on lo hi (put_header a (4 * of_nat (length xs)) m) m'"
    using h assms(1) u l by (intro put_strings_same_on [OF _ _ _ _ assms(3) [unfolded put_vector_def]]) auto
  ultimately show "same_on lo hi m m'" by (rule same_on_trans)
qed

definition vec_space :: "u8 list list \<Rightarrow> nat" where
  "vec_space xs = 13 + 4 * length xs + str_space xs"

lemma put_vectors_parts:
  assumes "argv \<noteq> []" "list_all (\<lambda>x. 0 \<notin> set x) (argv @ envp)" "vec_space argv + vec_space envp < 0x30000000"
    "put_vectors argv True envp m = (uargv, uenvp, m')"
  shows "vector 0xD0000000 (0xD0000000 + vec_space argv) m' uargv argv" "vector 0xD0000000 0x100000000 m' uenvp envp"
    "unat uargv = 0xD000000D" "envp \<noteq> [] \<Longrightarrow> m' (uenvp + 4 * of_nat (length envp)) = 0xED"
proof -
  obtain b n m1 where v1: "put_vector USER_HEAP argv m = (b, n, m1)" by (metis prod_cases3)
  let ?a = "b + 13 + n"
  obtain c k m2 where v2: "put_vector ?a envp m1 = (c, k, m2)" by (metis prod_cases3)
  have e: "uargv = USER_HEAP + 13" "uenvp = ?a + 13" "m' = m2" using assms(1,4) v1 v2 by (simp_all add: put_vectors_def Let_def)
  have z: "list_all (\<lambda>x. 0 \<notin> set x) argv" "list_all (\<lambda>x. 0 \<notin> set x) envp" using assms(2) by simp_all
  have sp: "unat USER_HEAP + 13 + 4 * length argv + str_space argv < 4294967296" using assms(3) by (simp add: vec_space_def)
  note r1 = put_vector_read [OF sp z(1) v1]
  have a: "unat ?a = 0xD0000000 + vec_space argv" using r1(2) sp block_addr [of b n] by (simp add: vec_space_def)
  have sp2: "unat ?a + 13 + 4 * length envp + str_space envp < 4294967296" using a assms(3) by (simp add: vec_space_def)
  note r2 = put_vector_read [OF sp2 z(2) v2]
  have keep: "same_on 0xD0000000 (unat ?a) m1 m2" by (rule r2(5)) simp
  have "vector 0xD0000000 (unat ?a) m1 (USER_HEAP + 13) argv"
    by (rule vector_mono [OF r1(1)]) (simp_all add: a vec_space_def)
  then have "vector 0xD0000000 (unat ?a) m2 (USER_HEAP + 13) argv"
    by (rule vector_same_on [OF _ keep]) (use sp a in \<open>simp_all add: vec_space_def\<close>)
  then show "vector 0xD0000000 (0xD0000000 + vec_space argv) m' uargv argv" by (simp only: e a)
  show "unat uargv = 0xD000000D" by (simp add: e)
  show "vector 0xD0000000 0x100000000 m' uenvp envp"
    unfolding e by (rule vector_mono [OF r2(1)]) (use sp2 a in simp_all)
  show "envp \<noteq> [] \<Longrightarrow> m' (uenvp + 4 * of_nat (length envp)) = 0xED" unfolding e by (rule r2(3))
qed

lemma rd32_nonzero: "m p \<noteq> 0 \<Longrightarrow> rd32 m p \<noteq> 0"
proof -
  have "bit (ucast (rd32 m p) :: u8) n = bit (m p) n" if "n < 8" for n using that by (simp add: rd32_def bit_simps)
  then have "(ucast (rd32 m p) :: u8) = m p" by (intro bit_word_eqI) simp
  then show "m p \<noteq> 0 \<Longrightarrow> rd32 m p \<noteq> 0" by auto
qed

text \<open>A program finds its arguments. After \<open>execute\<close> has laid out the argument and environment vectors on
  the heap of the new process, both are tables of pointers to exactly the strings given, the second vector
  leaving the first one intact, as long as they fit behind the start of the heap.\<close>

theorem put_vectors_found:
  assumes "argv \<noteq> []" "list_all (\<lambda>x. 0 \<notin> set x) (argv @ envp)" "vec_space argv + vec_space envp < 0x30000000"
  shows "\<exists>uargv uenvp m'. put_vectors argv True envp m = (uargv, uenvp, m')
    \<and> vector 0xD0000000 0x100000000 m' uargv argv \<and> vector 0xD0000000 0x100000000 m' uenvp envp"
proof -
  obtain uargv uenvp m' where p: "put_vectors argv True envp m = (uargv, uenvp, m')" by (metis prod_cases3)
  note parts = put_vectors_parts(1,2) [OF assms p]
  have "vector 0xD0000000 0x100000000 m' uargv argv" using assms(3) by (intro vector_mono [OF parts(1)]) simp_all
  then show ?thesis using p parts(2) by blast
qed

lemma put_vectors_found_witness:
  "\<exists>uargv uenvp m'. put_vectors [[108, 115], [47]] True [[65, 61, 66]] (\<lambda>_. 0) = (uargv, uenvp, m')
    \<and> vector 0xD0000000 0x100000000 m' uargv [[108, 115], [47]] \<and> vector 0xD0000000 0x100000000 m' uenvp [[65, 61, 66]]"
  by (rule put_vectors_found) (simp_all add: vec_space_def)

text \<open>The environment is not terminated. The word behind the last pointer of the environment of the new
  process is not zero, it begins with the guard byte of the next block; \<open>libc_init\<close>, which looks for a
  null pointer, runs on behind it.\<close>

theorem environment_unterminated:
  assumes "argv \<noteq> []" "envp \<noteq> []" "list_all (\<lambda>x. 0 \<notin> set x) (argv @ envp)" "vec_space argv + vec_space envp < 0x30000000"
  shows "\<exists>uargv uenvp m'. put_vectors argv True envp m = (uargv, uenvp, m') \<and> rd32 m' (uenvp + 4 * of_nat (length envp)) \<noteq> 0"
proof -
  obtain uargv uenvp m' where p: "put_vectors argv True envp m = (uargv, uenvp, m')" by (metis prod_cases3)
  have "m' (uenvp + 4 * of_nat (length envp)) = 0xED" using put_vectors_parts(4) [OF assms(1,3,4) p assms(2)] .
  then show ?thesis using p rd32_nonzero [of m' "uenvp + 4 * of_nat (length envp)"] by auto
qed

lemma environment_unterminated_witness:
  "\<exists>uargv uenvp m'. put_vectors [[47]] True [[65, 61, 66]] (\<lambda>_. 0) = (uargv, uenvp, m') \<and> rd32 m' (uenvp + 4) \<noteq> 0"
  using environment_unterminated [of "[[47]]" "[[65, 61, 66]]" "\<lambda>_. 0"] by (simp add: vec_space_def)

end
