(* ===== verification/Syscall.thy ===== *)
theory Syscall
  imports Exec
begin

text \<open>
  The system calls, \<open>os/kernel/arch/i386/interrupts/syscall.c\<close>, on the joint state of theory Exec: the
  dispatcher behind interrupt 127 and every handler. A handler returns the value for \<open>eax\<close>; \<open>None\<close> is a call
  that does not end (a path without terminator, a shutdown) or runs out of the scheduler's fuel. Arguments
  of handlers that only print (\<open>sys_echo\<close>) are not looked at.
\<close>

subsection \<open>The current process and its open files\<close>

definition cur :: "sys \<Rightarrow> u32" where
  "cur s = current_process (kern s)"

definition cur_proc :: "sys \<Rightarrow> proc res" where
  "cur_proc s = get_proc (cur s) (kern s)"

text \<open>The node of an open file: \<open>None\<close> if the number is not below the count.\<close>

definition fd_node :: "u32 \<Rightarrow> sys \<Rightarrow> u32 option res" where
  "fd_node fd s = sbind (cur_proc s) (\<lambda>_.
     if f_descs_cnt s (cur s) \<le> fd then Inr None
     else sbind (load_at (fd_arrays s (f_descs s (cur s))) (unat fd)) (\<lambda>n. Inr (Some n)))"

definition set_fd :: "nat \<Rightarrow> u32 \<Rightarrow> sys \<Rightarrow> sys res" where
  "set_fd i n s = (let a = f_descs s (cur s) in
     sbind (store_at (fd_arrays s a) i n) (\<lambda>xs. Inr (s\<lparr>fd_arrays := (fd_arrays s)(a := xs)\<rparr>)))"

abbreviation F_READ :: u8 where "F_READ \<equiv> 1"
abbreviation F_WRITE :: u8 where "F_WRITE \<equiv> 2"
abbreviation F_CREATE :: u32 where "F_CREATE \<equiv> 4"

subsection \<open>Files\<close>

definition file_offset :: "u32 \<Rightarrow> u32 \<Rightarrow> u64" where
  "file_offset high low = push_bit 32 (ucast high) OR ucast low"

definition sys_read :: "cfg \<Rightarrow> u32 \<Rightarrow> u32 \<Rightarrow> u32 \<Rightarrow> u32 \<Rightarrow> u32 \<Rightarrow> sys \<Rightarrow> (u32 \<times> sys) res" where
  "sys_read c fd offs_high offs_low sz buffer s =
     sbind (fd_node fd s) (\<lambda>n. case n of None \<Rightarrow> Inr (0, s)
     | Some node \<Rightarrow> sbind (get_node node (files s)) (\<lambda>x.
         if open_flags x AND F_READ = 0 then Inr (0, s)
         else on_files (kread (vld c) (ftab s) node (file_offset offs_high offs_low) sz buffer) s))"

definition sys_write :: "cfg \<Rightarrow> u32 \<Rightarrow> u32 \<Rightarrow> u32 \<Rightarrow> u32 \<Rightarrow> u32 \<Rightarrow> sys \<Rightarrow> (u32 \<times> sys) res" where
  "sys_write c fd offs_high offs_low sz buffer s =
     sbind (fd_node fd s) (\<lambda>n. case n of None \<Rightarrow> Inr (0, s)
     | Some node \<Rightarrow> sbind (get_node node (files s)) (\<lambda>x.
         if open_flags x AND F_WRITE = 0 then Inr (0, s)
         else on_files (kwrite (vld c) (ftab s) node (file_offset offs_high offs_low) sz buffer) s))"

definition sys_fstat :: "cfg \<Rightarrow> u32 \<Rightarrow> u32 \<Rightarrow> sys \<Rightarrow> (u32 \<times> sys) res" where
  "sys_fstat c fd stat s =
     sbind (fd_node fd s) (\<lambda>n.
     if n = None \<or> \<not> vld c stat then Inr (1, s)
     else if vld c (the n) then
       sbind (get_node (the n) (files s)) (\<lambda>x.
         Inr (0, set_mem (wr32 stat (if fsid x = 1 then 0 else nsize x) (mem (files s))) s))
     else Inr (1, s))"

text \<open>The first slot that holds no valid node, among the first \<open>n\<close>.\<close>

fun free_fd :: "(u32 \<Rightarrow> bool) \<Rightarrow> u32 list \<Rightarrow> nat \<Rightarrow> nat option" where
  "free_fd v xs 0 = None"
| "free_fd v [] (Suc n) = None"
| "free_fd v (x # xs) (Suc n) = (if \<not> v x then Some 0 else map_option Suc (free_fd v xs n))"

text \<open>Putting a node into the table; a full table moves to a new block, and \<open>krealloc\<close> copies what it held.\<close>

definition install_fd :: "cfg \<Rightarrow> u32 \<Rightarrow> sys \<Rightarrow> (u32 \<times> sys) res" where
  "install_fd c node s =
     sbind (cur_proc s) (\<lambda>_.
     let p = cur s; cnt = f_descs_cnt s p; xs = fd_arrays s (f_descs s p) in
     case free_fd (vld c) xs (unat cnt) of
       Some i \<Rightarrow> sbind (set_fd i node s) (\<lambda>s. Inr (of_nat i, s))
     | None \<Rightarrow>
         let old = (if vld c (f_descs s p) then take (unat cnt) xs else []) in
         sbind (on_files Vfs.kalloc s) (\<lambda>(a, s).
           let s = s\<lparr>f_descs := (f_descs s)(p := a), f_descs_cnt := (f_descs_cnt s)(p := cnt + 1),
                     fd_arrays := (fd_arrays s)(a := old @ [0])\<rparr>
           in sbind (set_fd (unat cnt) node s) (\<lambda>s. Inr (cnt, s))))"

definition sys_open :: "cfg \<Rightarrow> u32 \<Rightarrow> u32 \<Rightarrow> sys \<Rightarrow> (u32 \<times> sys) res option" where
  "sys_open c path fl s =
     (case read_str (mem (files s)) path of None \<Rightarrow> None
      | Some nm \<Rightarrow>
         res_bind (Some (kopen (ftab s) nm (files s))) (\<lambda>(node, v).
         res_bind (if \<not> vld c node \<and> fl AND F_CREATE \<noteq> 0 then kcreate (ftab s) nm 0 v else Some (Inr (node, v))) (\<lambda>(node, v).
         let s = s\<lparr>files := v\<rparr> in
         if \<not> vld c node then Some (Inr (- 1, s))
         else Some (sbind (get_node node v) (\<lambda>n.
           install_fd c node (s\<lparr>files := set_node node (n\<lparr>open_flags := ucast fl\<rparr>) v\<rparr>))))))"

definition sys_close :: "cfg \<Rightarrow> u32 \<Rightarrow> sys \<Rightarrow> (u32 \<times> sys) res" where
  "sys_close c fds s =
     sbind (fd_node fds s) (\<lambda>n. case n of None \<Rightarrow> Inr (0, s)
     | Some node \<Rightarrow>
         if vld c node
         then sbind (set_fd (unat fds) 0 (s\<lparr>files := kclose node (files s)\<rparr>)) (\<lambda>s. Inr (0, s))
         else Inr (0, s))"

text \<open>The name is copied without its terminator.\<close>

definition put_bytes :: "u32 \<Rightarrow> u8 list \<Rightarrow> bytes \<Rightarrow> bytes" where
  "put_bytes p xs m = fold (\<lambda>i m. m(p + of_nat i := xs ! i)) [0..<length xs] m"

definition sys_readdir :: "cfg \<Rightarrow> u32 \<Rightarrow> u32 \<Rightarrow> u32 \<Rightarrow> sys \<Rightarrow> (u32 \<times> sys) res" where
  "sys_readdir c fd index ptr s =
     sbind (fd_node fd s) (\<lambda>n.
     if n = None \<or> \<not> vld c ptr then Inr (1, s)
     else sbind (on_files (kreaddir (ftab s) (the n)) s) (\<lambda>(dir, s).
       if chld_cnt dir > index then
         sbind (load_at (chlds dir) (unat index)) (\<lambda>ch.
         sbind (get_node ch (files s)) (\<lambda>x.
           Inr (0, set_mem (put_bytes ptr (nname x) (wr32 (ptr + 256) index (mem (files s)))) s)))
       else Inr (1, s)))"

definition sys_ioctl :: "cfg \<Rightarrow> u32 \<Rightarrow> u32 \<Rightarrow> u32 \<Rightarrow> sys \<Rightarrow> (u32 \<times> sys) res" where
  "sys_ioctl c fd req argp s =
     sbind (fd_node fd s) (\<lambda>n. case n of None \<Rightarrow> Inr (0, s)
     | Some node \<Rightarrow> on_files (kioctl (vld c) (node_ioctls c) (ftab s) node req argp) s)"

text \<open>The copy of a node: neither number is checked.\<close>

definition sys_assign :: "cfg \<Rightarrow> u32 \<Rightarrow> u32 \<Rightarrow> sys \<Rightarrow> (u32 \<times> sys) res" where
  "sys_assign c fd_dest fd_src s =
     sbind (sys_close c fd_dest s) (\<lambda>(_, s).
     sbind (on_files Vfs.kalloc s) (\<lambda>(node, s).
     sbind (load_at (fd_arrays s (f_descs s (cur s))) (unat fd_src)) (\<lambda>src.
     sbind (get_node src (files s)) (\<lambda>n.
     sbind (set_fd (unat fd_dest) node (s\<lparr>files := set_node node n (files s)\<rparr>)) (\<lambda>s.
     sbind (sys_close c fd_src s) (\<lambda>(_, s). Inr (junk c, s)))))))"

definition sys_link :: "u32 \<Rightarrow> u32 \<Rightarrow> sys \<Rightarrow> (u32 \<times> sys) res option" where
  "sys_link patha pathb s =
     Option.bind (read_str (mem (files s)) patha) (\<lambda>a. Option.bind (read_str (mem (files s)) pathb) (\<lambda>b.
       res_bind (klink (ftab s) a b (files s)) (\<lambda>(r, v). Some (Inr (if r \<noteq> 0 then 1 else 0, s\<lparr>files := v\<rparr>)))))"

text \<open>\<open>pipe_create\<close> mounts a pipe (theory Pipe); \<open>mk\<close> gives its node.\<close>

definition sys_pipe :: "(cstring \<Rightarrow> u32) \<Rightarrow> u32 \<Rightarrow> u32 \<Rightarrow> sys \<Rightarrow> (u32 \<times> sys) res option" where
  "sys_pipe mk path sz s =
     Option.bind (read_str (mem (files s)) path) (\<lambda>nm.
       Some (Inr (if mk nm \<noteq> 0 then 0 else 1, s\<lparr>pipe_calls := pipe_calls s @ [(nm, sz)]\<rparr>)))"

definition sys_getcwd :: "u32 \<Rightarrow> u32 \<Rightarrow> sys \<Rightarrow> (u32 \<times> sys) res" where
  "sys_getcwd buffer buffer_size s =
     sbind (cur_proc s) (\<lambda>x.
       if unat buffer_size < length (work_dir_abs x) then Inr (0, s)
       else Inr (buffer, set_mem (put_str buffer (work_dir_abs x) (mem (files s))) s))"

definition sys_chdir :: "u32 \<Rightarrow> sys \<Rightarrow> (u32 \<times> sys) res option" where
  "sys_chdir path s =
     Option.bind (read_str (mem (files s)) path) (\<lambda>nm. Some (
       sbind (on_files (kseek (ftab s) nm) s) (\<lambda>(node, s).
       if node = 0 then Inr (- 1, s)
       else sbind (canonize_absolute nm) (\<lambda>full.
         if length full \<ge> 256 then Inl Wild
         else sbind (upd_proc (cur s) (\<lambda>x. x\<lparr>work_dir_abs := full, work_dir := node\<rparr>) (kern s)) (\<lambda>k.
           Inr (0, s\<lparr>kern := k\<rparr>))))))"

subsection \<open>Processes\<close>

definition sys_exec :: "cfg \<Rightarrow> u32 \<Rightarrow> u32 \<Rightarrow> u32 \<Rightarrow> sys \<Rightarrow> (u32 \<times> sys) res option" where
  "sys_exec c path argv envp s =
     Option.bind (read_str (mem (files s)) path) (\<lambda>nm.
     res_bind (Some (on_files (kseek (ftab s) nm) s)) (\<lambda>(node, s).
     res_bind (execute c node argv envp False s) (\<lambda>(p, s).
       if p = 0 then Some (Inr (0, s)) else Some (sbind (get_proc p (kern s)) (\<lambda>x. Inr (pid x, s))))))"

definition sys_exit :: "cfg \<Rightarrow> u32 \<Rightarrow> sys \<Rightarrow> (u32 \<times> sys) res option" where
  "sys_exit c code s = res_bind (on_kern (proc_exit (vld c) (drained c) (fuel c) (cur s)) s) (\<lambda>s. Some (Inr (0, s)))"

text \<open>The nodes of the numbers that are open are gathered; the count given on is that of all numbers.\<close>

fun gather_fds :: "u32 \<Rightarrow> nat \<Rightarrow> sys \<Rightarrow> u32 list res" where
  "gather_fds p 0 s = Inr []"
| "gather_fds p (Suc k) s =
     sbind (fd_node (rd32 (mem (files s)) p) s) (\<lambda>n. sbind (gather_fds (p + 4) k s) (\<lambda>ns.
       Inr (case n of None \<Rightarrow> ns | Some n \<Rightarrow> n # ns)))"

definition sys_fswait :: "cfg \<Rightarrow> u32 \<Rightarrow> u32 \<Rightarrow> sys \<Rightarrow> (u32 \<times> sys) res option" where
  "sys_fswait c fds cnt s =
     res_bind (Some (on_files Vfs.kalloc s)) (\<lambda>(_, s).
     res_bind (Some (gather_fds fds (unat cnt) s)) (\<lambda>ns.
     res_bind (on_kern (process_fswait (vld c) (drained c) (fuel c) (cur s) ns cnt) s) (\<lambda>s. Some (Inr (0, s)))))"

definition sys_yield :: "cfg \<Rightarrow> sys \<Rightarrow> (u32 \<times> sys) res option" where
  "sys_yield c s = res_bind (on_kern (schedule (vld c) (drained c) (fuel c) 0 1) s) (\<lambda>s. Some (Inr (0, s)))"

text \<open>One frame is taken, whatever the size, and mapped at every page the heaps of the group grow by.\<close>

fun grow_heap :: "u32 \<Rightarrow> u32 \<Rightarrow> nat \<Rightarrow> sys \<Rightarrow> sys res" where
  "grow_heap p frame 0 s = Inr s"
| "grow_heap p frame (Suc k) s =
     sbind (get_proc p (kern s)) (\<lambda>x.
     sbind (upd_proc p (\<lambda>x. heap_size_update (\<lambda>h. h + 4096) x) (load_pd (pdir x) (kern s))) (\<lambda>k'.
       grow_heap p frame k (s\<lparr>kern := k', page_maps := page_maps s @ [(page_dir k', uheap x + heap_size x, frame)]\<rparr>)))"

fun grow_group :: "u32 list \<Rightarrow> u32 \<Rightarrow> nat \<Rightarrow> sys \<Rightarrow> sys res" where
  "grow_group [] frame k s = Inr s"
| "grow_group (p # ps) frame k s = sbind (if p = 0 then Inr s else grow_heap p frame k s) (grow_group ps frame k)"

definition sys_sbrk :: "u32 \<Rightarrow> sys \<Rightarrow> (u32 \<times> sys) res option" where
  "sys_sbrk sz s =
     res_bind (Some (kfalloc (pmem s))) (\<lambda>(frame, pm).
     res_bind (Some (cur_proc s)) (\<lambda>x.
     res_bind (Some (get_grp (group x) (kern s))) (\<lambda>g.
     if sz > 0xFFFFF000 then None
     else Some (sbind (grow_group (members g) frame ((unat sz + 4095) div 4096) (s\<lparr>pmem := pm\<rparr>)) (\<lambda>s.
       sbind (cur_proc s) (\<lambda>x. Inr (uheap x, s\<lparr>kern := load_pd (pdir x) (kern s)\<rparr>)))))))"

definition sys_sig :: "cfg \<Rightarrow> u32 \<Rightarrow> u32 \<Rightarrow> sys \<Rightarrow> (u32 \<times> sys) res option" where
  "sys_sig c i sg s =
     res_bind (Some (get_process_by_pid i (kern s))) (\<lambda>p.
     res_bind (on_kern (send_signal (vld c) (drained c) (fuel c) p sg) s) (\<lambda>s. Some (Inr (0, s))))"

definition sys_sighandl :: "u32 \<Rightarrow> u32 \<Rightarrow> sys \<Rightarrow> (u32 \<times> sys) res" where
  "sys_sighandl sg handler s = sbind (set_sig_handler (cur s) handler sg (kern s)) (\<lambda>k. Inr (0, s\<lparr>kern := k\<rparr>))"

definition sys_sigexit :: "cfg \<Rightarrow> sys \<Rightarrow> (u32 \<times> sys) res option" where
  "sys_sigexit c s = res_bind (on_kern (exit_sig (vld c) (drained c) (fuel c) (cur s)) s) (\<lambda>s. Some (Inr (0, s)))"

definition sys_time :: "cfg \<Rightarrow> sys \<Rightarrow> (u32 \<times> sys) option" where
  "sys_time c s = map_option (\<lambda>(t, h). (t, s\<lparr>kint := (kint s)\<lparr>iolog := h\<rparr>\<rparr>)) (rtc_current_time (port_dev c) (iolog (kint s)))"

definition sys_waitpid :: "cfg \<Rightarrow> u32 \<Rightarrow> sys \<Rightarrow> (u32 \<times> sys) res option" where
  "sys_waitpid c i s = res_bind (on_kern (process_waitpid (vld c) (drained c) (fuel c) (cur s) i) s) (\<lambda>s. Some (Inr (0, s)))"

definition sys_getpid :: "sys \<Rightarrow> (u32 \<times> sys) res" where
  "sys_getpid s = sbind (cur_proc s) (\<lambda>x. Inr (pid x, s))"

definition sys_getuid :: "sys \<Rightarrow> (u32 \<times> sys) res" where
  "sys_getuid s = sbind (cur_proc s) (\<lambda>x. Inr (uid x, s))"

definition sys_setuid :: "u32 \<Rightarrow> sys \<Rightarrow> (u32 \<times> sys) res" where
  "sys_setuid u s =
     sbind (cur_proc s) (\<lambda>x.
       if uid x \<noteq> 0 then Inr (- 1, s)
       else sbind (upd_proc (cur s) (\<lambda>x. x\<lparr>uid := u\<rparr>) (kern s)) (\<lambda>k. Inr (0, s\<lparr>kern := k\<rparr>)))"

definition sys_sleep :: "cfg \<Rightarrow> u32 \<Rightarrow> sys \<Rightarrow> (u32 \<times> sys) res option" where
  "sys_sleep c ticks s = res_bind (on_kern (process_sleep (vld c) (drained c) (fuel c) (cur s) ticks) s) (\<lambda>s. Some (Inr (0, s)))"

definition sys_getppid :: "sys \<Rightarrow> (u32 \<times> sys) res" where
  "sys_getppid s =
     sbind (cur_proc s) (\<lambda>x.
       if Proc.parent x = 0 then Inr (- 1, s) else sbind (get_proc (Proc.parent x) (kern s)) (\<lambda>y. Inr (pid y, s)))"

text \<open>The priority of a process is that of its group; setting it is left to root.\<close>

definition sys_prior :: "u32 \<Rightarrow> u32 \<Rightarrow> sys \<Rightarrow> (u32 \<times> sys) res" where
  "sys_prior req prior s =
     sbind (cur_proc s) (\<lambda>x.
       if req \<noteq> 0 then
         if uid x = 0 then
           sbind (ready_remove (cur s) (kern s)) (\<lambda>k.
           sbind (upd_grp (group x) (\<lambda>g. g\<lparr>priority := ucast prior\<rparr>) k) (\<lambda>k.
           sbind (ready_insert (cur s) k) (\<lambda>k. Inr (0, s\<lparr>kern := k\<rparr>))))
         else Inr (0, s)
       else sbind (get_grp (group x) (kern s)) (\<lambda>g. Inr (ucast (priority g), s)))"

text \<open>The new thread is a copy of the process structure and so shares the table of open files.\<close>

definition sys_thread :: "cfg \<Rightarrow> u32 \<Rightarrow> sys \<Rightarrow> (u32 \<times> sys) res" where
  "sys_thread c ent s =
     sbind (process_create_thread (vld c) (cur s) ent (fresh_pd c (kern s)) (kern s)) (\<lambda>k.
       let p = cur s; new = hd (Proc.avail (kern s));
           made = total_prcs k \<noteq> total_prcs (kern s)
       in Inr (0, if made then s\<lparr>kern := k, f_descs := (f_descs s)(new := f_descs s p),
                    f_descs_cnt := (f_descs_cnt s)(new := f_descs_cnt s p)\<rparr>
                  else s\<lparr>kern := k\<rparr>))"

definition sys_shmem_create :: "u32 \<Rightarrow> sys \<Rightarrow> (u32 \<times> sys) res" where
  "sys_shmem_create sz s = sbind (process_create_shared (cur s) sz (kern s)) (\<lambda>(r, k). Inr (r, s\<lparr>kern := k\<rparr>))"

text \<open>The block structure, its size and offset, goes to the caller.\<close>

definition sys_shmem_open :: "u32 \<Rightarrow> u32 \<Rightarrow> u32 \<Rightarrow> sys \<Rightarrow> (u32 \<times> sys) res" where
  "sys_shmem_open i sh_id bl s =
     sbind (get_process_by_pid i (kern s)) (\<lambda>target.
     sbind (process_open_shmem (cur s) target sh_id (kern s)) (\<lambda>(own, req, k).
       Inr (0, set_mem (wr32 (bl + 4) (boffset own) (wr32 bl (bsize own) (mem (files s))))
                 (s\<lparr>kern := k, shmem_maps := shmem_maps s @ [req]\<rparr>))))"

definition sys_shmem_reset :: "sys \<Rightarrow> (u32 \<times> sys) res" where
  "sys_shmem_reset s = sbind (process_reset_shmem (cur s) (kern s)) (\<lambda>k. Inr (0, s\<lparr>kern := k\<rparr>))"

text \<open>Power requests do not come back: the ACPI sleep state is entered, or the reset register or the keyboard
  controller is written, and the processor halts. The wait for the keyboard controller:\<close>

partial_function (option) reset_8042 :: "device \<Rightarrow> io \<Rightarrow> io option" where
  "reset_8042 dev h =
     (case inb dev 0x64 h of (good, h) \<Rightarrow> if good AND 0x02 \<noteq> 0 then reset_8042 dev h else Some (outb 0x64 0xFE h))"

definition sys_pwreq :: "cfg \<Rightarrow> u32 \<Rightarrow> sys \<Rightarrow> (u32 \<times> sys) res option" where
  "sys_pwreq c req s = (if req = 0 \<or> req = 1 then None else Some (Inr (junk c, s)))"

subsection \<open>Dispatch\<close>

definition run_sysfn :: "cfg \<Rightarrow> (cstring \<Rightarrow> u32) \<Rightarrow> sysfn \<Rightarrow> u32 \<Rightarrow> u32 \<Rightarrow> u32 \<Rightarrow> u32 \<Rightarrow> u32 \<Rightarrow> sys \<Rightarrow> (u32 \<times> sys) res option" where
  "run_sysfn c mk fn a b d e f s = (case fn of
       SysEcho \<Rightarrow> Some (Inr (0, s))
     | SysRead \<Rightarrow> Some (sys_read c a b d e f s)
     | SysWrite \<Rightarrow> Some (sys_write c a b d e f s)
     | SysOpen \<Rightarrow> sys_open c a b s
     | SysClose \<Rightarrow> Some (sys_close c a s)
     | SysYield \<Rightarrow> sys_yield c s
     | SysExec \<Rightarrow> sys_exec c a b d s
     | SysIoctl \<Rightarrow> Some (sys_ioctl c a b d s)
     | SysReaddir \<Rightarrow> Some (sys_readdir c a b d s)
     | SysFswait \<Rightarrow> sys_fswait c a b s
     | SysExit \<Rightarrow> sys_exit c a s
     | SysSbrk \<Rightarrow> sys_sbrk a s
     | SysAssign \<Rightarrow> Some (sys_assign c a b s)
     | SysSig \<Rightarrow> sys_sig c a b s
     | SysSighandl \<Rightarrow> Some (sys_sighandl a b s)
     | SysSigexit \<Rightarrow> sys_sigexit c s
     | SysTime \<Rightarrow> map_option Inr (sys_time c s)
     | SysWaitpid \<Rightarrow> sys_waitpid c a s
     | SysGetcwd \<Rightarrow> Some (sys_getcwd a b s)
     | SysChdir \<Rightarrow> sys_chdir a s
     | SysSetuid \<Rightarrow> Some (sys_setuid a s)
     | SysGetuid \<Rightarrow> Some (sys_getuid s)
     | SysGetpid \<Rightarrow> Some (sys_getpid s)
     | SysLink \<Rightarrow> sys_link a b s
     | SysSleep \<Rightarrow> sys_sleep c a s
     | SysGetppid \<Rightarrow> Some (sys_getppid s)
     | SysPipe \<Rightarrow> sys_pipe mk a b s
     | SysPwreq \<Rightarrow> sys_pwreq c a s
     | SysFstat \<Rightarrow> Some (sys_fstat c a b s)
     | SysPrior \<Rightarrow> Some (sys_prior a e s)
     | SysThread \<Rightarrow> Some (sys_thread c a s)
     | SysShmemCreate \<Rightarrow> Some (sys_shmem_create a s)
     | SysShmemOpen \<Rightarrow> Some (sys_shmem_open a b d s)
     | SysShmemReset \<Rightarrow> Some (sys_shmem_reset s))"

text \<open>The handler of interrupt 127, with the register frame at \<open>r\<close>. A number out of range leaves the
  interrupts locked.\<close>

definition set_eax :: "u32 \<Rightarrow> u32 \<Rightarrow> sys \<Rightarrow> sys res" where
  "set_eax r v s = sbind (get_frame r (kern s)) (\<lambda>f.
     Inr (s\<lparr>kern := (kern s)\<lparr>frames := (frames (kern s))(r \<mapsto> f\<lparr>eax := v\<rparr>)\<rparr>\<rparr>))"

definition syscall_handler :: "cfg \<Rightarrow> (cstring \<Rightarrow> u32) \<Rightarrow> u32 \<Rightarrow> sys \<Rightarrow> sys res option" where
  "syscall_handler c mk r s =
     (let s = s\<lparr>kint := lock_interrupts (kint s)\<rparr> in
      res_bind (Some (get_frame r (kern s))) (\<lambda>g.
      if eax g \<ge> 128 then Some (Inr s)
      else res_bind (Some (load_at (syscalls s) (unat (eax g)))) (\<lambda>sysc.
      res_bind (case sysc of None \<Rightarrow> Some (Inr s)
        | Some fn \<Rightarrow>
            let cp = cur s in
            res_bind (Some (upd_proc cp (\<lambda>x. x\<lparr>syscall_state := r\<rparr>) (kern s))) (\<lambda>k.
            res_bind (run_sysfn c mk fn (ebx g) (ecx g) (edx g) (esi g) (edi g) (s\<lparr>kern := k\<rparr>)) (\<lambda>(ret, s).
              if cp = cur s then Some (sbind (cur_proc s) (\<lambda>x. set_eax (syscall_state x) ret s)) else Some (Inr s))))
        (\<lambda>s. Some (Inr (s\<lparr>kint := unlock_interrupts (kint s)\<rparr>))))))"

definition register_syscall :: "nat \<Rightarrow> sysfn \<Rightarrow> sys \<Rightarrow> sys" where
  "register_syscall i fn s = s\<lparr>syscalls := (syscalls s)[i := Some fn]\<rparr>"

definition init_syscalls :: "u32 \<Rightarrow> sys \<Rightarrow> sys res" where
  "init_syscalls handler s =
     sbind (isr_set_handler 127 handler (kint s)) (\<lambda>t.
       Inr (fold (\<lambda>(i, fn). register_syscall i fn)
         [(0, SysEcho), (1, SysRead), (2, SysWrite), (3, SysOpen), (9, SysReaddir), (6, SysExec), (8, SysIoctl), (11, SysExit),
          (10, SysFswait), (5, SysYield), (4, SysClose), (12, SysSbrk), (13, SysAssign), (14, SysSig), (15, SysSighandl),
          (16, SysSigexit), (17, SysTime), (18, SysWaitpid), (19, SysGetcwd), (20, SysChdir), (22, SysGetuid),
          (21, SysSetuid), (23, SysGetpid), (24, SysLink), (25, SysSleep), (26, SysGetppid), (27, SysPipe), (28, SysPwreq),
          (29, SysFstat), (30, SysPrior), (31, SysThread), (32, SysShmemCreate), (33, SysShmemOpen), (34, SysShmemReset)]
         (s\<lparr>kint := t, syscalls := replicate 128 None\<rparr>)))"

subsection \<open>The table of open files\<close>

definition fd_table :: "sys \<Rightarrow> u32 list" where
  "fd_table s = fd_arrays s (f_descs s (cur s))"

text \<open>The table of the current process has the counted length and, if any, a valid array.\<close>

definition fd_ok :: "cfg \<Rightarrow> sys \<Rightarrow> bool" where
  "fd_ok c s \<longleftrightarrow> (\<exists>x. cur_proc s = Inr x) \<and> length (fd_table s) = unat (f_descs_cnt s (cur s))
     \<and> (fd_table s \<noteq> [] \<longrightarrow> vld c (f_descs s (cur s)))"

lemma free_fd_Some: "free_fd v xs n = Some i \<Longrightarrow> i < n \<and> i < length xs \<and> \<not> v (xs ! i) \<and> (\<forall>j < i. v (xs ! j))"
proof (induction v xs n arbitrary: i rule: free_fd.induct)
  case (3 v x xs n)
  then show ?case by (auto split: if_splits simp: nth_Cons split: nat.splits)
qed simp_all

lemma free_fd_None: "free_fd v xs n = None \<Longrightarrow> j < n \<Longrightarrow> j < length xs \<Longrightarrow> v (xs ! j)"
proof (induction v xs n arbitrary: j rule: free_fd.induct)
  case (3 v x xs n)
  then show ?case by (cases j) (auto split: if_splits)
qed simp_all

lemma cur_files [simp]: "cur (files_update f s) = cur s" "cur_proc (files_update f s) = cur_proc s"
  "fd_table (files_update f s) = fd_table s" "fd_node fd (files_update f s) = fd_node fd s"
  "fd_ok c (files_update f s) = fd_ok c s"
  by (simp_all add: cur_def cur_proc_def fd_table_def fd_node_def fd_ok_def)

lemma fd_node_table:
  "fd_ok c s \<Longrightarrow> fd_node fd s = Inr (if unat fd < length (fd_table s) then Some (fd_table s ! unat fd) else None)"
  by (auto simp: fd_node_def fd_ok_def fd_table_def word_le_nat_alt not_le)

lemma install_fd_lowest:
  assumes ok: "fd_ok c s" and mem: "Vfs.avail (files s) = a # as" "vld c a" and room: "f_descs_cnt s (cur s) \<noteq> - 1"
  shows "\<exists>i s'. install_fd c node s = Inr (of_nat i, s') \<and> i \<le> length (fd_table s)
    \<and> (\<forall>j < i. vld c (fd_table s ! j)) \<and> (i < length (fd_table s) \<longrightarrow> \<not> vld c (fd_table s ! i))
    \<and> fd_table s' = (take i (fd_table s) @ [node] @ drop (Suc i) (fd_table s)) \<and> fd_ok c s'
    \<and> nodes (files s') = nodes (files s) \<and> kern s' = kern s"
proof -
  let ?p = "cur s" and ?xs = "fd_table s"
  obtain x where x: "cur_proc s = Inr x" using ok by (auto simp: fd_ok_def)
  have len: "length ?xs = unat (f_descs_cnt s ?p)" using ok by (simp add: fd_ok_def)
  show ?thesis
  proof (cases "free_fd (vld c) ?xs (unat (f_descs_cnt s ?p))")
    case (Some i)
    note f = free_fd_Some [OF Some]
    let ?s = "s\<lparr>fd_arrays := (fd_arrays s)(f_descs s ?p := ?xs[i := node])\<rparr>"
    have "install_fd c node s = Inr (of_nat i, ?s)"
      using x f Some by (simp add: install_fd_def set_fd_def Let_def fd_table_def)
    moreover have "cur ?s = cur s" "cur_proc ?s = cur_proc s" by (simp_all add: cur_def cur_proc_def)
    ultimately show ?thesis using f ok
      by (intro exI [of _ i] exI [of _ ?s]) (auto simp: fd_ok_def fd_table_def upd_conv_take_nth_drop)
  next
    case None
    have all: "\<forall>j < length ?xs. vld c (?xs ! j)" using free_fd_None [OF None] len by auto
    have old: "(if vld c (f_descs s ?p) then take (unat (f_descs_cnt s ?p)) ?xs else []) = ?xs"
      using ok len by (auto simp: fd_ok_def)
    let ?s = "s\<lparr>files := (files s)\<lparr>Vfs.avail := as\<rparr>, f_descs := (f_descs s)(?p := a),
       f_descs_cnt := (f_descs_cnt s)(?p := f_descs_cnt s ?p + 1), fd_arrays := (fd_arrays s)(a := ?xs @ [node])\<rparr>"
    have c: "cur ?s = cur s" "cur_proc ?s = cur_proc s" by (simp_all add: cur_def cur_proc_def)
    have n1: "unat (f_descs_cnt s ?p + 1) = unat (f_descs_cnt s ?p) + 1"
      using room by (metis add.commute eq_neg_iff_add_eq_0 unatSuc Suc_eq_plus1 add.right_neutral)
    let ?s1 = "s\<lparr>files := (files s)\<lparr>Vfs.avail := as\<rparr>, f_descs := (f_descs s)(?p := a),
       f_descs_cnt := (f_descs_cnt s)(?p := f_descs_cnt s ?p + 1), fd_arrays := (fd_arrays s)(a := ?xs @ [0])\<rparr>"
    have k: "on_files Vfs.kalloc s = Inr (a, s\<lparr>files := (files s)\<lparr>Vfs.avail := as\<rparr>\<rparr>)"
      by (simp add: on_files_def Vfs.kalloc_def mem(1))
    have c1: "cur ?s1 = ?p" by (simp add: cur_def)
    have st: "set_fd (unat (f_descs_cnt s ?p)) node ?s1 = Inr ?s"
      unfolding set_fd_def Let_def c1 by (simp add: len [symmetric] store_at_def)
    have old': "(if vld c (f_descs s ?p) then take (unat (f_descs_cnt s ?p)) (fd_arrays s (f_descs s ?p)) else []) = ?xs"
      using old by (simp only: fd_table_def)
    have none': "free_fd (vld c) (fd_arrays s (f_descs s ?p)) (unat (f_descs_cnt s ?p)) = None"
      using None by (simp only: fd_table_def)
    have "install_fd c node s = Inr (of_nat (length ?xs), ?s)"
      using st by (simp add: install_fd_def x none' old' k len Let_def)
    then show ?thesis using all c ok mem(2) len n1
      by (intro exI [of _ "length ?xs"] exI [of _ ?s]) (simp add: fd_ok_def fd_table_def)
  qed
qed


definition sys_one :: sys where
  "sys_one = \<lparr>kern = sched_one\<lparr>current_process := 100\<rparr>, files = vfs_example, ftab = fstab_example, pmem = kmem_example,
     kint = \<lparr>irq_handlers = replicate 16 0, isr_handlers = replicate 256 0, interrupt_locker = 0, iolog = []\<rparr>,
     f_descs = (\<lambda>_. 800), f_descs_cnt = (\<lambda>_. 2), fd_arrays = (\<lambda>_. [300, 0]), spaces = (\<lambda>_ _. 0), page_maps = [],
     new_pages = [], pipe_calls = [], shmem_maps = [], syscalls = replicate 128 None\<rparr>"

definition cfg_one :: cfg where
  "cfg_one = \<lparr>vld = (\<lambda>p. p \<noteq> 0), drained = (\<lambda>_. True), fuel = 10, node_ioctls = (\<lambda>_. None), port_dev = (\<lambda>_ _. 0),
     fresh_pd = (\<lambda>_. 0), view = (\<lambda>_ m. m), proc_node = (\<lambda>_. 0), root_node = 100, exported = \<lparr>symtable.entries = [], last_sym = 0\<rparr>, junk = 0\<rparr>"

lemma sys_one_simps [simp]: "cur sys_one = 100" "cur_proc sys_one = Inr proc_one" "fd_table sys_one = [300, 0]"
  "fd_ok cfg_one sys_one" "vld cfg_one p \<longleftrightarrow> p \<noteq> 0" "f_descs_cnt sys_one p = 2" "files sys_one = vfs_example"
  "ftab sys_one = fstab_example"
  by (simp_all add: sys_one_def cfg_one_def cur_def cur_proc_def fd_table_def fd_ok_def sched_one_def get_proc_def)


text \<open>What \<open>write\<close> puts into an open file \<open>read\<close> gives back. For a number with a node of the virtual file
  system that was opened for both, the calls return the size and the bytes of the second buffer become
  those of the first.\<close>

theorem sys_write_read:
  assumes fd: "fd_node fd s = Inr (Some node)" "nodes (files s) node = Some x" "open_flags x AND F_READ \<noteq> 0" "open_flags x AND F_WRITE \<noteq> 0"
    and r: "real_node node (files s) = Inr r" "vld c r" "nodes (files s) r = Some n" "inode n \<noteq> 0"
    and f: "get_fs (ftab s) (fsid n) = Inr f" "fread f = Some vfs_read" "fwrite f = Some vfs_write"
    and ap: "apart (inode n + ucast (file_offset oh ol)) (unat sz) src (unat sz)"
      "apart dst (unat sz) (inode n + ucast (file_offset oh ol)) (unat sz)"
  shows "\<exists>s1 s2. sys_write c fd oh ol sz src s = Inr (sz, s1) \<and> sys_read c fd oh ol sz dst s1 = Inr (sz, s2)
     \<and> (\<forall>i < unat sz. mem (files s2) (dst + of_nat i) = mem (files s) (src + of_nat i))"
proof -
  obtain v1 v2 where v: "kwrite (vld c) (ftab s) node (file_offset oh ol) sz src (files s) = Inr (sz, v1)"
      "kread (vld c) (ftab s) node (file_offset oh ol) sz dst v1 = Inr (sz, v2)"
      "\<forall>i < unat sz. mem v2 (dst + of_nat i) = mem (files s) (src + of_nat i)"
    using kwrite_kread [where v = "vld c" and s = "files s" and node = node and offset = "file_offset oh ol", OF r(1) r(1) r(2-4) f ap] by blast
  have n1: "nodes v1 = nodes (files s)" using v(1) r f by (auto simp: kwrite_def vfs_write_def get_node_def copy_mem_def split: sum.splits)
  let ?s1 = "s\<lparr>files := v1\<rparr>" and ?s2 = "s\<lparr>files := v2\<rparr>"
  have "sys_write c fd oh ol sz src s = Inr (sz, ?s1)"
    using fd v(1) by (simp add: sys_write_def get_node_def on_files_def)
  moreover have "fd_node fd ?s1 = Inr (Some node)" using fd(1) by simp
  then have "sys_read c fd oh ol sz dst ?s1 = Inr (sz, ?s2)"
    using fd(2,3) v(2) n1 by (simp add: sys_read_def get_node_def on_files_def)
  ultimately show ?thesis using v(3) by (intro exI [of _ ?s1] exI [of _ ?s2]) simp
qed

lemma sys_write_read_witness:
  "\<exists>s1 s2. sys_write cfg_one 0 0 2 1 5000 (sys_one\<lparr>files := vfs_example\<lparr>nodes := [300 \<mapsto> node_at [100] 400\<lparr>inode := 1000, open_flags := 3\<rparr>],
       mem := (\<lambda>_. 0)(5000 := 42)\<rparr>\<rparr>) = Inr (1, s1)
     \<and> sys_read cfg_one 0 0 2 1 6000 s1 = Inr (1, s2) \<and> mem (files s2) 6000 = 42"
proof -
  let ?x = "node_at [100] 400\<lparr>inode := 1000, open_flags := 3\<rparr>"
  let ?s = "sys_one\<lparr>files := vfs_example\<lparr>nodes := [300 \<mapsto> ?x], mem := (\<lambda>_. 0)(5000 := 42)\<rparr>\<rparr>"
  have "fd_node 0 ?s = Inr (Some 300)" by (simp add: fd_node_table [of cfg_one])
  moreover have "real_node 300 (files ?s) = Inr 300" by (simp add: real_node_def get_node_def node_at_def vfs_check_flag_def)
  ultimately show ?thesis
    using sys_write_read [of 0 ?s 300 ?x 300 cfg_one ?x no_fs 0 2 1 5000 6000]
    by (auto simp: node_at_def fstab_example_def get_fs_def no_fs_def apart_def no_wrap_def file_offset_def)
qed

text \<open>\<open>close\<close> leaves a null pointer under a number that is still below the count, and \<open>read\<close> and \<open>write\<close>
  follow it: after a close, either call on that number accesses memory through a null pointer.\<close>

theorem closed_number_faults:
  assumes "fd_ok c s" "unat fd < length (fd_table s)" "vld c (fd_table s ! unat fd)" "nodes (files s) 0 = None"
  shows "\<exists>s'. sys_close c fd s = Inr (0, s') \<and> sys_read c fd oh ol sz buf s' = Inl Wild \<and> sys_write c fd oh ol sz buf s' = Inl Wild"
proof -
  let ?s = "s\<lparr>fd_arrays := (fd_arrays s)(f_descs s (cur s) := (fd_table s)[unat fd := 0])\<rparr>"
  have "sys_close c fd s = Inr (0, ?s)"
    using assms fd_node_table [OF assms(1), of fd]
    by (simp add: sys_close_def set_fd_def Let_def kclose_def fd_table_def)
  moreover have "cur ?s = cur s" "cur_proc ?s = cur_proc s" by (simp_all add: cur_def cur_proc_def)
  then have "fd_node fd ?s = Inr (Some 0)"
    using assms(1,2) by (auto simp: fd_node_def fd_ok_def word_le_nat_alt)
  ultimately show ?thesis using assms(4) by (intro exI [of _ ?s]) (simp add: sys_read_def sys_write_def get_node_def)
qed

lemma closed_number_faults_witness:
  "\<exists>s'. sys_close cfg_one 0 sys_one = Inr (0, s') \<and> sys_read cfg_one 0 0 0 1 6000 s' = Inl Wild
     \<and> sys_write cfg_one 0 0 0 1 6000 s' = Inl Wild"
  by (rule closed_number_faults) (simp_all add: vfs_example_def)

subsection \<open>The dispatcher\<close>

text \<open>C17: a system call returns its value in \<open>eax\<close>. If the number in \<open>eax\<close> has a handler, the handler runs with
  the five argument registers and interrupts locked, and if the same process is still current afterwards,
  \<open>eax\<close> of the interrupt frame noted for it becomes the handler's value, and the lock is released.\<close>

theorem syscall_returns_value:
  assumes g: "frames (kern s) r = Some g" "eax g < 128" "length (syscalls s) = 128" "syscalls s ! unat (eax g) = Some fn"
    and x: "procs (kern s) (cur s) = Some x"
    and run: "run_sysfn c mk fn (ebx g) (ecx g) (edx g) (esi g) (edi g)
        (s\<lparr>kint := lock_interrupts (kint s), kern := (kern s)\<lparr>procs := (procs (kern s))(cur s \<mapsto> x\<lparr>syscall_state := r\<rparr>)\<rparr>\<rparr>)
      = Some (Inr (ret, s1))"
    and same: "cur s1 = cur s" "procs (kern s1) (cur s) = Some y" "frames (kern s1) (syscall_state y) = Some f"
  shows "\<exists>s2. syscall_handler c mk r s = Some (Inr s2) \<and> frames (kern s2) = (frames (kern s1))(syscall_state y \<mapsto> f\<lparr>eax := ret\<rparr>)
     \<and> interrupt_locker (kint s2) = 0 \<and> files s2 = files s1 \<and> procs (kern s2) = procs (kern s1)"
proof -
  have "unat (eax g) < 128" using g(2) by (simp add: word_less_nat_alt)
  moreover have "cur_proc s1 = Inr y" using same by (simp add: cur_proc_def get_proc_def)
  moreover have "cur (s\<lparr>kint := lock_interrupts (kint s)\<rparr>) = cur s" by (simp add: cur_def)
  ultimately show ?thesis using g x run same
    by (simp add: syscall_handler_def get_frame_def upd_proc_def get_proc_def Let_def linorder_not_le [symmetric] set_eax_def
      unlock_interrupts_def)
qed

lemma syscall_returns_value_witness:
  "\<exists>s2. syscall_handler cfg_one (\<lambda>_. 0) 300 (sys_one\<lparr>kern := (kern sys_one)\<lparr>frames := [300 \<mapsto> zero_regs\<lparr>eax := 23\<rparr>]\<rparr>,
         syscalls := (replicate 128 None)[23 := Some SysGetpid]\<rparr>) = Some (Inr s2)
     \<and> frames (kern s2) 300 = Some (zero_regs\<lparr>eax := 2\<rparr>)"
proof -
  let ?s = "sys_one\<lparr>kern := (kern sys_one)\<lparr>frames := [300 \<mapsto> zero_regs\<lparr>eax := 23\<rparr>]\<rparr>,
         syscalls := (replicate 128 None)[23 := Some SysGetpid]\<rparr>"
  let ?s1 = "?s\<lparr>kint := lock_interrupts (kint ?s), kern := (kern ?s)\<lparr>procs := (procs (kern ?s))(cur ?s \<mapsto> proc_one\<lparr>syscall_state := 300\<rparr>)\<rparr>\<rparr>"
  have c: "cur ?s = 100" "cur ?s1 = 100" by (simp_all add: cur_def sys_one_def)
  have "run_sysfn cfg_one (\<lambda>_. 0) SysGetpid 0 0 0 0 0 ?s1 = Some (Inr (2, ?s1))"
    using c by (simp add: run_sysfn_def sys_getpid_def cur_proc_def get_proc_def proc_one_def)
  then show ?thesis
    using syscall_returns_value [of ?s 300 "zero_regs\<lparr>eax := 23\<rparr>" SysGetpid proc_one cfg_one "\<lambda>_. 0" 2 ?s1
        "proc_one\<lparr>syscall_state := 300\<rparr>" "zero_regs\<lparr>eax := 23\<rparr>"] c
    by (auto simp: zero_regs_def sys_one_def sched_one_def)
qed

text \<open>A call with a number out of range returns with the interrupts still locked; until the next system
  call or interrupt ends, \<open>disable_interrupts\<close> and \<open>enable_interrupts\<close> do nothing.\<close>

theorem bad_number_stays_locked:
  assumes "frames (kern s) r = Some g" "128 \<le> eax g"
  shows "\<exists>s2. syscall_handler c mk r s = Some (Inr s2) \<and> kern s2 = kern s
     \<and> disable_interrupts (kint s2) = kint s2 \<and> enable_interrupts (kint s2) = kint s2"
  using assms by (simp add: syscall_handler_def get_frame_def lock_interrupts_def disable_interrupts_def enable_interrupts_def)

lemma bad_number_stays_locked_witness:
  "\<exists>s2. syscall_handler cfg_one (\<lambda>_. 0) 300 (sys_one\<lparr>kern := sched_one\<lparr>frames := [300 \<mapsto> zero_regs\<lparr>eax := 200\<rparr>]\<rparr>\<rparr>) = Some (Inr s2)
     \<and> kern s2 = sched_one\<lparr>frames := [300 \<mapsto> zero_regs\<lparr>eax := 200\<rparr>]\<rparr> \<and> enable_interrupts (kint s2) = kint s2"
  using bad_number_stays_locked [of "sys_one\<lparr>kern := sched_one\<lparr>frames := [300 \<mapsto> zero_regs\<lparr>eax := 200\<rparr>]\<rparr>\<rparr>" 300
      "zero_regs\<lparr>eax := 200\<rparr>" cfg_one "\<lambda>_. 0"]
  by auto

subsection \<open>Growing the heap\<close>

lemma grow_heap_maps:
  "procs (kern s) p = Some x \<Longrightarrow> pdir x \<noteq> 0 \<Longrightarrow> \<exists>s'. grow_heap p frame k s = Inr s'
     \<and> page_maps s' = page_maps s @ List.map (\<lambda>i. (pdir x, uheap x + heap_size x + 4096 * of_nat i, frame)) [0..<k]
     \<and> procs (kern s') = (procs (kern s))(p \<mapsto> x\<lparr>heap_size := heap_size x + 4096 * of_nat k\<rparr>) \<and> pmem s' = pmem s
     \<and> current_process (kern s') = current_process (kern s)"
proof (induction k arbitrary: s x)
  case 0
  then show ?case by (auto simp: fun_eq_iff)
next
  case (Suc k)
  let ?x = "heap_size_update (\<lambda>h. h + 4096) x"
  let ?s = "s\<lparr>kern := (kern s)\<lparr>page_dir := pdir x, procs := (procs (kern s))(p \<mapsto> ?x)\<rparr>,
    page_maps := page_maps s @ [(pdir x, uheap x + heap_size x, frame)]\<rparr>"
  have "grow_heap p frame (Suc k) s = grow_heap p frame k ?s"
    using Suc.prems by (simp add: get_proc_def upd_proc_def load_pd_def)
  moreover have p: "procs (kern ?s) p = Some ?x" "pdir ?x \<noteq> 0" using Suc.prems by simp_all
  moreover obtain s' where "grow_heap p frame k ?s = Inr s'"
     "page_maps s' = page_maps ?s @ List.map (\<lambda>i. (pdir ?x, uheap ?x + heap_size ?x + 4096 * of_nat i, frame)) [0..<k]"
     "procs (kern s') = (procs (kern ?s))(p \<mapsto> ?x\<lparr>heap_size := heap_size ?x + 4096 * of_nat k\<rparr>)" "pmem s' = pmem ?s"
     "current_process (kern s') = current_process (kern ?s)"
    using Suc.IH [OF p] by blast
  moreover have "?x\<lparr>heap_size := heap_size ?x + 4096 * of_nat k\<rparr> = x\<lparr>heap_size := heap_size x + 4096 * of_nat (Suc k)\<rparr>"
    by (simp add: algebra_simps)
  ultimately show ?case
    by (intro exI [of _ s']) (simp add: upt_conv_Cons map_Suc_upt [symmetric] algebra_simps del: upt_Suc)
qed

text \<open>A heap grows by pages that are all the same page. \<open>sbrk\<close> of a process alone in its group takes one
  frame, whatever the size, and maps it at each page by which the heap grows; and it returns the start of
  the heap, not that of the new space.\<close>

theorem sbrk_maps_one_frame:
  assumes x: "procs (kern s) (cur s) = Some x" "grps (kern s) (group x) = Some g" "members g = [cur s]" "cur s \<noteq> 0"
    and pd: "pdir x \<noteq> 0" and frame: "kfalloc (pmem s) = Inr (frame, pm)" and sz: "sz \<le> 0xFFFFF000"
  shows "\<exists>s'. sys_sbrk sz s = Some (Inr (uheap x, s'))
     \<and> page_maps s' = page_maps s
          @ List.map (\<lambda>i. (pdir x, uheap x + heap_size x + 4096 * of_nat i, frame)) [0..<(unat sz + 4095) div 4096]
     \<and> procs (kern s') (cur s) = Some (x\<lparr>heap_size := heap_size x + 4096 * of_nat ((unat sz + 4095) div 4096)\<rparr>)
     \<and> pmem s' = pm"
proof -
  let ?n = "(unat sz + 4095) div 4096" and ?s = "s\<lparr>pmem := pm\<rparr>"
  have c: "cur ?s = cur s" by (simp add: cur_def)
  obtain s' where s': "grow_heap (cur s) frame ?n ?s = Inr s'"
     "page_maps s' = page_maps ?s @ List.map (\<lambda>i. (pdir x, uheap x + heap_size x + 4096 * of_nat i, frame)) [0..<?n]"
     "procs (kern s') = (procs (kern ?s))(cur s \<mapsto> x\<lparr>heap_size := heap_size x + 4096 * of_nat ?n\<rparr>)" "pmem s' = pmem ?s"
     "current_process (kern s') = current_process (kern ?s)"
    using grow_heap_maps [of ?s "cur s" x frame ?n] x(1) pd by auto
  then have cp: "cur_proc s' = Inr (x\<lparr>heap_size := heap_size x + 4096 * of_nat ?n\<rparr>)"
    by (simp add: cur_proc_def cur_def get_proc_def)
  have "sys_sbrk sz s = Some (Inr (uheap x, s'\<lparr>kern := load_pd (pdir x) (kern s')\<rparr>))"
    using x frame sz s'(1) cp by (simp add: sys_sbrk_def cur_proc_def get_proc_def get_grp_def linorder_not_le [symmetric])
  then show ?thesis using s' by (simp add: load_pd_def)
qed

lemma sbrk_maps_one_frame_witness:
  "\<exists>s'. sys_sbrk 0x1800 (sys_one\<lparr>pmem := kmem_example\<rparr>) = Some (Inr (0, s'))
     \<and> page_maps s' = [(7000, 0, 0x401000), (7000, 4096, 0x401000)]"
proof -
  have "\<exists>pm. kfalloc kmem_example = Inr (0x401000, pm)"
    by (simp add: kfalloc_def k_frame_stack_pop_def pmm_count_def kmem_example_def word_le_nat_alt)
  then obtain pm where "kfalloc kmem_example = Inr (0x401000, pm)" by blast
  then show ?thesis
    using sbrk_maps_one_frame [of "sys_one\<lparr>pmem := kmem_example\<rparr>" proc_one group_one "0x401000" pm "0x1800"]
    by (auto simp: sys_one_def sched_one_def proc_one_def group_one_def cur_def upt_rec)
qed

end
