(* ===== verification/Fd_Table.thy ===== *)
theory Fd_Table
  imports Syscall
begin

text \<open>
  What the table of open files of the running process goes through between two process switches: the system
  calls on files that return as a step relation, and the invariant that every such run keeps. A call that faults is no
  step: \<open>sys_assign\<close> is the one that leaves the table, since it does not check its numbers.
\<close>

lemma res_bind_eq_Inr_iff:
  "res_bind m f = Some (Inr y) \<longleftrightarrow> (\<exists>x. m = Some (Inr x) \<and> f x = Some (Inr y))"
  by (auto simp: res_bind_def split: option.splits sum.splits)

lemmas run_iffs = sbind_eq_Inr_iff res_bind_eq_Inr_iff Option.bind_eq_Some_conv

definition file_calls :: "sysfn set" where
  "file_calls = {SysRead, SysWrite, SysOpen, SysClose, SysIoctl, SysReaddir, SysAssign, SysGetcwd, SysChdir, SysLink, SysPipe,
     SysFstat}"

text \<open>The kernel heap gives valid addresses for a table, and a process opens fewer than \<open>2 ^ 32 - 1\<close> files.\<close>

inductive file_step :: "cfg \<Rightarrow> (cstring \<Rightarrow> u32) \<Rightarrow> sys \<Rightarrow> sys \<Rightarrow> bool" for c mk where
  file_call: "file_step c mk s s'"
    if "fn \<in> file_calls" "run_sysfn c mk fn a b d e f s = Some (Inr (r, s'))" "f_descs_cnt s (cur s) \<noteq> - 1"
      "fd_table s' \<noteq> [] \<longrightarrow> vld c (f_descs s' (cur s'))"

inductive_cases file_stepE: "file_step c mk s s'"

lemma fd_ok_cong:
  "cur s' = cur s \<Longrightarrow> (\<exists>x. cur_proc s = Inr x) \<longrightarrow> (\<exists>x. cur_proc s' = Inr x) \<Longrightarrow> f_descs s' = f_descs s \<Longrightarrow> f_descs_cnt s' = f_descs_cnt s
    \<Longrightarrow> fd_arrays s' = fd_arrays s \<Longrightarrow> fd_ok c s \<Longrightarrow> fd_ok c s'"
  by (auto simp: fd_ok_def fd_table_def)

lemma on_files_iff: "on_files f s = Inr (r, s') \<longleftrightarrow> (\<exists>v. f (files s) = Inr (r, v) \<and> s' = s\<lparr>files := v\<rparr>)"
  by (auto simp: on_files_def sbind_eq_Inr_iff)

lemma set_fd_fd_ok: "set_fd i n s = Inr s' \<Longrightarrow> fd_ok c s \<Longrightarrow> fd_ok c s'"
  by (auto simp: set_fd_def Let_def run_iffs fd_ok_def fd_table_def cur_def cur_proc_def store_at_def split: if_splits)

lemma set_mem_fd_ok [simp]: "fd_ok c (set_mem m s) = fd_ok c s"
  by (simp add: set_mem_def)

lemma sys_close_fd_ok: "sys_close c fd s = Inr (r, s') \<Longrightarrow> fd_ok c s \<Longrightarrow> fd_ok c s'"
  by (auto simp: sys_close_def run_iffs split: option.splits if_splits dest!: set_fd_fd_ok [where c = c])

lemma install_fd_fd_ok:
  assumes run: "install_fd c node s = Inr (r, s')" and ok: "fd_ok c s" and room: "f_descs_cnt s (cur s) \<noteq> - 1"
    and heap: "fd_table s' \<noteq> [] \<longrightarrow> vld c (f_descs s' (cur s'))"
  shows "fd_ok c s'"
proof (cases "free_fd (vld c) (fd_arrays s (f_descs s (cur s))) (unat (f_descs_cnt s (cur s)))")
  case (Some i)
  then show ?thesis using run ok
    by (auto simp: install_fd_def run_iffs Let_def dest!: set_fd_fd_ok [where c = c])
next
  case None
  have len: "length (fd_arrays s (f_descs s (cur s))) = unat (f_descs_cnt s (cur s))"
    and v: "fd_arrays s (f_descs s (cur s)) \<noteq> [] \<longrightarrow> vld c (f_descs s (cur s))" and x: "\<exists>x. cur_proc s = Inr x"
    using ok by (auto simp: fd_ok_def fd_table_def)
  have n1: "unat (f_descs_cnt s (cur s) + 1) = Suc (unat (f_descs_cnt s (cur s)))"
    using room by (metis add.commute eq_neg_iff_add_eq_0 unatSuc)
  let ?old = "if vld c (f_descs s (cur s)) then take (unat (f_descs_cnt s (cur s))) (fd_arrays s (f_descs s (cur s))) else []"
  have old: "length ?old = unat (f_descs_cnt s (cur s))" using len v by auto
  obtain y where y: "cur_proc s = Inr y" using x by blast
  obtain p w where k: "Vfs.kalloc (files s) = Inr (p, w)"
    using run None y by (cases "Vfs.kalloc (files s)") (auto simp: install_fd_def on_files_def Let_def)
  let ?s1 = "s\<lparr>files := w, f_descs := (f_descs s)(cur s := p), f_descs_cnt := (f_descs_cnt s)(cur s := f_descs_cnt s (cur s) + 1),
      fd_arrays := (fd_arrays s)(p := ?old @ [0])\<rparr>"
  have c1: "cur ?s1 = cur s" by (simp add: cur_def)
  have "set_fd (unat (f_descs_cnt s (cur s))) node ?s1
      = Inr (?s1\<lparr>fd_arrays := (fd_arrays s)(p := (?old @ [0])[unat (f_descs_cnt s (cur s)) := node])\<rparr>)"
    unfolding set_fd_def Let_def c1 using old by (simp add: store_at_def)
  then have "install_fd c node s
      = Inr (f_descs_cnt s (cur s), ?s1\<lparr>fd_arrays := (fd_arrays s)(p := (?old @ [0])[unat (f_descs_cnt s (cur s)) := node])\<rparr>)"
    by (simp add: install_fd_def y None k on_files_def Let_def)
  then have "s' = ?s1\<lparr>fd_arrays := (fd_arrays s)(p := (?old @ [0])[unat (f_descs_cnt s (cur s)) := node])\<rparr>"
    using run by (metis sum.inject(2) prod.inject)
  then show ?thesis using old n1 heap x by (simp add: fd_ok_def fd_table_def cur_def cur_proc_def)
qed

lemma sys_open_fd_ok:
  "sys_open c path fl s = Some (Inr (r, s')) \<Longrightarrow> fd_ok c s \<Longrightarrow> f_descs_cnt s (cur s) \<noteq> - 1
    \<Longrightarrow> fd_table s' \<noteq> [] \<longrightarrow> vld c (f_descs s' (cur s')) \<Longrightarrow> fd_ok c s'"
proof -
  assume run: "sys_open c path fl s = Some (Inr (r, s'))" and ok: "fd_ok c s" "f_descs_cnt s (cur s) \<noteq> - 1"
    "fd_table s' \<noteq> [] \<longrightarrow> vld c (f_descs s' (cur s'))"
  obtain nm where nm: "read_str (mem (files s)) path = Some nm" using run by (auto simp: sys_open_def split: option.splits)
  obtain node w where "(if \<not> vld c node then Some (Inr (- 1, s\<lparr>files := w\<rparr>))
      else Some (sbind (get_node node w) (\<lambda>n. install_fd c node (s\<lparr>files := w, files := set_node node (n\<lparr>open_flags := ucast fl\<rparr>) w\<rparr>)))) = Some (Inr (r, s'))"
    using run unfolding sys_open_def nm option.case res_bind_eq_Inr_iff split_paired_Ex prod.case Let_def by blast
  then obtain w' where "s' = s\<lparr>files := w\<rparr> \<or> install_fd c node (s\<lparr>files := w'\<rparr>) = Inr (r, s')"
    by (auto simp: sbind_eq_Inr_iff split: if_splits)
  then show "fd_ok c s'" using ok install_fd_fd_ok [of c node "s\<lparr>files := w'\<rparr>" r s'] by auto
qed

lemma sys_assign_fd_ok: "sys_assign c a b s = Inr (r, s') \<Longrightarrow> fd_ok c s \<Longrightarrow> fd_ok c s'"
proof -
  assume run: "sys_assign c a b s = Inr (r, s')" and ok: "fd_ok c s"
  obtain r1 s1 r2 s2 r3 s3 w where st: "sys_close c a s = Inr (r1, s1)" "on_files Vfs.kalloc s1 = Inr (r2, s2)"
      "set_fd (unat a) r2 (s2\<lparr>files := w\<rparr>) = Inr s3" "sys_close c b s3 = Inr (r3, s')"
    using run unfolding sys_assign_def sbind_eq_Inr_iff split_paired_Ex prod.case by blast
  have "fd_ok c s1" by (rule sys_close_fd_ok [OF st(1) ok])
  then have "fd_ok c (s2\<lparr>files := w\<rparr>)" using st(2) by (auto simp: on_files_iff)
  from sys_close_fd_ok [OF st(4) set_fd_fd_ok [OF st(3) this]] show "fd_ok c s'" .
qed

lemma sys_chdir_fd_ok: "sys_chdir p s = Some (Inr (r, s')) \<Longrightarrow> fd_ok c s \<Longrightarrow> fd_ok c s'"
proof -
  assume run: "sys_chdir p s = Some (Inr (r, s'))" and ok: "fd_ok c s"
  obtain nm where nm: "read_str (mem (files s)) p = Some nm" using run by (auto simp: sys_chdir_def Option.bind_eq_Some_conv)
  obtain node w where st: "(if node = 0 then Inr (- 1, s\<lparr>files := w\<rparr>)
      else sbind (canonize_absolute nm) (\<lambda>full. if length full \<ge> 256 then Inl Wild
        else sbind (upd_proc (cur s) (\<lambda>x. x\<lparr>work_dir_abs := full, work_dir := node\<rparr>) (kern s)) (\<lambda>k.
          Inr (0, s\<lparr>files := w\<rparr>\<lparr>kern := k\<rparr>)))) = Inr (r, s')"
    using run by (cases "kseek (ftab s) nm (files s)") (auto simp: sys_chdir_def nm on_files_def cong: if_cong)
  show "fd_ok c s'"
  proof (cases "node = 0")
    case False
    then obtain k g where "upd_proc (cur s) g (kern s) = Inr k" "s' = s\<lparr>files := w\<rparr>\<lparr>kern := k\<rparr>"
      using st by (force simp: sbind_eq_Inr_iff split: if_splits)
    then show ?thesis using ok
      by (auto simp: upd_proc_def sbind_eq_Inr_iff fd_ok_def fd_table_def cur_def cur_proc_def get_proc_def split: option.splits)
  qed (use st ok in auto)
qed

lemma file_calls_fd_ok:
  "sys_read c a b d e f s = Inr (r, s') \<Longrightarrow> fd_ok c s \<Longrightarrow> fd_ok c s'"
  "sys_write c a b d e f s = Inr (r, s') \<Longrightarrow> fd_ok c s \<Longrightarrow> fd_ok c s'"
  "sys_ioctl c a b d s = Inr (r, s') \<Longrightarrow> fd_ok c s \<Longrightarrow> fd_ok c s'"
  "sys_readdir c a b d s = Inr (r, s') \<Longrightarrow> fd_ok c s \<Longrightarrow> fd_ok c s'"
  "sys_getcwd a b s = Inr (r, s') \<Longrightarrow> fd_ok c s \<Longrightarrow> fd_ok c s'"
  "sys_fstat c a b s = Inr (r, s') \<Longrightarrow> fd_ok c s \<Longrightarrow> fd_ok c s'"
  by (auto simp: sys_read_def sys_write_def sys_ioctl_def sys_readdir_def sys_getcwd_def sys_fstat_def run_iffs on_files_iff
      split: option.splits if_splits)

lemma name_calls_fd_ok:
  "sys_link a b s = Some (Inr (r, s')) \<Longrightarrow> fd_ok c s \<Longrightarrow> fd_ok c s'"
  "sys_pipe mk a b s = Some (Inr (r, s')) \<Longrightarrow> fd_ok c s \<Longrightarrow> fd_ok c s'"
  by (auto simp: sys_link_def run_iffs) (auto simp: sys_pipe_def run_iffs cur_def cur_proc_def intro: fd_ok_cong [of _ s])

lemma file_step_fd_ok: "file_step c mk s s' \<Longrightarrow> fd_ok c s \<Longrightarrow> fd_ok c s'"
  by (erule file_stepE) (auto simp: file_calls_def run_sysfn_def
      dest: file_calls_fd_ok name_calls_fd_ok sys_close_fd_ok sys_open_fd_ok sys_assign_fd_ok sys_chdir_fd_ok)

text \<open>What a well typed table is good for: closing and installing never leave it. \<open>sys_assign\<close> does not check its
  numbers, and faults when one is not in the table.\<close>

lemma fd_ok_close: "fd_ok c s \<Longrightarrow> \<exists>t. sys_close c fd s = Inr (0, t)"
  by (auto simp: sys_close_def fd_node_table [of c] fd_ok_def fd_table_def set_fd_def Let_def store_at_def cur_def)

lemma fd_ok_install:
  assumes "fd_ok c s" "Vfs.kalloc (files s) = Inr y"
  shows "\<exists>r. install_fd c node s = Inr r"
proof -
  obtain a w where y: "y = (a, w)" by fastforce
  have len: "length (fd_arrays s (f_descs s (cur s))) = unat (f_descs_cnt s (cur s))"
    and v: "fd_arrays s (f_descs s (cur s)) \<noteq> [] \<longrightarrow> vld c (f_descs s (cur s))" and x: "\<exists>x. cur_proc s = Inr x"
    using assms(1) by (auto simp: fd_ok_def fd_table_def)
  show ?thesis
  proof (cases "free_fd (vld c) (fd_arrays s (f_descs s (cur s))) (unat (f_descs_cnt s (cur s)))")
    case (Some i)
    then show ?thesis using x free_fd_Some [OF Some] by (auto simp: install_fd_def Let_def set_fd_def store_at_def)
  next
    case None
    then show ?thesis using x len v assms(2) y
      by (auto simp: install_fd_def Let_def set_fd_def store_at_def on_files_def cur_def)
  qed
qed

lemma fd_ok_assign:
  assumes ok: "fd_ok c s" and run: "sys_assign c d a s = Inr r"
  shows "unat d < length (fd_table s) \<and> unat a < length (fd_table s)"
proof -
  obtain r1 s1 r2 s2 w x s3 where st: "sys_close c d s = Inr (r1, s1)" "on_files Vfs.kalloc s1 = Inr (r2, s2)"
      "load_at (fd_arrays s2 (f_descs s2 (cur s2))) (unat a) = Inr x" "set_fd (unat d) r2 (s2\<lparr>files := w\<rparr>) = Inr s3"
    using run unfolding sys_assign_def sbind_eq_Inr_iff split_paired_Ex prod.case by blast
  have "f_descs_cnt s1 = f_descs_cnt s \<and> cur s1 = cur s"
    using st(1) by (auto simp: sys_close_def sbind_eq_Inr_iff set_fd_def Let_def cur_def split: option.splits if_splits)
  moreover have "fd_ok c s1" by (rule sys_close_fd_ok [OF st(1) ok])
  ultimately have "length (fd_table s1) = length (fd_table s)" using ok by (simp add: fd_ok_def)
  moreover have "s2 = s1\<lparr>files := files s2\<rparr>" using st(2) by (auto simp: on_files_iff)
  then have "fd_table s2 = fd_table s1" "fd_table (s2\<lparr>files := w\<rparr>) = fd_table s1" by (metis cur_files(3))+
  ultimately have "length (fd_arrays s2 (f_descs s2 (cur s2))) = length (fd_table s)" by (simp add: fd_table_def)
  then show ?thesis using st(3,4) by (auto simp: load_at_def set_fd_def Let_def store_at_def cur_def split: if_splits)
qed

text \<open>C19: the table of open files stays well typed. After any sequence of file calls that return (open, close, read,
  write, ioctl, readdir, assign, getcwd, chdir, link, pipe, fstat, with any arguments; a call that faults ends the
  sequence), if the kernel heap gives valid addresses for a table and the process opens fewer than 2^32 - 1 files,
  the running process's table has exactly the counted number of slots, at a valid address if it has any. So looking a
  number up and closing it never reads or writes a slot that is not there, whatever the number, nor does
  installing a new file while the heap has blocks. \<open>sys_assign\<close> is the exception: it checks neither number, so
  it faults unless both are in the table.\<close>

theorem file_calls_keep_table:
  assumes "(file_step c mk)\<^sup>*\<^sup>* s s'" and "fd_ok c s"
  shows "fd_ok c s' \<and> fd_node fd s' = Inr (if unat fd < length (fd_table s') then Some (fd_table s' ! unat fd) else None)
    \<and> (\<exists>t. sys_close c fd s' = Inr (0, t))
    \<and> (Vfs.kalloc (files s') = Inr y \<longrightarrow> (\<exists>r. install_fd c node s' = Inr r))
    \<and> (sys_assign c dest src s' = Inr r \<longrightarrow> unat dest < length (fd_table s') \<and> unat src < length (fd_table s'))"
proof -
  from assms have ok: "fd_ok c s'"
  proof induction
    case (step s' s'')
    then show ?case using file_step_fd_ok by blast
  qed
  then show ?thesis using fd_node_table fd_ok_close fd_ok_install fd_ok_assign by blast
qed

lemma file_calls_keep_table_witness:
  "\<exists>s'. file_step cfg_one (\<lambda>_. 0) sys_one s' \<and> fd_ok cfg_one s' \<and> fd_table s' = [0, 0] \<and> (\<forall>r. sys_assign cfg_one 1 2 s' \<noteq> Inr r)"
proof -
  let ?s = "sys_one\<lparr>files := kclose 300 (files sys_one), fd_arrays := (fd_arrays sys_one)(800 := [0, 0])\<rparr>"
  have d: "f_descs sys_one 100 = 800" "fd_arrays sys_one 800 = [300, 0]" by (simp_all add: sys_one_def)
  have t: "fd_table ?s = [0, 0]" "cur ?s = 100" "f_descs ?s 100 = 800"
    using sys_one_simps(1) by (simp_all add: fd_table_def cur_def d)
  have "run_sysfn cfg_one (\<lambda>_. 0) SysClose 0 0 0 0 0 sys_one = Some (Inr (0, ?s))"
    by (simp add: run_sysfn_def sys_close_def fd_node_table [of cfg_one] set_fd_def Let_def store_at_def d)
  then have st: "file_step cfg_one (\<lambda>_. 0) sys_one ?s"
    using t by (intro file_call [of SysClose]) (auto simp: file_calls_def)
  have "fd_ok cfg_one sys_one" by simp
  note keep = file_calls_keep_table [OF r_into_rtranclp [where r = "file_step cfg_one (\<lambda>_. 0)", OF st] this, where dest = 1 and src = 2]
  have "\<not> unat (2 :: u32) < length (fd_table ?s)" unfolding t(1) by simp
  then have "sys_assign cfg_one 1 2 ?s \<noteq> Inr r" for r using keep [of 0 _ 0 r] by blast
  then show ?thesis using st t(1) keep by blast
qed

end
