(* ===== verification/Libcall.thy ===== *)
theory Libcall
  imports Syscall
begin

text \<open>
  The user side of the system calls: the stub \<open>sys_call\<close> (\<open>libc/syscall.asm\<close>), which puts the number and
  the arguments into registers and raises interrupt 127, and the functions of \<open>libc/include/sys/syscall.h\<close>
  over it. Interrupt 127 stores the registers in a frame and runs the dispatcher of theory Syscall on it.
  After a call that gives the processor to another process the caller goes on when it is chosen again;
  what the other processes do meanwhile is an argument. \<open>None\<close> is a call that does not return.
\<close>

subsection \<open>The stub\<close>

text \<open>What a call depends on beside the state: the kernel's configuration, the nodes of new pipes, the place of
  the interrupt frame on the kernel stack, the caller's other registers, and the state in which the caller
  goes on after others have run.\<close>

record uenv =
  kcfg :: cfg
  mkpipe :: "cstring \<Rightarrow> u32"
  uframe :: u32
  uregs :: regs
  resumed :: "sys \<Rightarrow> sys option"

definition sys_call :: "uenv \<Rightarrow> u32 \<Rightarrow> u32 \<Rightarrow> u32 \<Rightarrow> u32 \<Rightarrow> u32 \<Rightarrow> u32 \<Rightarrow> sys \<Rightarrow> (u32 \<times> sys) res option" where
  "sys_call E n a b c d e s =
     (let g = (uregs E)\<lparr>eax := n, ebx := a, ecx := b, edx := c, esi := d, edi := e\<rparr>;
          s0 = s\<lparr>kern := (kern s)\<lparr>frames := (frames (kern s))(uframe E \<mapsto> g)\<rparr>\<rparr>
      in res_bind (syscall_handler (kcfg E) (mkpipe E) (uframe E) s0) (\<lambda>s1.
           Option.bind (if cur s1 = cur s then Some s1 else resumed E s1) (\<lambda>s2.
             Some (sbind (get_frame (uframe E) (kern s2)) (\<lambda>g. Inr (eax g, s2))))))"

subsection \<open>The functions of the library\<close>

definition u_read :: "uenv \<Rightarrow> u32 \<Rightarrow> u64 \<Rightarrow> u32 \<Rightarrow> u32 \<Rightarrow> sys \<Rightarrow> (u32 \<times> sys) res option" where
  "u_read E fd offset sz buffer =
     (let offs_high = ucast (drop_bit 32 offset); offs_low = ucast offset
      in sys_call E 1 fd offs_high offs_low sz buffer)"

definition u_write :: "uenv \<Rightarrow> u32 \<Rightarrow> u64 \<Rightarrow> u32 \<Rightarrow> u32 \<Rightarrow> sys \<Rightarrow> (u32 \<times> sys) res option" where
  "u_write E fd offset sz buffer =
     (let offs_high = ucast (drop_bit 32 offset); offs_low = ucast offset
      in sys_call E 2 fd offs_high offs_low sz buffer)"

definition u_open :: "uenv \<Rightarrow> u32 \<Rightarrow> u8 \<Rightarrow> sys \<Rightarrow> (u32 \<times> sys) res option" where
  "u_open E path fl = sys_call E 3 path (ucast fl) 0 0 0"

definition u_close :: "uenv \<Rightarrow> u32 \<Rightarrow> sys \<Rightarrow> (u32 \<times> sys) res option" where
  "u_close E fd = sys_call E 4 fd 0 0 0 0"

definition u_readdir :: "uenv \<Rightarrow> u32 \<Rightarrow> u32 \<Rightarrow> u32 \<Rightarrow> sys \<Rightarrow> (u32 \<times> sys) res option" where
  "u_readdir E fd index ptr = sys_call E 9 fd index ptr 0 0"

definition u_exec :: "uenv \<Rightarrow> u32 \<Rightarrow> u32 \<Rightarrow> u32 \<Rightarrow> sys \<Rightarrow> (u32 \<times> sys) res option" where
  "u_exec E path argv envp = sys_call E 6 path argv envp 0 0"

definition u_ioctl :: "uenv \<Rightarrow> u32 \<Rightarrow> u32 \<Rightarrow> u32 \<Rightarrow> sys \<Rightarrow> (u32 \<times> sys) res option" where
  "u_ioctl E fd req argp = sys_call E 8 fd req argp 0 0"

definition u_exit :: "uenv \<Rightarrow> u32 \<Rightarrow> sys \<Rightarrow> (u32 \<times> sys) res option" where
  "u_exit E code = sys_call E 11 code 0 0 0 0"

definition u_fswait :: "uenv \<Rightarrow> u32 \<Rightarrow> u32 \<Rightarrow> sys \<Rightarrow> (u32 \<times> sys) res option" where
  "u_fswait E fds cnt = sys_call E 10 fds cnt 0 0 0"

definition u_yield :: "uenv \<Rightarrow> sys \<Rightarrow> (u32 \<times> sys) res option" where
  "u_yield E = sys_call E 5 0 0 0 0 0"

definition u_sbrk :: "uenv \<Rightarrow> u32 \<Rightarrow> sys \<Rightarrow> (u32 \<times> sys) res option" where
  "u_sbrk E sz = sys_call E 12 sz 0 0 0 0"

definition u_time :: "uenv \<Rightarrow> sys \<Rightarrow> (u32 \<times> sys) res option" where
  "u_time E = sys_call E 17 0 0 0 0 0"

definition u_waitpid :: "uenv \<Rightarrow> u32 \<Rightarrow> sys \<Rightarrow> (u32 \<times> sys) res option" where
  "u_waitpid E i = sys_call E 18 i 0 0 0 0"

definition u_getcwd :: "uenv \<Rightarrow> u32 \<Rightarrow> u32 \<Rightarrow> sys \<Rightarrow> (u32 \<times> sys) res option" where
  "u_getcwd E buffer buffer_size = sys_call E 19 buffer buffer_size 0 0 0"

definition u_chdir :: "uenv \<Rightarrow> u32 \<Rightarrow> sys \<Rightarrow> (u32 \<times> sys) res option" where
  "u_chdir E path = sys_call E 20 path 0 0 0 0"

definition u_getpid :: "uenv \<Rightarrow> sys \<Rightarrow> (u32 \<times> sys) res option" where
  "u_getpid E = sys_call E 23 0 0 0 0 0"

definition u_getuid :: "uenv \<Rightarrow> sys \<Rightarrow> (u32 \<times> sys) res option" where
  "u_getuid E = sys_call E 22 0 0 0 0 0"

definition u_setuid :: "uenv \<Rightarrow> u32 \<Rightarrow> sys \<Rightarrow> (u32 \<times> sys) res option" where
  "u_setuid E u = sys_call E 21 u 0 0 0 0"

definition u_link :: "uenv \<Rightarrow> u32 \<Rightarrow> u32 \<Rightarrow> sys \<Rightarrow> (u32 \<times> sys) res option" where
  "u_link E whom to = sys_call E 24 whom to 0 0 0"

definition u_send :: "uenv \<Rightarrow> u32 \<Rightarrow> u32 \<Rightarrow> sys \<Rightarrow> (u32 \<times> sys) res option" where
  "u_send E i sg = sys_call E 14 i sg 0 0 0"

definition u_signal :: "uenv \<Rightarrow> u32 \<Rightarrow> u32 \<Rightarrow> sys \<Rightarrow> (u32 \<times> sys) res option" where
  "u_signal E sg handler = sys_call E 15 sg handler 0 0 0"

definition u_sigexit :: "uenv \<Rightarrow> sys \<Rightarrow> (u32 \<times> sys) res option" where
  "u_sigexit E = sys_call E 16 0 0 0 0 0"

definition u_sleep :: "uenv \<Rightarrow> u32 \<Rightarrow> sys \<Rightarrow> (u32 \<times> sys) res option" where
  "u_sleep E ticks = sys_call E 25 ticks 0 0 0 0"

definition u_getppid :: "uenv \<Rightarrow> sys \<Rightarrow> (u32 \<times> sys) res option" where
  "u_getppid E = sys_call E 26 0 0 0 0 0"

text \<open>Some calls give their result back as a byte.\<close>

definition byte_result :: "(u32 \<times> sys) res option \<Rightarrow> (u8 \<times> sys) res option" where
  "byte_result r = res_bind r (\<lambda>(v, s). Some (Inr (ucast v, s)))"

definition u_pipe :: "uenv \<Rightarrow> u32 \<Rightarrow> u32 \<Rightarrow> sys \<Rightarrow> (u8 \<times> sys) res option" where
  "u_pipe E path buff_size s = byte_result (sys_call E 27 path buff_size 0 0 0 s)"

definition u_pwreq :: "uenv \<Rightarrow> u32 \<Rightarrow> sys \<Rightarrow> (u8 \<times> sys) res option" where
  "u_pwreq E req s = byte_result (sys_call E 28 req 0 0 0 0 s)"

definition u_stat :: "uenv \<Rightarrow> u32 \<Rightarrow> u32 \<Rightarrow> sys \<Rightarrow> (u8 \<times> sys) res option" where
  "u_stat E fd stat s = byte_result (sys_call E 29 fd stat 0 0 0 s)"

text \<open>The priority to be set goes into the fourth argument register.\<close>

definition u_setprior :: "uenv \<Rightarrow> u32 \<Rightarrow> u32 \<Rightarrow> u32 \<Rightarrow> sys \<Rightarrow> (u8 \<times> sys) res option" where
  "u_setprior E which who prior s = byte_result (sys_call E 30 1 which who prior 0 s)"

definition u_getprior :: "uenv \<Rightarrow> u32 \<Rightarrow> u32 \<Rightarrow> sys \<Rightarrow> (u8 \<times> sys) res option" where
  "u_getprior E which who s = byte_result (sys_call E 30 0 which who 0 0 s)"

definition u_thread :: "uenv \<Rightarrow> u32 \<Rightarrow> sys \<Rightarrow> (u8 \<times> sys) res option" where
  "u_thread E ent s = byte_result (sys_call E 31 ent 0 0 0 0 s)"

definition u_shmem_reset :: "uenv \<Rightarrow> sys \<Rightarrow> (u32 \<times> sys) res option" where
  "u_shmem_reset E = sys_call E 34 0 0 0 0 0"

definition u_shmem_create :: "uenv \<Rightarrow> u32 \<Rightarrow> sys \<Rightarrow> (u32 \<times> sys) res option" where
  "u_shmem_create E sz = sys_call E 32 sz 0 0 0 0"

definition u_shmem_open :: "uenv \<Rightarrow> u32 \<Rightarrow> u32 \<Rightarrow> u32 \<Rightarrow> sys \<Rightarrow> (u32 \<times> sys) res option" where
  "u_shmem_open E i bid block = sys_call E 33 i bid block 0 0"

subsection \<open>What a call does\<close>

definition syscall_table :: "sysfn option list" where
  "syscall_table = fold (\<lambda>(i, fn) t. t[i := Some fn])
     [(0, SysEcho), (1, SysRead), (2, SysWrite), (3, SysOpen), (4, SysClose), (5, SysYield), (6, SysExec), (8, SysIoctl),
      (9, SysReaddir), (10, SysFswait), (11, SysExit), (12, SysSbrk), (13, SysAssign), (14, SysSig), (15, SysSighandl),
      (16, SysSigexit), (17, SysTime), (18, SysWaitpid), (19, SysGetcwd), (20, SysChdir), (21, SysSetuid), (22, SysGetuid),
      (23, SysGetpid), (24, SysLink), (25, SysSleep), (26, SysGetppid), (27, SysPipe), (28, SysPwreq), (29, SysFstat),
      (30, SysPrior), (31, SysThread), (32, SysShmemCreate), (33, SysShmemOpen), (34, SysShmemReset)] (replicate 128 None)"

lemma init_syscalls_table: "init_syscalls h s = Inr s' \<Longrightarrow> syscalls s' = syscall_table"
  by (auto simp: init_syscalls_def syscall_table_def register_syscall_def isr_set_handler_def store_at_def
      numeral_eq_Suc split: if_splits)

lemma syscall_table_simps [simp]: "length syscall_table = 128"
  "syscall_table ! 1 = Some SysRead" "syscall_table ! Suc 0 = Some SysRead" "syscall_table ! 2 = Some SysWrite" "syscall_table ! 3 = Some SysOpen"
  "syscall_table ! 4 = Some SysClose" "syscall_table ! 9 = Some SysReaddir" "syscall_table ! 19 = Some SysGetcwd"
  "syscall_table ! 20 = Some SysChdir" "syscall_table ! 23 = Some SysGetpid" "syscall_table ! 29 = Some SysFstat"
  by (simp_all add: syscall_table_def nth_list_update)

text \<open>The state in which a handler of a call starts, and how the dispatcher changes what it leaves behind.\<close>

definition enter :: "uenv \<Rightarrow> u32 \<Rightarrow> u32 \<Rightarrow> u32 \<Rightarrow> u32 \<Rightarrow> u32 \<Rightarrow> u32 \<Rightarrow> sys \<Rightarrow> sys" where
  "enter E n a b c d e s = s\<lparr>kint := lock_interrupts (kint s),
     kern := (kern s)\<lparr>frames := (frames (kern s))(uframe E \<mapsto> (uregs E)\<lparr>eax := n, ebx := a, ecx := b, edx := c, esi := d, edi := e\<rparr>),
       procs := (procs (kern s))(cur s \<mapsto> (the (procs (kern s) (cur s)))\<lparr>syscall_state := uframe E\<rparr>)\<rparr>\<rparr>"

definition leave :: "uenv \<Rightarrow> u32 \<Rightarrow> sys \<Rightarrow> sys" where
  "leave E ret s = s\<lparr>kern := (kern s)\<lparr>frames := (frames (kern s))(uframe E \<mapsto> (the (frames (kern s) (uframe E)))\<lparr>eax := ret\<rparr>)\<rparr>,
     kint := unlock_interrupts (kint s)\<rparr>"

definition user_ok :: "sys \<Rightarrow> bool" where
  "user_ok s \<longleftrightarrow> syscalls s = syscall_table \<and> (\<exists>x. procs (kern s) (cur s) = Some x)"

lemma enter_simps [simp]: "files (enter E n a b c d e s) = files s" "cur (enter E n a b c d e s) = cur s"
  "ftab (enter E n a b c d e s) = ftab s" "pmem (enter E n a b c d e s) = pmem s"
  "f_descs (enter E n a b c d e s) = f_descs s" "f_descs_cnt (enter E n a b c d e s) = f_descs_cnt s"
  "fd_arrays (enter E n a b c d e s) = fd_arrays s" "syscalls (enter E n a b c d e s) = syscalls s"
  "fd_table (enter E n a b c d e s) = fd_table s"
  by (simp_all add: enter_def cur_def fd_table_def)

lemma leave_simps [simp]: "files (leave E r s) = files s" "cur (leave E r s) = cur s" "ftab (leave E r s) = ftab s"
  "pmem (leave E r s) = pmem s" "f_descs (leave E r s) = f_descs s" "f_descs_cnt (leave E r s) = f_descs_cnt s"
  "fd_arrays (leave E r s) = fd_arrays s" "syscalls (leave E r s) = syscalls s" "fd_table (leave E r s) = fd_table s"
  "procs (kern (leave E r s)) = procs (kern s)" "fd_ok c (leave E r s) = fd_ok c s" "fd_node fd (leave E r s) = fd_node fd s"
  by (simp_all add: leave_def cur_def fd_table_def fd_ok_def fd_node_def cur_proc_def get_proc_def)

lemma enter_cur_proc: "user_ok s \<Longrightarrow> \<exists>x. cur_proc (enter E n a b c d e s) = Inr x"
  by (simp add: cur_proc_def get_proc_def) (simp add: enter_def)

lemma enter_fd [simp]: "user_ok s \<Longrightarrow> fd_ok k (enter E n a b c d e s) = fd_ok k s"
  "user_ok s \<Longrightarrow> fd_node fd (enter E n a b c d e s) = fd_node fd s"
proof -
  assume u: "user_ok s"
  obtain x where x: "cur_proc (enter E n a b c d e s) = Inr x" using enter_cur_proc [OF u] by blast
  obtain y where y: "cur_proc s = Inr y" using u by (auto simp: user_ok_def cur_proc_def get_proc_def)
  show "fd_ok k (enter E n a b c d e s) = fd_ok k s" "fd_node fd (enter E n a b c d e s) = fd_node fd s"
    by (simp_all add: fd_ok_def fd_node_def x y)
qed

lemma user_ok_leave [simp]: "user_ok (leave E r s) = user_ok s"
  by (simp add: user_ok_def)

lemma user_ok_kern: "kern s1 = kern (enter E n a b c d e s) \<Longrightarrow> syscalls s1 = syscalls s \<Longrightarrow> user_ok s \<Longrightarrow> user_ok s1"
  by (auto simp: user_ok_def cur_def enter_def)

lemma sys_call_handler:
  assumes u: "user_ok s" and n: "n < 128" "syscall_table ! unat n = Some fn"
  shows "syscall_handler (kcfg E) (mkpipe E) (uframe E)
      (s\<lparr>kern := (kern s)\<lparr>frames := (frames (kern s))(uframe E \<mapsto> (uregs E)\<lparr>eax := n, ebx := a, ecx := b, edx := c, esi := d, edi := e\<rparr>)\<rparr>\<rparr>)
    = res_bind (res_bind (run_sysfn (kcfg E) (mkpipe E) fn a b c d e (enter E n a b c d e s))
      (\<lambda>(ret, s1). if cur s = cur s1 then Some (sbind (cur_proc s1) (\<lambda>x. set_eax (syscall_state x) ret s1)) else Some (Inr s1)))
      (\<lambda>s. Some (Inr (s\<lparr>kint := unlock_interrupts (kint s)\<rparr>)))"
proof -
  let ?g = "(uregs E)\<lparr>eax := n, ebx := a, ecx := b, edx := c, esi := d, edi := e\<rparr>"
  let ?s0 = "s\<lparr>kern := (kern s)\<lparr>frames := (frames (kern s))(uframe E \<mapsto> ?g)\<rparr>\<rparr>"
  obtain x where x: "procs (kern s) (cur s) = Some x" and t: "syscalls s = syscall_table" using u by (auto simp: user_ok_def)
  have c: "cur ?s0 = cur s" "cur (?s0\<lparr>kint := lock_interrupts (kint s)\<rparr>) = cur s" by (simp_all add: cur_def)
  have n1: "\<not> 128 \<le> n" using n(1) by simp
  have n': "unat n < 128" using n(1) by (simp add: word_less_nat_alt)
  show ?thesis using x t n' n(2) by (simp add: syscall_handler_def Let_def get_frame_def upd_proc_def get_proc_def n1 c enter_def)
qed

text \<open>A handler that leaves the caller running and its frame where it is returns to it.\<close>

lemma sys_call_returns:
  assumes u: "user_ok s" and n: "n < 128" "syscall_table ! unat n = Some fn"
    and r: "run_sysfn (kcfg E) (mkpipe E) fn a b c d e (enter E n a b c d e s) = Some (Inr (ret, s1))"
    and k: "cur s1 = cur s" "procs (kern s1) (cur s) = Some y" "syscall_state y = uframe E" "frames (kern s1) (uframe E) = Some g"
  shows "sys_call E n a b c d e s = Some (Inr (ret, leave E ret s1))"
proof -
  have p: "cur_proc s1 = Inr y" using k by (simp add: cur_proc_def get_proc_def)
  have "set_eax (uframe E) ret s1 = Inr (s1\<lparr>kern := (kern s1)\<lparr>frames := (frames (kern s1))(uframe E \<mapsto> g\<lparr>eax := ret\<rparr>)\<rparr>\<rparr>)"
    using k(4) by (simp add: set_eax_def get_frame_def)
  then have "res_bind (res_bind (run_sysfn (kcfg E) (mkpipe E) fn a b c d e (enter E n a b c d e s))
      (\<lambda>(ret, s1). if cur s = cur s1 then Some (sbind (cur_proc s1) (\<lambda>x. set_eax (syscall_state x) ret s1)) else Some (Inr s1)))
      (\<lambda>s. Some (Inr (s\<lparr>kint := unlock_interrupts (kint s)\<rparr>))) = Some (Inr (leave E ret s1))"
    using r p k by (simp add: leave_def)
  then show ?thesis using sys_call_handler [OF u n, where E = E and a = a and b = b and c = c and d = d and e = e] k(1)
    by (simp add: sys_call_def Let_def) (simp add: leave_def get_frame_def cur_def)
qed

lemma sys_call_runs:
  assumes u: "user_ok s" and n: "n < 128" "syscall_table ! unat n = Some fn"
  shows "run_sysfn (kcfg E) (mkpipe E) fn a b c d e (enter E n a b c d e s) = Some (Inr (ret, s1)) \<Longrightarrow>
      kern s1 = kern (enter E n a b c d e s) \<Longrightarrow> sys_call E n a b c d e s = Some (Inr (ret, leave E ret s1))"
    and "run_sysfn (kcfg E) (mkpipe E) fn a b c d e (enter E n a b c d e s) = Some (Inl err) \<Longrightarrow> sys_call E n a b c d e s = Some (Inl err)"
    and "run_sysfn (kcfg E) (mkpipe E) fn a b c d e (enter E n a b c d e s) = None \<Longrightarrow> sys_call E n a b c d e s = None"
proof -
  let ?run = "run_sysfn (kcfg E) (mkpipe E) fn a b c d e (enter E n a b c d e s)"
  show "sys_call E n a b c d e s = Some (Inl err)" if "?run = Some (Inl err)"
    using sys_call_handler [OF u n, where E = E and a = a and b = b and c = c and d = d and e = e] that by (simp add: sys_call_def Let_def)
  show "sys_call E n a b c d e s = None" if "?run = None"
    using sys_call_handler [OF u n, where E = E and a = a and b = b and c = c and d = d and e = e] that by (simp add: sys_call_def Let_def)
  show "sys_call E n a b c d e s = Some (Inr (ret, leave E ret s1))"
    if r: "?run = Some (Inr (ret, s1))" and k: "kern s1 = kern (enter E n a b c d e s)"
  proof -
    obtain x where "procs (kern s) (cur s) = Some x" using u by (auto simp: user_ok_def)
    then show ?thesis using k by (intro sys_call_returns [OF u n r, where y = "x\<lparr>syscall_state := uframe E\<rparr>"]) (simp_all add: cur_def enter_def)
  qed
qed

end
