(* ===== verification/Stdio.thy ===== *)
theory Stdio
  imports Libcall Numfmt
begin

text \<open>
  Streams and directories of the C library in user programs, \<open>libc/stdio\<close> and \<open>libc/dirent/dirent.c\<close>, over
  the calls of theory Libcall. A \<open>FILE\<close> is passed and returned by value; the blocks that the functions
  allocate, and their local arrays, come from a supply of addresses. The integer members of a stream are
  words read as signed; an addition that overflows is undefined and so is a fault.
\<close>

subsection \<open>The state of a user program\<close>

record uprog =
  os :: sys
  ublocks :: "u32 list"

definition umalloc :: "uprog \<Rightarrow> (u32 \<times> uprog) res" where
  "umalloc u = (case ublocks u of [] \<Rightarrow> Inl Wild | p # ps \<Rightarrow> Inr (p, u\<lparr>ublocks := ps\<rparr>))"

definition on_os :: "(sys \<Rightarrow> ('a \<times> sys) res option) \<Rightarrow> uprog \<Rightarrow> ('a \<times> uprog) res option" where
  "on_os f u = res_bind (f (os u)) (\<lambda>(r, s). Some (Inr (r, u\<lparr>os := s\<rparr>)))"

abbreviation umem :: "uprog \<Rightarrow> bytes" where
  "umem u \<equiv> mem (files (os u))"

definition set_umem :: "bytes \<Rightarrow> uprog \<Rightarrow> uprog" where
  "set_umem m u = u\<lparr>os := set_mem m (os u)\<rparr>"

subsection \<open>stdio.c\<close>

record stream =
  f_fd :: u32
  f_ungetc :: u8
  f_buffer :: u32
  f_offset :: u32
  f_size :: u32
  f_eof :: u32
  f_error :: u32

definition zero_stream :: stream where
  "zero_stream = \<lparr>f_fd = 0, f_ungetc = 0, f_buffer = 0, f_offset = 0, f_size = 0, f_eof = 0, f_error = 0\<rparr>"

definition stdout :: stream where "stdout = zero_stream"
definition stderr :: stream where "stderr = zero_stream\<lparr>f_fd := 1\<rparr>"
definition stdin :: stream where "stdin = zero_stream\<lparr>f_fd := 2\<rparr>"

text \<open>The offset moves on; a stream with a size ends there.\<close>

definition advance :: "u32 \<Rightarrow> stream \<Rightarrow> stream" where
  "advance n f = (let f = f\<lparr>f_offset := f_offset f + n\<rparr>
     in if f_size f \<noteq> 0 \<and> sint (f_offset f) \<ge> sint (f_size f) then f\<lparr>f_eof := 1\<rparr> else f)"

definition fwrite :: "uenv \<Rightarrow> u32 \<Rightarrow> u32 \<Rightarrow> u32 \<Rightarrow> stream \<Rightarrow> uprog \<Rightarrow> (u32 \<times> stream \<times> uprog) res option" where
  "fwrite E ptr sz block_count f u =
     (if f_eof f \<noteq> 0 then Some (Inr (0, f, u))
      else res_bind (on_os (u_write E (f_fd f) (scast (f_offset f)) (sz * block_count) ptr) u) (\<lambda>(writen, u).
        let f = advance writen f in
        if sz = 0 then Some (Inl DivZero) else Some (Inr (writen div sz, f, u))))"

definition fread :: "uenv \<Rightarrow> u32 \<Rightarrow> u32 \<Rightarrow> u32 \<Rightarrow> stream \<Rightarrow> uprog \<Rightarrow> (u32 \<times> stream \<times> uprog) res option" where
  "fread E ptr sz block_count f u =
     (if f_eof f \<noteq> 0 then Some (Inr (0, f, u))
      else res_bind (on_os (u_read E (f_fd f) (scast (f_offset f)) (sz * block_count) ptr) u) (\<lambda>(readen, u).
        let f = advance readen f in
        if sz = 0 then Some (Inl DivZero) else Some (Inr (readen div sz, f, u))))"

text \<open>The modes are literals of the caller: \<open>r\<close>, \<open>w\<close> and \<open>r+\<close> are known.\<close>

definition mode_flags :: "u8 list \<Rightarrow> u8" where
  "mode_flags mode = (if mode = [114] then F_READ else 0) OR (if mode = [119] then F_WRITE else 0)
     OR (if mode = [114, 43] then F_READ OR F_WRITE OR 4 else 0)"

definition fopen :: "uenv \<Rightarrow> u32 \<Rightarrow> u8 list \<Rightarrow> uprog \<Rightarrow> (stream option \<times> uprog) res option" where
  "fopen E name mode u =
     res_bind (Some (umalloc u)) (\<lambda>(_, u).
     res_bind (on_os (u_open E name (mode_flags mode)) u) (\<lambda>(fd, u).
     if sint fd < 0 then Some (Inr (None, u))
     else
       res_bind (Some (umalloc u)) (\<lambda>(stat, u).
       res_bind (on_os (u_stat E fd stat) u) (\<lambda>(_, u).
         Some (Inr (Some (zero_stream\<lparr>f_fd := fd, f_size := rd32 (umem u) stat\<rparr>), u))))))"

definition fclose :: "uenv \<Rightarrow> stream \<Rightarrow> uprog \<Rightarrow> (u32 \<times> uprog) res option" where
  "fclose E f u = res_bind (on_os (u_close E (f_fd f)) u) (\<lambda>(_, u). Some (Inr (0, u)))"

subsection \<open>Positions\<close>

definition int_result :: "int \<Rightarrow> u32 res" where
  "int_result i = (if - (2 ^ 31) \<le> i \<and> i < 2 ^ 31 then Inr (word_of_int i) else Inl Wild)"

abbreviation SEEK_SET :: u32 where "SEEK_SET \<equiv> 0"
abbreviation SEEK_CUR :: u32 where "SEEK_CUR \<equiv> 1"
abbreviation SEEK_END :: u32 where "SEEK_END \<equiv> 2"

text \<open>The new offset, or \<open>None\<close> for the result 1.\<close>

definition seek_target :: "stream \<Rightarrow> u32 \<Rightarrow> u32 \<Rightarrow> u32 option res" where
  "seek_target f offset origin =
     (if origin = SEEK_CUR then
        sbind (int_result (sint (f_offset f) + sint offset)) (\<lambda>n.
          Inr (if sint n > sint (f_size f) then None else Some n))
      else if origin = SEEK_SET then Inr (if sint offset > sint (f_size f) then None else Some offset)
      else if origin = SEEK_END then
        if sint offset > sint (f_size f) then Inr None
        else sbind (int_result (sint (f_size f) - sint offset)) (\<lambda>n. Inr (Some n))
      else Inr None)"

definition fseek :: "stream \<Rightarrow> u32 \<Rightarrow> u32 \<Rightarrow> (u32 \<times> stream) res" where
  "fseek f offset origin =
     (let f = f\<lparr>f_ungetc := 0\<rparr> in
      sbind (seek_target f offset origin) (\<lambda>t. case t of
          None \<Rightarrow> Inr (1, f)
        | Some n \<Rightarrow> let f = f\<lparr>f_offset := n\<rparr>
                    in Inr (0, f\<lparr>f_eof := (if sint (f_offset f) \<ge> sint (f_size f) then 1 else 0)\<rparr>)))"

definition rewind :: "stream \<Rightarrow> stream" where
  "rewind f = f\<lparr>f_offset := 0, f_eof := 0, f_error := 0\<rparr>"

definition ftell :: "stream \<Rightarrow> u32" where
  "ftell f = f_offset f"

definition fgetpos :: "stream \<Rightarrow> u32 \<Rightarrow> uprog \<Rightarrow> u32 \<times> uprog" where
  "fgetpos f pos u = (0, set_umem (wr32 pos (f_offset f) (umem u)) u)"

definition fsetpos :: "stream \<Rightarrow> u32 \<Rightarrow> uprog \<Rightarrow> u32 \<times> stream" where
  "fsetpos f pos u = (0, f\<lparr>f_offset := rd32 (umem u) pos\<rparr>)"

definition feof :: "stream \<Rightarrow> u32" where
  "feof f = f_eof f"

definition ferror :: "stream \<Rightarrow> u32" where
  "ferror f = f_error f"

definition setbuf :: "stream \<Rightarrow> u32 \<Rightarrow> stream" where
  "setbuf f buf = f\<lparr>f_buffer := buf\<rparr>"

subsection \<open>Characters and strings\<close>

text \<open>\<open>fgets\<close> repeats a read until it delivers a byte; the fuel counts the attempts.\<close>

fun fgets_wait :: "nat \<Rightarrow> uenv \<Rightarrow> u32 \<Rightarrow> stream \<Rightarrow> uprog \<Rightarrow> (stream \<times> uprog) res option" where
  "fgets_wait 0 E p f u = None"
| "fgets_wait (Suc k) E p f u =
     res_bind (fread E p 1 1 f u) (\<lambda>(n, f, u). if n \<noteq> 0 then Some (Inr (f, u)) else fgets_wait k E p f u)"

fun fgets_loop :: "nat \<Rightarrow> uenv \<Rightarrow> nat \<Rightarrow> u32 \<Rightarrow> nat \<Rightarrow> stream \<Rightarrow> uprog \<Rightarrow> (nat \<times> stream \<times> uprog) res option" where
  "fgets_loop k E 0 str i f u = Some (Inr (i, f, u))"
| "fgets_loop k E (Suc left) str i f u =
     res_bind (fgets_wait k E (str + of_nat i) f u) (\<lambda>(f, u).
       if umem u (str + of_nat i) = 0 then Some (Inr (Suc i, f, u))
       else fgets_loop k E left str (Suc i) f u)"

definition fgets :: "nat \<Rightarrow> uenv \<Rightarrow> u32 \<Rightarrow> u32 \<Rightarrow> stream \<Rightarrow> uprog \<Rightarrow> (u32 \<times> stream \<times> uprog) res option" where
  "fgets k E str num f u =
     res_bind (fgets_loop k E (nat (sint num - 1)) str 0 f u) (\<lambda>(i, f, u).
       Some (Inr (str, f, set_umem ((umem u)(str + of_nat i := 0)) u)))"

text \<open>A \<open>char\<close> is signed; the byte is that of a local array, also if nothing was read.\<close>

definition getc :: "uenv \<Rightarrow> stream \<Rightarrow> uprog \<Rightarrow> (u32 \<times> stream \<times> uprog) res option" where
  "getc E f u =
     res_bind (Some (umalloc u)) (\<lambda>(buff, u).
     res_bind (fread E buff 1 1 f u) (\<lambda>(_, f, u). Some (Inr (scast (umem u buff), f, u))))"

abbreviation EOF :: u32 where "EOF \<equiv> - 1"

definition fputs :: "uenv \<Rightarrow> u32 \<Rightarrow> stream \<Rightarrow> uprog \<Rightarrow> (u32 \<times> stream \<times> uprog) res option" where
  "fputs E str f u =
     Option.bind (strlen (umem u) str) (\<lambda>n.
     res_bind (fwrite E str n 1 f u) (\<lambda>(r, f, u). Some (Inr (if r \<noteq> 0 then r else EOF, f, u))))"

definition puts :: "uenv \<Rightarrow> u32 \<Rightarrow> stream \<Rightarrow> uprog \<Rightarrow> (u32 \<times> stream \<times> uprog) res option" where
  "puts E str out u = fputs E str out u"

definition fputc :: "uenv \<Rightarrow> u8 \<Rightarrow> stream \<Rightarrow> uprog \<Rightarrow> (u32 \<times> stream \<times> uprog) res option" where
  "fputc E c f u =
     res_bind (Some (umalloc u)) (\<lambda>(buffer, u).
     res_bind (fwrite E buffer 1 1 f (set_umem ((umem u)(buffer := c)) u)) (\<lambda>(res, f, u).
       Some (Inr (if res \<noteq> 0 then res else EOF, f, u))))"

definition putchar :: "uenv \<Rightarrow> u8 \<Rightarrow> stream \<Rightarrow> uprog \<Rightarrow> (u32 \<times> stream \<times> uprog) res option" where
  "putchar E c out u = fputc E c out u"

text \<open>Formatted output goes through a local buffer of 4096 bytes.\<close>

definition vfprintf :: "uenv \<Rightarrow> u32 \<Rightarrow> u32 list \<Rightarrow> stream \<Rightarrow> uprog \<Rightarrow> (u32 \<times> stream \<times> uprog) res option" where
  "vfprintf E format argptr f u =
     res_bind (Some (umalloc u)) (\<lambda>(buffer, u).
     Option.bind (read_str (umem u) format) (\<lambda>fmt.
     res_bind (Some (vsprintf (\<lambda>p. case read_str (umem u) p of None \<Rightarrow> [] | Some xs \<Rightarrow> xs) fmt argptr)) (\<lambda>(_, out).
       if length out \<ge> 4096 then Some (Inl Wild)
       else fputs E buffer f (set_umem (put_str buffer out (snd (memset buffer 0 4096 (umem u)))) u))))"

definition fprintf :: "uenv \<Rightarrow> u32 \<Rightarrow> u32 list \<Rightarrow> stream \<Rightarrow> uprog \<Rightarrow> (u32 \<times> stream \<times> uprog) res option" where
  "fprintf E format argptr f u = res_bind (vfprintf E format argptr f u) (\<lambda>(_, f, u). Some (Inr (0, f, u)))"

definition printf :: "uenv \<Rightarrow> u32 \<Rightarrow> u32 list \<Rightarrow> stream \<Rightarrow> uprog \<Rightarrow> (u32 \<times> stream \<times> uprog) res option" where
  "printf E format argptr out u = vfprintf E format argptr out u"

subsection \<open>Directories\<close>

record dir_stream =
  d_fd :: u32
  c_entry :: u32

definition opendir :: "uenv \<Rightarrow> u32 \<Rightarrow> uprog \<Rightarrow> (dir_stream option \<times> uprog) res option" where
  "opendir E dirname u =
     res_bind (fopen E dirname [] u) (\<lambda>(f, u). case f of
         None \<Rightarrow> Some (Inr (None, u))
       | Some f \<Rightarrow> res_bind (Some (umalloc u)) (\<lambda>(_, u). Some (Inr (Some \<lparr>d_fd = f_fd f, c_entry = 0\<rparr>, u))))"

definition closedir :: "uenv \<Rightarrow> dir_stream option \<Rightarrow> uprog \<Rightarrow> (u32 \<times> uprog) res option" where
  "closedir E dir u = (case dir of
       Some d \<Rightarrow> if d_fd d \<noteq> - 1 then res_bind (on_os (u_close E (d_fd d)) u) (\<lambda>(_, u). Some (Inr (0, u)))
                 else Some (Inr (- 1, u))
     | None \<Rightarrow> Some (Inr (- 1, u)))"

definition readdir :: "uenv \<Rightarrow> dir_stream \<Rightarrow> uprog \<Rightarrow> (u32 \<times> dir_stream \<times> uprog) res option" where
  "readdir E dirp u =
     res_bind (Some (umalloc u)) (\<lambda>(dent, u).
     res_bind (on_os (u_readdir E (d_fd dirp) (c_entry dirp) dent) (set_umem (snd (memset dent 0 260 (umem u))) u)) (\<lambda>(resp, u).
       if resp \<noteq> 0 then Some (Inr (0, dirp, u))
       else Some (Inr (dent, dirp\<lparr>c_entry := c_entry dirp + 1\<rparr>, u))))"

subsection \<open>File calls\<close>

text \<open>What a file call leaves alone: the open files and the calling process.\<close>

definition calm :: "sys \<Rightarrow> sys \<Rightarrow> bool" where
  "calm s s' \<longleftrightarrow> user_ok s' \<and> ftab s' = ftab s \<and> (\<forall>fd. fd_node fd s' = fd_node fd s)"

lemma calm_trans: "calm s s' \<Longrightarrow> calm s' s'' \<Longrightarrow> calm s s''"
  by (simp add: calm_def)

lemma calm_files: "user_ok s \<Longrightarrow> calm s (leave E r (files_update f (enter E n a b c d e s)))"
  using user_ok_kern [of "files_update f (enter E n a b c d e s)" E n a b c d e s] by (simp add: calm_def)

lemma file_offset_split: "file_offset (ucast (drop_bit 32 off)) (ucast off) = off"
  by (rule bit_word_eqI) (auto simp: file_offset_def bit_simps)

lemma u_read_file:
  assumes u: "user_ok s" and fd: "fd_node fd s = Inr (Some node)" "nodes (files s) node = Some x" "open_flags x AND F_READ \<noteq> 0"
    and k: "kread (vld (kcfg E)) (ftab s) node off sz buf (files s) = Inr (r, v)"
  shows "\<exists>s'. u_read E fd off sz buf s = Some (Inr (r, s')) \<and> files s' = v \<and> calm s s'"
proof -
  let ?s = "enter E 1 fd (ucast (drop_bit 32 off)) (ucast off) sz buf s"
  have "run_sysfn (kcfg E) (mkpipe E) SysRead fd (ucast (drop_bit 32 off)) (ucast off) sz buf ?s = Some (Inr (r, ?s\<lparr>files := v\<rparr>))"
    using u fd k by (simp add: run_sysfn_def sys_read_def get_node_def on_files_def file_offset_split)
  then have "u_read E fd off sz buf s = Some (Inr (r, leave E r (?s\<lparr>files := v\<rparr>)))"
    using sys_call_runs(1) [OF u, of 1 SysRead] by (simp add: u_read_def)
  then show ?thesis using calm_files [OF u] by fastforce
qed

lemma u_write_file:
  assumes u: "user_ok s" and fd: "fd_node fd s = Inr (Some node)" "nodes (files s) node = Some x" "open_flags x AND F_WRITE \<noteq> 0"
    and k: "kwrite (vld (kcfg E)) (ftab s) node off sz buf (files s) = Inr (r, v)"
  shows "\<exists>s'. u_write E fd off sz buf s = Some (Inr (r, s')) \<and> files s' = v \<and> calm s s'"
proof -
  let ?s = "enter E 2 fd (ucast (drop_bit 32 off)) (ucast off) sz buf s"
  have "run_sysfn (kcfg E) (mkpipe E) SysWrite fd (ucast (drop_bit 32 off)) (ucast off) sz buf ?s = Some (Inr (r, ?s\<lparr>files := v\<rparr>))"
    using u fd k by (simp add: run_sysfn_def sys_write_def get_node_def on_files_def file_offset_split)
  then have "u_write E fd off sz buf s = Some (Inr (r, leave E r (?s\<lparr>files := v\<rparr>)))"
    using sys_call_runs(1) [OF u, of 2 SysWrite] by (simp add: u_write_def)
  then show ?thesis using calm_files [OF u] by fastforce
qed

subsection \<open>Reading what was written\<close>

text \<open>C20: A user program reads back what it has written. \<open>fwrite\<close> to a stream at its start, \<open>rewind\<close> and \<open>fread\<close> of as
  much return the number of blocks, and the second array holds the bytes of the first, on the whole way
  through the stubs, the dispatcher, the table of open files and the file system; the stream's node is one
  of the virtual file system, open for both, whose buffer lies beside the arrays.\<close>

theorem fwrite_rewind_fread:
  assumes u: "user_ok (os u)" and f: "f_eof f = 0" "f_offset f = 0"
    and fd: "fd_node (f_fd f) (os u) = Inr (Some node)" "nodes (files (os u)) node = Some x"
      "open_flags x AND F_READ \<noteq> 0" "open_flags x AND F_WRITE \<noteq> 0"
    and r: "real_node node (files (os u)) = Inr r" "vld (kcfg E) r" "nodes (files (os u)) r = Some n" "inode n \<noteq> 0"
    and fs: "get_fs (ftab (os u)) (fsid n) = Inr g" "fs.fread g = Some vfs_read" "fs.fwrite g = Some vfs_write"
    and sz: "sz \<noteq> 0" "unat sz * unat cnt < 2 ^ 31" "0 < cnt"
    and ap: "apart (inode n) (unat sz * unat cnt) src (unat sz * unat cnt)"
      "apart dst (unat sz * unat cnt) (inode n) (unat sz * unat cnt)"
  shows "\<exists>f1 u1 f2 u2. fwrite E src sz cnt f u = Some (Inr (cnt, f1, u1))
     \<and> fread E dst sz cnt (rewind f1) u1 = Some (Inr (cnt, f2, u2)) \<and> f_offset f2 = sz * cnt
     \<and> (\<forall>i < unat sz * unat cnt. umem u2 (dst + of_nat i) = umem u (src + of_nat i))"
proof -
  have um: "unat (sz * cnt) = unat sz * unat cnt" using sz(2) by (simp add: unat_word_ariths)
  have d: "(sz * cnt) div sz = cnt"
    using sz(1) um by (intro word_unat_eq_iff [THEN iffD2]) (simp add: unat_div_distrib unat_eq_zero)
  let ?v = "vld (kcfg E)" and ?t = "ftab (os u)"
  obtain v1 v2 where w: "kwrite ?v ?t node 0 (sz * cnt) src (files (os u)) = Inr (sz * cnt, v1)"
      "kread ?v ?t node 0 (sz * cnt) dst v1 = Inr (sz * cnt, v2)"
      "\<forall>i < unat (sz * cnt). mem v2 (dst + of_nat i) = mem (files (os u)) (src + of_nat i)"
    using kwrite_kread [where v = ?v and s = "files (os u)" and node = node and offset = 0 and sz = "sz * cnt" and src = src and dst = dst,
        OF r(1) r(1) r(2-4) fs] ap um by auto
  have n1: "nodes v1 = nodes (files (os u))"
    using w(1) r fs by (auto simp: kwrite_def vfs_write_def get_node_def copy_mem_def split: sum.splits)
  obtain s1 where s1: "u_write E (f_fd f) 0 (sz * cnt) src (os u) = Some (Inr (sz * cnt, s1))" "files s1 = v1" "calm (os u) s1"
    using u_write_file [OF u fd(1,2,4) w(1)] by blast
  then have "user_ok s1" "fd_node (f_fd f) s1 = Inr (Some node)" "ftab s1 = ?t" using fd(1) by (simp_all add: calm_def)
  then obtain s2 where s2: "u_read E (f_fd f) 0 (sz * cnt) dst s1 = Some (Inr (sz * cnt, s2))" "files s2 = v2"
    using u_read_file [of s1 "f_fd f" node x E 0 "sz * cnt" dst "sz * cnt" v2] fd(2,3) w(2) s1(2) n1 by auto
  let ?f1 = "advance (sz * cnt) f"
  have f1: "f_fd (rewind ?f1) = f_fd f" "f_offset (rewind ?f1) = 0" "f_eof (rewind ?f1) = 0"
    by (simp_all add: rewind_def advance_def Let_def)
  have "fwrite E src sz cnt f u = Some (Inr (cnt, ?f1, u\<lparr>os := s1\<rparr>))"
    using f s1(1) sz(1) d by (simp add: Stdio.fwrite_def on_os_def)
  moreover have "fread E dst sz cnt (rewind ?f1) (u\<lparr>os := s1\<rparr>) = Some (Inr (cnt, advance (sz * cnt) (rewind ?f1), u\<lparr>os := s2\<rparr>))"
    using f1 s2(1) sz(1) d by (simp add: Stdio.fread_def on_os_def)
  moreover have "f_offset (advance (sz * cnt) (rewind ?f1)) = sz * cnt" using f1 by (simp add: advance_def Let_def)
  moreover have "\<forall>i < unat sz * unat cnt. umem (u\<lparr>os := s2\<rparr>) (dst + of_nat i) = umem u (src + of_nat i)"
    using w(3) s2(2) um by simp
  ultimately show ?thesis by blast
qed


definition env_one :: uenv where
  "env_one = \<lparr>kcfg = cfg_one, mkpipe = (\<lambda>_. 0), uframe = 300, uregs = zero_regs, resumed = (\<lambda>_. None)\<rparr>"

definition prog_one :: uprog where
  "prog_one = \<lparr>os = sys_one\<lparr>syscalls := syscall_table\<rparr>, ublocks = [20000, 20100, 20200, 20300, 20400]\<rparr>"

lemma prog_one_ok [simp]: "user_ok (os prog_one)" "ftab (os prog_one) = fstab_example" "files (os prog_one) = vfs_example"
  "kcfg env_one = cfg_one" "fd_ok cfg_one (os prog_one)" "fd_table (os prog_one) = [300, 0]" "cur (os prog_one) = 100"
  by (simp_all add: env_one_def prog_one_def user_ok_def cur_def fd_ok_def fd_table_def cur_proc_def get_proc_def)
    (simp_all add: sys_one_def sched_one_def cfg_one_def)

lemma fwrite_rewind_fread_witness:
  "\<exists>f1 u1 f2 u2. fwrite env_one 5000 1 1 stdout (prog_one\<lparr>os := (os prog_one)\<lparr>files := vfs_example\<lparr>nodes :=
         [300 \<mapsto> node_at [100] 400\<lparr>inode := 1000, open_flags := 3\<rparr>], mem := (\<lambda>_. 0)(5000 := 42)\<rparr>\<rparr>\<rparr>) = Some (Inr (1, f1, u1))
     \<and> fread env_one 6000 1 1 (rewind f1) u1 = Some (Inr (1, f2, u2)) \<and> umem u2 6000 = 42"
proof -
  let ?x = "node_at [100] 400\<lparr>inode := 1000, open_flags := 3\<rparr>"
  let ?u = "prog_one\<lparr>os := (os prog_one)\<lparr>files := vfs_example\<lparr>nodes := [300 \<mapsto> ?x], mem := (\<lambda>_. 0)(5000 := 42)\<rparr>\<rparr>\<rparr>"
  have "user_ok (os ?u)" using prog_one_ok(1) by (simp add: user_ok_def cur_def)
  moreover have "fd_node 0 (os ?u) = Inr (Some 300)" by (simp add: fd_node_table [of cfg_one])
  moreover have "real_node 300 (files (os ?u)) = Inr 300" by (simp add: real_node_def get_node_def node_at_def vfs_check_flag_def)
  ultimately show ?thesis
    using fwrite_rewind_fread [of ?u stdout 300 ?x 300 env_one ?x no_fs 1 1 5000 6000]
    by (auto simp: stdout_def zero_stream_def node_at_def fstab_example_def get_fs_def no_fs_def apart_def no_wrap_def)
qed

subsection \<open>Directories\<close>

lemma no_wrap_neq: "no_wrap p n \<Longrightarrow> i \<le> n \<Longrightarrow> j \<le> n \<Longrightarrow> i \<noteq> j \<Longrightarrow> p + of_nat i \<noteq> p + of_nat j"
  using no_wrap_index [of p n i] no_wrap_index [of p n j] by auto

lemma fold_upd_at:
  "no_wrap p n \<Longrightarrow> i < n \<Longrightarrow> fold (\<lambda>i m. m(p + of_nat i := g i)) [0..<n] m (p + of_nat i) = (g i :: u8)"
proof (induction n)
  case (Suc n)
  have nw: "no_wrap p n" using Suc.prems(1) by (simp add: no_wrap_def)
  show ?case
  proof (cases "i = n")
    case False
    then have "p + of_nat i \<noteq> p + of_nat n" using Suc.prems by (intro no_wrap_neq [of p "Suc n"]) auto
    then show ?thesis using Suc.IH [OF nw] Suc.prems(2) False by simp
  qed simp
qed simp

lemma fold_upd_other:
  "(\<And>i. i < n \<Longrightarrow> a \<noteq> p + of_nat i) \<Longrightarrow> fold (\<lambda>i m. m(p + of_nat i := g i)) [0..<n] m a = (m a :: u8)"
  by (induction n) auto

lemma put_bytes_cstr:
  assumes "no_wrap p (Suc (length xs))" "0 \<notin> set xs" "m (p + of_nat (length xs)) = 0"
  shows "cstr (put_bytes p xs m) p xs"
proof -
  have l: "put_bytes p xs m (p + of_nat i) = xs ! i" if "i < length xs" for i
    using assms(1) that by (simp add: put_bytes_def fold_upd_at no_wrap_def)
  have "p + of_nat (length xs) \<noteq> p + of_nat i" if "i < length xs" for i
    using assms(1) that by (intro no_wrap_neq [of p "Suc (length xs)"]) auto
  then have e: "put_bytes p xs m (p + of_nat (length xs)) = 0"
    unfolding put_bytes_def by (subst fold_upd_other) (use assms(3) in auto)
  show ?thesis
    using cstr_append [of "put_bytes p xs m" p xs "[]"] l e assms(2) by (auto simp: in_set_conv_nth)
qed

lemma user_ok_files [simp]: "user_ok (files_update g s) = user_ok s"
  by (simp add: user_ok_def cur_def)

lemma memset_zero: "no_wrap p n \<Longrightarrow> n < 4294967296 \<Longrightarrow> i < n \<Longrightarrow> snd (memset p 0 (of_nat n) m) (p + of_nat i) = 0"
  by (simp add: memset_def unat_of_nat_u32 fold_upd_at)

lemma kreaddir_children:
  assumes "real_node node v = Inr r" "nodes v r = Some n" "entries v (entry n) = Some e" "get_fs t (fsid n) = Inr g"
    "freaddir g = None" "Vfs.avail v = a # b # c # rest"
  shows "kreaddir t node v = Inr (\<lparr>chld_cnt = child_count e, chlds = child_list e\<rparr>,
     v\<lparr>Vfs.avail := if child_count e = 0 then c # rest else rest\<rparr>)"
  using assms by (auto simp: kreaddir_def Vfs.kalloc_def get_node_def get_entry_def child_list_def)

lemma u_readdir_runs:
  assumes u: "user_ok s" and fd: "fd_node fd s = Inr (Some node)" "vld (kcfg E) ptr"
    and k: "kreaddir (ftab s) node (files s) = Inr (dir, v)"
  shows "\<not> i < chld_cnt dir \<Longrightarrow> \<exists>s'. u_readdir E fd i ptr s = Some (Inr (1, s')) \<and> files s' = v \<and> calm s s'"
    and "i < chld_cnt dir \<Longrightarrow> unat i < length (chlds dir) \<Longrightarrow> nodes v (chlds dir ! unat i) = Some ch \<Longrightarrow>
      \<exists>s'. u_readdir E fd i ptr s = Some (Inr (0, s')) \<and> calm s s'
        \<and> files s' = v\<lparr>mem := put_bytes ptr (nname ch) (wr32 (ptr + 256) i (mem v))\<rparr>"
proof -
  let ?s = "enter E 9 fd i ptr 0 0 s"
  show "\<exists>s'. u_readdir E fd i ptr s = Some (Inr (1, s')) \<and> files s' = v \<and> calm s s'" if "\<not> i < chld_cnt dir"
  proof -
    have "run_sysfn (kcfg E) (mkpipe E) SysReaddir fd i ptr 0 0 ?s = Some (Inr (1, ?s\<lparr>files := v\<rparr>))"
      using u fd k that by (simp add: run_sysfn_def sys_readdir_def on_files_def)
    then have "u_readdir E fd i ptr s = Some (Inr (1, leave E 1 (?s\<lparr>files := v\<rparr>)))"
      using sys_call_runs(1) [OF u, of 9 SysReaddir] by (simp add: u_readdir_def)
    then show ?thesis using calm_files [OF u] by fastforce
  qed
  show "\<exists>s'. u_readdir E fd i ptr s = Some (Inr (0, s')) \<and> calm s s'
        \<and> files s' = v\<lparr>mem := put_bytes ptr (nname ch) (wr32 (ptr + 256) i (mem v))\<rparr>"
    if "i < chld_cnt dir" "unat i < length (chlds dir)" "nodes v (chlds dir ! unat i) = Some ch"
  proof -
    let ?v = "v\<lparr>mem := put_bytes ptr (nname ch) (wr32 (ptr + 256) i (mem v))\<rparr>"
    have "run_sysfn (kcfg E) (mkpipe E) SysReaddir fd i ptr 0 0 ?s = Some (Inr (0, ?s\<lparr>files := ?v\<rparr>))"
      using u fd k that by (simp add: run_sysfn_def sys_readdir_def on_files_def get_node_def set_mem_def)
    then have "u_readdir E fd i ptr s = Some (Inr (0, leave E 0 (?s\<lparr>files := ?v\<rparr>)))"
      using sys_call_runs(1) [OF u, of 9 SysReaddir] by (simp add: u_readdir_def)
    then show ?thesis using calm_files [OF u] by fastforce
  qed
qed

text \<open>A program that calls \<open>readdir\<close> again and again gets the names of the children of a virtual directory in
  order. With position \<open>i\<close> below their number the call gives a fresh entry that holds the name of child \<open>i\<close>,
  terminated, and moves on; from there on it gives the null pointer.\<close>

theorem readdir_gives_children:
  assumes u: "user_ok (os u)" "ublocks u = dent # bs" "vld (kcfg E) dent" "no_wrap dent 260"
    and fd: "fd_node (d_fd d) (os u) = Inr (Some node)" "real_node node (files (os u)) = Inr r"
    and n: "nodes (files (os u)) r = Some n" "entries (files (os u)) (entry n) = Some e"
    and g: "get_fs (ftab (os u)) (fsid n) = Inr g" "freaddir g = None" "Vfs.avail (files (os u)) = a # b # c # rest"
    and ch: "\<forall>i < unat (child_count e). \<exists>x. nodes (files (os u)) (vfs_entry.childs e i) = Some x \<and> length (nname x) < 256 \<and> 0 \<notin> set (nname x)"
  shows "if c_entry d < child_count e
     then \<exists>u' x. readdir E d u = Some (Inr (dent, d\<lparr>c_entry := c_entry d + 1\<rparr>, u')) \<and> calm (os u) (os u')
        \<and> nodes (files (os u)) (vfs_entry.childs e (unat (c_entry d))) = Some x \<and> cstr (umem u') dent (nname x)
     else \<exists>u'. readdir E d u = Some (Inr (0, d, u'))"
proof -
  let ?m = "snd (memset dent 0 260 (umem u))" and ?i = "c_entry d"
  let ?s = "set_mem ?m (os u)"
  have s: "user_ok ?s" "fd_node (d_fd d) ?s = Inr (Some node)" "ftab ?s = ftab (os u)" using u(1) fd(1) by (simp_all add: set_mem_def)
  obtain v where v: "kreaddir (ftab ?s) node (files ?s) = Inr (\<lparr>chld_cnt = child_count e, chlds = child_list e\<rparr>, v)"
      "nodes v = nodes (files (os u))" "mem v = ?m"
    using kreaddir_children [of node "files ?s" r n e "ftab ?s" g a b c rest] fd(2) n g
    by (simp add: set_mem_def real_node_def get_node_def)
  have st: "readdir E d u = res_bind (u_readdir E (d_fd d) ?i dent ?s)
      (\<lambda>(resp, s). let u' = u\<lparr>ublocks := bs, os := s\<rparr> in
         if resp \<noteq> 0 then Some (Inr (0, d, u')) else Some (Inr (dent, d\<lparr>c_entry := ?i + 1\<rparr>, u')))"
    using u(2) by (simp add: readdir_def umalloc_def on_os_def set_umem_def Let_def res_bind_def split: option.splits sum.splits prod.splits)
  show ?thesis
  proof (cases "?i < child_count e")
    case True
    then have i: "unat ?i < unat (child_count e)" by (simp add: word_less_nat_alt)
    obtain x where x: "nodes (files (os u)) (vfs_entry.childs e (unat ?i)) = Some x" "length (nname x) < 256" "0 \<notin> set (nname x)"
      using ch i by blast
    obtain s' where s': "u_readdir E (d_fd d) ?i dent ?s = Some (Inr (0, s'))" "calm ?s s'"
        "files s' = v\<lparr>mem := put_bytes dent (nname x) (wr32 (dent + 256) ?i (mem v))\<rparr>"
      using u_readdir_runs(2) [OF s(1,2) u(3) v(1), of ?i x] True i x(1) v(2) by (auto simp: child_list_def)
    have "?m (dent + of_nat (length (nname x))) = 0" using memset_zero [OF u(4)] x(2) by simp
    moreover have "dent + of_nat (length (nname x)) \<noteq> dent + of_nat j" if "j \<in> {256, 257, 258, 259}" for j
      using x(2) that by (intro no_wrap_neq [OF u(4)]) auto
    then have "wr32 (dent + 256) ?i ?m (dent + of_nat (length (nname x))) = ?m (dent + of_nat (length (nname x)))"
      by (intro wr32_other) (force simp: algebra_simps)+
    moreover have "no_wrap dent (Suc (length (nname x)))" using u(4) x(2) by (simp add: no_wrap_def)
    ultimately have "cstr (mem (files s')) dent (nname x)" using s'(3) v(3) x(3) by (simp add: put_bytes_cstr)
    moreover have "calm (os u) s'" using s'(2) by (simp add: calm_def set_mem_def)
    ultimately show ?thesis using True st s'(1) x(1) by (simp add: Let_def)
  next
    case False
    then obtain s' where "u_readdir E (d_fd d) ?i dent ?s = Some (Inr (1, s'))"
      using u_readdir_runs(1) [OF s(1,2) u(3) v(1), of ?i] by auto
    then show ?thesis using False st by (simp add: Let_def)
  qed
qed

lemma readdir_gives_children_witness:
  "\<exists>u' x. readdir env_one \<lparr>d_fd = 0, c_entry = 0\<rparr> (prog_one\<lparr>os := (os prog_one)\<lparr>files := vfs_example\<lparr>entries :=
         [400 \<mapsto> \<lparr>child_count = 1, childs = (\<lambda>_. 100), parent = 100\<rparr>]\<rparr>\<rparr>\<rparr>) = Some (Inr (20000, \<lparr>d_fd = 0, c_entry = 1\<rparr>, u'))
     \<and> nodes vfs_example 100 = Some x \<and> cstr (umem u') 20000 (nname x)"
proof -
  let ?e = "\<lparr>child_count = 1, childs = (\<lambda>_. 100), parent = 100\<rparr> :: vfs_entry"
  let ?u = "prog_one\<lparr>os := (os prog_one)\<lparr>files := vfs_example\<lparr>entries := [400 \<mapsto> ?e]\<rparr>\<rparr>\<rparr>"
  have "user_ok (os ?u)" using prog_one_ok(1) by (simp add: user_ok_def cur_def)
  moreover have "fd_node 0 (os ?u) = Inr (Some 300)" by (simp add: fd_node_table [of cfg_one])
  moreover have "real_node 300 (files (os ?u)) = Inr 300"
    by (simp add: real_node_def get_node_def node_at_def vfs_check_flag_def vfs_example_def)
  ultimately show ?thesis
    using readdir_gives_children [of ?u 20000 "[20100, 20200, 20300, 20400]" env_one "\<lparr>d_fd = 0, c_entry = 0\<rparr>" 300 300
        "node_at [100] 400" ?e no_fs 500 600 700 "[]"]
    by (auto simp: prog_one_def node_at_def vfs_example_def fstab_example_def get_fs_def no_fs_def no_wrap_def sys_one_def)
qed

subsection \<open>Ends and empty strings\<close>

text \<open>\<open>fgets\<close> does not notice the end of a file. On a stream that has reached its end, with room for a
  character, it never returns: it waits for a byte that \<open>fread\<close> no longer asks for, however often it
  tries.\<close>

theorem fgets_hangs_at_end:
  assumes "f_eof f \<noteq> 0" "1 < sint num"
  shows "fgets k E str num f u = None"
proof -
  have w: "fgets_wait k E p f u = None" for k p
    using assms(1) by (induction k) (simp_all add: Stdio.fread_def)
  obtain left where "nat (sint num - 1) = Suc left" using assms(2) by (cases "nat (sint num - 1)") auto
  then show ?thesis using w by (simp add: fgets_def)
qed

lemma fgets_hangs_at_end_witness: "fgets 1000 env_one 5000 80 (stdin\<lparr>f_eof := 1\<rparr>) prog_one = None"
  by (rule fgets_hangs_at_end) (simp_all add: stdin_def zero_stream_def)

text \<open>Printing an empty string divides by zero. \<open>fputs\<close> passes the length of the string as the size of a
  block to \<open>fwrite\<close>, which divides what was written by it; so does \<open>printf("%s", "")\<close>.\<close>

theorem fputs_empty_divides:
  assumes u: "user_ok (os u)" "f_eof f = 0" "umem u str = 0"
    and fd: "fd_node (f_fd f) (os u) = Inr (Some node)" "nodes (files (os u)) node = Some x" "open_flags x AND F_WRITE \<noteq> 0"
    and k: "kwrite (vld (kcfg E)) (ftab (os u)) node (scast (f_offset f)) 0 str (files (os u)) = Inr (r, v)"
  shows "fputs E str f u = Some (Inl DivZero)"
proof -
  obtain s' where "u_write E (f_fd f) (scast (f_offset f)) 0 str (os u) = Some (Inr (r, s'))"
    using u_write_file [OF u(1) fd k] by blast
  moreover have "strlen (umem u) str = Some 0" using u(3) strlen_cstr [of "umem u" str "[]"] by simp
  ultimately show ?thesis using u(2) by (simp add: fputs_def Stdio.fwrite_def on_os_def)
qed

lemma fputs_empty_divides_witness:
  "fputs env_one 5000 stdout (prog_one\<lparr>os := (os prog_one)\<lparr>files := vfs_example\<lparr>nodes :=
         [300 \<mapsto> node_at [100] 400\<lparr>inode := 1000, open_flags := 3\<rparr>]\<rparr>\<rparr>\<rparr>) = Some (Inl DivZero)"
proof -
  let ?x = "node_at [100] 400\<lparr>inode := 1000, open_flags := 3\<rparr>"
  let ?u = "prog_one\<lparr>os := (os prog_one)\<lparr>files := vfs_example\<lparr>nodes := [300 \<mapsto> ?x]\<rparr>\<rparr>\<rparr>"
  have "user_ok (os ?u)" using prog_one_ok(1) by (simp add: user_ok_def cur_def)
  moreover have "fd_node 0 (os ?u) = Inr (Some 300)" by (simp add: fd_node_table [of cfg_one])
  moreover have "\<exists>r v. kwrite (vld cfg_one) fstab_example 300 0 0 5000 (files (os ?u)) = Inr (r, v)"
    by (simp add: kwrite_def real_node_def get_node_def node_at_def vfs_check_flag_def fstab_example_def get_fs_def no_fs_def vfs_write_def)
  ultimately show ?thesis
    using fputs_empty_divides [of ?u stdout 5000 300 ?x env_one]
    by (auto simp: stdout_def zero_stream_def node_at_def vfs_example_def)
qed

subsection \<open>Seeking\<close>

lemma int_result_ok: "int_result i = Inr w \<longleftrightarrow> - (2 ^ 31) \<le> i \<and> i < 2 ^ 31 \<and> w = word_of_int i"
  by (auto simp: int_result_def)

lemma sint_of_int: "- (2 ^ 31) \<le> i \<Longrightarrow> i < 2 ^ 31 \<Longrightarrow> sint (word_of_int i :: u32) = i"
  by (simp add: sint_sbintrunc' signed_take_bit_int_eq_self)

lemma fseek_set:
  "0 \<le> sint n \<Longrightarrow> sint n \<le> sint (f_size f) \<Longrightarrow>
    \<exists>f'. fseek f n SEEK_SET = Inr (0, f') \<and> ftell f' = n \<and> (feof f' \<noteq> 0 \<longleftrightarrow> sint n = sint (f_size f))"
  by (auto simp: fseek_def seek_target_def ftell_def feof_def)

text \<open>\<open>SEEK_END\<close> counts the wrong way. With a negative offset, which a caller gives to reach a place before the
  end, the position is behind the end by as much, the call reports success and the stream is at its end.\<close>

theorem fseek_end_mirrored:
  assumes "0 \<le> sint (f_size f)" "sint n < 0" "sint (f_size f) - sint n < 2 ^ 31"
  shows "\<exists>f'. fseek f n SEEK_END = Inr (0, f') \<and> sint (ftell f') = sint (f_size f) - sint n
     \<and> sint (ftell f') > sint (f_size f) \<and> feof f' = 1"
proof -
  let ?i = "sint (f_size f) - sint n"
  have i: "- (2 ^ 31) \<le> ?i" "?i < 2 ^ 31" using assms by auto
  have "seek_target (f\<lparr>f_ungetc := 0\<rparr>) n SEEK_END = Inr (Some (word_of_int ?i))"
    using assms i by (simp add: seek_target_def int_result_def)
  then show ?thesis
    using assms sint_of_int [OF i] by (simp add: fseek_def ftell_def feof_def del: of_int_diff)
qed

lemma fseek_end_mirrored_witness:
  "\<exists>f'. fseek (zero_stream\<lparr>f_size := 100\<rparr>) (- 10) SEEK_END = Inr (0, f') \<and> sint (ftell f') = 110 \<and> feof f' = 1"
  using fseek_end_mirrored [of "zero_stream\<lparr>f_size := 100\<rparr>" "- 10"] by auto

end
