(* ===== verification/Env.thy ===== *)
theory Env
  imports Stdio
begin

text \<open>
  The environment of a user program, \<open>libc/stdlib/env.c\<close>, its start and end: \<open>libc_init\<close> (\<open>libc/libc_init.c\<close>),
  \<open>atexit\<close>, \<open>exit\<close> and \<open>abort\<close> (\<open>libc/stdlib\<close>). The table \<open>environ\<close> is a block of words, a list of the
  length that was allocated; its entries are addresses of strings in memory. The addresses 0 and 1 belong
  to no object, and following them is a fault. The functions that the program itself supplies, \<open>main\<close> and
  the handlers, are arguments.
\<close>

record libc =
  up :: uprog
  environ :: "u32 list"
  env_size :: u32
  cxa_atexit_handlers :: "(u32 \<times> u32) list"
  cxa_atexit_last_handler :: u16

abbreviation lmem :: "libc \<Rightarrow> bytes" where
  "lmem st \<equiv> umem (up st)"

definition set_lmem :: "bytes \<Rightarrow> libc \<Rightarrow> libc" where
  "set_lmem m st = st\<lparr>up := set_umem m (up st)\<rparr>"

definition lmalloc :: "libc \<Rightarrow> (u32 \<times> libc) res" where
  "lmalloc st = sbind (umalloc (up st)) (\<lambda>(p, u). Inr (p, st\<lparr>up := u\<rparr>))"

definition on_up :: "(uprog \<Rightarrow> ('a \<times> uprog) res option) \<Rightarrow> libc \<Rightarrow> ('a \<times> libc) res option" where
  "on_up f st = res_bind (f (up st)) (\<lambda>(r, u). Some (Inr (r, st\<lparr>up := u\<rparr>)))"

subsection \<open>env.c\<close>

fun find_eq :: "bytes \<Rightarrow> u32 \<Rightarrow> u32 \<Rightarrow> nat \<Rightarrow> u32 option" where
  "find_eq m p i 0 = None"
| "find_eq m p i (Suc k) = (if m (p + i) = 61 then Some i else find_eq m p (i + 1) k)"

text \<open>A part of an entry goes to a block of its own.\<close>

definition env_part :: "(u32 \<Rightarrow> u32 \<Rightarrow> u32 \<times> u32) \<Rightarrow> u32 \<Rightarrow> libc \<Rightarrow> (u32 \<times> libc) res option" where
  "env_part part ent st =
     (if ent = 0 \<or> ent = 1 then Some (Inl Wild)
      else Option.bind (strlen (lmem st) ent) (\<lambda>n.
        case find_eq (lmem st) ent 0 (unat n) of
          None \<Rightarrow> Some (Inr (0, st))
        | Some i \<Rightarrow> res_bind (Some (lmalloc st)) (\<lambda>(block, st).
            case part i n of (a, b) \<Rightarrow> case substr block ent a b (lmem st) of
              (r, m) \<Rightarrow> Some (Inr (r, set_lmem m st)))))"

definition env_get_name :: "u32 \<Rightarrow> libc \<Rightarrow> (u32 \<times> libc) res option" where
  "env_get_name = env_part (\<lambda>i n. (0, i))"

definition env_get_value :: "u32 \<Rightarrow> libc \<Rightarrow> (u32 \<times> libc) res option" where
  "env_get_value = env_part (\<lambda>i n. (i + 1, n))"

text \<open>\<open>strcmp\<close> with a pointer that may be null.\<close>

definition env_name_is :: "u32 \<Rightarrow> u32 \<Rightarrow> libc \<Rightarrow> (bool \<times> libc) res option" where
  "env_name_is a ent st =
     res_bind (env_get_name ent st) (\<lambda>(name, st).
       if name = 0 then Some (Inl Wild)
       else Option.bind (strcmp (lmem st) a name) (\<lambda>r. Some (Inr (r = 0, st))))"

fun getenv_loop :: "u32 \<Rightarrow> nat \<Rightarrow> nat \<Rightarrow> libc \<Rightarrow> (u32 \<times> libc) res option" where
  "getenv_loop a i 0 st = Some (Inr (0, st))"
| "getenv_loop a i (Suc k) st =
     res_bind (Some (load_at (environ st) i)) (\<lambda>ent.
       if ent = 1 then getenv_loop a (Suc i) k st
       else res_bind (env_name_is a ent st) (\<lambda>(same, st).
         if same then env_get_value ent st else getenv_loop a (Suc i) k st))"

definition getenv :: "u32 \<Rightarrow> libc \<Rightarrow> (u32 \<times> libc) res option" where
  "getenv a st = (if env_size st = 0 then Some (Inr (0, st)) else getenv_loop a 0 (unat (env_size st)) st)"

definition realloc_words :: "nat \<Rightarrow> u32 list \<Rightarrow> u32 list" where
  "realloc_words n xs = take n (xs @ replicate n 0)"

text \<open>Appending a literal.\<close>

definition strcat_lit :: "u32 \<Rightarrow> u8 list \<Rightarrow> bytes \<Rightarrow> bytes option" where
  "strcat_lit dest lit m = map_option (\<lambda>n. put_str (dest + n) lit m) (strlen m dest)"

definition env_set_value :: "u32 \<Rightarrow> u32 \<Rightarrow> libc \<Rightarrow> (u32 \<times> libc) res option" where
  "env_set_value ent val st =
     res_bind (env_get_name ent st) (\<lambda>(name, st).
     if name = 0 then Some (Inl Wild)
     else Option.bind (strlen (lmem st) name) (\<lambda>l.
       let m = (lmem st)(name + l := 61, name + l + 1 := 0)
       in Option.bind (strcat name val m) (\<lambda>(r, m). Some (Inr (r, set_lmem m st)))))"

text \<open>With an entry present the first round of the search never ends; so the search finds no slot that
  was freed, and what is left is the case of an empty table.\<close>

definition setenv :: "u32 \<Rightarrow> u32 \<Rightarrow> u32 \<Rightarrow> libc \<Rightarrow> (u32 \<times> libc) res option" where
  "setenv name val overwrite st =
     (if env_size st \<noteq> 0 then None
      else
        let size' = env_size st + 1; tab = realloc_words (unat (size' + 1)) (environ st); ind = unat (size' - 1) in
        res_bind (Some (lmalloc (st\<lparr>env_size := size'\<rparr>))) (\<lambda>(ent, st).
        res_bind (Some (store_at tab ind ent)) (\<lambda>tab.
        Option.bind (strcpy ent name (lmem st)) (\<lambda>m.
        Option.bind (strcat_lit ent [61] m) (\<lambda>m.
        Option.bind (strcat ent val m) (\<lambda>(_, m).
        res_bind (Some (store_at tab (unat size') 0)) (\<lambda>tab.
          Some (Inr (0, set_lmem m (st\<lparr>environ := tab\<rparr>))))))))))"

fun unsetenv_loop :: "u32 \<Rightarrow> nat \<Rightarrow> nat \<Rightarrow> libc \<Rightarrow> libc res option" where
  "unsetenv_loop name i 0 st = Some (Inr st)"
| "unsetenv_loop name i (Suc k) st =
     res_bind (Some (load_at (environ st) i)) (\<lambda>ent.
     res_bind (env_name_is name ent st) (\<lambda>(same, st).
       unsetenv_loop name (Suc i) k (if same then st\<lparr>environ := (environ st)[i := 1]\<rparr> else st)))"

definition unsetenv :: "u32 \<Rightarrow> libc \<Rightarrow> (u32 \<times> libc) res option" where
  "unsetenv name st =
     (if env_size st = 0 then Some (Inr (- 1, st))
      else res_bind (unsetenv_loop name 0 (unat (env_size st)) st) (\<lambda>st. Some (Inr (- 1, st))))"

subsection \<open>Leaving a program\<close>

definition MAX_CXA_HANDLERS :: nat where "MAX_CXA_HANDLERS = 256"

definition cxa_atexit :: "u32 \<Rightarrow> u32 \<Rightarrow> libc \<Rightarrow> (u32 \<times> libc) res" where
  "cxa_atexit handl arg st =
     (if MAX_CXA_HANDLERS \<le> unat (cxa_atexit_last_handler st) then Inr (1, st)
      else sbind (store_at (cxa_atexit_handlers st) (unat (cxa_atexit_last_handler st)) (handl, arg)) (\<lambda>hs.
        Inr (0, st\<lparr>cxa_atexit_handlers := hs, cxa_atexit_last_handler := cxa_atexit_last_handler st + 1\<rparr>)))"

definition atexit :: "u32 \<Rightarrow> libc \<Rightarrow> (u32 \<times> libc) res" where
  "atexit func st = cxa_atexit func 0 st"

text \<open>A handler may register others, so the loop has fuel.\<close>

fun exit_loop :: "nat \<Rightarrow> (u32 \<Rightarrow> u32 \<Rightarrow> libc \<Rightarrow> libc res option) \<Rightarrow> libc \<Rightarrow> libc res option" where
  "exit_loop 0 run st = None"
| "exit_loop (Suc k) run st =
     (if cxa_atexit_last_handler st = 0 then Some (Inr st)
      else
        let st = st\<lparr>cxa_atexit_last_handler := cxa_atexit_last_handler st - 1\<rparr> in
        res_bind (Some (load_at (cxa_atexit_handlers st) (unat (cxa_atexit_last_handler st)))) (\<lambda>(handl, arg).
        res_bind (run handl arg st) (exit_loop k run)))"

definition exit :: "nat \<Rightarrow> uenv \<Rightarrow> (u32 \<Rightarrow> u32 \<Rightarrow> libc \<Rightarrow> libc res option) \<Rightarrow> u32 \<Rightarrow> libc \<Rightarrow> (u32 \<times> libc) res option" where
  "exit k E run code st = res_bind (exit_loop k run st) (\<lambda>st. on_up (on_os (u_exit E 0)) st)"

definition abort :: "uenv \<Rightarrow> libc \<Rightarrow> (u32 \<times> libc) res option" where
  "abort E st = on_up (on_os (u_exit E 1)) st"

subsection \<open>libc_init.c\<close>

text \<open>The pointers of \<open>envp\<close> are copied to a table that grows after each store.\<close>

fun copy_env :: "nat \<Rightarrow> u32 \<Rightarrow> nat \<Rightarrow> libc \<Rightarrow> libc res option" where
  "copy_env 0 envp i st = None"
| "copy_env (Suc k) envp i st =
     (let e = rd32 (lmem st) (envp + 4 * of_nat i) in
      if e \<noteq> 0 then
        res_bind (Some (store_at (environ st) i e)) (\<lambda>tab.
          copy_env k envp (Suc i) (st\<lparr>environ := realloc_words (Suc i) tab\<rparr>))
      else
        res_bind (Some (store_at (environ st) i 0)) (\<lambda>tab.
          Some (Inr (st\<lparr>environ := tab, env_size := of_nat i\<rparr>))))"

definition init_env :: "nat \<Rightarrow> uenv \<Rightarrow> u32 \<Rightarrow> libc \<Rightarrow> libc res option" where
  "init_env k E envp st =
     (let st = st\<lparr>environ := [0], env_size := 0\<rparr> in
      if envp = 0 then Some (Inr st)
      else res_bind (on_up (on_os (u_getpid E)) st) (\<lambda>(i, st).
        if i = 1 then Some (Inr st) else copy_env k envp 0 st))"

text \<open>The three standard files lie in the directory of the process; \<open>name\<close> is the last component.\<close>

definition proc_path :: "u8 list \<Rightarrow> u32 \<Rightarrow> u8 list res" where
  "proc_path name i =
     sbind (vsprintf (\<lambda>_. []) ([47, 112, 114, 111, 99, 47, 37, 100, 47] @ name) [i]) (\<lambda>(_, out).
       if length out \<ge> 64 then Inl Wild else Inr out)"

definition open_std :: "uenv \<Rightarrow> u32 \<Rightarrow> u8 list \<Rightarrow> u8 \<Rightarrow> libc \<Rightarrow> libc res option" where
  "open_std E path name fl st =
     res_bind (on_up (on_os (u_getpid E)) (set_lmem (snd (memset path 0 64 (lmem st))) st)) (\<lambda>(i, st).
     res_bind (Some (proc_path name i)) (\<lambda>out.
     res_bind (on_up (on_os (u_open E path fl)) (set_lmem (put_str path out (lmem st)) st)) (\<lambda>(_, st).
       Some (Inr st))))"

definition libc_init ::
    "nat \<Rightarrow> uenv \<Rightarrow> (u32 \<Rightarrow> u32 \<Rightarrow> u32 \<Rightarrow> libc \<Rightarrow> (u32 \<times> libc) res option) \<Rightarrow> (u32 \<Rightarrow> u32 \<Rightarrow> libc \<Rightarrow> libc res option) \<Rightarrow>
      u32 \<Rightarrow> u32 \<Rightarrow> u32 \<Rightarrow> libc \<Rightarrow> (u32 \<times> libc) res option" where
  "libc_init k E main run argc argv envp st =
     res_bind (init_env k E envp st) (\<lambda>st.
     res_bind (Some (lmalloc st)) (\<lambda>(path, st).
     res_bind (open_std E path [115, 116, 100, 111, 117, 116] F_WRITE st) (\<lambda>st.
     res_bind (open_std E path [115, 116, 100, 101, 114, 114] F_WRITE st) (\<lambda>st.
     res_bind (open_std E path [115, 116, 100, 105, 110] F_READ st) (\<lambda>st.
     res_bind (main argc argv envp st) (\<lambda>(resp, st).
     res_bind (on_up (on_os (u_sleep E 2)) st) (\<lambda>(_, st).
       exit k E run resp st)))))))"

subsection \<open>Handlers\<close>

fun register_all :: "(u32 \<times> u32) list \<Rightarrow> libc \<Rightarrow> libc res" where
  "register_all [] st = Inr st"
| "register_all ((h, a) # hs) st = sbind (cxa_atexit h a st) (\<lambda>(r, st). if r = 0 then register_all hs st else Inl Wild)"

lemma register_all_table:
  "length (cxa_atexit_handlers st) = 256 \<Longrightarrow> unat (cxa_atexit_last_handler st) + length hs \<le> 256 \<Longrightarrow>
    \<exists>st'. register_all hs st = Inr st' \<and> cxa_atexit_last_handler st' = cxa_atexit_last_handler st + of_nat (length hs)
      \<and> take (unat (cxa_atexit_last_handler st) + length hs) (cxa_atexit_handlers st')
         = take (unat (cxa_atexit_last_handler st)) (cxa_atexit_handlers st) @ hs
      \<and> length (cxa_atexit_handlers st') = 256
      \<and> st' = st\<lparr>cxa_atexit_handlers := cxa_atexit_handlers st', cxa_atexit_last_handler := cxa_atexit_last_handler st'\<rparr>"
proof (induction hs arbitrary: st)
  case (Cons x hs)
  obtain h a where x: "x = (h, a)" by (cases x)
  let ?l = "cxa_atexit_last_handler st" and ?t = "cxa_atexit_handlers st"
  let ?st = "st\<lparr>cxa_atexit_handlers := ?t[unat ?l := (h, a)], cxa_atexit_last_handler := ?l + 1\<rparr>"
  have l: "unat ?l < 256" "unat (?l + 1) = unat ?l + 1"
    using Cons.prems(2) by (auto simp: unat_word_ariths)
  have c: "cxa_atexit h a st = Inr (0, ?st)"
    using l(1) Cons.prems(1) by (simp add: cxa_atexit_def MAX_CXA_HANDLERS_def)
  obtain st' where st': "register_all hs ?st = Inr st'"
      "cxa_atexit_last_handler st' = ?l + 1 + of_nat (length hs)"
      "take (unat ?l + 1 + length hs) (cxa_atexit_handlers st') = take (unat ?l + 1) (?t[unat ?l := (h, a)]) @ hs"
      "length (cxa_atexit_handlers st') = 256"
      "st' = ?st\<lparr>cxa_atexit_handlers := cxa_atexit_handlers st', cxa_atexit_last_handler := cxa_atexit_last_handler st'\<rparr>"
    using Cons.IH [of ?st] Cons.prems l(2) by auto
  have "take (unat ?l + 1) (?t[unat ?l := (h, a)]) = take (unat ?l) ?t @ [(h, a)]"
    using l(1) Cons.prems(1) by (simp add: take_Suc_conv_app_nth)
  then show ?case using c st' x by (intro exI [of _ st']) (simp add: algebra_simps)
qed simp

text \<open>Handlers that act on the rest of the program.\<close>

definition runs :: "(u32 \<Rightarrow> u32 \<Rightarrow> uprog \<Rightarrow> uprog) \<Rightarrow> u32 \<Rightarrow> u32 \<Rightarrow> libc \<Rightarrow> libc res option" where
  "runs g h a st = Some (Inr (st\<lparr>up := g h a (up st)\<rparr>))"

lemma exit_loop_reverse:
  "length (cxa_atexit_handlers st) = 256 \<Longrightarrow> take n (cxa_atexit_handlers st) = hs \<Longrightarrow> n \<le> 256 \<Longrightarrow>
    cxa_atexit_last_handler st = of_nat n \<Longrightarrow> n < k \<Longrightarrow>
    exit_loop k (runs g) st = Some (Inr (st\<lparr>cxa_atexit_last_handler := 0, up := fold (\<lambda>(h, a). g h a) (rev hs) (up st)\<rparr>))"
proof (induction n arbitrary: st k hs)
  case 0
  then show ?case by (cases k) auto
next
  case (Suc n)
  obtain k' where k: "k = Suc k'" using Suc.prems(5) by (cases k) auto
  obtain h a where ha: "cxa_atexit_handlers st ! n = (h, a)" by (cases "cxa_atexit_handlers st ! n")
  then have hs: "hs = take n (cxa_atexit_handlers st) @ [(h, a)]"
    using Suc.prems(1-3) by (simp add: take_Suc_conv_app_nth)
  let ?st = "st\<lparr>cxa_atexit_last_handler := of_nat n, up := g h a (up st)\<rparr>"
  have n: "unat (of_nat n :: u16) = n" using Suc.prems(3) by (simp add: unat_of_nat take_bit_nat_eq_self)
  have "unat (of_nat (Suc n) :: u16) = Suc n"
    using Suc.prems(3) by (simp add: unat_of_nat take_bit_nat_eq_self del: of_nat_Suc)
  then have nz: "(of_nat (Suc n) :: u16) \<noteq> 0" by (metis nat.distinct(1) unat_0)
  have "exit_loop k (runs g) st = exit_loop k' (runs g) ?st"
    using Suc.prems n nz ha k by (simp add: runs_def)
  also have "\<dots> = Some (Inr (?st\<lparr>cxa_atexit_last_handler := 0, up := fold (\<lambda>(h, a). g h a) (rev (take n (cxa_atexit_handlers st))) (up ?st)\<rparr>))"
    using Suc.IH [of ?st "take n (cxa_atexit_handlers st)" k'] Suc.prems k by simp
  finally show ?case by (simp add: hs)
qed

text \<open>C29: Handlers run last in, first out. If functions were registered with \<open>__cxa_atexit\<close> (or \<open>atexit\<close>), at most 256,
  on an empty table, then each registration reports success, and the loop of \<open>exit\<close> ends and calls every one
  of them once, with its argument, in reverse order; the handlers themselves register no others.\<close>

theorem exit_runs_handlers_in_reverse:
  assumes "length (cxa_atexit_handlers st) = 256" "cxa_atexit_last_handler st = 0" "length hs \<le> 256" "length hs < k"
  shows "\<exists>st' st''. register_all hs st = Inr st' \<and> exit_loop k (runs g) st' = Some (Inr st'')
     \<and> up st'' = fold (\<lambda>(h, a). g h a) (rev hs) (up st) \<and> cxa_atexit_last_handler st'' = 0"
proof -
  obtain st' where st': "register_all hs st = Inr st'" "cxa_atexit_last_handler st' = of_nat (length hs)"
      "take (length hs) (cxa_atexit_handlers st') = hs" "length (cxa_atexit_handlers st') = 256"
      "st' = st\<lparr>cxa_atexit_handlers := cxa_atexit_handlers st', cxa_atexit_last_handler := cxa_atexit_last_handler st'\<rparr>"
    using register_all_table [of st hs] assms by auto
  have "up st' = up st" using arg_cong [OF st'(5), of up] by simp
  then show ?thesis
    using st'(1) exit_loop_reverse [OF st'(4,3) assms(3) st'(2) assms(4), of g] by simp
qed

definition libc_one :: libc where
  "libc_one = \<lparr>up = prog_one, environ = [0], env_size = 0, cxa_atexit_handlers = replicate 256 (0, 0), cxa_atexit_last_handler = 0\<rparr>"

lemma exit_runs_handlers_in_reverse_witness:
  "\<exists>st' st''. register_all [(10, 1), (20, 2)] libc_one = Inr st'
     \<and> exit_loop 3 (runs (\<lambda>h a u. u\<lparr>ublocks := h # ublocks u\<rparr>)) st' = Some (Inr st'')
     \<and> take 2 (ublocks (up st'')) = [10, 20]"
  using exit_runs_handlers_in_reverse [of libc_one "[(10, 1), (20, 2)]" 3 "\<lambda>h a u. u\<lparr>ublocks := h # ublocks u\<rparr>"]
  by (auto simp: libc_one_def)

subsection \<open>Starting with an environment\<close>

lemma calm_enter: "user_ok s \<Longrightarrow> calm s (leave E r (enter E n a b c d e s))"
  using user_ok_kern [of "enter E n a b c d e s" E n a b c d e s] by (simp add: calm_def)

lemma u_getpid_runs:
  assumes "user_ok s" "procs (kern s) (cur s) = Some x"
  shows "\<exists>s'. u_getpid E s = Some (Inr (pid x, s')) \<and> files s' = files s \<and> calm s s'"
proof -
  let ?s = "enter E 23 0 0 0 0 0 s"
  have "cur_proc ?s = Inr (x\<lparr>syscall_state := uframe E\<rparr>)"
    using assms(2) by (simp add: cur_proc_def get_proc_def) (simp add: enter_def)
  then have "run_sysfn (kcfg E) (mkpipe E) SysGetpid 0 0 0 0 0 ?s = Some (Inr (pid x, ?s))"
    by (simp add: run_sysfn_def sys_getpid_def)
  then have "u_getpid E s = Some (Inr (pid x, leave E (pid x) ?s))"
    using sys_call_runs(1) [OF assms(1), of 23 SysGetpid] by (simp add: u_getpid_def)
  moreover have "calm s (leave E (pid x) ?s)" by (rule calm_enter [OF assms(1)])
  ultimately show ?thesis by fastforce
qed

text \<open>A program with an environment writes behind its table before \<open>main\<close>. \<open>libc_init\<close> stores a pointer into the
  one word it has allocated and then reallocates to one word again, so that the store of the second pointer,
  or of the null pointer at the end, goes behind the block; only process 1, or a program started without an
  environment, gets through.\<close>

theorem libc_init_overflows:
  assumes "user_ok (os (up st))" "procs (kern (os (up st))) (cur (os (up st))) = Some x" "pid x \<noteq> 1"
    and "envp \<noteq> 0" "rd32 (lmem st) envp \<noteq> 0"
  shows "libc_init (Suc (Suc k)) E main run argc argv envp st = Some (Inl Wild)"
proof -
  obtain s' where s': "u_getpid E (os (up st)) = Some (Inr (pid x, s'))" "files s' = files (os (up st))"
    using u_getpid_runs [OF assms(1,2)] by blast
  have "init_env (Suc (Suc k)) E envp st = Some (Inl Wild)"
    using assms(3-5) s'
    by (simp add: init_env_def on_up_def on_os_def Let_def realloc_words_def) (simp add: store_at_def)
  then show ?thesis by (simp add: libc_init_def)
qed

lemma libc_init_overflows_witness:
  "libc_init (Suc (Suc 100)) env_one (\<lambda>_ _ _ st. Some (Inr (0, st))) (\<lambda>_ _ st. Some (Inr st)) 0 0 4000
     (libc_one\<lparr>up := prog_one\<lparr>os := (os prog_one)\<lparr>files := vfs_example\<lparr>mem := wr32 4000 5000 (\<lambda>_. 0)\<rparr>\<rparr>\<rparr>\<rparr>) = Some (Inl Wild)"
proof -
  let ?s = "(os prog_one)\<lparr>files := vfs_example\<lparr>mem := wr32 4000 5000 (\<lambda>_. 0)\<rparr>\<rparr>"
  have "user_ok ?s" "procs (kern ?s) (cur ?s) = Some proc_one"
    using prog_one_ok(1) by (simp_all add: user_ok_def cur_def prog_one_def sys_one_def sched_one_def)
  moreover have "pid proc_one \<noteq> 1" by (simp add: proc_one_def)
  ultimately show ?thesis by (intro libc_init_overflows [where x = proc_one]) simp_all
qed

subsection \<open>The environment\<close>

lemma substr_loop_copies:
  "m src \<noteq> 0 \<Longrightarrow> apart d (Suc k) src n \<Longrightarrow> i + k \<le> n \<Longrightarrow> 0 < n \<Longrightarrow>
    \<exists>m'. substr_loop src d (of_nat i) k m = (d + of_nat k, m') \<and> (\<forall>j < k. m' (d + of_nat j) = m (src + of_nat (i + j)))
      \<and> (\<forall>a. unat a < unat d \<or> unat d + k \<le> unat a \<longrightarrow> m' a = m a)"
proof (induction k arbitrary: d i m)
  case (Suc k)
  let ?m = "m(d := m (src + of_nat i))"
  have ne: "d \<noteq> src + of_nat l" if "l < n" for l using apart_neq [OF Suc.prems(2), of 0 l] that by simp
  have nz: "?m src \<noteq> 0" using ne [of 0] Suc.prems(1,4) by auto
  have d1: "unat (d + 1) = unat d + 1" "apart (d + 1) (Suc k) src n"
    using Suc.prems(2) no_wrap_index [of d "Suc (Suc k)" 1] by (auto simp: apart_def no_wrap_def)
  have "Suc i + k \<le> n" using Suc.prems(3) by simp
  from Suc.IH [where m = ?m and d = "d + 1" and i = "Suc i", OF nz d1(2) this Suc.prems(4)] obtain m' where
      m': "substr_loop src (d + 1) (of_nat (Suc i)) k ?m = (d + 1 + of_nat k, m')"
      "\<forall>j < k. m' (d + 1 + of_nat j) = ?m (src + of_nat (Suc i + j))"
      "\<forall>a. unat a < unat (d + 1) \<or> unat (d + 1) + k \<le> unat a \<longrightarrow> m' a = ?m a"
    by blast
  have "m' (d + of_nat j) = m (src + of_nat (i + j))" if "j < Suc k" for j
  proof (cases j)
    case 0
    then show ?thesis using m'(3) d1(1) by simp
  next
    case (Suc l)
    then show ?thesis using m'(2) ne [of "Suc i + l"] that Suc.prems(3) by (auto simp: algebra_simps)
  qed
  moreover have "m' a = m a" if "unat a < unat d \<or> unat d + Suc k \<le> unat a" for a
    using m'(3) d1(1) that by auto
  ultimately show ?case using m'(1) Suc.prems(1) by (intro exI [of _ m']) (simp add: algebra_simps)
qed simp

lemma substr_copies:
  assumes "cstr m src xs" "xs \<noteq> []" "a \<le> b" "b \<le> length xs" "length xs < 2 ^ 31"
    and "apart block (Suc (b - a)) src (Suc (length xs))"
  shows "\<exists>m'. substr block src (of_nat a) (of_nat b) m = (block, m') \<and> cstr m' block (take (b - a) (drop a xs))
      \<and> (\<forall>p. unat p < unat block \<or> unat block + (b - a) < unat p \<longrightarrow> m' p = m p)"
proof -
  have nth: "m (src + of_nat i) = xs ! i \<and> xs ! i \<noteq> 0" if "i < length xs" for i
    using assms(1) cstr_append [of m src xs "[]"] that by simp
  have k: "nat (sint (of_nat b :: u32) - sint (of_nat a :: u32)) = b - a"
    using assms(3-5) by (simp add: signed_of_nat signed_take_bit_int_eq_self sint_uint unsigned_of_nat take_bit_nat_eq_self)
  obtain m' where m': "substr_loop src block (of_nat a) (b - a) m = (block + of_nat (b - a), m')"
      "\<forall>j < b - a. m' (block + of_nat j) = m (src + of_nat (a + j))"
      "\<forall>p. unat p < unat block \<or> unat block + (b - a) \<le> unat p \<longrightarrow> m' p = m p"
    using substr_loop_copies [of m src block "b - a" "Suc (length xs)" a] nth [of 0] assms(2-4,6) by auto
  let ?m = "m'(block + of_nat (b - a) := 0)"
  have nw: "no_wrap block (Suc (b - a))" using assms(6) by (simp add: apart_def)
  have u: "unat (block + of_nat (b - a)) = unat block + (b - a)" using no_wrap_index [OF nw] by simp
  have "?m (block + of_nat j) = drop a xs ! j \<and> drop a xs ! j \<noteq> 0" if "j < b - a" for j
    using that m'(2) nth [of "a + j"] assms(4) no_wrap_neq [OF nw, of j "b - a"] by simp
  then have "cstr ?m block (take (b - a) (drop a xs))"
    using cstr_append [of ?m block "take (b - a) (drop a xs)" "[]"] assms(4) by simp
  moreover have "substr block src (of_nat a) (of_nat b) m = (block, ?m)"
    using m'(1) k assms(3) by (simp add: substr_def of_nat_diff)
  moreover have "?m p = m p" if "unat p < unat block \<or> unat block + (b - a) < unat p" for p
    using that m'(3) u by auto
  ultimately show ?thesis by blast
qed

lemma find_eq_first:
  "\<forall>j < n. m (p + i + of_nat j) \<noteq> 61 \<Longrightarrow> m (p + i + of_nat n) = 61 \<Longrightarrow> n < k \<Longrightarrow> find_eq m p i k = Some (i + of_nat n)"
proof (induction n arbitrary: i k)
  case 0
  then show ?case by (cases k) auto
next
  case (Suc n)
  obtain k' where k: "k = Suc k'" using Suc.prems(3) by (cases k) auto
  have "m (p + (i + 1) + of_nat j) \<noteq> 61" if "j < n" for j
    using Suc.prems(1) [rule_format, of "Suc j"] that by (simp add: algebra_simps)
  moreover have "m (p + (i + 1) + of_nat n) = 61" using Suc.prems(2) by (simp add: algebra_simps)
  ultimately have "find_eq m p (i + 1) k' = Some (i + 1 + of_nat n)" using Suc.IH k Suc.prems(3) by blast
  moreover have "m (p + i) \<noteq> 61" using Suc.prems(1) [rule_format, of 0] by simp
  ultimately show ?case using k by (simp add: algebra_simps)
qed

lemma env_part_runs:
  assumes c: "cstr (lmem st) ent (nm @ 61 # vl)" "61 \<notin> set nm" "ent \<noteq> 0" "ent \<noteq> 1" "length nm + length vl < 2147483647"
    and b: "ublocks (up st) = b # bs" "apart b (Suc (y - x)) ent (length nm + length vl + 2)"
    and part: "part (of_nat (length nm)) (of_nat (Suc (length nm + length vl))) = (of_nat x, of_nat y)" "x \<le> y" "y \<le> Suc (length nm + length vl)"
  shows "\<exists>m'. env_part part ent st = Some (Inr (b, set_lmem m' (st\<lparr>up := (up st)\<lparr>ublocks := bs\<rparr>\<rparr>)))
     \<and> cstr m' b (take (y - x) (drop x (nm @ 61 # vl)))
     \<and> (\<forall>p. unat p < unat b \<or> unat b + (y - x) < unat p \<longrightarrow> m' p = lmem st p)"
proof -
  let ?xs = "nm @ 61 # vl"
  obtain m' where m': "substr b ent (of_nat x) (of_nat y) (lmem st) = (b, m')" "cstr m' b (take (y - x) (drop x ?xs))"
      "\<forall>p. unat p < unat b \<or> unat b + (y - x) < unat p \<longrightarrow> m' p = lmem st p"
    using substr_copies [OF c(1), of x y b] part(2,3) c(5) b(2) by auto
  have nth: "lmem st (ent + of_nat i) = ?xs ! i" if "i < length ?xs" for i
    using c(1) cstr_append [of "lmem st" ent ?xs "[]"] that by simp
  have "lmem st (ent + of_nat j) \<noteq> 61" if "j < length nm" for j
  proof -
    have "lmem st (ent + of_nat j) = nm ! j" using nth [of j] that by (simp add: nth_append)
    then show ?thesis using c(2) nth_mem [OF that] by auto
  qed
  moreover have "lmem st (ent + of_nat (length nm)) = 61" using nth [of "length nm"] by simp
  ultimately have f: "find_eq (lmem st) ent 0 (Suc (length nm + length vl)) = Some (of_nat (length nm))"
    using find_eq_first [of "length nm" "lmem st" ent 0 "Suc (length nm + length vl)"] by auto
  have "strlen (lmem st) ent = Some (of_nat (Suc (length nm + length vl)))" using strlen_cstr [OF c(1)] by simp
  moreover have "unat (of_nat (Suc (length nm + length vl)) :: u32) = Suc (length nm + length vl)"
    using c(5) by (intro unat_of_nat_u32) simp
  ultimately have "env_part part ent st = Some (Inr (b, set_lmem m' (st\<lparr>up := (up st)\<lparr>ublocks := bs\<rparr>\<rparr>)))"
    using c(3,4) f b(1) part(1) m'(1) by (simp add: env_part_def lmalloc_def umalloc_def del: of_nat_Suc)
  then show ?thesis using m'(2,3) by blast
qed

lemma lmem_simps [simp]: "lmem (set_lmem m st) = m" "ublocks (up (set_lmem m st)) = ublocks (up st)"
  "environ (set_lmem m st) = environ st" "env_size (set_lmem m st) = env_size st"
  "set_lmem m (environ_update f st) = environ_update f (set_lmem m st)"
  by (simp_all add: set_lmem_def set_umem_def set_mem_def)

lemma strcat_lit_appends:
  assumes "cstr m d xs" "0 \<notin> set lit" "no_wrap d (length xs + Suc (length lit))"
  shows "\<exists>m'. strcat_lit d lit m = Some m' \<and> cstr m' d (xs @ lit)
     \<and> (\<forall>p. unat p < unat d + length xs \<or> unat d + length xs + length lit < unat p \<longrightarrow> m' p = m p)"
proof -
  let ?q = "d + of_nat (length xs)" and ?m = "put_str (d + of_nat (length xs)) lit m"
  have q: "unat ?q = unat d + length xs" using no_wrap_index [OF assms(3), of "length xs"] by simp
  have nq: "no_wrap ?q (Suc (length lit))" using assms(3) q by (simp add: no_wrap_def)
  have f: "?m p = m p" if "unat p < unat d + length xs \<or> unat d + length xs + length lit < unat p" for p
  proof -
    have "beside (unat p) (unat p + 1) ?q (Suc (length lit))" using that nq q by (auto simp: beside_def)
    from put_str_same_on [OF this, of m] show ?thesis by (simp add: same_on_def)
  qed
  have "m (d + of_nat i) = xs ! i \<and> xs ! i \<noteq> 0" if "i < length xs" for i
    using assms(1) cstr_append [of m d xs "[]"] that by simp
  moreover have "?m (d + of_nat i) = m (d + of_nat i)" if "i < length xs" for i
    using that no_wrap_index [OF assms(3), of i] by (intro f) simp
  ultimately have "cstr ?m d (xs @ lit)"
    using cstr_put_str [OF assms(2) nq] by (simp add: cstr_append)
  moreover have "strcat_lit d lit m = Some ?m" using strlen_cstr [OF assms(1)] by (simp add: strcat_lit_def)
  ultimately show ?thesis using f by blast
qed

lemma setenv_effect:
  assumes st: "env_size st = 0" "ublocks (up st) = e # bs"
    and nm: "cstr (lmem st) name nm" "cstr (lmem st) val vl" "length nm + length vl < 2147483647"
    and e: "apart e (length nm + length vl + 2) name (Suc (length nm))" "apart e (length nm + length vl + 2) val (Suc (length vl))"
  shows "\<exists>m. setenv name val overwrite st
       = Some (Inr (0, set_lmem m (st\<lparr>env_size := 1, up := (up st)\<lparr>ublocks := bs\<rparr>, environ := [e, 0]\<rparr>)))
     \<and> cstr m e (nm @ 61 # vl)
     \<and> (\<forall>p. unat p < unat e \<or> unat e + length nm + length vl + 1 < unat p \<longrightarrow> m p = lmem st p)"
proof -
  have nw: "no_wrap e (length nm + length vl + 2)" using e by (simp add: apart_def)
  obtain m1 where m1: "strcpy e name (lmem st) = Some m1" "cstr m1 e nm"
      "\<forall>p. unat p < unat e \<or> unat e + length nm < unat p \<longrightarrow> m1 p = lmem st p"
    using strcpy_copies [OF nm(1), of e] e(1) by (auto simp: apart_def no_wrap_def)
  obtain m2 where m2: "strcat_lit e [61] m1 = Some m2" "cstr m2 e (nm @ [61])"
      "\<forall>p. unat p < unat e + length nm \<or> unat e + length nm + 1 < unat p \<longrightarrow> m2 p = m1 p"
    using strcat_lit_appends [OF m1(2), of "[61]"] nw by (auto simp: no_wrap_def)
  have "cstr m2 val vl"
    using m1(3) m2(3) e(2) by (intro cstr_stays [OF nm(2)]) (auto simp: apart_def)
  moreover have "unat (e + of_nat (length (nm @ [61]))) = unat e + length nm + 1"
    using no_wrap_index [OF nw, of "length (nm @ [61])"] by simp
  then have "apart (e + of_nat (length (nm @ [61]))) (Suc (length vl)) val (Suc (length vl))"
    using e(2) by (auto simp: apart_def no_wrap_def)
  ultimately obtain m3 where m3: "strcat e val m2 = Some (e, m3)" "cstr m3 e (nm @ 61 # vl)"
      "\<forall>p. unat p < unat e + length (nm @ [61]) \<or> unat e + length (nm @ [61]) + length vl < unat p \<longrightarrow> m3 p = m2 p"
    using strcat_appends [OF m2(2), of val vl] nw by (auto simp: no_wrap_def)
  have "m3 p = lmem st p" if "unat p < unat e \<or> unat e + length nm + length vl + 1 < unat p" for p
    using that m1(3) m2(3) m3(3) by auto
  moreover have "length (realloc_words 2 (environ st)) = 2" by (simp add: realloc_words_def)
  then obtain a b where t: "realloc_words 2 (environ st) = [a, b]" by (auto simp: length_Suc_conv numeral_2_eq_2)
  moreover have "setenv name val overwrite st
       = Some (Inr (0, set_lmem m3 (st\<lparr>env_size := 1, up := (up st)\<lparr>ublocks := bs\<rparr>, environ := [e, 0]\<rparr>)))"
    using st m1(1) m2(1) m3(1) t by (simp add: setenv_def Let_def lmalloc_def umalloc_def store_at_def)
  ultimately show ?thesis using m3(2) by blast
qed

lemma env_name_is_own:
  assumes c: "cstr (lmem st) e (nm @ 61 # vl)" "61 \<notin> set nm" "e \<noteq> 0" "e \<noteq> 1" "length nm + length vl < 2147483647"
    and b: "ublocks (up st) = b # bs" "b \<noteq> 0" "apart b (Suc (length nm)) e (length nm + length vl + 2)"
    and name: "cstr (lmem st) name nm" "apart b (Suc (length nm)) name (Suc (length nm))"
  shows "\<exists>m. env_name_is name e st = Some (Inr (True, set_lmem m (st\<lparr>up := (up st)\<lparr>ublocks := bs\<rparr>\<rparr>)))
     \<and> (\<forall>p. unat p < unat b \<or> unat b + length nm < unat p \<longrightarrow> m p = lmem st p)"
proof -
  obtain m where m: "env_get_name e st = Some (Inr (b, set_lmem m (st\<lparr>up := (up st)\<lparr>ublocks := bs\<rparr>\<rparr>)))"
      "cstr m b nm" "\<forall>p. unat p < unat b \<or> unat b + length nm < unat p \<longrightarrow> m p = lmem st p"
    using env_part_runs [of st e nm vl b bs "length nm" 0 "\<lambda>i n. (0, i)"] c b by (auto simp: env_get_name_def)
  have n: "cstr m name nm" using m(3) name(2) by (intro cstr_stays [OF name(1)]) (auto simp: apart_def)
  have "strcmp m name b = Some 0"
    using strcmp_first_diff [OF n m(2)] first_diff_zero [OF cstr_nonzero [OF n] cstr_nonzero [OF n]] by simp
  then show ?thesis using m b(2) by (intro exI [of _ m]) (simp add: env_name_is_def)
qed

text \<open>C30: What \<open>setenv\<close> puts into an empty environment \<open>getenv\<close> gives back, for a name without an equals sign (with one,
  \<open>getenv\<close> compares only the part before it), name and value together shorter than 2^31 - 1 bytes, and heap blocks
  that do not overlap these strings or each other. After \<open>setenv\<close> the table holds one entry, the first block
  of the heap, and in it stands the string of name, equals sign and value; \<open>getenv\<close> of the same name returns a
  string with the value, in a fresh block, and table and entry stay as they are.\<close>

theorem setenv_getenv:
  assumes st: "env_size st = 0" "ublocks (up st) = e # b1 # b2 # bs" "e \<noteq> 0" "e \<noteq> 1" "b1 \<noteq> 0"
    and nm: "cstr (lmem st) name nm" "61 \<notin> set nm" "cstr (lmem st) val vl" "length nm + length vl < 2147483647"
    and e: "apart e (length nm + length vl + 2) name (Suc (length nm))" "apart e (length nm + length vl + 2) val (Suc (length vl))"
    and b: "apart b1 (Suc (length nm)) e (length nm + length vl + 2)" "apart b1 (Suc (length nm)) name (Suc (length nm))"
      "apart b2 (Suc (length vl)) e (length nm + length vl + 2)"
  shows "\<exists>st1 st2. setenv name val overwrite st = Some (Inr (0, st1))
     \<and> environ st1 = [e, 0] \<and> env_size st1 = 1 \<and> cstr (lmem st1) e (nm @ 61 # vl)
     \<and> getenv name st1 = Some (Inr (b2, st2)) \<and> cstr (lmem st2) b2 vl
     \<and> environ st2 = [e, 0] \<and> env_size st2 = 1 \<and> cstr (lmem st2) e (nm @ 61 # vl)"
proof -
  let ?st = "st\<lparr>env_size := 1, up := (up st)\<lparr>ublocks := b1 # b2 # bs\<rparr>, environ := [e, 0]\<rparr>"
  obtain m where m: "setenv name val overwrite st = Some (Inr (0, set_lmem m ?st))" "cstr m e (nm @ 61 # vl)"
      "\<forall>p. unat p < unat e \<or> unat e + length nm + length vl + 1 < unat p \<longrightarrow> m p = lmem st p"
    using setenv_effect [OF st(1,2) nm(1,3,4) e] by blast
  let ?st1 = "set_lmem m ?st"
  have n1: "cstr m name nm" using m(3) e(1) by (intro cstr_stays [OF nm(1)]) (auto simp: apart_def)
  obtain m1 where same: "env_name_is name e ?st1 = Some (Inr (True, set_lmem m1 (?st1\<lparr>up := (up ?st1)\<lparr>ublocks := b2 # bs\<rparr>\<rparr>)))"
      and m1: "\<forall>p. unat p < unat b1 \<or> unat b1 + length nm < unat p \<longrightarrow> m1 p = m p"
    using env_name_is_own [of ?st1 e nm vl b1 "b2 # bs" name] m(2) nm(2,4) st(3-5) b(1,2) n1 by auto
  let ?st2 = "set_lmem m1 (?st1\<lparr>up := (up ?st1)\<lparr>ublocks := b2 # bs\<rparr>\<rparr>)"
  have e1: "cstr m1 e (nm @ 61 # vl)" using m1 b(1) by (intro cstr_stays [OF m(2)]) (auto simp: apart_def)
  then obtain m2 where m2: "env_get_value e ?st2 = Some (Inr (b2, set_lmem m2 (?st2\<lparr>up := (up ?st2)\<lparr>ublocks := bs\<rparr>\<rparr>)))" "cstr m2 b2 vl"
      "\<forall>p. unat p < unat b2 \<or> unat b2 + length vl < unat p \<longrightarrow> m2 p = m1 p"
    using env_part_runs [of ?st2 e nm vl b2 bs "Suc (length nm + length vl)" "Suc (length nm)" "\<lambda>i n. (i + 1, n)"]
      nm(2,4) st(3,4) b(3) by (auto simp: env_get_value_def)
  have "getenv name ?st1 = Some (Inr (b2, set_lmem m2 (?st2\<lparr>up := (up ?st2)\<lparr>ublocks := bs\<rparr>\<rparr>)))"
    using same m2(1) st(4) by (simp add: getenv_def)
  moreover have "cstr m2 e (nm @ 61 # vl)" using m2(3) b(3) by (intro cstr_stays [OF e1]) (auto simp: apart_def)
  ultimately show ?thesis using m(1,2) m2(2) by (intro exI conjI) (assumption | simp)+
qed

lemma setenv_getenv_witness:
  "\<exists>st1 st2. setenv 1000 1010 1 (libc_one\<lparr>up := set_umem ((\<lambda>_. 0)(1000 := 65, 1010 := 66)) prog_one\<rparr>) = Some (Inr (0, st1))
     \<and> environ st1 = [20000, 0] \<and> cstr (lmem st1) 20000 [65, 61, 66]
     \<and> getenv 1000 st1 = Some (Inr (20200, st2)) \<and> cstr (lmem st2) 20200 [66]"
  using setenv_getenv [of "libc_one\<lparr>up := set_umem ((\<lambda>_. 0)(1000 := 65, 1010 := 66)) prog_one\<rparr>" 20000 20100 20200 "[20300, 20400]"
      1000 "[65]" 1010 "[66]" 1]
  by (auto simp: libc_one_def set_umem_def set_mem_def prog_one_def apart_def no_wrap_def)

text \<open>A variable can be set only once. After the first \<open>setenv\<close>, in an empty environment, every further call of
  \<open>setenv\<close>, for any name, never returns. And \<open>unsetenv\<close> reports a failure when it removes the variable, and
  the next \<open>unsetenv\<close> follows the mark it left in the table.\<close>

theorem setenv_only_once:
  assumes st: "env_size st = 0" "ublocks (up st) = e # b1 # bs" "e \<noteq> 0" "e \<noteq> 1" "b1 \<noteq> 0"
    and nm: "cstr (lmem st) name nm" "61 \<notin> set nm" "cstr (lmem st) val vl" "length nm + length vl < 2147483647"
    and e: "apart e (length nm + length vl + 2) name (Suc (length nm))" "apart e (length nm + length vl + 2) val (Suc (length vl))"
    and b: "apart b1 (Suc (length nm)) e (length nm + length vl + 2)" "apart b1 (Suc (length nm)) name (Suc (length nm))"
  shows "\<exists>st1 st2. setenv name val overwrite st = Some (Inr (0, st1)) \<and> (\<forall>n v w. setenv n v w st1 = None)
     \<and> unsetenv name st1 = Some (Inr (- 1, st2)) \<and> getenv name st2 = Some (Inr (0, st2)) \<and> unsetenv name st2 = Some (Inl Wild)"
proof -
  let ?st = "st\<lparr>env_size := 1, up := (up st)\<lparr>ublocks := b1 # bs\<rparr>, environ := [e, 0]\<rparr>"
  obtain m where m: "setenv name val overwrite st = Some (Inr (0, set_lmem m ?st))" "cstr m e (nm @ 61 # vl)"
      "\<forall>p. unat p < unat e \<or> unat e + length nm + length vl + 1 < unat p \<longrightarrow> m p = lmem st p"
    using setenv_effect [OF st(1,2) nm(1,3,4) e] by blast
  let ?st1 = "set_lmem m ?st"
  have n1: "cstr m name nm" using m(3) e(1) by (intro cstr_stays [OF nm(1)]) (auto simp: apart_def)
  obtain m1 where same: "env_name_is name e ?st1 = Some (Inr (True, set_lmem m1 (?st1\<lparr>up := (up ?st1)\<lparr>ublocks := bs\<rparr>\<rparr>)))"
    using env_name_is_own [of ?st1 e nm vl b1 bs name] m(2) nm(2,4) st(3-5) b n1 by auto
  let ?st2 = "(set_lmem m1 (?st1\<lparr>up := (up ?st1)\<lparr>ublocks := bs\<rparr>\<rparr>))\<lparr>environ := [1, 0]\<rparr>"
  have "unsetenv name ?st1 = Some (Inr (- 1, ?st2))" using same by (simp add: unsetenv_def)
  moreover have "getenv name ?st2 = Some (Inr (0, ?st2))" by (simp add: getenv_def)
  moreover have "unsetenv name ?st2 = Some (Inl Wild)"
    by (simp add: unsetenv_def env_name_is_def env_get_name_def env_part_def)
  moreover have "setenv n v w ?st1 = None" for n v w by (simp add: setenv_def)
  ultimately show ?thesis using m(1) by blast
qed

lemma setenv_only_once_witness:
  "\<exists>st1 st2. setenv 1000 1010 1 (libc_one\<lparr>up := set_umem ((\<lambda>_. 0)(1000 := 65, 1010 := 66)) prog_one\<rparr>) = Some (Inr (0, st1))
     \<and> setenv 1000 1000 1 st1 = None \<and> unsetenv 1000 st1 = Some (Inr (- 1, st2)) \<and> unsetenv 1000 st2 = Some (Inl Wild)"
  using setenv_only_once [of "libc_one\<lparr>up := set_umem ((\<lambda>_. 0)(1000 := 65, 1010 := 66)) prog_one\<rparr>" 20000 20100 "[20200, 20300, 20400]"
      1000 "[65]" 1010 "[66]" 1]
  by (auto simp: libc_one_def set_umem_def set_mem_def prog_one_def apart_def no_wrap_def)

end
