(* ===== verification/Strtok.thy ===== *)
theory Strtok
  imports Cstring
begin

text \<open>
  What \<open>strtok\<close> (\<open>libc/string/strtok.c\<close>, theory Cstring) does on strings: each call cuts the next word off, and
  where it runs past the end of the string.
\<close>

subsection \<open>The two scans\<close>

lemma ucast_scast_u8 [simp]: "(ucast (scast (x :: u8) :: u32) :: u8) = x"
  by (intro bit_word_eqI) (auto simp: bit_ucast_iff bit_signed_iff min_def le_less_Suc_eq dest!: le_antisym)

lemma scast_u8_eq: "scast (x :: u8) = (scast y :: u32) \<longleftrightarrow> x = y"
  by (metis ucast_scast_u8)

lemma strchr_from_spec:
  "cstr m (d + i) xs \<Longrightarrow> no_wrap (d + i) (length xs) \<Longrightarrow> d + i \<noteq> 0
    \<Longrightarrow> \<exists>r. strchr_from m d (scast x) i = Some r \<and> (r \<noteq> 0 \<longleftrightarrow> x \<in> set xs \<or> x = 0)"
proof (induction xs arbitrary: i)
  case Nil
  then show ?case by (subst strchr_from.simps) (auto simp: scast_u8_eq [of x 0, simplified])
next
  case (Cons y ys)
  have nw: "no_wrap (d + (i + 1)) (length ys)" "d + (i + 1) \<noteq> 0"
    using no_wrap_index [OF Cons.prems(2), of 1] Cons.prems(2) by (auto simp: no_wrap_def add.assoc)
  show ?case
  proof (cases "x = y")
    case True
    then show ?thesis using Cons.prems by (subst strchr_from.simps) auto
  next
    case False
    have "cstr m (d + (i + 1)) ys" "m (d + i) = y" "y \<noteq> 0" using Cons.prems(1) by (simp_all add: add.assoc)
    then show ?thesis using Cons.IH [OF _ nw] False by (subst strchr_from.simps) (simp add: scast_u8_eq)
  qed
qed

text \<open>The characters of \<open>ds\<close> lie at \<open>delim\<close> as a string.\<close>

definition delims :: "bytes \<Rightarrow> u32 \<Rightarrow> u8 list \<Rightarrow> bool" where
  "delims m delim ds \<longleftrightarrow> cstr m delim ds \<and> no_wrap delim (length ds) \<and> delim \<noteq> 0"

lemma strchr_delims: "delims m delim ds \<Longrightarrow> \<exists>r. strchr m delim (scast x) = Some r \<and> (r \<noteq> 0 \<longleftrightarrow> x \<in> set ds \<or> x = 0)"
  using strchr_from_spec [of m delim 0 ds x] by (auto simp: delims_def strchr_def)

lemma skip_delims_step:
  assumes "delims m delim ds"
  shows "skip_delims m delim c = (if m c \<in> set ds \<or> m c = 0 then skip_delims m delim (c + 1) else Some c)"
  using strchr_delims [OF assms, of "m c"] by (subst skip_delims.simps) auto

lemma token_end_step:
  assumes "delims m delim ds"
  shows "token_end m delim c = (if m c = 0 \<or> m c \<in> set ds then Some c else token_end m delim (c + 1))"
  using strchr_delims [OF assms, of "m c"] by (subst token_end.simps) auto

lemma skip_delims_over:
  "delims m delim ds \<Longrightarrow> (\<And>i. i < n \<Longrightarrow> m (c + of_nat i) \<in> set ds \<or> m (c + of_nat i) = 0) \<Longrightarrow>
    skip_delims m delim c = skip_delims m delim (c + of_nat n)"
proof (induction n arbitrary: c)
  case (Suc n)
  have "m (c + 1 + of_nat i) \<in> set ds \<or> m (c + 1 + of_nat i) = 0" if "i < n" for i
    using Suc.prems(2) [of "Suc i"] that by (simp add: add.assoc)
  then have "skip_delims m delim (c + 1) = skip_delims m delim (c + of_nat (Suc n))"
    using Suc.IH [OF Suc.prems(1), of "c + 1"] by (simp add: add.assoc)
  then show ?case using Suc.prems(2) [of 0] by (subst skip_delims_step [OF Suc.prems(1)]) auto
qed simp

lemma token_end_over:
  "delims m delim ds \<Longrightarrow> (\<And>i. i < n \<Longrightarrow> m (c + of_nat i) \<notin> set ds \<and> m (c + of_nat i) \<noteq> 0) \<Longrightarrow>
    token_end m delim c = token_end m delim (c + of_nat n)"
proof (induction n arbitrary: c)
  case (Suc n)
  have "m (c + 1 + of_nat i) \<notin> set ds \<and> m (c + 1 + of_nat i) \<noteq> 0" if "i < n" for i
    using Suc.prems(2) [of "Suc i"] that by (simp add: add.assoc)
  then have "token_end m delim (c + 1) = token_end m delim (c + of_nat (Suc n))"
    using Suc.IH [OF Suc.prems(1), of "c + 1"] by (simp add: add.assoc)
  then show ?case using Suc.prems(2) [of 0] by (subst token_end_step [OF Suc.prems(1)]) auto
qed simp

lemma cstr_bytes:
  assumes "cstr m p xs"
  shows "i < length xs \<Longrightarrow> m (p + of_nat i) = xs ! i \<and> xs ! i \<noteq> 0" "m (p + of_nat (length xs)) = 0"
  using assms cstr_append [of m p xs "[]"] by simp_all

subsection \<open>One call\<close>

text \<open>The next word of a string that begins with separators, then has a word, and then ends or goes on behind
  a separator.\<close>

definition word_ok :: "u8 list \<Rightarrow> u8 list \<Rightarrow> bool" where
  "word_ok ds w \<longleftrightarrow> w \<noteq> [] \<and> set w \<inter> set ds = {} \<and> 0 \<notin> set w"

lemma strtok_scans:
  assumes d: "delims m delim ds" and s: "cstr m p (pre @ w @ rest)" and pre: "set pre \<subseteq> set ds" and w: "word_ok ds w"
    and e: "rest = [] \<or> hd rest \<in> set ds"
  shows "skip_delims m delim p = Some (p + of_nat (length pre))"
    "token_end m delim (p + of_nat (length pre)) = Some (p + of_nat (length pre) + of_nat (length w))"
proof -
  let ?c = "p + of_nat (length pre)"
  have wr: "cstr m ?c (w @ rest)" using s by (simp add: cstr_append)
  have c: "m ?c = hd w" "hd w \<notin> set ds" "hd w \<noteq> 0"
    using wr w by (cases w; auto simp: word_ok_def)+
  have "skip_delims m delim p = skip_delims m delim ?c"
  proof (rule skip_delims_over [OF d])
    fix i assume "i < length pre"
    then show "m (p + of_nat i) \<in> set ds \<or> m (p + of_nat i) = 0"
      using cstr_append [of m p pre "w @ rest"] s pre by (metis nth_mem subsetD)
  qed
  then show "skip_delims m delim p = Some ?c" using c by (simp add: skip_delims_step [OF d])
  have "m (?c + of_nat i) \<notin> set ds \<and> m (?c + of_nat i) \<noteq> 0" if "i < length w" for i
    using cstr_append [of m ?c w rest] wr w that unfolding word_ok_def by (metis disjoint_iff nth_mem)
  then have "token_end m delim ?c = token_end m delim (?c + of_nat (length w))" by (rule token_end_over [OF d])
  moreover have "m (?c + of_nat (length w)) = 0 \<or> m (?c + of_nat (length w)) \<in> set ds"
    using wr e cstr_append [of m ?c w rest] by (cases rest) auto
  ultimately show "token_end m delim ?c = Some (?c + of_nat (length w))" by (simp add: token_end_step [OF d])
qed

lemma strtok_last_word:
  assumes "delims m delim ds" "cstr m p (pre @ w)" "set pre \<subseteq> set ds" "word_ok ds w" "p \<noteq> 0" "str = p \<or> str = 0 \<and> last0 = p"
  shows "strtok str delim last0 m = Some (p + of_nat (length pre), p + of_nat (length pre) + of_nat (length w), m)"
proof -
  note sc = strtok_scans [of m delim ds p pre w "[]"]
  have wc: "cstr m (p + of_nat (length pre)) w" using assms(2) by (simp add: cstr_append)
  have "m (p + of_nat (length pre) + of_nat (length w)) = 0" using cstr_bytes(2) [OF wc] .
  moreover have "m (p + of_nat (length pre)) \<noteq> 0" using cstr_bytes(1) [OF wc, of 0] assms(4) by (simp add: word_ok_def)
  moreover have "m p \<noteq> 0" using cstr_bytes(1) [OF assms(2), of 0] assms(4) by (auto simp: word_ok_def)
  moreover have "(if str \<noteq> 0 then str else last0) = p" using assms(5,6) by auto
  ultimately show ?thesis using sc assms(1-5) by (simp add: strtok_def Let_def)
qed

lemma strtok_word:
  assumes d: "delims m delim ds" and s: "cstr m p (pre @ w @ x # rest)" and pre: "set pre \<subseteq> set ds" and w: "word_ok ds w"
    and x: "x \<in> set ds" and p: "p \<noteq> 0" "str = p \<or> str = 0 \<and> last0 = p" and nw: "no_wrap p (length (pre @ w @ x # rest))"
  defines "q \<equiv> p + of_nat (length pre)" and "e \<equiv> p + of_nat (length pre + length w)"
  shows "strtok str delim last0 m = Some (q, e + 1, m(e := 0)) \<and> cstr (m(e := 0)) q w \<and> cstr (m(e := 0)) (e + 1) rest"
proof -
  have wr: "cstr m q (w @ x # rest)" using s by (simp add: q_def cstr_append)
  have e: "e = q + of_nat (length w)" by (simp add: e_def q_def)
  have c: "m q \<noteq> 0" "m p \<noteq> 0"
    using cstr_bytes(1) [OF wr, of 0] cstr_bytes(1) [OF s, of 0] w by (auto simp: word_ok_def)
  have me: "m e = x" "x \<noteq> 0" using wr cstr_append [of m q w "x # rest"] by (auto simp: e)
  have "(if str \<noteq> 0 then str else last0) = p" using p by auto
  moreover note strtok_scans [OF d s pre w]
  ultimately have "strtok str delim last0 m = Some (q, e + 1, m(e := 0))"
    using c me p(1) x by (simp add: strtok_def Let_def q_def [symmetric] e [symmetric])
  moreover have other: "(m(e := 0)) (p + of_nat i) = m (p + of_nat i)" if "i \<le> length (pre @ w @ x # rest)" "i \<noteq> length pre + length w" for i
    using no_wrap_index [OF nw that(1)] no_wrap_index [OF nw, of "length pre + length w"] that(2) unfolding e_def by auto
  moreover have "cstr (m(e := 0)) q w"
  proof -
    have "\<forall>i < length w. (m(e := 0)) (q + of_nat i) = w ! i \<and> w ! i \<noteq> 0"
      using other [of "length pre + i" for i] wr cstr_append [of m q w "x # rest"] by (auto simp: q_def add.assoc)
    then show ?thesis using cstr_append [of "m(e := 0)" q w "[]"] by (simp add: e)
  qed
  moreover have "cstr (m(e := 0)) (e + 1) rest = cstr m (e + 1) rest"
  proof (rule cstr_frame)
    fix i assume "i \<le> length rest"
    then have "(m(e := 0)) (p + of_nat (length pre + length w + 1 + i)) = m (p + of_nat (length pre + length w + 1 + i))"
      by (intro other) simp_all
    moreover have "p + of_nat (length pre + length w + 1 + i) = e + 1 + of_nat i" by (simp add: e_def)
    ultimately show "(m(e := 0)) (e + 1 + of_nat i) = m (e + 1 + of_nat i)" by metis
  qed
  moreover have "cstr m (e + 1) rest" using wr by (simp add: cstr_append e)
  ultimately show ?thesis by simp
qed

text \<open>C10: \<open>strtok\<close> cuts words off. On a string of some separators, a word \<open>w\<close>
  without separators and then either nothing or a separator and a rest, given to the call or left to it by the last
  one, the call returns the address of the word and leaves it there as a string of its own. If a separator follows,
  it alone is overwritten, by the end of the word, and the next call will begin with the rest behind it; if nothing
  follows, the memory is left alone, and the next call returns null.\<close>

theorem strtok_cuts_word:
  assumes d: "delims m delim ds" and s: "cstr m p (pre @ w @ tail)" and pre: "set pre \<subseteq> set ds" and w: "word_ok ds w"
    and x: "tail = [] \<or> tail = x # rest \<and> x \<in> set ds"
    and p: "p \<noteq> 0" "str = p \<or> str = 0 \<and> last0 = p" and nw: "no_wrap p (length (pre @ w @ tail))"
  defines "q \<equiv> p + of_nat (length pre)" and "e \<equiv> p + of_nat (length pre) + of_nat (length w)"
  shows "if tail = [] then strtok str delim last0 m = Some (q, e, m) \<and> cstr m q w \<and> strtok 0 delim e m = Some (0, e, m)
    else strtok str delim last0 m = Some (q, e + 1, m(e := 0)) \<and> cstr (m(e := 0)) q w \<and> cstr (m(e := 0)) (e + 1) rest"
proof (cases "tail = []")
  case True
  have "cstr m q w" using s True by (simp add: q_def cstr_append)
  moreover have "m e = 0" using cstr_bytes(2) [OF \<open>cstr m q w\<close>] by (simp add: e_def q_def)
  moreover have "strtok str delim last0 m = Some (q, e, m)"
    using strtok_last_word [OF d _ pre w p] s True by (simp add: q_def e_def)
  ultimately show ?thesis using True by (simp add: strtok_def Let_def)
next
  case False
  then have t: "tail = x # rest" "x \<in> set ds" using x by simp_all
  then show ?thesis using strtok_word [OF d s [unfolded t(1)] pre w t(2) p nw [unfolded t(1)]] False
    by (simp add: q_def e_def add.assoc)
qed

text \<open>Two strings in an example memory: separators at 100, and text at 200.\<close>

definition tok_mem :: "u8 list \<Rightarrow> u8 list \<Rightarrow> bytes" where
  "tok_mem ds xs = (\<lambda>a. if 100 \<le> a \<and> a < 100 + of_nat (length ds) then ds ! unat (a - 100)
     else if 200 \<le> a \<and> a < 200 + of_nat (length xs) then xs ! unat (a - 200) else 0)"

lemma strtok_cuts_word_witness:
  "(\<exists>m'. strtok 200 100 0 (tok_mem [32] [32, 97, 98, 32, 99]) = Some (201, 204, m') \<and> cstr m' 201 [97, 98] \<and> cstr m' 204 [99])
   \<and> (let m = tok_mem [32] [32, 97, 98] in strtok 200 100 0 m = Some (201, 203, m) \<and> strtok 0 100 203 m = Some (0, 203, m))"
proof -
  let ?m = "tok_mem [32] [32, 97, 98, 32, 99]" and ?n = "tok_mem [32] [32, 97, 98]"
  have "delims ?m 100 [32]" "delims ?n 100 [32]" by (simp_all add: delims_def no_wrap_def tok_mem_def)
  moreover have "cstr ?m 200 ([32] @ [97, 98] @ [32, 99])" "cstr ?n 200 ([32] @ [97, 98] @ [])" by (simp_all add: tok_mem_def)
  ultimately show ?thesis
    using strtok_cuts_word [of ?m 100 "[32]" 200 "[32]" "[97, 98]" "[32, 99]" 32 "[99]" 200 0]
      strtok_cuts_word [of ?n 100 "[32]" 200 "[32]" "[97, 98]" "[]" 32 "[]" 200 0]
    by (auto simp: word_ok_def no_wrap_def Let_def)
qed

subsection \<open>Separators at the end\<close>

text \<open>\<open>strtok\<close> runs past the end of a string of separators. \<open>strchr\<close> finds the terminator in every set of
  separators, so the scan for the next word does not stop there: if what is left of the string is separators
  only (a command line with two blanks at its end), the call returns a word from the memory behind the string.\<close>

theorem strtok_leaves_string:
  assumes d: "delims m delim ds" and s: "cstr m p xs" "xs \<noteq> []" "set xs \<subseteq> set ds"
    and behind: "cstr m (p + of_nat (length xs) + 1) w" "word_ok ds w" and p: "p \<noteq> 0" "str = p \<or> str = 0 \<and> last0 = p"
  shows "strtok str delim last0 m = Some (p + of_nat (length xs) + 1, p + of_nat (length xs) + 1 + of_nat (length w), m)"
proof -
  let ?c = "p + of_nat (length xs) + 1"
  have in_ds: "m (p + of_nat i) \<in> set ds \<or> m (p + of_nat i) = 0" if "i < Suc (length xs)" for i
  proof (cases "i = length xs")
    case True
    then show ?thesis using cstr_bytes(2) [OF s(1)] by simp
  next
    case False
    then have "i < length xs" using that by simp
    then show ?thesis using cstr_bytes(1) [OF s(1), of i] s(3) nth_mem [of i xs] by auto
  qed
  have "skip_delims m delim p = skip_delims m delim (p + of_nat (Suc (length xs)))"
    by (rule skip_delims_over [OF d in_ds])
  moreover have "p + of_nat (Suc (length xs)) = ?c" by simp
  ultimately have "skip_delims m delim p = skip_delims m delim ?c" by metis
  also have "skip_delims m delim ?c = Some ?c" "token_end m delim ?c = Some (?c + of_nat (length w))"
    using strtok_scans [of m delim ds ?c "[]" w "[]"] d behind by simp_all
  moreover have "m ?c \<noteq> 0" using cstr_bytes(1) [OF behind(1), of 0] behind(2) by (simp add: word_ok_def)
  moreover have "m (?c + of_nat (length w)) = 0" using cstr_bytes(2) [OF behind(1)] .
  moreover have "m p \<noteq> 0" using cstr_bytes(1) [OF s(1), of 0] s(2) by simp
  moreover have "(if str \<noteq> 0 then str else last0) = p" using p by auto
  ultimately show ?thesis using p(1) by (simp add: strtok_def Let_def)
qed

lemma strtok_leaves_string_witness:
  "strtok 0 100 200 (tok_mem [32] [32, 0, 97]) = Some (202, 203, tok_mem [32] [32, 0, 97])"
proof -
  have "delims (tok_mem [32] [32, 0, 97]) 100 [32]" by (simp add: delims_def no_wrap_def tok_mem_def)
  moreover have "cstr (tok_mem [32] [32, 0, 97]) 200 [32]" "cstr (tok_mem [32] [32, 0, 97]) 202 [97]" by (simp_all add: tok_mem_def)
  ultimately show ?thesis
    using strtok_leaves_string [of "tok_mem [32] [32, 0, 97]" 100 "[32]" 200 "[32]" "[97]" 0 200] by (simp add: word_ok_def)
qed

subsection \<open>Whole strings\<close>

text \<open>Words with a separator between any two.\<close>

fun joined :: "u8 \<Rightarrow> u8 list list \<Rightarrow> u8 list" where
  "joined d [] = []"
| "joined d [w] = w"
| "joined d (w # v # ws) = w @ d # joined d (v # ws)"

fun weight :: "u8 list list \<Rightarrow> nat" where
  "weight [] = 0"
| "weight (w # ws) = length w + 1 + weight ws"

lemma length_joined: "length (joined d ws) \<le> weight ws"
  by (induction ws rule: joined.induct) auto

definition words_ok :: "u8 \<Rightarrow> u8 list list \<Rightarrow> bool" where
  "words_ok d ws \<longleftrightarrow> (\<forall>w \<in> set ws. word_ok [d] w)"

text \<open>What the next calls of \<open>strtok\<close> will cut lies at \<open>lst\<close>, apart from the literal.\<close>

definition pending :: "u8 \<Rightarrow> u32 \<Rightarrow> u32 \<Rightarrow> u8 list list \<Rightarrow> bytes \<Rightarrow> bool" where
  "pending d delim lst ws m \<longleftrightarrow> delims m delim [d] \<and> cstr m lst (joined d ws) \<and> lst \<noteq> 0 \<and> words_ok d ws
     \<and> apart delim 2 lst (Suc (length (joined d ws)))"

lemma delims_upd: "delims m delim [d] \<Longrightarrow> apart delim 2 p n \<Longrightarrow> i < n \<Longrightarrow> delims (m(p + of_nat i := x)) delim [d]"
  using apart_neq [of delim 2 p n 0 i] apart_neq [of delim 2 p n 1 i] by (auto simp: delims_def)

lemma apart_tail: "apart p n q k \<Longrightarrow> i \<le> k \<Longrightarrow> apart p n (q + of_nat i) (k - i)"
  using no_wrap_index [of q k i] by (auto simp: apart_def no_wrap_def)

lemma strtok_pending_nil: "pending d delim lst [] m \<Longrightarrow> strtok 0 delim lst m = Some (0, lst, m)"
  by (simp add: pending_def strtok_def)

lemma strtok_pending:
  assumes "pending d delim lst (w # ws) m" "str = lst \<or> str = 0 \<and> last0 = lst"
  shows "\<exists>lst' m'. strtok str delim last0 m = Some (lst, lst', m') \<and> pending d delim lst' ws m' \<and> cstr m' lst w
     \<and> unat lst \<le> unat lst' \<and> unat lst' + length (joined d ws) \<le> unat lst + length (joined d (w # ws))
     \<and> (\<forall>a. unat a < unat lst \<or> unat lst + length (joined d (w # ws)) < unat a \<longrightarrow> m' a = m a)"
proof -
  have p: "delims m delim [d]" "cstr m lst (joined d (w # ws))" "lst \<noteq> 0" "word_ok [d] w" "words_ok d ws"
      "apart delim 2 lst (Suc (length (joined d (w # ws))))"
    using assms(1) by (simp_all add: pending_def words_ok_def)
  have nw: "no_wrap lst (Suc (length (joined d (w # ws))))" using p(6) by (simp add: apart_def)
  show ?thesis
  proof (cases ws)
    case Nil
    have t: "apart delim 2 (lst + of_nat (length w)) 1" using apart_tail [OF p(6), of "length w"] Nil by simp
    have u: "unat (lst + of_nat (length w)) = unat lst + length w" using no_wrap_index [OF nw, of "length w"] Nil by simp
    have "strtok str delim last0 m = Some (lst, lst + of_nat (length w), m)"
      using strtok_last_word [of m delim "[d]" lst "[]" w str last0] p(1-4) assms(2) Nil by simp
    moreover have "pending d delim (lst + of_nat (length w)) [] m"
      using p(1) t cstr_bytes(2) [of m lst w] p(2) u p(3) Nil by (auto simp: pending_def words_ok_def unat_eq_zero [symmetric])
    ultimately show ?thesis using p(2) u Nil by auto
  next
    case (Cons v vs)
    have j: "joined d (w # ws) = w @ d # joined d ws" using Cons by simp
    let ?e = "lst + of_nat (length w)"
    have u: "unat ?e = unat lst + length w" using no_wrap_index [OF nw, of "length w"] j by simp
    have u1: "unat (?e + 1) = unat lst + length w + 1" using no_wrap_index [OF nw, of "length w + 1"] j by (simp add: ac_simps)
    have k: "strtok str delim last0 m = Some (lst, ?e + 1, m(?e := 0))" "cstr (m(?e := 0)) lst w" "cstr (m(?e := 0)) (?e + 1) (joined d ws)"
      using strtok_word [of m delim "[d]" lst "[]" w d "joined d ws" str last0] p(1-4) assms(2) nw
      by (auto simp: j no_wrap_def)
    have t: "apart delim 2 (?e + 1) (Suc (length (joined d ws)))"
      using apart_tail [OF p(6), of "Suc (length w)"] j by (simp add: ac_simps)
    have "?e + 1 \<noteq> 0" using u1 by (metis add_is_0 one_neq_zero unat_0)
    then have "pending d delim (?e + 1) ws (m(?e := 0))"
      using k(3) t p(5) delims_upd [OF p(1,6), of "length w" 0] j by (simp add: pending_def)
    moreover have "\<forall>a. unat a < unat lst \<or> unat lst + length (joined d (w # ws)) < unat a \<longrightarrow> (m(?e := 0)) a = m a"
      using u j by auto
    ultimately show ?thesis using k u1 j by (intro exI [of _ "?e + 1"] exI [of _ "m(?e := 0)"]) simp
  qed
qed

lemma pending_same_on:
  assumes "pending d delim lst ws m" "\<And>a. (unat delim \<le> unat a \<and> unat a < unat delim + 2)
    \<or> (unat lst \<le> unat a \<and> unat a \<le> unat lst + length (joined d ws)) \<Longrightarrow> m' a = m a"
  shows "pending d delim lst ws m'"
proof -
  have p: "apart delim 2 lst (Suc (length (joined d ws)))" "delims m delim [d]" "cstr m lst (joined d ws)"
    using assms(1) by (simp_all add: pending_def)
  then have nw: "no_wrap delim 2" "no_wrap lst (Suc (length (joined d ws)))" by (simp_all add: apart_def)
  have "cstr m' delim [d]"
    using p(2) assms(2) no_wrap_index [OF nw(1), of 1] by (simp add: delims_def)
  moreover have "cstr m' lst (joined d ws)" using cstr_stays [OF p(3) nw(2)] assms(2) by blast
  ultimately show ?thesis using assms(1) by (simp add: pending_def delims_def)
qed

end
