(* ===== verification/Unistd.thy ===== *)
theory Unistd
  imports Env Strtok
begin

text \<open>
  \<open>libc/unistd\<close> and \<open>libc/time\<close> in user programs: the calls that only forward, and \<open>chdir\<close>, which makes a relative
  path absolute before the kernel sees it. Its path under construction is kept as the string it is; a string
  that does not fit the block of 256 bytes is a fault.
\<close>

subsection \<open>Forwarding\<close>

definition getcwd :: "uenv \<Rightarrow> u32 \<Rightarrow> u32 \<Rightarrow> libc \<Rightarrow> (u32 \<times> libc) res option" where
  "getcwd E buff sz st = on_up (on_os (u_getcwd E buff sz)) st"

definition getpid :: "uenv \<Rightarrow> libc \<Rightarrow> (u32 \<times> libc) res option" where
  "getpid E st = on_up (on_os (u_getpid E)) st"

definition getppid :: "uenv \<Rightarrow> libc \<Rightarrow> (u32 \<times> libc) res option" where
  "getppid E st = on_up (on_os (u_getppid E)) st"

definition getuid :: "uenv \<Rightarrow> libc \<Rightarrow> (u32 \<times> libc) res option" where
  "getuid E st = on_up (on_os (u_getuid E)) st"

definition setuid :: "uenv \<Rightarrow> u32 \<Rightarrow> libc \<Rightarrow> (u32 \<times> libc) res option" where
  "setuid E u st = on_up (on_os (u_setuid E u)) st"

definition getpriority :: "uenv \<Rightarrow> u32 \<Rightarrow> u32 \<Rightarrow> libc \<Rightarrow> (u8 \<times> libc) res option" where
  "getpriority E which who st = on_up (on_os (u_getprior E which who)) st"

definition setpriority :: "uenv \<Rightarrow> u32 \<Rightarrow> u32 \<Rightarrow> u32 \<Rightarrow> libc \<Rightarrow> (u8 \<times> libc) res option" where
  "setpriority E which who prio st = on_up (on_os (u_setprior E which who prio)) st"

definition stat :: "uenv \<Rightarrow> u32 \<Rightarrow> u32 \<Rightarrow> libc \<Rightarrow> (u8 \<times> libc) res option" where
  "stat E fd buf st = on_up (on_os (u_stat E fd buf)) st"

text \<open>There is no \<open>fork\<close>: the message is printed and the program ends with status 1.\<close>

definition fork :: "uenv \<Rightarrow> u32 \<Rightarrow> stream \<Rightarrow> libc \<Rightarrow> (u32 \<times> libc) res option" where
  "fork E msg out st =
     res_bind (on_up (\<lambda>u. res_bind (printf E msg [] out u) (\<lambda>(r, f, u). Some (Inr (r, u)))) st) (\<lambda>(_, st).
     res_bind (abort E st) (\<lambda>(_, st). Some (Inr (0, st))))"

definition execve :: "uenv \<Rightarrow> u32 \<Rightarrow> u32 \<Rightarrow> u32 \<Rightarrow> libc \<Rightarrow> (u32 \<times> libc) res option" where
  "execve E filename argv envp st = on_up (on_os (u_exec E filename argv envp)) st"

text \<open>\<open>env\<close> is the address of the table of the environment.\<close>

definition execv :: "uenv \<Rightarrow> u32 \<Rightarrow> u32 \<Rightarrow> u32 \<Rightarrow> libc \<Rightarrow> (u32 \<times> libc) res option" where
  "execv E env f argv st = on_up (on_os (u_exec E f argv env)) st"

definition execvp :: "u32 \<Rightarrow> u32 \<Rightarrow> u32" where "execvp f argv = 0"

text \<open>The functions of \<open>io.c\<close> do nothing.\<close>

definition io_read :: "u32 \<Rightarrow> u32 \<Rightarrow> u32 \<Rightarrow> u32" where "io_read fd buf count = 0"
definition io_write :: "u32 \<Rightarrow> u32 \<Rightarrow> u32 \<Rightarrow> u32" where "io_write handle buf count = 0"
definition io_open :: "u32 \<Rightarrow> u32 \<Rightarrow> u32" where "io_open path oflag = 0"
definition io_close :: "u32 \<Rightarrow> u32" where "io_close fd = 0"

definition time :: "uenv \<Rightarrow> u32 \<Rightarrow> libc \<Rightarrow> (u32 \<times> libc) res option" where
  "time E tp st = res_bind (on_up (on_os (u_time E)) st) (\<lambda>(r, st).
     Some (Inr (r, if tp \<noteq> 0 then set_lmem (wr32 tp r (lmem st)) st else st)))"

subsection \<open>chdir.c\<close>

abbreviation dot :: u8 where "dot \<equiv> 46"

definition fits_path :: "cstring \<Rightarrow> cstring res" where
  "fits_path p = (if length p < 256 then Inr p else Inl Wild)"

text \<open>\<open>substr\<close> up to the last component; with no component to cut the length wraps around.\<close>

definition cut_last :: "cstring \<Rightarrow> cstring res" where
  "cut_last p = (let l = length (path_block p (path_size p - 1))
     in if length p < l + 1 then Inl Wild else Inr (substr_str p 0 (int (length p) - int l - 1)))"

definition chdir_part :: "cstring \<Rightarrow> cstring \<Rightarrow> cstring res" where
  "chdir_part curpath part =
     (if part = [dot, dot] \<and> curpath \<noteq> [slash] then cut_last curpath
      else if part \<noteq> [dot] then fits_path (curpath @ part @ [slash])
      else Inr curpath)"

fun chdir_loop :: "nat \<Rightarrow> u32 \<Rightarrow> u32 \<Rightarrow> cstring \<Rightarrow> u32 \<Rightarrow> bytes \<Rightarrow> (cstring \<times> u32 \<times> bytes) res option" where
  "chdir_loop 0 delim part curpath lst m = None"
| "chdir_loop (Suc k) delim part curpath lst m =
     (if part = 0 then Some (Inr (curpath, lst, m))
      else Option.bind (read_str m part) (\<lambda>w.
        res_bind (Some (chdir_part curpath w)) (\<lambda>curpath.
        Option.bind (strtok 0 delim lst m) (\<lambda>(part, lst, m). chdir_loop k delim part curpath lst m))))"

text \<open>\<open>delim\<close> is the literal with the slash and \<open>lst\<close> the static variable of \<open>strtok\<close>.\<close>

definition chdir :: "uenv \<Rightarrow> nat \<Rightarrow> u32 \<Rightarrow> u32 \<Rightarrow> u32 \<Rightarrow> libc \<Rightarrow> (u32 \<times> u32 \<times> libc) res option" where
  "chdir E k delim path lst st =
     (if lmem st path = slash
      then res_bind (on_up (on_os (u_chdir E path)) st) (\<lambda>(r, st). Some (Inr (r, lst, st)))
      else
        res_bind (Some (lmalloc st)) (\<lambda>(block, st).
        res_bind (getcwd E block 256 st) (\<lambda>(curpath, st).
        Option.bind (strtok path delim lst (lmem st)) (\<lambda>(part, lst, m).
        if curpath = 0 then Some (Inr (- 1, lst, set_lmem m st))
        else Option.bind (read_str m curpath) (\<lambda>p.
          res_bind (chdir_loop k delim part p lst m) (\<lambda>(p, lst, m).
          res_bind (on_up (on_os (u_chdir E curpath)) (set_lmem (put_str curpath p m) st)) (\<lambda>(r, st).
            Some (Inr (r, lst, st)))))))))"

subsection \<open>The path that chdir builds\<close>

text \<open>The components of the result: two dots cut the last one off, except at the root, where they become a
  component; one dot changes nothing.\<close>

definition into :: "cstring list \<Rightarrow> cstring \<Rightarrow> cstring list" where
  "into comps w = (if w = [dot, dot] \<and> comps \<noteq> [] then butlast comps else if w = [dot] then comps else comps @ [w])"

lemma plain_into: "plain_names comps \<Longrightarrow> slash \<notin> set w \<Longrightarrow> length comps + 1 < 4294967296 \<Longrightarrow> plain_names (into comps w)"
  by (auto simp: plain_names_def into_def dest: in_set_butlastD)

lemma length_path_of: "length (path_of comps) = sum_list (List.map (\<lambda>c. length c + 1) comps) + 1"
  by (induction comps) auto

lemma path_of_inj_nil: "path_of comps = [slash] \<longleftrightarrow> comps = []"
  by (rule path_of_single)

lemma cut_last_path_of:
  assumes "plain_names (comps @ [c])"
  shows "cut_last (path_of (comps @ [c])) = Inr (path_of comps)"
proof -
  have "path_size (path_of (comps @ [c])) - 1 = of_nat (length comps)"
    using path_size_path_of [OF assms] by simp
  then have "path_block (path_of (comps @ [c])) (path_size (path_of (comps @ [c])) - 1) = c"
    using path_block_path_of [OF assms, of "length comps"] by simp
  then show ?thesis by (simp add: cut_last_def substr_str_def path_of_snoc)
qed

lemma chdir_part_path_of:
  assumes "plain_names comps" "slash \<notin> set w" "length (path_of comps) + length w + 1 < 256"
  shows "chdir_part (path_of comps) w = Inr (path_of (into comps w))"
proof (cases "w = [dot, dot] \<and> comps \<noteq> []")
  case True
  then obtain ys c where "comps = ys @ [c]" by (cases comps rule: rev_cases) auto
  then show ?thesis using True cut_last_path_of [of ys c] assms(1) path_of_inj_nil [of comps]
    by (simp add: chdir_part_def into_def)
next
  case False
  then show ?thesis using assms(3) path_of_inj_nil [of comps]
    by (auto simp: chdir_part_def into_def fits_path_def path_of_snoc)
qed

lemma into_length:
  "plain_names comps \<Longrightarrow> slash \<notin> set w \<Longrightarrow> length (path_of (into comps w)) \<le> length (path_of comps) + length w + 1"
  by (cases comps rule: rev_cases) (auto simp: into_def length_path_of)

lemma length_comps: "length comps < length (path_of comps)"
  by (induction comps) auto

lemma chdir_loop_walk:
  assumes "pending slash delim lst ws m" "cstr m part w" "part \<noteq> 0" "word_ok [slash] w" "length w < 256"
    and "plain_names comps" "length (path_of comps) + length w + 1 + weight ws < 256" "length ws < k"
  shows "\<exists>lst' m'. chdir_loop (Suc k) delim part (path_of comps) lst m = Some (Inr (path_of (foldl into comps (w # ws)), lst', m'))
     \<and> plain_names (foldl into comps (w # ws)) \<and> length (path_of (foldl into comps (w # ws))) < 256
     \<and> (\<forall>a. unat a < unat lst \<or> unat lst + length (joined slash ws) < unat a \<longrightarrow> m' a = m a)"
  using assms
proof (induction ws arbitrary: k lst m part w comps)
  case Nil
  obtain k' where k: "k = Suc k'" using Nil.prems(8) by (cases k) auto
  have sl: "slash \<notin> set w" using Nil.prems(4) by (auto simp: word_ok_def)
  have "chdir_part (path_of comps) w = Inr (path_of (into comps w))"
    using chdir_part_path_of [OF Nil.prems(6) sl] Nil.prems(7) by simp
  moreover have "read_str m part = Some w" using read_str_cstr [OF Nil.prems(2)] Nil.prems(5) by simp
  ultimately show ?case
    using strtok_pending_nil [OF Nil.prems(1)] k plain_into [OF Nil.prems(6) sl] into_length [OF Nil.prems(6) sl] Nil.prems(3,7)
      length_comps [of comps] by simp
next
  case (Cons v vs)
  obtain k' where k: "k = Suc k'" using Cons.prems(8) by (cases k) auto
  have sl: "slash \<notin> set w" using Cons.prems(4) by (auto simp: word_ok_def)
  have v: "word_ok [slash] v" using Cons.prems(1) by (simp add: pending_def words_ok_def)
  have step: "chdir_part (path_of comps) w = Inr (path_of (into comps w))" "read_str m part = Some w"
    using chdir_part_path_of [OF Cons.prems(6) sl] Cons.prems(7) read_str_cstr [OF Cons.prems(2)] Cons.prems(5) by simp_all
  obtain lst1 m1 where t: "strtok 0 delim lst m = Some (lst, lst1, m1)" "pending slash delim lst1 vs m1" "cstr m1 lst v"
      "unat lst \<le> unat lst1" "unat lst1 + length (joined slash vs) \<le> unat lst + length (joined slash (v # vs))"
      "\<forall>a. unat a < unat lst \<or> unat lst + length (joined slash (v # vs)) < unat a \<longrightarrow> m1 a = m a"
    using strtok_pending [OF Cons.prems(1), of 0 lst] by blast
  have "lst \<noteq> 0" using Cons.prems(1) by (simp add: pending_def)
  obtain lst' m' where ih: "chdir_loop (Suc k') delim lst (path_of (into comps w)) lst1 m1
        = Some (Inr (path_of (foldl into (into comps w) (v # vs)), lst', m'))"
      "plain_names (foldl into (into comps w) (v # vs))" "length (path_of (foldl into (into comps w) (v # vs))) < 256"
      "\<forall>a. unat a < unat lst1 \<or> unat lst1 + length (joined slash vs) < unat a \<longrightarrow> m' a = m1 a"
  proof -
    have "plain_names (into comps w)" "length (path_of (into comps w)) \<le> length (path_of comps) + length w + 1"
      using plain_into [OF Cons.prems(6) sl] into_length [OF Cons.prems(6) sl] Cons.prems(7) length_comps [of comps] by simp_all
    moreover have "length v < 256" "length (path_of (into comps w)) + length v + 1 + weight vs < 256"
      using calculation(2) Cons.prems(7) by simp_all
    ultimately show ?thesis using that Cons.IH [OF t(2,3) \<open>lst \<noteq> 0\<close> v, of "into comps w" k'] Cons.prems(8) k by auto
  qed
  have "chdir_loop (Suc k) delim part (path_of comps) lst m = chdir_loop (Suc k') delim lst (path_of (into comps w)) lst1 m1"
    using step t(1) k Cons.prems(3) by (simp del: joined.simps)
  moreover have "\<forall>a. unat a < unat lst \<or> unat lst + length (joined slash (v # vs)) < unat a \<longrightarrow> m' a = m a"
  proof (intro allI impI)
    fix a :: u32 assume "unat a < unat lst \<or> unat lst + length (joined slash (v # vs)) < unat a"
    moreover from this have "unat a < unat lst1 \<or> unat lst1 + length (joined slash vs) < unat a" using t(4,5) by linarith
    ultimately show "m' a = m a" using ih(4) [rule_format, of a] t(6) [rule_format, of a] by argo
  qed
  ultimately show ?case using ih(1-3) by (intro exI [of _ lst'] exI [of _ m']) simp
qed

lemma path_of_nonzero: "0 \<notin> set (path_of comps) \<longleftrightarrow> (\<forall>c \<in> set comps. 0 \<notin> set c)"
  by (induction comps) auto

lemma path_of_resolved_nonzero:
  "0 \<notin> set (path_of comps) \<Longrightarrow> \<forall>w \<in> set ws. 0 \<notin> set w \<Longrightarrow> 0 \<notin> set (path_of (foldl into comps ws))"
proof (induction ws arbitrary: comps)
  case (Cons w ws)
  have "0 \<notin> set (path_of (into comps w))" using Cons.prems by (auto simp: path_of_nonzero into_def dest: in_set_butlastD)
  then show ?case using Cons by simp
qed simp

subsection \<open>The two system calls\<close>

lemma enter_proc: "procs (kern s) (cur s) = Some x \<Longrightarrow> cur_proc (enter E n a b c d e s) = Inr (x\<lparr>syscall_state := uframe E\<rparr>)"
  by (simp add: cur_proc_def get_proc_def) (simp add: enter_def)

lemma u_getcwd_runs:
  assumes u: "user_ok s" and x: "procs (kern s) (cur s) = Some x" "length (work_dir_abs x) \<le> unat sz"
  shows "\<exists>s'. u_getcwd E buf sz s = Some (Inr (buf, s')) \<and> files s' = (files s)\<lparr>mem := put_str buf (work_dir_abs x) (mem (files s))\<rparr>
     \<and> calm s s' \<and> cur s' = cur s \<and> procs (kern s') (cur s) = Some (x\<lparr>syscall_state := uframe E\<rparr>)"
proof -
  let ?s = "enter E 19 buf sz 0 0 0 s"
  let ?s1 = "?s\<lparr>files := (files s)\<lparr>mem := put_str buf (work_dir_abs x) (mem (files s))\<rparr>\<rparr>"
  have "run_sysfn (kcfg E) (mkpipe E) SysGetcwd buf sz 0 0 0 ?s = Some (Inr (buf, ?s1))"
    using x by (simp add: run_sysfn_def sys_getcwd_def enter_proc [OF x(1)] set_mem_def)
  then have "u_getcwd E buf sz s = Some (Inr (buf, leave E buf ?s1))"
    using sys_call_runs(1) [OF u, of 19 SysGetcwd] by (simp add: u_getcwd_def)
  moreover have "calm s (leave E buf ?s1)" by (rule calm_files [OF u])
  moreover have "procs (kern ?s) (cur s) = Some (x\<lparr>syscall_state := uframe E\<rparr>)" using x(1) by (simp add: enter_def cur_def)
  ultimately show ?thesis by (intro exI [of _ "leave E buf ?s1"]) simp
qed

lemma u_chdir_runs:
  assumes u: "user_ok s" and x: "procs (kern s) (cur s) = Some x"
    and p: "cstr (mem (files s)) path nm" "length nm < 4294967296"
    and k: "kseek (ftab s) nm (files s) = Inr (node, files s)" "node \<noteq> 0"
    and c: "canonize_absolute nm = Inr full" "length full < 256"
  shows "\<exists>s' y. u_chdir E path s = Some (Inr (0, s')) \<and> cur s' = cur s
     \<and> procs (kern s') (cur s) = Some y \<and> work_dir_abs y = full \<and> work_dir y = node"
proof -
  let ?s = "enter E 20 path 0 0 0 0 s"
  let ?y = "x\<lparr>syscall_state := uframe E, work_dir_abs := full, work_dir := node\<rparr>"
  let ?s1 = "?s\<lparr>kern := (kern ?s)\<lparr>procs := (procs (kern ?s))(cur s \<mapsto> ?y)\<rparr>\<rparr>"
  have "upd_proc (cur s) (\<lambda>x. x\<lparr>work_dir_abs := full, work_dir := node\<rparr>) (kern ?s) = Inr ((kern ?s)\<lparr>procs := (procs (kern ?s))(cur s \<mapsto> ?y)\<rparr>)"
    using x by (simp add: upd_proc_def get_proc_def) (simp add: enter_def cur_def)
  then have "run_sysfn (kcfg E) (mkpipe E) SysChdir path 0 0 0 0 ?s = Some (Inr (0, ?s1))"
    using read_str_cstr [OF p] k c by (simp add: run_sysfn_def sys_chdir_def on_files_def)
  then have "u_chdir E path s = Some (Inr (0, leave E 0 ?s1))"
    unfolding u_chdir_def using u
    by (intro sys_call_returns [where fn = SysChdir and y = ?y]) (simp_all add: cur_def enter_def)
  moreover have "cur ?s1 = cur s" by (simp add: cur_def enter_def)
  ultimately show ?thesis by (intro exI [of _ "leave E 0 ?s1"] exI [of _ ?y]) simp
qed

text \<open>The part of \<open>chdir\<close> between the two system calls: the path is cut into words and the working directory in
  the block walks along them.\<close>

lemma chdir_walks:
  fixes comps ws w
  defines "target \<equiv> foldl into comps (w # ws)"
  assumes wd: "plain_names comps" "0 \<notin> set (path_of comps)" and fits: "length (path_of comps) + weight (w # ws) < 256"
    and path: "pending slash delim path (w # ws) m"
    and ap: "apart block 256 path (Suc (length (joined slash (w # ws))))" "apart block 256 delim 2"
  shows "\<exists>lst1 m1 lst2 m2. strtok path delim lst (put_str block (path_of comps) m) = Some (path, lst1, m1)
     \<and> read_str m1 block = Some (path_of comps)
     \<and> chdir_loop (length ws + 2) delim path (path_of comps) lst1 m1 = Some (Inr (path_of target, lst2, m2))
     \<and> length (path_of target) < 256 \<and> cstr (put_str block (path_of target) m2) block (path_of target)"
proof -
  let ?wd = "path_of comps" and ?m = "put_str block (path_of comps) m"
  have words: "words_ok slash (w # ws)" "path \<noteq> 0" using path by (simp_all add: pending_def)
  then have w: "word_ok [slash] w" "\<forall>v \<in> set (w # ws). 0 \<notin> set v" by (auto simp: words_ok_def word_ok_def)
  have nwb: "no_wrap block 256" using ap(1) by (simp add: apart_def)
  have out: "put_str block xs m a = m a" if "length xs < 256" "unat a < unat block \<or> unat block + 256 \<le> unat a" for xs m a
    using put_str_same_on [of "unat a" "Suc (unat a)" block xs m] that nwb by (auto simp: same_on_def beside_def no_wrap_def)
  have pend: "pending slash delim path (w # ws) ?m"
    using ap fits by (intro pending_same_on [OF path] out) (auto simp: apart_def)
  obtain lst1 m1 where t: "strtok path delim lst ?m = Some (path, lst1, m1)" "pending slash delim lst1 ws m1" "cstr m1 path w"
      "unat path \<le> unat lst1" "unat lst1 + length (joined slash ws) \<le> unat path + length (joined slash (w # ws))"
      "\<forall>a. unat a < unat path \<or> unat path + length (joined slash (w # ws)) < unat a \<longrightarrow> m1 a = ?m a"
    using strtok_pending [OF pend, of path lst] by blast
  have len: "length ?wd < 256" using fits by simp
  have "cstr ?m block ?wd" using len nwb wd(2) by (intro cstr_put_str) (auto simp: no_wrap_def)
  then have "cstr m1 block ?wd"
    using len nwb ap(1) by (rule_tac cstr_stays [of ?m]) (auto simp: no_wrap_def apart_def intro!: t(6) [rule_format])
  then have rd: "read_str m1 block = Some ?wd" using len by (intro read_str_cstr) simp_all
  obtain lst2 m2 where l: "chdir_loop (length ws + 2) delim path ?wd lst1 m1 = Some (Inr (path_of target, lst2, m2))"
      "length (path_of target) < 256"
    using chdir_loop_walk [OF t(2,3) words(2) w(1), of comps "length ws + 1"] wd(1) fits by (auto simp: target_def)
  have "0 \<notin> set (path_of target)" unfolding target_def using path_of_resolved_nonzero [OF wd(2) w(2)] .
  then have "cstr (put_str block (path_of target) m2) block (path_of target)"
    using l(2) nwb by (intro cstr_put_str) (auto simp: no_wrap_def)
  then show ?thesis using t(1) rd l by blast
qed



end
