(* ===== verification/Shell.thy ===== *)
theory Shell
  imports Unistd
begin

text \<open>
  The interactive shell, \<open>os/usr/shell/main.c\<close>, over the C library (theories Stdio, Env, Unistd): splitting a
  command line into words, looking up a program in the directories of the environment, starting it, and
  passing input and output between the terminal and the program. The text that \<open>printf\<close> writes is kept as a
  list of strings. Freed blocks are not used again.
\<close>

subsection \<open>State\<close>

definition str8 :: "string \<Rightarrow> cstring" where
  "str8 s = List.map of_char s"

text \<open>The string literals that are passed by address.\<close>

record lits =
  l_blank :: u32
  l_colon :: u32
  l_dollar :: u32
  l_path :: u32
  l_slash :: u32

text \<open>The static variables, with the one of \<open>strtok\<close> and the stream of the terminal. \<open>env_tab\<close> is the address of
  the table of the environment.\<close>

record shell =
  sl :: libc
  tok :: u32
  sh_exec :: u32
  sh_argv :: u32
  argc :: u32
  exec_stdout :: "stream option"
  exec_stderr :: "stream option"
  exec_stdin :: "stream option"
  in_exec :: bool
  sh_stdin :: stream
  cwdbuffer :: u32
  env_tab :: u32
  shown :: "cstring list"

abbreviation sh_mem :: "shell \<Rightarrow> bytes" where
  "sh_mem s \<equiv> lmem (sl s)"

definition set_sh_mem :: "bytes \<Rightarrow> shell \<Rightarrow> shell" where
  "set_sh_mem m s = s\<lparr>sl := set_lmem m (sl s)\<rparr>"

definition on_sl :: "(libc \<Rightarrow> ('a \<times> libc) res option) \<Rightarrow> shell \<Rightarrow> ('a \<times> shell) res option" where
  "on_sl f s = res_bind (f (sl s)) (\<lambda>(r, st). Some (Inr (r, s\<lparr>sl := st\<rparr>)))"

definition on_prog :: "(uprog \<Rightarrow> ('a \<times> uprog) res option) \<Rightarrow> shell \<Rightarrow> ('a \<times> shell) res option" where
  "on_prog f = on_sl (on_up f)"

definition sh_malloc :: "shell \<Rightarrow> (u32 \<times> shell) res option" where
  "sh_malloc = on_sl (\<lambda>st. Some (lmalloc st))"

definition say :: "cstring \<Rightarrow> shell \<Rightarrow> shell" where
  "say t s = s\<lparr>shown := shown s @ [t]\<rparr>"

subsection \<open>Words\<close>

text \<open>A copy of a string of length \<open>n\<close> in a block of its own.\<close>

definition sh_copy :: "u32 \<Rightarrow> u32 \<Rightarrow> shell \<Rightarrow> (u32 \<times> shell) res option" where
  "sh_copy word n s =
     res_bind (sh_malloc s) (\<lambda>(p, s).
     Option.bind (strcpy p word (snd (memset p 0 (n + 1) (sh_mem s)))) (\<lambda>m. Some (Inr (p, set_sh_mem m s))))"

text \<open>\<open>realloc\<close> of the table: a new block with the words of the old one.\<close>

definition grow_argv :: "shell \<Rightarrow> (u32 \<times> shell) res option" where
  "grow_argv s =
     res_bind (sh_malloc s) (\<lambda>(p, s).
       Some (Inr (p, if argc s = 0 then s else set_sh_mem (copy_up p (sh_argv s) (4 * unat (argc s)) (sh_mem s)) s)))"

definition process_word :: "u32 \<Rightarrow> shell \<Rightarrow> shell res option" where
  "process_word word s =
     Option.bind (strlen (sh_mem s) word) (\<lambda>n.
       if sh_exec s = 0 then res_bind (sh_copy word n s) (\<lambda>(p, s). Some (Inr (s\<lparr>sh_exec := p\<rparr>)))
       else
         res_bind (grow_argv s) (\<lambda>(tab, s).
         res_bind (sh_copy word n (s\<lparr>sh_argv := tab\<rparr>)) (\<lambda>(p, s).
           Some (Inr ((set_sh_mem (wr32 (sh_argv s + 4 * argc s) p (sh_mem s)) s)\<lparr>argc := argc s + 1\<rparr>)))))"

definition sh_strtok :: "u32 \<Rightarrow> u32 \<Rightarrow> shell \<Rightarrow> (u32 \<times> shell) option" where
  "sh_strtok str delim s = map_option (\<lambda>(p, lst, m). (p, (set_sh_mem m s)\<lparr>tok := lst\<rparr>)) (strtok str delim (tok s) (sh_mem s))"

fun split_words :: "nat \<Rightarrow> u32 \<Rightarrow> u32 \<Rightarrow> shell \<Rightarrow> shell res option" where
  "split_words 0 blank word s = None"
| "split_words (Suc k) blank word s =
     (if word = 0 then Some (Inr s)
      else res_bind (process_word word s) (\<lambda>s. Option.bind (sh_strtok 0 blank s) (\<lambda>(word, s). split_words k blank word s)))"

subsection \<open>Finding the program\<close>

text \<open>\<open>cmd.smp\<close> in each directory of the list.\<close>

fun seek_dirs :: "nat \<Rightarrow> uenv \<Rightarrow> lits \<Rightarrow> u32 \<Rightarrow> u32 \<Rightarrow> u32 \<Rightarrow> shell \<Rightarrow> (u32 \<times> shell) res option" where
  "seek_dirs 0 E L cmd fullname part s = None"
| "seek_dirs (Suc k) E L cmd fullname part s =
     (if part = 0 then Some (Inr (0, s))
      else
        Option.bind (strcpy fullname cmd (sh_mem s)) (\<lambda>m.
        Option.bind (strcat_lit fullname (str8 ''.smp'') m) (\<lambda>m.
        res_bind (sh_malloc (set_sh_mem m s)) (\<lambda>(fullpath, s).
        Option.bind (strcpy fullpath part (snd (memset fullpath 0 256 (sh_mem s)))) (\<lambda>m.
        Option.bind (strcat_lit fullpath [slash] m) (\<lambda>m.
        Option.bind (strcat fullpath fullname m) (\<lambda>(_, m).
        res_bind (on_prog (fopen E fullpath (str8 ''r'')) (set_sh_mem m s)) (\<lambda>(f, s).
          case f of
            Some f \<Rightarrow> res_bind (on_prog (fclose E f) s) (\<lambda>(_, s). Some (Inr (fullpath, s)))
          | None \<Rightarrow> Option.bind (sh_strtok 0 (l_colon L) s) (\<lambda>(part, s). seek_dirs k E L cmd fullname part s)))))))))"

text \<open>Without the variable \<open>PATH\<close> the first \<open>strtok\<close> goes on with the string it cut last.\<close>

definition seekenv :: "nat \<Rightarrow> uenv \<Rightarrow> lits \<Rightarrow> u32 \<Rightarrow> shell \<Rightarrow> (u32 \<times> shell) res option" where
  "seekenv k E L cmd s =
     res_bind (on_sl (getenv (l_path L)) s) (\<lambda>(path, s).
     Option.bind (sh_strtok path (l_colon L) s) (\<lambda>(part, s).
     Option.bind (strlen (sh_mem s) cmd) (\<lambda>n.
     res_bind (sh_malloc s) (\<lambda>(fullname, s).
       seek_dirs k E L cmd fullname part (set_sh_mem (snd (memset fullname 0 (n + 5) (sh_mem s))) s)))))"

text \<open>An argument that begins with a dollar sign is replaced by the value of the variable, or a blank.\<close>

definition expand_arg :: "lits \<Rightarrow> u32 \<Rightarrow> shell \<Rightarrow> shell res option" where
  "expand_arg L i s =
     (let slot = sh_argv s + 4 * i; arg = rd32 (sh_mem s) slot in
      if sh_mem s arg \<noteq> 36 then Some (Inr s)
      else
        Option.bind (sh_strtok arg (l_dollar L) s) (\<lambda>(name, s).
        if name = 0 \<and> env_size (sl s) \<noteq> 0 then Some (Inl Wild)
        else res_bind (on_sl (getenv name) s) (\<lambda>(newarg, s).
        let newarg = (if newarg = 0 then l_blank L else newarg) in
        res_bind (sh_malloc s) (\<lambda>(p, s).
        Option.bind (strcpy p newarg (wr32 slot p (sh_mem s))) (\<lambda>m. Some (Inr (set_sh_mem m s)))))))"

fun expand_args :: "lits \<Rightarrow> nat \<Rightarrow> nat \<Rightarrow> shell \<Rightarrow> shell res option" where
  "expand_args L i 0 s = Some (Inr s)"
| "expand_args L i (Suc k) s = res_bind (expand_arg L (of_nat i) s) (expand_args L (Suc i) k)"

subsection \<open>Running a command\<close>

text \<open>Opening a stream of the program until it succeeds; the fuel counts the attempts.\<close>

fun open_wait :: "nat \<Rightarrow> uenv \<Rightarrow> u32 \<Rightarrow> cstring \<Rightarrow> shell \<Rightarrow> (stream \<times> shell) res option" where
  "open_wait 0 E path mode s = None"
| "open_wait (Suc k) E path mode s =
     res_bind (on_prog (fopen E path mode) s) (\<lambda>(f, s).
       case f of Some f \<Rightarrow> Some (Inr (f, s)) | None \<Rightarrow> open_wait k E path mode s)"

definition open_std_of :: "nat \<Rightarrow> uenv \<Rightarrow> u32 \<Rightarrow> u32 \<Rightarrow> cstring \<Rightarrow> cstring \<Rightarrow> shell \<Rightarrow> (stream \<times> shell) res option" where
  "open_std_of k E path i name mode s =
     res_bind (Some (proc_path name i)) (\<lambda>out.
       open_wait k E path mode (set_sh_mem (put_str path out (snd (memset path 0 64 (sh_mem s)))) s))"

definition cd_command :: "nat \<Rightarrow> uenv \<Rightarrow> lits \<Rightarrow> shell \<Rightarrow> shell res option" where
  "cd_command k E L s =
     (if argc s = 0 then Some (Inr (say (str8 ''Usage: cd [path]'' @ [10]) s))
      else res_bind (chdir E k (l_slash L) (rd32 (sh_mem s) (sh_argv s)) (tok s) (sl s)) (\<lambda>(r, lst, st).
        let s = s\<lparr>sl := st, tok := lst\<rparr> in Some (Inr (if sint r < 0 then say (str8 ''No such directory'' @ [10]) s else s))))"

text \<open>The path of the program, 0 if there is none.\<close>

definition find_program :: "nat \<Rightarrow> uenv \<Rightarrow> lits \<Rightarrow> shell \<Rightarrow> (u32 \<times> shell) res option" where
  "find_program k E L s =
     (if sh_mem s (sh_exec s) = dot then
        res_bind (on_sl (getcwd E (cwdbuffer s) 256) s) (\<lambda>(cwd, s).
        if cwd = 0 then Some (Inl Wild)
        else Option.bind (strcat cwd (sh_exec s) (sh_mem s)) (\<lambda>(fullpath, m).
          res_bind (on_prog (fopen E fullpath (str8 ''r'')) (set_sh_mem m s)) (\<lambda>(f, s).
            case f of None \<Rightarrow> Some (Inr (0, s))
            | Some f \<Rightarrow> res_bind (on_prog (fclose E f) s) (\<lambda>(_, s). Some (Inr (fullpath, s))))))
      else if sh_mem s (sh_exec s) = slash then Some (Inr (sh_exec s, s))
      else seekenv k E L (sh_exec s) s)"

definition start_program :: "nat \<Rightarrow> uenv \<Rightarrow> lits \<Rightarrow> u32 \<Rightarrow> shell \<Rightarrow> shell res option" where
  "start_program k E L buffer s =
     res_bind (find_program k E L s) (\<lambda>(fullpath, s).
     if fullpath = 0 then
       Option.bind (read_str (sh_mem s) (sh_exec s)) (\<lambda>e. Some (Inr (say (str8 ''Executable not found: '' @ e @ [10]) s)))
     else
       res_bind (on_sl (execv E (env_tab s) fullpath (sh_argv s)) s) (\<lambda>(child, s).
       if child = 0 then
         Option.bind (read_str (sh_mem s) buffer) (\<lambda>b. Some (Inr (say (str8 ''Failed to execute: '' @ b @ [10]) s)))
       else
         res_bind (sh_malloc (s\<lparr>in_exec := True\<rparr>)) (\<lambda>(path, s).
         res_bind (open_std_of k E path child (str8 ''stdout'') (str8 ''r'') s) (\<lambda>(f, s).
         res_bind (open_std_of k E path child (str8 ''stderr'') (str8 ''r'') (s\<lparr>exec_stdout := Some f\<rparr>)) (\<lambda>(f, s).
         res_bind (open_std_of k E path child (str8 ''stdin'') (str8 ''w'') (s\<lparr>exec_stderr := Some f\<rparr>)) (\<lambda>(f, s).
           Some (Inr (s\<lparr>exec_stdin := Some f\<rparr>))))))))"

definition process_input :: "nat \<Rightarrow> uenv \<Rightarrow> lits \<Rightarrow> u32 \<Rightarrow> shell \<Rightarrow> shell res option" where
  "process_input k E L buffer s =
     Option.bind (sh_strtok buffer (l_blank L) s) (\<lambda>(word, s).
     res_bind (split_words k (l_blank L) word s) (\<lambda>s.
     if sh_exec s = 0 then Some (Inr s)
     else
       res_bind (expand_args L 0 (unat (argc s)) s) (\<lambda>s.
       Option.bind (read_str (sh_mem s) (sh_exec s)) (\<lambda>e.
       res_bind (if e = str8 ''cd'' then cd_command k E L s else start_program k E L buffer s) (\<lambda>s.
         Some (Inr (s\<lparr>sh_exec := 0, sh_argv := 0, argc := 0\<rparr>)))))))"

subsection \<open>The main loop and the signal handler\<close>

text \<open>\<open>[%s %d]>> \<close> with the working directory, or ERROR, and the user.\<close>

definition prompt :: "uenv \<Rightarrow> shell \<Rightarrow> shell res option" where
  "prompt E s =
     res_bind (on_sl (getcwd E (cwdbuffer s) 256) s) (\<lambda>(cwd, s).
     Option.bind (if cwd = 0 then Some (str8 ''ERROR'') else read_str (sh_mem s) (cwdbuffer s)) (\<lambda>d.
     res_bind (on_sl (getuid E) s) (\<lambda>(u, s).
     res_bind (Some (vsprintf (\<lambda>_. d) (str8 ''[%s %d]>> '') [0, u])) (\<lambda>(_, t). Some (Inr (say t s))))))"

definition drain :: "uenv \<Rightarrow> u32 \<Rightarrow> u32 \<Rightarrow> stream \<Rightarrow> shell \<Rightarrow> (u32 \<times> shell) res option" where
  "drain E buf n f s = on_prog (\<lambda>u. res_bind (fread E buf 1 n f u) (\<lambda>(r, _, u). Some (Inr (r, u)))) s"

text \<open>The streams of the program that has ended are read once more and closed.\<close>

definition close_stream :: "uenv \<Rightarrow> u32 \<Rightarrow> u32 \<Rightarrow> stream option \<Rightarrow> shell \<Rightarrow> shell res option" where
  "close_stream E buf n f s = (case f of
       None \<Rightarrow> Some (Inr s)
     | Some f \<Rightarrow>
         res_bind (if n = 0 then Some (Inr (0, s)) else drain E buf n f s) (\<lambda>(_, s).
         res_bind (on_prog (fclose E f) s) (\<lambda>(_, s). Some (Inr s))))"

definition sig_child :: "uenv \<Rightarrow> shell \<Rightarrow> shell res option" where
  "sig_child E s =
     res_bind (sh_malloc s) (\<lambda>(proc_out, s).
     let s = set_sh_mem (snd (memset proc_out 0 256 (sh_mem s))) s in
     res_bind (case exec_stdout s of None \<Rightarrow> Some (Inr s)
       | Some f \<Rightarrow> res_bind (drain E proc_out 256 f s) (\<lambda>(n, s).
           if n = 0 then Some (Inr s)
           else Option.bind (read_str (sh_mem s) proc_out) (\<lambda>t. Some (Inr (say t s))))) (\<lambda>s.
     res_bind (close_stream E proc_out 0 (exec_stdout s) s) (\<lambda>s.
     res_bind (close_stream E proc_out 128 (exec_stderr s) (s\<lparr>exec_stdout := None\<rparr>)) (\<lambda>s.
     res_bind (close_stream E proc_out 256 (exec_stdin s) (s\<lparr>exec_stderr := None\<rparr>)) (\<lambda>s.
     res_bind (prompt E (say [10] (say ([10] @ str8 ''[process exited]'' @ [10]) (s\<lparr>exec_stdin := None, in_exec := False\<rparr>)))) (\<lambda>s.
     res_bind (on_prog (on_os (u_sigexit E)) s) (\<lambda>(_, s). Some (Inr s))))))))"

text \<open>Input for a running program is passed on one byte at a time; otherwise it is a command line, whose last
  character is overwritten.\<close>

definition handle_line :: "nat \<Rightarrow> uenv \<Rightarrow> lits \<Rightarrow> u32 \<Rightarrow> u32 \<Rightarrow> shell \<Rightarrow> shell res option" where
  "handle_line k E L cmd n s =
     (if in_exec s then
        (case exec_stdin s of None \<Rightarrow> Some (Inl Wild)
         | Some f \<Rightarrow> res_bind (on_prog (\<lambda>u. res_bind (fwrite E cmd 1 1 f u) (\<lambda>(r, f, u). Some (Inr (f, u)))) s) (\<lambda>(f, s).
             Some (Inr (s\<lparr>exec_stdin := Some f\<rparr>))))
      else
        res_bind (if sh_mem s cmd \<noteq> 10
          then process_input k E L cmd (set_sh_mem ((sh_mem s)(cmd + (n - 1) := 0)) (say [10] s))
          else Some (Inr s)) (\<lambda>s.
        let s = set_sh_mem (snd (memset cmd 0 2048 (sh_mem s))) s in
        if in_exec s then Some (Inr s) else prompt E s))"

definition shell_round :: "nat \<Rightarrow> uenv \<Rightarrow> lits \<Rightarrow> u32 \<Rightarrow> u32 \<Rightarrow> shell \<Rightarrow> shell res option" where
  "shell_round k E L cmd proc_stdout s =
     (let s = set_sh_mem (snd (memset proc_stdout 0 256 (sh_mem s))) s in
      res_bind (case exec_stdout s of None \<Rightarrow> Some (Inr s)
        | Some f \<Rightarrow> res_bind (on_prog (\<lambda>u. res_bind (fread E proc_stdout 1 256 f u) (\<lambda>(r, f, u). Some (Inr ((r, f), u)))) s) (\<lambda>((r, f), s).
            Some (Inr (say (List.map (\<lambda>i. sh_mem s (proc_stdout + of_nat i)) [0..<unat r]) (s\<lparr>exec_stdout := Some f\<rparr>))))) (\<lambda>s.
      res_bind (on_prog (\<lambda>u. res_bind (fread E cmd 1 2048 (sh_stdin s) u) (\<lambda>(r, f, u). Some (Inr ((r, f), u)))) s) (\<lambda>((n, f), s).
      let s = s\<lparr>sh_stdin := f\<rparr> in if n = 0 then Some (Inr s) else handle_line k E L cmd n s)))"

subsection \<open>The words of a command line\<close>

text \<open>Blocks of \<open>n\<close> bytes that the library will hand out, all from \<open>lo\<close> on and one behind the other.\<close>

fun blocks_from :: "nat \<Rightarrow> nat \<Rightarrow> u32 list \<Rightarrow> bool" where
  "blocks_from n lo [] \<longleftrightarrow> True"
| "blocks_from n lo (p # ps) \<longleftrightarrow> lo \<le> unat p \<and> p \<noteq> 0 \<and> no_wrap p n \<and> blocks_from n (unat p + n) ps"

text \<open>A string that ends below \<open>hi\<close> and does not begin below \<open>lo\<close>.\<close>

definition str_in :: "nat \<Rightarrow> nat \<Rightarrow> bytes \<Rightarrow> u32 \<Rightarrow> cstring \<Rightarrow> bool" where
  "str_in lo hi m p xs \<longleftrightarrow> cstr m p xs \<and> lo \<le> unat p \<and> unat p + length xs < hi \<and> no_wrap p (Suc (length xs))"

definition args_at :: "nat \<Rightarrow> nat \<Rightarrow> bytes \<Rightarrow> u32 \<Rightarrow> cstring list \<Rightarrow> bool" where
  "args_at lo hi m tab xs \<longleftrightarrow> (xs \<noteq> [] \<longrightarrow> lo \<le> unat tab \<and> unat tab + 4 * length xs \<le> hi \<and> no_wrap tab (4 * length xs))
     \<and> (\<forall>i < length xs. rd32 m (tab + 4 * of_nat i) \<noteq> 0 \<and> str_in lo hi m (rd32 m (tab + 4 * of_nat i)) (xs ! i))"

definition parsed :: "nat \<Rightarrow> nat \<Rightarrow> cstring \<Rightarrow> cstring list \<Rightarrow> shell \<Rightarrow> bool" where
  "parsed lo hi e xs s \<longleftrightarrow> sh_exec s \<noteq> 0 \<and> str_in lo hi (sh_mem s) (sh_exec s) e
     \<and> argc s = of_nat (length xs) \<and> args_at lo hi (sh_mem s) (sh_argv s) xs"

lemma str_in_same_on: "same_on lo hi m m' \<Longrightarrow> str_in lo hi m p xs \<Longrightarrow> str_in lo hi m' p xs"
  using cstr_same_on [of lo hi m m' p xs] by (auto simp: str_in_def no_wrap_def)

lemma str_in_mono: "str_in lo hi m p xs \<Longrightarrow> hi \<le> hi' \<Longrightarrow> str_in lo hi' m p xs"
  by (auto simp: str_in_def)

definition drop_block :: "shell \<Rightarrow> shell" where
  "drop_block s = s\<lparr>sl := (sl s)\<lparr>up := (up (sl s))\<lparr>ublocks := tl (ublocks (up (sl s)))\<rparr>\<rparr>\<rparr>"

lemma set_sh_mem_simps [simp]: "sh_mem (set_sh_mem m s) = m" "ublocks (up (sl (set_sh_mem m s))) = ublocks (up (sl s))"
  "sh_exec (set_sh_mem m s) = sh_exec s" "sh_argv (set_sh_mem m s) = sh_argv s" "argc (set_sh_mem m s) = argc s" "tok (set_sh_mem m s) = tok s"
  "set_sh_mem m (set_sh_mem m' s) = set_sh_mem m s"
  by (simp_all add: set_sh_mem_def set_lmem_def set_umem_def set_mem_def)

lemma drop_block_simps [simp]: "sh_mem (drop_block s) = sh_mem s" "ublocks (up (sl (drop_block s))) = tl (ublocks (up (sl s)))"
  "sh_exec (drop_block s) = sh_exec s" "sh_argv (drop_block s) = sh_argv s" "argc (drop_block s) = argc s" "tok (drop_block s) = tok s"
  by (simp_all add: drop_block_def)

lemma sh_malloc_runs: "ublocks (up (sl s)) = p # ps \<Longrightarrow> sh_malloc s = Some (Inr (p, drop_block s))"
  by (simp add: sh_malloc_def on_sl_def lmalloc_def umalloc_def drop_block_def)

lemma sh_copy_runs:
  assumes b: "ublocks (up (sl s)) = p # ps" "no_wrap p n" "length xs < n" and w: "str_in lo (unat p) (sh_mem s) w xs"
  shows "\<exists>m'. sh_copy w (of_nat (length xs)) s = Some (Inr (p, set_sh_mem m' (drop_block s)))
     \<and> below (unat p) (sh_mem s) m' \<and> str_in (unat p) (unat p + n) m' p xs"
proof -
  let ?m = "snd (memset p 0 (of_nat (length xs) + 1) (sh_mem s))"
  have len: "unat (of_nat (length xs) + 1 :: u32) = length xs + 1"
    using b(2,3) unat_of_nat_u32 [of "length xs + 1"] by (simp add: no_wrap_def ac_simps)
  have nw: "no_wrap p (unat (of_nat (length xs) + 1 :: u32))" using b(2,3) len by (simp add: no_wrap_def)
  have m: "below (unat p) (sh_mem s) ?m" unfolding memset_at [OF nw] by (simp add: below_def)
  then have c: "cstr ?m w xs" using str_in_same_on [OF below_same_on w] by (simp add: str_in_def)
  have ap: "apart p (Suc (length xs)) w (Suc (length xs))"
    using w b(2,3) by (auto simp: str_in_def apart_def no_wrap_def)
  obtain m' where m': "strcpy p w ?m = Some m'" "cstr m' p xs" "\<forall>a. unat a < unat p \<or> unat p + length xs < unat a \<longrightarrow> m' a = ?m a"
    using strcpy_copies [OF c ap] by blast
  have "sh_copy w (of_nat (length xs)) s = Some (Inr (p, set_sh_mem m' (drop_block s)))"
    using m'(1) by (simp add: sh_copy_def sh_malloc_runs [OF b(1)])
  moreover have "below (unat p) (sh_mem s) m'" using m m'(3) by (simp add: below_def)
  moreover have "str_in (unat p) (unat p + n) m' p xs" using m'(2) b(2,3) by (simp add: str_in_def no_wrap_def)
  ultimately show ?thesis by blast
qed

lemma process_word_first:
  assumes b: "ublocks (up (sl s)) = p # ps" "blocks_from n lo (p # ps)" "length x < n" and w: "str_in bs lo (sh_mem s) w x"
    and e: "sh_exec s = 0" "argc s = 0" and mid: "mid \<le> lo"
  shows "\<exists>s'. process_word w s = Some (Inr s') \<and> parsed mid (unat p + n) x [] s' \<and> ublocks (up (sl s')) = ps
     \<and> below lo (sh_mem s) (sh_mem s') \<and> tok s' = tok s"
proof -
  have p: "lo \<le> unat p" "p \<noteq> 0" "no_wrap p n" using b(2) by simp_all
  obtain m' where m': "sh_copy w (of_nat (length x)) s = Some (Inr (p, set_sh_mem m' (drop_block s)))"
      "below (unat p) (sh_mem s) m'" "str_in (unat p) (unat p + n) m' p x"
    using sh_copy_runs [OF b(1) p(3) b(3) str_in_mono [OF w p(1)]] by blast
  have "process_word w s = Some (Inr ((set_sh_mem m' (drop_block s))\<lparr>sh_exec := p\<rparr>))"
    using m'(1) e w strlen_cstr [of "sh_mem s" w x] by (simp add: process_word_def str_in_def)
  moreover have "str_in mid (unat p + n) m' p x" using m'(3) mid p(1) by (simp add: str_in_def)
  ultimately show ?thesis using m'(2) p e(2) b(1)
    by (intro exI [of _ "(set_sh_mem m' (drop_block s))\<lparr>sh_exec := p\<rparr>"]) (simp add: parsed_def args_at_def below_def)
qed

text \<open>The table in its new place: the words are copied, so the strings are still found.\<close>

lemma copy_up_at:
  assumes "apart p n q n" "i < n"
  shows "copy_up p q n m (p + of_nat i) = m (q + of_nat i)"
proof -
  have "p \<le> q \<or> unat q + n \<le> unat p" using assms(1) by (auto simp: apart_def word_le_nat_alt)
  then have "copy_up p q n m = moved p q n m" using assms(1) copy_up_moved [of p n q m] by (simp add: apart_def)
  moreover have "unat (p + of_nat i) = unat p + i" using assms no_wrap_index [of p n i] by (simp add: apart_def)
  ultimately show ?thesis using assms(2) by (simp add: moved_def)
qed

lemma copy_up_slot:
  assumes "apart p (4 * k) q (4 * k)" "i < k"
  shows "rd32 (copy_up p q (4 * k) m) (p + 4 * of_nat i) = rd32 m (q + 4 * of_nat i)"
proof -
  have "copy_up p q (4 * k) m (p + 4 * of_nat i + of_nat j) = m (q + 4 * of_nat i + of_nat j)" if "j < 4" for j
    using copy_up_at [OF assms(1), of "4 * i + j" m] assms(2) that by (simp add: algebra_simps)
  from this [of 0] this [of 1] this [of 2] this [of 3] show ?thesis by (simp add: rd32_def)
qed

text \<open>The slots of a table at \<open>p\<close> whose strings lie below it.\<close>

definition slots_at :: "nat \<Rightarrow> bytes \<Rightarrow> u32 \<Rightarrow> cstring list \<Rightarrow> bool" where
  "slots_at lo m p xs \<longleftrightarrow> (\<forall>i < length xs. rd32 m (p + 4 * of_nat i) \<noteq> 0 \<and> str_in lo (unat p) m (rd32 m (p + 4 * of_nat i)) (xs ! i))"

lemma slots_at_same_on:
  assumes "slots_at lo m p xs" "same_on lo (unat p) m m'" "same_on (unat p) (unat p + 4 * length xs) m m'" "no_wrap p (4 * length xs)"
  shows "slots_at lo m' p xs"
  unfolding slots_at_def
proof (intro allI impI)
  fix i assume i: "i < length xs"
  have "rd32 m' (p + 4 * of_nat i) = rd32 m (p + 4 * of_nat i)"
    by (rule rd32_slot_same_on [OF assms(3) i _ _ assms(4)]) simp_all
  then show "rd32 m' (p + 4 * of_nat i) \<noteq> 0 \<and> str_in lo (unat p) m' (rd32 m' (p + 4 * of_nat i)) (xs ! i)"
    using assms(1) i str_in_same_on [OF assms(2)] by (simp add: slots_at_def)
qed

lemma slots_at_grow:
  assumes "args_at lo hi m tab xs" "hi \<le> unat p" "no_wrap p (4 * length xs)"
  shows "slots_at lo (copy_up p tab (4 * length xs) m) p xs"
  unfolding slots_at_def
proof (intro allI impI)
  let ?m = "copy_up p tab (4 * length xs) m"
  fix i assume i: "i < length xs"
  then have "apart p (4 * length xs) tab (4 * length xs)"
    using assms by (auto simp: args_at_def apart_def)
  then have "rd32 ?m (p + 4 * of_nat i) = rd32 m (tab + 4 * of_nat i)" using copy_up_slot i by simp
  moreover have "same_on lo (unat p) m ?m" using below_copy_up [OF _ assms(3)] by (intro below_same_on) simp
  moreover have "rd32 m (tab + 4 * of_nat i) \<noteq> 0" "str_in lo hi m (rd32 m (tab + 4 * of_nat i)) (xs ! i)"
    using assms(1) i by (simp_all add: args_at_def)
  ultimately show "rd32 ?m (p + 4 * of_nat i) \<noteq> 0 \<and> str_in lo (unat p) ?m (rd32 ?m (p + 4 * of_nat i)) (xs ! i)"
    using str_in_same_on str_in_mono [OF _ assms(2)] by simp
qed

lemma slots_at_snoc:
  assumes a: "slots_at lo m p xs" and p: "lo \<le> unat p" "no_wrap p (4 * Suc (length xs))"
    and q: "q \<noteq> 0" "str_in (unat q) hi m q x" "unat p + 4 * Suc (length xs) \<le> unat q"
  shows "args_at lo hi (wr32 (p + 4 * of_nat (length xs)) q m) p (xs @ [x])"
proof -
  let ?slot = "p + 4 * of_nat (length xs)"
  let ?m = "wr32 ?slot q m"
  have "unat (p + of_nat (4 * length xs)) = unat p + 4 * length xs" by (rule no_wrap_index [OF p(2)]) simp
  then have u: "unat ?slot = unat p + 4 * length xs" by simp
  have nw: "no_wrap ?slot 4" "no_wrap p (4 * length xs)" using p(2) u by (simp_all add: no_wrap_def)
  have sm: "same_on lo (unat p) m ?m" "same_on (unat p) (unat p + 4 * length xs) m ?m" "same_on (unat q) hi m ?m"
    using u nw q(3) by (auto intro!: wr32_same_on simp: beside_def)
  have s: "slots_at lo ?m p xs" by (rule slots_at_same_on [OF a sm(1,2) nw(2)])
  have hi: "unat p \<le> hi" "unat p + 4 * Suc (length xs) \<le> hi" using q(2,3) by (simp_all add: str_in_def)
  have "str_in lo hi ?m q x" using str_in_same_on [OF sm(3) q(2)] p(1) q(3) by (simp add: str_in_def)
  then have "rd32 ?m (p + 4 * of_nat i) \<noteq> 0 \<and> str_in lo hi ?m (rd32 ?m (p + 4 * of_nat i)) ((xs @ [x]) ! i)" if "i < Suc (length xs)" for i
    using s hi(1) q(1) that str_in_mono [of lo "unat p" ?m] by (cases "i = length xs") (auto simp: slots_at_def nth_append)
  then show ?thesis using p hi(2) by (simp add: args_at_def)
qed

lemma process_word_arg:
  assumes b: "ublocks (up (sl s)) = p # q # ps" "blocks_from n lo (p # q # ps)" "length x < n" "4 * Suc (length xs) \<le> n"
    and w: "str_in bs lo (sh_mem s) w x" and pr: "parsed mid lo e xs s"
  shows "\<exists>s'. process_word w s = Some (Inr s') \<and> parsed mid (unat q + n) e (xs @ [x]) s' \<and> ublocks (up (sl s')) = ps
     \<and> below lo (sh_mem s) (sh_mem s') \<and> tok s' = tok s"
proof -
  have p: "lo \<le> unat p" "no_wrap p n" and q: "unat p + n \<le> unat q" "q \<noteq> 0" "no_wrap q n" using b(2) by simp_all
  have ar: "args_at mid lo (sh_mem s) (sh_argv s) xs" "sh_exec s \<noteq> 0" "argc s = of_nat (length xs)" "str_in mid lo (sh_mem s) (sh_exec s) e"
    using pr by (simp_all add: parsed_def)
  have mid: "mid \<le> lo" using ar(4) by (simp add: str_in_def)
  have n32: "length xs < 4294967296" using b(4) p(2) by (simp add: no_wrap_def)
  have k0: "argc s = 0 \<longleftrightarrow> length xs = 0" "unat (argc s) = length xs"
    using ar(3) n32 unat_of_nat_u32 [of "length xs"] by (auto simp: unat_eq_zero [symmetric])
  let ?m1 = "copy_up p (sh_argv s) (4 * length xs) (sh_mem s)"
  let ?s1 = "(set_sh_mem ?m1 (drop_block s))\<lparr>sh_argv := p\<rparr>"
  have nwx: "no_wrap p (4 * length xs)" using b(4) p(2) by (simp add: no_wrap_def)
  have same: "set_sh_mem (sh_mem s) (drop_block s) = drop_block s"
    by (simp add: set_sh_mem_def set_lmem_def set_umem_def set_mem_def drop_block_def)
  have g: "grow_argv s = Some (Inr (p, set_sh_mem ?m1 (drop_block s)))"
    using k0 same by (simp add: grow_argv_def sh_malloc_runs [OF b(1)] copy_up_def)
  have m1: "below (unat p) (sh_mem s) ?m1" by (rule below_copy_up [OF _ nwx]) simp
  have s1: "ublocks (up (sl ?s1)) = q # ps" "sh_mem ?s1 = ?m1" using b(1) by simp_all
  have "str_in bs (unat p) ?m1 w x" by (rule str_in_same_on [OF below_same_on [OF m1] str_in_mono [OF w p(1)]])
  then have "str_in bs (unat q) (sh_mem ?s1) w x" unfolding s1(2) by (rule str_in_mono) (use q(1) in simp)
  then obtain m2 where m2: "sh_copy w (of_nat (length x)) ?s1 = Some (Inr (q, set_sh_mem m2 (drop_block ?s1)))"
      "below (unat q) ?m1 m2" "str_in (unat q) (unat q + n) m2 q x"
    using sh_copy_runs [OF s1(1) q(3) b(3)] unfolding s1(2) by blast
  let ?s' = "(set_sh_mem (wr32 (p + 4 * argc s) q m2) (drop_block ?s1))\<lparr>argc := argc s + 1\<rparr>"
  have run: "process_word w s = Some (Inr ?s')"
    using g m2(1) ar(2) w strlen_cstr [of "sh_mem s" w x] by (simp add: process_word_def str_in_def)
  have so: "same_on l h ?m1 m2" if "h \<le> unat q" for l h using m2(2) that by (simp add: below_def same_on_def)
  have sl: "slots_at mid m2 p xs"
    by (rule slots_at_same_on [OF slots_at_grow [OF ar(1) p(1) nwx] so so nwx]) (use b(4) q(1) in simp_all)
  have args: "args_at mid (unat q + n) (wr32 (p + 4 * of_nat (length xs)) q m2) p (xs @ [x])"
    by (rule slots_at_snoc [OF sl _ _ q(2) m2(3)]) (use mid p q(1) b(4) in \<open>simp_all add: no_wrap_def\<close>)
  have "unat (p + of_nat (4 * length xs)) = unat p + 4 * length xs" by (rule no_wrap_index [OF nwx]) simp
  then have u: "lo \<le> unat (p + 4 * of_nat (length xs))" "no_wrap (p + 4 * of_nat (length xs)) 4"
    using p b(4) by (simp_all add: no_wrap_def)
  have bl: "below lo (sh_mem s) (wr32 (p + 4 * of_nat (length xs)) q m2)"
    using m1 m2(2) below_wr32 [OF u, of m2 q] p(1) q(1) by (simp add: below_def)
  have "str_in mid (unat q + n) (wr32 (p + 4 * of_nat (length xs)) q m2) (sh_exec s) e"
    by (rule str_in_mono [OF str_in_same_on [OF below_same_on [OF bl] ar(4)]]) (use p(1) q(1) in simp)
  then show ?thesis using run args bl ar(2,3) b(1) by (intro exI [of _ ?s']) (simp add: parsed_def)
qed

lemma parsed_same_on:
  assumes p: "parsed lo hi e xs s" and m: "same_on lo hi (sh_mem s) (sh_mem s')"
    and f: "sh_exec s' = sh_exec s" "argc s' = argc s" "sh_argv s' = sh_argv s"
  shows "parsed lo hi e xs s'"
proof -
  have a: "args_at lo hi (sh_mem s) (sh_argv s) xs" using p by (simp add: parsed_def)
  have "rd32 (sh_mem s') (sh_argv s + 4 * of_nat i) = rd32 (sh_mem s) (sh_argv s + 4 * of_nat i)" if "i < length xs" for i
    using a that by (intro rd32_slot_same_on [OF m that]) (auto simp: args_at_def)
  then have "args_at lo hi (sh_mem s') (sh_argv s) xs"
    using a str_in_same_on [OF m] unfolding args_at_def by metis
  then show ?thesis using p f str_in_same_on [OF m] by (simp add: parsed_def)
qed

lemma sh_strtok_runs:
  assumes "strtok str delim (tok s) (sh_mem s) = Some (p, lst, m)"
  shows "sh_strtok str delim s = Some (p, (set_sh_mem m s)\<lparr>tok := lst\<rparr>)"
  using assms by (simp add: sh_strtok_def)

text \<open>The literal and the rest of the line, at \<open>lst\<close>, lie below \<open>mid\<close>.\<close>

definition line_below :: "nat \<Rightarrow> u8 \<Rightarrow> u32 \<Rightarrow> u32 \<Rightarrow> cstring list \<Rightarrow> bytes \<Rightarrow> bool" where
  "line_below mid d delim lst ws m \<longleftrightarrow> pending d delim lst ws m \<and> unat lst + length (joined d ws) < mid \<and> unat delim + 2 \<le> mid"

lemma line_below_kept: "line_below mid d delim lst ws m \<Longrightarrow> below lo m m' \<Longrightarrow> mid \<le> lo \<Longrightarrow> line_below mid d delim lst ws m'"
  unfolding line_below_def below_def by (auto intro: pending_same_on)

lemma strtok_line:
  assumes "line_below mid d delim lst (w # ws) m" "str = lst \<or> str = 0 \<and> last0 = lst"
  shows "\<exists>lst' m'. strtok str delim last0 m = Some (lst, lst', m') \<and> line_below mid d delim lst' ws m' \<and> str_in 0 mid m' lst w
     \<and> lst \<noteq> 0 \<and> same_on mid hi m m'"
proof -
  have p: "pending d delim lst (w # ws) m" and b: "unat lst + length (joined d (w # ws)) < mid" "unat delim + 2 \<le> mid"
    using assms(1) by (simp_all add: line_below_def)
  obtain lst' m' where t: "strtok str delim last0 m = Some (lst, lst', m')" "pending d delim lst' ws m'" "cstr m' lst w"
     "unat lst' + length (joined d ws) \<le> unat lst + length (joined d (w # ws))"
     "\<forall>a. unat a < unat lst \<or> unat lst + length (joined d (w # ws)) < unat a \<longrightarrow> m' a = m a"
    using strtok_pending [OF p assms(2)] by blast
  have lw: "length w \<le> length (joined d (w # ws))" by (cases ws) simp_all
  have nw: "no_wrap lst (Suc (length (joined d (w # ws))))" using p by (simp add: pending_def apart_def)
  have "line_below mid d delim lst' ws m'" using t(2,4) b by (simp add: line_below_def)
  moreover have "str_in 0 mid m' lst w" using t(3) lw b(1) nw by (simp add: str_in_def no_wrap_def)
  moreover have "same_on mid hi m m'" using t(5) b(1) by (simp add: same_on_def)
  moreover have "lst \<noteq> 0" using p by (simp add: pending_def)
  ultimately show ?thesis using t(1) by blast
qed

lemma split_words_args:
  assumes "line_below mid d blank (tok s) ws (sh_mem s)" "str_in 0 mid (sh_mem s) word w" "word \<noteq> 0"
    and "parsed mid lo e xs s" "blocks_from n lo (ublocks (up (sl s)))" "2 * Suc (length ws) \<le> length (ublocks (up (sl s)))"
    and "\<forall>x \<in> set (w # ws). length x < n" "4 * (length xs + Suc (length ws)) \<le> n" "mid \<le> lo" "Suc (length ws) < k"
  shows "\<exists>s' hi. split_words k blank word s = Some (Inr s') \<and> parsed mid hi e (xs @ w # ws) s'"
  using assms
proof (induction ws arbitrary: k s word w xs lo)
  case Nil
  obtain k' where k: "k = Suc (Suc k')" using Nil.prems(10) by (cases k; cases "k - 1") auto
  obtain p q ps where b: "ublocks (up (sl s)) = p # q # ps"
    using Nil.prems(6) by (cases "ublocks (up (sl s))"; cases "tl (ublocks (up (sl s)))") auto
  have wl: "str_in 0 lo (sh_mem s) word w" by (rule str_in_mono [OF Nil.prems(2,9)])
  have pq: "blocks_from n lo (p # q # ps)" "length w < n" "4 * Suc (length xs) \<le> n" using Nil.prems(5,7,8) b by simp_all
  obtain s1 where s1: "process_word word s = Some (Inr s1)" "parsed mid (unat q + n) e (xs @ [w]) s1" "below lo (sh_mem s) (sh_mem s1)" "tok s1 = tok s"
    using process_word_arg [OF b pq(1-3) wl Nil.prems(4)] by blast
  have "pending d blank (tok s) [] (sh_mem s1)"
    using line_below_kept [OF Nil.prems(1) s1(3) Nil.prems(9)] by (simp add: line_below_def)
  then have "sh_strtok 0 blank s1 = Some (0, (set_sh_mem (sh_mem s1) s1)\<lparr>tok := tok s1\<rparr>)"
    using strtok_pending_nil s1(4) by (intro sh_strtok_runs) simp
  then show ?case using k s1(1) parsed_same_on [OF s1(2), of "(set_sh_mem (sh_mem s1) s1)\<lparr>tok := tok s1\<rparr>"] Nil.prems(3)
    by (intro exI [of _ "(set_sh_mem (sh_mem s1) s1)\<lparr>tok := tok s1\<rparr>"] exI [of _ "unat q + n"]) simp
next
  case (Cons v vs)
  obtain k' where k: "k = Suc k'" using Cons.prems(10) by (cases k) auto
  obtain p q ps where b: "ublocks (up (sl s)) = p # q # ps"
    using Cons.prems(6) by (cases "ublocks (up (sl s))"; cases "tl (ublocks (up (sl s)))") auto
  have wl: "str_in 0 lo (sh_mem s) word w" by (rule str_in_mono [OF Cons.prems(2,9)])
  have pq: "blocks_from n lo (p # q # ps)" "length w < n" "4 * Suc (length xs) \<le> n" using Cons.prems(5,7,8) b by simp_all
  have bf: "blocks_from n (unat q + n) ps" "lo \<le> unat q" using Cons.prems(5) b by simp_all
  obtain s1 where s1: "process_word word s = Some (Inr s1)" "parsed mid (unat q + n) e (xs @ [w]) s1" "ublocks (up (sl s1)) = ps"
      "below lo (sh_mem s) (sh_mem s1)" "tok s1 = tok s"
    using process_word_arg [OF b pq(1-3) wl Cons.prems(4)] by blast
  have "line_below mid d blank (tok s1) (v # vs) (sh_mem s1)"
    using line_below_kept [OF Cons.prems(1) s1(4) Cons.prems(9)] s1(5) by simp
  then obtain lst m where t: "strtok 0 blank (tok s1) (sh_mem s1) = Some (tok s1, lst, m)" "line_below mid d blank lst vs m"
      "str_in 0 mid m (tok s1) v" "tok s1 \<noteq> 0" "same_on mid (unat q + n) (sh_mem s1) m"
    using strtok_line [where hi = "unat q + n" and str = 0] by blast
  let ?s2 = "(set_sh_mem m s1)\<lparr>tok := lst\<rparr>"
  have "parsed mid (unat q + n) e (xs @ [w]) ?s2" using t(5) by (intro parsed_same_on [OF s1(2)]) simp_all
  then obtain s' hi where "split_words k' blank (tok s1) ?s2 = Some (Inr s')" "parsed mid hi e ((xs @ [w]) @ v # vs) s'"
    using Cons.IH [of ?s2 "tok s1" v "unat q + n" "xs @ [w]" k'] t bf s1(3) Cons.prems k b by auto
  then show ?case using k s1(1) sh_strtok_runs [OF t(1)] Cons.prems(3) by (intro exI [of _ s'] exI [of _ hi]) simp
qed

lemma read_vector_args:
  assumes a: "args_at lo hi m tab xs" and v: "\<And>p. p \<noteq> 0 \<Longrightarrow> v p"
  shows "i \<le> length xs \<Longrightarrow> read_vector v (length xs - i + k) m (tab + 4 * of_nat i)
     = map_option ((@) (drop i xs)) (read_vector v k m (tab + 4 * of_nat (length xs)))"
proof (induction "length xs - i" arbitrary: i)
  case 0
  then show ?case by (simp add: option.map_id0 [unfolded id_def] id_def [symmetric] option.map_id)
next
  case (Suc n)
  have i: "i < length xs" "n = length xs - Suc i" using Suc.hyps(2) by simp_all
  have s: "rd32 m (tab + 4 * of_nat i) \<noteq> 0" "str_in lo hi m (rd32 m (tab + 4 * of_nat i)) (xs ! i)"
    using a i(1) by (simp_all add: args_at_def)
  then have r: "read_str m (rd32 m (tab + 4 * of_nat i)) = Some (xs ! i)"
    by (intro read_str_cstr) (auto simp: str_in_def no_wrap_def)
  have "tab + 4 * of_nat (Suc i) = tab + 4 * of_nat i + 4" by (simp add: algebra_simps)
  then have "read_vector v (length xs - Suc i + k) m (tab + 4 * of_nat i + 4)
     = map_option ((@) (drop (Suc i) xs)) (read_vector v k m (tab + 4 * of_nat (length xs)))"
    using Suc.hyps(1) [OF i(2)] i(1) by (simp add: ac_simps)
  moreover have "length xs - i + k = Suc (length xs - Suc i + k)" using i(1) by simp
  moreover have "drop i xs = xs ! i # drop (Suc i) xs" using i(1) by (simp add: Cons_nth_drop_Suc)
  ultimately show ?case using r v [OF s(1)] by (cases "read_vector v k m (tab + 4 * of_nat (length xs))") simp_all
qed

text \<open>Arguments that do not begin with a dollar sign stay.\<close>

lemma expand_args_plain:
  assumes a: "args_at lo hi (sh_mem s) (sh_argv s) xs" and p: "\<forall>x \<in> set xs. x = [] \<or> hd x \<noteq> 36"
  shows "i + k \<le> length xs \<Longrightarrow> expand_args L i k s = Some (Inr s)"
proof (induction k arbitrary: i)
  case (Suc k)
  have i: "i < length xs" using Suc.prems by simp
  then have c: "cstr (sh_mem s) (rd32 (sh_mem s) (sh_argv s + 4 * of_nat i)) (xs ! i)"
    using a by (simp add: args_at_def str_in_def)
  have "sh_mem s (rd32 (sh_mem s) (sh_argv s + 4 * of_nat i)) \<noteq> 36"
  proof (cases "xs ! i")
    case Nil
    then show ?thesis using c by simp
  next
    case (Cons x w)
    then show ?thesis using c p nth_mem [OF i] by force
  qed
  then show ?case using Suc by (simp add: expand_arg_def)
qed simp

text \<open>C23: the words of a command line. For a line of words with a single blank between each two and none at
  the end (a blank at the end sends \<open>strtok\<close> past it), in a shell that has taken no word yet and whose
  heap has a block for every word and table, the line is split at its blanks: the first word is the program and the
  others become the table of arguments, where the kernel, reading it, finds exactly these words, in order. It does
  not stop there: the table has no null pointer at its end, so that the kernel goes on with whatever lies behind it.
  If no argument begins with a dollar sign, the expansion that comes next changes nothing, and these are the words
  that \<open>execv\<close> gets; an argument that does is replaced by the value of the variable, or a blank
  (\<open>expand_arg\<close>).\<close>

theorem command_line_arguments:
  assumes line: "line_below mid 32 blank buffer (e # xs) (sh_mem s)"
    and fresh: "sh_exec s = 0" "argc s = 0"
    and heap: "blocks_from n mid (ublocks (up (sl s)))" "2 * Suc (length xs) \<le> length (ublocks (up (sl s)))"
      "\<forall>x \<in> set (e # xs). length x < n" "4 * Suc (length xs) \<le> n"
    and k: "length xs + 2 < k" and v: "\<And>p. p \<noteq> 0 \<Longrightarrow> v p"
  shows "\<exists>s1 s'. sh_strtok buffer blank s = Some (buffer, s1) \<and> split_words k blank buffer s1 = Some (Inr s')
     \<and> read_str (sh_mem s') (sh_exec s') = Some e
     \<and> read_vector v (length xs + j) (sh_mem s') (sh_argv s')
         = map_option ((@) xs) (read_vector v j (sh_mem s') (sh_argv s' + 4 * of_nat (length xs)))
     \<and> ((\<forall>x \<in> set xs. x = [] \<or> hd x \<noteq> 36) \<longrightarrow> expand_args L 0 (unat (argc s')) s' = Some (Inr s'))"
proof -
  obtain p ps where b: "ublocks (up (sl s)) = p # ps" "length (p # ps) \<ge> 2 * Suc (length xs)"
    using heap(2) by (cases "ublocks (up (sl s))") auto
  obtain lst m where t: "strtok buffer blank (tok s) (sh_mem s) = Some (buffer, lst, m)" "line_below mid 32 blank lst xs m"
      "str_in 0 mid m buffer e" "buffer \<noteq> 0"
    using strtok_line [OF line] by blast
  let ?s1 = "(set_sh_mem m s)\<lparr>tok := lst\<rparr>"
  have pb: "blocks_from n mid (p # ps)" "length e < n" using heap(1,3) b(1) by simp_all
  have str1: "str_in 0 mid (sh_mem ?s1) buffer e" and b1: "ublocks (up (sl ?s1)) = p # ps" using t(3) b(1) by simp_all
  obtain s2 where s2: "process_word buffer ?s1 = Some (Inr s2)" "parsed mid (unat p + n) e [] s2" "ublocks (up (sl s2)) = ps"
      "below mid m (sh_mem s2)" "tok s2 = lst"
    using process_word_first [OF b1 pb(1,2) str1, of mid] fresh by auto
  have l2: "line_below mid 32 blank (tok s2) xs (sh_mem s2)" using line_below_kept [OF t(2) s2(4)] s2(5) by simp
  obtain k' where k': "k = Suc (Suc k')" using k by (cases k; cases "k - 1") auto
  have "\<exists>s' hi. split_words k blank buffer ?s1 = Some (Inr s') \<and> parsed mid hi e xs s'"
  proof (cases xs)
    case Nil
    then have "sh_strtok 0 blank s2 = Some (0, (set_sh_mem (sh_mem s2) s2)\<lparr>tok := tok s2\<rparr>)"
      using l2 strtok_pending_nil [of 32 blank "tok s2" "sh_mem s2"] by (intro sh_strtok_runs) (simp add: line_below_def)
    then show ?thesis using s2(1) t(4) k' parsed_same_on [OF s2(2), of "(set_sh_mem (sh_mem s2) s2)\<lparr>tok := tok s2\<rparr>"] Nil
      by (intro exI [of _ "(set_sh_mem (sh_mem s2) s2)\<lparr>tok := tok s2\<rparr>"] exI [of _ "unat p + n"]) simp
  next
    case (Cons w ws)
    have l2': "line_below mid 32 blank (tok s2) (w # ws) (sh_mem s2)" using l2 Cons by simp
    obtain lst3 m3 where t3: "strtok 0 blank (tok s2) (sh_mem s2) = Some (tok s2, lst3, m3)" "line_below mid 32 blank lst3 ws m3"
        "str_in 0 mid m3 (tok s2) w" "tok s2 \<noteq> 0" "same_on mid (unat p + n) (sh_mem s2) m3"
      using strtok_line [OF l2', of 0 "tok s2" "unat p + n"] by blast
    let ?s3 = "(set_sh_mem m3 s2)\<lparr>tok := lst3\<rparr>"
    have p3: "parsed mid (unat p + n) e [] ?s3" using t3(5) by (intro parsed_same_on [OF s2(2)]) simp_all
    have "\<exists>s' hi. split_words (Suc k') blank (tok s2) ?s3 = Some (Inr s') \<and> parsed mid hi e ([] @ w # ws) s'"
      by (rule split_words_args [OF _ _ t3(4) p3]) (use t3 s2(3) pb b heap Cons k k' in auto)
    then show ?thesis using s2(1) t(4) k' sh_strtok_runs [OF t3(1)] Cons by simp
  qed
  then obtain s' hi where s': "split_words k blank buffer ?s1 = Some (Inr s')" "parsed mid hi e xs s'" by blast
  then have "read_str (sh_mem s') (sh_exec s') = Some e"
    by (intro read_str_cstr) (auto simp: parsed_def str_in_def no_wrap_def)
  moreover have a: "args_at mid hi (sh_mem s') (sh_argv s') xs" using s'(2) by (simp add: parsed_def)
  moreover have "length xs < 4294967296" using a by (cases xs) (auto simp: args_at_def no_wrap_def)
  then have "unat (argc s') = length xs" using s'(2) unat_of_nat_u32 by (simp add: parsed_def)
  then have "(\<forall>x \<in> set xs. x = [] \<or> hd x \<noteq> 36) \<longrightarrow> expand_args L 0 (unat (argc s')) s' = Some (Inr s')"
    using expand_args_plain [OF a, of 0 "length xs" L] by simp
  ultimately show ?thesis
    using sh_strtok_runs [OF t(1)] s'(1) read_vector_args [where i = 0 and k = j, OF _ v, of mid hi "sh_mem s'" "sh_argv s'" xs] by auto
qed

text \<open>The line \<open>ls d\<close> at 5000, with the blank at 6000, in a shell with five blocks.\<close>

definition shell_one :: shell where
  "shell_one = \<lparr>sl = libc_one\<lparr>up := prog_one\<lparr>os := set_mem ((\<lambda>_. 0)(5000 := 108, 5001 := 115, 5002 := 32, 5003 := 100, 6000 := 32)) (os prog_one)\<rparr>\<rparr>,
     tok = 0, sh_exec = 0, sh_argv = 0, argc = 0, exec_stdout = None, exec_stderr = None, exec_stdin = None, in_exec = False,
     sh_stdin = stdin, cwdbuffer = 7000, env_tab = 0, shown = []\<rparr>"

lemma command_line_arguments_witness:
  "\<exists>s1 s'. sh_strtok 5000 6000 shell_one = Some (5000, s1) \<and> split_words 4 6000 5000 s1 = Some (Inr s')
     \<and> read_str (sh_mem s') (sh_exec s') = Some [108, 115]
     \<and> expand_args \<lparr>l_blank = 6000, l_colon = 6002, l_dollar = 6004, l_path = 6006, l_slash = 6008\<rparr> 0 (unat (argc s')) s' = Some (Inr s')
     \<and> read_vector (\<lambda>p. p \<noteq> 0) 2 (sh_mem s') (sh_argv s') = map_option ((@) [[100]]) (read_vector (\<lambda>p. p \<noteq> 0) 1 (sh_mem s') (sh_argv s' + 4))"
proof -
  have l: "line_below 7000 32 6000 5000 ([108, 115] # [[100]]) (sh_mem shell_one)"
    by (simp add: line_below_def pending_def delims_def words_ok_def word_ok_def apart_def no_wrap_def shell_one_def set_mem_def)
  have b: "ublocks (up (sl shell_one)) = [20000, 20100, 20200, 20300, 20400]" "sh_exec shell_one = 0" "argc shell_one = 0"
    by (simp_all add: shell_one_def prog_one_def)
  have bf: "blocks_from 50 7000 [20000, 20100, 20200, 20300, 20400]" by (simp add: no_wrap_def)
  obtain s1 s' where x: "sh_strtok 5000 6000 shell_one = Some (5000, s1)" "split_words 4 6000 5000 s1 = Some (Inr s')"
      "read_str (sh_mem s') (sh_exec s') = Some [108, 115]"
      "read_vector (\<lambda>p. p \<noteq> 0) (length [[100 :: u8]] + 1) (sh_mem s') (sh_argv s')
         = map_option ((@) [[100]]) (read_vector (\<lambda>p. p \<noteq> 0) 1 (sh_mem s') (sh_argv s' + 4 * of_nat (length [[100 :: u8]])))"
      "expand_args \<lparr>l_blank = 6000, l_colon = 6002, l_dollar = 6004, l_path = 6006, l_slash = 6008\<rparr> 0 (unat (argc s')) s' = Some (Inr s')"
    using command_line_arguments [of 7000 6000 5000 "[108, 115]" "[[100]]" shell_one 50 4 "\<lambda>p. p \<noteq> 0" 1
        "\<lparr>l_blank = 6000, l_colon = 6002, l_dollar = 6004, l_path = 6006, l_slash = 6008\<rparr>"] l b bf by auto
  have "(2 :: nat) = length [[100 :: u8]] + 1" "(4 :: u32) = 4 * of_nat (length [[100 :: u8]])" by simp_all
  then show ?thesis using x by metis
qed

end
