(* ===== verification/Programs.thy ===== *)
theory Programs
  imports Unistd
begin

text \<open>
  The small user programs \<open>os/usr/{echo,ls,init,login,reboot,shutdown}/main.c\<close> over the C library. String literals
  and local arrays are passed by address. The last part follows what a program prints from the loop in
  \<open>main\<close> down to the bytes of the file behind its standard output.
\<close>

subsection \<open>echo\<close>

fun echo_loop :: "nat \<Rightarrow> uenv \<Rightarrow> u32 \<Rightarrow> u32 \<Rightarrow> u32 \<Rightarrow> stream \<Rightarrow> uprog \<Rightarrow> (stream \<times> uprog) res option" where
  "echo_loop 0 E fmt argv i out u = Some (Inr (out, u))"
| "echo_loop (Suc k) E fmt argv i out u =
     res_bind (printf E fmt [rd32 (umem u) (argv + 4 * i)] out u) (\<lambda>(_, out, u). echo_loop k E fmt argv (i + 1) out u)"

definition echo_main :: "uenv \<Rightarrow> u32 \<Rightarrow> u32 \<Rightarrow> u32 \<Rightarrow> u32 \<Rightarrow> stream \<Rightarrow> uprog \<Rightarrow> (u32 \<times> stream \<times> uprog) res option" where
  "echo_main E usage fmt argc argv out u =
     res_bind (if argc = 0 then res_bind (printf E usage [] out u) (\<lambda>(_, out, u). Some (Inr (out, u)))
               else echo_loop (nat (sint argc)) E fmt argv 0 out u) (\<lambda>(out, u). Some (Inr (0, out, u)))"

subsection \<open>ls\<close>

text \<open>The fuel counts the entries read; a freed entry is not used again.\<close>

fun ls_loop :: "nat \<Rightarrow> uenv \<Rightarrow> u32 \<Rightarrow> dir_stream \<Rightarrow> stream \<Rightarrow> uprog \<Rightarrow> (dir_stream \<times> stream \<times> uprog) res option" where
  "ls_loop 0 E fmt d out u = None"
| "ls_loop (Suc k) E fmt d out u =
     res_bind (readdir E d u) (\<lambda>(file, d, u).
       if file = 0 then Some (Inr (d, out, u))
       else res_bind (printf E fmt [file] out u) (\<lambda>(_, out, u). ls_loop k E fmt d out u))"

definition printf_on :: "uenv \<Rightarrow> u32 \<Rightarrow> u32 list \<Rightarrow> stream \<Rightarrow> uprog \<Rightarrow> (stream \<times> uprog) res option" where
  "printf_on E format args out u = res_bind (printf E format args out u) (\<lambda>(_, out, u). Some (Inr (out, u)))"

definition ls_main :: "nat \<Rightarrow> uenv \<Rightarrow> u32 \<Rightarrow> u32 \<Rightarrow> u32 \<Rightarrow> u32 \<Rightarrow> stream \<Rightarrow> libc \<Rightarrow> (u32 \<times> stream \<times> libc) res option" where
  "ls_main k E no_cwd no_dir fmt cwd out st =
     res_bind (getcwd E cwd 256 st) (\<lambda>(r, st).
     if r = 0 then res_bind (on_up (printf_on E no_cwd [] out) st) (\<lambda>(out, st). Some (Inr (1, out, st)))
     else res_bind (on_up (opendir E cwd) st) (\<lambda>(d, st). case d of
         None \<Rightarrow> res_bind (on_up (printf_on E no_dir [] out) st) (\<lambda>(out, st). Some (Inr (1, out, st)))
       | Some d \<Rightarrow> res_bind (ls_loop k E fmt d out (up st)) (\<lambda>(d, out, u).
           res_bind (on_up (closedir E (Some d)) (st\<lparr>up := u\<rparr>)) (\<lambda>(_, st). Some (Inr (0, out, st))))))"
subsection \<open>init, login, reboot and shutdown\<close>

text \<open>\<open>init\<close> starts the compositor, waits for its signal and starts the terminal; then it idles for ever. What
  happens while it waits is an argument: the state in which the flag has been set. The lines it prints on
  the console of the kernel are left out.\<close>

definition init_sig_child :: "uenv \<Rightarrow> libc \<Rightarrow> (bool \<times> libc) res option" where
  "init_sig_child E st = res_bind (on_up (on_os (u_sigexit E)) st) (\<lambda>(_, st). Some (Inr (True, st)))"

definition init_main :: "uenv \<Rightarrow> u32 \<Rightarrow> u32 \<Rightarrow> u32 \<Rightarrow> u32 \<Rightarrow> u32 \<Rightarrow> u32 \<Rightarrow> (libc \<Rightarrow> libc option) \<Rightarrow> libc \<Rightarrow> libc res option" where
  "init_main E path usr_bin handler env cserv_path term_path signalled st =
     res_bind (setenv path usr_bin 1 st) (\<lambda>(_, st).
     res_bind (on_up (on_os (u_signal E 0 handler)) st) (\<lambda>(_, st).
     res_bind (execv E env cserv_path 0 st) (\<lambda>(_, st).
     Option.bind (signalled st) (\<lambda>st.
     res_bind (execv E env term_path 0 st) (\<lambda>(_, st). Some (Inr st))))))"

definition login_main :: "libc \<Rightarrow> u32 \<times> libc" where
  "login_main st = (0, st)"

definition reboot_main :: "uenv \<Rightarrow> libc \<Rightarrow> (u32 \<times> libc) res option" where
  "reboot_main E st = res_bind (on_up (on_os (u_pwreq E 1)) st) (\<lambda>(_, st). Some (Inr (0, st)))"

definition shutdown_main :: "uenv \<Rightarrow> libc \<Rightarrow> (u32 \<times> libc) res option" where
  "shutdown_main E st = res_bind (on_up (on_os (u_pwreq E 0)) st) (\<lambda>(_, st). Some (Inr (0, st)))"

subsection \<open>What a program prints\<close>

text \<open>A stream whose file keeps its contents in memory: the \<open>cap\<close> bytes from \<open>base\<close> on are its file, \<open>t\<close> has been
  written to it.\<close>

definition writable :: "uenv \<Rightarrow> u32 \<Rightarrow> u32 \<Rightarrow> sys \<Rightarrow> bool" where
  "writable E fd base s \<longleftrightarrow> base \<noteq> 0 \<and> user_ok s \<and> (\<exists>node x r n g.
     fd_node fd s = Inr (Some node) \<and> nodes (files s) node = Some x \<and> open_flags x AND F_WRITE \<noteq> 0
     \<and> real_node node (files s) = Inr r \<and> vld (kcfg E) r \<and> nodes (files s) r = Some n \<and> inode n = base
     \<and> get_fs (ftab s) (fsid n) = Inr g \<and> fs.fwrite g = Some vfs_write)"

definition screen :: "uenv \<Rightarrow> u32 \<Rightarrow> nat \<Rightarrow> stream \<Rightarrow> uprog \<Rightarrow> cstring \<Rightarrow> bool" where
  "screen E base cap out u t \<longleftrightarrow> writable E (f_fd out) base (os u) \<and> no_wrap base cap \<and> cap < 2 ^ 31 \<and> length t \<le> cap
     \<and> f_eof out = 0 \<and> f_size out = 0 \<and> f_offset out = of_nat (length t)
     \<and> (\<forall>i < length t. umem u (base + of_nat i) = t ! i)"

text \<open>What a step of printing keeps: the files but for their bytes, and memory outside of two blocks.\<close>

definition prints_only :: "u32 \<Rightarrow> nat \<Rightarrow> u32 \<Rightarrow> nat \<Rightarrow> uprog \<Rightarrow> uprog \<Rightarrow> bool" where
  "prints_only base cap p k u u' \<longleftrightarrow> calm (os u) (os u') \<and> (\<exists>m. files (os u') = (files (os u))\<lparr>mem := m\<rparr>)
     \<and> (\<forall>lo hi. beside lo hi base cap \<longrightarrow> beside lo hi p k \<longrightarrow> same_on lo hi (umem u) (umem u'))"

lemma kwrite_memory:
  assumes "real_node node v = Inr r" "vd r" "nodes v r = Some n" "inode n = base" "base \<noteq> 0" "get_fs t (fsid n) = Inr g"
    "fs.fwrite g = Some vfs_write"
  shows "kwrite vd t node off sz src v = Inr (sz, v\<lparr>mem := copy_up (base + ucast off) src (unat sz) (mem v)\<rparr>)"
  using assms by (simp add: kwrite_def get_node_def vfs_write_def copy_mem_def memcpy_def)

lemma u_write_memory:
  assumes "writable E fd base s"
  shows "\<exists>s'. u_write E fd off sz src s = Some (Inr (sz, s')) \<and> calm s s'
    \<and> files s' = (files s)\<lparr>mem := copy_up (base + ucast off) src (unat sz) (mem (files s))\<rparr>"
proof -
  obtain node x r n g where w: "base \<noteq> 0" "user_ok s" "fd_node fd s = Inr (Some node)" "nodes (files s) node = Some x"
      "open_flags x AND F_WRITE \<noteq> 0" "real_node node (files s) = Inr r" "vld (kcfg E) r" "nodes (files s) r = Some n"
      "inode n = base" "get_fs (ftab s) (fsid n) = Inr g" "fs.fwrite g = Some vfs_write"
    using assms by (auto simp: writable_def)
  show ?thesis using u_write_file [OF w(2-5) kwrite_memory [where vd = "vld (kcfg E)", OF w(6-9,1,10,11)], of off sz src] by blast
qed

lemma real_node_mem: "real_node node (v\<lparr>mem := m, Vfs.avail := av\<rparr>) = real_node node v"
  by (simp add: real_node_def get_node_def)

lemma writable_kept:
  assumes "writable E fd base s" "calm s s'" "files s' = (files s)\<lparr>mem := m, Vfs.avail := av\<rparr>"
  shows "writable E fd base s'"
  using assms unfolding writable_def calm_def by (auto simp: real_node_mem)

lemma scast_off: "ucast (scast (x :: u32) :: u64) = x"
  by (rule bit_word_eqI) (simp add: bit_simps)

lemma copy_up_on:
  assumes "apart base cap src n" "l + n \<le> cap"
  shows "copy_up (base + of_nat l) src n m = moved (base + of_nat l) src n m"
    and "unat (base + of_nat l) = unat base + l \<or> n = 0"
proof -
  have l: "n \<noteq> 0 \<Longrightarrow> unat (base + of_nat l) = unat base + l"
    using assms no_wrap_index [of base cap l] by (simp add: apart_def)
  then show "unat (base + of_nat l) = unat base + l \<or> n = 0" by blast
  show "copy_up (base + of_nat l) src n m = moved (base + of_nat l) src n m"
  proof (cases "n = 0")
    case False
    then show ?thesis using l assms by (intro copy_up_moved) (auto simp: apart_def no_wrap_def word_le_nat_alt)
  qed (simp add: copy_up_def)
qed

lemma div_word_self: "(x :: u32) \<noteq> 0 \<Longrightarrow> x div x = 1"
  by (rule word_unat_eq_iff [THEN iffD2]) (simp add: unat_div_distrib unat_eq_zero)

lemma fwrite_screen:
  assumes s: "screen E base cap out u t" and sz: "sz \<noteq> 0" "length t + unat sz \<le> cap" and ap: "apart base cap src (unat sz)"
  shows "\<exists>out' u'. fwrite E src sz 1 out u = Some (Inr (1, out', u')) \<and> ublocks u' = ublocks u
    \<and> screen E base cap out' u' (t @ List.map (\<lambda>i. umem u (src + of_nat i)) [0..<unat sz]) \<and> prints_only base cap p 0 u u'"
proof -
  let ?l = "length t" and ?m = "umem u"
  let ?m' = "moved (base + of_nat ?l) src (unat sz) ?m"
  have w: "writable E (f_fd out) base (os u)" and nw: "no_wrap base cap" and cap: "cap < 2 ^ 31"
    and out: "f_eof out = 0" "f_size out = 0" "f_offset out = of_nat ?l" and t: "\<forall>i < ?l. ?m (base + of_nat i) = t ! i"
    using s by (simp_all add: screen_def)
  have n: "unat sz \<noteq> 0" using sz(1) by (simp add: unat_eq_zero)
  have ul: "unat (base + of_nat i) = unat base + i" if "i < cap" for i using no_wrap_index [OF nw] that by simp
  obtain s' where s': "u_write E (f_fd out) (scast (f_offset out)) sz src (os u) = Some (Inr (sz, s'))" "calm (os u) s'"
      "files s' = (files (os u))\<lparr>mem := ?m'\<rparr>"
    using u_write_memory [OF w, of "scast (f_offset out)" sz src] copy_up_on(1) [OF ap sz(2)] out(3) by (auto simp: scast_off)
  let ?u = "u\<lparr>os := s'\<rparr>" and ?out = "advance sz out"
  have fw: "fwrite E src sz 1 out u = Some (Inr (1, ?out, ?u))"
    using out(1) s'(1) sz(1) by (simp add: Stdio.fwrite_def on_os_def div_word_self)
  have o: "f_fd ?out = f_fd out" "f_eof ?out = 0" "f_size ?out = 0" "f_offset ?out = of_nat (?l + unat sz)"
    using out by (simp_all add: advance_def Let_def)
  have "writable E (f_fd ?out) base s'"
    using writable_kept [where m = ?m' and av = "Vfs.avail (files (os u))", OF w s'(2)] s'(3) o(1) by simp
  moreover have "?m' (base + of_nat i) = (t @ List.map (\<lambda>i. ?m (src + of_nat i)) [0..<unat sz]) ! i" if "i < ?l + unat sz" for i
  proof (cases "i < ?l")
    case True
    then show ?thesis using t ul [of i] ul [of ?l] n sz(2) by (simp add: moved_def nth_append)
  next
    case False
    then have "base + of_nat i - (base + of_nat ?l) = (of_nat (i - ?l) :: u32)" by (simp add: of_nat_diff)
    then show ?thesis using False that ul [of i] ul [of ?l] n sz(2) by (simp add: moved_def nth_append)
  qed
  ultimately have "screen E base cap ?out ?u (t @ List.map (\<lambda>i. ?m (src + of_nat i)) [0..<unat sz])"
    using s'(3) o nw cap sz(2) by (simp add: screen_def)
  moreover have "same_on lo hi ?m ?m'" if "beside lo hi base cap" for lo hi
    using that ul [of ?l] n sz(2) by (auto simp: same_on_def beside_def moved_def)
  then have "prints_only base cap p 0 u ?u" using s'(2,3) by (auto simp: prints_only_def)
  ultimately show ?thesis using fw by fastforce
qed

lemma memset_same_on: "beside lo hi p n \<Longrightarrow> n < 4294967296 \<Longrightarrow> same_on lo hi m (snd (memset p x (of_nat n) m))"
  unfolding same_on_def memset_def by (auto intro!: fold_upd_other dest: besideD simp: unat_of_nat_u32)

lemma apart_beside: "apart base cap p n \<Longrightarrow> beside (unat base) (unat base + cap) p n"
  by (auto simp: apart_def beside_def)

lemma calm_set_mem: "user_ok s \<Longrightarrow> calm s (set_mem m s)"
  by (simp add: calm_def set_mem_def)

lemma screen_kept:
  assumes "screen E base cap out u t" "calm (os u) (os u')" "files (os u') = (files (os u))\<lparr>mem := m, Vfs.avail := av\<rparr>"
    "same_on (unat base) (unat base + cap) (umem u) m"
  shows "screen E base cap out u' t"
proof -
  have "m (base + of_nat i) = umem u (base + of_nat i)" if "i < length t" for i
    using assms(1) that no_wrap_index [of base cap i] by (intro same_on_at [OF assms(4)]) (auto simp: screen_def)
  then show ?thesis using assms(1,3) writable_kept [OF _ assms(2,3)] by (auto simp: screen_def)
qed

lemma prints_only_trans:
  assumes "prints_only base cap p k u u'" "prints_only base cap p 0 u' u''"
  shows "prints_only base cap p k u u''"
proof -
  have "beside lo hi p 0" if "beside lo hi p k" for lo hi using beside_less [OF that, of 0] by simp
  then have "same_on lo hi (umem u) (umem u'')" if "beside lo hi base cap" "beside lo hi p k" for lo hi
    using assms that unfolding prints_only_def by (blast intro: same_on_trans)
  moreover have "calm (os u) (os u'')" using assms calm_trans by (auto simp: prints_only_def)
  moreover have "\<exists>m. files (os u'') = (files (os u))\<lparr>mem := m\<rparr>" using assms by (auto simp: prints_only_def)
  ultimately show ?thesis by (simp add: prints_only_def)
qed

lemma printf_screen:
  assumes s: "screen E base cap out u t" and b: "ublocks u = p # ps" "apart base cap p 4096"
    and f: "read_str (umem u) fmt = Some f" "vsprintf (\<lambda>p. case read_str (umem u) p of None \<Rightarrow> [] | Some xs \<Rightarrow> xs) f args = Inr (n, wr)"
    and wr: "wr \<noteq> []" "0 \<notin> set wr" "length wr < 4096" "length t + length wr \<le> cap"
  shows "\<exists>out' u'. printf E fmt args out u = Some (Inr (1, out', u')) \<and> ublocks u' = ps
    \<and> screen E base cap out' u' (t @ wr) \<and> prints_only base cap p 4096 u u'"
proof -
  let ?m = "put_str p wr (snd (memset p 0 4096 (umem u)))"
  let ?u = "set_umem ?m (u\<lparr>ublocks := ps\<rparr>)"
  have ok: "user_ok (os u)" using s by (simp add: screen_def writable_def)
  have nw: "no_wrap p (Suc (length wr))" using b(2) wr(3) by (simp add: apart_def no_wrap_def)
  have same: "same_on lo hi (umem u) ?m" if h: "beside lo hi p 4096" for lo hi
  proof -
    have "same_on lo hi (umem u) (snd (memset p 0 4096 (umem u)))" using memset_same_on [OF h] by simp
    moreover have "beside lo hi p (Suc (length wr))" using wr(3) by (intro beside_less [OF h]) simp
    ultimately show ?thesis using put_str_same_on same_on_trans by blast
  qed
  have c: "calm (os u) (os ?u)" using calm_set_mem [OF ok] by (simp add: set_umem_def)
  have s1: "screen E base cap out ?u t"
    using same [OF apart_beside [OF b(2)]] by (intro screen_kept [where av = "Vfs.avail (files (os u))", OF s c]) (simp_all add: set_umem_def set_mem_def)
  have p1: "prints_only base cap p 4096 u ?u" using c same by (auto simp: prints_only_def set_umem_def set_mem_def)
  have rs: "read_str ?m p = Some wr" using cstr_put_str [OF wr(2) nw] wr(3) by (intro read_str_cstr) simp_all
  then obtain k where k: "strlen ?m p = Some k" "List.map (\<lambda>i. ?m (p + of_nat i)) [0..<unat k] = wr"
    by (auto simp: read_str_def)
  then have l: "unat k = length wr" by (metis length_map length_upt minus_nat.diff_0)
  have "apart base cap p (unat k)" using b(2) wr(3) l by (auto simp: apart_def no_wrap_def)
  moreover have "k \<noteq> 0" using l wr(1) by auto
  moreover have "umem ?u = ?m" "ublocks ?u = ps" by (simp_all add: set_umem_def set_mem_def)
  ultimately obtain out' u' where w: "fwrite E p k 1 out ?u = Some (Inr (1, out', u'))" "ublocks u' = ps"
      "screen E base cap out' u' (t @ wr)" "prints_only base cap p 0 ?u u'"
    using fwrite_screen [OF s1, of k p p] l k(2) wr(4) by (auto simp del: map_eq_conv)
  have "printf E fmt args out u = Some (Inr (1, out', u'))"
    using b(1) f wr(3) k(1) w(1) by (simp add: Stdio.printf_def vfprintf_def umalloc_def fputs_def set_umem_def set_mem_def)
  then show ?thesis using w(2,3) prints_only_trans [OF p1 w(4)] by blast
qed


text \<open>A string followed by a blank.\<close>

lemma printf_word:
  assumes s: "screen E base cap out u t" and b: "ublocks u = p # ps" "apart base cap p 4096"
    and f: "cstr (umem u) fmt [37, 115, 32]" and w: "cstr (umem u) a w" "length w < 4095" "length t + length w < cap"
  shows "\<exists>out' u'. printf E fmt [a] out u = Some (Inr (1, out', u')) \<and> ublocks u' = ps
    \<and> screen E base cap out' u' (t @ w @ [32]) \<and> prints_only base cap p 4096 u u'"
proof -
  let ?str = "\<lambda>p. case read_str (umem u) p of None \<Rightarrow> [] | Some xs \<Rightarrow> xs"
  have "?str a = w" using read_str_cstr [OF w(1)] w(2) by simp
  then have "vsprintf ?str [37, 115, 32] [a] = Inr (of_nat (Suc (length w)), w @ [32])"
    by (simp add: vsprintf_def conv_step_def next_size_def convert_def arg32_def)
  then show ?thesis
    using printf_screen [OF s b, of fmt "[37, 115, 32]" "[a]" _ "w @ [32]"] read_str_cstr [OF f] w(2,3) cstr_nonzero [OF w(1)] by simp
qed

definition spaced :: "cstring list \<Rightarrow> cstring" where
  "spaced xs = concat (List.map (\<lambda>w. w @ [32]) xs)"

lemma spaced_simps [simp]: "spaced [] = []" "spaced (x # xs) = x @ 32 # spaced xs"
  by (simp_all add: spaced_def)

lemma vector_Cons:
  "vector lo hi m p (x # xs) \<Longrightarrow> cstr m (rd32 m p) x \<and> vector lo hi m (p + 4) xs"
  by (fastforce simp: vector_def length_Suc_conv)

definition print_bufs :: "nat \<Rightarrow> nat \<Rightarrow> u32 \<Rightarrow> nat \<Rightarrow> u32 list \<Rightarrow> bool" where
  "print_bufs lo hi base cap ps \<longleftrightarrow> beside lo hi base cap \<and> list_all (\<lambda>p. beside lo hi p 4096 \<and> apart base cap p 4096) ps"

lemma echo_loop_prints:
  assumes "vector lo hi (umem u) (argv + 4 * i) args" "lo \<le> unat (argv + 4 * i)" "unat (argv + 4 * i) + 4 * length args \<le> hi" "hi < 4294967296"
    "screen E base cap out u t" "cstr (umem u) fmt [37, 115, 32]" "lo \<le> unat fmt" "unat fmt + 3 < hi"
    "print_bufs lo hi base cap (ublocks u)" "length args \<le> length (ublocks u)"
    "\<forall>w \<in> set args. length w < 4095" "length t + length (spaced args) \<le> cap"
  shows "\<exists>out' u'. echo_loop (length args) E fmt argv i out u = Some (Inr (out', u')) \<and> screen E base cap out' u' (t @ spaced args)"
  using assms
proof (induction args arbitrary: i out u t)
  case (Cons w args)
  obtain p ps where b: "ublocks u = p # ps" using Cons.prems(10) by (cases "ublocks u") auto
  have pb: "beside lo hi p 4096" "apart base cap p 4096" "beside lo hi base cap" "print_bufs lo hi base cap ps"
    using Cons.prems(9) b by (simp_all add: print_bufs_def)
  have v: "cstr (umem u) (rd32 (umem u) (argv + 4 * i)) w" "vector lo hi (umem u) (argv + 4 * i + 4) args"
    using vector_Cons [OF Cons.prems(1)] by simp_all
  obtain out1 u1 where 1: "printf E fmt [rd32 (umem u) (argv + 4 * i)] out u = Some (Inr (1, out1, u1))" "ublocks u1 = ps"
      "screen E base cap out1 u1 (t @ w @ [32])" "prints_only base cap p 4096 u u1"
    using printf_word [OF Cons.prems(5) b pb(2) Cons.prems(6) v(1)] Cons.prems(11,12) by auto
  have keep: "same_on lo hi (umem u) (umem u1)" using 1(4) pb by (simp add: prints_only_def)
  have a: "argv + 4 * (i + 1) = argv + 4 * i + 4" by (simp add: algebra_simps)
  have ua: "unat (argv + 4 * i + 4) = unat (argv + 4 * i) + 4" using Cons.prems(3,4) unat_plus_u32 [of "argv + 4 * i" 4] by simp
  have "vector lo hi (umem u1) (argv + 4 * i + 4) args"
    using ua Cons.prems(2-4) by (intro vector_same_on [OF v(2) keep]) simp_all
  moreover have "cstr (umem u1) fmt [37, 115, 32]"
    using cstr_same_on [OF keep, of fmt "[37, 115, 32]"] Cons.prems(4,6-8) by (simp add: no_wrap_def)
  ultimately obtain out' u' where "echo_loop (length args) E fmt argv (i + 1) out1 u1 = Some (Inr (out', u'))"
      "screen E base cap out' u' ((t @ w @ [32]) @ spaced args)"
    using Cons.IH [where i = "i + 1" and u = u1 and out = out1 and t = "t @ w @ [32]"] 1(2,3) pb(4) b ua Cons.prems(2-4,7,8,10-12) unfolding a by auto
  then show ?case using 1(1) by simp
qed simp

text \<open>C21: what \<open>echo\<close> prints to a memory file. The program has been started with arguments and
  an environment table (not null), which \<open>execute\<close> has laid out in its memory, and still has the
  arguments there; all of them fit above 0xD0000000, where they are laid out, each is shorter than 4095 bytes
  (\<open>vfprintf\<close> has a buffer of 4096, unchecked), and its heap has a block for each. Its standard output
  is a file of the virtual file system, which \<open>vfs_write\<close> serves from memory (the shell and the
  terminal give it a pipe, which theory Pipe models and this does not cover), with room for all of them. Then it
  prints exactly these arguments, in order and each followed by a blank, behind what the file holds already; the
  loop of \<open>main\<close> ends and the program returns 0.\<close>

theorem echo_prints_arguments:
  assumes args: "args \<noteq> []" "list_all (\<lambda>x. 0 \<notin> set x) (args @ envp)" "vec_space args + vec_space envp < 0x30000000"
    "\<forall>w \<in> set args. length w < 4095" "length args < 2 ^ 31"
    and put: "put_vectors args True envp m0 = (uargv, uenvp, m1)" "same_on 0xD0000000 (0xD0000000 + vec_space args) m1 (umem u)"
    and fmt: "cstr (umem u) fmt [37, 115, 32]" "lo \<le> unat fmt" "unat fmt + 3 < 0xD0000000"
    and out: "screen E base cap out u t" "length t + length (spaced args) \<le> cap"
    and bufs: "print_bufs lo (0xD0000000 + vec_space args) base cap (ublocks u)" "length args \<le> length (ublocks u)"
  shows "\<exists>out' u'. echo_main E usage fmt (of_nat (length args)) uargv out u = Some (Inr (0, out', u'))
     \<and> screen E base cap out' u' (t @ spaced args)"
proof -
  let ?hi = "0xD0000000 + vec_space args"
  note parts = put_vectors_parts [OF args(1-3) put(1)]
  have sp: "13 + 4 * length args \<le> vec_space args" "vec_space args < 0x30000000" using args(3) by (simp_all add: vec_space_def)
  then have "vector 0xD0000000 ?hi (umem u) (uargv + 4 * 0) args"
    using vector_same_on [OF parts(1) put(2), of ?hi] parts(3) by simp
  then have "vector lo ?hi (umem u) (uargv + 4 * 0) args" using fmt(2,3) by (elim vector_mono) simp_all
  then have "\<exists>out' u'. echo_loop (length args) E fmt uargv 0 out u = Some (Inr (out', u')) \<and> screen E base cap out' u' (t @ spaced args)"
    using parts(3) sp fmt bufs args(4) out by (intro echo_loop_prints [of lo ?hi]) simp_all
  moreover have n: "of_nat (length args) \<noteq> (0 :: u32)" "nat (sint (of_nat (length args) :: u32)) = length args"
    using args(1,5) sint_of_int [of "int (length args)"] by (simp_all add: word_of_nat_eq_0_iff nat_dvd_not_less)
  ultimately show ?thesis by (auto simp: echo_main_def)
qed

definition echo_one :: uprog where
  "echo_one = prog_one\<lparr>ublocks := [0xE0000000], os := (os prog_one)\<lparr>files := vfs_example\<lparr>nodes :=
     [300 \<mapsto> node_at [100] 400\<lparr>inode := 1000, open_flags := 3\<rparr>],
     mem := put_str 5000 [37, 115, 32] (snd (snd (put_vectors [[104, 105]] True [] (\<lambda>_. 0))))\<rparr>\<rparr>\<rparr>"

lemma echo_one_simps [simp]: "ublocks echo_one = [0xE0000000]"
  "umem echo_one = put_str 5000 [37, 115, 32] (snd (snd (put_vectors [[104, 105]] True [] (\<lambda>_. 0))))"
  by (simp_all add: echo_one_def)

lemma echo_one_screen: "screen env_one 1000 100 stdout echo_one []"
proof -
  let ?x = "node_at [100] 400\<lparr>inode := 1000, open_flags := 3\<rparr>"
  have "user_ok (os echo_one)" using prog_one_ok(1) by (simp add: user_ok_def cur_def echo_one_def)
  moreover have "fd_node 0 (os echo_one) = Inr (Some 300)" by (simp add: fd_node_table [of cfg_one] echo_one_def)
  moreover have "real_node 300 (files (os echo_one)) = Inr 300"
    by (simp add: real_node_def get_node_def node_at_def vfs_check_flag_def echo_one_def)
  moreover have "nodes (files (os echo_one)) 300 = Some ?x" "ftab (os echo_one) = fstab_example" by (simp_all add: echo_one_def)
  moreover have "get_fs fstab_example (fsid ?x) = Inr no_fs" "fs.fwrite no_fs = Some vfs_write"
    by (simp_all add: node_at_def fstab_example_def get_fs_def no_fs_def)
  ultimately have "writable env_one 0 1000 (os echo_one)" unfolding writable_def by (fastforce simp: cfg_one_def)
  then show ?thesis by (simp add: screen_def stdout_def zero_stream_def no_wrap_def)
qed

lemma echo_prints_arguments_witness:
  "\<exists>out' u'. echo_main env_one 0 5000 1 0xD000000D stdout echo_one = Some (Inr (0, out', u'))
     \<and> screen env_one 1000 100 out' u' [104, 105, 32]"
proof -
  obtain uargv uenvp m1 where p: "put_vectors [[104, 105]] True [] (\<lambda>_. 0) = (uargv, uenvp, m1)" by (metis prod_cases3)
  have m: "umem echo_one = put_str 5000 [37, 115, 32] m1" using p by simp
  have "cstr (umem echo_one) 5000 [37, 115, 32]" unfolding m by (rule cstr_put_str) (simp_all add: no_wrap_def)
  moreover have "same_on 0xD0000000 (0xD0000000 + vec_space [[104, 105]]) m1 (umem echo_one)"
    unfolding m by (rule put_str_same_on) (simp add: beside_def no_wrap_def)
  moreover have "vec_space [[104, 105]] = 33" "vec_space [] = 13" by (simp_all add: vec_space_def)
  moreover have "uargv = 0xD000000D" using p by (auto simp: put_vectors_def Let_def split: prod.splits)
  moreover have "print_bufs 5000 0xD0000021 1000 100 [0xE0000000]" by (simp add: print_bufs_def beside_def apart_def no_wrap_def)
  ultimately show ?thesis
    using echo_prints_arguments [of "[[104, 105]]" "[]" "\<lambda>_. 0" uargv uenvp m1 echo_one 5000 5000 env_one 1000 100 stdout "[]" 0] p echo_one_screen
    by simp
qed

subsection \<open>Listing a directory\<close>

text \<open>An open virtual directory whose children have the given names.\<close>

definition lists_names :: "u32 \<Rightarrow> cstring list \<Rightarrow> sys \<Rightarrow> bool" where
  "lists_names fd names s \<longleftrightarrow> user_ok s \<and> length names < 4294967296 \<and> (\<exists>node r n g e.
     fd_node fd s = Inr (Some node) \<and> real_node node (files s) = Inr r \<and> nodes (files s) r = Some n
     \<and> Vfs.entries (files s) (Vfs.entry n) = Some e \<and> get_fs (ftab s) (fsid n) = Inr g \<and> freaddir g = None
     \<and> child_count e = of_nat (length names)
     \<and> (\<forall>i < length names. \<exists>x. nodes (files s) (vfs_entry.childs e i) = Some x \<and> nname x = names ! i))"

lemma lists_names_kept:
  assumes "lists_names fd names s" "calm s s'" "files s' = (files s)\<lparr>mem := m, Vfs.avail := av\<rparr>"
  shows "lists_names fd names s'"
  using assms unfolding lists_names_def calm_def by (auto simp: real_node_mem)

lemma put_bytes_same_on: "beside lo hi p (length xs) \<Longrightarrow> same_on lo hi m (put_bytes p xs m)"
  unfolding same_on_def put_bytes_def by (auto intro!: fold_upd_other dest: besideD)

lemma wr32_kept: "no_wrap dent 260 \<Longrightarrow> i < 256 \<Longrightarrow> wr32 (dent + 256) x m (dent + of_nat i) = m (dent + of_nat i)"
proof -
  assume nw: "no_wrap dent 260" and i: "i < 256"
  have "dent + of_nat i \<noteq> dent + of_nat j" if "j \<in> {256, 257, 258, 259}" for j
    using i that by (intro no_wrap_neq [OF nw]) auto
  then show ?thesis by (intro wr32_other) (force simp: algebra_simps)+
qed

lemma readdir_lists:
  assumes u: "ublocks u = dent # bs" "vld (kcfg E) dent" "no_wrap dent 260"
    and l: "lists_names (d_fd d) names (os u)" "Vfs.avail (files (os u)) = a # b # c # rest" "\<forall>w \<in> set names. length w < 256 \<and> 0 \<notin> set w"
  shows "c_entry d = of_nat i \<Longrightarrow> i < length names \<Longrightarrow>
       \<exists>u' m. readdir E d u = Some (Inr (dent, d\<lparr>c_entry := of_nat (Suc i)\<rparr>, u')) \<and> calm (os u) (os u') \<and> ublocks u' = bs
         \<and> files (os u') = (files (os u))\<lparr>mem := m, Vfs.avail := rest\<rparr> \<and> cstr m dent (names ! i)
         \<and> (\<forall>lo hi. beside lo hi dent 260 \<longrightarrow> same_on lo hi (umem u) m)"
    and "c_entry d = of_nat (length names) \<Longrightarrow>
       \<exists>u' m av. readdir E d u = Some (Inr (0, d, u')) \<and> calm (os u) (os u') \<and> files (os u') = (files (os u))\<lparr>mem := m, Vfs.avail := av\<rparr>
         \<and> (\<forall>lo hi. beside lo hi dent 260 \<longrightarrow> same_on lo hi (umem u) m)"
proof -
  let ?m = "snd (memset dent 0 260 (umem u))"
  let ?s = "set_mem ?m (os u)"
  obtain node r n g e where d: "user_ok (os u)" "length names < 4294967296" "fd_node (d_fd d) (os u) = Inr (Some node)"
      "real_node node (files (os u)) = Inr r" "nodes (files (os u)) r = Some n" "Vfs.entries (files (os u)) (Vfs.entry n) = Some e"
      "get_fs (ftab (os u)) (fsid n) = Inr g" "freaddir g = None" "child_count e = of_nat (length names)"
      "\<forall>i < length names. \<exists>x. nodes (files (os u)) (vfs_entry.childs e i) = Some x \<and> nname x = names ! i"
    using l(1) by (auto simp: lists_names_def)
  let ?av = "if child_count e = 0 then c # rest else rest"
  let ?v = "(files (os u))\<lparr>mem := ?m, Vfs.avail := ?av\<rparr>"
  have s: "user_ok ?s" "fd_node (d_fd d) ?s = Inr (Some node)" "calm (os u) ?s" using d(1,3) by (simp_all add: set_mem_def calm_def)
  have v: "kreaddir (ftab ?s) node (files ?s) = Inr (\<lparr>chld_cnt = child_count e, chlds = child_list e\<rparr>, ?v)"
    using kreaddir_children [of node "files ?s" r n e "ftab ?s" g a b c rest] d l(2)
    by (simp add: set_mem_def real_node_def get_node_def)
  have st: "readdir E d u = res_bind (u_readdir E (d_fd d) (c_entry d) dent ?s)
      (\<lambda>(resp, s). let u' = u\<lparr>ublocks := bs, os := s\<rparr> in
         if resp \<noteq> 0 then Some (Inr (0, d, u')) else Some (Inr (dent, d\<lparr>c_entry := c_entry d + 1\<rparr>, u')))"
    using u(1) by (simp add: readdir_def umalloc_def on_os_def set_umem_def Let_def res_bind_def split: option.splits sum.splits prod.splits)
  have set0: "same_on lo hi (umem u) ?m" if "beside lo hi dent 260" for lo hi using memset_same_on [OF that] by simp
  have len: "unat (of_nat (length names) :: u32) = length names" using d(2) by (simp add: unat_of_nat_u32)
  show "\<exists>u' m. readdir E d u = Some (Inr (dent, d\<lparr>c_entry := of_nat (Suc i)\<rparr>, u')) \<and> calm (os u) (os u') \<and> ublocks u' = bs
         \<and> files (os u') = (files (os u))\<lparr>mem := m, Vfs.avail := rest\<rparr> \<and> cstr m dent (names ! i)
         \<and> (\<forall>lo hi. beside lo hi dent 260 \<longrightarrow> same_on lo hi (umem u) m)" if i: "c_entry d = of_nat i" "i < length names"
  proof -
    obtain x where x: "nodes (files (os u)) (vfs_entry.childs e i) = Some x" "nname x = names ! i" using d(10) i(2) by blast
    let ?w = "names ! i" and ?i = "of_nat i :: u32"
    have w: "length ?w < 256" "0 \<notin> set ?w" using l(3) i(2) by (simp_all add: nth_mem)
    have ui: "unat ?i = i" using d(2) i(2) by (simp add: unat_of_nat_u32)
    let ?n = "put_bytes dent ?w (wr32 (dent + 256) ?i ?m)"
    have ne: "child_count e \<noteq> 0" "?i < child_count e" using i(2) d(9) ui len by (auto simp: word_less_nat_alt)
    then obtain s' where s': "u_readdir E (d_fd d) ?i dent ?s = Some (Inr (0, s'))" "calm ?s s'" "files s' = ?v\<lparr>mem := ?n\<rparr>"
      using u_readdir_runs(2) [OF s(1,2) u(2) v, of ?i x] i(2) x d(9) ui len by (auto simp: child_list_def)
    have "?m (dent + of_nat (length ?w)) = 0" using memset_zero [OF u(3), of "length ?w"] w(1) by simp
    moreover have "wr32 (dent + 256) ?i ?m (dent + of_nat (length ?w)) = ?m (dent + of_nat (length ?w))"
      by (rule wr32_kept) (use u(3) w(1) in simp_all)
    moreover have "no_wrap dent (Suc (length ?w))" using u(3) w(1) by (simp add: no_wrap_def)
    ultimately have c: "cstr ?n dent ?w" using w(2) by (simp add: put_bytes_cstr)
    have "same_on lo hi (umem u) ?n" if b: "beside lo hi dent 260" for lo hi
    proof -
      have "beside lo hi (dent + 256) 4" using beside_shift [OF b, of 256 4] by simp
      moreover have "beside lo hi dent (length ?w)" using w(1) by (intro beside_less [OF b]) simp
      ultimately show ?thesis using set0 [OF b] wr32_same_on put_bytes_same_on same_on_trans by meson
    qed
    moreover have "files s' = (files (os u))\<lparr>mem := ?n, Vfs.avail := rest\<rparr>" using s'(3) ne(1) by simp
    ultimately show ?thesis
      using st s'(1) i(1) c calm_trans [OF s(3) s'(2)] by (intro exI [of _ "u\<lparr>ublocks := bs, os := s'\<rparr>"] exI [of _ ?n]) (simp add: Let_def add.commute)
  qed
  show "\<exists>u' m av. readdir E d u = Some (Inr (0, d, u')) \<and> calm (os u) (os u') \<and> files (os u') = (files (os u))\<lparr>mem := m, Vfs.avail := av\<rparr>
         \<and> (\<forall>lo hi. beside lo hi dent 260 \<longrightarrow> same_on lo hi (umem u) m)" if at: "c_entry d = of_nat (length names)"
  proof -
    obtain s' where s': "u_readdir E (d_fd d) (c_entry d) dent ?s = Some (Inr (1, s'))" "files s' = ?v" "calm ?s s'"
      using u_readdir_runs(1) [OF s(1,2) u(2) v, of "c_entry d"] at d(9) by auto
    then show ?thesis using st set0 calm_trans [OF s(3) s'(3)] by (intro exI [of _ "u\<lparr>ublocks := bs, os := s'\<rparr>"] exI [of _ ?m] exI [of _ ?av]) (simp add: Let_def)
  qed
qed

text \<open>The blocks that a listing of \<open>n\<close> names takes: an entry and a text buffer for each, and one entry more.\<close>

definition ls_bufs :: "uenv \<Rightarrow> nat \<Rightarrow> nat \<Rightarrow> u32 \<Rightarrow> nat \<Rightarrow> nat \<Rightarrow> uprog \<Rightarrow> bool" where
  "ls_bufs E lo hi base cap n u \<longleftrightarrow> print_bufs lo hi base cap (ublocks u) \<and> list_all (\<lambda>p. p \<noteq> 0 \<and> vld (kcfg E) p) (ublocks u)
     \<and> 2 * n + 1 \<le> length (ublocks u) \<and> 3 * n + 3 \<le> length (Vfs.avail (files (os u)))"

lemma ls_loop_prints:
  assumes "length names - i < k" "i \<le> length names" "c_entry d = of_nat i" "lists_names (d_fd d) names (os u)"
    "\<forall>w \<in> set names. length w < 256 \<and> 0 \<notin> set w" "ls_bufs E lo hi base cap (length names - i) u"
    "screen E base cap out u t" "length t + length (spaced (drop i names)) \<le> cap"
    "cstr (umem u) fmt [37, 115, 32]" "lo \<le> unat fmt" "unat fmt + 3 < hi" "hi < 4294967296"
  shows "\<exists>d' out' u'. ls_loop k E fmt d out u = Some (Inr (d', out', u')) \<and> screen E base cap out' u' (t @ spaced (drop i names))"
  using assms
proof (induction k arbitrary: i d out u t)
  case (Suc k)
  obtain dent ps where b: "ublocks u = dent # ps" using Suc.prems(6) by (cases "ublocks u") (auto simp: ls_bufs_def)
  obtain a c e rest where av: "Vfs.avail (files (os u)) = a # c # e # rest"
    using Suc.prems(6) by (auto simp: ls_bufs_def numeral_3_eq_3 Suc_le_length_iff)
  have pb: "beside lo hi dent 4096" "apart base cap dent 4096" "beside lo hi base cap" "print_bufs lo hi base cap ps"
      "dent \<noteq> 0" "vld (kcfg E) dent" "list_all (\<lambda>p. p \<noteq> 0 \<and> vld (kcfg E) p) ps"
    using Suc.prems(6) b by (simp_all add: print_bufs_def ls_bufs_def)
  have dent: "no_wrap dent 260" "beside lo hi dent 260" "beside (unat base) (unat base + cap) dent 260"
    using beside_less [OF pb(1), of 260] beside_less [OF apart_beside [OF pb(2)], of 260] by (simp_all add: beside_def)
  note step = readdir_lists [OF b pb(6) dent(1) Suc.prems(4) av Suc.prems(5)]
  show ?case
  proof (cases "i < length names")
    case False
    then have i: "i = length names" using Suc.prems(2) by simp
    obtain u' m av where 1: "readdir E d u = Some (Inr (0, d, u'))" "calm (os u) (os u')"
        "files (os u') = (files (os u))\<lparr>mem := m, Vfs.avail := av\<rparr>" "same_on (unat base) (unat base + cap) (umem u) m"
      using step(2) Suc.prems(3) dent(3) unfolding i by blast
    have "screen E base cap out u' t" by (rule screen_kept [OF Suc.prems(7) 1(2-4)])
    then show ?thesis using 1(1) i by simp
  next
    case True
    let ?w = "names ! i" and ?d = "d\<lparr>c_entry := of_nat (Suc i)\<rparr>"
    obtain u1 m where 1: "readdir E d u = Some (Inr (dent, ?d, u1))" "calm (os u) (os u1)" "ublocks u1 = ps"
        "files (os u1) = (files (os u))\<lparr>mem := m, Vfs.avail := rest\<rparr>" "cstr m dent ?w"
        "\<forall>lo hi. beside lo hi dent 260 \<longrightarrow> same_on lo hi (umem u) m"
      using step(1) [OF Suc.prems(3) True] by blast
    have m: "umem u1 = m" "Vfs.avail (files (os u1)) = rest" using 1(4) by simp_all
    have s1: "screen E base cap out u1 t" using 1(6) dent(3) by (intro screen_kept [OF Suc.prems(7) 1(2,4)]) blast
    have f1: "cstr (umem u1) fmt [37, 115, 32]"
      using cstr_same_on [of lo hi "umem u" m fmt "[37, 115, 32]"] 1(6) dent(2) Suc.prems(9-12) m by (simp add: no_wrap_def)
    obtain p qs where q: "ps = p # qs" using Suc.prems(6) b True by (cases ps) (auto simp: ls_bufs_def)
    have pp: "beside lo hi p 4096" "apart base cap p 4096" using pb(4) q by (simp_all add: print_bufs_def)
    have sp: "spaced (drop i names) = ?w @ 32 # spaced (drop (Suc i) names)" using True by (simp add: Cons_nth_drop_Suc [symmetric])
    have w: "length ?w < 4095" using Suc.prems(5) True nth_mem by fastforce
    have c1: "cstr (umem u1) dent ?w" using 1(5) m(1) by simp
    obtain out2 u2 where 2: "printf E fmt [dent] out u1 = Some (Inr (1, out2, u2))" "ublocks u2 = qs"
        "screen E base cap out2 u2 (t @ ?w @ [32])" "prints_only base cap p 4096 u1 u2"
      using printf_word [OF s1 1(3) [unfolded q] pp(2) f1 c1 w] Suc.prems(8) sp by auto
    obtain m2 where k2: "calm (os u1) (os u2)" "files (os u2) = (files (os u1))\<lparr>mem := m2, Vfs.avail := rest\<rparr>" "same_on lo hi m (umem u2)"
      using 2(4) pp(1) pb(3) m by (auto simp: prints_only_def)
    have l2: "lists_names (d_fd ?d) names (os u2)"
      using lists_names_kept [OF lists_names_kept [OF Suc.prems(4) 1(2,4)] k2(1,2)] by simp
    have f2: "cstr (umem u2) fmt [37, 115, 32]"
      using cstr_same_on [OF k2(3), of fmt "[37, 115, 32]"] f1 m(1) Suc.prems(10-12) by (simp add: no_wrap_def)
    have n: "length names - i = Suc (length names - Suc i)" using True by simp
    have "ls_bufs E lo hi base cap (length names - Suc i) u2"
      using Suc.prems(6) pb(4,7) b q av 2(2) k2(2) n by (simp add: ls_bufs_def print_bufs_def)
    then have "\<exists>d' out' u'. ls_loop k E fmt ?d out2 u2 = Some (Inr (d', out', u'))
        \<and> screen E base cap out' u' ((t @ ?w @ [32]) @ spaced (drop (Suc i) names))"
      using Suc.prems(1,5,8,10-12) True l2 2(3) f2 sp by (intro Suc.IH) auto
    then show ?thesis using 1(1) 2(1) pb(5) sp by simp
  qed
qed simp

text \<open>C22: what \<open>ls\<close> prints to a memory file. On the stream of a virtual directory that has just been opened, with names of
  fewer than 256 bytes, and with heap blocks for the buffers of every round, the loop of \<open>main\<close> reads entry after
  entry and prints the names of all children, in order and each followed by a blank, behind what its standard output
  holds already; after the last one it ends. The standard output is a file of the virtual file system that
  \<open>vfs_write\<close> serves from memory, with room for what it holds and all the names; the pipe that a program gets from the shell
  as its output (theory Pipe) is not covered.\<close>

theorem ls_prints_children:
  assumes dir: "lists_names (d_fd d) names (os u)" "c_entry d = 0" "\<forall>w \<in> set names. length w < 256 \<and> 0 \<notin> set w"
    and fmt: "cstr (umem u) fmt [37, 115, 32]" "lo \<le> unat fmt" "unat fmt + 3 < hi" "hi < 4294967296"
    and out: "screen E base cap out u t" "length t + length (spaced names) \<le> cap"
    and bufs: "ls_bufs E lo hi base cap (length names) u" and k: "length names < k"
  shows "\<exists>d' out' u'. ls_loop k E fmt d out u = Some (Inr (d', out', u')) \<and> screen E base cap out' u' (t @ spaced names)"
  using ls_loop_prints [of names 0 k d u E lo hi base cap out t fmt] assms by simp

definition ls_one :: uprog where
  "ls_one = prog_one\<lparr>ublocks := [0xE0000000, 0xE0001000, 0xE0002000], os := (os prog_one)\<lparr>fd_arrays := (\<lambda>_. [300, 100]), files := vfs_example\<lparr>
     nodes := (nodes vfs_example)(300 \<mapsto> node_at [100] 400\<lparr>inode := 1000, open_flags := 3\<rparr>), Vfs.avail := [500, 600, 700, 800, 900, 904],
     mem := put_str 5000 [37, 115, 32] (\<lambda>_. 0)\<rparr>\<rparr>\<rparr>"

lemma ls_one_ok:
  "user_ok (os ls_one)" "fd_node 0 (os ls_one) = Inr (Some 300)" "fd_node 1 (os ls_one) = Inr (Some 100)"
  "ftab (os ls_one) = fstab_example" "files (os ls_one) = vfs_example\<lparr>nodes := (nodes vfs_example)(300 \<mapsto> node_at [100] 400\<lparr>inode := 1000, open_flags := 3\<rparr>),
     Vfs.avail := [500, 600, 700, 800, 900, 904], mem := put_str 5000 [37, 115, 32] (\<lambda>_. 0)\<rparr>"
  using prog_one_ok(1) by (simp_all add: ls_one_def user_ok_def cur_def)
    (simp_all add: fd_node_def cur_proc_def get_proc_def load_at_def prog_one_def sys_one_def sched_one_def cur_def word_le_nat_alt)

lemma ls_prints_children_witness:
  "\<exists>d' out' u'. ls_loop (Suc (Suc 0)) env_one 5000 \<lparr>d_fd = 1, c_entry = 0\<rparr> stdout ls_one = Some (Inr (d', out', u'))
     \<and> screen env_one 1000 100 out' u' [100, 32]"
proof -
  let ?x = "node_at [100] 400\<lparr>inode := 1000, open_flags := 3\<rparr>" and ?e = "\<lparr>child_count = 1, childs = (\<lambda>_. 300), parent = 0\<rparr> :: vfs_entry"
  note files = ls_one_ok(5)
  have r: "real_node 300 (files (os ls_one)) = Inr 300" "real_node 100 (files (os ls_one)) = Inr 100"
    unfolding files by (simp_all add: real_node_def get_node_def node_at_def vfs_check_flag_def vfs_example_def)
  have n: "nodes (files (os ls_one)) 300 = Some ?x" "nodes (files (os ls_one)) 100 = Some (node_at [91] 200)"
      "Vfs.entries (files (os ls_one)) 200 = Some ?e"
    unfolding files by (simp_all add: vfs_example_def)
  have g: "get_fs fstab_example 0 = Inr no_fs" "fs.fwrite no_fs = Some vfs_write" "freaddir no_fs = None"
    by (simp_all add: fstab_example_def get_fs_def no_fs_def)
  have "writable env_one 0 1000 (os ls_one)"
    unfolding writable_def using ls_one_ok(1,2,4) r(1) n(1) g(1,2) by (fastforce simp: cfg_one_def node_at_def)
  then have "screen env_one 1000 100 stdout ls_one []" by (simp add: screen_def stdout_def zero_stream_def no_wrap_def)
  moreover have "lists_names 1 [[100]] (os ls_one)"
    unfolding lists_names_def using ls_one_ok(1,3,4) r(2) n g(1,3)
    by (intro conjI exI [of _ 100] exI [of _ "node_at [91] 200"] exI [of _ no_fs] exI [of _ ?e]) (simp_all add: node_at_def)
  moreover have "ls_bufs env_one 5000 6000 1000 100 1 ls_one"
    by (simp add: ls_bufs_def print_bufs_def beside_def apart_def no_wrap_def cfg_one_def files) (simp add: ls_one_def beside_def apart_def no_wrap_def)
  moreover have "cstr (umem ls_one) 5000 [37, 115, 32]" using cstr_put_str [of "[37, 115, 32]" 5000] files by (simp add: no_wrap_def)
  ultimately show ?thesis
    using ls_prints_children [of "\<lparr>d_fd = 1, c_entry = 0\<rparr>" "[[100]]" ls_one 5000 5000 6000 env_one 1000 100 stdout "[]" "Suc (Suc 0)"]
    by simp
qed

end
