(* ===== verification/Boot.thy ===== *)
theory Boot
  imports Pmm Kmodule
begin

text \<open>
  The start of the kernel as far as it prepares memory, \<open>kernel_main\<close> of \<open>os/kernel/kernel.c\<close>: the boot
  modules are noted and the stack of free frames is placed behind them, the memory of the kernel and the
  blocks for direct memory access are reserved, and \<open>init_pmm\<close> (theory Pmm) fills the stack from the memory
  map.
\<close>

subsection \<open>Boot modules\<close>

text \<open>The loop runs once for each of the \<open>n\<close> modules, each time on the first. \<open>ends\<close> gives the field
  \<open>mod_end\<close> of the module at an address, and \<open>stack\<close> is the place of the frame stack.\<close>

fun boot_modules :: "(u32 \<Rightarrow> u32) \<Rightarrow> u32 \<Rightarrow> nat \<Rightarrow> u32 list \<times> u32 \<Rightarrow> (u32 list \<times> u32) res" where
  "boot_modules ends md 0 st = Inr st"
| "boot_modules ends md (Suc n) (rd, stack) =
     sbind (module_ramdisk_add md rd) (\<lambda>rd.
       boot_modules ends md n (rd, if ends md > stack then ends md else stack))"

subsection \<open>Reserved memory\<close>

abbreviation DMA_REGION_START :: u32 where "DMA_REGION_START \<equiv> 0x30000000"
abbreviation DMA_REGION_SIZE :: u32 where "DMA_REGION_SIZE \<equiv> 1024 * 1024"
abbreviation DMA_REGION_BLOCK :: u32 where "DMA_REGION_BLOCK \<equiv> 64 * 1024"

text \<open>The loop over the blocks: \<open>k\<close> bounds its rounds.\<close>

fun free_dma_blocks :: "nat \<Rightarrow> u32 \<Rightarrow> kmem \<Rightarrow> kmem res option" where
  "free_dma_blocks 0 i s = None"
| "free_dma_blocks (Suc k) i s =
     (if i < DMA_REGION_START + DMA_REGION_SIZE
      then res_bind (Some (pmm_free_dma i s)) (free_dma_blocks k (i + DMA_REGION_BLOCK))
      else Some (Inr s))"

definition reserve_memory :: "kmem \<Rightarrow> kmem res option" where
  "reserve_memory s =
     res_bind (Some (pmm_protect_region 0 0x400000 s)) (\<lambda>s.
     res_bind (Some (pmm_protect_region DMA_REGION_START DMA_REGION_SIZE s)) (\<lambda>s.
       free_dma_blocks 17 DMA_REGION_START s))"

definition boot_memory :: "(u32 \<Rightarrow> bool) \<Rightarrow> (u32 \<Rightarrow> mmap_entry) \<Rightarrow> u32 \<Rightarrow> u32 \<Rightarrow> kmem \<Rightarrow> kmem res option" where
  "boot_memory v ent mmap_addr mmap_length s = res_bind (reserve_memory s) (init_pmm v ent mmap_addr mmap_length)"

subsection \<open>The boot modules overlap the frame stack\<close>

lemma boot_modules_repeat:
  "length rd + n \<le> 64 \<Longrightarrow> boot_modules ends md n (rd, stack)
     = Inr (rd @ replicate n md, if n = 0 then stack else max stack (ends md))"
  by (induction n arbitrary: rd stack) (auto simp: module_ramdisk_add_def replicate_app_Cons_same max_def)

text \<open>Of several boot modules only the first is used. The table of ramdisk modules gets the first module as
  often as there are modules, and the stack of free frames is placed behind the first only: if another
  module ends behind both the kernel and the first module, the stack begins inside or in front of it and
  grows into it.\<close>

theorem boot_modules_only_first:
  assumes "0 < n" "n \<le> 64" "ends md < ends other" "k_end < ends other"
  shows "\<exists>stack. boot_modules ends md n ([], k_end) = Inr (replicate n md, stack)
     \<and> k_end \<le> stack \<and> ends md \<le> stack \<and> stack < ends other"
  using boot_modules_repeat [of "[]" n ends md k_end] assms by (auto simp: max_def)

lemma boot_modules_only_first_witness:
  "\<exists>stack. boot_modules (\<lambda>p. if p = 16 then 0x300000 else 0x280000) 0 2 ([], 0x200000) = Inr (replicate 2 0, stack) \<and> stack < 0x300000"
  using boot_modules_only_first [of 2 "\<lambda>p. if p = 16 then 0x300000 else 0x280000" 0 16 "0x200000"] by force

subsection \<open>Reserved memory is never free\<close>

definition fresh_kmem :: "kmem \<Rightarrow> bool" where
  "fresh_kmem s \<longleftrightarrow> k_frame_stack_esp s = 0 \<and> k_frame_stack_size s = 0 \<and> prot_regions_counter s = 0
     \<and> length (protected_regions s) = 32 \<and> length (dma_stack s) = 16 \<and> dma_esp s = 0"

text \<open>The frames that \<open>pmm_check_frame\<close> refuses, with the one right behind each region.\<close>

definition reserved :: "u32 \<Rightarrow> bool" where
  "reserved f \<longleftrightarrow> f \<le> 0x400000 \<or> 0x30000000 \<le> f \<and> f \<le> 0x30100000"

lemma free_dma_blocks_all:
  "length (dma_stack s) = 16 \<Longrightarrow> unat (dma_esp s) = j \<Longrightarrow> j \<le> 16 \<Longrightarrow> 16 - j < k \<Longrightarrow>
    \<exists>s'. free_dma_blocks k (0x30000000 + of_nat j * 0x10000) s = Some (Inr s') \<and> dma_esp s' = 16
      \<and> dma_stack s' = take j (dma_stack s) @ List.map (\<lambda>l. 0x30000000 + of_nat l * 0x10000) [j..<16]
      \<and> s' = s\<lparr>dma_stack := dma_stack s', dma_esp := dma_esp s'\<rparr>"
proof (induction "16 - j" arbitrary: j k s)
  case 0
  then have j: "j = 16" by simp
  moreover have "dma_esp s = 16" using 0(3) j word_unat_eq_iff [of "dma_esp s" 16] by simp
  moreover obtain k' where "k = Suc k'" using 0 by (cases k) auto
  ultimately show ?case using 0 by simp
next
  case (Suc n)
  obtain k' where k: "k = Suc k'" using Suc.prems(4) by (cases k) auto
  let ?i = "0x30000000 + of_nat j * 0x10000 :: u32"
  let ?s = "s\<lparr>dma_stack := (dma_stack s)[j := ?i], dma_esp := dma_esp s + 1\<rparr>"
  have j: "j < 16" using Suc.hyps(2) by simp
  have "?i = of_nat (0x30000000 + j * 0x10000)" by simp
  then have "unat ?i = 0x30000000 + j * 0x10000" using unat_of_nat_u32 [of "0x30000000 + j * 0x10000"] j by simp
  then have lt: "?i < 0x30100000" using j by (simp add: word_less_nat_alt)
  have e: "unat (dma_esp s + 1) = Suc j" using Suc.prems(2) j by (simp add: unat_plus1_u32)
  have k2: "16 - Suc j < k'" using k Suc.prems(4) j by linarith
  have l1: "length (dma_stack ?s) = 16" using Suc.prems(1) by simp
  have n: "n = 16 - Suc j" using Suc.hyps(2) by simp
  have e': "unat (dma_esp ?s) = Suc j" and j': "Suc j \<le> 16" using e j by simp_all
  from Suc.hyps(1) [OF n l1 e' j' k2]
  obtain s' where s': "free_dma_blocks k' (0x30000000 + of_nat (Suc j) * 0x10000) ?s = Some (Inr s')" "dma_esp s' = 16"
      "dma_stack s' = take (Suc j) (dma_stack ?s) @ List.map (\<lambda>l. 0x30000000 + of_nat l * 0x10000) [Suc j..<16]"
      "s' = ?s\<lparr>dma_stack := dma_stack s', dma_esp := dma_esp s'\<rparr>"
    by blast
  have "free_dma_blocks k ?i s = free_dma_blocks k' (0x30000000 + of_nat (Suc j) * 0x10000) ?s"
    using k lt Suc.prems(1,2) j by (simp add: pmm_free_dma_def algebra_simps)
  moreover have "take (Suc j) ((dma_stack s)[j := ?i]) = take j (dma_stack s) @ [?i]"
    using j Suc.prems(1) by (simp add: take_Suc_conv_app_nth)
  moreover have "[j..<16] = j # [Suc j..<16]" using j by (simp add: upt_conv_Cons)
  ultimately show ?case using s' by (intro exI [of _ s']) simp
qed

lemma reserve_memory_effect:
  assumes "fresh_kmem s"
  shows "\<exists>s'. reserve_memory s = Some (Inr s') \<and> pmm_inv s' \<and> regions_ok s' \<and> free_frames s' = []
     \<and> k_frame_stack_size s' = 0 \<and> unprotected s' = (\<lambda>f. \<not> reserved f)
     \<and> dma_stack s' = List.map (\<lambda>l. 0x30000000 + of_nat l * 0x10000) [0..<16] \<and> dma_esp s' = 16 \<and> kh s' = kh s"
proof -
  let ?r1 = "\<lparr>r_size = 0x400000, r_start = 0\<rparr>" and ?r2 = "\<lparr>r_size = DMA_REGION_SIZE, r_start = DMA_REGION_START\<rparr>"
  let ?s1 = "s\<lparr>protected_regions := (protected_regions s)[0 := ?r1, 1 := ?r2], prot_regions_counter := 2\<rparr>"
  have p: "pmm_protect_region 0 0x400000 s = Inr (s\<lparr>protected_regions := (protected_regions s)[0 := ?r1], prot_regions_counter := 1\<rparr>)"
    "pmm_protect_region DMA_REGION_START DMA_REGION_SIZE
       (s\<lparr>protected_regions := (protected_regions s)[0 := ?r1], prot_regions_counter := 1\<rparr>) = Inr ?s1"
    using assms by (simp_all add: pmm_protect_region_def fresh_kmem_def)
  obtain s' where s': "free_dma_blocks 17 DMA_REGION_START ?s1 = Some (Inr s')" "dma_esp s' = 16"
      "dma_stack s' = List.map (\<lambda>l. 0x30000000 + of_nat l * 0x10000) [0..<16]"
      "s' = ?s1\<lparr>dma_stack := dma_stack s', dma_esp := dma_esp s'\<rparr>"
    using free_dma_blocks_all [of ?s1 0 17] assms by (auto simp: fresh_kmem_def)
  obtain a b rs where r: "protected_regions s = a # b # rs"
    using assms by (auto simp: fresh_kmem_def length_Suc_conv numeral_eq_Suc)
  have f: "protected_regions s' = ?r1 # ?r2 # rs" "prot_regions_counter s' = 2" "k_frame_stack_size s' = 0" "k_frame_stack_esp s' = 0" "kh s' = kh s"
    using assms r by (subst s'(4), simp add: fresh_kmem_def)+
  have "unprotected s' = (\<lambda>f. \<not> reserved f)"
    by (auto simp: fun_eq_iff unprotected_def f protected_by_def reserved_def)
  then show ?thesis using p s'(1-3) f by (simp add: reserve_memory_def pmm_inv_def regions_ok_def free_frames_def)
qed

text \<open>The memory map as the loader lays it out: entries one behind the other up to the limit.\<close>

fun mmap_chain :: "(u32 \<Rightarrow> mmap_entry) \<Rightarrow> u32 \<Rightarrow> u32 \<Rightarrow> mmap_entry list \<Rightarrow> bool" where
  "mmap_chain ent limit p [] \<longleftrightarrow> \<not> p < limit"
| "mmap_chain ent limit p (e # es) \<longleftrightarrow> p < limit \<and> ent p = e \<and> mmap_chain ent limit (p + m_size e + 4) es"

definition entry_frames :: "mmap_entry \<Rightarrow> u32 list" where
  "entry_frames e = (if m_type e = 1 then region_frames (m_addr e) (m_len e) 0 else [])"

lemma add_frame_keeps [simp]: "k_frame_stack_esp (add_frame f s) = k_frame_stack_esp s" "dma_stack (add_frame f s) = dma_stack s"
  "dma_esp (add_frame f s) = dma_esp s"
  by (simp_all add: add_frame_def)

lemma add_frames_keeps:
  "add_frames addr len i s = Inr s' \<Longrightarrow> regions_ok s' = regions_ok s \<and> unprotected s' = unprotected s
     \<and> k_frame_stack_esp s' = k_frame_stack_esp s \<and> dma_stack s' = dma_stack s \<and> dma_esp s' = dma_esp s"
proof (induction addr len i s rule: add_frames.induct)
  case (1 addr len i s)
  show ?case
  proof (cases "i < unat len")
    case True
    then obtain ok where ok: "i < 2 ^ 31" "pmm_check_frame (ucast (addr + of_nat i)) s = Inr ok"
        "add_frames addr len (i + 4096) (if ok then add_frame (ucast (addr + of_nat i)) s else s) = Inr s'"
      using "1.prems" by (subst (asm) add_frames.simps) (auto split: if_splits sum.splits simp: sbind_def)
    have "\<not> i \<ge> 2 ^ 31" using ok(1) by simp
    from "1.IH" [OF True this ok(3)] show ?thesis by (cases ok) auto
  next
    case False
    then show ?thesis using "1.prems" by (subst (asm) add_frames.simps) simp
  qed
qed

lemma frames_size: "pmm_inv s \<Longrightarrow> unat (k_frame_stack_size s) = unat (k_frame_stack_esp s) + length (free_frames s)"
  by (simp add: pmm_inv_def free_frames_def)

lemma mmap_walk_frames:
  "mmap_chain ent limit p es \<Longrightarrow> \<forall>e \<in> set es. unat (m_len e) \<le> 2 ^ 31 \<Longrightarrow> pmm_inv s \<Longrightarrow> regions_ok s \<Longrightarrow>
    unat (k_frame_stack_size s) + length (concat (List.map entry_frames es)) < 4294967296 \<Longrightarrow>
    \<exists>s'. mmap_walk ent limit p s = Some (Inr s') \<and> pmm_inv s'
      \<and> free_frames s' = free_frames s @ filter (unprotected s) (concat (List.map entry_frames es))
      \<and> dma_stack s' = dma_stack s \<and> dma_esp s' = dma_esp s"
proof (induction es arbitrary: p s)
  case Nil
  then show ?case by (subst mmap_walk.simps) simp
next
  case (Cons e es)
  let ?step = "if m_type e = 1 then add_frames (m_addr e) (m_len e) 0 s else Inr s"
  obtain s1 where s1: "?step = Inr s1" "pmm_inv s1" "free_frames s1 = free_frames s @ filter (unprotected s) (entry_frames e)"
  proof (cases "m_type e = 1")
    case True
    then show ?thesis using that add_frames_from [of s "m_len e" "m_addr e" 0] Cons.prems by (auto simp: entry_frames_def)
  next
    case False
    then show ?thesis using that [of s] Cons.prems by (simp add: entry_frames_def)
  qed
  have k: "regions_ok s1" "unprotected s1 = unprotected s" "k_frame_stack_esp s1 = k_frame_stack_esp s"
      "dma_stack s1 = dma_stack s" "dma_esp s1 = dma_esp s"
    using s1(1) add_frames_keeps [of "m_addr e" "m_len e" 0 s s1] Cons.prems(4) by (auto split: if_splits)
  have "length (filter (unprotected s) (entry_frames e)) \<le> length (entry_frames e)" by (rule length_filter_le)
  then have "unat (k_frame_stack_size s1) \<le> unat (k_frame_stack_size s) + length (entry_frames e)"
    using frames_size [OF s1(2)] frames_size [OF Cons.prems(3)] s1(3) k(3) by simp
  then have sz: "unat (k_frame_stack_size s1) + length (concat (List.map entry_frames es)) < 4294967296"
    using Cons.prems(5) by simp
  obtain s' where s': "mmap_walk ent limit (p + m_size e + 4) s1 = Some (Inr s')" "pmm_inv s'"
      "free_frames s' = free_frames s1 @ filter (unprotected s1) (concat (List.map entry_frames es))"
      "dma_stack s' = dma_stack s1" "dma_esp s' = dma_esp s1"
    using Cons.IH [OF _ _ s1(2) k(1) sz, of "p + m_size e + 4"] Cons.prems(1,2) by auto
  have "mmap_walk ent limit p s = mmap_walk ent limit (p + m_size e + 4) s1"
    using Cons.prems(1) s1(1) by (subst mmap_walk.simps) (auto split: if_splits)
  then show ?case using s' s1(3) k by simp
qed

text \<open>C6: What the kernel reserves at its start is never handed out as a free frame. From the initial state (no
  frame, no protected region, empty block stack), with a memory map of regions of at most two gigabytes and
  fewer than 2^32 pages in all, and counters that can be created, the preparation of memory ends; the free frames are
  exactly those of the usable regions, in the order of the map, that lie neither in 0 to 0x400000 nor in 0x30000000 to
  0x30100000, and the sixteen blocks for direct memory access are on their stack. Both bounds of a region count:
  \<open>pmm_check_frame\<close> compares with \<open><=\<close>, so the frames at 0x400000 and at 0x30100000, which lie behind the four megabytes
  and behind the megabyte for direct access that were meant, are lost as well. A frame is the low half of a
  64-bit address of the map: a region above four gigabytes enters the frames 2^32 below it, which may be reserved by
  nobody or in use.\<close>

theorem boot_memory_frames:
  assumes s: "fresh_kmem s" and es: "mmap_chain ent (addr + len) addr es" "\<forall>e \<in> set es. unat (m_len e) \<le> 2 ^ 31"
      "length (concat (List.map entry_frames es)) < 4294967296"
    and c: "create_stat v name_pushed 0 (kh s) = Some (Inr (i1, h1))" "create_stat v name_popped 0 h1 = Some (Inr (i2, h2))"
      "create_stat v name_peak 0 h2 = Some (Inr (i3, h3))"
  shows "\<exists>s'. boot_memory v ent addr len s = Some (Inr s') \<and> pmm_inv s'
     \<and> free_frames s' = filter (\<lambda>f. \<not> reserved f) (concat (List.map entry_frames es))
     \<and> dma_stack s' = List.map (\<lambda>l. 0x30000000 + of_nat l * 0x10000) [0..<16] \<and> dma_esp s' = 16"
proof -
  obtain s1 where s1: "reserve_memory s = Some (Inr s1)" "pmm_inv s1" "regions_ok s1" "free_frames s1 = []"
      "k_frame_stack_size s1 = 0" "unprotected s1 = (\<lambda>f. \<not> reserved f)"
      "dma_stack s1 = List.map (\<lambda>l. 0x30000000 + of_nat l * 0x10000) [0..<16]" "dma_esp s1 = 16"
      and k: "kh s1 = kh s"
    using reserve_memory_effect [OF s] by blast
  let ?s2 = "s1\<lparr>pstat := ucast i1, pstat1 := ucast i2, kh := h3, pstat2 := ucast i3\<rparr>"
  have i: "init_pmm v ent addr len s1 = mmap_walk ent (addr + len) addr ?s2"
    using c k by (simp add: init_pmm_def pmm_stat_def)
  have "pmm_inv ?s2" "regions_ok ?s2" "free_frames ?s2 = []" "unprotected ?s2 = (\<lambda>f. \<not> reserved f)"
    using s1(2-6) by (simp_all add: pmm_inv_def regions_ok_def free_frames_def unprotected_def fun_eq_iff)
  then show ?thesis
    using mmap_walk_frames [OF es(1,2), of ?s2] es(3) s1 i by (auto simp: boot_memory_def)
qed

definition kmem_boot :: kmem where
  "kmem_boot = kmem_example\<lparr>kh := kheap_fresh\<lparr>kst := (kst kheap_fresh)\<lparr>last_stat := 128\<rparr>\<rparr>, k_frame_stack_esp := 0,
     k_frame_stack_size := 0, dma_stack := replicate 16 0, dma_esp := 0,
     protected_regions := replicate 32 \<lparr>r_size = 0, r_start = 0\<rparr>, prot_regions_counter := 0\<rparr>"

lemma boot_memory_frames_witness:
  "\<exists>s'. boot_memory (\<lambda>_. True) (\<lambda>_. \<lparr>m_size = 20, m_addr = 0x3FF000, m_len = 0x3000, m_type = 1\<rparr>) 0 24 kmem_boot = Some (Inr s')
     \<and> pmm_inv s' \<and> free_frames s' = [0x401000]"
proof -
  let ?e = "\<lparr>m_size = 20, m_addr = 0x3FF000, m_len = 0x3000, m_type = 1\<rparr>"
  have f: "entry_frames ?e = [0x3FF000, 0x400000, 0x401000]" by (simp add: entry_frames_def region_frames_def upt_rec)
  have "create_stat (\<lambda>_. True) nm 0 (kh kmem_boot) = Some (Inr (0, kh kmem_boot))" for nm
    by (simp add: create_stat_def kmem_boot_def)
  moreover have "fresh_kmem kmem_boot" by (simp add: fresh_kmem_def kmem_boot_def)
  ultimately show ?thesis
    using boot_memory_frames [of kmem_boot "\<lambda>_. ?e" 0 24 "[?e]" "\<lambda>_. True" 0 "kh kmem_boot" 0 "kh kmem_boot" 0 "kh kmem_boot"] f
    by (auto simp: reserved_def)
qed

end
