(* ===== verification/Chardev.thy ===== *)
theory Chardev
  imports Stdio Port_IO
begin

text \<open>
  The two modules that serve a device file each from the processor alone: \<open>os/modules/null\<close> (nothing) and
  \<open>os/modules/rand\<close> (random bytes). \<open>load\<close> registers the file system of the module and mounts it. The state of
  the random module is its two static variables; the random numbers of the processor (\<open>rdrand\<close>) are a
  stream \<open>hw\<close> with the count of those taken.
\<close>

subsection \<open>The null device\<close>

definition null_mount :: "u32 \<Rightarrow> u32 \<Rightarrow> vfs \<Rightarrow> (u32 \<times> vfs) res" where
  "null_mount mountp dev s = Inr (mountp, s)"

definition null_read :: "u32 \<Rightarrow> u64 \<Rightarrow> u32 \<Rightarrow> u32 \<Rightarrow> vfs \<Rightarrow> (u32 \<times> vfs) res" where
  "null_read node offs sz buffer s = Inr (sz, s\<lparr>mem := snd (memset buffer 0 sz (mem s))\<rparr>)"

definition null_write :: "u32 \<Rightarrow> u64 \<Rightarrow> u32 \<Rightarrow> u32 \<Rightarrow> vfs \<Rightarrow> (u32 \<times> vfs) res" where
  "null_write node offs sz buffer s = Inr (sz, s)"

text \<open>A block of \<open>kmalloc\<close> that \<open>memset\<close> cleared: no operation.\<close>

definition zero_fs :: fs where
  "zero_fs = \<lparr>fs_name = [], fmount = None, fumount = None, fread = None, fwrite = None, fseek = None, fcreate = None,
     freaddir = None, fremove = None, fioctl = None\<rparr>"

definition null_fs :: fs where
  "null_fs = zero_fs\<lparr>fs_name := [110, 117, 108, 108], fmount := Some null_mount, fread := Some null_read, fwrite := Some null_write\<rparr>"

definition dev_null :: cstring where "dev_null = [47, 100, 101, 118, 47, 110, 117, 108, 108]"
definition dev_random :: cstring where "dev_random = [47, 100, 101, 118, 47, 114, 97, 110, 100, 111, 109]"

text \<open>Registering a file system and mounting it without a device.\<close>

definition provide_fs :: "fs \<Rightarrow> cstring \<Rightarrow> fstab \<Rightarrow> vfs \<Rightarrow> (u8 \<times> fstab \<times> vfs) res option" where
  "provide_fs f path t s =
     res_bind (Some (Vfs.kalloc s)) (\<lambda>(_, s).
     res_bind (Some (register_fs (Some f) t)) (\<lambda>(idx, t).
     res_bind (kmount t path [] idx s) (\<lambda>(_, s). Some (Inr (0, t, s)))))"

definition null_load :: "fstab \<Rightarrow> vfs \<Rightarrow> (u8 \<times> fstab \<times> vfs) res option" where
  "null_load t s = provide_fs null_fs dev_null t s"

subsection \<open>Random bytes\<close>

record rand_state =
  rnext :: u32
  truerand :: u8
  drawn :: nat

definition get_random :: "(nat \<Rightarrow> u32) \<Rightarrow> rand_state \<Rightarrow> u32 \<times> rand_state" where
  "get_random hw r = (hw (drawn r), r\<lparr>drawn := Suc (drawn r)\<rparr>)"

definition get_pseudorandom :: "rand_state \<Rightarrow> u16 \<times> rand_state" where
  "get_pseudorandom r = (let n = rnext r * 1103515245 + 12345 in (ucast ((n div 65536) mod 32768), r\<lparr>rnext := n\<rparr>))"

text \<open>Four fresh bytes, most significant first.\<close>

definition draw_bytes :: "(nat \<Rightarrow> u32) \<Rightarrow> rand_state \<Rightarrow> u8 list \<times> rand_state" where
  "draw_bytes hw r =
     (if truerand r \<noteq> 0
      then let (n, r) = get_random hw r in ([ucast (drop_bit 24 n), ucast (drop_bit 16 n), ucast (drop_bit 8 n), ucast n], r)
      else let (n1, r) = get_pseudorandom r; (n2, r) = get_pseudorandom r
           in ([ucast (drop_bit 8 n1), ucast n1, ucast (drop_bit 8 n2), ucast n2], r))"

text \<open>The loop: \<open>bytes\<close> is the local array, which the first round reads before it has been written.\<close>

fun rand_loop :: "(nat \<Rightarrow> u32) \<Rightarrow> u32 \<Rightarrow> nat \<Rightarrow> nat \<Rightarrow> u8 list \<Rightarrow> rand_state \<times> bytes \<Rightarrow> rand_state \<times> bytes" where
  "rand_loop hw buffer i 0 bs (r, m) = (r, m)"
| "rand_loop hw buffer i (Suc k) bs (r, m) =
     (let (bs, r) = (if i mod 4 \<noteq> 0 then draw_bytes hw r else (bs, r))
      in rand_loop hw buffer (Suc i) k bs (r, m(buffer + of_nat i := bs ! (i mod 4))))"

definition rand_read :: "(nat \<Rightarrow> u32) \<Rightarrow> u8 list \<Rightarrow> u32 \<Rightarrow> u32 \<Rightarrow> rand_state \<times> vfs \<Rightarrow> u32 \<times> rand_state \<times> vfs" where
  "rand_read hw uninit sz buffer = (\<lambda>(r, s). let (r, m) = rand_loop hw buffer 0 (unat sz) uninit (r, mem s) in (sz, r, s\<lparr>mem := m\<rparr>))"

text \<open>\<open>read\<close> is the entry of \<open>rand_read\<close> in the table, \<open>rdrand\<close> tells whether the processor has the instruction.
  Without it the clock is the seed; \<open>None\<close> if the clock never becomes ready.\<close>

definition rand_load :: "(u32 \<Rightarrow> u64 \<Rightarrow> u32 \<Rightarrow> u32 \<Rightarrow> vfs \<Rightarrow> (u32 \<times> vfs) res) \<Rightarrow> bool \<Rightarrow> device \<Rightarrow> io \<Rightarrow> rand_state \<Rightarrow> fstab \<Rightarrow> vfs
    \<Rightarrow> ((u8 \<times> fstab \<times> vfs) \<times> rand_state \<times> io) res option" where
  "rand_load read rdrand dev h r t s =
     res_bind (if rdrand then Some (Inr (r\<lparr>truerand := 1\<rparr>, h))
       else map_option (\<lambda>(now, h). Inr (r\<lparr>truerand := 0, rnext := now\<rparr>, h)) (rtc_current_time dev h)) (\<lambda>(r, h).
     res_bind (provide_fs (zero_fs\<lparr>fs_name := [114, 97, 110, 100, 111, 109], fread := Some read\<rparr>) dev_random t s) (\<lambda>x.
       Some (Inr (x, r, h))))"

subsection \<open>The null device reads as zeros and swallows what is written\<close>

definition serves :: "(u32 \<Rightarrow> bool) \<Rightarrow> fstab \<Rightarrow> fs \<Rightarrow> u32 \<Rightarrow> vfs \<Rightarrow> bool" where
  "serves v t f node s \<longleftrightarrow> v node \<and> (\<exists>n. nodes s node = Some n \<and> vfs_check_flag (nflags n) VFS_LINK = 0 \<and> get_fs t (fsid n) = Inr f)"

lemma serves_kread: "serves v t f node s \<Longrightarrow>
    kread v t node offs sz buffer s = (case fs.fread f of Some g \<Rightarrow> g node offs sz buffer s | None \<Rightarrow> Inr (0, s))"
  by (auto simp: serves_def kread_def real_node_def get_node_def)

lemma serves_kwrite: "serves v t f node s \<Longrightarrow>
    kwrite v t node offs sz buffer s = (case fs.fwrite f of Some g \<Rightarrow> g node offs sz buffer s | None \<Rightarrow> Inr (0, s))"
  by (auto simp: serves_def kwrite_def real_node_def get_node_def)

lemma null_device_reads_zeros:
  assumes "serves v t null_fs node s" and "no_wrap buffer (unat sz)"
  shows "kwrite v t node offs n src s = Inr (n, s)
     \<and> (\<exists>s'. kread v t node offs sz buffer s = Inr (sz, s')
       \<and> mem s' = (\<lambda>a. if unat buffer \<le> unat a \<and> unat a < unat buffer + unat sz then 0 else mem s a)
       \<and> nodes s' = nodes s \<and> Vfs.entries s' = Vfs.entries s)"
  using assms by (auto simp: serves_kread serves_kwrite null_fs_def zero_fs_def null_read_def null_write_def memset_at intro!: ext)

subsection \<open>Mounting a device file\<close>

text \<open>A path without its last slash is the same path.\<close>

lemma path_of_open:
  assumes "plain_names (dirs @ [c])" "c \<noteq> []"
  shows "kseek t (butlast (path_of (dirs @ [c]))) s = kseek t (path_of (dirs @ [c])) s"
    "kcreate t (butlast (path_of (dirs @ [c]))) ty s = kcreate t (path_of (dirs @ [c])) ty s"
proof -
  let ?p = "butlast (path_of (dirs @ [c]))"
  have p: "?p = concat (List.map (\<lambda>c. slash # c) dirs) @ slash # c"
    by (simp add: path_of_def butlast_append)
  have "slash \<notin> set c" using assms(1) by (simp add: plain_names_def)
  then have "last c \<noteq> slash" using assms(2) last_in_set by metis
  moreover have "hd ?p = slash" unfolding p by (cases dirs) auto
  ultimately have can: "canonize_absolute ?p = canonize_absolute (path_of (dirs @ [c]))"
    using assms(2) unfolding canonize_path_of unfolding p by (simp add: canonize_absolute_def path_of_def)
  have ne: "?p \<noteq> [slash]" "path_of (dirs @ [c]) \<noteq> [slash]" using assms(2) unfolding p by (auto simp: path_of_def append_eq_Cons_conv)
  show "kseek t ?p s = kseek t (path_of (dirs @ [c])) s" using ne can by (simp add: kseek_def)
  have "kcreate_split ?p = kcreate_split (path_of (dirs @ [c]))" by (simp add: kcreate_split_def can)
  then show "kcreate t ?p ty s = kcreate t (path_of (dirs @ [c])) ty s" by (subst (1 2) kcreate.simps) simp
qed

text \<open>A lookup in the tree reads names, child lists and the root only.\<close>

definition same_tree :: "vfs \<Rightarrow> vfs \<Rightarrow> bool" where
  "same_tree s s' \<longleftrightarrow> root s' = root s \<and> Vfs.entries s' = Vfs.entries s
     \<and> (\<forall>q. map_option (\<lambda>n. (nname n, Vfs.entry n)) (nodes s' q) = map_option (\<lambda>n. (nname n, Vfs.entry n)) (nodes s q))"

lemma find_child_same_tree: "same_tree s s' \<Longrightarrow> find_child c xs s' = find_child c xs s"
proof (induction xs)
  case (Cons x xs)
  have "map_option (\<lambda>n. (nname n, Vfs.entry n)) (nodes s' x) = map_option (\<lambda>n. (nname n, Vfs.entry n)) (nodes s x)"
    using Cons.prems by (simp add: same_tree_def)
  then show ?case using Cons by (cases "nodes s' x"; cases "nodes s x") (auto simp: get_node_def)
qed simp

lemma vfs_seek_same_tree: "same_tree s s' \<Longrightarrow> vfs_seek c r s' = vfs_seek c r s"
proof -
  assume same: "same_tree s s'"
  define p where "p = (if r = 0 then root s else r)"
  have "map_option (\<lambda>n. (nname n, Vfs.entry n)) (nodes s' p) = map_option (\<lambda>n. (nname n, Vfs.entry n)) (nodes s p)"
    and "(if r = 0 then root s' else r) = p"
    and "Vfs.entries s' = Vfs.entries s"
    using same by (simp_all add: same_tree_def p_def)
  then show ?thesis using find_child_same_tree [OF same]
    by (cases "nodes s' p"; cases "nodes s p") (auto simp: vfs_seek_def p_def [symmetric] get_node_def get_entry_def)
qed

lemma tree_seek_same_tree: "same_tree s s' \<Longrightarrow> tree_seek dirs r s' = tree_seek dirs r s"
  by (induction dirs arbitrary: r) (auto simp: vfs_seek_same_tree intro!: arg_cong2 [of _ _ _ _ sbind])

lemma tree_seek_append:
  "tree_seek dirs r s = Inr q \<Longrightarrow> q \<noteq> 0 \<Longrightarrow> tree_seek (dirs @ rest) r s = tree_seek rest q s"
  by (induction dirs arbitrary: r) (auto simp: sbind_def split: sum.splits if_splits)

text \<open>A free name in a directory of the tree that belongs to no file system.\<close>

lemma kseek_free_name:
  assumes "plain_names (dirs @ [c])" "tree_seek dirs (root s) s = Inr par" "par \<noteq> 0" "vfs_seek c par s = Inr 0"
    "nodes s par = Some n" "fsid n = 0"
  shows "kseek t (path_of (dirs @ [c])) s = Inr (0, s)"
  unfolding kseek_walk [OF assms(1)] walk_append [OF walk_tree [OF assms(2,3)] assms(3)]
  using assms(3-6) by (simp add: kseek_step_def get_node_def)

text \<open>Mounting there: the new node is found under the path and is served by the file system.\<close>

lemma provide_fs_serves:
  assumes names: "plain_names (dirs @ [c])" "length c < 64" "c \<noteq> []"
    and par: "tree_seek dirs (root s) s = Inr par" "par \<noteq> 0" "vfs_seek c par s = Inr 0" "fsid n = 0"
    and n: "nodes s par = Some n" "Vfs.entries s (Vfs.entry n) = Some pe" "child_count pe \<noteq> - 1"
    and heap: "Vfs.avail s = b # p # e # a # rest" "nodes s p = None" "Vfs.entries s e = None" "p \<noteq> 0" "nodes s 0 = None"
    and room: "unat (fsidx t) < length (fss t)" "fsidx t \<noteq> - 1"
    and f: "fmount f = None \<or> fmount f = Some null_mount" and v: "v p"
  shows "\<exists>t' s'. provide_fs f (butlast (path_of (dirs @ [c]))) t s = Some (Inr (0, t', s'))
     \<and> kseek t' (butlast (path_of (dirs @ [c]))) s' = Inr (p, s') \<and> serves v t' f p s'"
proof -
  let ?s = "s\<lparr>Vfs.avail := p # e # a # rest\<rparr>" and ?t = "t\<lparr>fss := (fss t)[unat (fsidx t) := Some f], fsidx := fsidx t + 1\<rparr>"
  let ?path = "butlast (path_of (dirs @ [c]))"
  have same: "same_tree s ?s" by (simp add: same_tree_def)
  have par': "tree_seek dirs (root ?s) ?s = Inr par" "vfs_seek c par ?s = Inr 0" "nodes ?s par = Some n"
    using par tree_seek_same_tree [OF same] vfs_seek_same_tree [OF same] n(1) by simp_all
  obtain s1 where s1: "kcreate ?t (path_of (dirs @ [c])) VFS_TYPE_VIRTUAL ?s = Some (Inr (p, s1))" "grows ?s s1"
      "vfs_seek c par s1 = Inr p" "nodes s1 p = Some \<lparr>nname = c, owner = 0, nsize = 0, inode = 0, nflags = 0, open_flags = 0,
          device = 0, entry = e, fsid = 0, nioctl = 0\<rparr>"
    using kcreate_seeks [OF names(1,2) par'(1) par(2) par'(2,3), of pe p e a rest ?t] n heap by auto
  define x where "x = \<lparr>nname = c, owner = 0, nsize = 0, inode = 0, nflags = vfs_set_flag 0 VFS_MOUNTPOINT, open_flags = 0,
          device = 0, entry = e, fsid = fsidx t, nioctl = 0\<rparr>"
  let ?s2 = "set_node p x s1"
  have fs: "get_fs ?t (fsidx t) = Inr f" using room(1) by (simp add: get_fs_def)
  have "fsidx t < fsidx t + 1" using room(2) by (meson inc_less_eq_triv_imp linorder_not_le)
  moreover have "kmount_at ?t p [] (fsidx t) f s1 = Inr (p, ?s2)"
    using f s1(4) by (auto simp: kmount_at_def get_node_def x_def null_mount_def)
  ultimately have "kmount ?t ?path [] (fsidx t) ?s = Some (Inr (p, ?s2))"
    using fs s1(1) heap(4) unfolding kmount_def path_of_open [OF names(1,3)] kseek_free_name [OF names(1) par'(1) par(2) par'(2,3) par(4), of ?t]
    by (simp add: linorder_not_le [symmetric])
  then have run: "provide_fs f ?path t s = Some (Inr (0, ?t, ?s2))"
    using heap(1) room(1) by (simp add: provide_fs_def Vfs.kalloc_def register_fs_def)
  have same2: "same_tree s1 ?s2" using s1(4) by (simp add: same_tree_def x_def)
  have "root s1 = root ?s" using s1(2) by (simp add: grows_def)
  then have "tree_seek (dirs @ [c]) (root ?s2) ?s2 = Inr p"
    using tree_seek_append [OF tree_seek_grows [OF s1(2) par'(1) par(2)] par(2), of "[c]"] s1(3) heap(4) tree_seek_same_tree [OF same2]
    by simp
  then have "kseek ?t ?path ?s2 = Inr (p, ?s2)"
    unfolding path_of_open [OF names(1,3)] kseek_walk [OF names(1)] using walk_tree heap(4) by blast
  moreover have "serves v ?t f p ?s2"
    using v fs by (simp add: serves_def x_def vfs_check_flag_def vfs_set_flag_def)
  ultimately show ?thesis using run by blast
qed

text \<open>The null device, from loading the module to its use. If the directory \<open>/dev\<close> is in the tree, has no file
  \<open>null\<close> yet and belongs to no file system, loading the module makes the path \<open>/dev/null\<close> lead to a node on which
  a write of any bytes reports them all written and changes nothing, and a read fills exactly the requested
  bytes of the buffer with zeros and leaves every other byte of memory.\<close>

theorem null_load_provides_device:
  assumes par: "tree_seek [[100, 101, 118]] (root s) s = Inr par" "par \<noteq> 0" "vfs_seek [110, 117, 108, 108] par s = Inr 0" "fsid n = 0"
    and n: "nodes s par = Some n" "Vfs.entries s (Vfs.entry n) = Some pe" "child_count pe \<noteq> - 1"
    and heap: "Vfs.avail s = b # p # e # a # rest" "nodes s p = None" "Vfs.entries s e = None" "p \<noteq> 0" "nodes s 0 = None"
    and room: "unat (fsidx t) < length (fss t)" "fsidx t \<noteq> - 1" and v: "v p" and buf: "no_wrap buffer (unat sz)"
  shows "\<exists>t' s' s''. null_load t s = Some (Inr (0, t', s')) \<and> kseek t' dev_null s' = Inr (p, s')
     \<and> kwrite v t' p offs m src s' = Inr (m, s')
     \<and> kread v t' p offs sz buffer s' = Inr (sz, s'')
     \<and> mem s'' = (\<lambda>a. if unat buffer \<le> unat a \<and> unat a < unat buffer + unat sz then 0 else mem s' a)"
proof -
  have names: "plain_names ([[100, 101, 118]] @ [[110, 117, 108, 108]])" by (simp add: plain_names_def)
  have path: "butlast (path_of ([[100, 101, 118]] @ [[110, 117, 108, 108]])) = dev_null" by (simp add: dev_null_def)
  have short: "length [110, 117, 108, 108 :: u8] < 64" "[110, 117, 108, 108 :: u8] \<noteq> []"
    and mnt: "fmount null_fs = None \<or> fmount null_fs = Some null_mount" by (simp_all add: null_fs_def)
  obtain t' s' where l: "null_load t s = Some (Inr (0, t', s'))" "kseek t' dev_null s' = Inr (p, s')" "serves v t' null_fs p s'"
    using provide_fs_serves [where v = v and f = null_fs and dirs = "[[100, 101, 118]]" and c = "[110, 117, 108, 108]" , OF names short par n heap room mnt v, unfolded path]
    by (auto simp: null_load_def)
  then show ?thesis using null_device_reads_zeros [OF l(3) buf] by blast
qed

definition vfs_dev :: vfs where
  "vfs_dev = \<lparr>nodes = [100 \<mapsto> node_at [91] 200, 300 \<mapsto> node_at [100, 101, 118] 400],
     entries = [200 \<mapsto> \<lparr>child_count = 1, childs = (\<lambda>_. 300), parent = 0\<rparr>,
                400 \<mapsto> \<lparr>child_count = 0, childs = (\<lambda>_. 0), parent = 100\<rparr>],
     root = 100, avail = [900, 500, 600, 700], mem = (\<lambda>_. 7)\<rparr>"

lemma null_load_provides_device_witness:
  "\<exists>t' s' s''. null_load (fstab_example\<lparr>fss := fss fstab_example @ [None]\<rparr>) vfs_dev = Some (Inr (0, t', s')) \<and> kseek t' dev_null s' = Inr (500, s')
     \<and> kread (\<lambda>p. p \<noteq> 0) t' 500 0 2 4096 s' = Inr (2, s'') \<and> mem s'' 4097 = 0 \<and> mem s'' 4098 = mem s' 4098"
proof -
  have x: "tree_seek [[100, 101, 118]] (root vfs_dev) vfs_dev = Inr 300" "vfs_seek [110, 117, 108, 108] 300 vfs_dev = Inr 0"
    "nodes vfs_dev 300 = Some (node_at [100, 101, 118] 400)"
    "Vfs.entries vfs_dev (Vfs.entry (node_at [100, 101, 118] 400)) = Some \<lparr>child_count = 0, childs = (\<lambda>_. 0), parent = 100\<rparr>"
    "Vfs.avail vfs_dev = [900, 500, 600, 700]" "nodes vfs_dev 500 = None" "Vfs.entries vfs_dev 600 = None" "nodes vfs_dev 0 = None"
    "fsid (node_at [100, 101, 118] 400) = 0"
    by (simp_all add: vfs_dev_def node_at_def vfs_seek_def get_node_def get_entry_def child_list_def)
  let ?t = "fstab_example\<lparr>fss := fss fstab_example @ [None]\<rparr>"
  have t: "unat (fsidx ?t) < length (fss ?t)" "fsidx ?t \<noteq> - 1" by (simp_all add: fstab_example_def)
  have nw: "no_wrap 4096 (unat (2 :: u32))" by (simp add: no_wrap_def)
  show ?thesis
    using null_load_provides_device [OF x(1) _ x(2,9,3,4) _ x(5-7) _ x(8) t _ nw, of "\<lambda>p. p \<noteq> 0" 0 0 0] by (force simp: fun_eq_iff)
qed

subsection \<open>The bytes of the random device\<close>

definition word_be :: "u32 \<Rightarrow> u8 list" where
  "word_be n = [ucast (drop_bit 24 n), ucast (drop_bit 16 n), ucast (drop_bit 8 n), ucast n]"

text \<open>The local array after the first \<open>i\<close> rounds, if the numbers are taken from \<open>hw\<close> at \<open>d\<close>: all rounds but
  every fourth take one.\<close>

definition rand_array :: "(nat \<Rightarrow> u32) \<Rightarrow> nat \<Rightarrow> u8 list \<Rightarrow> nat \<Rightarrow> u8 list" where
  "rand_array hw d uninit i = (if i \<le> 1 then uninit else word_be (hw (d + (i - (i + 3) div 4) - 1)))"

lemma rounds_drawing:
  fixes i :: nat
  shows "Suc i - (Suc i + 3) div 4 = (if i mod 4 = 0 then i - (i + 3) div 4 else Suc (i - (i + 3) div 4))" "(i + 3) div 4 \<le> i"
  "Suc i - (Suc i + 3) div 4 = i - i div 4"
proof -
  define q b where "q = i div 4" and "b = i mod 4"
  have i: "i = 4 * q + b" "b < 4" by (simp_all add: q_def b_def)
  have "(4 * q + (b + 3)) div 4 = q + (b + 3) div 4" "(4 * q + (b + 4)) div 4 = q + (b + 4) div 4" by simp_all
  moreover have "i + 3 = 4 * q + (b + 3)" "Suc i + 3 = 4 * q + (b + 4)" by (simp_all add: i(1))
  ultimately have d: "(i + 3) div 4 = q + (b + 3) div 4" "(Suc i + 3) div 4 = q + 1"
    using i(2) by simp_all
  have c: "(b + 3) div 4 = (if b = 0 then 0 else 1)"
  proof -
    have "b = 0 \<or> b = 1 \<or> b = 2 \<or> b = 3" using i(2) by linarith
    then show ?thesis by (elim disjE) simp_all
  qed
  show "Suc i - (Suc i + 3) div 4 = (if i mod 4 = 0 then i - (i + 3) div 4 else Suc (i - (i + 3) div 4))" 
     unfolding d c b_def [symmetric] using i by auto
  show "(i + 3) div 4 \<le> i"
     unfolding d c using i by auto
  show  "Suc i - (Suc i + 3) div 4 = i - i div 4"
    unfolding d q_def [symmetric] using i by auto
qed

lemma rand_loop_fills:
  assumes "truerand r \<noteq> 0" "drawn r = d + (i - (i + 3) div 4)" "no_wrap buffer (i + k)"
  shows "\<exists>r' m'. rand_loop hw buffer i k (rand_array hw d uninit i) (r, m) = (r', m')
     \<and> (\<forall>j. i \<le> j \<and> j < i + k \<longrightarrow> m' (buffer + of_nat j) = rand_array hw d uninit (Suc j) ! (j mod 4))
     \<and> (\<forall>a. (\<forall>j. i \<le> j \<and> j < i + k \<longrightarrow> a \<noteq> buffer + of_nat j) \<longrightarrow> m' a = m a)"
  using assms
proof (induction k arbitrary: i r m)
  case (Suc k)
  let ?bs = "rand_array hw d uninit (Suc i)" and ?r = "if i mod 4 \<noteq> 0 then r\<lparr>drawn := Suc (drawn r)\<rparr> else r"
  let ?m = "m(buffer + of_nat i := ?bs ! (i mod 4))"
  note num = rounds_drawing(1) [of i]
  have step: "(if i mod 4 \<noteq> 0 then draw_bytes hw r else (rand_array hw d uninit i, r)) = (?bs, ?r)"
  proof (cases "i mod 4 = 0")
    case True
    then have "i \<noteq> 1" by auto
    then show ?thesis using True num by (auto simp: rand_array_def le_Suc_eq)
  next
    case False
    then have "i \<ge> 1" by (cases i) auto
    then show ?thesis using False num Suc.prems(1,2) by (simp add: rand_array_def draw_bytes_def get_random_def word_be_def)
  qed
  note rounds_drawing(2) [of i]
  then have "drawn ?r = d + (Suc i - (Suc i + 3) div 4)" using Suc.prems(2) num by simp
  moreover have "truerand ?r \<noteq> 0" "no_wrap buffer (Suc i + k)" using Suc.prems(1,3) by simp_all
  ultimately obtain r' m' where ih: "rand_loop hw buffer (Suc i) k ?bs (?r, ?m) = (r', m')"
      "\<forall>j. Suc i \<le> j \<and> j < Suc i + k \<longrightarrow> m' (buffer + of_nat j) = rand_array hw d uninit (Suc j) ! (j mod 4)"
      "\<forall>a. (\<forall>j. Suc i \<le> j \<and> j < Suc i + k \<longrightarrow> a \<noteq> buffer + of_nat j) \<longrightarrow> m' a = ?m a"
    using Suc.IH [of ?r "Suc i" ?m] by blast
  have own: "m' (buffer + of_nat i) = ?bs ! (i mod 4)"
    using ih(3) no_wrap_neq [OF Suc.prems(3), of i] by (auto simp: Suc_le_eq)
  have "m' a = m a" if "\<forall>j. i \<le> j \<and> j < i + Suc k \<longrightarrow> a \<noteq> buffer + of_nat j" for a
    using ih(3) that by auto
  moreover have "rand_loop hw buffer i (Suc k) (rand_array hw d uninit i) (r, m) = (r', m')"
    using ih(1) by (simp only: rand_loop.simps step prod.case Let_def)
  ultimately show ?case using ih(2) own by (metis Suc_le_eq add_Suc_shift le_neq_implies_less)
qed auto

text \<open>The bytes of the random device. With the random numbers of the processor, the first byte of a read is
  whatever the stack held; every other byte that is not at a multiple of four is from a number drawn for it
  alone, and a byte at a multiple of four is the top byte of the number its predecessor was drawn from. Nothing
  but the requested bytes is written.\<close>

theorem rand_read_bytes:
  assumes "truerand r \<noteq> 0" "no_wrap buffer (unat sz)"
  shows "\<exists>r' s'. rand_read hw uninit sz buffer (r, s) = (sz, r', s')
     \<and> (\<forall>j < unat sz. mem s' (buffer + of_nat j) = (if j = 0 then uninit ! 0
          else word_be (hw (drawn r + (j - j div 4) - 1)) ! (j mod 4)))
     \<and> (\<forall>a. (\<forall>j < unat sz. a \<noteq> buffer + of_nat j) \<longrightarrow> mem s' a = mem s a)"
proof -
  have idx: "(if j = 0 then uninit ! 0 else word_be (hw (drawn r + (j - j div 4) - 1)) ! (j mod 4))
      = rand_array hw (drawn r) uninit (Suc j) ! (j mod 4)" for j
    using rounds_drawing(3) [of j] by (cases "j = 0") (simp_all add: rand_array_def)
  have "rand_array hw (drawn r) uninit 0 = uninit" by (simp add: rand_array_def)
  then show ?thesis using rand_loop_fills [of r "drawn r" 0 buffer "unat sz" hw uninit "mem s"] assms
    unfolding idx by (fastforce simp: rand_read_def)
qed

lemma rand_read_bytes_witness:
  "\<exists>r' s'. rand_read (\<lambda>i. 0x01020304 + of_nat i) [99, 0, 0, 0] 5 4096 (\<lparr>rnext = 0, truerand = 1, drawn = 0\<rparr>, vfs_dev) = (5, r', s')
     \<and> mem s' 4096 = 99 \<and> mem s' 4097 = 2 \<and> mem s' 4099 = 6 \<and> mem s' 4100 = 1"
proof -
  have nw: "no_wrap 4096 (unat (5 :: u32))" by (simp add: no_wrap_def)
  obtain r' s' where x: "rand_read (\<lambda>i. 0x01020304 + of_nat i) [99, 0, 0, 0] 5 4096 (\<lparr>rnext = 0, truerand = 1, drawn = 0\<rparr>, vfs_dev) = (5, r', s')"
    "\<forall>j < unat (5 :: u32). mem s' (4096 + of_nat j) = (if j = 0 then [99, 0, 0, 0] ! 0
       else word_be (0x01020304 + of_nat (0 + (j - j div 4) - 1)) ! (j mod 4))"
    using rand_read_bytes [of "\<lparr>rnext = 0, truerand = 1, drawn = 0\<rparr>" 4096 5 "\<lambda>i. 0x01020304 + of_nat i" "[99, 0, 0, 0]" vfs_dev] nw by auto
  have "mem s' 4096 = 99" "mem s' 4097 = 2" "mem s' 4099 = 6" "mem s' 4100 = 1"
    using x(2) [rule_format, of 0] x(2) [rule_format, of 1] x(2) [rule_format, of 3] x(2) [rule_format, of 4]
    by (simp_all add: word_be_def drop_bit_eq_div)
  then show ?thesis using x(1) by blast
qed

end
