(* ===== verification/Canvas.thy ===== *)
theory Canvas
  imports Fb
begin

text \<open>
  Canvases 1024 pixels wide, as the window system draws them with \<open>libs/fb/fb.c\<close> (theory Fb): what single
  pixels, blocks, filled rectangles and copied words leave at each pixel.
\<close>

subsection \<open>Pixels of the canvas\<close>

definition pix :: "u32 \<Rightarrow> fbuf \<Rightarrow> int \<Rightarrow> int \<Rightarrow> u32" where
  "pix c f x y = vmem f (c + word_of_int (y * 1024 + x) * 4)"

text \<open>The canvas and the rows behind it that scrolling reads do not wrap around the address space.\<close>

definition canvas_ok :: "u32 \<Rightarrow> bool" where
  "canvas_ok c \<longleftrightarrow> c \<noteq> 0 \<and> unat c + 4 * (1024 * 788) < 4294967296"

definition inside :: "int \<Rightarrow> int \<Rightarrow> bool" where
  "inside x y \<longleftrightarrow> 0 \<le> x \<and> x < 1024 \<and> 0 \<le> y \<and> y < 788"

lemma canvas_addr:
  assumes "canvas_ok c" "k < 1024 * 788"
  shows "unat (c + of_nat k * 4) = unat c + 4 * k"
proof -
  have u: "unat (of_nat (4 * k) :: u32) = 4 * k" using assms(2) by (intro unat_of_nat_u32) simp
  then have "unat (c + of_nat (4 * k)) = unat c + 4 * k"
    using assms unat_plus_u32 [of c "of_nat (4 * k)"] by (simp add: canvas_ok_def del: of_nat_mult)
  then show ?thesis by (simp add: mult.commute)
qed

lemma canvas_pos:
  assumes "inside x y"
  obtains k where "word_of_int (y * 1024 + x) = (of_nat k :: u32)" "k < 1024 * 788" "int k = y * 1024 + x"
proof -
  have "0 \<le> y * 1024 + x" "y * 1024 + x < 1024 * 788" using assms unfolding inside_def by linarith+
  then have "int (nat (y * 1024 + x)) = y * 1024 + x" "nat (y * 1024 + x) < 1024 * 788" by simp_all
  then show thesis using that [of "nat (y * 1024 + x)"] by (metis of_int_of_nat_eq)
qed

lemma canvas_inj:
  assumes "canvas_ok c" "inside x y" "inside x' y'"
  shows "c + word_of_int (y * 1024 + x) * 4 = c + word_of_int (y' * 1024 + x') * 4 \<longleftrightarrow> x = x' \<and> y = y'"
proof -
  obtain k where k: "word_of_int (y * 1024 + x) = (of_nat k :: u32)" "k < 1024 * 788" "int k = y * 1024 + x"
    using canvas_pos [OF assms(2)] .
  obtain l where l: "word_of_int (y' * 1024 + x') = (of_nat l :: u32)" "l < 1024 * 788" "int l = y' * 1024 + x'"
    using canvas_pos [OF assms(3)] .
  have "c + of_nat k * 4 = c + of_nat l * 4 \<longleftrightarrow> k = l"
    using canvas_addr [OF assms(1) k(2)] canvas_addr [OF assms(1) l(2)] by (metis add_left_cancel mult_cancel1 zero_neq_numeral)
  also have "\<dots> \<longleftrightarrow> y * 1024 + x = y' * 1024 + x'" using k(3) l(3) by linarith
  also have "\<dots> \<longleftrightarrow> x = x' \<and> y = y'"
    using assms(2,3) unfolding inside_def by (cases y y' rule: linorder_cases) linarith+
  finally show ?thesis by (simp only: k(1) l(1))
qed

lemma fb_pixel_pix:
  assumes "canvas_ok c" "x_opt_res f = 1024" "inside x y" "inside x' y'"
  shows "pix c (fb_pixel x y col c f) x' y' = (if x' = x \<and> y' = y then col else pix c f x' y')"
  using assms canvas_inj [OF assms(1,4,3)] by (auto simp: fb_pixel_def pix_def canvas_ok_def Let_def)

lemma fb_pixel_opt_res [simp]: "x_opt_res (fb_pixel x y col c f) = x_opt_res f"
  by (simp add: fb_pixel_def Let_def)

lemma row_opt_res [simp]: "x_opt_res (fold (\<lambda>j. fb_pixel (x + int j) y (g j) c) ns f) = x_opt_res f"
  by (induction ns arbitrary: f) simp_all

lemma row_pix:
  assumes "canvas_ok c" "x_opt_res f = 1024" "0 \<le> x" "x + int n \<le> 1024" "0 \<le> y" "y < 788" "inside x' y'"
  shows "pix c (fold (\<lambda>j. fb_pixel (x + int j) y (g j) c) [0..<n] f) x' y'
    = (if y' = y \<and> x \<le> x' \<and> x' < x + int n then g (nat (x' - x)) else pix c f x' y')"
  using assms
proof (induction n)
  case (Suc n)
  let ?f = "fold (\<lambda>j. fb_pixel (x + int j) y (g j) c) [0..<n] f"
  have "inside (x + int n) y" using Suc.prems by (simp add: inside_def)
  then have "pix c (fb_pixel (x + int n) y (g n) c ?f) x' y' = (if x' = x + int n \<and> y' = y then g n else pix c ?f x' y')"
    using Suc.prems by (intro fb_pixel_pix) simp_all
  then show ?case using Suc by auto
qed auto

lemma block_pix:
  assumes "canvas_ok c" "x_opt_res f = 1024" "0 \<le> x" "x + int n \<le> 1024" "0 \<le> y" "y + int m \<le> 788" "inside x' y'"
  shows "pix c (fold (\<lambda>i. fold (\<lambda>j. fb_pixel (x + int j) (y + int i) (g i j) c) [0..<n]) [0..<m] f) x' y'
    = (if y \<le> y' \<and> y' < y + int m \<and> x \<le> x' \<and> x' < x + int n then g (nat (y' - y)) (nat (x' - x)) else pix c f x' y')
    \<and> x_opt_res (fold (\<lambda>i. fold (\<lambda>j. fb_pixel (x + int j) (y + int i) (g i j) c) [0..<n]) [0..<m] f) = x_opt_res f"
  using assms
proof (induction m)
  case (Suc m)
  let ?f = "fold (\<lambda>i. fold (\<lambda>j. fb_pixel (x + int j) (y + int i) (g i j) c) [0..<n]) [0..<m] f"
  have "pix c (fold (\<lambda>j. fb_pixel (x + int j) (y + int m) (g m j) c) [0..<n] ?f) x' y'
      = (if y' = y + int m \<and> x \<le> x' \<and> x' < x + int n then g m (nat (x' - x)) else pix c ?f x' y')"
    using Suc by (intro row_pix) simp_all
  then show ?case using Suc by auto
qed auto

text \<open>Copying words upwards to a lower address, and filling.\<close>

lemma memcpy_opt_other: "(\<And>k. k < n \<Longrightarrow> a \<noteq> dest + of_nat k * 4) \<Longrightarrow> memcpy_opt dest src n m a = m a"
proof (induction n arbitrary: dest src m)
  case (Suc n)
  have "a \<noteq> dest" using Suc.prems [of 0] by simp
  moreover have "a \<noteq> dest + 4 + of_nat k * 4" if "k < n" for k using Suc.prems [of "Suc k"] that by (simp add: algebra_simps)
  ultimately show ?case using Suc.IH by simp
qed simp

lemma memcpy_opt_at:
  assumes "unat src + 4 * n < 4294967296" "unat dest < unat src" "k < n"
  shows "memcpy_opt dest src n m (dest + of_nat k * 4) = m (src + of_nat k * 4)"
  using assms
proof (induction n arbitrary: dest src m k)
  case (Suc n)
  have u: "unat (src + 4) = unat src + 4" "unat (dest + 4) = unat dest + 4"
    using Suc.prems(1,2) unat_plus_u32 [of src 4] unat_plus_u32 [of dest 4] by simp_all
  have fw: "unat (p + of_nat (4 * j)) = unat p + 4 * j" if "unat p \<le> unat src" "j \<le> n" for p :: u32 and j
    using Suc.prems(1) that unat_of_nat_u32 [of "4 * j"] unat_plus_u32 [of p "of_nat (4 * j)"] by (simp del: of_nat_mult)
  show ?case
  proof (cases k)
    case 0
    have "dest \<noteq> dest + 4 + of_nat j * 4" if "j < n" for j
    proof -
      have "unat (dest + of_nat (4 * Suc j)) = unat dest + 4 * Suc j" using Suc.prems(2) that by (intro fw) simp_all
      then show ?thesis by (auto simp: algebra_simps)
    qed
    then show ?thesis using 0 by (simp add: memcpy_opt_other)
  next
    case (Suc j)
    have "unat (src + of_nat (4 * k)) = unat src + 4 * k" using Suc.prems(3) by (intro fw) simp_all
    then have "src + of_nat (4 * k) \<noteq> dest" using Suc.prems(2) by auto
    moreover have "memcpy_opt (dest + 4) (src + 4) n (m(dest := m src)) (dest + 4 + of_nat j * 4) = (m(dest := m src)) (src + 4 + of_nat j * 4)"
      using Suc.prems Suc u by (intro Suc.IH) simp_all
    ultimately show ?thesis using Suc by (simp add: algebra_simps)
  qed
qed simp

lemma memset_opt_at:
  "memset_opt dest v n m a = (if \<exists>k < n. a = dest + of_nat k * 4 then v else m a)"
proof (induction n arbitrary: dest m)
  case (Suc n)
  have "(\<exists>k < Suc n. a = dest + of_nat k * 4) \<longleftrightarrow> a = dest \<or> (\<exists>k < n. a = dest + 4 + of_nat k * 4)"
    by (simp add: Ex_less_Suc2 algebra_simps)
  then show ?case unfolding memset_opt.simps Suc.IH by (cases "a = dest") (simp_all only: fun_upd_apply simp_thms if_True if_False if_cancel)
qed simp

lemma memset_row_pix:
  assumes "canvas_ok c" "0 \<le> x" "x + int n \<le> 1024" "0 \<le> y" "y < 788" "inside x' y'"
  shows "pix c (f\<lparr>vmem := memset_opt (c + word_of_int (1024 * y + x) * 4) col n (vmem f)\<rparr>) x' y'
    = (if y' = y \<and> x \<le> x' \<and> x' < x + int n then col else pix c f x' y')"
proof -
  have "c + word_of_int (1024 * y + x) * 4 + of_nat k * 4 = c + word_of_int (y * 1024 + (x + int k)) * 4" for k
    by (simp add: algebra_simps)
  moreover have "c + word_of_int (y' * 1024 + x') * 4 = c + word_of_int (y * 1024 + (x + int k)) * 4 \<longleftrightarrow> x' = x + int k \<and> y' = y"
    if "k < n" for k
    using assms that by (intro canvas_inj) (simp_all add: inside_def)
  ultimately have "(\<exists>k < n. c + word_of_int (y' * 1024 + x') * 4 = c + word_of_int (1024 * y + x) * 4 + of_nat k * 4)
      \<longleftrightarrow> (\<exists>k < n. x' = x + int k \<and> y' = y)" by metis
  also have "\<dots> \<longleftrightarrow> y' = y \<and> x \<le> x' \<and> x' < x + int n"
  proof
    assume "y' = y \<and> x \<le> x' \<and> x' < x + int n"
    then show "\<exists>k < n. x' = x + int k \<and> y' = y" by (intro exI [of _ "nat (x' - x)"]) auto
  qed auto
  finally show ?thesis by (simp add: pix_def memset_opt_at)
qed

lemma fb_rect_pix:
  assumes "canvas_ok c" "x_opt_res f = 1024" "0 \<le> x" "x + int n \<le> 1024" "0 \<le> y" "y + int m \<le> 788" "inside x' y'"
  shows "pix c (fb_rect x y (int n) (int m) col 1 c f) x' y'
    = (if y \<le> y' \<and> y' < y + int m \<and> x \<le> x' \<and> x' < x + int n then col else pix c f x' y')
    \<and> x_opt_res (fb_rect x y (int n) (int m) col 1 c f) = x_opt_res f"
  using assms
proof (induction m)
  case 0
  then show ?case by (auto simp: fb_rect_def)
next
  case (Suc m)
  let ?f = "fb_rect x y (int n) (int m) col 1 c f"
  have c: "c \<noteq> 0" "unat (of_nat n :: u32) = n" using Suc.prems(1,3,4) by (simp_all add: canvas_ok_def unat_of_nat_u32)
  have "fb_rect x y (int n) (int (Suc m)) col 1 c f
      = ?f\<lparr>vmem := memset_opt (c + word_of_int (w16 (x_opt_res ?f) * (y + int m) + x) * 4) col n (vmem ?f)\<rparr>"
    using c by (simp add: fb_rect_def Let_def nat_add_distrib del: of_int_add of_int_mult)
  moreover have "w16 (x_opt_res ?f) = 1024" using Suc by simp
  ultimately have r: "fb_rect x y (int n) (int (Suc m)) col 1 c f = ?f\<lparr>vmem := memset_opt (c + word_of_int (1024 * (y + int m) + x) * 4) col n (vmem ?f)\<rparr>"
    by simp
  have "pix c (fb_rect x y (int n) (int (Suc m)) col 1 c f) x' y'
      = (if y' = y + int m \<and> x \<le> x' \<and> x' < x + int n then col else pix c ?f x' y')"
    unfolding r using Suc.prems by (intro memset_row_pix) simp_all
  then show ?case using Suc r by auto
qed

lemma scroll_copy_pix:
  assumes "canvas_ok c" "inside x' y'" "y' < 768"
  shows "pix c (f\<lparr>vmem := memcpy_opt c (c + word_of_int (1024 * 20) * 4) (1024 * 768) (vmem f)\<rparr>) x' y' = pix c f x' (y' + 20)"
proof -
  obtain k where k: "word_of_int (y' * 1024 + x') = (of_nat k :: u32)" "k < 1024 * 788" "int k = y' * 1024 + x'"
    using canvas_pos [OF assms(2)] .
  have "k < 1024 * 768" using k(3) assms(2,3) unfolding inside_def by linarith
  moreover have u: "unat (c + of_nat 20480 * 4) = unat c + 81920" using canvas_addr [OF assms(1), of 20480] by simp
  ultimately have "memcpy_opt c (c + of_nat 20480 * 4) (1024 * 768) (vmem f) (c + of_nat k * 4) = vmem f (c + of_nat 20480 * 4 + of_nat k * 4)"
    using assms(1) by (intro memcpy_opt_at) (simp_all only: u, simp_all add: canvas_ok_def)
  moreover have "c + word_of_int ((y' + 20) * 1024 + x') * 4 = c + of_nat 20480 * 4 + of_nat k * 4"
    unfolding k(1) [symmetric] by (simp add: algebra_simps)
  moreover have "c + word_of_int (1024 * 20) * 4 = c + of_nat 20480 * 4" by simp
  moreover have "vmem (f\<lparr>vmem := m\<rparr>) = m" for m by simp
  ultimately show ?thesis unfolding pix_def k(1) by (simp only:)
qed

end
