(* ===== verification/Terminal.thy ===== *)
theory Terminal
  imports Canvas
begin

text \<open>
  The terminal emulator, \<open>os/usr/terminal/main.cpp\<close>, over the framebuffer library (theory Fb): text is drawn into
  a canvas of 1024 by 768 pixels in shared memory, in cells of 9 by 20, and what is typed is collected in a
  line buffer until it is sent to the shell. What the shell's standard input has taken is kept, one entry for each
  line; it is a pipe of 256 bytes, and the argument \<open>room\<close> tells how many bytes it has room for at the n-th
  line, since \<open>fwrite\<close> writes no more and its result is not looked at. What is read from the shell is an argument.
\<close>

subsection \<open>State\<close>

abbreviation XRES :: int where "XRES \<equiv> 1024"
abbreviation YRES :: int where "YRES \<equiv> 768"
abbreviation CELL_SZ_X :: int where "CELL_SZ_X \<equiv> 9"
abbreviation CELL_SZ_Y :: int where "CELL_SZ_Y \<equiv> 20"

definition X_CELL_RES :: int where "X_CELL_RES = XRES div CELL_SZ_X"
definition Y_CELL_RES :: int where "Y_CELL_RES = YRES div CELL_SZ_Y"

record terminal =
  tx :: u16
  ty :: u16
  term_col_bg :: u32
  term_col_fg :: u32
  input_buffer :: "u8 list"
  input_size :: u32
  second_out :: bool
  to_shell :: "u8 list list"
  canvas :: u32
  screen_fb :: fbuf

definition on_fb :: "(fbuf \<Rightarrow> fbuf) \<Rightarrow> terminal \<Rightarrow> terminal" where
  "on_fb f s = s\<lparr>screen_fb := f (screen_fb s)\<rparr>"

subsection \<open>Output\<close>

text \<open>\<open>memmove\<close> to a lower address copies upwards, here word by word.\<close>

definition term_scroll :: "terminal \<Rightarrow> terminal" where
  "term_scroll s =
     (let plain = canvas s;
          s = on_fb (\<lambda>f. f\<lparr>vmem := memcpy_opt plain (plain + word_of_int (XRES * CELL_SZ_Y) * 4) (nat (XRES * YRES)) (vmem f)\<rparr>) s
      in on_fb (fb_rect 0 (CELL_SZ_Y * (Y_CELL_RES - 1)) XRES CELL_SZ_Y (term_col_bg s) 1 plain) s)"

definition term_line_feed :: "terminal \<Rightarrow> terminal" where
  "term_line_feed s = (if w16 (ty s) \<ge> Y_CELL_RES then term_scroll (s\<lparr>ty := ty s - 1\<rparr>) else s)"

definition draw_cell :: "(nat \<Rightarrow> u8) \<Rightarrow> u8 \<Rightarrow> terminal \<Rightarrow> terminal" where
  "draw_cell font c s =
     on_fb (\<lambda>f. fb_char font c (w16 (tx s) * CELL_SZ_X) (w16 (ty s) * CELL_SZ_Y) (term_col_fg s) (term_col_bg s) (canvas s)
       (fb_optbuff_size XRES YRES f)) s"

definition term_putchar :: "(nat \<Rightarrow> u8) \<Rightarrow> u8 \<Rightarrow> terminal \<Rightarrow> terminal" where
  "term_putchar font c s =
     (if c = 10 then term_line_feed (s\<lparr>tx := 0, ty := ty s + 1\<rparr>)
      else
        let s = draw_cell font c s; s = s\<lparr>tx := tx s + 1\<rparr>;
            s = (if w16 (tx s) \<ge> X_CELL_RES then s\<lparr>tx := 0, ty := ty s + 1\<rparr> else s)
        in term_line_feed s)"

subsection \<open>Input\<close>

definition term_handle_input :: "(nat \<Rightarrow> nat) \<Rightarrow> (nat \<Rightarrow> u8) \<Rightarrow> u8 \<Rightarrow> terminal \<Rightarrow> terminal res" where
  "term_handle_input room font c s =
     (if c = 8 \<and> input_size s \<noteq> 0 then
        sbind (store_at (input_buffer s) (unat (input_size s - 1)) 0) (\<lambda>buf.
          let s = s\<lparr>input_size := input_size s - 1, input_buffer := buf\<rparr>;
              s = (if tx s = 0 \<and> ty s \<noteq> 0 then s\<lparr>tx := word_of_int (X_CELL_RES - 1), ty := ty s - 1\<rparr> else s\<lparr>tx := tx s - 1\<rparr>)
          in Inr (draw_cell font 0 s))
      else
        let s = term_putchar font c s in
        sbind (store_at (input_buffer s) (unat (input_size s)) c) (\<lambda>buf.
          let s = s\<lparr>input_buffer := buf, input_size := input_size s + 1\<rparr> in
          if c = 10 \<and> second_out s then
            let n = unat (input_size s) in
            Inr (s\<lparr>to_shell := to_shell s @ [take (room (length (to_shell s))) (take n buf)], input_buffer := replicate n 0 @ drop n buf, input_size := 0\<rparr>)
          else Inr s))"

subsection \<open>Start, main loop and signal handler\<close>

text \<open>\<open>shell_exec\<close> is the result of \<open>execv\<close>; the streams of the shell are opened until that succeeds.\<close>

definition term_init :: "u32 \<Rightarrow> terminal \<Rightarrow> u8 \<times> terminal" where
  "term_init shell_exec s =
     (let s = on_fb (fb_optbuff_size XRES YRES) s;
          s = s\<lparr>term_col_bg := fb_rgb2linear 0 0 0x8B, term_col_fg := fb_rgb2linear 255 255 255\<rparr>;
          s = on_fb (fb_rect 0 0 XRES YRES (term_col_bg s) 1 (canvas s)) s;
          s = s\<lparr>tx := 0, ty := 0\<rparr>
      in if shell_exec \<noteq> 0 then (0, s\<lparr>second_out := True\<rparr>) else (1, s))"

fun term_inputs :: "(nat \<Rightarrow> nat) \<Rightarrow> (nat \<Rightarrow> u8) \<Rightarrow> u8 list \<Rightarrow> terminal \<Rightarrow> terminal res" where
  "term_inputs room font [] s = Inr s"
| "term_inputs room font (c # cs) s = sbind (term_handle_input room font c s) (term_inputs room font cs)"

definition term_round :: "(nat \<Rightarrow> nat) \<Rightarrow> (nat \<Rightarrow> u8) \<Rightarrow> u8 list \<Rightarrow> u8 list \<Rightarrow> terminal \<Rightarrow> terminal res" where
  "term_round room font typed shown s = sbind (term_inputs room font typed s) (\<lambda>s. Inr (fold (term_putchar font) shown s))"

text \<open>The last output of the shell is read into the line buffer and printed up to the first zero; then the
  terminal ends.\<close>

definition term_sig_child :: "(nat \<Rightarrow> u8) \<Rightarrow> u8 list \<Rightarrow> terminal \<Rightarrow> terminal" where
  "term_sig_child font reply s =
     (let s = s\<lparr>second_out := False, input_buffer := reply @ drop (length reply) (input_buffer s)\<rparr> in
      if reply = [] then s
      else fold (term_putchar font) (takeWhile (\<lambda>c. c \<noteq> 0) (take 256 (input_buffer s))) s)"

subsection \<open>The terminal as a grid of characters\<close>

text \<open>What the user sees: for each cell the character in it, \<open>None\<close> for one that is blank, and the cursor.\<close>

record grid_term =
  cells :: "nat \<Rightarrow> nat \<Rightarrow> u8 option"
  col :: nat
  row :: nat

definition grid_feed :: "grid_term \<Rightarrow> grid_term" where
  "grid_feed g = (if row g < 38 then g
     else g\<lparr>cells := (\<lambda>x y. if y = 37 then None else cells g x (y + 1)), row := 37\<rparr>)"

definition grid_set :: "u8 \<Rightarrow> grid_term \<Rightarrow> grid_term" where
  "grid_set c g = g\<lparr>cells := (\<lambda>x y. if x = col g \<and> y = row g then Some c else cells g x y)\<rparr>"

definition grid_put :: "u8 \<Rightarrow> grid_term \<Rightarrow> grid_term" where
  "grid_put c g =
     (if c = 10 then grid_feed (g\<lparr>col := 0, row := row g + 1\<rparr>)
      else let g = grid_set c g
           in if col g = 112 then grid_feed (g\<lparr>col := 0, row := row g + 1\<rparr>) else g\<lparr>col := col g + 1\<rparr>)"

text \<open>The pixel in line \<open>i\<close> and column \<open>j\<close> of a cell of 20 lines and 9 columns; the character fills 16 of the lines and 8
  of the columns. The columns from 1017 on and the lines from 760 on are in no cell.\<close>

definition glyph :: "(nat \<Rightarrow> u8) \<Rightarrow> terminal \<Rightarrow> u8 option \<Rightarrow> nat \<Rightarrow> nat \<Rightarrow> u32" where
  "glyph font s c i j = (case c of None \<Rightarrow> term_col_bg s
     | Some c \<Rightarrow> if i < 16 \<and> j < 8 \<and> bit (font (unat c * 16 + i)) (7 - j) then term_col_fg s else term_col_bg s)"

definition displays_cells :: "(nat \<Rightarrow> u8) \<Rightarrow> terminal \<Rightarrow> (nat \<Rightarrow> nat \<Rightarrow> u8 option) \<Rightarrow> nat \<Rightarrow> bool" where
  "displays_cells font s cs rows \<longleftrightarrow> (\<forall>x < 113. \<forall>y < rows. \<forall>i < 20. \<forall>j < 9.
     pix (canvas s) (screen_fb s) (9 * int x + int j) (20 * int y + int i) = glyph font s (cs x y) i j)"

definition displays :: "(nat \<Rightarrow> u8) \<Rightarrow> terminal \<Rightarrow> grid_term \<Rightarrow> bool" where
  "displays font s g \<longleftrightarrow> canvas_ok (canvas s) \<and> x_opt_res (screen_fb s) = 1024 \<and> unat (tx s) = col g \<and> unat (ty s) = row g
     \<and> col g < 113 \<and> row g < 38 \<and> displays_cells font s (cells g) 38"

lemma cell_res [simp]: "X_CELL_RES = 113" "Y_CELL_RES = 38"
  by (simp_all add: X_CELL_RES_def Y_CELL_RES_def)

lemma on_fb_simps [simp]: "tx (on_fb f s) = tx s" "ty (on_fb f s) = ty s" "canvas (on_fb f s) = canvas s"
  "term_col_bg (on_fb f s) = term_col_bg s" "term_col_fg (on_fb f s) = term_col_fg s" "screen_fb (on_fb f s) = f (screen_fb s)"
  "input_buffer (on_fb f s) = input_buffer s" "input_size (on_fb f s) = input_size s" "second_out (on_fb f s) = second_out s"
  "to_shell (on_fb f s) = to_shell s"
  by (simp_all add: on_fb_def)

lemma glyph_fb [simp]: "glyph font (on_fb f s) = glyph font s" "glyph font (s\<lparr>tx := a\<rparr>) = glyph font s" "glyph font (s\<lparr>ty := b\<rparr>) = glyph font s"
  by (simp_all add: glyph_def fun_eq_iff split: option.splits)

lemma cell_inside: "x < 113 \<Longrightarrow> y < 39 \<Longrightarrow> i < 20 \<Longrightarrow> j < 9 \<Longrightarrow> inside (9 * int x + int j) (20 * int y + int i)"
  by (simp add: inside_def)

text \<open>Drawing a character changes its cell only.\<close>

lemma draw_cell_pix:
  assumes "canvas_ok (canvas s)" "unat (tx s) < 113" "unat (ty s) < 38" "x < 113" "y < 38" "i < 20" "j < 9"
  shows "pix (canvas s) (screen_fb (draw_cell font c s)) (9 * int x + int j) (20 * int y + int i)
    = (if x = unat (tx s) \<and> y = unat (ty s) \<and> i < 16 \<and> j < 8 then glyph font s (Some c) i j
       else pix (canvas s) (screen_fb s) (9 * int x + int j) (20 * int y + int i))"
    and "x_opt_res (screen_fb (draw_cell font c s)) = 1024"
proof -
  let ?f = "fb_optbuff_size XRES YRES (screen_fb s)" and ?X = "w16 (tx s)" and ?Y = "w16 (ty s)"
  let ?g = "\<lambda>i j. if reverse (font (unat c * 16 + i)) AND push_bit j 1 \<noteq> 0 then term_col_fg s else term_col_bg s"
  have f: "x_opt_res ?f = 1024" "pix (canvas s) ?f = pix (canvas s) (screen_fb s)" by (simp_all add: fb_optbuff_size_def pix_def fun_eq_iff)
  note b = block_pix [OF assms(1) f(1), of "?X * 9" 8 "?Y * 20" 16 "9 * int x + int j" "20 * int y + int i" ?g]
  have pre: "0 \<le> ?X * 9" "?X * 9 + int 8 \<le> 1024" "0 \<le> ?Y * 20" "?Y * 20 + int 16 \<le> 788" "inside (9 * int x + int j) (20 * int y + int i)"
    using assms by (simp_all add: inside_def)
  have at: "(?Y * 20 \<le> 20 * int y + int i \<and> 20 * int y + int i < ?Y * 20 + int 16 \<and> ?X * 9 \<le> 9 * int x + int j \<and> 9 * int x + int j < ?X * 9 + int 8)
      \<longleftrightarrow> x = unat (tx s) \<and> y = unat (ty s) \<and> i < 16 \<and> j < 8"
    using assms(6,7) by (cases x "unat (tx s)" rule: linorder_cases; cases y "unat (ty s)" rule: linorder_cases) auto
  have e: "screen_fb (draw_cell font c s) = fold (\<lambda>i. fold (\<lambda>j. fb_pixel (?X * 9 + int j) (?Y * 20 + int i) (?g i j) (canvas s)) [0..<8]) [0..<16] ?f"
    by (simp only: draw_cell_def on_fb_simps fb_char_def)
  show "pix (canvas s) (screen_fb (draw_cell font c s)) (9 * int x + int j) (20 * int y + int i)
    = (if x = unat (tx s) \<and> y = unat (ty s) \<and> i < 16 \<and> j < 8 then glyph font s (Some c) i j
       else pix (canvas s) (screen_fb s) (9 * int x + int j) (20 * int y + int i))"
  proof (cases "x = unat (tx s) \<and> y = unat (ty s) \<and> i < 16 \<and> j < 8")
    case True
    then have n: "nat (20 * int y + int i - ?Y * 20) = i" "nat (9 * int x + int j - ?X * 9) = j" by simp_all
    have "?g i j = glyph font s (Some c) i j" using reverse_bits [of j] True by (simp only: glyph_def option.case simp_thms)
    then show ?thesis using True b [OF pre] unfolding e at f(2) n by (simp only: if_True simp_thms)
  next
    case False
    then show ?thesis using b [OF pre] unfolding e at f(2) by (simp only: if_False)
  qed
  show "x_opt_res (screen_fb (draw_cell font c s)) = 1024"
    using b [OF pre] unfolding e f(1) by (simp only:)
qed

lemma term_scroll_displays:
  assumes "canvas_ok (canvas s)" "x_opt_res (screen_fb s) = 1024" "displays_cells font s cs 38"
  shows "displays_cells font (term_scroll s) (\<lambda>x y. if y = 37 then None else cs x (y + 1)) 38"
    "x_opt_res (screen_fb (term_scroll s)) = 1024" "canvas (term_scroll s) = canvas s" "tx (term_scroll s) = tx s" "ty (term_scroll s) = ty s"
    "input_buffer (term_scroll s) = input_buffer s" "input_size (term_scroll s) = input_size s"
    "second_out (term_scroll s) = second_out s" "to_shell (term_scroll s) = to_shell s"
proof -
  let ?c = "canvas s"
  let ?f = "(screen_fb s)\<lparr>vmem := memcpy_opt ?c (?c + word_of_int (1024 * 20) * 4) (1024 * 768) (vmem (screen_fb s))\<rparr>"
  have e: "screen_fb (term_scroll s) = fb_rect 0 740 (int 1024) (int 20) (term_col_bg s) 1 ?c ?f"
    "canvas (term_scroll s) = ?c" "glyph font (term_scroll s) = glyph font s"
    by (simp_all add: term_scroll_def Let_def nat_mult_distrib)
  have f: "x_opt_res ?f = 1024" using assms(2) by simp
  note r = fb_rect_pix [OF assms(1) f, of 0 1024 740 20]
  have "pix ?c (screen_fb (term_scroll s)) (9 * int x + int j) (20 * int y + int i)
      = glyph font s (if y = 37 then None else cs x (y + 1)) i j" if xy: "x < 113" "y < 38" "i < 20" "j < 9" for x y i j
  proof -
    have ins: "inside (9 * int x + int j) (20 * int y + int i)" using xy by (intro cell_inside) simp_all
    have p: "pix ?c (screen_fb (term_scroll s)) (9 * int x + int j) (20 * int y + int i)
        = (if y = 37 then term_col_bg s else pix ?c ?f (9 * int x + int j) (20 * int y + int i))"
      unfolding e using r [OF _ _ _ _ ins, of "term_col_bg s"] xy ins by (auto simp: inside_def)
    show ?thesis
    proof (cases "y = 37")
      case False
      have "pix ?c ?f (9 * int x + int j) (20 * int y + int i) = pix ?c (screen_fb s) (9 * int x + int j) (20 * int y + int i + 20)"
        using xy by (intro scroll_copy_pix [OF assms(1) ins]) simp
      also have "20 * int y + int i + 20 = 20 * int (y + 1) + int i" by simp
      also have "pix ?c (screen_fb s) (9 * int x + int j) (20 * int (y + 1) + int i) = glyph font s (cs x (y + 1)) i j"
        using xy False by (intro assms(3) [unfolded displays_cells_def, rule_format]) simp_all
      finally show ?thesis using p False by (simp only: if_False)
    qed (use p in \<open>simp add: glyph_def\<close>)
  qed
  then show "displays_cells font (term_scroll s) (\<lambda>x y. if y = 37 then None else cs x (y + 1)) 38"
    unfolding displays_cells_def e(2,3) by blast
  have "inside 0 0" by (simp add: inside_def)
  then show "x_opt_res (screen_fb (term_scroll s)) = 1024" unfolding e(1) using r [of 0 0] f by simp
  show "canvas (term_scroll s) = canvas s" "tx (term_scroll s) = tx s" "ty (term_scroll s) = ty s"
    "input_buffer (term_scroll s) = input_buffer s" "input_size (term_scroll s) = input_size s"
    "second_out (term_scroll s) = second_out s" "to_shell (term_scroll s) = to_shell s"
    by (simp_all add: term_scroll_def Let_def)
qed

lemma term_line_feed_displays:
  assumes "canvas_ok (canvas s)" "x_opt_res (screen_fb s) = 1024" "displays_cells font s (cells g) 38"
    "unat (tx s) = col g" "unat (ty s) = row g" "col g < 113" "row g \<le> 38"
  shows "displays font (term_line_feed s) (grid_feed g)"
proof (cases "row g < 38")
  case True
  then show ?thesis using assms by (simp add: term_line_feed_def grid_feed_def displays_def)
next
  case False
  let ?s = "s\<lparr>ty := ty s - 1\<rparr>"
  have r: "unat (ty s) = 38" using assms(5,7) False by simp
  then have "ty s = 38" by (simp add: word_unat_eq_iff)
  moreover have "displays_cells font ?s (cells g) 38" using assms(3) by (simp add: displays_cells_def)
  ultimately show ?thesis using assms False r term_scroll_displays [of ?s font "cells g"]
    by (simp add: term_line_feed_def grid_feed_def displays_def)
qed

lemma term_line_feed_rest [simp]: "input_buffer (term_line_feed s) = input_buffer s" "input_size (term_line_feed s) = input_size s"
    "second_out (term_line_feed s) = second_out s" "to_shell (term_line_feed s) = to_shell s"
  by (simp_all add: term_line_feed_def term_scroll_def Let_def)

lemma term_putchar_rest [simp]: "input_buffer (term_putchar font c s) = input_buffer s" "input_size (term_putchar font c s) = input_size s"
    "second_out (term_putchar font c s) = second_out s" "to_shell (term_putchar font c s) = to_shell s"
  by (simp_all add: term_putchar_def draw_cell_def Let_def)

lemma draw_cell_rest [simp]: "input_buffer (draw_cell font c s) = input_buffer s" "input_size (draw_cell font c s) = input_size s"
    "second_out (draw_cell font c s) = second_out s" "to_shell (draw_cell font c s) = to_shell s" "canvas (draw_cell font c s) = canvas s"
    "tx (draw_cell font c s) = tx s" "ty (draw_cell font c s) = ty s" "glyph font (draw_cell font c s) = glyph font s"
  by (simp_all add: draw_cell_def)

lemma draw_cell_displays:
  assumes "displays font s g"
  shows "displays font (draw_cell font c s) (grid_set c g)"
proof -
  have a: "canvas_ok (canvas s)" "unat (tx s) < 113" "unat (ty s) < 38" and u: "unat (tx s) = col g" "unat (ty s) = row g"
    using assms by (simp_all add: displays_def)
  have "pix (canvas s) (screen_fb (draw_cell font c s)) (9 * int x + int j) (20 * int y + int i) = glyph font s (cells (grid_set c g) x y) i j"
    if "x < 113" "y < 38" "i < 20" "j < 9" for x y i j
    using draw_cell_pix(1) [OF a that, of font c] assms that u
    by (auto simp: displays_def displays_cells_def grid_set_def) (auto simp: glyph_def split: option.splits)
  then have "displays_cells font (draw_cell font c s) (cells (grid_set c g)) 38" by (simp add: displays_cells_def)
  then show ?thesis using assms draw_cell_pix(2) [OF a, of 0 0 0 0 font c] by (simp add: displays_def) (simp add: grid_set_def)
qed

lemma unat_inc16: "unat (w :: u16) < 65535 \<Longrightarrow> unat (w + 1) = unat w + 1"
  by (simp add: unat_word_ariths)

lemma term_putchar_displays:
  assumes "displays font s g"
  shows "displays font (term_putchar font c s) (grid_put c g)"
proof (cases "c = 10")
  case True
  have "displays font (term_line_feed (s\<lparr>tx := 0, ty := ty s + 1\<rparr>)) (grid_feed (g\<lparr>col := 0, row := row g + 1\<rparr>))"
    using assms by (intro term_line_feed_displays) (simp_all add: displays_def displays_cells_def unat_inc16)
  then show ?thesis using True by (simp add: term_putchar_def grid_put_def)
next
  case False
  let ?s = "draw_cell font c s" and ?g = "grid_set c g"
  have d: "displays font ?s ?g" by (rule draw_cell_displays [OF assms])
  have g: "col ?g = col g" "row ?g = row g" by (simp_all add: grid_set_def)
  have u: "unat (tx s) = col g" "unat (ty s) = row g" "col g < 113" "row g < 38" using assms by (simp_all add: displays_def)
  show ?thesis
  proof (cases "col g = 112")
    case True
    have "displays font (term_line_feed (?s\<lparr>tx := 0, ty := ty s + 1\<rparr>)) (grid_feed (?g\<lparr>col := 0, row := row g + 1\<rparr>))"
      using d g u by (intro term_line_feed_displays) (simp_all add: displays_def displays_cells_def unat_inc16)
    then show ?thesis using False True u g unat_inc16 [of "tx s"] by (simp add: term_putchar_def grid_put_def Let_def)
  next
    case no: False
    have "displays font (term_line_feed (?s\<lparr>tx := tx s + 1\<rparr>)) (grid_feed (?g\<lparr>col := col g + 1\<rparr>))"
      using d g u no by (intro term_line_feed_displays) (simp_all add: displays_def displays_cells_def unat_inc16)
    then show ?thesis using False no u g unat_inc16 [of "tx s"] by (simp add: term_putchar_def grid_put_def Let_def grid_feed_def)
  qed
qed

subsection \<open>A session\<close>

text \<open>Typed characters and output of the shell, in the order in which they arrive.\<close>

datatype term_event = Typed u8 | Shown u8

fun term_run :: "(nat \<Rightarrow> nat) \<Rightarrow> (nat \<Rightarrow> u8) \<Rightarrow> term_event list \<Rightarrow> terminal \<Rightarrow> terminal res" where
  "term_run room font [] s = Inr s"
| "term_run room font (Typed c # es) s = sbind (term_handle_input room font c s) (term_run room font es)"
| "term_run room font (Shown c # es) s = term_run room font es (term_putchar font c s)"

text \<open>The session as a user could follow it: the grid, the line typed so far and what was sent of each line. A backspace
  takes the last character of the line back; on an empty line it is a character like any other, drawn and added
  to the line, as the code has it. \<open>None\<close> is a line that is longer than the buffer.\<close>

record session =
  grid :: grid_term
  typed :: "u8 list"
  sent :: "u8 list list"

definition grid_back :: "grid_term \<Rightarrow> grid_term" where
  "grid_back g = grid_set 0 (if col g = 0 \<and> row g \<noteq> 0 then g\<lparr>col := 112, row := row g - 1\<rparr> else g\<lparr>col := col g - 1\<rparr>)"

definition session_key :: "(nat \<Rightarrow> nat) \<Rightarrow> u8 \<Rightarrow> session \<Rightarrow> session option" where
  "session_key room c S =
     (if c = 8 \<and> typed S \<noteq> [] then Some (S\<lparr>grid := grid_back (grid S), typed := butlast (typed S)\<rparr>)
      else if length (typed S) \<ge> 256 then None
      else let S = S\<lparr>grid := grid_put c (grid S), typed := typed S @ [c]\<rparr>
           in Some (if c = 10 then S\<lparr>sent := sent S @ [take (room (length (sent S))) (typed S)], typed := []\<rparr> else S))"

fun session_run :: "(nat \<Rightarrow> nat) \<Rightarrow> term_event list \<Rightarrow> session \<Rightarrow> session option" where
  "session_run room [] S = Some S"
| "session_run room (Typed c # es) S = Option.bind (session_key room c S) (session_run room es)"
| "session_run room (Shown c # es) S = session_run room es (S\<lparr>grid := grid_put c (grid S)\<rparr>)"

text \<open>The cursor is behind the typed characters, so that taking one back never leaves the screen.\<close>

definition session_rel :: "(nat \<Rightarrow> u8) \<Rightarrow> terminal \<Rightarrow> session \<Rightarrow> bool" where
  "session_rel font s S \<longleftrightarrow> displays font s (grid S) \<and> length (input_buffer s) = 256 \<and> unat (input_size s) = length (typed S)
     \<and> length (typed S) \<le> 256 \<and> take (length (typed S)) (input_buffer s) = typed S \<and> to_shell s = sent S \<and> second_out s
     \<and> length (typed S) \<le> 113 * row (grid S) + col (grid S)"

lemma grid_put_pos:
  assumes "col g < 113" "row g < 38"
  shows "113 * row g + col g < 113 * row (grid_put c g) + col (grid_put c g) \<or> 4181 \<le> 113 * row (grid_put c g) + col (grid_put c g)"
  using assms by (auto simp: grid_put_def grid_feed_def grid_set_def Let_def)

lemma displays_cursor: "displays font s g \<Longrightarrow> col g < 113 \<and> row g < 38"
  by (simp add: displays_def)

lemma displays_cong:
  "displays font s g \<Longrightarrow> screen_fb s' = screen_fb s \<Longrightarrow> canvas s' = canvas s \<Longrightarrow> tx s' = tx s \<Longrightarrow> ty s' = ty s \<Longrightarrow>
     term_col_bg s' = term_col_bg s \<Longrightarrow> term_col_fg s' = term_col_fg s \<Longrightarrow> displays font s' g"
proof -
  assume a: "displays font s g" "screen_fb s' = screen_fb s" "canvas s' = canvas s" "tx s' = tx s" "ty s' = ty s"
    "term_col_bg s' = term_col_bg s" "term_col_fg s' = term_col_fg s"
  then have "glyph font s' = glyph font s" by (simp add: glyph_def fun_eq_iff split: option.splits)
  then show ?thesis using a by (simp add: displays_def displays_cells_def)
qed

lemma session_shown:
  assumes "session_rel font s S"
  shows "session_rel font (term_putchar font c s) (S\<lparr>grid := grid_put c (grid S)\<rparr>)"
proof -
  have d: "displays font s (grid S)" using assms by (simp add: session_rel_def)
  have "length (typed S) \<le> 113 * row (grid_put c (grid S)) + col (grid_put c (grid S))"
    using grid_put_pos [of "grid S" c] displays_cursor [OF d] assms by (auto simp: session_rel_def)
  then show ?thesis using assms term_putchar_displays [OF d] by (simp add: session_rel_def)
qed

lemma session_back:
  assumes r: "session_rel font s S" and t: "typed S \<noteq> []"
  shows "\<exists>s'. term_handle_input room font 8 s = Inr s' \<and> session_rel font s' (S\<lparr>grid := grid_back (grid S), typed := butlast (typed S)\<rparr>)"
proof -
  let ?g = "grid S" and ?n = "length (typed S)"
  have d: "displays font s ?g" and rel: "length (input_buffer s) = 256" "unat (input_size s) = ?n" "?n \<le> 256"
      "take ?n (input_buffer s) = typed S" "to_shell s = sent S" "second_out s" "?n \<le> 113 * row ?g + col ?g"
    using r by (simp_all add: session_rel_def)
  have n: "?n \<noteq> 0" using t by simp
  then have "input_size s \<noteq> 0" using rel(2) by auto
  then have sz: "input_size s \<noteq> 0" "unat (input_size s - 1) = ?n - 1" using rel(2) unat_minus1_u32 [of "input_size s"] by simp_all
  let ?s = "s\<lparr>input_size := input_size s - 1, input_buffer := (input_buffer s)[?n - 1 := 0]\<rparr>"
  let ?t = "if tx ?s = 0 \<and> ty ?s \<noteq> 0 then ?s\<lparr>tx := 112, ty := ty ?s - 1\<rparr> else ?s\<lparr>tx := tx ?s - 1\<rparr>"
  let ?h = "if col ?g = 0 \<and> row ?g \<noteq> 0 then ?g\<lparr>col := 112, row := row ?g - 1\<rparr> else ?g\<lparr>col := col ?g - 1\<rparr>"
  have run: "term_handle_input room font 8 s = Inr (draw_cell font 0 ?t)"
    using sz rel(1,3) n by (simp add: term_handle_input_def Let_def)
  have z: "tx s = 0 \<longleftrightarrow> col ?g = 0" "ty s = 0 \<longleftrightarrow> row ?g = 0" using d by (auto simp: displays_def unat_eq_zero [symmetric])
  have dec: "unat (w - 1) = unat w - 1" if "w \<noteq> 0" for w :: u16
    using that unat_minus_one [of w] by simp
  have ds: "displays font ?s ?g" by (rule displays_cong [OF d]) simp_all
  have "displays font ?t ?h"
  proof (cases "col ?g = 0 \<and> row ?g \<noteq> 0")
    case True
    then show ?thesis using ds z dec [of "ty s"] by (auto simp: displays_def displays_cells_def)
  next
    case False
    then have "tx s \<noteq> 0" using z rel(7) n by auto
    then show ?thesis using False ds z dec [of "tx s"] by (auto simp: displays_def displays_cells_def)
  qed
  then have d': "displays font (draw_cell font 0 ?t) (grid_back ?g)" unfolding grid_back_def by (rule draw_cell_displays)
  have pos: "length (butlast (typed S)) \<le> 113 * row (grid_back ?g) + col (grid_back ?g)"
    using rel(7) by (auto simp: grid_back_def grid_set_def)
  have f: "input_buffer (draw_cell font 0 ?t) = (input_buffer s)[?n - 1 := 0]" "input_size (draw_cell font 0 ?t) = input_size s - 1"
      "second_out (draw_cell font 0 ?t)" "to_shell (draw_cell font 0 ?t) = sent S"
    using rel(5,6) by simp_all
  have "take (?n - 1) ((input_buffer s)[?n - 1 := 0]) = butlast (typed S)"
    using rel(4) by (simp add: butlast_conv_take) (metis min.absorb1 diff_le_self take_take)
  then have "session_rel font (draw_cell font 0 ?t) (S\<lparr>grid := grid_back ?g, typed := butlast (typed S)\<rparr>)"
    using d' pos rel(1,3,6) sz(2) unfolding session_rel_def f by auto
  then show ?thesis using run by blast
qed

lemma session_put:
  assumes r: "session_rel font s S" and c: "\<not> (c = 8 \<and> typed S \<noteq> [])"
  shows "length (typed S) \<ge> 256 \<Longrightarrow> term_handle_input room font c s = Inl Wild"
    and "length (typed S) < 256 \<Longrightarrow> \<exists>s'. term_handle_input room font c s = Inr s' \<and> session_rel font s' (the (session_key room c S))"
proof -
  let ?g = "grid S" and ?n = "length (typed S)" and ?s = "term_putchar font c s"
  have d: "displays font s ?g" and rel: "length (input_buffer s) = 256" "unat (input_size s) = ?n" "?n \<le> 256"
      "take ?n (input_buffer s) = typed S" "to_shell s = sent S" "second_out s" "?n \<le> 113 * row ?g + col ?g"
    using r by (simp_all add: session_rel_def)
  have c': "\<not> (c = 8 \<and> input_size s \<noteq> 0)" using c rel(2) unat_eq_zero [of "input_size s"] by auto
  show "term_handle_input room font c s = Inl Wild" if "?n \<ge> 256"
    unfolding term_handle_input_def by (subst if_not_P [OF c']) (use rel(1,2) that in \<open>simp add: Let_def store_at_def\<close>)
  assume n: "?n < 256"
  let ?buf = "(input_buffer s)[?n := c]"
  have u: "unat (input_size s + 1) = Suc ?n" using rel(2) n unat_plus1_u32 [of "input_size s"] by simp
  let ?t = "?s\<lparr>input_buffer := ?buf, input_size := input_size s + 1\<rparr>"
  let ?t' = "?t\<lparr>to_shell := to_shell s @ [take (room (length (sent S))) (take (Suc ?n) ?buf)], input_buffer := replicate (Suc ?n) 0 @ drop (Suc ?n) ?buf, input_size := 0\<rparr>"
  have run: "term_handle_input room font c s = Inr (if c = 10 then ?t' else ?t)"
    unfolding term_handle_input_def by (subst if_not_P [OF c']) (use rel(1,2,5,6) n u in \<open>simp add: Let_def\<close>)
  have tk: "take (Suc ?n) ?buf = typed S @ [c]"
    using rel(1,4) n by (simp add: take_Suc_conv_app_nth)
  have dp: "displays font ?s (grid_put c ?g)" by (rule term_putchar_displays [OF d])
  then have dt: "displays font ?t (grid_put c ?g)" "displays font ?t' (grid_put c ?g)" by (rule displays_cong; simp)+
  have pos: "Suc ?n \<le> 113 * row (grid_put c ?g) + col (grid_put c ?g)"
    using grid_put_pos [of ?g c] displays_cursor [OF d] rel(7) n by auto
  have "session_rel font (if c = 10 then ?t' else ?t) (the (session_key room c S))"
  proof (cases "c = 10")
    case True
    then show ?thesis using dt(2) tk rel n c by (simp add: session_rel_def session_key_def Let_def del: take_take take_append)
  next
    case False
    then show ?thesis using dt(1) tk rel n c u pos by (auto simp: session_rel_def session_key_def Let_def)
  qed
  then show "\<exists>s'. term_handle_input room font c s = Inr s' \<and> session_rel font s' (the (session_key room c S))" using run by blast
qed

lemma session_simulates:
  "session_rel font s S \<Longrightarrow> (case session_run room es S of None \<Rightarrow> term_run room font es s = Inl Wild
     | Some S' \<Rightarrow> \<exists>s'. term_run room font es s = Inr s' \<and> session_rel font s' S')"
proof (induction es arbitrary: s S)
  case (Cons e es)
  show ?case
  proof (cases e)
    case (Shown c)
    then show ?thesis using Cons.IH [OF session_shown [OF Cons.prems, of c]] unfolding Shown by (simp split: option.splits)
  next
    case (Typed c)
    consider (erase) "c = 8" "typed S \<noteq> []" | (full) "\<not> (c = 8 \<and> typed S \<noteq> [])" "length (typed S) \<ge> 256"
      | (put) "\<not> (c = 8 \<and> typed S \<noteq> [])" "length (typed S) < 256" by fastforce
    then show ?thesis
    proof cases
      case erase
      obtain s' where s': "term_handle_input room font 8 s = Inr s'" "session_rel font s' (S\<lparr>grid := grid_back (grid S), typed := butlast (typed S)\<rparr>)"
        using session_back [OF Cons.prems erase(2)] by blast
      then show ?thesis using erase Cons.IH [OF s'(2)] unfolding Typed by (simp add: session_key_def split: option.splits)
    next
      case full
      then have "session_key room c S = None" by (simp only: session_key_def if_False if_True simp_thms)
      then show ?thesis using session_put(1) [OF Cons.prems full] unfolding Typed by (simp split: option.split)
    next
      case put
      obtain s' where s': "term_handle_input room font c s = Inr s'" "session_rel font s' (the (session_key room c S))"
        using session_put(2) [OF Cons.prems put] by blast
      have "session_key room c S = Some (the (session_key room c S))" using put by (simp add: session_key_def Let_def)
      then have "session_run room (e # es) S = session_run room es (the (session_key room c S))" unfolding Typed by (metis bind.bind_lunit session_run.simps(2))
      then show ?thesis using s'(1) Cons.IH [OF s'(2)] unfolding Typed by (simp split: option.splits)
    qed
  qed
qed simp

text \<open>The terminal that \<open>term_init\<close> leaves shows blank cells.\<close>

definition blank_session :: session where
  "blank_session = \<lparr>grid = \<lparr>cells = (\<lambda>_ _. None), col = 0, row = 0\<rparr>, typed = [], sent = []\<rparr>"

lemma term_init_blank:
  assumes "canvas_ok (canvas s)" "length (input_buffer s) = 256" "input_size s = 0" "to_shell s = []" "pid \<noteq> 0"
  shows "\<exists>s'. term_init pid s = (0, s') \<and> session_rel font s' blank_session"
proof -
  let ?f = "fb_optbuff_size XRES YRES (screen_fb s)" and ?s = "snd (term_init pid s)"
  have f: "x_opt_res ?f = 1024" by (simp add: fb_optbuff_size_def)
  note r = fb_rect_pix [OF assms(1) f, of 0 1024 0 768 _ _ "fb_rgb2linear 0 0 0x8B"]
  have e: "screen_fb ?s = fb_rect 0 0 (int 1024) (int 768) (fb_rgb2linear 0 0 0x8B) 1 (canvas s) ?f" "canvas ?s = canvas s"
    "term_col_bg ?s = fb_rgb2linear 0 0 0x8B" "tx ?s = 0" "ty ?s = 0" "input_buffer ?s = input_buffer s" "input_size ?s = 0"
    "to_shell ?s = []" "second_out ?s" "fst (term_init pid s) = 0"
    using assms(3-5) by (simp_all add: term_init_def Let_def)
  have "pix (canvas s) (screen_fb ?s) (9 * int x + int j) (20 * int y + int i) = fb_rgb2linear 0 0 0x8B"
    if xy: "x < 113" "y < 38" "i < 20" "j < 9" for x y i j
  proof -
    have "inside (9 * int x + int j) (20 * int y + int i)" using xy by (intro cell_inside) simp_all
    then show ?thesis unfolding e using r [of "9 * int x + int j" "20 * int y + int i"] xy by (simp add: inside_def)
  qed
  then have "displays_cells font ?s (\<lambda>_ _. None) 38" by (simp add: displays_cells_def glyph_def e(2,3))
  moreover have "x_opt_res (screen_fb ?s) = 1024" unfolding e(1) using r [of 0 0] f by (simp add: inside_def)
  ultimately have "session_rel font ?s blank_session"
    using assms(1,2) by (simp add: session_rel_def blank_session_def displays_def e(2,4-9))
  then show ?thesis using e(10) by (metis prod.collapse)
qed

text \<open>C26: a session at the terminal. Whatever is typed and whatever the shell writes, in any order: all pixels of each of
  the 113 by 38 cells of 9 by 20 pixels show a grid of characters (the character in the upper left 8 by 16, the
  rest blank) that follows the input: line feeds, wrapping at the right edge, scrolling at the bottom, and a
  backspace that takes back the last character of the line, which is drawn as character 0. On an empty
  line, as the code does it and a user would not expect, a backspace is drawn and becomes part of the line. At
  each line feed the shell gets the line without the characters taken back, but of it only the first \<open>room\<close> bytes, what
  its standard input (a pipe of 256 bytes, so 255 when it is empty) has room for then; the rest is lost.
  The session ends in a fault if and only if a line gets longer than the buffer of 256 bytes, which is not checked.\<close>

theorem terminal_session:
  assumes "canvas_ok (canvas s)" "length (input_buffer s) = 256" "input_size s = 0" "to_shell s = []" "pid \<noteq> 0"
  shows "\<exists>s0. term_init pid s = (0, s0) \<and> (case session_run room es blank_session of
       None \<Rightarrow> term_run room font es s0 = Inl Wild
     | Some S \<Rightarrow> \<exists>s'. term_run room font es s0 = Inr s' \<and> displays font s' (grid S) \<and> to_shell s' = sent S)"
proof -
  obtain s0 where s0: "term_init pid s = (0, s0)" "session_rel font s0 blank_session" using term_init_blank [OF assms] by blast
  show ?thesis using s0(1) session_simulates [OF s0(2), of room es] by (auto simp: session_rel_def split: option.splits)
qed

definition terminal_one :: terminal where
  "terminal_one = \<lparr>tx = 0, ty = 0, term_col_bg = 0, term_col_fg = 0, input_buffer = replicate 256 0, input_size = 0, second_out = False,
     to_shell = [], canvas = 0xEA000000, screen_fb = \<lparr>framebuffer = 0, x_res = 0, y_res = 0, x_opt_res = 0, y_opt_res = 0, back_buffer = 0,
       back_buffer_enabled = 0, vmem = (\<lambda>_. 0), ioctls = []\<rparr>\<rparr>"

text \<open>The prompt, then \<open>lx\<close>, a backspace and \<open>s\<close> are shown and typed, and the shell gets \<open>ls\<close>.\<close>

lemma terminal_session_witness:
  "\<exists>s0 s'. term_init 7 terminal_one = (0, s0)
     \<and> term_run (\<lambda>_. 255) (\<lambda>_. 0) [Shown 62, Typed 108, Typed 120, Typed 8, Typed 115, Typed 10] s0 = Inr s' \<and> to_shell s' = [[108, 115, 10]]"
proof -
  let ?es = "[Shown 62, Typed 108, Typed 120, Typed 8, Typed 115, Typed 10]"
  have "\<exists>S. session_run (\<lambda>_. 255) ?es blank_session = Some S \<and> sent S = [[108, 115, 10]]"
    by (simp add: blank_session_def session_key_def Let_def)
  then show ?thesis using terminal_session [where s = terminal_one and pid = 7 and room = "\<lambda>_. 255" and es = ?es and font = "\<lambda>_. 0"] by (auto simp: terminal_one_def canvas_ok_def)
qed

end
