(* ===== verification/Cserv.thy ===== *)
theory Cserv
  imports Canvas Kbd Pipe Stdio
begin

text \<open>
  The window server \<open>os/usr/cserv/main.cpp\<close> with its library \<open>libs/cserv/cserv.cpp\<close>: clients and the server
  itself send packets through one pipe (theory Pipe, read and written through a stream of theory Stdio); the
  server keeps the list of processes with a canvas, passes typed keys (theory Kbd) to the active one, moves
  the pointer and draws the canvases (theory Canvas). Objects are passed by value. What uninitialised memory
  holds, and which files can be opened, are arguments.
\<close>

subsection \<open>Packets\<close>

abbreviation CS_TYPE_PROCESS :: u32 where "CS_TYPE_PROCESS \<equiv> 1"
abbreviation CS_TYPE_KEY :: u32 where "CS_TYPE_KEY \<equiv> 2"
abbreviation CS_TYPE_ACTIVATE :: u32 where "CS_TYPE_ACTIVATE \<equiv> 3"
abbreviation CS_TYPE_TERMINATE :: u32 where "CS_TYPE_TERMINATE \<equiv> 4"
abbreviation CS_TYPE_MOUSE :: u32 where "CS_TYPE_MOUSE \<equiv> 5"

text \<open>With the three bytes behind the buffer that align the size of the class to 136.\<close>

record cspacket =
  pk_type :: u32
  pk_flags :: u8
  pk_buffer :: "u8 list"
  pk_pad :: "u8 list"

definition le_word :: "u8 list \<Rightarrow> u32" where
  "le_word b = ucast (b ! 0) OR push_bit 8 (ucast (b ! 1)) OR push_bit 16 (ucast (b ! 2)) OR push_bit 24 (ucast (b ! 3))"

definition le_bytes :: "u32 \<Rightarrow> u8 list" where
  "le_bytes w = [ucast w, ucast (drop_bit 8 w), ucast (drop_bit 16 w), ucast (drop_bit 24 w)]"

definition packet_bytes :: "cspacket \<Rightarrow> u8 list" where
  "packet_bytes pk = le_bytes (pk_type pk) @ [pk_flags pk] @ pk_buffer pk @ pk_pad pk"

definition packet_of :: "u8 list \<Rightarrow> cspacket" where
  "packet_of b = \<lparr>pk_type = le_word (take 4 b), pk_flags = b ! 4, pk_buffer = take 128 (drop 5 b), pk_pad = drop 133 b\<rparr>"

text \<open>The constructor sets the type and clears the buffer of the block \<open>stale\<close> it was given.\<close>

definition CreatePacket :: "cspacket \<Rightarrow> u32 \<Rightarrow> cspacket" where
  "CreatePacket stale t = stale\<lparr>pk_type := t, pk_buffer := replicate 128 0\<rparr>"

definition BUFFER :: "cspacket \<Rightarrow> nat \<Rightarrow> u32" where
  "BUFFER pk i = le_word (take 4 (drop (4 * i) (pk_buffer pk)))"

definition put_BUFFER :: "nat \<Rightarrow> u32 \<Rightarrow> cspacket \<Rightarrow> cspacket" where
  "put_BUFFER i w pk = pk\<lparr>pk_buffer := take (4 * i) (pk_buffer pk) @ le_bytes w @ drop (4 * i + 4) (pk_buffer pk)\<rparr>"

subsection \<open>Processes and the state of the server\<close>

record csprocess =
  cs_pid :: u32
  packet_filter :: "cspacket \<Rightarrow> bool"
  pos_x :: u32
  pos_y :: u32
  canvas_size_x :: u32
  canvas_size_y :: u32

definition CreateProcess :: "u32 \<Rightarrow> u32 \<Rightarrow> u32 \<Rightarrow> u32 \<Rightarrow> u32 \<Rightarrow> csprocess" where
  "CreateProcess p x y sx sy =
     \<lparr>cs_pid = p, packet_filter = (\<lambda>_. False), pos_x = x, pos_y = y, canvas_size_x = sx, canvas_size_y = sy\<rparr>"

record cserver =
  server_pipe :: "stream option"
  srv_pipe :: pipe_info
  processes :: "csprocess list"
  processes_lock :: bool
  active_process :: "csprocess option"
  mx :: int
  my :: int
  clks :: u32
  kbd_mods :: kbd
  key_blocks :: nat
  stdins :: "u32 \<Rightarrow> u8 list"
  socks :: "u32 \<Rightarrow> u8 list"

text \<open>The surroundings: \<open>validate\<close> of the kernel, the node and the information block of the pipe, how often a process
  waits for it (\<open>awaits\<close> of theory Pipe), the contents
  of the block that the n-th call of \<open>malloc\<close> for a key event returns, and the processes whose standard input
  or socket can be opened. What a process has not read yet is kept in \<open>stdins\<close> and \<open>socks\<close>; the pipe of the standard
  input takes no more than \<open>stdin_room\<close> bytes (255, as the kernel creates it).\<close>

record csenv =
  valid :: "u32 \<Rightarrow> bool"
  pnode :: u32
  pinfo :: u32
  waiting :: "u32 \<Rightarrow> nat"
  key_block :: "nat \<Rightarrow> key_event"
  has_stdin :: "u32 \<Rightarrow> bool"
  stdin_room :: "u32 \<Rightarrow> nat"
  has_sock :: "u32 \<Rightarrow> bool"

subsection \<open>libs/cserv/cserv.cpp\<close>

text \<open>\<open>fwrite\<close> and \<open>fread\<close> of one packet on the stream of the pipe.\<close>

definition fwrite_packet :: "csenv \<Rightarrow> cspacket \<Rightarrow> stream \<Rightarrow> pipe_info \<Rightarrow> (u32 \<times> stream \<times> pipe_info) res option" where
  "fwrite_packet E pk f p =
     (if f_eof f \<noteq> 0 then Some (Inr (0, f, p))
      else res_bind (pipe_write (valid E) (pnode E) (pinfo E) (waiting E) (packet_bytes pk) p) (\<lambda>(n, _, p).
        Some (Inr (n div 136, advance n f, p))))"

definition fread_packet :: "stream \<Rightarrow> pipe_info \<Rightarrow> (u8 list \<times> u32 \<times> stream \<times> pipe_info) res option" where
  "fread_packet f p =
     (if f_eof f \<noteq> 0 then Some (Inr ([], 0, f, p))
      else res_bind (pipe_read 136 p) (\<lambda>(bs, n, p). Some (Inr (bs, n div 136, advance n f, p))))"

definition C_SendPacket :: "csenv \<Rightarrow> cspacket \<Rightarrow> cserver \<Rightarrow> cserver res option" where
  "C_SendPacket E pk s =
     (case server_pipe s of
        None \<Rightarrow> Some (Inr s)
      | Some f \<Rightarrow> res_bind (fwrite_packet E pk f (srv_pipe s)) (\<lambda>(_, f, p).
          Some (Inr (s\<lparr>server_pipe := Some (rewind f), srv_pipe := p\<rparr>))))"

definition S_LastPacket :: "cserver \<Rightarrow> (cspacket option \<times> cserver) res option" where
  "S_LastPacket s =
     (case server_pipe s of
        None \<Rightarrow> Some (Inl Wild)
      | Some f \<Rightarrow> res_bind (fread_packet f (srv_pipe s)) (\<lambda>(bs, n, f, p).
          if n \<noteq> 0 then Some (Inr (Some (packet_of bs), s\<lparr>server_pipe := Some f, srv_pipe := p\<rparr>))
          else Some (Inr (None, s\<lparr>server_pipe := Some (rewind f), srv_pipe := p\<rparr>))))"

fun get_process :: "u32 \<Rightarrow> csprocess list \<Rightarrow> csprocess option" where
  "get_process p [] = None"
| "get_process p (proc # ps) = (if cs_pid proc = p then Some proc else get_process p ps)"

definition S_GetProcess :: "u32 \<Rightarrow> cserver \<Rightarrow> csprocess option" where
  "S_GetProcess p s = get_process p (processes s)"

definition S_AddProcess :: "csprocess \<Rightarrow> cserver \<Rightarrow> cserver" where
  "S_AddProcess prc s =
     (if S_GetProcess (cs_pid prc) s = None then s\<lparr>processes := processes s @ [prc]\<rparr> else s)"

text \<open>The packet that a client announces itself with, and its context.\<close>

record cscontext =
  ctx_sx :: int
  ctx_sy :: int
  ctx_canvas :: u32

abbreviation SHARED_MEMORY_START :: u32 where "SHARED_MEMORY_START \<equiv> 0xEA000000"

text \<open>\<open>init\<close> is the result of \<open>CServer::Init\<close>; \<open>None\<close> is the result 1, else the context comes with the number of bytes
  that \<open>sys_shmem_create\<close> is asked for.\<close>

definition C_InitClient :: "csenv \<Rightarrow> int \<Rightarrow> cspacket \<Rightarrow> u32 \<Rightarrow> int \<Rightarrow> int \<Rightarrow> cserver \<Rightarrow> ((cscontext \<times> u32) option \<times> cserver) res option" where
  "C_InitClient E init stale getpid sx sy s =
     (if init \<noteq> 0 then Some (Inr (None, s))
      else
        let pack = CreatePacket stale CS_TYPE_PROCESS;
            pack = put_BUFFER 0 getpid pack;
            pack = put_BUFFER 1 (word_of_int sx) pack;
            pack = put_BUFFER 2 (word_of_int sy) pack
        in res_bind (C_SendPacket E pack s) (\<lambda>s.
             Some (Inr (Some (\<lparr>ctx_sx = sx, ctx_sy = sy, ctx_canvas = SHARED_MEMORY_START\<rparr>, word_of_int (sx * sy * 4)), s))))"

text \<open>The address of a pixel; \<open>None\<close> is the exception \<open>out_of_range\<close>.\<close>

definition ctx_at :: "cscontext \<Rightarrow> int \<Rightarrow> int \<Rightarrow> u32 option" where
  "ctx_at c x y =
     (if \<not> ((x \<ge> 0 \<and> x < ctx_sx c) \<and> (y \<ge> 0 \<and> y < ctx_sy c)) then None
      else Some (ctx_canvas c + word_of_int (y * ctx_sx c + x) * 4))"

fun clear_column :: "cscontext \<Rightarrow> int \<Rightarrow> nat list \<Rightarrow> (u32 \<Rightarrow> u32) \<Rightarrow> (u32 \<Rightarrow> u32) option" where
  "clear_column c i [] m = Some m"
| "clear_column c i (j # js) m = Option.bind (ctx_at c i (int j)) (\<lambda>a. clear_column c i js (m(a := 0)))"

fun clear_columns :: "cscontext \<Rightarrow> nat list \<Rightarrow> (u32 \<Rightarrow> u32) \<Rightarrow> (u32 \<Rightarrow> u32) option" where
  "clear_columns c [] m = Some m"
| "clear_columns c (i # is) m = Option.bind (clear_column c (int i) [0..<nat (ctx_sy c)] m) (clear_columns c is)"

definition ctx_clear :: "cscontext \<Rightarrow> (u32 \<Rightarrow> u32) \<Rightarrow> (u32 \<Rightarrow> u32) option" where
  "ctx_clear c m = clear_columns c [0..<nat (ctx_sx c)] m"

subsection \<open>os/usr/cserv/main.cpp\<close>

text \<open>\<open>None\<close>: the lock is held, and the caller waits for it.\<close>

definition cs_lock :: "cserver \<Rightarrow> cserver option" where
  "cs_lock s = (if processes_lock s then None else Some (s\<lparr>processes_lock := True\<rparr>))"

definition cs_unlock :: "cserver \<Rightarrow> cserver" where
  "cs_unlock s = s\<lparr>processes_lock := False\<rparr>"

definition send_key :: "csenv \<Rightarrow> u32 \<Rightarrow> key_event \<Rightarrow> cserver \<Rightarrow> cserver" where
  "send_key E p ev s =
     (if key ev \<noteq> 0 \<and> kstate ev = 1 \<and> has_stdin E p
      then s\<lparr>stdins := (stdins s)(p := if length (stdins s p) < stdin_room E p then stdins s p @ [key ev] else stdins s p)\<rparr>
      else s)"

fun key_loop :: "csenv \<Rightarrow> u32 \<Rightarrow> u8 list \<Rightarrow> cserver \<Rightarrow> cserver" where
  "key_loop E p [] s = s"
| "key_loop E p (c # codes) s =
     (if c = 0 then s
      else let (ev, kb) = kbd_key_event c (key_block E (key_blocks s), kbd_mods s)
           in key_loop E p codes (send_key E p ev (s\<lparr>kbd_mods := kb, key_blocks := key_blocks s + 1\<rparr>)))"

definition process_one :: "csenv \<Rightarrow> cspacket \<Rightarrow> cserver \<Rightarrow> cserver option" where
  "process_one E packet s =
     (let filtered = (case active_process s of None \<Rightarrow> False | Some a \<Rightarrow> packet_filter a packet) in
      if pk_type packet = CS_TYPE_PROCESS then
        let process = CreateProcess (BUFFER packet 0) 0 0 (BUFFER packet 1) (BUFFER packet 2) in
        Option.bind (cs_lock s) (\<lambda>s.
        let s = cs_unlock (S_AddProcess process s) in
        Some (if active_process s = None then s\<lparr>active_process := Some process\<rparr> else s))
      else if pk_type packet = CS_TYPE_ACTIVATE then
        Option.bind (cs_lock s) (\<lambda>s.
        let s = (case get_process (BUFFER packet 0) (processes s) of
                   None \<Rightarrow> s | Some proc \<Rightarrow> s\<lparr>active_process := Some proc\<rparr>)
        in Some (cs_unlock s))
      else if pk_type packet = CS_TYPE_TERMINATE then Some s
      else if pk_type packet = CS_TYPE_KEY \<and> active_process s \<noteq> None \<and> \<not> filtered then
        Some (key_loop E (cs_pid (the (active_process s))) (pk_buffer packet) s)
      else if active_process s \<noteq> None \<and> filtered then
        let p = cs_pid (the (active_process s)) in
        Some (if has_sock E p then s\<lparr>socks := (socks s)(p := socks s p @ packet_bytes packet)\<rparr> else s)
      else Some s)"

text \<open>\<open>k\<close> bounds the number of packets.\<close>

fun process_packet :: "nat \<Rightarrow> csenv \<Rightarrow> cserver \<Rightarrow> cserver res option" where
  "process_packet 0 E s = None"
| "process_packet (Suc k) E s =
     res_bind (S_LastPacket s) (\<lambda>(packet, s).
       case packet of
         None \<Rightarrow> Some (Inr s)
       | Some pk \<Rightarrow> Option.bind (process_one E pk s) (process_packet k E))"

record mouse_move =
  x_mov :: int
  y_mov :: int
  buttons :: u8

definition move_pointer :: "mouse_move \<Rightarrow> cserver \<Rightarrow> cserver" where
  "move_pointer p s =
     (let s = s\<lparr>mx := mx s + x_mov p sdiv 2\<rparr>;
          s = s\<lparr>my := my s - y_mov p sdiv 2\<rparr>;
          s = (if mx s < 0 then s\<lparr>mx := 0\<rparr> else s);
          s = (if my s < 0 then s\<lparr>my := 0\<rparr> else s);
          s = (if mx s > 1023 then s\<lparr>mx := 1023\<rparr> else s);
          s = (if my s > 767 then s\<lparr>my := 767\<rparr> else s)
      in if buttons p \<noteq> 0 then s\<lparr>clks := clks s + 1\<rparr> else s)"

text \<open>One round of the main loop: the descriptor that woke the server, what is read from the keyboard (at most
  128 bytes) and from the mouse.\<close>

definition cserv_round :: "nat \<Rightarrow> csenv \<Rightarrow> cspacket \<Rightarrow> u32 \<Rightarrow> u8 list \<Rightarrow> mouse_move list \<Rightarrow> cserver \<Rightarrow> cserver res option" where
  "cserv_round k E stale node keys packets s =
     res_bind
       (if node = 0 then
          let pack = CreatePacket stale CS_TYPE_KEY
          in C_SendPacket E (pack\<lparr>pk_buffer := keys @ drop (length keys) (pk_buffer pack)\<rparr>) s
        else Some (Inr s)) (\<lambda>s.
     process_packet k E (if node = 1 then fold move_pointer packets s else s))"

text \<open>One round of the drawing thread. The argument \<open>shm\<close> gives for a process the offset of its block after
  \<open>sys_shmem_open\<close> and the words that the server then sees in shared memory.\<close>

definition open_shm :: "(u32 \<Rightarrow> u32 \<times> (u32 \<Rightarrow> u32)) \<Rightarrow> u32 \<Rightarrow> fbuf \<Rightarrow> u32 \<times> fbuf" where
  "open_shm shm p f =
     (fst (shm p), f\<lparr>vmem := (\<lambda>a. if SHARED_MEMORY_START \<le> a \<and> a < LFB then snd (shm p) a else vmem f a)\<rparr>)"

definition draw_process :: "(u32 \<Rightarrow> u32 \<times> (u32 \<Rightarrow> u32)) \<Rightarrow> csprocess \<Rightarrow> fbuf \<Rightarrow> fbuf" where
  "draw_process shm proc f =
     (let (offset, f) = open_shm shm (cs_pid proc) f
      in fb_inject_buffer (sint (pos_x proc)) (sint (pos_y proc)) (sint (canvas_size_x proc)) (sint (canvas_size_y proc))
           (SHARED_MEMORY_START + offset) 0 f)"

definition render_round :: "(u32 \<Rightarrow> u32 \<times> (u32 \<Rightarrow> u32)) \<Rightarrow> cserver \<Rightarrow> fbuf \<Rightarrow> (cserver \<times> fbuf) option" where
  "render_round shm s f =
     (let f = fb_rect 0 0 1024 768 0 1 0 f in
      Option.bind (cs_lock s) (\<lambda>s.
      let f = fold (draw_process shm) (processes s) f;
          s = cs_unlock s;
          f = fb_rect (mx s) (my s) 4 4 0x0000FF00 1 0 f
      in Some (s, fb_swapbuffers f)))"

subsection \<open>Packets through the pipe\<close>

lemma le_word_bytes [simp]: "le_word (le_bytes w) = w"
proof -
  have "bit (le_word (le_bytes w)) n = bit w n" for n
    by (cases "n < 8"; cases "n < 16"; cases "n < 24"; cases "n < 32")
      (auto simp: le_word_def le_bytes_def bit_simps dest: bit_imp_le_length)
  then show ?thesis by (intro bit_eqI) simp
qed

lemma length_le_bytes [simp]: "length (le_bytes w) = 4"
  by (simp add: le_bytes_def)

definition packet_ok :: "cspacket \<Rightarrow> bool" where
  "packet_ok pk \<longleftrightarrow> length (pk_buffer pk) = 128 \<and> length (pk_pad pk) = 3"

lemma length_packet_bytes [simp]: "packet_ok pk \<Longrightarrow> length (packet_bytes pk) = 136"
  by (simp add: packet_bytes_def packet_ok_def)

lemma packet_of_bytes [simp]: "packet_ok pk \<Longrightarrow> packet_of (packet_bytes pk) = pk"
  by (cases pk) (simp add: packet_of_def packet_bytes_def packet_ok_def nth_append)

lemma BUFFER_0 [simp]: "length (pk_buffer pk) = 128 \<Longrightarrow> BUFFER (put_BUFFER 0 w pk) 0 = w"
  by (simp add: BUFFER_def put_BUFFER_def)

lemma BUFFER_put:
  assumes "length (pk_buffer pk) = 128" "i < 32" "j < 32"
  shows "BUFFER (put_BUFFER i w pk) j = (if i = j then w else BUFFER pk j)"
proof -
  consider "i = j" | "i < j" | "j < i" by linarith
  then show ?thesis
  proof cases
    case 2
    then have "4 * j - 4 * i = 4 + (4 * j - (4 * i + 4))" by simp
    then show ?thesis using 2 assms by (simp add: BUFFER_def put_BUFFER_def drop_drop)
  next
    case 3
    then have "4 + 4 * j \<le> 4 * i" by simp
    then show ?thesis using 3 assms by (simp add: BUFFER_def put_BUFFER_def take_drop add.commute min_def)
  qed (use assms in \<open>simp add: BUFFER_def put_BUFFER_def\<close>)
qed

text \<open>The pipe of the server: whole packets are in it.\<close>

definition pipe_holds :: "cspacket list \<Rightarrow> pipe_info \<Rightarrow> bool" where
  "pipe_holds pks p \<longleftrightarrow> pipe_inv p \<and> \<not> lock p \<and> waiters_ok p \<and> psize p = 132000
     \<and> pipe_contents p = concat (map packet_bytes pks) \<and> (\<forall>pk \<in> set pks. packet_ok pk)"

lemma length_packets: "\<forall>pk \<in> set pks. packet_ok pk \<Longrightarrow> length (concat (map packet_bytes pks)) = 136 * length pks"
  by (induction pks) simp_all

lemma pipe_holds_length:
  assumes "pipe_holds pks p"
  shows "136 * length pks < 132000"
proof -
  have i: "pipe_inv p" and z: "psize p = 132000" using assms by (simp_all add: pipe_holds_def)
  have "length (pipe_contents p) = 136 * length pks" using assms length_packets by (simp add: pipe_holds_def)
  moreover have "length (pipe_contents p) = pipe_count p" by (simp add: pipe_contents_def)
  ultimately show ?thesis using pipe_count_less [OF i] z by simp
qed

lemma pipe_write_packet:
  assumes h: "pipe_holds pks p" and n: "length pks < 970" and v: "valid E (pnode E)" "valid E (pinfo E)" and k: "packet_ok pk"
  shows "\<exists>ws p'. pipe_write (valid E) (pnode E) (pinfo E) (waiting E) (packet_bytes pk) p = Some (Inr (136, ws, p')) \<and> pipe_holds (pks @ [pk]) p'"
proof -
  have h': "pipe_inv p" "\<not> lock p" "waiters_ok p" and z: "psize p = 132000" using h by (simp_all add: pipe_holds_def)
  have c: "length (pipe_contents p) = 136 * length pks" using h length_packets by (simp add: pipe_holds_def)
  have m: "min (length (packet_bytes pk)) (pipe_capacity p - length (pipe_contents p)) = 136"
    using c k n by (simp add: pipe_capacity_def z)
  obtain p1 r w' where p1: "pipe_inv p1" "pipe_contents p1 = pipe_contents p @ take 136 (packet_bytes pk)" "psize p1 = psize p"
      "pipe_write (valid E) (pnode E) (pinfo E) (waiting E) (packet_bytes pk) p = Some (Inr (136, r, p1\<lparr>waiters := w', lock := False\<rparr>))"
      "waiters_ok (p1\<lparr>waiters := w'\<rparr>)"
    using pipe_write_run [OF h'(1,2) v h'(3), where data = "packet_bytes pk" and awaits = "waiting E"] unfolding m by auto
  then have "pipe_holds (pks @ [pk]) (p1\<lparr>waiters := w', lock := False\<rparr>)"
    using h k by (auto simp: pipe_holds_def waiters_ok_def waiter_list_def pipe_inv_def pipe_contents_def pipe_count_def)
  with p1(4) show ?thesis by blast
qed

lemma pipe_read_loop_waiters:
  "pipe_read_loop n p = Inr (bs, p') \<Longrightarrow> waiters p' = waiters p \<and> waiters_cnt p' = waiters_cnt p"
  by (induction n arbitrary: p bs)
    (force simp: pipe_get_def sbind_eq_Inr_iff Let_def split: if_splits)+

lemma pipe_read_packets:
  assumes h: "pipe_holds pks p"
  shows "\<exists>p'. pipe_read 136 p = Some (Inr (case pks of [] \<Rightarrow> [] | pk # _ \<Rightarrow> packet_bytes pk, if pks = [] then 0 else 136, p'))
    \<and> pipe_holds (tl pks) p'"
proof -
  let ?p = "p\<lparr>lock := True\<rparr>" and ?bs = "take 136 (pipe_contents p)"
  have i: "pipe_inv ?p" and l: "\<not> lock p" using h by (simp_all add: pipe_holds_def)
  obtain p1 where p1: "pipe_read_loop 136 ?p = Inr (?bs, p1)" "p1 = snd (pf.gets 136 ?p)" "psize p1 = psize p"
      "waiters p1 = waiters p" "waiters_cnt p1 = waiters_cnt p"
    using pipe_read_loop_gets [OF i, of 136] pf.gets_result [OF i, of 136] pipe_read_loop_waiters [of 136 ?p] by fastforce
  then have "pipe_inv p1" "pipe_contents p1 = drop 136 (pipe_contents p)"
    using pf.gets_inv [OF i] pf.gets_contents [OF i] by simp_all
  moreover have "?bs = (case pks of [] \<Rightarrow> [] | pk # _ \<Rightarrow> packet_bytes pk)" "drop 136 (pipe_contents p) = concat (map packet_bytes (tl pks))"
    using h by (cases pks; simp add: pipe_holds_def)+
  moreover have "\<forall>pk \<in> set (tl pks). packet_ok pk" using h by (cases pks) (simp_all add: pipe_holds_def)
  ultimately have "pipe_holds (tl pks) (p1\<lparr>lock := False\<rparr>)"
    using h p1 by (simp add: pipe_holds_def waiters_ok_def waiter_list_def)
  moreover have "length ?bs = (if pks = [] then 0 else 136)" using h by (cases pks) (simp_all add: pipe_holds_def)
  ultimately show ?thesis using l p1(1) \<open>?bs = _\<close> by (auto simp: pipe_read_def lock_spin_def unlock_spin_def)
qed

text \<open>The stream of the server after \<open>n\<close> packets that were read without an end in between. \<open>sys_fstat\<close> gives a pipe the
  size zero, so the stream never notices an end.\<close>

definition stream_at :: "nat \<Rightarrow> stream \<Rightarrow> bool" where
  "stream_at n f \<longleftrightarrow> f_eof f = 0 \<and> f_size f = 0 \<and> f_offset f = of_nat (136 * n)"

definition with_pipe :: "stream \<Rightarrow> pipe_info \<Rightarrow> cserver \<Rightarrow> cserver" where
  "with_pipe f p s = s\<lparr>server_pipe := Some f, srv_pipe := p\<rparr>"

lemma with_pipe_simps [simp]: "server_pipe (with_pipe f p s) = Some f" "srv_pipe (with_pipe f p s) = p"
    "processes (with_pipe f p s) = processes s" "processes_lock (with_pipe f p s) = processes_lock s"
    "active_process (with_pipe f p s) = active_process s" "mx (with_pipe f p s) = mx s" "my (with_pipe f p s) = my s"
    "stdins (with_pipe f p s) = stdins s" "kbd_mods (with_pipe f p s) = kbd_mods s" "with_pipe f p (with_pipe f' p' s) = with_pipe f p s"
  by (simp_all add: with_pipe_def)

lemma with_pipe_update: "s\<lparr>server_pipe := Some f, srv_pipe := p\<rparr> = with_pipe f p s"
  by (simp add: with_pipe_def)

lemma sint_of_nat_u32: "n < 2147483648 \<Longrightarrow> sint (of_nat n :: u32) = int n"
  by (simp add: sint_uint unsigned_of_nat take_bit_int_eq_self signed_take_bit_int_eq_self take_bit_nat_eq_self)

lemma stream_at_advance: "stream_at n f \<Longrightarrow> stream_at (Suc n) (advance 136 f)"
  by (simp add: stream_at_def advance_def Let_def add.commute)

lemma stream_at_rewind: "stream_at n f \<Longrightarrow> stream_at 0 (rewind f)" "stream_at n f \<Longrightarrow> stream_at 0 (rewind (advance m f))"
  by (simp_all add: stream_at_def rewind_def advance_def Let_def)

lemma div_136 [simp]: "(136 :: u32) div 136 = 1" "(0 :: u32) div 136 = 0"
  by simp_all

lemma C_SendPacket_puts:
  assumes "server_pipe s = Some f" "stream_at n f" "pipe_holds pks (srv_pipe s)" "length pks < 970"
    "valid E (pnode E)" "valid E (pinfo E)" "packet_ok pk"
  shows "\<exists>f' p'. C_SendPacket E pk s = Some (Inr (with_pipe f' p' s)) \<and> stream_at 0 f' \<and> pipe_holds (pks @ [pk]) p'"
proof -
  obtain ws p' where "pipe_write (valid E) (pnode E) (pinfo E) (waiting E) (packet_bytes pk) (srv_pipe s) = Some (Inr (136, ws, p'))"
      "pipe_holds (pks @ [pk]) p'"
    using pipe_write_packet [OF assms(3-7)] by blast
  moreover have "f_eof f = 0" using assms(2) by (simp add: stream_at_def)
  ultimately show ?thesis using assms(1) stream_at_rewind(2) [OF assms(2), of 136]
    by (auto simp: C_SendPacket_def fwrite_packet_def with_pipe_update)
qed

lemma S_LastPacket_gets:
  assumes "stream_at n f" "pipe_holds pks p"
  shows "\<exists>f' p'. S_LastPacket (with_pipe f p s) =
      Some (Inr (case pks of [] \<Rightarrow> None | pk # _ \<Rightarrow> Some pk, with_pipe f' p' s))
    \<and> stream_at (if pks = [] then 0 else Suc n) f' \<and> pipe_holds (tl pks) p'"
proof -
  obtain p' where r: "pipe_read 136 p = Some (Inr (case pks of [] \<Rightarrow> [] | pk # _ \<Rightarrow> packet_bytes pk, if pks = [] then 0 else 136, p'))"
      "pipe_holds (tl pks) p'"
    using pipe_read_packets [OF assms(2)] by blast
  have e: "f_eof f = 0" using assms(1) by (simp add: stream_at_def)
  show ?thesis
  proof (cases pks)
    case Nil
    then show ?thesis using r e stream_at_rewind(2) [OF assms(1), of 0]
      by (auto simp: S_LastPacket_def fread_packet_def with_pipe_update)
  next
    case (Cons pk rest)
    have "packet_ok pk" using assms(2) Cons by (simp add: pipe_holds_def)
    then show ?thesis using r e Cons stream_at_advance [OF assms(1)]
      by (auto simp: S_LastPacket_def fread_packet_def with_pipe_update)
  qed
qed

fun handle_all :: "csenv \<Rightarrow> cspacket list \<Rightarrow> cserver \<Rightarrow> cserver option" where
  "handle_all E [] s = Some s"
| "handle_all E (pk # pks) s = Option.bind (process_one E pk s) (handle_all E pks)"

lemma key_loop_with_pipe: "key_loop E p codes (with_pipe f q s) = with_pipe f q (key_loop E p codes s)"
proof (induction codes arbitrary: s)
  case (Cons c codes)
  obtain ev kb where ev: "kbd_key_event c (key_block E (key_blocks s), kbd_mods s) = (ev, kb)" by fastforce
  have "send_key E p ev ((with_pipe f q s)\<lparr>kbd_mods := kb, key_blocks := key_blocks s + 1\<rparr>)
      = with_pipe f q (send_key E p ev (s\<lparr>kbd_mods := kb, key_blocks := key_blocks s + 1\<rparr>))"
    by (simp add: send_key_def with_pipe_def)
  then show ?case using Cons ev by (simp add: with_pipe_def)
qed simp

lemma state_with_pipe:
  "cs_lock (with_pipe f p s) = map_option (with_pipe f p) (cs_lock s)" "cs_unlock (with_pipe f p s) = with_pipe f p (cs_unlock s)"
  "S_AddProcess a (with_pipe f p s) = with_pipe f p (S_AddProcess a s)"
  "(with_pipe f p s)\<lparr>active_process := x\<rparr> = with_pipe f p (s\<lparr>active_process := x\<rparr>)"
  "(with_pipe f p s)\<lparr>socks := y\<rparr> = with_pipe f p (s\<lparr>socks := y\<rparr>)" "socks (with_pipe f p s) = socks s"
  by (simp_all add: with_pipe_def cs_lock_def cs_unlock_def S_AddProcess_def S_GetProcess_def)

lemma process_one_with_pipe: "process_one E pk (with_pipe f p s) = map_option (with_pipe f p) (process_one E pk s)"
proof -
  have m: "Option.bind (map_option g x) h = Option.bind x (\<lambda>y. h (g y))" "map_option g (Option.bind x k) = Option.bind x (\<lambda>y. map_option g (k y))"
    for g :: "cserver \<Rightarrow> cserver" and x h k by (cases x; simp)+
  show ?thesis
    by (simp add: process_one_def Let_def state_with_pipe key_loop_with_pipe m if_distrib [of "map_option _"]
      if_distrib [of "with_pipe _ _"] option.case_distrib [of "with_pipe _ _"] cong: if_cong option.case_cong)
      (cases "cs_lock s"; simp add: state_with_pipe split: option.splits)
qed

lemma process_packet_drains:
  assumes "handle_all E pks s = Some s'" "stream_at n f" "pipe_holds pks p" "length pks < k"
  shows "\<exists>f' p'. process_packet k E (with_pipe f p s) = Some (Inr (with_pipe f' p' s')) \<and> stream_at 0 f' \<and> pipe_holds [] p'"
  using assms
proof (induction pks arbitrary: s n f p k)
  case Nil
  then obtain k' where "k = Suc k'" by (cases k) auto
  then show ?case using S_LastPacket_gets [OF Nil.prems(2,3), of s] Nil.prems(1) by fastforce
next
  case (Cons pk pks)
  obtain k' where k: "k = Suc k'" using Cons.prems(4) by (cases k) auto
  obtain s1 where s1: "process_one E pk s = Some s1" "handle_all E pks s1 = Some s'" using Cons.prems(1) by (auto simp: bind_eq_Some_conv)
  obtain f1 p1 where l: "S_LastPacket (with_pipe f p s) = Some (Inr (Some pk, with_pipe f1 p1 s))" "stream_at (Suc n) f1" "pipe_holds pks p1"
    using S_LastPacket_gets [OF Cons.prems(2,3), of s] by auto
  then show ?case using Cons.IH [OF s1(2) l(2,3), of k'] Cons.prems(4) k s1(1) by (simp add: process_one_with_pipe)
qed

text \<open>With the lock free every packet is handled.\<close>

lemma key_loop_lock [simp]: "processes_lock (key_loop E p codes s) = processes_lock s"
    "processes (key_loop E p codes s) = processes s" "active_process (key_loop E p codes s) = active_process s"
    "mx (key_loop E p codes s) = mx s" "my (key_loop E p codes s) = my s"
proof (induction codes arbitrary: s)
  case (Cons c codes)
  { case 1 show ?case using Cons(1) by (auto simp: send_key_def split: prod.splits) }
  { case 2 show ?case using Cons(2) by (auto simp: send_key_def split: prod.splits) }
  { case 3 show ?case using Cons(3) by (auto simp: send_key_def split: prod.splits) }
  { case 4 show ?case using Cons(4) by (auto simp: send_key_def split: prod.splits) }
  { case 5 show ?case using Cons(5) by (auto simp: send_key_def split: prod.splits) }
qed simp_all

definition server_ok :: "cserver \<Rightarrow> bool" where
  "server_ok s \<longleftrightarrow> distinct (map cs_pid (processes s)) \<and> (\<forall>a \<in> set (processes s). packet_filter a = (\<lambda>_. False))
     \<and> (case active_process s of None \<Rightarrow> processes s = [] | Some a \<Rightarrow> a \<in> set (processes s))
     \<and> 0 \<le> mx s \<and> mx s < 1024 \<and> 0 \<le> my s \<and> my s < 768 \<and> \<not> processes_lock s"

lemma get_process_iff: "get_process p ps = None \<longleftrightarrow> p \<notin> cs_pid ` set ps"
  by (induction ps) auto

lemma get_process_in: "get_process p ps = Some a \<Longrightarrow> a \<in> set ps \<and> cs_pid a = p"
  by (induction ps) (auto split: if_splits)

lemma process_one_ok:
  assumes "server_ok s"
  shows "\<exists>s'. process_one E pk s = Some s' \<and> server_ok s'"
proof (cases "pk_type pk \<in> {CS_TYPE_PROCESS, CS_TYPE_ACTIVATE}")
  case True
  then show ?thesis using assms get_process_in [of "BUFFER pk 0" "processes s"]
    by (auto simp: process_one_def Let_def cs_lock_def cs_unlock_def server_ok_def S_AddProcess_def S_GetProcess_def
      CreateProcess_def get_process_iff split: option.splits)
next
  case False
  then show ?thesis using assms by (auto simp: process_one_def Let_def server_ok_def split: option.splits)
qed

lemma handle_all_ok: "server_ok s \<Longrightarrow> \<exists>s'. handle_all E pks s = Some s' \<and> server_ok s'"
proof (induction pks arbitrary: s)
  case (Cons pk pks)
  then show ?case using process_one_ok [OF Cons.prems, of E pk] by auto
qed simp

lemma move_pointer_ok: "server_ok s \<Longrightarrow> server_ok (move_pointer p s)"
proof -
  assume s: "server_ok s"
  have "processes (move_pointer p s) = processes s" "active_process (move_pointer p s) = active_process s"
      "processes_lock (move_pointer p s) = processes_lock s"
      "0 \<le> mx (move_pointer p s)" "mx (move_pointer p s) < 1024" "0 \<le> my (move_pointer p s)" "my (move_pointer p s) < 768"
    by (simp_all add: move_pointer_def Let_def)
  then show ?thesis using s by (simp add: server_ok_def split: option.splits)
qed

lemma move_pointers_ok: "server_ok s \<Longrightarrow> server_ok (fold move_pointer ps s)"
  by (induction ps arbitrary: s) (simp_all add: move_pointer_ok)

lemma move_pointers_frame: "server_pipe (fold move_pointer moves s) = server_pipe s \<and> srv_pipe (fold move_pointer moves s) = srv_pipe s"
  by (induction moves arbitrary: s) (simp_all add: move_pointer_def Let_def)

lemma with_pipe_same: "server_pipe s = Some f \<Longrightarrow> with_pipe f (srv_pipe s) s = s"
  by (simp add: with_pipe_def)

lemma round_key:
  assumes "server_ok s" "server_pipe s = Some f" "stream_at 0 f" "pipe_holds pks (srv_pipe s)" "length pks < 970"
    "valid E (pnode E)" "valid E (pinfo E)" "length keys \<le> 128" "length (pk_pad stale) = 3" "length pks + 1 < k"
  shows "\<exists>f' p' s'. cserv_round k E stale 0 keys moves s = Some (Inr (with_pipe f' p' s'))
    \<and> handle_all E (pks @ [stale\<lparr>pk_type := CS_TYPE_KEY, pk_buffer := keys @ replicate (128 - length keys) 0\<rparr>]) s = Some s'
    \<and> stream_at 0 f' \<and> pipe_holds [] p' \<and> server_ok s'"
proof -
  let ?pk = "stale\<lparr>pk_type := CS_TYPE_KEY, pk_buffer := keys @ replicate (128 - length keys) 0\<rparr>"
  have "packet_ok ?pk" using assms(8,9) by (simp add: packet_ok_def)
  then obtain f1 p1 where send: "C_SendPacket E ?pk s = Some (Inr (with_pipe f1 p1 s))" "stream_at 0 f1" "pipe_holds (pks @ [?pk]) p1"
    using C_SendPacket_puts [OF assms(2-7)] by blast
  obtain s' where h: "handle_all E (pks @ [?pk]) s = Some s'" "server_ok s'" using handle_all_ok [OF assms(1)] by blast
  show ?thesis using process_packet_drains [OF h(1) send(2,3), of k] send(1) h assms(8,10)
    by (simp add: cserv_round_def CreatePacket_def Let_def)
qed

text \<open>C27: a round of the server completes and handles every packet once and in order. Whatever whole packets
  the clients have put into the pipe (of 132000 bytes, its lock free) and whatever woke the server, it handles them
  one after the other, then the packet with the at most 128 bytes that were read from the keyboard, which it sends
  to itself through the same pipe, and leaves the pipe empty, the stream at its start and the state consistent (no
  two processes with the same number, no packet filter, the active process one of the list, the pointer on the
  screen, the lock free). When a key woke it, at most 969 packets may be waiting: beyond that the pipe has no room
  for the whole packet, and a cut one puts all that follow out of step. The stream is that of a pipe as
  \<open>fopen\<close> opens it: size zero.\<close>

theorem round_handles_packets:
  assumes "server_ok s" "server_pipe s = Some f" "stream_at 0 f" "pipe_holds pks (srv_pipe s)" "node = 0 \<Longrightarrow> length pks < 970"
    "valid E (pnode E)" "valid E (pinfo E)" "length keys \<le> 128" "length (pk_pad stale) = 3" "length pks + 1 < k"
  shows "\<exists>f' p' s'. cserv_round k E stale node keys moves s = Some (Inr (with_pipe f' p' s'))
    \<and> handle_all E (pks @ (if node = 0 then [stale\<lparr>pk_type := CS_TYPE_KEY, pk_buffer := keys @ replicate (128 - length keys) 0\<rparr>] else []))
        (if node = 1 then fold move_pointer moves s else s) = Some s'
    \<and> stream_at 0 f' \<and> pipe_holds [] p' \<and> server_ok s'"
proof (cases "node = 0")
  case True
  then show ?thesis using round_key [OF assms(1-4) assms(5) [OF True] assms(6-10)] by simp
next
  case False
  define t where "t = (if node = 1 then fold move_pointer moves s else s)"
  have "server_ok t" using move_pointers_ok assms(1) by (simp add: t_def)
  then obtain s' where h: "handle_all E pks t = Some s'" "server_ok s'" using handle_all_ok by blast
  have "with_pipe f (srv_pipe s) t = t"
    using move_pointers_frame [of moves s] with_pipe_same [of t f] assms(2) by (auto simp: t_def)
  then show ?thesis using process_packet_drains [OF h(1) assms(3,4), of k] h assms(10) False
    by (simp add: cserv_round_def t_def [symmetric])
qed

definition server_env :: csenv where
  "server_env = \<lparr>valid = (\<lambda>a. a \<noteq> 0), pnode = 1, pinfo = 2, waiting = (\<lambda>_. 0), key_block = (\<lambda>_. \<lparr>keycode = 0, kstate = 0, key = 0\<rparr>),
     has_stdin = (\<lambda>_. True), stdin_room = (\<lambda>_. 255), has_sock = (\<lambda>_. True)\<rparr>"

definition server_pipe_one :: pipe_info where
  "server_pipe_one = \<lparr>buffer = replicate 132000 0, psize = 132000, write_ptr = 0, read_ptr = 0, waiters = None, waiters_cnt = 0, lock = False\<rparr>"

definition server_one :: cserver where
  "server_one = \<lparr>server_pipe = Some (zero_stream), srv_pipe = server_pipe_one,
     processes = [CreateProcess 7 0 0 640 480, CreateProcess 9 0 0 100 100],
     processes_lock = False, active_process = Some (CreateProcess 7 0 0 640 480), mx = 5, my = 767, clks = 0,
     kbd_mods = \<lparr>ctrl = 0, shift = 0\<rparr>, key_blocks = 0, stdins = (\<lambda>_. []), socks = (\<lambda>_. [])\<rparr>"

definition packet_one :: cspacket where
  "packet_one = \<lparr>pk_type = CS_TYPE_ACTIVATE, pk_flags = 0, pk_buffer = 9 # replicate 127 0, pk_pad = [0, 0, 0]\<rparr>"

lemma server_one_ok: "server_ok server_one" "server_pipe server_one = Some (zero_stream)"
    "stream_at 0 (zero_stream)" "srv_pipe server_one = server_pipe_one" "kbd_mods server_one = \<lparr>ctrl = 0, shift = 0\<rparr>"
    "valid server_env (pnode server_env)" "valid server_env (pinfo server_env)"
  by (simp_all add: server_ok_def server_one_def CreateProcess_def stream_at_def zero_stream_def server_env_def)

lemma server_pipe_one_empty: "pipe_holds [] server_pipe_one"
  by (simp add: pipe_holds_def pipe_inv_def server_pipe_one_def waiters_ok_def waiter_list_def pipe_contents_def pipe_count_def)

lemma round_handles_packets_witness:
  "\<exists>f' p' s'. cserv_round 2 server_env packet_one 1 [] [\<lparr>x_mov = - 20, y_mov = 3, buttons = 1\<rparr>] server_one = Some (Inr (with_pipe f' p' s'))
    \<and> handle_all server_env [] (fold move_pointer [\<lparr>x_mov = - 20, y_mov = 3, buttons = 1\<rparr>] server_one) = Some s'
    \<and> stream_at 0 f' \<and> pipe_holds [] p' \<and> server_ok s'"
  using round_handles_packets [OF server_one_ok(1,2,3), where pks = "[]" and E = server_env and keys = "[]" and stale = packet_one and k = 2 and node = 1
      and moves = "[\<lparr>x_mov = - 20, y_mov = 3, buttons = 1\<rparr>]"]
    server_one_ok(4,6,7) server_pipe_one_empty
  by (simp add: packet_one_def)

subsection \<open>Typing\<close>

text \<open>What a user types: every press of a common key is a character under the modifiers held down then; a zero
  ends the input.\<close>

definition typed_char :: "kbd \<Rightarrow> u8 \<Rightarrow> u8" where
  "typed_char m c =
     (if unat c < 128 \<and> key_type ! unat c = 1 then
        (if ctrl m \<noteq> 0 then ctrl_key (kbd_us_l1 ! unat c) else if shift m \<noteq> 0 then kbd_us_l2 ! unat c else kbd_us_l1 ! unat c)
      else 0)"

fun typed :: "u8 list \<Rightarrow> kbd \<Rightarrow> u8 list" where
  "typed [] m = []"
| "typed (c # codes) m =
     (if c = 0 then []
      else filter (\<lambda>x. x \<noteq> 0) [typed_char m c]
        @ typed codes \<lparr>ctrl = modifier {0x1D} [c] (ctrl m), shift = modifier {0x2A, 0x36} [c] (shift m)\<rparr>)"

definition blank_keys :: "csenv \<Rightarrow> bool" where
  "blank_keys E \<longleftrightarrow> (\<forall>n. key (key_block E n) = 0)"

lemma high_bit: "(c :: u8) AND 0x80 = 0 \<longleftrightarrow> unat c < 128"
proof -
  have "(c AND 0x80 = 0) = (\<not> bit (unat c) 7)" using and_exp_eq_0_iff_not_bit [of c 7] by (simp add: bit_unsigned_iff)
  also have "\<dots> = even (unat c div 128)" by (simp add: bit_iff_odd)
  also have "\<dots> = (unat c div 128 = 0)"
  proof -
    have "unat c div 128 = 0 \<or> unat c div 128 = 1" using unat_u8_less [of c] by linarith
    then show ?thesis by auto
  qed
  finally show ?thesis by auto
qed

lemma key_event_sent:
  assumes "key ev = 0" "kbd_key_event c (ev, m) = (ev', m')"
  shows "(if key ev' \<noteq> 0 \<and> kstate ev' = 1 then [key ev'] else []) = filter (\<lambda>x. x \<noteq> 0) [typed_char m c]"
    and "m' = \<lparr>ctrl = modifier {0x1D} [c] (ctrl m), shift = modifier {0x2A, 0x36} [c] (shift m)\<rparr>"
proof -
  show "m' = \<lparr>ctrl = modifier {0x1D} [c] (ctrl m), shift = modifier {0x2A, 0x36} [c] (shift m)\<rparr>"
    using kbd_key_event_modifiers [of c ev m] assms(2) by simp
  show "(if key ev' \<noteq> 0 \<and> kstate ev' = 1 then [key ev'] else []) = filter (\<lambda>x. x \<noteq> 0) [typed_char m c]"
    using assms by (auto simp: kbd_key_event_def typed_char_def Let_def high_bit split: if_splits)
qed

lemma key_loop_types:
  assumes "blank_keys E" "has_stdin E p" "length (stdins s p) \<le> stdin_room E p"
  shows "stdins (key_loop E p codes s) = (stdins s)(p := take (stdin_room E p) (stdins s p @ typed codes (kbd_mods s)))"
  using assms(3)
proof (induction codes arbitrary: s)
  case (Cons c codes)
  let ?ev = "key_block E (key_blocks s)"
  define F where "F = filter (\<lambda>x. x \<noteq> 0) [typed_char (kbd_mods s) c]"
  define M where "M = \<lparr>ctrl = modifier {0x1D} [c] (ctrl (kbd_mods s)), shift = modifier {0x2A, 0x36} [c] (shift (kbd_mods s))\<rparr>"
  obtain ev m where k: "kbd_key_event c (?ev, kbd_mods s) = (ev, m)" by fastforce
  have "key ?ev = 0" using assms(1) by (simp add: blank_keys_def)
  note e = key_event_sent [OF this k, folded F_def M_def]
  define t where "t = send_key E p ev (s\<lparr>kbd_mods := m, key_blocks := key_blocks s + 1\<rparr>)"
  have t: "stdins t = (stdins s)(p := take (stdin_room E p) (stdins s p @ F))" "kbd_mods t = M"
    using assms(2) Cons.prems unfolding t_def e(1) [symmetric] e(2) by (simp_all add: send_key_def)
  have tk: "take n (take n xs @ ys) = take n (xs @ ys)" for n and xs ys :: "u8 list" by (cases "length xs \<le> n") simp_all
  have "key_loop E p (c # codes) s = (if c = 0 then s else key_loop E p codes t)"
    using k by (simp only: key_loop.simps t_def Let_def prod.case)
  moreover have "typed (c # codes) (kbd_mods s) = (if c = 0 then [] else F @ typed codes M)"
    by (simp only: typed.simps F_def M_def)
  moreover have "length (stdins t p) \<le> stdin_room E p" unfolding t(1) by simp
  note IH = Cons.IH [OF this, unfolded t fun_upd_same fun_upd_upd tk append_assoc]
  ultimately show ?case using IH Cons.prems
    by (cases "c = 0") (simp_all only: refl if_True if_False append_Nil2 fun_upd_triv take_all)
qed simp

lemma typed_zeros: "typed (codes @ replicate n 0) m = typed codes m"
  by (induction codes arbitrary: m) (cases n; simp)+

lemma handle_all_append: "handle_all E (pks @ qks) s = Option.bind (handle_all E pks s) (handle_all E qks)"
proof (induction pks arbitrary: s)
  case (Cons pk pks)
  then show ?case by (cases "process_one E pk s") simp_all
qed simp

text \<open>What is typed reaches the process in front. If the packets that are waiting in the pipe (new processes,
  requests to come to the front, earlier keys) leave process \<open>a\<close> active, then the characters of the keys that are
  pressed next, under the modifiers held down, are appended to its standard input, and no other process gets
  any; what does not fit into its pipe any more is lost. This holds as long as the blocks that \<open>malloc\<close> returns for the key events are zero at the character, which
  \<open>kbd\_key\_event\<close> does not set for a modifier.\<close>

theorem typed_keys_reach_active:
  assumes "server_ok s" "server_pipe s = Some f" "stream_at 0 f" "pipe_holds pks (srv_pipe s)" "length pks < 970"
    "valid E (pnode E)" "valid E (pinfo E)" "length keys \<le> 128" "length (pk_pad stale) = 3" "length pks + 1 < k"
    "blank_keys E" "handle_all E pks s = Some s1" "active_process s1 = Some a" "has_stdin E (cs_pid a)"
    "length (stdins s1 (cs_pid a)) \<le> stdin_room E (cs_pid a)"
  shows "\<exists>s'. cserv_round k E stale 0 keys [] s = Some (Inr s')
    \<and> stdins s' = (stdins s1)(cs_pid a := take (stdin_room E (cs_pid a)) (stdins s1 (cs_pid a) @ typed keys (kbd_mods s1)))"
proof -
  let ?codes = "keys @ replicate (128 - length keys) 0"
  let ?pk = "stale\<lparr>pk_type := CS_TYPE_KEY, pk_buffer := ?codes\<rparr>"
  have "server_ok s1" using handle_all_ok [OF assms(1), of E pks] assms(12) by auto
  then have "packet_filter a = (\<lambda>_. False)" using assms(13) by (simp add: server_ok_def)
  then have one: "process_one E ?pk s1 = Some (key_loop E (cs_pid a) ?codes s1)"
    using assms(13) by (simp add: process_one_def Let_def)
  obtain s' where "cserv_round k E stale 0 keys [] s = Some (Inr s')" "stdins s' = stdins (key_loop E (cs_pid a) ?codes s1)"
    using round_key [OF assms(1-10), of "[]"] one assms(12) by (auto simp: handle_all_append)
  then show ?thesis using key_loop_types [OF assms(11,14,15), of ?codes] typed_zeros by simp
qed

text \<open>The witness: a client has asked for process 9 to come to the front, then \<open>H\<close> with shift and \<open>i\<close> are typed.\<close>

lemma typed_keys_reach_active_witness:
  "\<exists>p s'. pipe_holds [packet_one] p \<and> cserv_round 3 server_env packet_one 0 [0x2A, 0x23, 0xAA, 0xA3, 0x17] [] (server_one\<lparr>srv_pipe := p\<rparr>)
      = Some (Inr s') \<and> stdins s' 9 = [72, 105]"
proof -
  have "packet_ok packet_one" by (simp add: packet_ok_def packet_one_def)
  then obtain p where p: "pipe_holds [packet_one] p"
    using pipe_write_packet [OF server_pipe_one_empty, of server_env packet_one] server_one_ok(6,7) by auto
  let ?s = "server_one\<lparr>srv_pipe := p\<rparr>" and ?a = "CreateProcess 9 0 0 100 100"
  have s: "server_ok ?s" "server_pipe ?s = Some (zero_stream)" "pipe_holds [packet_one] (srv_pipe ?s)"
    using server_one_ok(1,2) p by (simp_all add: server_ok_def split: option.splits)
  have h: "handle_all server_env [packet_one] ?s = Some (?s\<lparr>active_process := Some ?a\<rparr>)"
    by (simp add: process_one_def server_one_def packet_one_def cs_lock_def cs_unlock_def BUFFER_def le_word_def CreateProcess_def)
  have t: "typed [0x2A, 0x23, 0xAA, 0xA3, 0x17] \<lparr>ctrl = 0, shift = 0\<rparr> = [72, 105]"
    by (simp add: typed_char_def key_type_def kbd_us_l1_def kbd_us_l2_def)
  show ?thesis
    using typed_keys_reach_active [OF s(1,2) server_one_ok(3) s(3), of server_env "[0x2A, 0x23, 0xAA, 0xA3, 0x17]" packet_one 3
        "?s\<lparr>active_process := Some ?a\<rparr>" ?a] server_one_ok(6,7) h t p
    by (auto simp: blank_keys_def server_env_def packet_one_def CreateProcess_def server_one_def)
qed

text \<open>Pressing shift sends whatever the block of the key event held.\<close>

theorem shift_sends_stale_key:
  assumes "has_stdin E p" "length (stdins s p) < stdin_room E p" "key (key_block E (key_blocks s)) = c" "c \<noteq> 0"
  shows "stdins (key_loop E p [0x2A] s) p = stdins s p @ [c]"
  using assms key_type_at by (simp add: kbd_key_event_def Let_def send_key_def)

subsection \<open>Drawing\<close>

text \<open>Word \<open>k\<close> of a screen buffer; the buffer that is drawn into next.\<close>

definition word_at :: "u32 \<Rightarrow> fbuf \<Rightarrow> nat \<Rightarrow> u32" where
  "word_at c f k = vmem f (c + of_nat k * 4)"

definition same_mode :: "fbuf \<Rightarrow> fbuf \<Rightarrow> bool" where
  "same_mode f g \<longleftrightarrow> x_res g = x_res f \<and> y_res g = y_res f \<and> back_buffer g = back_buffer f
     \<and> back_buffer_enabled g = back_buffer_enabled f \<and> framebuffer g = framebuffer f \<and> ioctls g = ioctls f"

definition screen_mode :: "fbuf \<Rightarrow> bool" where
  "screen_mode f \<longleftrightarrow> x_res f = 1024 \<and> y_res f = 768 \<and> back_buffer_enabled f \<noteq> 0
     \<and> back_buffer f \<in> {LFB, LFB + 3145728}"

lemma screen_mode_same: "same_mode f g \<Longrightarrow> screen_mode f \<Longrightarrow> screen_mode g"
  by (simp add: same_mode_def screen_mode_def)

lemma screen_canvas: "screen_mode f \<Longrightarrow> canvas_ok (back_buffer f)"
  by (auto simp: screen_mode_def canvas_ok_def)

lemma word_inj:
  assumes "canvas_ok c" "k < 1024 * 788" "l < 1024 * 788"
  shows "c + of_nat k * 4 = c + of_nat l * 4 \<longleftrightarrow> k = l"
  using canvas_addr [OF assms(1,2)] canvas_addr [OF assms(1,3)] by (metis add_left_cancel mult_cancel1 zero_neq_numeral)

lemma screen_above:
  assumes "screen_mode f" "k < 1024 * 788"
  shows "LFB \<le> back_buffer f + of_nat k * 4"
  using canvas_addr [OF screen_canvas [OF assms(1)] assms(2)] assms(1) by (auto simp: screen_mode_def word_le_nat_alt)

lemma memset_words:
  assumes "canvas_ok c" "l + n \<le> 1024 * 788" "k < 1024 * 788"
  shows "memset_opt (c + of_nat l * 4) v n m (c + of_nat k * 4) = (if l \<le> k \<and> k < l + n then v else m (c + of_nat k * 4))"
proof -
  have "c + of_nat k * 4 = c + of_nat l * 4 + of_nat j * 4 \<longleftrightarrow> k = l + j" if "j < n" for j
    using word_inj [OF assms(1,3), of "l + j"] assms(2) that by (simp add: algebra_simps)
  then have "(\<exists>j < n. c + of_nat k * 4 = c + of_nat l * 4 + of_nat j * 4) \<longleftrightarrow> (\<exists>j < n. k = l + j)" by metis
  also have "\<dots> \<longleftrightarrow> l \<le> k \<and> k < l + n" by (auto intro: exI [of _ "k - l"])
  finally show ?thesis by (simp add: memset_opt_at)
qed

lemma fb_rect_Suc:
  "fb_rect x y sx (int (Suc m)) col 1 0 f = (let g = fb_rect x y sx (int m) col 1 0 f in
     if back_buffer_enabled g = 0 then g
     else g\<lparr>vmem := memset_opt (back_buffer g + word_of_int (w16 (x_res g) * (y + int m) + x) * 4) col (unat (word_of_int sx :: u32)) (vmem g)\<rparr>)"
  by (simp add: fb_rect_def Let_def nat_add_distrib)

lemma fb_inject_Suc:
  "fb_inject_buffer x y bsx (int (Suc m)) b 0 f = (let g = fb_inject_buffer x y bsx (int m) b 0 f in
     if back_buffer_enabled g = 0 then g
     else g\<lparr>vmem := memcpy_opt (back_buffer g + word_of_int (w16 (x_res g) * (y + int m) + x) * 4) (b + word_of_int (int m * bsx) * 4)
       (unat (word_of_int bsx :: u32)) (vmem g)\<rparr>)"
  by (simp add: fb_inject_buffer_def Let_def nat_add_distrib)

lemma w16_1024: "w16 1024 = 1024"
  by simp

lemma screen_rect:
  assumes "screen_mode f" "k < 1024 * 788" "(y + m) * 1024 + x + n \<le> 1024 * 788"
  shows "word_at (back_buffer f) (fb_rect (int x) (int y) (int n) (int m) col 1 0 f) k
      = (if \<exists>i < m. (y + i) * 1024 + x \<le> k \<and> k < (y + i) * 1024 + x + n then col else word_at (back_buffer f) f k)
    \<and> same_mode f (fb_rect (int x) (int y) (int n) (int m) col 1 0 f)"
  using assms(3)
proof (induction m)
  case 0
  then show ?case by (simp add: fb_rect_def same_mode_def)
next
  case (Suc m)
  let ?f = "fb_rect (int x) (int y) (int n) (int m) col 1 0 f"
  define l where "l = (y + m) * 1024 + x"
  have IH: "word_at (back_buffer f) ?f k = (if \<exists>i < m. (y + i) * 1024 + x \<le> k \<and> k < (y + i) * 1024 + x + n then col else word_at (back_buffer f) f k)"
    "same_mode f ?f" using Suc by simp_all
  have m: "back_buffer_enabled ?f \<noteq> 0" "x_res ?f = 1024" "back_buffer ?f = back_buffer f"
    using IH(2) assms(1) by (simp_all add: same_mode_def screen_mode_def)
  have n: "unat (of_nat n :: u32) = n" using Suc.prems by (intro unat_of_nat_u32) simp
  have o: "word_of_int (1024 * (int y + int m) + int x) = (of_nat l :: u32)" by (simp add: l_def algebra_simps)
  have r: "fb_rect (int x) (int y) (int n) (int (Suc m)) col 1 0 f = ?f\<lparr>vmem := memset_opt (back_buffer f + of_nat l * 4) col n (vmem ?f)\<rparr>"
    unfolding fb_rect_Suc Let_def m(2,3) w16_1024 o if_not_P [OF m(1)] of_int_of_nat_eq n ..
  have "l + n \<le> 1024 * 788" using Suc.prems by (simp add: l_def)
  then have "word_at (back_buffer f) (?f\<lparr>vmem := memset_opt (back_buffer f + of_nat l * 4) col n (vmem ?f)\<rparr>) k
      = (if l \<le> k \<and> k < l + n then col else word_at (back_buffer f) ?f k)"
    using memset_words [OF screen_canvas [OF assms(1)] _ assms(2)] by (simp add: word_at_def)
  then show ?case unfolding r using IH by (auto simp: same_mode_def less_Suc_eq l_def)
qed

text \<open>Copying from shared memory, which lies below the screen.\<close>

lemma word_below:
  assumes "unat src + 4 * n \<le> unat LFB" "j < n"
  shows "unat (src + of_nat j * 4) = unat src + 4 * j" "src + of_nat j * 4 < LFB"
proof -
  have "unat (src + of_nat (4 * j)) = unat src + 4 * j"
    using assms unat_of_nat_u32 [of "4 * j"] unat_plus_u32 [of src "of_nat (4 * j)"] by (simp del: of_nat_mult)
  then show u: "unat (src + of_nat j * 4) = unat src + 4 * j" by (simp add: mult.commute)
  show "src + of_nat j * 4 < LFB" unfolding word_less_nat_alt u using assms by simp
qed

lemma row_word:
  assumes "w \<le> 1024" "r < 1024"
  shows "h * 1024 \<le> q * 1024 + r \<and> q * 1024 + r < h * 1024 + w \<longleftrightarrow> q = h \<and> (r :: nat) < w"
proof
  assume a: "h * 1024 \<le> q * 1024 + r \<and> q * 1024 + r < h * 1024 + w"
  then have "q \<le> h" "h \<le> q" using assms by linarith+
  then show "q = h \<and> r < w" using a by simp
qed simp

lemma memcpy_below:
  assumes "canvas_ok c" "LFB \<le> c" "l + n \<le> 1024 * 788" "unat src + 4 * n \<le> unat LFB" "k < 1024 * 788"
  shows "memcpy_opt (c + of_nat l * 4) src n m (c + of_nat k * 4) = (if l \<le> k \<and> k < l + n then m (src + of_nat (k - l) * 4) else m (c + of_nat k * 4))
    \<and> (\<forall>a < LFB. memcpy_opt (c + of_nat l * 4) src n m a = m a)"
  using assms(3,4)
proof (induction n arbitrary: l src m)
  case (Suc n)
  have s: "unat (src + 4) = unat src + 4" using Suc.prems(2) unat_plus_u32 [of src 4] by simp
  let ?d = "c + of_nat l * 4"
  have d: "?d + 4 = c + of_nat (Suc l) * 4" by (simp add: algebra_simps)
  have hi: "LFB \<le> ?d" using canvas_addr [OF assms(1), of l] assms(2) Suc.prems(1) by (simp add: word_le_nat_alt)
  have apart: "src + of_nat j * 4 \<noteq> ?d" if "j < Suc n" for j using word_below(2) [OF Suc.prems(2) that] hi by auto
  let ?m = "m(?d := m src)"
  have "Suc l + n \<le> 1024 * 788" "unat (src + 4) + 4 * n \<le> unat LFB" using Suc.prems s by simp_all
  note IH = Suc.IH [OF this, of ?m]
  have k: "c + of_nat k * 4 = ?d \<longleftrightarrow> k = l" using word_inj [OF assms(1,5), of l] Suc.prems(1) by simp
  have step: "memcpy_opt ?d src (Suc n) m = memcpy_opt (c + of_nat (Suc l) * 4) (src + 4) n ?m" by (simp only: memcpy_opt.simps d)
  have "?m (src + 4 + of_nat (k - Suc l) * 4) = m (src + of_nat (k - l) * 4)" if "Suc l \<le> k" "k < Suc l + n"
  proof -
    have e: "src + 4 + of_nat (k - Suc l) * 4 = src + of_nat (k - l) * 4" using that(1) by (simp add: Suc_diff_Suc [symmetric] algebra_simps of_nat_diff)
    have "k - l < Suc n" using that by simp
    then show ?thesis using apart [of "k - l"] unfolding e by simp
  qed
  then have "memcpy_opt ?d src (Suc n) m (c + of_nat k * 4) = (if l \<le> k \<and> k < l + Suc n then m (src + of_nat (k - l) * 4) else m (c + of_nat k * 4))"
    unfolding step IH [THEN conjunct1] using k by (cases "k = l") simp_all
  moreover have "\<forall>a < LFB. memcpy_opt ?d src (Suc n) m a = m a"
    unfolding step using IH [THEN conjunct2] hi by (metis fun_upd_other linorder_not_le)
  ultimately show ?case by blast
qed auto

lemma screen_inject:
  assumes "screen_mode f" "k < 1024 * 768" "w \<le> 1024" "h \<le> 768" "unat src + 4 * (w * h) \<le> unat LFB"
  shows "word_at (back_buffer f) (fb_inject_buffer 0 0 (int w) (int h) src 0 f) k
      = (if k div 1024 < h \<and> k mod 1024 < w then vmem f (src + of_nat (k div 1024 * w + k mod 1024) * 4) else word_at (back_buffer f) f k)
    \<and> same_mode f (fb_inject_buffer 0 0 (int w) (int h) src 0 f)
    \<and> (\<forall>a < LFB. vmem (fb_inject_buffer 0 0 (int w) (int h) src 0 f) a = vmem f a)"
  using assms(4,5)
proof (induction h)
  case 0
  then show ?case by (simp add: fb_inject_buffer_def same_mode_def)
next
  case (Suc h)
  let ?f = "fb_inject_buffer 0 0 (int w) (int h) src 0 f"
  have IH: "word_at (back_buffer f) ?f k
      = (if k div 1024 < h \<and> k mod 1024 < w then vmem f (src + of_nat (k div 1024 * w + k mod 1024) * 4) else word_at (back_buffer f) f k)"
    "same_mode f ?f" "\<forall>a < LFB. vmem ?f a = vmem f a" using Suc by simp_all
  have m: "back_buffer_enabled ?f \<noteq> 0" "x_res ?f = 1024" "back_buffer ?f = back_buffer f"
    using IH(2) assms(1) by (simp_all add: same_mode_def screen_mode_def)
  have w: "unat (of_nat w :: u32) = w" using assms(3) by (intro unat_of_nat_u32) simp
  define l where "l = h * 1024"
  define p where "p = src + of_nat (h * w) * 4"
  have o: "word_of_int (1024 * int h) = (of_nat l :: u32)" "src + word_of_int (int h * int w) * 4 = p"
    by (simp_all add: l_def p_def mult.commute)
  have r: "fb_inject_buffer 0 0 (int w) (int (Suc h)) src 0 f = ?f\<lparr>vmem := memcpy_opt (back_buffer f + of_nat l * 4) p w (vmem ?f)\<rparr>"
    unfolding fb_inject_Suc Let_def m(2,3) w16_1024 add_0 add_0_right o if_not_P [OF m(1)] of_int_of_nat_eq w ..
  have hw: "unat src + 4 * (h * w + w) \<le> unat LFB" using Suc.prems(2) by (simp add: algebra_simps)
  have p: "unat p + 4 * w \<le> unat LFB"
  proof (cases "w = 0")
    case True
    then show ?thesis using hw by (simp add: p_def)
  next
    case False
    then show ?thesis using word_below(1) [OF hw, of "h * w"] hw by (simp add: p_def del: of_nat_mult)
  qed
  have lw: "l + w \<le> 1024 * 788" using assms(3) Suc.prems(1) by (simp add: l_def)
  have "LFB \<le> back_buffer f" using screen_above [OF assms(1), of 0] by simp
  note cp = memcpy_below [OF screen_canvas [OF assms(1)] this lw p, of k "vmem ?f"]
  define q r where "q = k div 1024" and "r = k mod 1024"
  have k: "k = q * 1024 + r" "r < 1024" by (simp_all add: q_def r_def)
  have d: "l \<le> k \<and> k < l + w \<longleftrightarrow> q = h \<and> r < w" unfolding k(1) l_def by (rule row_word [OF assms(3) k(2)])
  have rd: "vmem ?f (p + of_nat (k - l) * 4) = vmem f (src + of_nat (q * w + r) * 4)" if "q = h" "r < w"
  proof -
    have e: "p + of_nat (k - l) * 4 = src + of_nat (q * w + r) * 4" using that k by (simp add: p_def l_def algebra_simps)
    have "q * w + r < h * w + w" using that by simp
    then show ?thesis using IH(3) word_below(2) [OF hw] unfolding e by blast
  qed
  have "word_at (back_buffer f) (?f\<lparr>vmem := memcpy_opt (back_buffer f + of_nat l * 4) p w (vmem ?f)\<rparr>) k
      = (if l \<le> k \<and> k < l + w then vmem ?f (p + of_nat (k - l) * 4) else word_at (back_buffer f) ?f k)"
    using cp [THEN conjunct1] assms(2) by (simp add: word_at_def)
  also have "\<dots> = (if q < Suc h \<and> r < w then vmem f (src + of_nat (q * w + r) * 4) else word_at (back_buffer f) f k)"
    unfolding d using rd IH(1) by (auto simp: q_def r_def less_Suc_eq)
  finally show ?case unfolding r using IH(2,3) cp [THEN conjunct2] assms(2) by (simp add: same_mode_def q_def r_def)
qed

text \<open>What the user sees: the canvas of the last process that covers the pixel, above black, and the pointer on top.
  A process that the kernel shares with the server under an offset fits into the shared memory.\<close>

definition canvas_fits :: "(u32 \<Rightarrow> u32 \<times> (u32 \<Rightarrow> u32)) \<Rightarrow> csprocess \<Rightarrow> bool" where
  "canvas_fits shm a \<longleftrightarrow> pos_x a = 0 \<and> pos_y a = 0 \<and> unat (canvas_size_x a) \<le> 1024 \<and> unat (canvas_size_y a) \<le> 768
     \<and> unat SHARED_MEMORY_START + unat (fst (shm (cs_pid a))) + 4 * (unat (canvas_size_x a) * unat (canvas_size_y a)) \<le> unat LFB"

fun canvas_pixel :: "(u32 \<Rightarrow> u32 \<times> (u32 \<Rightarrow> u32)) \<Rightarrow> csprocess list \<Rightarrow> nat \<Rightarrow> nat \<Rightarrow> u32 \<Rightarrow> u32" where
  "canvas_pixel shm [] x y v = v"
| "canvas_pixel shm (a # as) x y v =
     canvas_pixel shm as x y
       (if x < unat (canvas_size_x a) \<and> y < unat (canvas_size_y a)
        then snd (shm (cs_pid a)) (SHARED_MEMORY_START + fst (shm (cs_pid a)) + of_nat (y * unat (canvas_size_x a) + x) * 4)
        else v)"

definition pointer_covers :: "cserver \<Rightarrow> nat \<Rightarrow> bool" where
  "pointer_covers s k \<longleftrightarrow> (\<exists>i < 4. (nat (my s) + i) * 1024 + nat (mx s) \<le> k \<and> k < (nat (my s) + i) * 1024 + nat (mx s) + 4)"

lemma draw_process_words:
  assumes "screen_mode f" "k < 1024 * 768" "canvas_fits shm a"
  shows "word_at (back_buffer f) (draw_process shm a f) k
      = canvas_pixel shm [a] (k mod 1024) (k div 1024) (word_at (back_buffer f) f k)
    \<and> same_mode f (draw_process shm a f)"
proof -
  let ?o = "fst (shm (cs_pid a))" and ?v = "snd (shm (cs_pid a))" and ?w = "unat (canvas_size_x a)" and ?h = "unat (canvas_size_y a)"
  let ?g = "snd (open_shm shm (cs_pid a) f)" and ?src = "SHARED_MEMORY_START + fst (shm (cs_pid a))"
  have fit: "unat SHARED_MEMORY_START + unat ?o + 4 * (?w * ?h) \<le> unat LFB" and b: "?w \<le> 1024" "?h \<le> 768" "pos_x a = 0" "pos_y a = 0"
    using assms(3) by (simp_all add: canvas_fits_def)
  have src: "unat ?src = unat SHARED_MEMORY_START + unat ?o" using fit unat_plus_u32 [of SHARED_MEMORY_START ?o] by simp
  have sz: "sint (canvas_size_x a) = int ?w" "sint (canvas_size_y a) = int ?h"
    using sint_of_nat_u32 [of ?w] sint_of_nat_u32 [of ?h] b by simp_all
  have g: "same_mode f ?g" "back_buffer ?g = back_buffer f" by (simp_all add: open_shm_def same_mode_def)
  have dp: "draw_process shm a f = fb_inject_buffer 0 0 (int ?w) (int ?h) ?src 0 ?g"
    using b(3,4) sz by (simp add: draw_process_def open_shm_def)
  have below: "unat ?src + 4 * (?w * ?h) \<le> unat LFB" using fit src by simp
  note i = screen_inject [OF screen_mode_same [OF g(1) assms(1)] assms(2) b(1,2) below]
  have old: "word_at (back_buffer f) ?g k = word_at (back_buffer f) f k"
    using screen_above [OF assms(1), of k] assms(2) by (auto simp: word_at_def open_shm_def not_less [symmetric])
  have view: "vmem ?g (?src + of_nat (k div 1024 * ?w + k mod 1024) * 4) = ?v (?src + of_nat (k div 1024 * ?w + k mod 1024) * 4)"
    if c: "k div 1024 < ?h" "k mod 1024 < ?w"
  proof -
    let ?n = "k div 1024 * ?w + k mod 1024"
    have "Suc (k div 1024) * ?w \<le> ?h * ?w" using c(1) by (intro mult_le_mono1) simp
    then have "?n < ?w * ?h" using c(2) by (simp add: mult.commute)
    note a = word_below [OF below this]
    then have "SHARED_MEMORY_START \<le> ?src + of_nat ?n * 4" using src by (simp add: word_le_nat_alt)
    then show ?thesis using a(2) by (simp add: open_shm_def del: of_nat_mult of_nat_add)
  qed
  show ?thesis unfolding dp using i view old g by (auto simp: same_mode_def)
qed

lemma draw_processes_words:
  assumes "screen_mode f" "k < 1024 * 768" "\<forall>a \<in> set as. canvas_fits shm a"
  shows "word_at (back_buffer f) (fold (draw_process shm) as f) k
      = canvas_pixel shm as (k mod 1024) (k div 1024) (word_at (back_buffer f) f k)
    \<and> same_mode f (fold (draw_process shm) as f)"
  using assms
proof (induction as arbitrary: f)
  case (Cons a as)
  note d = draw_process_words [OF Cons.prems(1,2), of shm a]
  let ?f = "draw_process shm a f"
  have m: "same_mode f ?f" "back_buffer ?f = back_buffer f" using d Cons.prems(3) by (simp_all add: same_mode_def)
  then show ?case using Cons.IH [OF screen_mode_same [OF m(1) Cons.prems(1)] Cons.prems(2)] d Cons.prems(3) by (simp add: same_mode_def)
qed (simp add: same_mode_def)

definition fb_one :: fbuf where
  "fb_one = \<lparr>framebuffer = 0x40000000, x_res = 1024, y_res = 768, x_opt_res = 0, y_opt_res = 0, back_buffer = LFB,
     back_buffer_enabled = 1, vmem = (\<lambda>_. 0), ioctls = []\<rparr>"

text \<open>C28: a frame of the window server. In the mode the server sets (1024 by 768, double buffering) and with
  canvases of at most that size that lie in the shared memory, drawn at the upper left corner, where every process
  is created, each pixel of the buffer that is drawn into gets the colour of the pointer where the pointer is, else the
  word of the canvas of the process that was added last among those whose window covers the pixel, else black.
  The pointer is a block of four by four words; at the right edge it continues in the next row. Then the other buffer is
  chosen for the next frame, and two requests to show the half that was drawn are made, but with the address of the
  stream in place of a file number: the kernel has no such file and does nothing (\<open>switch_requests_ignored\<close>), so the
  screen goes on showing the half it showed, into which every second frame is drawn.\<close>

theorem render_round_draws:
  assumes "server_ok s" "screen_mode f" "k < 1024 * 768" "\<forall>a \<in> set (processes s). canvas_fits shm a"
  shows "\<exists>f'. render_round shm s f = Some (s, f')
    \<and> word_at (back_buffer f) f' k = (if pointer_covers s k then 0x0000FF00
         else canvas_pixel shm (processes s) (k mod 1024) (k div 1024) 0)
    \<and> ioctls f' = ioctls f @ [(framebuffer f, 0x20, if back_buffer f = LFB then 0 else 768), (framebuffer f, 0x30, 0)] \<and> screen_mode f' \<and> back_buffer f' \<noteq> back_buffer f"
proof -
  let ?b = "back_buffer f"
  let ?f1 = "fb_rect (int 0) (int 0) (int 1024) (int 768) 0 1 0 f"
  let ?f2 = "fold (draw_process shm) (processes s) ?f1"
  let ?f3 = "fb_rect (int (nat (mx s))) (int (nat (my s))) (int 4) (int 4) 0x0000FF00 1 0 ?f2"
  have k: "k < 1024 * 788" "\<exists>i < 768. i * 1024 \<le> k \<and> k < i * 1024 + 1024"
    using assms(3) div_mult_mod_eq [of k 1024] by (auto intro: exI [of _ "k div 1024"])
  have p: "0 \<le> mx s" "mx s < 1024" "0 \<le> my s" "my s < 768" "\<not> processes_lock s" using assms(1) by (simp_all add: server_ok_def)
  have 1: "word_at ?b ?f1 k = 0" "same_mode f ?f1"
    using screen_rect [OF assms(2) k(1), of 0 768 0 1024 0] k(2) by simp_all
  then have b1: "back_buffer ?f1 = ?b" by (simp add: same_mode_def)
  note m1 = screen_mode_same [OF 1(2) assms(2)]
  have 2: "word_at ?b ?f2 k = canvas_pixel shm (processes s) (k mod 1024) (k div 1024) 0" "same_mode ?f1 ?f2"
    using draw_processes_words [OF m1 assms(3,4)] 1(1) unfolding b1 by simp_all
  then have b2: "back_buffer ?f2 = ?b" using b1 by (simp add: same_mode_def)
  note m2 = screen_mode_same [OF 2(2) m1]
  have below: "(nat (my s) + 4) * 1024 + nat (mx s) + 4 \<le> 1024 * 788"
  proof -
    have "nat (my s) \<le> 767" "nat (mx s) \<le> 1023" using p(1-4) by simp_all
    then show ?thesis by simp
  qed
  have 3: "word_at ?b ?f3 k = (if pointer_covers s k then 0x0000FF00 else canvas_pixel shm (processes s) (k mod 1024) (k div 1024) 0)" "same_mode ?f2 ?f3"
    using screen_rect [OF m2 k(1) below, of "0x0000FF00"] unfolding b2 2(1) pointer_covers_def by simp_all
  have "render_round shm s f = Some (s, fb_swapbuffers ?f3)"
    using p by (simp add: render_round_def Let_def cs_lock_def cs_unlock_def)
  moreover have "same_mode f ?f3" using 1(2) 2(2) 3(2) by (simp add: same_mode_def)
  then have "ioctls (fb_swapbuffers ?f3) = ioctls f @ [(framebuffer f, 0x20, if ?b = LFB then 0 else 768), (framebuffer f, 0x30, 0)]"
      "screen_mode (fb_swapbuffers ?f3)" "back_buffer (fb_swapbuffers ?f3) \<noteq> ?b"
    using assms(2) by (auto simp: same_mode_def screen_mode_def fb_swapbuffers_def)
  moreover have "word_at ?b (fb_swapbuffers ?f3) k = word_at ?b ?f3 k" by (simp add: word_at_def fb_swapbuffers_def)
  ultimately show ?thesis using 3(1) by auto
qed

text \<open>The witness: at (3, 1) the screen shows the canvas of process 9, which lies above that of process 7.\<close>

lemma render_round_draws_witness:
  "\<exists>f'. render_round (\<lambda>p. (0, \<lambda>a. p)) server_one fb_one = Some (server_one, f') \<and> vmem f' (LFB + 4108) = 9"
proof -
  have "\<not> pointer_covers server_one 1027" by (simp add: pointer_covers_def server_one_def)
  moreover have "\<forall>a \<in> set (processes server_one). canvas_fits (\<lambda>p. (0, \<lambda>a. p)) a"
    by (simp add: server_one_def canvas_fits_def CreateProcess_def)
  ultimately show ?thesis
    using render_round_draws [OF server_one_ok(1), of fb_one 1027 "\<lambda>p. (0, \<lambda>a. p)"]
    by (auto simp: screen_mode_def fb_one_def word_at_def server_one_def CreateProcess_def)
qed

text \<open>What the kernel does with the requests of a process that has fewer files than the address of the stream: nothing.\<close>

theorem switch_requests_ignored:
  assumes "ioctls f = []" "(fd, req, w) \<in> set (ioctls (fb_swapbuffers f))"
    and "cur_proc t = Inr x" "f_descs_cnt t (cur t) \<le> framebuffer f"
  shows "Syscall.sys_ioctl c fd req argp t = Inr (0, t)"
  using assms by (auto simp: fb_swapbuffers_def Syscall.sys_ioctl_def fd_node_def split: if_splits)

subsection \<open>Clients\<close>

text \<open>A client that announces itself is in the list after the next round, with the size of its canvas.\<close>

lemma announce_packet:
  fixes stale :: cspacket and p sx sy :: u32
  assumes "packet_ok stale"
  defines "pk \<equiv> put_BUFFER 2 sy (put_BUFFER 1 sx (put_BUFFER 0 p (CreatePacket stale CS_TYPE_PROCESS)))"
  shows "packet_ok pk" "pk_type pk = CS_TYPE_PROCESS" "BUFFER pk 0 = p" "BUFFER pk 1 = sx" "BUFFER pk 2 = sy"
proof -
  have l: "length (pk_buffer (put_BUFFER i w q)) = 128" if "length (pk_buffer q) = 128" "i < 32" for i w q
    using that by (simp add: put_BUFFER_def)
  show "packet_ok pk" "pk_type pk = CS_TYPE_PROCESS"
    using assms(1) by (simp_all add: pk_def packet_ok_def put_BUFFER_def CreatePacket_def)
  show "BUFFER pk 0 = p" "BUFFER pk 1 = sx" "BUFFER pk 2 = sy"
    by (simp_all add: pk_def BUFFER_put l CreatePacket_def)
qed

theorem client_joins:
  assumes "server_ok s" "server_pipe s = Some f" "stream_at 0 f" "pipe_holds [] (srv_pipe s)"
    "valid E (pnode E)" "valid E (pinfo E)" "packet_ok stale" "p \<notin> cs_pid ` set (processes s)"
  shows "\<exists>c s1 s2. C_InitClient E 0 stale p sx sy s = Some (Inr (Some (c, word_of_int (sx * sy * 4)), s1)) \<and> ctx_sx c = sx \<and> ctx_sy c = sy
    \<and> cserv_round 2 E stale' 2 [] [] s1 = Some (Inr s2)
    \<and> processes s2 = processes s @ [CreateProcess p 0 0 (word_of_int sx) (word_of_int sy)]"
proof -
  let ?pk = "put_BUFFER 2 (word_of_int sy) (put_BUFFER 1 (word_of_int sx) (put_BUFFER 0 p (CreatePacket stale CS_TYPE_PROCESS)))"
  note pk = announce_packet [OF assms(7), of "word_of_int sy" "word_of_int sx" p]
  obtain f1 p1 where send: "C_SendPacket E ?pk s = Some (Inr (with_pipe f1 p1 s))" "stream_at 0 f1" "pipe_holds [?pk] p1"
    using C_SendPacket_puts [OF assms(2-4) _ assms(5,6) pk(1)] by auto
  obtain s' where s': "handle_all E [?pk] s = Some s'" "processes s' = processes s @ [CreateProcess p 0 0 (word_of_int sx) (word_of_int sy)]"
    using assms(1,8) pk(2-5)
    by (auto simp: process_one_def Let_def cs_lock_def cs_unlock_def server_ok_def S_AddProcess_def S_GetProcess_def get_process_iff CreateProcess_def)
  show ?thesis using process_packet_drains [OF s'(1) send(2,3), of 2] send(1) s'(2)
    by (auto simp: C_InitClient_def cserv_round_def Let_def)
qed

lemma client_joins_witness:
  "\<exists>c s1 s2. C_InitClient server_env 0 packet_one 12 300 200 server_one = Some (Inr (Some (c, 240000), s1))
    \<and> cserv_round 2 server_env packet_one 2 [] [] s1 = Some (Inr s2)
    \<and> processes s2 = processes server_one @ [CreateProcess 12 0 0 300 200]"
  using client_joins [OF server_one_ok(1,2,3), of server_env packet_one 12 300 200 packet_one] server_one_ok(4,6,7) server_pipe_one_empty
  by (auto simp: packet_ok_def packet_one_def server_one_def CreateProcess_def)

text \<open>Clearing a context never leaves it, and clears exactly its words.\<close>

lemma clear_column_some:
  assumes "i < nat (ctx_sx c)" "\<forall>j \<in> set js. j < nat (ctx_sy c)"
  shows "\<exists>m'. clear_column c (int i) js m = Some m'
    \<and> (\<forall>a. m' a = (if \<exists>j \<in> set js. a = ctx_canvas c + of_nat (j * nat (ctx_sx c) + i) * 4 then 0 else m a))"
  using assms(2)
proof (induction js arbitrary: m)
  case (Cons j js)
  let ?a = "ctx_canvas c + of_nat (j * nat (ctx_sx c) + i) * 4"
  have "int (nat (ctx_sx c)) = ctx_sx c" using assms(1) by simp
  then have "int j * ctx_sx c + int i = int (j * nat (ctx_sx c) + i)" by simp
  moreover have "int i < ctx_sx c" "int j < ctx_sy c" using assms(1) Cons.prems by (simp_all add: zless_nat_eq_int_zless)
  ultimately have "ctx_at c (int i) (int j) = Some ?a" by (simp add: ctx_at_def del: of_nat_add of_nat_mult)
  then show ?case using Cons.IH [of "m(?a := 0)"] Cons.prems by fastforce
qed simp

lemma clear_columns_some:
  assumes "\<forall>i \<in> set is. i < nat (ctx_sx c)"
  shows "\<exists>m'. clear_columns c is m = Some m'
    \<and> (\<forall>a. m' a = (if \<exists>i \<in> set is. \<exists>j < nat (ctx_sy c). a = ctx_canvas c + of_nat (j * nat (ctx_sx c) + i) * 4 then 0 else m a))"
  using assms
proof (induction "is" arbitrary: m)
  case (Cons i "is")
  define H where "H i a \<longleftrightarrow> (\<exists>j < nat (ctx_sy c). a = ctx_canvas c + of_nat (j * nat (ctx_sx c) + i) * 4)" for i a
  have i: "i < nat (ctx_sx c)" using Cons.prems by simp
  have h: "(\<exists>j \<in> set [0..<nat (ctx_sy c)]. a = ctx_canvas c + of_nat (j * nat (ctx_sx c) + i) * 4) = H i a" for a
    by (auto simp: H_def)
  obtain m1 where m1: "clear_column c (int i) [0..<nat (ctx_sy c)] m = Some m1" "\<forall>a. m1 a = (if H i a then 0 else m a)"
    using clear_column_some [OF i, of "[0..<nat (ctx_sy c)]" m] unfolding h by auto
  moreover obtain m2 where "clear_columns c is m1 = Some m2" "\<forall>a. m2 a = (if \<exists>i \<in> set is. H i a then 0 else m1 a)"
    using Cons.IH [of m1] Cons.prems unfolding H_def by auto
  ultimately show ?case unfolding H_def [symmetric] by simp
qed simp

theorem ctx_clear_clears:
  "\<exists>m'. ctx_clear c m = Some m' \<and> (\<forall>a. m' a = (if \<exists>k < nat (ctx_sx c) * nat (ctx_sy c). a = ctx_canvas c + of_nat k * 4 then 0 else m a))"
proof -
  let ?w = "nat (ctx_sx c)" and ?h = "nat (ctx_sy c)"
  have "(\<exists>i \<in> set [0..<?w]. \<exists>j < ?h. a = ctx_canvas c + of_nat (j * ?w + i) * 4) \<longleftrightarrow> (\<exists>k < ?w * ?h. a = ctx_canvas c + of_nat k * 4)" for a
  proof
    assume "\<exists>i \<in> set [0..<?w]. \<exists>j < ?h. a = ctx_canvas c + of_nat (j * ?w + i) * 4"
    then obtain i j where ij: "i < ?w" "j < ?h" "a = ctx_canvas c + of_nat (j * ?w + i) * 4" by auto
    have "Suc j * ?w \<le> ?h * ?w" using ij(2) by (intro mult_le_mono1) simp
    then have "j * ?w + i < ?w * ?h" using ij(1) by (simp add: mult.commute)
    then show "\<exists>k < ?w * ?h. a = ctx_canvas c + of_nat k * 4" using ij(3) by blast
  next
    assume "\<exists>k < ?w * ?h. a = ctx_canvas c + of_nat k * 4"
    then obtain k where k: "k < ?w * ?h" "a = ctx_canvas c + of_nat k * 4" by blast
    then have "0 < ?w" by (cases ?w) auto
    then have "k mod ?w < ?w" "k div ?w < ?h" "k = k div ?w * ?w + k mod ?w" using k(1) by (simp_all add: less_mult_imp_div_less mult.commute)
    then show "\<exists>i \<in> set [0..<?w]. \<exists>j < ?h. a = ctx_canvas c + of_nat (j * ?w + i) * 4" using k(2) by (metis atLeastLessThan_iff le0 set_upt)
  qed
  then show ?thesis using clear_columns_some [of "[0..<?w]" c m] by (simp add: ctx_clear_def del: of_nat_add of_nat_mult)
qed

end
