(* ===== verification/Console.thy ===== *)
theory Console
  imports Terminal Cserv
begin

text \<open>
  From the keys to the shell: the window server of theory Cserv passes what is typed to the process in front;
  this is the terminal of theory Terminal, which reads its standard input and sends the line to the shell.
\<close>

text \<open>What remains of a line when backspaces take characters back.\<close>

fun edit_line :: "u8 list \<Rightarrow> u8 list \<Rightarrow> u8 list" where
  "edit_line held [] = held"
| "edit_line held (c # codes) = edit_line (if c = 8 \<and> held \<noteq> [] then butlast held else held @ [c]) codes"

lemma term_inputs_run: "term_inputs room font codes s = term_run room font (map Typed codes) s"
proof (induction codes arbitrary: s)
  case (Cons c codes)
  then show ?case by (cases "term_handle_input room font c s") simp_all
qed simp

lemma session_run_append: "session_run room (evs @ after) S = Option.bind (session_run room evs S) (session_run room after)"
proof (induction evs arbitrary: S)
  case (Cons ev evs)
  show ?case
  proof (cases ev)
    case (Typed c)
    then show ?thesis using Cons.IH by (cases "session_key room c S") simp_all
  qed (simp add: Cons.IH)
qed simp

lemma session_edits:
  assumes "length (Terminal.typed S) + length line \<le> 256" "10 \<notin> set line"
  shows "\<exists>S'. session_run room (map Typed line) S = Some S' \<and> Terminal.typed S' = edit_line (Terminal.typed S) line \<and> sent S' = sent S"
  using assms
proof (induction line arbitrary: S)
  case (Cons c line)
  define T where "T = (if c = 8 \<and> Terminal.typed S \<noteq> [] then S\<lparr>grid := grid_back (grid S), typed := butlast (Terminal.typed S)\<rparr>
    else S\<lparr>grid := grid_put c (grid S), typed := Terminal.typed S @ [c]\<rparr>)"
  have "session_key room c S = Some T" using Cons.prems by (auto simp: session_key_def T_def Let_def)
  moreover have "length (Terminal.typed T) + length line \<le> 256" "sent T = sent S"
    "Terminal.typed T = (if c = 8 \<and> Terminal.typed S \<noteq> [] then butlast (Terminal.typed S) else Terminal.typed S @ [c])"
    using Cons.prems by (auto simp: T_def)
  ultimately show ?case using Cons.IH [of T] Cons.prems by simp
qed simp

lemma length_edit_line: "length (edit_line held line) \<le> length held + length line"
proof (induction line arbitrary: held)
  case (Cons c line)
  show ?case using Cons.IH [of "if c = 8 \<and> held \<noteq> [] then butlast held else held @ [c]"] by (auto split: if_splits)
qed simp

lemma session_line:
  assumes "Terminal.typed S = []" "length line < 256" "10 \<notin> set line"
  shows "\<exists>S'. session_run room (map Typed (line @ [10])) S = Some S' \<and> sent S' = sent S @ [take (room (length (sent S))) (edit_line [] line @ [10])]"
proof -
  obtain S1 where S1: "session_run room (map Typed line) S = Some S1" "Terminal.typed S1 = edit_line [] line" "sent S1 = sent S"
    using session_edits [of S line] assms by auto
  have "length (Terminal.typed S1) < 256" using length_edit_line [of "[]" line] S1(2) assms(2) by simp
  then show ?thesis using S1 by (simp add: session_run_append session_key_def)
qed

lemma length_typed: "length (Cserv.typed codes m) \<le> length codes"
proof (induction codes arbitrary: m)
  case (Cons c codes)
  show ?case
    using Cons.IH [of "\<lparr>ctrl = modifier {0x1D} [c] (ctrl m), shift = modifier {0x2A, 0x36} [c] (shift m)\<rparr>"] by auto
qed simp

text \<open>C25: from the keys to the shell. A user has the terminal in front, with nothing in its standard input (a pipe with
  room for at least 128 bytes), and presses keys, at most 128 that the server reads at once, that spell a line: the
  window server, behind fewer than 970 waiting packets, sends the packet with the scancodes to itself, decodes it and
  writes the characters to the standard input of the terminal; the freshly started terminal reads them in one round, and
  the shell gets the line as it was edited, without the characters that backspaces took back, and its line feed,
  as far as its standard input has room. Assumed is that the blocks \<open>malloc\<close> returns for the key events hold zero as their
  character (\<open>blank_keys\<close>): the server neither clears them nor does \<open>kbd_key_event\<close> set the character of a modifier, so with
  other blocks shift types a stale character (\<open>shift_sends_stale_key\<close> of theory Cserv).\<close>

theorem typed_line_reaches_shell:
  assumes "server_ok s" "server_pipe s = Some f" "stream_at 0 f" "pipe_holds pks (srv_pipe s)" "length pks < 970"
    "valid E (pnode E)" "valid E (pinfo E)" "length keys \<le> 128" "length (pk_pad stale) = 3" "length pks + 1 < k"
    "blank_keys E" "handle_all E pks s = Some s1" "active_process s1 = Some a" "has_stdin E (cs_pid a)"
    "stdins s1 (cs_pid a) = []" "128 \<le> stdin_room E (cs_pid a)" "Cserv.typed keys (kbd_mods s1) = line @ [10]" "10 \<notin> set line"
    "canvas_ok (canvas t)" "length (input_buffer t) = 256" "input_size t = 0" "to_shell t = []" "sh \<noteq> 0" "term_init sh t = (0, t0)"
  shows "\<exists>s' t'. cserv_round k E stale 0 keys [] s = Some (Inr s')
    \<and> term_round room font (take 256 (stdins s' (cs_pid a))) [] t0 = Inr t' \<and> to_shell t' = [take (room 0) (edit_line [] line @ [10])]"
proof -
  have n: "length line < 128" using length_typed [of keys "kbd_mods s1"] assms(8,17) by simp
  obtain s' where s': "cserv_round k E stale 0 keys [] s = Some (Inr s')" "stdins s' (cs_pid a) = line @ [10]"
    using typed_keys_reach_active [OF assms(1-14)] n assms(15-17) by fastforce
  have rel: "session_rel font t0 blank_session" using term_init_blank [OF assms(19-23), of font] assms(24) by auto
  obtain S where S: "session_run room (map Typed (line @ [10])) blank_session = Some S" "sent S = [take (room 0) (edit_line [] line @ [10])]"
    using session_line [of blank_session line room] n assms(18) by (auto simp: blank_session_def)
  obtain t' where "term_run room font (map Typed (line @ [10])) t0 = Inr t'" "session_rel font t' S"
    using session_simulates [OF rel, of room "map Typed (line @ [10])"] S(1) by auto
  then have "term_round room font (take 256 (stdins s' (cs_pid a))) [] t0 = Inr t'" "to_shell t' = [take (room 0) (edit_line [] line @ [10])]"
    using s'(2) n S(2) by (simp_all add: term_round_def term_inputs_run session_rel_def)
  then show ?thesis using s'(1) by blast
qed

text \<open>The witness: \<open>lx\<close>, a backspace, \<open>s\<close> and the line feed.\<close>

lemma typed_line_reaches_shell_witness:
  "\<exists>s' t'. cserv_round 2 server_env packet_one 0 [0x26, 0x2D, 0x0E, 0x1F, 0x1C] [] server_one = Some (Inr s')
    \<and> term_round (\<lambda>_. 255) (\<lambda>_. 0) (take 256 (stdins s' 7)) [] (snd (term_init 3 terminal_one)) = Inr t' \<and> to_shell t' = [[108, 115, 10]]"
proof -
  have t: "Cserv.typed [0x26, 0x2D, 0x0E, 0x1F, 0x1C] \<lparr>ctrl = 0, shift = 0\<rparr> = [108, 120, 8, 115] @ [10]"
    by (simp add: typed_char_def key_type_def kbd_us_l1_def kbd_us_l2_def)
  have c: "canvas_ok (canvas terminal_one)" by (simp add: canvas_ok_def terminal_one_def)
  obtain t0 where i: "term_init 3 terminal_one = (0, t0)" by (simp add: term_init_def Let_def)
  show ?thesis
    using typed_line_reaches_shell [OF server_one_ok(1,2,3), where pks = "[]" and E = server_env and keys = "[0x26, 0x2D, 0x0E, 0x1F, 0x1C]"
        and stale = packet_one and k = 2 and ?s1.0 = server_one and a = "CreateProcess 7 0 0 640 480" and line = "[108, 120, 8, 115]"
        and t = terminal_one and sh = 3 and ?t0.0 = t0 and font = "\<lambda>_. 0" and room = "\<lambda>_. 255"]
      server_one_ok(4-7) server_pipe_one_empty t c i
    by (auto simp: blank_keys_def server_env_def packet_one_def CreateProcess_def server_one_def terminal_one_def)
qed

end
