(* ===== verification/Memcheck.thy ===== *)
theory Memcheck
  imports Kheap Ualloc
begin

text \<open>
  \<open>mem_check\<close> of the two heaps (\<open>os/kernel/arch/i386/mem/kheap.c\<close>, \<open>libc/stdlib/alloc.c\<close>): it walks over the blocks
  by their sizes and counts what looks wrong with their headers. The two copies differ in \<open>validate\<close>, in where the
  heap starts and in where they print. The result is the number of errors it prints; \<open>None\<close> is a walk that does
  not end, over sizes that lead back.
\<close>

definition guard_errors :: "u32 \<Rightarrow> u32 \<Rightarrow> (u32 \<Rightarrow> mem_hdr) \<Rightarrow> u32 \<Rightarrow> u32 \<Rightarrow> u32" where
  "guard_errors mx brk h block nblock =
     (if guard (h block) \<noteq> KHEAP_GUARD_VALUE \<or> hsize (h block) > mx then 1
      else if nblock < brk \<and> (guard (h nblock) \<noteq> KHEAP_GUARD_VALUE \<or> hsize (h nblock) > mx) then 1
      else 0)"

definition link_errors :: "(u32 \<Rightarrow> bool) \<Rightarrow> u32 \<Rightarrow> u32 \<Rightarrow> u32 \<Rightarrow> u32" where
  "link_errors v block prv nxt =
     (if (nxt \<noteq> 0 \<and> nxt \<noteq> POISON \<and> \<not> v nxt) \<or> (prv \<noteq> 0 \<and> prv \<noteq> POISON \<and> \<not> v prv) then 1 else 0)
     + (if (nxt \<noteq> POISON \<and> prv \<noteq> POISON) \<and> ((nxt \<noteq> 0 \<and> nxt < block) \<or> (prv \<noteq> 0 \<and> prv > block)) then 1 else 0)"

partial_function (option) check_loop :: "(u32 \<Rightarrow> bool) \<Rightarrow> u32 \<Rightarrow> u32 \<Rightarrow> (u32 \<Rightarrow> mem_hdr) \<Rightarrow> u32 \<Rightarrow> u32 \<Rightarrow> u32 option" where
  "check_loop v mx brk h block errors =
     (if v block \<and> block < brk then
        let nxt = block + sizeof_mem_t + hsize (h block);
            errors = errors + guard_errors mx brk h block nxt;
            errors = errors + link_errors v block (hprev (h block)) (hnext (h block))
        in if hsize (h block) = 0 then Some (errors + 1) else check_loop v mx brk h nxt errors
      else Some errors)"

definition kmem_check :: "(u32 \<Rightarrow> bool) \<Rightarrow> kheap \<Rightarrow> u32 option" where
  "kmem_check v s = check_loop v (max_allocation s) (heap_start s) (hdrs s) KHEAP_START 0"

definition umem_check :: "uheap \<Rightarrow> u32 option" where
  "umem_check s = check_loop (VALIDATE_PTR (u_size s)) (u_max s) (u_start s) (hdrs s) USER_HEAP 0"

subsection \<open>What it finds\<close>

text \<open>Clients that write behind the end of a block change the guard of the next one.\<close>

definition smash :: "(u32 \<Rightarrow> u8) \<Rightarrow> (u32 \<Rightarrow> mem_hdr) \<Rightarrow> u32 \<Rightarrow> mem_hdr" where
  "smash g h b = (h b)\<lparr>guard := g b\<rparr>"

lemma smash_simps [simp]: "hsize (smash g h b) = hsize (h b)" "hprev (smash g h b) = hprev (h b)"
    "hnext (smash g h b) = hnext (h b)" "guard (smash g h b) = g b"
  by (simp_all add: smash_def)

text \<open>The number of blocks that have, or are followed by, a bad guard.\<close>

fun bad_guards :: "(u32 \<Rightarrow> u8) \<Rightarrow> u32 list \<Rightarrow> nat" where
  "bad_guards g [] = 0"
| "bad_guards g (b # bs) =
     (if g b \<noteq> KHEAP_GUARD_VALUE \<or> (\<exists>c bs'. bs = c # bs' \<and> g c \<noteq> KHEAP_GUARD_VALUE) then 1 else 0) + bad_guards g bs"

lemma bad_guards_0: "bad_guards g bs = 0 \<longleftrightarrow> (\<forall>b \<in> set bs. g b = KHEAP_GUARD_VALUE)"
  by (induction bs) auto

lemma bad_guards_le: "bad_guards g bs \<le> length bs"
  by (induction bs) auto

lemma dseg_links:
  assumes "dseg V h prv p xs l q" "sorted_wrt (<) xs" "x \<in> set xs"
  shows "(hprev (h x) = prv \<or> hprev (h x) \<in> set xs \<and> hprev (h x) < x) \<and> (hnext (h x) = q \<or> hnext (h x) \<in> set xs \<and> x < hnext (h x))"
  using assms
proof (induction xs arbitrary: prv p)
  case (Cons y ys)
  show ?case
  proof (cases "x = y")
    case True
    then show ?thesis using Cons.prems by (cases ys) auto
  next
    case False
    then show ?thesis using Cons.IH [of y "hnext (h y)"] Cons.prems by auto
  qed
qed simp

lemma layout_links:
  assumes l: "layout V base brk s bs xs" and b: "b \<in> set bs" and v: "\<And>p. V p \<Longrightarrow> v p"
  shows "link_errors v b (hprev (hdrs s b)) (hnext (hdrs s b)) = 0"
proof (cases "b \<in> set xs")
  case True
  obtain e where d: "dseg V (hdrs s) 0 (free_list s) xs e 0" "sorted_wrt (<) xs"
    using l by (auto simp: layout_def fl_ok_def)
  have "v x" if "x \<in> set xs" for x using dseg_valid [OF d(1) that] v by blast
  then show ?thesis using dseg_links [OF d True] by (auto simp: link_errors_def)
next
  case False
  then show ?thesis using l b by (auto simp: layout_def link_errors_def)
qed

lemma check_loop_counts:
  assumes "tiled h a bs brk" "\<forall>b \<in> set bs. v b \<and> hsize (h b) \<le> mx \<and> link_errors v b (hprev (h b)) (hnext (h b)) = 0"
  shows "check_loop v mx brk (smash g h) a e = Some (e + of_nat (bad_guards g bs))"
  using assms
proof (induction bs arbitrary: a e)
  case Nil
  then show ?case by (subst check_loop.simps) simp
next
  case (Cons b bs)
  let ?n = "next_block h b"
  have t: "a = b" "tiled h ?n bs brk" "hsize (h b) \<noteq> 0" and n: "b + 13 + hsize (h b) = ?n"
    using Cons.prems(1) by (simp_all add: next_block_def)
  have "unat b < unat brk" using tiled_bounds [OF Cons.prems(1)] t(1) by auto
  then have lt: "b < brk" by (simp add: word_less_nat_alt)
  have c: "?n < brk \<longleftrightarrow> (\<exists>c bs'. bs = c # bs')" "\<And>c bs'. bs = c # bs' \<Longrightarrow> ?n = c \<and> hsize (h c) \<le> mx"
  proof -
    show "?n = c \<and> hsize (h c) \<le> mx" if "bs = c # bs'" for c bs' using t(2) Cons.prems(2) that by simp
    show "?n < brk \<longleftrightarrow> (\<exists>c bs'. bs = c # bs')"
    proof (cases bs)
      case (Cons c bs')
      then have "unat ?n < unat brk" using tiled_bounds [OF t(2)] t(2) by auto
      then show ?thesis using Cons by (simp add: word_less_nat_alt)
    qed (use t(2) in simp)
  qed
  have step: "check_loop v mx brk (smash g h) b e = check_loop v mx brk (smash g h) ?n (e + guard_errors mx brk (smash g h) b ?n)"
    by (subst check_loop.simps) (use Cons.prems(2) lt t(3) in \<open>simp add: n Let_def\<close>)
  have "guard_errors mx brk (smash g h) b ?n
      = (if g b \<noteq> KHEAP_GUARD_VALUE \<or> (\<exists>c bs'. bs = c # bs' \<and> g c \<noteq> KHEAP_GUARD_VALUE) then 1 else 0)"
    using c Cons.prems(2) by (auto simp: guard_errors_def not_less)
  then show ?case
    unfolding t(1) step using Cons.IH [OF t(2)] Cons.prems(2) by (simp add: add.assoc)
qed

lemma tiled_few: "tiled h a bs e \<Longrightarrow> length bs + unat a \<le> unat e"
proof (induction bs arbitrary: a)
  case (Cons b bs)
  have "unat (next_block h b) = unat b + 13 + unat (hsize (h b))" using Cons.prems by (simp add: unat_next_block)
  moreover have "length bs + unat (next_block h b) \<le> unat e" using Cons by simp
  ultimately show ?case using Cons.prems by simp
qed simp

lemma check_loop_zero:
  assumes "tiled h a bs brk" "\<forall>b \<in> set bs. v b \<and> hsize (h b) \<le> mx \<and> link_errors v b (hprev (h b)) (hnext (h b)) = 0"
  shows "\<exists>n. check_loop v mx brk (smash g h) a 0 = Some n \<and> (n = 0 \<longleftrightarrow> (\<forall>b \<in> set bs. g b = KHEAP_GUARD_VALUE))"
proof -
  have "bad_guards g bs < 4294967296" using bad_guards_le [of g bs] tiled_few [OF assms(1)] unat_u32_less [of brk] by linarith
  then have "unat (of_nat (bad_guards g bs) :: u32) = bad_guards g bs" by (rule unat_of_nat_u32)
  then have "(of_nat (bad_guards g bs) :: u32) = 0 \<longleftrightarrow> bad_guards g bs = 0" using unat_eq_0_u32 [of "of_nat (bad_guards g bs)"] by argo
  then show ?thesis unfolding check_loop_counts [OF assms, of g 0] bad_guards_0 [of g bs, symmetric] by simp
qed

text \<open>Any intact heap, with free blocks in its list: here that of a user program.\<close>

lemma umem_check_finds:
  assumes "layout (VALIDATE_PTR (u_size s)) USER_HEAP (u_start s) s bs xs" "\<forall>b \<in> set bs. hsize (hdrs s b) \<le> u_max s"
  shows "\<exists>n. umem_check (s\<lparr>hdrs := smash g (hdrs s)\<rparr>) = Some n \<and> (n = 0 \<longleftrightarrow> (\<forall>b \<in> set bs. g b = KHEAP_GUARD_VALUE))"
proof -
  have t: "tiled (hdrs s) USER_HEAP bs (u_start s)" using assms(1) by (simp add: layout_def)
  have "VALIDATE_PTR (u_size s) b" if "b \<in> set bs" for b
    using tiled_bounds [OF t] that assms(1) by (fastforce simp: layout_def)
  then show ?thesis using check_loop_zero [OF t] layout_links [OF assms(1)] assms(2) by (simp add: umem_check_def)
qed

subsection \<open>After any allocations\<close>

fun kmallocs :: "(u32 \<Rightarrow> bool) \<Rightarrow> u32 list \<Rightarrow> kheap \<Rightarrow> (u32 list \<times> kheap) res option" where
  "kmallocs v [] s = Some (Inr ([], s))"
| "kmallocs v (sz # szs) s =
     res_bind (kmalloc v sz s) (\<lambda>(p, s). res_bind (kmallocs v szs s) (\<lambda>(ps, s). Some (Inr (p # ps, s))))"

text \<open>Nothing is ever freed, so the blocks in use fill the heap up to its break.\<close>

definition all_used :: "kheap \<Rightarrow> u32 list \<Rightarrow> bool" where
  "all_used s bs \<longleftrightarrow> tiled (hdrs s) KHEAP_START bs (heap_start s) \<and> free_list s = 0 \<and> heap_start_static s = KHEAP_START
     \<and> (\<forall>b \<in> set bs. hsize (hdrs s b) \<le> max_allocation s \<and> hprev (hdrs s b) = POISON \<and> hnext (hdrs s b) = POISON)"

lemma kmalloc_all_used:
  assumes a: "all_used s bs" and sz: "sz \<noteq> 0" "unat (heap_start s) + 13 + unat sz < unat KHEAP_END"
  shows "\<exists>s'. kmalloc v sz s = Some (Inr (heap_start s + 13, s')) \<and> all_used s' (bs @ [heap_start s])
    \<and> unat (heap_start s') = unat (heap_start s) + 13 + unat sz"
proof -
  let ?t = "heap_start s" and ?s0 = "kmalloc_note sz s"
  have t: "tiled (hdrs s) KHEAP_START bs ?t" and f: "free_list s = 0" "heap_start_static s = KHEAP_START"
    using a by (simp_all add: all_used_def)
  have base: "unat KHEAP_START \<le> unat ?t" using tiled_bounds [OF t] by simp
  have nz: "\<not> VALIDATE v 0" by (simp add: VALIDATE_def)
  have ub: "unat (?t + 13 + sz) = unat ?t + 13 + unat sz" using sz by (simp add: unat_plus_u32)
  have valid: "\<not> (sz = 0 \<or> sz \<ge> KHEAP_SIZE)" "\<not> ?t + 13 + sz \<ge> KHEAP_START + KHEAP_SIZE"
    using sz base ub by (simp_all add: word_le_nat_alt)
  have fb: "free_block (VALIDATE v) sz ?s0 = Some (0, ?s0)" using f nz valid by (simp add: free_block_def)
  define s' where "s' = snd (kmalloc_extend sz (kmalloc_count sz ?s0))"
  have k: "kmalloc v sz s = Some (Inr (?t + 13, s'))"
    using nz valid f by (simp add: kmalloc_def fb s'_def kmalloc_extend_def Let_def)
  have s': "heap_start s' = ?t + 13 + sz" "heap_start_static s' = KHEAP_START" "free_list s' = 0"
      "max_allocation s' = (if sz > max_allocation s then sz else max_allocation s)"
    using f by (simp_all add: s'_def kmalloc_extend_def Let_def upd_hdr_def kmalloc_count_def kmalloc_note_def count_stat_def)
  have hd: "hdrs s' = (hdrs s)(?t := \<lparr>guard = KHEAP_GUARD_VALUE, hsize = sz, hprev = POISON, hnext = POISON\<rparr>)"
    by (cases "hdrs s ?t"; simp add: s'_def kmalloc_extend_def Let_def upd_hdr_def kmalloc_count_def kmalloc_note_def count_stat_def)
  have nb: "?t \<notin> set bs" using tiled_bounds [OF t] by fastforce
  have fr: "hdrs s' b = hdrs s b" if "b \<in> set bs" for b using that nb by (auto simp: hd)
  have "tiled (hdrs s') KHEAP_START bs ?t" using t fr by (simp add: tiled_frame [of bs "hdrs s'" "hdrs s"])
  then have "tiled (hdrs s') KHEAP_START (bs @ [?t]) (?t + 13 + sz)" using sz by (simp add: tiled_append next_block_def hd)
  then have "all_used s' (bs @ [?t])" using a s' fr by (auto simp: all_used_def hd not_less)
  then show ?thesis using k s'(1) ub by auto
qed

lemma kmallocs_all_used:
  assumes "all_used s bs" "\<forall>sz \<in> set szs. sz \<noteq> 0" "unat (heap_start s) + 13 * length szs + sum_list (map unat szs) < unat KHEAP_END"
  shows "\<exists>ps s'. kmallocs v szs s = Some (Inr (ps, s')) \<and> all_used s' (bs @ map (\<lambda>p. p - 13) ps) \<and> length ps = length szs
    \<and> unat (heap_start s') < unat KHEAP_END"
  using assms
proof (induction szs arbitrary: s bs)
  case (Cons sz szs)
  obtain s1 where s1: "kmalloc v sz s = Some (Inr (heap_start s + 13, s1))" "all_used s1 (bs @ [heap_start s])"
      "unat (heap_start s1) = unat (heap_start s) + 13 + unat sz"
    using kmalloc_all_used [OF Cons.prems(1), of sz v] Cons.prems(2,3) by auto
  then show ?case using Cons.IH [OF s1(2)] Cons.prems(2,3) by fastforce
qed simp

text \<open>C4: the heap check finds every overrun and nothing else. Whatever blocks were allocated from the empty heap, and
  whichever of their headers the clients have overwritten at the guard since, by writing past the end of the block
  before, \<open>mem_check\<close> ends, and it counts no errors if and only if every guard is intact.\<close>

theorem mem_check_finds_overruns:
  assumes "\<forall>p. KHEAP_START \<le> p \<and> p < KHEAP_END \<longrightarrow> v p" "\<forall>sz \<in> set szs. sz \<noteq> 0"
    "13 * length szs + sum_list (map unat szs) < unat KHEAP_SIZE"
    "heap_start s = KHEAP_START" "heap_start_static s = KHEAP_START" "free_list s = 0"
  shows "\<exists>ps s'. kmallocs v szs s = Some (Inr (ps, s')) \<and> length ps = length szs
    \<and> (\<forall>g. \<exists>n. kmem_check v (s'\<lparr>hdrs := smash g (hdrs s')\<rparr>) = Some n
         \<and> (n = 0 \<longleftrightarrow> (\<forall>p \<in> set ps. g (p - 13) = KHEAP_GUARD_VALUE)))"
proof -
  have "all_used s []" using assms(4-6) by (simp add: all_used_def)
  then obtain ps s' where s': "kmallocs v szs s = Some (Inr (ps, s'))" "all_used s' (map (\<lambda>p. p - 13) ps)" "length ps = length szs"
      "unat (heap_start s') < unat KHEAP_END"
    using kmallocs_all_used [of s "[]" szs v] assms(2-4) by fastforce
  have t: "tiled (hdrs s') KHEAP_START (map (\<lambda>p. p - 13) ps) (heap_start s')" using s'(2) by (simp add: all_used_def)
  have "v b \<and> hsize (hdrs s' b) \<le> max_allocation s' \<and> link_errors v b (hprev (hdrs s' b)) (hnext (hdrs s' b)) = 0"
    if b: "b \<in> set (map (\<lambda>p. p - 13) ps)" for b
  proof -
    have "KHEAP_START \<le> b \<and> b < KHEAP_END"
      using tiled_bounds [OF t] b s'(4) by (fastforce simp: word_le_nat_alt word_less_nat_alt)
    moreover have "hsize (hdrs s' b) \<le> max_allocation s'" "hprev (hdrs s' b) = POISON" "hnext (hdrs s' b) = POISON"
      using s'(2) b by (auto simp: all_used_def)
    ultimately show ?thesis using assms(1) by (simp add: link_errors_def)
  qed
  note c = check_loop_zero [OF t, of v "max_allocation s'"]
  have "\<exists>n. kmem_check v (s'\<lparr>hdrs := smash g (hdrs s')\<rparr>) = Some n \<and> (n = 0 \<longleftrightarrow> (\<forall>p \<in> set ps. g (p - 13) = KHEAP_GUARD_VALUE))" for g
    using c [of g] \<open>\<And>b. b \<in> _ \<Longrightarrow> _\<close> by (simp add: kmem_check_def)
  then show ?thesis using s'(1,3) by blast
qed

lemma mem_check_finds_overruns_witness:
  "\<exists>ps s'. kmallocs (\<lambda>_. True) [64, 8] kheap_fresh = Some (Inr (ps, s')) \<and> length ps = 2
    \<and> (\<exists>n. kmem_check (\<lambda>_. True) (s'\<lparr>hdrs := smash (\<lambda>_. 0) (hdrs s')\<rparr>) = Some n \<and> n \<noteq> 0)"
proof -
  obtain ps s' where s': "kmallocs (\<lambda>_. True) [64, 8] kheap_fresh = Some (Inr (ps, s'))" "length ps = 2"
    and g: "\<forall>g. \<exists>n. kmem_check (\<lambda>_. True) (s'\<lparr>hdrs := smash g (hdrs s')\<rparr>) = Some n
         \<and> (n = 0 \<longleftrightarrow> (\<forall>p \<in> set ps. g (p - 13) = KHEAP_GUARD_VALUE))"
    using mem_check_finds_overruns [of "\<lambda>_. True" "[64, 8]" kheap_fresh] by (auto simp: kheap_fresh_def)
  then obtain p where "p \<in> set ps" by (cases ps) auto
  then show ?thesis using s' g [rule_format, of "\<lambda>_. 0"] by fastforce
qed

end
