(* ===== verification/Spec2Isabelle.thy ===== *)
theory Spec2Isabelle
  imports Kqueue Dyn_Array Port_IO Interrupts Paging Ualloc Pipe Cstring Vfs Ready_Queues Numfmt Elf Kmodule
    Devices Kbd Fb Ps2 Fat_Ata Fd_Table Shell Programs Boot Chardev
    Console Memcheck
begin

text \<open>
  SmplOS is a small i386 operating system: a kernel (\<open>src/os/kernel\<close>), loadable modules
  (\<open>src/os/modules\<close>), a C library that is compiled for the kernel and for user programs (\<open>src/libc\<close>),
  further libraries (\<open>src/libs\<close>) and user programs (\<open>src/os/usr\<close>). This development models the C code of
  those parts that carry logic of their own and proves what makes each correct, or where it is not, what it
  does instead.

  Conventions (theory Smpl\_Prelude). A C integer is a word of its width and wraps; \<open>int\<close> where the code
  counts in a signed type whose overflow is undefined. A function that can fail returns \<open>fault + 'a\<close>:
  \<open>Panic\<close> is \<open>kpanic\<close>, \<open>Wild\<close> an access outside of every object, \<open>DivZero\<close> a division by zero. A loop that
  need not end is fuel or a partial function, with \<open>None\<close> for not returning. Records are the C structures;
  kernel objects live in maps from addresses, memory is a function from addresses to bytes. A memory
  allocator used by another component is a supply of fresh addresses (\<open>avail\<close>); ports are a function of the
  history of accesses. Code that is not under \<open>src\<close> (devices, programs, inline assembly beyond port
  access) is an argument of the definitions.

  Theories by part, each with its state, its operations in the order of the source, and its lemmas:

  \<^item> Data types of the kernel: Fifo (the interface of a first-in first-out buffer, a locale), Kqueue
    (\<open>misc/types/queue.c\<close>, an interpretation of it below its capacity), Dyn\_Array (\<open>misc/types/dyn_array.c\<close>),
    Kstat (\<open>misc/stat.c\<close>).
  \<^item> Hardware access: Port\_IO (\<open>io.c\<close>, \<open>cmos.c\<close>, \<open>rtc.c\<close>, \<open>serial.c\<close>, \<open>pic.c\<close>), Interrupts (\<open>gdt.c\<close>, \<open>idt.c\<close>,
    \<open>irq.c\<close>, \<open>isr.c\<close>), Devices (\<open>pci.c\<close>, \<open>pit.c\<close>, \<open>eld.c\<close>, the QEMU video module), Ps2, Ata (the modules), Kbd and
    Fb (\<open>libs/kbd\<close>, \<open>libs/fb\<close>).
  \<^item> Memory: Freelist is the block list that Kheap (\<open>kheap.c\<close>) and Ualloc (\<open>libc/stdlib/alloc.c\<close>) share,
    Allocator the locale of what an allocator promises, with both as interpretations, Memcheck their
    \<open>mem_check\<close>; Pmm (\<open>pmm.c\<close>), the
    frame stack, interprets the locale of a frame source, which Paging (\<open>paging.c\<close>, over a model of the
    memory management unit) relies on.
  \<^item> Files: Vfs (\<open>vfs.c\<close>, the tree, paths and mounts), Tar (\<open>tar.c\<close>), Pipe (\<open>pipe.c\<close> and the spin locks), Fat (the
    FAT module over the locale of a block device) and Fat\_Ata, where the ATA driver is that device.
  \<^item> Processes: Proc (\<open>proc.c\<close>: groups, queues, switches, signals, shared memory), Ready\_Queues (its
    scheduler's invariants), Elf (\<open>elf.c\<close>, \<open>symtable.c\<close>), Kmodule (\<open>module.c\<close>, \<open>ramdisk.c\<close>), Exec (\<open>execute\<close>) and
    Syscall (\<open>syscall.c\<close>) on a joint state of files, processes, frames and interrupts; Fd\_Table is the
    invariant of the table of open files over sequences of calls.
  \<^item> The C library: Cstring (\<open>libc/string\<close>) and Strtok (what \<open>strtok\<close> makes of a whole line), Regions (strings
    and tables in memory), Numfmt (\<open>libc/ctype\<close>, number parsing, \<open>vsprintf\<close>), Libcall (the stub that raises
    interrupt 127, \<open>libc/syscall.asm\<close> and \<open>sys/syscall.h\<close>), Stdio (\<open>libc/stdio\<close>, \<open>libc/dirent\<close>), Env (the environment,
    \<open>libc_init\<close>, \<open>exit\<close>), Unistd (\<open>libc/unistd\<close>, \<open>libc/time\<close>).
  \<^item> Programs and modules on top: Shell (\<open>usr/shell\<close>), Programs (\<open>echo\<close>, \<open>ls\<close>, \<open>init\<close>, \<open>login\<close>, \<open>reboot\<close>, \<open>shutdown\<close>),
    Chardev (the null and random devices), Boot (the start of the kernel, \<open>kernel.c\<close>).
  \<^item> The window system, written in C++: Canvas (pixels of a canvas, over Fb), Terminal (\<open>usr/terminal\<close>) and Cserv, the
    window server (\<open>usr/cserv\<close>) with its library (\<open>libs/cserv\<close>), over Pipe, Kbd and Fb; Console puts the two together.

  How the parts meet: interrupts reach a handler through Interrupts; number 127 is the dispatcher of
  Syscall, whose handlers act on files (Vfs), on processes (Proc) and start programs (Exec), which reads the
  image from a file, copies arguments and loads it with Elf. Vfs calls the operations of a mounted file
  system through a table; Tar, Fat, Pipe and Chardev are such tables, and Fat reads its device through Vfs, which
  is Ata. A user program calls the library, the library the stub of Libcall, the stub the dispatcher: the
  properties of Stdio, Unistd, Shell and Programs go all this way, from a line that is typed to the arguments
  of the program, and from \<open>printf\<close> to the bytes of the file behind the standard output. A key that is pressed
  goes as a packet through the pipe of the window server to the active process, here the terminal, which collects
  a line for the shell (Console). Paging takes frames from Pmm, Kheap and Ualloc grow by whole pages.

  What the lemmas show: for the allocators, that live blocks stay disjoint and keep their contents and
  that freeing undoes allocating; for paging that a mapped page is translated and other pages are left
  alone; for queues and pipes that they are first-in first-out, also around the end of the buffer; for files
  that what is created is found and what is written is read; for the scheduler that queues hold exactly the
  ready processes, that the choice respects priorities and serves every process; for drivers that the data
  of the device arrive; for the loader, the archive and the module system that images, names and
  dependencies are resolved; for user programs that what they print, list and are given as arguments is right;
  for the window system that keys reach the active process and that the screen shows canvases, text and pointer.
  Lemmas of kind error show misbehaviour of the code as it is.

  Fuel: partial functions and fuel arguments occur where the C loop waits for a device, walks a list that
  could be cyclic, or recurses through the scheduler; every property about such a function states that it
  returns, with an explicit bound where one is needed (the length of a chain of clusters, the number of
  blocks of a heap), so that no property holds because the fuel ran out.

  What is assumed of the surroundings: a disk that is always ready and delivers the addressed sector
  (\<open>drive_of\<close>); load functions of modules that leave the headers of modules alone; blocks of \<open>malloc\<close> for key
  events that hold zero (\<open>blank_keys\<close>, in Console only). Arguments of the model are what the code finds and
  cannot foresee: the content of fresh blocks (\<open>blk\<close> in Fat), how often a waiter of a pipe
  waits for it (\<open>awaits\<close>), the room in the shell's input at each line (\<open>room\<close> in Terminal), glyphs, and addresses.
  The properties of Programs are about a standard output that is a file in memory; the pipes that the terminal
  gives its shell are the subject of Pipe.

  Not modelled: ACPICA (\<open>os/kernel/dev/acpica\<close>, third-party code, by far the largest part of the tree) and
  the files it replaced (\<open>proc_old.c\<close>, \<open>vfs_old.c\<close>, not compiled); assembly (boot, context switch entry,
  \<open>crt0\<close>), whose effect on registers is described where C code relies on it; output for humans (logging, the
  dump functions); the widgets of \<open>libs/cserv\<close>, which are abstract; the test modules, which only print.
\<close>

end
